(* ===== verification/Prelude.thy ===== *)
theory Prelude
  imports Main "HOL-Library.Word"
begin

text \<open>
  Shared vocabulary of the development: bytes, the result type of code that may fault, reads from
  C buffers, NUL terminated strings, and little endian integers. A byte is a \<^typ>\<open>char\<close>, so
  that C string literals stay readable. Everything a C program can do beyond returning is a value:
  \<open>Inl\<close> of a \<open>fault\<close> means that the process does not get past that point (or that the C standard
  gives the access no meaning), \<open>Inr\<close> that it returned.
\<close>

named_theorems res_simps \<open>rewrite rules of the fault monad\<close>
named_theorems byte_simps \<open>lengths, prefixes and decodings of encoded integers\<close>
named_theorems cstr_simps \<open>reading NUL terminated strings\<close>
named_theorems eval_simps \<open>evaluation of closed terms in witnesses\<close>

section \<open>Faults and sequencing\<close>

datatype fault =
    NullDeref      \<comment> \<open>a NULL pointer is dereferenced\<close>
  | OutOfBounds    \<comment> \<open>a read or write past the end of an allocated block\<close>
  | AssertFailed   \<comment> \<open>assert() fails\<close>
  | Aborted        \<comment> \<open>the code calls abort()\<close>
  | Indeterminate  \<comment> \<open>a decision on bytes the program never wrote\<close>
  | Diverges       \<comment> \<open>a loop that never ends\<close>
  | DoubleFree     \<comment> \<open>a block is freed twice\<close>

type_synonym 'a res = "fault + 'a"

definition bindE :: "'a res \<Rightarrow> ('a \<Rightarrow> 'b res) \<Rightarrow> 'b res" where
  "bindE m f = (case m of Inl e \<Rightarrow> Inl e | Inr x \<Rightarrow> f x)"

definition assertE :: "bool \<Rightarrow> unit res" where
  "assertE b = (if b then Inr () else Inl AssertFailed)"

lemma bindE_Inl [simp]: "bindE (Inl e) f = Inl e"
  by (simp add: bindE_def)

lemma bindE_Inr [simp]: "bindE (Inr x) f = f x"
  by (simp add: bindE_def)

lemma bindE_eq_Inr [res_simps]: "bindE m f = Inr y \<longleftrightarrow> (\<exists>x. m = Inr x \<and> f x = Inr y)"
  by (cases m) simp_all

lemma bindE_eq_Inl [res_simps]:
  "bindE m f = Inl e \<longleftrightarrow> m = Inl e \<or> (\<exists>x. m = Inr x \<and> f x = Inl e)"
  by (cases m) simp_all

lemma bindE_assoc [res_simps]: "bindE (bindE m f) g = bindE m (\<lambda>x. bindE (f x) g)"
  by (cases m) simp_all

lemma bindE_cong [fundef_cong]:
  "m = m' \<Longrightarrow> (\<And>x. m' = Inr x \<Longrightarrow> f x = f' x) \<Longrightarrow> bindE m f = bindE m' f'"
  by (cases m') simp_all

lemma bindE_InrE:
  assumes "bindE m f = Inr y"
  obtains x where "m = Inr x" "f x = Inr y"
  using assms by (auto simp: res_simps)

lemma assertE_eq [res_simps]:
  "assertE b = Inr u \<longleftrightarrow> b"
  "assertE b = Inl e \<longleftrightarrow> \<not> b \<and> e = AssertFailed"
  by (auto simp: assertE_def)

lemma assertE_True [simp]: "assertE True = Inr ()"
  by (simp add: assertE_def)

text \<open>A computation that cannot fault.\<close>

definition runs :: "'a res \<Rightarrow> bool" where
  "runs m = (case m of Inl _ \<Rightarrow> False | Inr _ \<Rightarrow> True)"

lemma runs_Inl [simp]: "\<not> runs (Inl e)" and runs_Inr [simp]: "runs (Inr x)"
  by (simp_all add: runs_def)

lemma runs_iff: "runs m \<longleftrightarrow> (\<exists>x. m = Inr x)"
  by (cases m) simp_all

lemma runs_bindE [intro]:
  "runs m \<Longrightarrow> (\<And>x. m = Inr x \<Longrightarrow> runs (f x)) \<Longrightarrow> runs (bindE m f)"
  by (cases m) simp_all

section \<open>Bytes and C buffers\<close>

type_synonym byte = char
type_synonym bytes = "char list"

abbreviation NUL :: byte where
  "NUL \<equiv> CHR 0x00"

text \<open>\<open>n\<close> bytes at offset \<open>off\<close> of an allocated block: a read past its end is a fault.\<close>

definition rd :: "bytes \<Rightarrow> nat \<Rightarrow> nat \<Rightarrow> bytes res" where
  "rd buf off n = (if off + n \<le> length buf then Inr (take n (drop off buf)) else Inl OutOfBounds)"

text \<open>\<open>memcpy\<close> of \<open>n\<close> bytes from a pointer that may be NULL; copying no bytes reads nothing.\<close>

fun memcpy_from :: "bytes option \<Rightarrow> nat \<Rightarrow> bytes res" where
  "memcpy_from None n = (if n = 0 then Inr [] else Inl NullDeref)"
| "memcpy_from (Some buf) n = rd buf 0 n"

lemma rd_eq [res_simps]:
  "rd buf off n = Inr x \<longleftrightarrow> off + n \<le> length buf \<and> x = take n (drop off buf)"
  "rd buf off n = Inl e \<longleftrightarrow> length buf < off + n \<and> e = OutOfBounds"
  by (auto simp: rd_def)

lemma runs_rd [simp]: "runs (rd buf off n) \<longleftrightarrow> off + n \<le> length buf"
  by (simp add: rd_def)

lemma rd_append [byte_simps]:
  "length xs = off \<Longrightarrow> length ys = n \<Longrightarrow> rd (xs @ ys @ zs) off n = Inr ys"
  by (simp add: rd_def)

lemma rd_whole [byte_simps]: "length ys = n \<Longrightarrow> rd ys 0 n = Inr ys"
  by (simp add: rd_def)

text \<open>
  \<open>cstr\<close> is what \<open>strlen\<close>, \<open>strcmp\<close> or \<open>%s\<close> see of a block: the bytes up to the first NUL. A
  block without a NUL makes them run past its end.
\<close>

definition cstr :: "bytes \<Rightarrow> bytes res" where
  "cstr buf =
     (if NUL \<in> set buf then Inr (takeWhile (\<lambda>c. c \<noteq> NUL) buf) else Inl OutOfBounds)"

fun cstrp :: "bytes option \<Rightarrow> bytes res" where
  "cstrp None = Inl NullDeref"
| "cstrp (Some buf) = cstr buf"

text \<open>A C string literal or the buffer of a \<open>strdup\<close>: the text and its NUL.\<close>

definition zstr :: "bytes \<Rightarrow> bytes" where
  "zstr s = s @ [NUL]"

lemma takeWhile_no_NUL: "NUL \<notin> set s \<Longrightarrow> takeWhile (\<lambda>c. c \<noteq> NUL) s = s"
  by (induction s) auto

lemma takeWhile_zstr:
  "NUL \<notin> set s \<Longrightarrow> takeWhile (\<lambda>c. c \<noteq> NUL) (s @ NUL # r) = s"
  by (induction s) auto

lemma cstr_zstr [cstr_simps]: "NUL \<notin> set s \<Longrightarrow> cstr (zstr s @ r) = Inr s"
  by (simp add: cstr_def zstr_def takeWhile_zstr)

lemma cstr_zstr' [cstr_simps]: "NUL \<notin> set s \<Longrightarrow> cstr (zstr s) = Inr s"
  using cstr_zstr[of s "[]"] by simp

lemma cstr_eq_Inr: "cstr buf = Inr s \<Longrightarrow> NUL \<notin> set s \<and> (\<exists>r. buf = zstr s @ r)"
proof -
  assume a: "cstr buf = Inr s"
  then have n: "NUL \<in> set buf" and s: "s = takeWhile (\<lambda>c. c \<noteq> NUL) buf"
    by (auto simp: cstr_def split: if_splits)
  let ?d = "dropWhile (\<lambda>c. c \<noteq> NUL) buf"
  have "?d \<noteq> []" using n by (simp add: dropWhile_eq_Nil_conv)
  then obtain r where "?d = NUL # r"
    using hd_dropWhile[of "\<lambda>c. c \<noteq> NUL" buf] by (cases ?d) auto
  then have "buf = zstr s @ r"
    using takeWhile_dropWhile_id[of "\<lambda>c. c \<noteq> NUL" buf] s by (simp add: zstr_def)
  moreover have "NUL \<notin> set s" using s set_takeWhileD by fastforce
  ultimately show ?thesis by blast
qed

lemma length_zstr [simp]: "length (zstr s) = Suc (length s)"
  by (simp add: zstr_def)

lemma zstr_not_Nil [simp]: "zstr s \<noteq> []"
  by (simp add: zstr_def)

lemma zstr_eq [simp]: "zstr s = zstr t \<longleftrightarrow> s = t"
  by (simp add: zstr_def)

lemma zstr_append_inject:
  assumes "NUL \<notin> set s" "NUL \<notin> set t" "zstr s @ x = zstr t @ y"
  shows "s = t \<and> x = y"
proof -
  have "cstr (zstr s @ x) = cstr (zstr t @ y)" using assms(3) by simp
  then have "s = t" using assms(1,2) by (simp add: cstr_simps)
  with assms(3) show ?thesis by simp
qed

section \<open>Little endian integers\<close>

text \<open>
  The code copies integers with \<open>memcpy\<close>, so their layout is the host's; the model fixes the
  little endian layout of the x86 targets.
\<close>

fun le_bytes :: "nat \<Rightarrow> nat \<Rightarrow> bytes" where
  "le_bytes 0 k = []"
| "le_bytes (Suc n) k = char_of (k mod 256) # le_bytes n (k div 256)"

fun le_nat :: "bytes \<Rightarrow> nat" where
  "le_nat [] = 0"
| "le_nat (c # cs) = of_char c + 256 * le_nat cs"

lemma length_le_bytes [simp]: "length (le_bytes n k) = n"
  by (induction n arbitrary: k) simp_all

lemma le_bytes_numeral [eval_simps]:
  "le_bytes (numeral n) k = char_of (k mod 256) # le_bytes (pred_numeral n) (k div 256)"
  by (subst numeral_eq_Suc) (rule le_bytes.simps(2))

lemma of_char_lt: "(of_char c :: nat) < 256"
  using nat_of_char_less_256 by simp

lemma le_nat_bytes_mod: "le_nat (le_bytes n k) = k mod 256 ^ n"
proof (induction n arbitrary: k)
  case 0
  then show ?case by simp
next
  case (Suc n)
  have "le_nat (le_bytes (Suc n) k) = k mod 256 + 256 * (k div 256 mod 256 ^ n)"
    using Suc.IH by simp
  also have "\<dots> = k mod (256 * 256 ^ n)"
    by (simp add: mod_mult2_eq)
  finally show ?case by simp
qed

lemma le_nat_bytes [byte_simps]: "k < 256 ^ n \<Longrightarrow> le_nat (le_bytes n k) = k"
  by (simp add: le_nat_bytes_mod)

lemma le_bytes_nat [byte_simps]: "length cs = n \<Longrightarrow> le_bytes n (le_nat cs) = cs"
  by (induction cs arbitrary: n) (auto simp: of_char_lt)

lemma le_nat_bound: "le_nat cs < 256 ^ length cs"
proof (induction cs)
  case Nil
  then show ?case by simp
next
  case (Cons c cs)
  define P :: nat where "P = 256 ^ length cs"
  have "(of_char c :: nat) < 256" by (rule of_char_lt)
  moreover have "le_nat cs < P" using Cons.IH by (simp add: P_def)
  ultimately have "of_char c + 256 * le_nat cs < 256 * P" by linarith
  then show ?case by (simp add: P_def)
qed

text \<open>Words of 16, 32 and 64 bits as byte sequences.\<close>

definition w16_bytes :: "16 word \<Rightarrow> bytes" where
  "w16_bytes w = le_bytes 2 (unat w)"

definition w32_bytes :: "32 word \<Rightarrow> bytes" where
  "w32_bytes w = le_bytes 4 (unat w)"

definition w64_bytes :: "64 word \<Rightarrow> bytes" where
  "w64_bytes w = le_bytes 8 (unat w)"

lemma length_w_bytes [simp]:
  "length (w16_bytes a) = 2" "length (w32_bytes b) = 4" "length (w64_bytes c) = 8"
  by (simp_all add: w16_bytes_def w32_bytes_def w64_bytes_def)

lemma unat_w16 [simp]: "le_nat (w16_bytes w) = unat w"
  using unsigned_less[of w, where ?'a = nat] by (simp add: w16_bytes_def le_nat_bytes)

lemma unat_w32 [simp]: "le_nat (w32_bytes w) = unat w"
  using unsigned_less[of w, where ?'a = nat] by (simp add: w32_bytes_def le_nat_bytes)

lemma unat_w64 [simp]: "le_nat (w64_bytes w) = unat w"
  using unsigned_less[of w, where ?'a = nat] by (simp add: w64_bytes_def le_nat_bytes)

section \<open>Decimal output\<close>

text \<open>\<open>%d\<close> of an \<open>int\<close>.\<close>

definition dec_digit :: "nat \<Rightarrow> byte" where
  "dec_digit d = char_of (48 + d)"

fun dec_nat :: "nat \<Rightarrow> bytes" where
  "dec_nat n = (if n < 10 then [dec_digit n] else dec_nat (n div 10) @ [dec_digit (n mod 10)])"

declare dec_nat.simps [simp del]

definition dec_int :: "int \<Rightarrow> bytes" where
  "dec_int i = (if i < 0 then CHR ''-'' # dec_nat (nat (- i)) else dec_nat (nat i))"

lemma of_char_dec_digit: "d < 10 \<Longrightarrow> (of_char (dec_digit d) :: nat) = 48 + d"
  by (simp add: dec_digit_def)

lemma dec_digit_inject: "d < 10 \<Longrightarrow> e < 10 \<Longrightarrow> dec_digit d = dec_digit e \<longleftrightarrow> d = e"
  by (metis of_char_dec_digit add_left_cancel)

lemma dec_nat_inject: "dec_nat m = dec_nat n \<longleftrightarrow> m = n"
proof
  have ne: "dec_nat k \<noteq> []" for k by (subst dec_nat.simps) simp
  show "dec_nat m = dec_nat n \<Longrightarrow> m = n"
  proof (induction m arbitrary: n rule: dec_nat.induct)
    case (1 m)
    show ?case
    proof (cases "m < 10")
      case True
      then have d: "dec_nat m = [dec_digit m]" by (simp add: dec_nat.simps)
      then have "n < 10" using "1.prems" ne[of "n div 10"]
        by (cases "n < 10") (auto simp: dec_nat.simps[of n])
      then have "dec_digit m = dec_digit n" using "1.prems" d by (simp add: dec_nat.simps[of n])
      then show ?thesis using True \<open>n < 10\<close> dec_digit_inject by blast
    next
      case False
      then have m: "dec_nat m = dec_nat (m div 10) @ [dec_digit (m mod 10)]"
        by (simp add: dec_nat.simps)
      then have n: "\<not> n < 10" using "1.prems" ne[of "m div 10"]
        by (auto simp: dec_nat.simps[of n])
      then have "dec_nat n = dec_nat (n div 10) @ [dec_digit (n mod 10)]"
        by (simp add: dec_nat.simps)
      then have "dec_nat (m div 10) = dec_nat (n div 10)" "dec_digit (m mod 10) = dec_digit (n mod 10)"
        using "1.prems" m by auto
      then have "m div 10 = n div 10" "m mod 10 = n mod 10"
        using "1.IH"[OF False] by (auto simp: dec_digit_inject)
      then show ?thesis by (metis div_mult_mod_eq)
    qed
  qed
qed simp

lemma dec_nat_digits: "c \<in> set (dec_nat n) \<Longrightarrow> 48 \<le> (of_char c :: nat) \<and> (of_char c :: nat) < 58"
proof (induction n rule: dec_nat.induct)
  case (1 n)
  show ?case
  proof (cases "n < 10")
    case True
    then show ?thesis using "1.prems" by (simp add: dec_nat.simps[of n] of_char_dec_digit)
  next
    case False
    then have "c \<in> set (dec_nat (n div 10)) \<or> c = dec_digit (n mod 10)"
      using "1.prems" by (auto simp: dec_nat.simps[of n])
    then show ?thesis using "1.IH"[OF False] by (auto simp: of_char_dec_digit)
  qed
qed

lemma dec_int_inject: "dec_int i = dec_int j \<longleftrightarrow> i = j"
proof -
  have "CHR ''-'' # x \<noteq> dec_nat k" for x k
  proof
    assume "CHR ''-'' # x = dec_nat k"
    then have "CHR ''-'' \<in> set (dec_nat k)" by (metis list.set_intros(1))
    from dec_nat_digits[OF this] show False by simp
  qed
  then have "dec_nat k \<noteq> CHR ''-'' # x" for x k by metis
  then show ?thesis
    using \<open>\<And>x k. CHR ''-'' # x \<noteq> dec_nat k\<close> by (auto simp: dec_int_def dec_nat_inject)
qed

lemma NUL_dec_int: "NUL \<notin> set (dec_int i)"
  using dec_nat_digits[of NUL] by (auto simp: dec_int_def)

declare rd_def [eval_simps] zstr_def [eval_simps] cstr_def [eval_simps]
  w16_bytes_def [eval_simps] w32_bytes_def [eval_simps] w64_bytes_def [eval_simps]

text \<open>\<open>greedy_realloc\<close> of \<open>src/shared/util.c\<close>: the new size of a block of \<open>allocated\<close> bytes of which \<open>need\<close> are wanted.\<close>

definition greedy_realloc :: "nat \<Rightarrow> nat \<Rightarrow> nat" where
  "greedy_realloc allocated need = (if need \<le> allocated then allocated else max 64 (need * 2))"

end
