(* ===== verification/Bx_Types.thy ===== *)
theory Bx_Types
  imports Prelude
begin

text \<open>
  The data that every component passes around: strings with an explicit length, typed values,
  keys, wire message codes (\<open>src/include/buxton.h\<close>, \<open>src/shared/buxton{string,data,key}.h\<close>)
  and the copying helpers of \<open>src/shared/util.c\<close>. Allocation is taken to succeed; the code's
  reaction to a failing allocation is \<open>abort()\<close> nearly everywhere.
\<close>

section \<open>Strings\<close>

text \<open>
  \<open>str_value\<close> is the block the pointer refers to (\<open>None\<close> is the NULL pointer), \<open>str_length\<close> the
  length field. The two are independent in C: some strings count their NUL and some do not.
\<close>

record BuxtonString =
  str_value :: "bytes option"
  str_length :: "32 word"

definition null_string :: BuxtonString where
  "null_string = \<lparr>str_value = None, str_length = 0\<rparr>"

definition buxton_string_pack :: "bytes \<Rightarrow> BuxtonString" where
  "buxton_string_pack s =
     \<lparr>str_value = Some (zstr s), str_length = word_of_nat (length s) + 1\<rparr>"

text \<open>The bytes within the length field: what the serialisers and the backends look at.\<close>

definition str_bytes :: "BuxtonString \<Rightarrow> bytes" where
  "str_bytes s =
     (case str_value s of None \<Rightarrow> [] | Some b \<Rightarrow> take (unat (str_length s)) b)"

definition str_ok :: "BuxtonString \<Rightarrow> bool" where
  "str_ok s = (case str_value s of
       None \<Rightarrow> str_length s = 0
     | Some b \<Rightarrow> unat (str_length s) \<le> length b)"

text \<open>A string whose block is exactly as long as the length field says.\<close>

definition str_exact :: "BuxtonString \<Rightarrow> bool" where
  "str_exact s = (case str_value s of
       None \<Rightarrow> str_length s = 0
     | Some b \<Rightarrow> unat (str_length s) = length b)"

section \<open>Typed values\<close>

text \<open>
  \<open>BuxtonDataType\<close> is a C enum, but requests carry it as an arbitrary \<open>uint32_t\<close>, so it stays a
  32-bit word with the enumerators as constants.
\<close>

type_synonym BuxtonDataType = "32 word"

abbreviation (input) "BUXTON_TYPE_MIN \<equiv> 0 :: BuxtonDataType"
abbreviation (input) "BUXTON_TYPE_STRING \<equiv> 1 :: BuxtonDataType"
abbreviation (input) "BUXTON_TYPE_INT32 \<equiv> 2 :: BuxtonDataType"
abbreviation (input) "BUXTON_TYPE_UINT32 \<equiv> 3 :: BuxtonDataType"
abbreviation (input) "BUXTON_TYPE_INT64 \<equiv> 4 :: BuxtonDataType"
abbreviation (input) "BUXTON_TYPE_UINT64 \<equiv> 5 :: BuxtonDataType"
abbreviation (input) "BUXTON_TYPE_FLOAT \<equiv> 6 :: BuxtonDataType"
abbreviation (input) "BUXTON_TYPE_DOUBLE \<equiv> 7 :: BuxtonDataType"
abbreviation (input) "BUXTON_TYPE_BOOLEAN \<equiv> 8 :: BuxtonDataType"
abbreviation (input) "BUXTON_TYPE_UNSET \<equiv> 9 :: BuxtonDataType"
abbreviation (input) "BUXTON_TYPE_MAX \<equiv> 10 :: BuxtonDataType"

text \<open>
  \<open>BuxtonData\<close> is a tag and a union. Floating point values are their bit patterns and a
  \<open>bool\<close> is its byte, since the code only moves and compares their bytes. \<open>DZero\<close> is the all-zero
  struct that \<open>malloc0\<close> returns: type \<open>BUXTON_TYPE_MIN\<close>, every byte of the union 0.
\<close>

datatype BuxtonData =
    DZero
  | DString BuxtonString
  | DInt32 "32 word"
  | DUInt32 "32 word"
  | DInt64 "64 word"
  | DUInt64 "64 word"
  | DFloat "32 word"
  | DDouble "64 word"
  | DBoolean byte

fun data_type :: "BuxtonData \<Rightarrow> BuxtonDataType" where
  "data_type DZero = BUXTON_TYPE_MIN"
| "data_type (DString _) = BUXTON_TYPE_STRING"
| "data_type (DInt32 _) = BUXTON_TYPE_INT32"
| "data_type (DUInt32 _) = BUXTON_TYPE_UINT32"
| "data_type (DInt64 _) = BUXTON_TYPE_INT64"
| "data_type (DUInt64 _) = BUXTON_TYPE_UINT64"
| "data_type (DFloat _) = BUXTON_TYPE_FLOAT"
| "data_type (DDouble _) = BUXTON_TYPE_DOUBLE"
| "data_type (DBoolean _) = BUXTON_TYPE_BOOLEAN"

text \<open>The bytes a \<open>memcpy\<close> of the union member of a scalar sees.\<close>

fun scalar_bytes :: "BuxtonData \<Rightarrow> bytes" where
  "scalar_bytes (DInt32 w) = w32_bytes w"
| "scalar_bytes (DUInt32 w) = w32_bytes w"
| "scalar_bytes (DInt64 w) = w64_bytes w"
| "scalar_bytes (DUInt64 w) = w64_bytes w"
| "scalar_bytes (DFloat w) = w32_bytes w"
| "scalar_bytes (DDouble w) = w64_bytes w"
| "scalar_bytes (DBoolean b) = [b]"
| "scalar_bytes _ = []"

fun data_ok :: "BuxtonData \<Rightarrow> bool" where
  "data_ok DZero = False"
| "data_ok (DString s) = str_ok s"
| "data_ok _ = True"

definition buxton_string_to_data :: "BuxtonString \<Rightarrow> BuxtonData" where
  "buxton_string_to_data s = DString s"

definition buxton_type_as_string :: "BuxtonDataType \<Rightarrow> string" where
  "buxton_type_as_string t =
     (if t = BUXTON_TYPE_STRING then ''string''
      else if t = BUXTON_TYPE_INT32 then ''int32_t''
      else if t = BUXTON_TYPE_UINT32 then ''uint32_t''
      else if t = BUXTON_TYPE_INT64 then ''int64_t''
      else if t = BUXTON_TYPE_UINT64 then ''uint64_t''
      else if t = BUXTON_TYPE_FLOAT then ''float''
      else if t = BUXTON_TYPE_DOUBLE then ''double''
      else if t = BUXTON_TYPE_BOOLEAN then ''boolean''
      else ''[unknown]'')"

section \<open>Keys\<close>

record BuxtonKey =
  key_group :: BuxtonString
  key_name :: BuxtonString
  key_layer :: BuxtonString
  key_type :: BuxtonDataType

text \<open>\<open>_BuxtonKey key = {{0}, {0}, {0}, 0}\<close>.\<close>

definition zero_key :: BuxtonKey where
  "zero_key = \<lparr>key_group = null_string, key_name = null_string,
               key_layer = null_string, key_type = 0\<rparr>"

section \<open>Message codes\<close>

datatype BuxtonControlMessage =
    CONTROL_SET | CONTROL_SET_LABEL | CONTROL_CREATE_GROUP | CONTROL_REMOVE_GROUP
  | CONTROL_GET | CONTROL_UNSET | CONTROL_LIST | CONTROL_STATUS | CONTROL_NOTIFY
  | CONTROL_UNNOTIFY | CONTROL_CHANGED | CONTROL_GET_LABEL | CONTROL_LIST_NAMES

text \<open>The enumerators lie strictly between \<open>BUXTON_CONTROL_MIN\<close> = 0 and \<open>BUXTON_CONTROL_MAX\<close> = 14.\<close>

abbreviation (input) "BUXTON_CONTROL_MIN \<equiv> 0 :: nat"
abbreviation (input) "BUXTON_CONTROL_MAX \<equiv> 14 :: nat"

fun control_code :: "BuxtonControlMessage \<Rightarrow> nat" where
  "control_code CONTROL_SET = 1"
| "control_code CONTROL_SET_LABEL = 2"
| "control_code CONTROL_CREATE_GROUP = 3"
| "control_code CONTROL_REMOVE_GROUP = 4"
| "control_code CONTROL_GET = 5"
| "control_code CONTROL_UNSET = 6"
| "control_code CONTROL_LIST = 7"
| "control_code CONTROL_STATUS = 8"
| "control_code CONTROL_NOTIFY = 9"
| "control_code CONTROL_UNNOTIFY = 10"
| "control_code CONTROL_CHANGED = 11"
| "control_code CONTROL_GET_LABEL = 12"
| "control_code CONTROL_LIST_NAMES = 13"

definition all_controls :: "BuxtonControlMessage list" where
  "all_controls =
     [CONTROL_SET, CONTROL_SET_LABEL, CONTROL_CREATE_GROUP, CONTROL_REMOVE_GROUP, CONTROL_GET,
      CONTROL_UNSET, CONTROL_LIST, CONTROL_STATUS, CONTROL_NOTIFY, CONTROL_UNNOTIFY,
      CONTROL_CHANGED, CONTROL_GET_LABEL, CONTROL_LIST_NAMES]"

text \<open>The enumerator with a given code; \<open>None\<close> outside the valid range.\<close>

definition control_of_code :: "nat \<Rightarrow> BuxtonControlMessage option" where
  "control_of_code n =
     (if n \<le> BUXTON_CONTROL_MIN \<or> n \<ge> BUXTON_CONTROL_MAX then None
      else Some (all_controls ! (n - 1)))"

lemma control_code_range [simp]: "0 < control_code m" "control_code m < 14"
  by (cases m; simp)+

lemma control_of_code_code [simp]: "control_of_code (control_code m) = Some m"
  by (cases m) (simp_all add: control_of_code_def all_controls_def)

lemma control_code_inject [simp]: "control_code m = control_code m' \<longleftrightarrow> m = m'"
  by (metis control_of_code_code option.inject)

lemma control_of_code_Some: "control_of_code n = Some m \<longleftrightarrow> n = control_code m"
proof
  assume "control_of_code n = Some m"
  then have "n \<in> {1..<14}" and m: "m = all_controls ! (n - 1)"
    by (auto simp: control_of_code_def split: if_splits)
  then have "n \<in> set [1,2,3,4,5,6,7,8,9,10,11,12,13]"
    by (simp add: numeral_eq_Suc) arith
  then show "n = control_code m" by (auto simp: m all_controls_def)
qed simp

text \<open>The enum's order is the order of the codes: range checks on messages compare them.\<close>

instantiation BuxtonControlMessage :: linorder
begin

definition less_eq_BuxtonControlMessage ::
  "BuxtonControlMessage \<Rightarrow> BuxtonControlMessage \<Rightarrow> bool" where
  "less_eq_BuxtonControlMessage a b \<longleftrightarrow> control_code a \<le> control_code b"

definition less_BuxtonControlMessage ::
  "BuxtonControlMessage \<Rightarrow> BuxtonControlMessage \<Rightarrow> bool" where
  "less_BuxtonControlMessage a b \<longleftrightarrow> control_code a < control_code b"

instance
  by standard
    (auto simp: less_eq_BuxtonControlMessage_def less_BuxtonControlMessage_def)

end

section \<open>Copying\<close>

text \<open>
  \<open>calloc\<close> rounds blocks up. \<open>slack n\<close> is what lies readable behind the \<open>n\<close> bytes of a block of
  \<open>n\<close> zeroed bytes: a parameter of the model, since the allocator is not part of the program. It
  is visible because \<open>buxton_string_copy\<close> copies \<open>length\<close> bytes whether or not they include a NUL,
  and some callers then read the copy as a C string.
\<close>

type_synonym allocator = "nat \<Rightarrow> bytes"

definition buxton_string_copy :: "allocator \<Rightarrow> BuxtonString \<Rightarrow> BuxtonString res" where
  "buxton_string_copy slack original =
     bindE (memcpy_from (str_value original) (unat (str_length original)))
       (\<lambda>b. Inr \<lparr>str_value = Some (b @ slack (unat (str_length original))),
                 str_length = str_length original\<rparr>)"

text \<open>\<open>Inr None\<close> is the \<open>false\<close> of the code, for a value without a copyable type.\<close>

fun buxton_data_copy :: "BuxtonData \<Rightarrow> BuxtonData option res" where
  "buxton_data_copy DZero = Inr None"
| "buxton_data_copy (DString s) =
     bindE (memcpy_from (str_value s) (unat (str_length s)))
       (\<lambda>b. Inr (Some (DString \<lparr>str_value = Some b, str_length = str_length s\<rparr>)))"
| "buxton_data_copy d = Inr (Some d)"

text \<open>A member that is NULL in the original stays as the zeroed destination has it.\<close>

definition copy_member :: "allocator \<Rightarrow> BuxtonString \<Rightarrow> BuxtonString res" where
  "copy_member slack s =
     (case str_value s of None \<Rightarrow> Inr null_string | Some _ \<Rightarrow> buxton_string_copy slack s)"

definition buxton_key_copy :: "allocator \<Rightarrow> BuxtonKey \<Rightarrow> BuxtonKey res" where
  "buxton_key_copy slack original =
     bindE (copy_member slack (key_group original)) (\<lambda>g.
     bindE (copy_member slack (key_name original)) (\<lambda>n.
     bindE (copy_member slack (key_layer original)) (\<lambda>l.
     Inr \<lparr>key_group = g, key_name = n, key_layer = l, key_type = key_type original\<rparr>)))"

definition buxton_copy_key_group :: "allocator \<Rightarrow> BuxtonKey \<Rightarrow> BuxtonKey res" where
  "buxton_copy_key_group slack original =
     bindE (copy_member slack (key_group original)) (\<lambda>g.
     bindE (copy_member slack (key_layer original)) (\<lambda>l.
     Inr \<lparr>key_group = g, key_name = null_string, key_layer = l,
          key_type = BUXTON_TYPE_STRING\<rparr>))"

text \<open>\<open>get_group\<close>, \<open>get_name\<close> and \<open>get_layer\<close>: \<open>strdup\<close> of a member, NULL where it is NULL.\<close>

definition dup_member :: "BuxtonString \<Rightarrow> bytes option res" where
  "dup_member s = (case str_value s of
       None \<Rightarrow> Inr None
     | Some b \<Rightarrow> bindE (cstr b) (\<lambda>t. Inr (Some (zstr t))))"

definition get_group :: "BuxtonKey \<Rightarrow> bytes option res" where
  "get_group k = dup_member (key_group k)"

definition get_name :: "BuxtonKey \<Rightarrow> bytes option res" where
  "get_name k = dup_member (key_name k)"

definition get_layer :: "BuxtonKey \<Rightarrow> bytes option res" where
  "get_layer k = dup_member (key_layer k)"

text \<open>
  What a string means to the rest of the program: the text before its first NUL, when that NUL
  lies within the length field. Keys, group names and labels that arrive over the wire are of
  this form (\<open>buxton_deserialize_message\<close> insists on a final NUL).
\<close>

definition str_holds :: "BuxtonString \<Rightarrow> bytes \<Rightarrow> bool" where
  "str_holds s t \<longleftrightarrow>
     NUL \<notin> set t \<and> str_length s = word_of_nat (length t) + 1 \<and> length t + 1 < 2 ^ 32 \<and>
     (\<exists>r. str_value s = Some (zstr t @ r))"

lemma str_holds_length:
  "str_holds s t \<Longrightarrow> unat (str_length s) = length t + 1"
  by (auto simp: str_holds_def unat_word_ariths unat_of_nat)

lemma str_holds_bytes: "str_holds s t \<Longrightarrow> str_bytes s = zstr t"
  using str_holds_length[of s t] by (auto simp: str_holds_def str_bytes_def)

lemma str_holds_cstr: "str_holds s t \<Longrightarrow> cstrp (str_value s) = Inr t"
  by (auto simp: str_holds_def cstr_simps)

lemma str_holds_ok: "str_holds s t \<Longrightarrow> str_ok s"
  using str_holds_length[of s t] by (auto simp: str_holds_def str_ok_def)

lemma str_holds_value: "str_holds s t \<Longrightarrow> str_value s \<noteq> None"
  by (auto simp: str_holds_def)

lemma str_holds_pack:
  "NUL \<notin> set t \<Longrightarrow> length t + 1 < 2 ^ 32 \<Longrightarrow> str_holds (buxton_string_pack t) t"
  by (auto simp: str_holds_def buxton_string_pack_def)

lemma str_exact_ok: "str_exact s \<Longrightarrow> str_ok s"
  by (auto simp: str_exact_def str_ok_def split: option.splits)

lemma memcpy_from_str:
  "str_ok s \<Longrightarrow> memcpy_from (str_value s) (unat (str_length s)) = Inr (str_bytes s)"
  by (cases "str_value s") (auto simp: str_ok_def str_bytes_def rd_def)

lemma memcpy_from_str_iff:
  "memcpy_from (str_value s) (unat (str_length s)) = Inr b \<longleftrightarrow> str_ok s \<and> b = str_bytes s"
proof (cases "str_value s")
  case None
  then show ?thesis by (auto simp: str_ok_def str_bytes_def unat_eq_0)
next
  case (Some c)
  then show ?thesis by (auto simp: str_ok_def str_bytes_def rd_def)
qed

lemma length_str_bytes: "str_ok s \<Longrightarrow> length (str_bytes s) = unat (str_length s)"
  by (auto simp: str_ok_def str_bytes_def split: option.splits)

lemma buxton_string_copy_ok:
  "str_ok s \<Longrightarrow> buxton_string_copy slack s =
     Inr \<lparr>str_value = Some (str_bytes s @ slack (unat (str_length s))), str_length = str_length s\<rparr>"
  by (simp add: buxton_string_copy_def memcpy_from_str)

lemma buxton_string_copy_holds:
  assumes "str_holds s t"
  shows "\<exists>c. buxton_string_copy slack s = Inr c \<and> str_holds c t"
  using assms buxton_string_copy_ok[OF str_holds_ok[OF assms]] str_holds_bytes[OF assms]
  by (auto simp: str_holds_def)

lemma copy_member_holds:
  assumes "str_holds s t"
  shows "\<exists>c. copy_member slack s = Inr c \<and> str_holds c t"
  using assms buxton_string_copy_holds[OF assms] str_holds_value[OF assms]
  by (auto simp: copy_member_def)

lemma buxton_string_copy_bytes:
  "buxton_string_copy slack s = Inr c \<Longrightarrow> str_bytes c = str_bytes s \<and> str_ok c"
  by (auto simp: buxton_string_copy_def res_simps memcpy_from_str_iff str_bytes_def str_ok_def
      length_str_bytes split: option.splits)

lemma buxton_string_copy_same:
  assumes "str_ok s"
  obtains c where "buxton_string_copy slack s = Inr c" "str_bytes c = str_bytes s" "str_ok c"
    "str_value c \<noteq> None" "str_length c = str_length s"
  using buxton_string_copy_ok[OF assms] length_str_bytes[OF assms]
  by (simp add: that str_bytes_def str_ok_def)

lemma buxton_data_copy_eq:
  "buxton_data_copy d = Inr (Some c) \<Longrightarrow> data_type c = data_type d \<and> data_ok d"
  by (cases d) (auto simp: res_simps memcpy_from_str_iff)

lemma buxton_data_copy_scalar:
  "data_type d \<noteq> BUXTON_TYPE_STRING \<Longrightarrow> d \<noteq> DZero \<Longrightarrow> buxton_data_copy d = Inr (Some d)"
  by (cases d) auto

text \<open>Values and labels as a backend holds them: a block of exactly the recorded length.\<close>

definition stored_string :: "BuxtonString \<Rightarrow> bool" where
  "stored_string s = (case str_value s of None \<Rightarrow> False | Some b \<Rightarrow> unat (str_length s) = length b)"

fun stored_data :: "BuxtonData \<Rightarrow> bool" where
  "stored_data DZero = False"
| "stored_data (DString s) = stored_string s"
| "stored_data _ = True"

lemma stored_string_cases:
  assumes "stored_string s"
  obtains b where "s = \<lparr>str_value = Some b, str_length = word_of_nat (length b)\<rparr>"
    "length b < 2 ^ 32"
proof -
  obtain b where b: "str_value s = Some b" "unat (str_length s) = length b"
    using assms by (auto simp: stored_string_def split: option.splits)
  have "length b < 2 ^ 32"
    using unsigned_less[of "str_length s", where ?'a = nat] b(2) by simp
  then show ?thesis using that[of b] b by (cases s) (simp flip: b(2))
qed

text \<open>What a backend keeps of a value: its bytes up to the recorded length.\<close>

fun as_stored :: "BuxtonData \<Rightarrow> BuxtonData" where
  "as_stored (DString s) = DString \<lparr>str_value = Some (str_bytes s), str_length = str_length s\<rparr>"
| "as_stored d = d"

lemma as_stored_type [simp]: "data_type (as_stored d) = data_type d"
  by (cases d) auto

lemma buxton_data_copy_stored: "data_ok d \<Longrightarrow> buxton_data_copy d = Inr (Some (as_stored d))"
  by (cases d) (auto simp: memcpy_from_str)

text \<open>A label (or any string that is read with the C string functions): a NUL within its length.\<close>

definition reads_as :: "BuxtonString \<Rightarrow> bytes \<Rightarrow> bool" where
  "reads_as s t \<longleftrightarrow> str_ok s \<and> cstr (str_bytes s) = Inr t"

lemma reads_as_value: "reads_as s t \<Longrightarrow> str_value s \<noteq> None"
  by (auto simp: reads_as_def str_bytes_def cstr_def split: option.splits)

lemma reads_as_cstr:
  assumes "reads_as s t"
  shows "cstrp (str_value s) = Inr t"
proof -
  obtain b where b: "str_value s = Some b" using reads_as_value[OF assms] by auto
  obtain r where r: "NUL \<notin> set t" "str_bytes s = zstr t @ r"
    using assms cstr_eq_Inr by (auto simp: reads_as_def)
  have "b = str_bytes s @ drop (unat (str_length s)) b"
    by (simp add: b str_bytes_def)
  then have "b = zstr t @ (r @ drop (unat (str_length s)) b)" using r by simp
  with cstr_zstr[OF r(1), of "r @ drop (unat (str_length s)) b"] show ?thesis
    by (simp add: b)
qed

lemma str_holds_reads: "str_holds s t \<Longrightarrow> reads_as s t"
  using str_holds_ok[of s t] str_holds_bytes[of s t]
  by (simp add: reads_as_def cstr_simps str_holds_def)

end
