(* ===== verification/Ordered_Map.thy ===== *)
theory Ordered_Map
  imports Prelude
begin

text \<open>
  What \<open>src/shared/hashmap.h\<close> promises its users: a finite map whose entries are visited in the
  order of their insertion. The contract is stated as a locale (\<open>ordered_map\<close>) and as its simplest
  model, an association list in iteration order. The other components use the association list;
  theory \<open>Hashmap\<close> shows that the hash table of \<open>src/shared/hashmap.c\<close> keeps the same contract.
\<close>

named_theorems hm_simps \<open>lookups after updates of an ordered map\<close>

abbreviation (input) "ENOENT \<equiv> 2 :: int"
abbreviation (input) "EEXIST \<equiv> 17 :: int"

section \<open>Association lists in iteration order\<close>

definition hm_get :: "('k \<times> 'v) list \<Rightarrow> 'k \<Rightarrow> 'v option" where
  "hm_get m k = map_of m k"

definition hm_put :: "('k \<times> 'v) list \<Rightarrow> 'k \<Rightarrow> 'v \<Rightarrow> int \<times> ('k \<times> 'v) list" where
  "hm_put m k v = (case hm_get m k of
       Some w \<Rightarrow> (if w = v then 0 else - EEXIST, m)
     | None \<Rightarrow> (1, m @ [(k, v)]))"

text \<open>Overwriting a value in place keeps the position of its entry.\<close>

definition hm_set :: "('k \<times> 'v) list \<Rightarrow> 'k \<Rightarrow> 'v \<Rightarrow> ('k \<times> 'v) list" where
  "hm_set m k v = map (\<lambda>e. if fst e = k then (k, v) else e) m"

definition hm_update :: "('k \<times> 'v) list \<Rightarrow> 'k \<Rightarrow> 'v \<Rightarrow> int \<times> ('k \<times> 'v) list" where
  "hm_update m k v = (case hm_get m k of None \<Rightarrow> (- ENOENT, m) | Some _ \<Rightarrow> (0, hm_set m k v))"

definition hm_remove :: "('k \<times> 'v) list \<Rightarrow> 'k \<Rightarrow> 'v option \<times> ('k \<times> 'v) list" where
  "hm_remove m k = (hm_get m k, filter (\<lambda>e. fst e \<noteq> k) m)"

definition hm_ok :: "('k \<times> 'v) list \<Rightarrow> bool" where
  "hm_ok m \<longleftrightarrow> distinct (map fst m)"

lemma hm_get_Nil [simp]: "hm_get [] k = None"
  by (simp add: hm_get_def)

lemma hm_ok_Nil [simp]: "hm_ok []"
  by (simp add: hm_ok_def)

lemma hm_get_append [hm_simps]:
  "hm_get (m @ n) k = (case hm_get m k of None \<Rightarrow> hm_get n k | Some v \<Rightarrow> Some v)"
  by (simp add: hm_get_def map_add_def split: option.splits)

lemma hm_get_single [hm_simps]: "hm_get [(k, v)] j = (if j = k then Some v else None)"
  by (simp add: hm_get_def)

lemma hm_get_set [hm_simps]:
  "hm_get (hm_set m k v) j = (if j = k \<and> hm_get m k \<noteq> None then Some v else hm_get m j)"
  by (induction m) (auto simp: hm_set_def hm_get_def)

lemma hm_get_remove [hm_simps]:
  "hm_get (snd (hm_remove m k)) j = (if j = k then None else hm_get m j)"
  by (induction m) (auto simp: hm_remove_def hm_get_def)

lemma hm_get_update [hm_simps]:
  "hm_get (snd (hm_update m k v)) j = (if j = k \<and> hm_get m k \<noteq> None then Some v else hm_get m j)"
  by (auto simp: hm_update_def hm_get_set split: option.splits)

lemma hm_get_put [hm_simps]:
  "hm_get (snd (hm_put m k v)) j =
     (case hm_get m k of None \<Rightarrow> if j = k then Some v else hm_get m j | Some _ \<Rightarrow> hm_get m j)"
  by (auto simp: hm_put_def hm_get_append hm_get_single split: option.splits)

lemma map_fst_hm_set [simp]: "map fst (hm_set m k v) = map fst m"
  by (auto simp: hm_set_def)

lemma set_hm_set: "e \<in> set (hm_set m k v) \<Longrightarrow> e = (k, v) \<or> e \<in> set m"
  by (auto simp: hm_set_def)

lemma hm_get_None: "hm_get m k = None \<longleftrightarrow> k \<notin> fst ` set m"
  by (simp add: hm_get_def map_of_eq_None_iff)

lemma hm_ok_put: "hm_ok m \<Longrightarrow> hm_ok (snd (hm_put m k v))"
  by (auto simp: hm_put_def hm_ok_def hm_get_None split: option.splits)

lemma hm_ok_set: "hm_ok m \<Longrightarrow> hm_ok (hm_set m k v)"
  by (simp add: hm_ok_def)

lemma hm_ok_update: "hm_ok m \<Longrightarrow> hm_ok (snd (hm_update m k v))"
  by (auto simp: hm_update_def hm_ok_set split: option.splits)

lemma hm_ok_remove: "hm_ok m \<Longrightarrow> hm_ok (snd (hm_remove m k))"
  by (simp add: hm_remove_def hm_ok_def distinct_map_filter)

lemma hm_get_in_set: "hm_ok m \<Longrightarrow> hm_get m k = Some v \<longleftrightarrow> (k, v) \<in> set m"
  by (simp add: hm_get_def hm_ok_def)

lemma hm_get_filter:
  assumes "hm_ok m"
  shows "hm_get (filter P m) k = Some v \<longleftrightarrow> hm_get m k = Some v \<and> P (k, v)"
proof -
  have "hm_ok (filter P m)" using assms by (simp add: hm_ok_def distinct_map_filter)
  then show ?thesis using assms by (simp add: hm_get_in_set)
qed

lemmas hm_ok_intros = hm_ok_put hm_ok_set hm_ok_update hm_ok_remove

section \<open>The contract\<close>

text \<open>
  \<open>alist\<close> abstracts a table to its entries in iteration order; \<open>room\<close> says that a further entry
  fits. Every operation may fault, and the contract says that it does not.
\<close>

locale ordered_map =
  fixes inv :: "'m \<Rightarrow> bool"
    and room :: "'m \<Rightarrow> bool"
    and alist :: "'m \<Rightarrow> ('k \<times> 'v) list"
    and get :: "'m \<Rightarrow> 'k \<Rightarrow> 'v option res"
    and put :: "'m \<Rightarrow> 'k \<Rightarrow> 'v \<Rightarrow> (int \<times> 'm) res"
    and update :: "'m \<Rightarrow> 'k \<Rightarrow> 'v \<Rightarrow> (int \<times> 'm) res"
    and remove :: "'m \<Rightarrow> 'k \<Rightarrow> ('v option \<times> 'm) res"
  assumes inv_distinct: "inv m \<Longrightarrow> hm_ok (alist m)"
    and get_alist: "inv m \<Longrightarrow> get m k = Inr (hm_get (alist m) k)"
    and put_alist: "inv m \<Longrightarrow> room m \<Longrightarrow>
      \<exists>m'. put m k v = Inr (fst (hm_put (alist m) k v), m') \<and> inv m' \<and>
           alist m' = snd (hm_put (alist m) k v)"
    and update_alist: "inv m \<Longrightarrow>
      \<exists>m'. update m k v = Inr (fst (hm_update (alist m) k v), m') \<and> inv m' \<and>
           alist m' = snd (hm_update (alist m) k v)"
    and remove_alist: "inv m \<Longrightarrow>
      \<exists>m'. remove m k = Inr (hm_get (alist m) k, m') \<and> inv m' \<and>
           alist m' = snd (hm_remove (alist m) k)"
begin

lemma get_after_put:
  assumes "inv m" "room m" "put m k v = Inr (r, m')"
  shows "inv m' \<and> get m' j = Inr (if j = k \<and> r = 1 then Some v else hm_get (alist m) j)"
proof -
  obtain m'' where m'': "put m k v = Inr (fst (hm_put (alist m) k v), m'')" "inv m''"
    "alist m'' = snd (hm_put (alist m) k v)"
    using put_alist[OF assms(1,2)] by blast
  then have "m' = m''" and r: "r = fst (hm_put (alist m) k v)" using assms(3) by auto
  with m'' show ?thesis
    by (auto simp: get_alist hm_put_def hm_get_append hm_get_single split: option.splits if_splits)
qed

lemma put_returns:
  assumes "inv m" "room m" "put m k v = Inr (r, m')"
  shows "r = (case hm_get (alist m) k of None \<Rightarrow> 1 | Some w \<Rightarrow> if w = v then 0 else - EEXIST)"
  using put_alist[OF assms(1,2), of k v] assms(3)
  by (auto simp: hm_put_def split: option.splits)

lemma get_after_remove:
  assumes "inv m" "remove m k = Inr (r, m')"
  shows "inv m' \<and> r = hm_get (alist m) k \<and>
         get m' j = Inr (if j = k then None else hm_get (alist m) j)"
  using remove_alist[OF assms(1), of k] assms(2) by (auto simp: get_alist hm_simps)

lemma get_after_update:
  assumes "inv m" "update m k v = Inr (r, m')"
  shows "inv m' \<and> r = (if hm_get (alist m) k = None then - ENOENT else 0) \<and>
         get m' j = Inr (if j = k \<and> hm_get (alist m) k \<noteq> None then Some v else hm_get (alist m) j)"
  using update_alist[OF assms(1), of k v] assms(2)
  by (auto simp: get_alist hm_simps hm_update_def split: option.splits)

lemma remove_undoes_put:
  assumes "inv m" "room m" "put m k v = Inr (1, m')" "remove m' k = Inr (r, m'')"
  shows "r = Some v \<and> alist m'' = alist m"
proof -
  have new: "hm_get (alist m) k = None"
    using put_returns[OF assms(1-3)] by (auto split: option.splits if_splits)
  obtain m1 where "put m k v = Inr (fst (hm_put (alist m) k v), m1)" "inv m1"
    "alist m1 = snd (hm_put (alist m) k v)"
    using put_alist[OF assms(1,2)] by blast
  with assms(3) new have m': "inv m'" "alist m' = alist m @ [(k, v)]"
    by (auto simp: hm_put_def)
  have "filter (\<lambda>e. fst e \<noteq> k) (alist m) = alist m"
    using new by (auto simp: hm_get_None filter_id_conv)
  with remove_alist[OF m'(1), of k] m'(2) assms(4) new show ?thesis
    by (auto simp: hm_remove_def hm_get_append hm_get_single)
qed

end

interpretation al: ordered_map hm_ok "\<lambda>_. True" "\<lambda>m. m" "\<lambda>m k. Inr (hm_get m k)"
  "\<lambda>m k v. Inr (hm_put m k v)" "\<lambda>m k v. Inr (hm_update m k v)" "\<lambda>m k. Inr (hm_remove m k)"
  by unfold_locales (auto simp: hm_remove_def intro: hm_ok_put hm_ok_update hm_ok_remove
      hm_ok_remove[unfolded hm_remove_def, simplified])

end
