(* ===== verification/Smack.thy ===== *)
theory Smack
  imports Bx_Types Ordered_Map
begin

text \<open>
  Access control by Smack labels, \<open>src/security/smack.c\<close>: loading the kernel's rule file and
  deciding a request. The two static variables of the file are the record \<open>SmackState\<close>; what the
  kernel's file system gives is an argument of the loader.
\<close>

section \<open>State\<close>

abbreviation (input) "ACCESS_NONE \<equiv> 0 :: 32 word"
abbreviation (input) "ACCESS_READ \<equiv> 1 :: 32 word"
abbreviation (input) "ACCESS_WRITE \<equiv> 2 :: 32 word"
abbreviation (input) "SMACK_LABEL_LEN \<equiv> 255 :: nat"
abbreviation (input) "ACC_LEN \<equiv> 5 :: nat"

text \<open>\<open>smackrules\<close> is NULL until the rules are first loaded; its keys are \<open>subject object\<close>.\<close>

record SmackState =
  have_smack :: bool
  smackrules :: "(bytes \<times> 32 word) list option"

definition buxton_smack_enabled :: "SmackState \<Rightarrow> bool" where
  "buxton_smack_enabled s = have_smack s"

section \<open>Loading the rules\<close>

text \<open>What \<open>stat\<close>, \<open>fopen\<close> and reading give: no smackfs mount, no \<open>load2\<close> file, a file that cannot be
  opened, or a file with its contents and whether reading it ends with an I/O error.\<close>

datatype SmackFs =
    FsNotMounted
  | FsNoLoadFile
  | FsOpenError
  | FsFile (fs_contents: bytes) (fs_error: bool)

text \<open>White space as \<open>isspace\<close> has it, and the fields that successive \<open>%s\<close> conversions read.\<close>

definition isspace :: "byte \<Rightarrow> bool" where
  "isspace c \<longleftrightarrow> (of_char c :: nat) = 32 \<or> (9 \<le> (of_char c :: nat) \<and> (of_char c :: nat) \<le> 13)"

fun fields_from :: "bytes \<Rightarrow> bytes \<Rightarrow> bytes list" where
  "fields_from cur [] = (if cur = [] then [] else [rev cur])"
| "fields_from cur (c # cs) =
     (if isspace c then (if cur = [] then [] else [rev cur]) @ fields_from [] cs
      else fields_from (c # cur) cs)"

definition fields :: "bytes \<Rightarrow> bytes list" where
  "fields s = fields_from [] s"

text \<open>Storing a field and its NUL in a \<open>char[n]\<close>; what is then read as a string ends at a NUL.\<close>

definition scan_field :: "nat \<Rightarrow> bytes \<Rightarrow> bytes res" where
  "scan_field n f = (if length f < n then Inr (takeWhile (\<lambda>c. c \<noteq> NUL) f) else Inl OutOfBounds)"

definition access_of :: "bytes \<Rightarrow> 32 word" where
  "access_of a =
     or (if CHR ''r'' \<in> set a then ACCESS_READ else ACCESS_NONE)
        (if CHR ''w'' \<in> set a then ACCESS_WRITE else ACCESS_NONE)"

definition rule_pair :: "bytes \<Rightarrow> bytes \<Rightarrow> bytes" where
  "rule_pair subject object = subject @ '' '' @ object"

text \<open>
  The loading loop over the fields that are left. A conversion at the end of the file makes
  \<open>fscanf\<close> return less than three; when the file ends with an I/O error, the round that reaches its
  end sees \<open>ferror\<close>. A pair that is in the table already keeps its first access (\<open>hashmap_put\<close>).
\<close>

fun load_rules :: "bool \<Rightarrow> bytes list \<Rightarrow> (bytes \<times> 32 word) list \<Rightarrow>
    (bool \<times> (bytes \<times> 32 word) list) res" where
  "load_rules err [] m = Inr (\<not> err, m)"
| "load_rules err [s] m = bindE (scan_field (SMACK_LABEL_LEN + 1) s) (\<lambda>_. Inr (False, m))"
| "load_rules err [s, ob] m =
     bindE (scan_field (SMACK_LABEL_LEN + 1) s) (\<lambda>_.
     bindE (scan_field (SMACK_LABEL_LEN + 1) ob) (\<lambda>_. Inr (False, m)))"
| "load_rules err (s # ob # a # rest) m =
     bindE (scan_field (SMACK_LABEL_LEN + 1) s) (\<lambda>subject.
     bindE (scan_field (SMACK_LABEL_LEN + 1) ob) (\<lambda>object.
     bindE (scan_field ACC_LEN a) (\<lambda>access.
       if rest = [] \<and> err then Inr (False, m)
       else
         let m' = snd (hm_put m (rule_pair subject object) (access_of access))
         in if rest = [] then Inr (True, m') else load_rules err rest m')))"

definition buxton_cache_smack_rules :: "SmackFs \<Rightarrow> SmackState \<Rightarrow> (bool \<times> SmackState) res" where
  "buxton_cache_smack_rules fs s =
     (if \<not> have_smack s then Inr (True, s)
      else case fs of
          FsNotMounted \<Rightarrow> Inr (True, \<lparr>have_smack = False, smackrules = Some []\<rparr>)
        | FsNoLoadFile \<Rightarrow> Inr (True, \<lparr>have_smack = False, smackrules = Some []\<rparr>)
        | FsOpenError \<Rightarrow> Inr (False, \<lparr>have_smack = True, smackrules = Some []\<rparr>)
        | FsFile contents err \<Rightarrow> bindE (load_rules err (fields contents) [])
            (\<lambda>(ret, m). Inr (ret, \<lparr>have_smack = True, smackrules = Some m\<rparr>)))"

section \<open>Deciding a request\<close>

definition buxton_check_smack_access ::
  "SmackState \<Rightarrow> BuxtonString \<Rightarrow> BuxtonString \<Rightarrow> 32 word \<Rightarrow> bool res" where
  "buxton_check_smack_access st subject object request =
     (if \<not> have_smack st then Inr True
      else
       bindE (assertE (request = ACCESS_READ \<or> request = ACCESS_WRITE)) (\<lambda>_.
       bindE (assertE (smackrules st \<noteq> None)) (\<lambda>_.
       bindE (cstrp (str_value subject)) (\<lambda>s.
       if s = ''*'' then Inr False else
       bindE (cstrp (str_value object)) (\<lambda>ob.
         if ob = ''@'' \<or> s = ''@'' then Inr True
         else if ob = ''*'' then Inr True
         else if s = ob then Inr True
         else if request = ACCESS_READ \<and> ob = ''_'' then Inr True
         else if request = ACCESS_READ \<and> s = ''^'' then Inr True
         else case hm_get (the (smackrules st)) (rule_pair s ob) of
             None \<Rightarrow> Inr False
           | Some access \<Rightarrow> Inr (
               request = ACCESS_READ \<and> and access request \<noteq> 0 \<or>
               request = ACCESS_WRITE \<and> and access ACCESS_READ \<noteq> 0 \<and>
                 and access ACCESS_WRITE \<noteq> 0))))))"

section \<open>Lemmas\<close>

abbreviation (input) "SPACE \<equiv> CHR 0x20"

text \<open>A label as the kernel writes it, and an access string.\<close>

definition smack_word :: "nat \<Rightarrow> bytes \<Rightarrow> bool" where
  "smack_word n l \<longleftrightarrow> l \<noteq> [] \<and> length l < n \<and> NUL \<notin> set l \<and> (\<forall>c \<in> set l. \<not> isspace c)"

definition rule_ok :: "bytes \<times> bytes \<times> bytes \<Rightarrow> bool" where
  "rule_ok = (\<lambda>(s, ob, a). smack_word 256 s \<and> smack_word 256 ob \<and> smack_word 5 a)"

fun render_rules :: "(bytes \<times> bytes \<times> bytes) list \<Rightarrow> bytes" where
  "render_rules [] = []"
| "render_rules ((s, ob, a) # rs) =
     s @ SPACE # ob @ SPACE # a @ CHR 0x0A # render_rules rs"

lemma isspace_consts [simp]: "isspace CHR 0x20" "isspace CHR 0x0A"
  by (simp_all add: isspace_def)

lemma fields_word:
  "\<forall>c \<in> set w. \<not> isspace c \<Longrightarrow> fields_from cur (w @ r) = fields_from (rev w @ cur) r"
  by (induction w arbitrary: cur) auto

lemma fields_step:
  assumes "smack_word n w" "isspace c"
  shows "fields_from [] (w @ c # r) = w # fields_from [] r"
  using assms fields_word[of w "[]" "c # r"] by (simp add: smack_word_def)

lemma fields_render:
  assumes "\<forall>r \<in> set rs. rule_ok r"
  shows "fields (render_rules rs) = concat (map (\<lambda>(s, ob, a). [s, ob, a]) rs)"
proof -
  have "fields_from [] (render_rules rs) = concat (map (\<lambda>(s, ob, a). [s, ob, a]) rs)"
    using assms by (induction rs rule: render_rules.induct) (auto simp: rule_ok_def fields_step)
  then show ?thesis by (simp add: fields_def)
qed

lemma scan_word: "smack_word n w \<Longrightarrow> scan_field n w = Inr w"
  by (auto simp: smack_word_def scan_field_def takeWhile_no_NUL)

lemma word_no_space: "smack_word n w \<Longrightarrow> SPACE \<notin> set w"
  by (auto simp: smack_word_def)

lemma rule_pair_eq:
  assumes "SPACE \<notin> set s" "SPACE \<notin> set ob"
  shows "rule_pair s ob = rule_pair s' ob' \<longleftrightarrow> s = s' \<and> ob = ob'"
proof
  assume eq: "rule_pair s ob = rule_pair s' ob'"
  have "count_list (rule_pair s ob) SPACE = 1"
    using assms by (simp add: rule_pair_def count_notin)
  then have "count_list (rule_pair s' ob') SPACE = 1" by (simp only: eq)
  then have "count_list s' SPACE = 0" by (simp add: rule_pair_def)
  then have "SPACE \<notin> set s'" by (simp add: count_list_0_iff)
  moreover have "takeWhile (\<lambda>c. c \<noteq> SPACE) (rule_pair x y) = x" if "SPACE \<notin> set x" for x y
    using that by (induction x) (auto simp: rule_pair_def)
  ultimately have "s = s'" using eq assms by metis
  then show "s = s' \<and> ob = ob'" using eq by (simp add: rule_pair_def)
qed simp

lemma load_rendered:
  assumes "\<forall>r \<in> set rs. rule_ok r"
  shows "\<exists>m'. load_rules False (concat (map (\<lambda>(s, ob, a). [s, ob, a]) rs)) m = Inr (True, m') \<and>
     (\<forall>s ob. hm_get m' (rule_pair s ob) =
        (case hm_get m (rule_pair s ob) of
           Some w \<Rightarrow> Some w
         | None \<Rightarrow> map_option (\<lambda>(_, _, a). access_of a) (find (\<lambda>(x, y, _). x = s \<and> y = ob) rs)))"
  using assms
proof (induction rs arbitrary: m)
  case Nil
  then show ?case by (auto split: option.splits)
next
  case (Cons r rs)
  obtain s ob a where r: "r = (s, ob, a)" by (cases r)
  have w: "smack_word 256 s" "smack_word 256 ob" "smack_word 5 a"
    using Cons.prems by (auto simp: r rule_ok_def)
  define m1 where "m1 = snd (hm_put m (rule_pair s ob) (access_of a))"
  obtain m' where m': "load_rules False (concat (map (\<lambda>(s, ob, a). [s, ob, a]) rs)) m1 = Inr (True, m')"
    "\<And>x y. hm_get m' (rule_pair x y) = (case hm_get m1 (rule_pair x y) of Some w \<Rightarrow> Some w
       | None \<Rightarrow> map_option (\<lambda>(_, _, a). access_of a) (find (\<lambda>(u, v, _). u = x \<and> v = y) rs))"
    using Cons.IH[of m1] Cons.prems by auto
  let ?rest = "concat (map (\<lambda>(s, ob, a). [s, ob, a]) rs)"
  have "load_rules False (s # ob # a # ?rest) m = load_rules False ?rest m1"
    using w by (cases ?rest) (simp_all add: scan_word m1_def Let_def del: concat_eq_Nil_conv)
  moreover have "hm_get m1 (rule_pair x y) = (case hm_get m (rule_pair x y) of Some w \<Rightarrow> Some w
      | None \<Rightarrow> if x = s \<and> y = ob then Some (access_of a) else None)" for x y
    using rule_pair_eq[OF word_no_space[OF w(1)] word_no_space[OF w(2)], of x y]
    by (auto simp: m1_def hm_get_put split: option.splits)
  ultimately show ?case using m' by (auto simp: r split: option.splits)
qed

lemma access_bits:
  "and (access_of a) ACCESS_READ \<noteq> 0 \<longleftrightarrow> CHR ''r'' \<in> set a"
  "and (access_of a) ACCESS_WRITE \<noteq> 0 \<longleftrightarrow> CHR ''w'' \<in> set a"
  by (auto simp: access_of_def)

lemma check_runs:
  assumes "smackrules st \<noteq> None" "str_holds s t" "str_holds ob u" "request \<in> {ACCESS_READ, ACCESS_WRITE}"
  shows "runs (buxton_check_smack_access st s ob request)"
  using assms by (auto simp: buxton_check_smack_access_def str_holds_cstr split: option.splits)

lemma check_write_read:
  assumes "buxton_check_smack_access st subject object ACCESS_WRITE = Inr True"
  shows "buxton_check_smack_access st subject object ACCESS_READ = Inr True"
  using assms unfolding buxton_check_smack_access_def
  by (cases "have_smack st"; cases "smackrules st"; cases "cstrp (str_value subject)";
      cases "cstrp (str_value object)")
    (force simp: assertE_def split: if_splits option.splits)+

text \<open>C14. Loading a rule file as the kernel prints it succeeds, and then every request is decided for every
  pair of labels: a subject \<open>*\<close> gets nothing; a subject \<open>@\<close>, an object \<open>@\<close> or \<open>*\<close> and the subject's own label
  are granted; to read, so are the object \<open>_\<close> and everything to the subject \<open>^\<close>; all the rest is granted
  exactly when the first rule of the file for this subject and object has \<open>r\<close> (to read), or both \<open>r\<close> and \<open>w\<close>
  (to write). Labels with spaces never match a rule of another pair.\<close>

theorem loaded_rules_decide:
  assumes "have_smack s0" "\<forall>r \<in> set rules. rule_ok r"
    "str_holds subject sub" "str_holds object ob"
  shows "\<exists>s1. buxton_cache_smack_rules (FsFile (render_rules rules) False) s0 = Inr (True, s1) \<and>
     (let has = (\<lambda>c. \<exists>x y a. find (\<lambda>(x, y, _). x = sub \<and> y = ob) rules = Some (x, y, a) \<and> c \<in> set a) in
        buxton_check_smack_access s1 subject object ACCESS_READ =
          Inr (sub \<noteq> ''*'' \<and> (sub \<in> {''@'', ''^''} \<or> ob \<in> {''@'', ''*'', ''_'', sub} \<or> has (CHR ''r''))) \<and>
        buxton_check_smack_access s1 subject object ACCESS_WRITE =
          Inr (sub \<noteq> ''*'' \<and> (sub = ''@'' \<or> ob \<in> {''@'', ''*'', sub} \<or> has (CHR ''r'') \<and> has (CHR ''w''))))"
proof -
  obtain m where m: "load_rules False (fields (render_rules rules)) [] = Inr (True, m)"
    "\<And>x y. hm_get m (rule_pair x y) =
       map_option (\<lambda>(_, _, a). access_of a) (find (\<lambda>(u, v, _). u = x \<and> v = y) rules)"
    using load_rendered[OF assms(2), of "[]"] fields_render[OF assms(2)] by auto
  show ?thesis
    using assms(1) m
    by (auto simp: buxton_cache_smack_rules_def buxton_check_smack_access_def Let_def
        str_holds_cstr[OF assms(3)] str_holds_cstr[OF assms(4)] access_bits
        split: option.splits)
qed

definition sample_rules :: "(bytes \<times> bytes \<times> bytes) list" where
  "sample_rules = [(''System'', ''User'', ''rwxa''), (''User'', ''System'', ''r-x-''),
                   (''User'', ''System'', ''rw'')]"

theorem loaded_rules_decide_witness:
  "\<exists>s1. buxton_cache_smack_rules (FsFile (render_rules sample_rules) False)
       \<lparr>have_smack = True, smackrules = None\<rparr> = Inr (True, s1) \<and>
     buxton_check_smack_access s1 (buxton_string_pack ''User'') (buxton_string_pack ''System'')
       ACCESS_READ = Inr True \<and>
     buxton_check_smack_access s1 (buxton_string_pack ''User'') (buxton_string_pack ''System'')
       ACCESS_WRITE = Inr False"
proof -
  have ok: "\<forall>r \<in> set sample_rules. rule_ok r"
    by (simp add: sample_rules_def rule_ok_def smack_word_def isspace_def)
  have "str_holds (buxton_string_pack ''User'') ''User''"
    "str_holds (buxton_string_pack ''System'') ''System''"
    by (rule str_holds_pack; simp)+
  from loaded_rules_decide[OF _ ok this, of "\<lparr>have_smack = True, smackrules = None\<rparr>"]
  show ?thesis by (simp add: sample_rules_def Let_def)
qed

text \<open>A subject that may write an object may also read it, whatever the rules and the labels.\<close>

theorem write_access_implies_read:
  assumes "buxton_check_smack_access st subject object ACCESS_WRITE = Inr True"
  shows "buxton_check_smack_access st subject object ACCESS_READ = Inr True"
  by (rule check_write_read[OF assms])

theorem write_access_implies_read_witness:
  "buxton_check_smack_access \<lparr>have_smack = True, smackrules = Some [(''a b'', 3)]\<rparr>
     (buxton_string_pack ''a'') (buxton_string_pack ''b'') ACCESS_READ = Inr True"
  by (rule write_access_implies_read)
    (simp add: buxton_check_smack_access_def buxton_string_pack_def eval_simps rule_pair_def
      hm_get_def)

end
