(* ===== verification/Backend.thy ===== *)
theory Backend
  imports Bx_Types Ordered_Map
begin

text \<open>
  Layers and the choice of a backend for a layer: \<open>src/shared/backend.c\<close> and the types of
  \<open>src/shared/backend.h\<close>. A backend module is known by its type; whether \<open>dlopen\<close>, \<open>dlsym\<close> and
  the module's initialisation succeed for it is the argument \<open>module_ok\<close>.
\<close>

abbreviation (input) "EPERM \<equiv> 1 :: int"
abbreviation (input) "EINVAL \<equiv> 22 :: int"
abbreviation (input) "EROFS \<equiv> 30 :: int"

section \<open>Types\<close>

datatype BuxtonBackendType = BACKEND_UNSET | BACKEND_GDBM | BACKEND_MEMORY

datatype BuxtonLayerType = LAYER_SYSTEM | LAYER_USER

record BuxtonLayer =
  layer_name :: BuxtonString
  layer_type :: BuxtonLayerType
  layer_backend :: BuxtonBackendType
  layer_uid :: "32 word"
  layer_priority :: int
  layer_description :: "bytes option"
  layer_readonly :: bool

text \<open>A section of the configuration file (\<open>configurator.h\<close>); its strings without their NULs.\<close>

record ConfigLayer =
  conf_name :: bytes
  conf_type :: bytes
  conf_backend :: bytes
  conf_description :: "bytes option"
  conf_access :: bytes
  conf_priority :: int

record BuxtonConfig =
  databases :: "(bytes \<times> BuxtonBackendType) list option"
  layers :: "(bytes \<times> BuxtonLayer) list"
  backends :: "(bytes \<times> BuxtonBackendType) list option"

text \<open>
  The function table of a backend module, over the state \<open>'s\<close> of the module. \<open>get_value\<close> gives the
  value and the label it stored through its pointers, or \<open>None\<close> when it stored nothing; a NULL
  \<open>data\<close> in \<open>set_value\<close> changes the label only. \<open>list_keys\<close> and \<open>create_db\<close> are NULL in some modules.
\<close>

record 's BuxtonBackend =
  be_set_value :: "BuxtonLayer \<Rightarrow> BuxtonKey \<Rightarrow> BuxtonData option \<Rightarrow> BuxtonString \<Rightarrow> 's \<Rightarrow> (int \<times> 's) res"
  be_get_value :: "BuxtonLayer \<Rightarrow> BuxtonKey \<Rightarrow> 's \<Rightarrow>
     (int \<times> (BuxtonData \<times> BuxtonString) option \<times> 's) res"
  be_unset_value :: "BuxtonLayer \<Rightarrow> BuxtonKey \<Rightarrow> 's \<Rightarrow> (int \<times> 's) res"
  be_list_keys :: "(BuxtonLayer \<Rightarrow> 's \<Rightarrow> (BuxtonData list option \<times> 's) res) option"
  be_list_names :: "BuxtonLayer \<Rightarrow> BuxtonString option \<Rightarrow> BuxtonString option \<Rightarrow> 's \<Rightarrow>
     (BuxtonData list option \<times> 's) res"
  be_create_db :: "(BuxtonLayer \<Rightarrow> 's \<Rightarrow> (bool \<times> 's) res) option"

section \<open>Layers from the configuration\<close>

definition is_read_only :: "ConfigLayer \<Rightarrow> bool" where
  "is_read_only conf \<longleftrightarrow> conf_access conf = ''read-only''"

text \<open>The length of the name leaves out the NUL of its buffer.\<close>

definition buxton_layer_new :: "ConfigLayer \<Rightarrow> BuxtonLayer option" where
  "buxton_layer_new conf =
     (if conf_priority conf < 0 then None
      else
        case (if conf_type conf = ''System'' then Some LAYER_SYSTEM
              else if conf_type conf = ''User'' then Some LAYER_USER else None) of
          None \<Rightarrow> None
        | Some t \<Rightarrow>
           (case (if conf_backend conf = ''gdbm'' then Some BACKEND_GDBM
                  else if conf_backend conf = ''memory'' then Some BACKEND_MEMORY else None) of
              None \<Rightarrow> None
            | Some b \<Rightarrow> Some
                \<lparr>layer_name = \<lparr>str_value = Some (zstr (conf_name conf)),
                               str_length = word_of_nat (length (conf_name conf))\<rparr>,
                 layer_type = t, layer_backend = b, layer_uid = 0,
                 layer_priority = conf_priority conf,
                 layer_description = map_option zstr (conf_description conf),
                 layer_readonly = is_read_only conf\<rparr>))"

text \<open>An invalid section, and a second section with the same name, abort the daemon.\<close>

fun init_layers_loop ::
  "ConfigLayer list \<Rightarrow> (bytes \<times> BuxtonLayer) list \<Rightarrow> (bytes \<times> BuxtonLayer) list res" where
  "init_layers_loop [] ls = Inr ls"
| "init_layers_loop (c # cs) ls = (case buxton_layer_new c of
       None \<Rightarrow> Inl Aborted
     | Some l \<Rightarrow>
         bindE (cstrp (str_value (layer_name l))) (\<lambda>n.
           let (r, ls') = hm_put ls n l
           in if r \<noteq> 1 then Inl Aborted else init_layers_loop cs ls'))"

definition buxton_init_layers :: "ConfigLayer list \<Rightarrow> BuxtonConfig \<Rightarrow> BuxtonConfig res" where
  "buxton_init_layers confs cfg =
     bindE (init_layers_loop confs []) (\<lambda>ls. Inr (cfg\<lparr>layers := ls\<rparr>))"

definition empty_config :: BuxtonConfig where
  "empty_config = \<lparr>databases = None, layers = [], backends = None\<rparr>"

section \<open>Loading backends on demand\<close>

definition init_backend :: "(BuxtonBackendType \<Rightarrow> bool) \<Rightarrow> BuxtonConfig \<Rightarrow> BuxtonLayer \<Rightarrow>
    (BuxtonBackendType \<times> BuxtonConfig) res" where
  "init_backend module_ok cfg layer =
     bindE (case layer_backend layer of
         BACKEND_GDBM \<Rightarrow> Inr ''gdbm'' | BACKEND_MEMORY \<Rightarrow> Inr ''memory'' | BACKEND_UNSET \<Rightarrow> Inl Aborted)
       (\<lambda>name. case hm_get (case backends cfg of None \<Rightarrow> [] | Some m \<Rightarrow> m) name of
          Some b \<Rightarrow> Inr (b, cfg)
        | None \<Rightarrow>
            if \<not> module_ok (layer_backend layer) then Inl Aborted
            else
              let b = layer_backend layer;
                  (r, m) = hm_put (case backends cfg of None \<Rightarrow> [] | Some m \<Rightarrow> m) name b
              in if r \<noteq> 1 then Inl Aborted else Inr (b, cfg\<lparr>backends := Some m\<rparr>))"

definition backend_for_layer :: "(BuxtonBackendType \<Rightarrow> bool) \<Rightarrow> BuxtonConfig \<Rightarrow> BuxtonLayer \<Rightarrow>
    (BuxtonBackendType option \<times> BuxtonConfig) res" where
  "backend_for_layer module_ok cfg layer =
     bindE (cstrp (str_value (layer_name layer))) (\<lambda>n.
       let dbs = (case databases cfg of None \<Rightarrow> [] | Some m \<Rightarrow> m);
           cfg0 = cfg\<lparr>databases := Some dbs\<rparr>
       in case hm_get dbs n of
            Some b \<Rightarrow> Inr (Some b, cfg0)
          | None \<Rightarrow>
              bindE (init_backend module_ok cfg0 layer) (\<lambda>(b, cfg1).
                let (r, dbs') = hm_put dbs n b
                in if r \<noteq> 1 then Inl Aborted
                   else Inr (hm_get dbs' n, cfg1\<lparr>databases := Some dbs'\<rparr>)))"

section \<open>The configuration invariant\<close>

text \<open>A layer is filed under its name, has a backend, and every cached choice of a backend is the
  one its layer asks for.\<close>

definition layer_ok :: "bytes \<Rightarrow> BuxtonLayer \<Rightarrow> bool" where
  "layer_ok n l \<longleftrightarrow> NUL \<notin> set n \<and> layer_name l =
      \<lparr>str_value = Some (zstr n), str_length = word_of_nat (length n)\<rparr> \<and>
     layer_backend l \<noteq> BACKEND_UNSET \<and> 0 \<le> layer_priority l"

definition config_ok :: "BuxtonConfig \<Rightarrow> bool" where
  "config_ok cfg \<longleftrightarrow>
     hm_ok (layers cfg) \<and> (\<forall>(n, l) \<in> set (layers cfg). layer_ok n l) \<and>
     (\<forall>dbs. databases cfg = Some dbs \<longrightarrow> (\<forall>n b l. hm_get dbs n = Some b \<longrightarrow>
        hm_get (layers cfg) n = Some l \<longrightarrow> b = layer_backend l)) \<and>
     (\<forall>m. backends cfg = Some m \<longrightarrow>
        (\<forall>b. hm_get m ''gdbm'' = Some b \<longrightarrow> b = BACKEND_GDBM) \<and>
        (\<forall>b. hm_get m ''memory'' = Some b \<longrightarrow> b = BACKEND_MEMORY))"

lemma layer_ok_cstr: "layer_ok n l \<Longrightarrow> cstrp (str_value (layer_name l)) = Inr n"
  by (auto simp: layer_ok_def cstr_simps)

definition named_layer :: "BuxtonLayer \<Rightarrow> bool" where
  "named_layer l \<longleftrightarrow> (\<exists>n. layer_ok n l)"

lemma named_layerI: "layer_ok n l \<Longrightarrow> named_layer l"
  by (auto simp: named_layer_def)

lemma config_layer: "config_ok cfg \<Longrightarrow> hm_get (layers cfg) n = Some l \<Longrightarrow> layer_ok n l"
  by (auto simp: config_ok_def hm_get_in_set)

lemma init_backend_ok:
  assumes "config_ok cfg" "layer_backend l \<noteq> BACKEND_UNSET" "\<forall>b. module_ok b"
  shows "\<exists>m. init_backend module_ok cfg l = Inr (layer_backend l, cfg\<lparr>backends := m\<rparr>) \<and>
     config_ok (cfg\<lparr>backends := m\<rparr>)"
proof (cases "backends cfg")
  case None
  then show ?thesis
    using assms by (cases "layer_backend l")
      (auto simp: init_backend_def hm_put_def config_ok_def hm_get_single)
next
  case (Some m)
  have same: "cfg\<lparr>backends := Some m\<rparr> = cfg" using Some by simp
  define name where "name = (if layer_backend l = BACKEND_GDBM then ''gdbm'' else ''memory'')"
  show ?thesis
  proof (cases "hm_get m name")
    case None
    then show ?thesis
      using assms Some by (cases "layer_backend l")
        (auto simp: init_backend_def hm_put_def config_ok_def hm_get_append hm_get_single name_def
          split: option.splits)
  next
    case (Some b)
    then show ?thesis
      using assms \<open>backends cfg = Some m\<close> same by (cases "layer_backend l")
        (auto simp: init_backend_def config_ok_def name_def intro!: exI[of _ "Some m"])
  qed
qed

lemma backend_for_layer_ok:
  assumes cfg: "config_ok cfg" and l: "hm_get (layers cfg) n = Some l" "\<forall>b. module_ok b"
  shows "\<exists>d m. backend_for_layer module_ok cfg l =
       Inr (Some (layer_backend l), cfg\<lparr>databases := d, backends := m\<rparr>) \<and>
     config_ok (cfg\<lparr>databases := d, backends := m\<rparr>)"
proof -
  define dbs where "dbs = (case databases cfg of None \<Rightarrow> [] | Some m \<Rightarrow> m)"
  define cfg0 where "cfg0 = cfg\<lparr>databases := Some dbs\<rparr>"
  have lo: "layer_ok n l" by (rule config_layer[OF cfg l(1)])
  have cfg0: "config_ok cfg0"
    using cfg by (auto simp: cfg0_def config_ok_def dbs_def split: option.splits)
  show ?thesis
  proof (cases "hm_get dbs n")
    case (Some b)
    have "b = layer_backend l"
      using cfg0 l(1) Some by (auto simp: config_ok_def cfg0_def)
    have same: "cfg\<lparr>databases := Some dbs, backends := backends cfg\<rparr> = cfg0"
      by (simp add: cfg0_def)
    show ?thesis
      by (rule exI[of _ "Some dbs"], rule exI[of _ "backends cfg"], unfold same)
        (use Some \<open>b = layer_backend l\<close> cfg0 in
          \<open>simp add: backend_for_layer_def layer_ok_cstr[OF lo] Let_def flip: dbs_def cfg0_def\<close>)
  next
    case None
    obtain m where m: "init_backend module_ok cfg0 l = Inr (layer_backend l, cfg0\<lparr>backends := m\<rparr>)"
      "config_ok (cfg0\<lparr>backends := m\<rparr>)"
      using init_backend_ok[OF cfg0 _ l(2)] lo by (auto simp: layer_ok_def)
    have "config_ok (cfg\<lparr>databases := Some (dbs @ [(n, layer_backend l)]), backends := m\<rparr>)"
      using m(2) l(1) by (auto simp: config_ok_def cfg0_def hm_get_append hm_get_single
          split: option.splits if_splits)
    moreover have "backend_for_layer module_ok cfg l = Inr (Some (layer_backend l),
        cfg\<lparr>databases := Some (dbs @ [(n, layer_backend l)]), backends := m\<rparr>)"
      using None m(1) by (simp add: backend_for_layer_def layer_ok_cstr[OF lo] Let_def cfg0_def
          dbs_def hm_put_def hm_get_append hm_get_single)
    ultimately show ?thesis by blast
  qed
qed

text \<open>Changing a layer's uid, as every access does, keeps the invariant.\<close>

lemma config_ok_touch:
  assumes cfg: "config_ok cfg" and l: "hm_get (layers cfg) n = Some l"
  shows "config_ok (cfg\<lparr>layers := hm_set (layers cfg) n (l\<lparr>layer_uid := u\<rparr>)\<rparr>)"
proof -
  have "layer_ok n (l\<lparr>layer_uid := u\<rparr>)"
    using config_layer[OF assms] by (simp add: layer_ok_def)
  then show ?thesis
    using cfg l unfolding config_ok_def
    by (auto simp: hm_ok_set hm_get_set split: if_splits dest!: set_hm_set)
qed

lemma layer_new_ok:
  "NUL \<notin> set (conf_name c) \<Longrightarrow> buxton_layer_new c = Some l \<Longrightarrow> layer_ok (conf_name c) l"
  by (auto simp: buxton_layer_new_def layer_ok_def split: if_splits option.splits)

lemma init_layers_loop_ok:
  assumes "init_layers_loop confs ls = Inr ls'" "\<forall>c \<in> set confs. NUL \<notin> set (conf_name c)"
    "hm_ok ls" "\<forall>(n, l) \<in> set ls. layer_ok n l"
  shows "hm_ok ls' \<and> (\<forall>(n, l) \<in> set ls'. layer_ok n l) \<and>
     map fst ls' = map fst ls @ map conf_name confs \<and>
     (\<forall>c \<in> set confs. hm_get ls' (conf_name c) = buxton_layer_new c) \<and>
     (\<forall>n l. hm_get ls n = Some l \<longrightarrow> hm_get ls' n = Some l)"
  using assms
proof (induction confs arbitrary: ls)
  case (Cons c cs ls)
  obtain l where l: "buxton_layer_new c = Some l"
    using Cons.prems(1) by (auto split: option.splits)
  have lo: "layer_ok (conf_name c) l" using Cons.prems(2) l by (auto intro: layer_new_ok)
  have n: "hm_get ls (conf_name c) = None"
    and rec: "init_layers_loop cs (ls @ [(conf_name c, l)]) = Inr ls'"
    using Cons.prems(1) by (auto simp: l layer_ok_cstr[OF lo] hm_put_def split: option.splits if_splits)
  have "hm_ok (ls @ [(conf_name c, l)])"
    using Cons.prems(3) n by (auto simp: hm_ok_def hm_get_None)
  with Cons.IH[OF rec] lo l n Cons.prems show ?case
    by (auto simp: hm_get_append hm_get_single split: option.splits)
qed auto

section \<open>The contract of a backend\<close>

text \<open>
  A key as requests carry it: the group \<open>g\<close>, and the name \<open>n\<close> or no name for the group itself,
  without embedded NULs and short enough for a size of type \<open>int\<close>.
\<close>

definition key_ok :: "BuxtonKey \<Rightarrow> bytes \<Rightarrow> bytes option \<Rightarrow> bool" where
  "key_ok key g n \<longleftrightarrow> str_holds (key_group key) g \<and>
     (case n of None \<Rightarrow> str_value (key_name key) = None | Some m \<Rightarrow> str_holds (key_name key) m) \<and>
     length g + 2 + (case n of None \<Rightarrow> 0 | Some m \<Rightarrow> length m) < 2 ^ 31"

lemma key_ok_group:
  "key_ok key g n \<Longrightarrow> str_value (key_name key') = None \<Longrightarrow> str_holds (key_group key') g \<Longrightarrow>
   key_ok key' g None"
  by (auto simp: key_ok_def split: option.splits)

type_synonym kv_contents = "bytes \<Rightarrow> bytes \<Rightarrow> bytes option \<Rightarrow> (BuxtonData \<times> bytes) option"

definition kv_upd ::
  "kv_contents \<Rightarrow> bytes \<Rightarrow> bytes \<Rightarrow> bytes option \<Rightarrow> (BuxtonData \<times> bytes) option \<Rightarrow> kv_contents" where
  "kv_upd c p g n x = (\<lambda>p' g' n'. if p' = p \<and> g' = g \<and> n' = n then x else c p' g' n')"

lemma kv_upd_apply [simp]:
  "kv_upd c p g n x p' g' n' = (if p' = p \<and> g' = g \<and> n' = n then x else c p' g' n')"
  by (simp add: kv_upd_def)

text \<open>
  \<open>serves\<close> says which layers the contract covers; \<open>place\<close> names the database of a layer and its user, \<open>contents\<close> is what lies in it: a value and a
  label for every group and key. The laws are about well formed keys, values and labels. \<open>ready\<close> says that
  no error of an earlier call is pending (a module may look at one), \<open>storable\<close> which records the
  module can store, \<open>recursive\<close> whether the keys of a group go with the group.
\<close>

locale kv_store =
  fixes be :: "'s BuxtonBackend"
    and inv :: "'s \<Rightarrow> bool"
    and serves :: "BuxtonLayer \<Rightarrow> bool"
    and place :: "BuxtonLayer \<Rightarrow> bytes"
    and contents :: "'s \<Rightarrow> kv_contents"
    and ready :: "'s \<Rightarrow> bool"
    and storable :: "BuxtonData \<Rightarrow> BuxtonString \<Rightarrow> bool"
    and recursive :: bool
  assumes get_present: "inv s \<Longrightarrow> serves l \<Longrightarrow> key_ok key g n \<Longrightarrow>
      contents s (place l) g n = Some (d, b) \<Longrightarrow>
      key_type key = data_type d \<or> key_type key = BUXTON_TYPE_UNSET \<Longrightarrow>
      \<exists>s' lab. be_get_value be l key s = Inr (0, Some (d, lab), s') \<and> inv s' \<and> ready s' \<and>
        contents s' = contents s \<and> str_ok lab \<and> str_value lab \<noteq> None \<and> str_bytes lab = b"
    and get_mistyped: "inv s \<Longrightarrow> serves l \<Longrightarrow> key_ok key g n \<Longrightarrow>
      contents s (place l) g n = Some (d, b) \<Longrightarrow>
      key_type key \<noteq> data_type d \<Longrightarrow> key_type key \<noteq> BUXTON_TYPE_UNSET \<Longrightarrow>
      \<exists>out s'. be_get_value be l key s = Inr (EINVAL, out, s') \<and> inv s' \<and> ready s' \<and> contents s' = contents s"
    and get_absent: "inv s \<Longrightarrow> serves l \<Longrightarrow> key_ok key g n \<Longrightarrow>
      contents s (place l) g n = None \<Longrightarrow>
      \<exists>s'. be_get_value be l key s = Inr (ENOENT, None, s') \<and> inv s' \<and> contents s' = contents s"
    and set_data: "inv s \<Longrightarrow> serves l \<Longrightarrow> key_ok key g n \<Longrightarrow> data_ok d \<Longrightarrow> str_ok label \<Longrightarrow>
      str_value label \<noteq> None \<Longrightarrow> storable d label \<Longrightarrow>
      \<exists>s'. be_set_value be l key (Some d) label s = Inr (0, s') \<and> inv s' \<and> ready s' \<and>
        contents s' = kv_upd (contents s) (place l) g n (Some (as_stored d, str_bytes label))"
    and set_label: "inv s \<Longrightarrow> serves l \<Longrightarrow> key_ok key g n \<Longrightarrow> str_ok label \<Longrightarrow>
      str_value label \<noteq> None \<Longrightarrow> contents s (place l) g n = Some (d, b) \<Longrightarrow> storable d label \<Longrightarrow>
      \<exists>s'. be_set_value be l key None label s = Inr (0, s') \<and> inv s' \<and> ready s' \<and>
        contents s' = kv_upd (contents s) (place l) g n (Some (d, str_bytes label))"
    and set_label_absent: "inv s \<Longrightarrow> serves l \<Longrightarrow> key_ok key g n \<Longrightarrow> str_ok label \<Longrightarrow>
      str_value label \<noteq> None \<Longrightarrow> contents s (place l) g n = None \<Longrightarrow>
      \<exists>s'. be_set_value be l key None label s = Inr (ENOENT, s') \<and> inv s' \<and> contents s' = contents s"
    and unset_name: "inv s \<Longrightarrow> ready s \<Longrightarrow> serves l \<Longrightarrow> key_ok key g (Some m) \<Longrightarrow>
      \<exists>s'. be_unset_value be l key s =
          Inr (if contents s (place l) g (Some m) = None then ENOENT else 0, s') \<and> inv s' \<and>
        contents s' = kv_upd (contents s) (place l) g (Some m) None"
    and unset_group: "inv s \<Longrightarrow> ready s \<Longrightarrow> serves l \<Longrightarrow> key_ok key g None \<Longrightarrow>
      contents s (place l) g None \<noteq> None \<Longrightarrow>
      \<exists>s'. be_unset_value be l key s = Inr (0, s') \<and> inv s' \<and>
        contents s' = (\<lambda>p g' n. if p = place l \<and> g' = g \<and> (n = None \<or> recursive) then None else contents s p g' n)"
begin

text \<open>Reading back what was written, under either type request.\<close>

lemma get_after_set:
  assumes "inv s" "serves l" "key_ok key g n" "data_ok d" "str_ok label"
    "str_value label \<noteq> None" "storable d label" "be_set_value be l key (Some d) label s = Inr (r, s')"
    "key_ok key' g n" "key_type key' \<in> {data_type d, BUXTON_TYPE_UNSET}"
  shows "r = 0 \<and> inv s' \<and> (\<exists>lab s''. be_get_value be l key' s' = Inr (0, Some (as_stored d, lab), s'') \<and>
     str_bytes lab = str_bytes label)"
proof -
  have s': "r = 0" "inv s'"
    "contents s' = kv_upd (contents s) (place l) g n (Some (as_stored d, str_bytes label))"
    using set_data[OF assms(1-7)] assms(8) by auto
  then have c: "contents s' (place l) g n = Some (as_stored d, str_bytes label)" by simp
  have "key_type key' = data_type (as_stored d) \<or> key_type key' = BUXTON_TYPE_UNSET"
    using assms(10) by auto
  from get_present[OF s'(2) assms(2,9) c this] s' show ?thesis by auto
qed

lemma get_after_unset:
  assumes "inv s" "ready s" "serves l" "key_ok key g (Some m)" "be_unset_value be l key s = Inr (r, s')"
    "key_ok key' g (Some m)"
  shows "inv s' \<and> (\<exists>s''. be_get_value be l key' s' = Inr (ENOENT, None, s''))"
proof -
  have s': "inv s'" "contents s' (place l) g (Some m) = None"
    using unset_name[OF assms(1-4)] assms(5) by auto
  from get_absent[OF s'(1) assms(3,6) s'(2)] s'(1) show ?thesis by blast
qed

end

text \<open>The stronger contract of a backend that is always ready, stores every value, and removes a group with its keys.\<close>

locale kv_backend =
  fixes be :: "'s BuxtonBackend"
    and inv :: "'s \<Rightarrow> bool"
    and serves :: "BuxtonLayer \<Rightarrow> bool"
    and place :: "BuxtonLayer \<Rightarrow> bytes"
    and contents :: "'s \<Rightarrow> kv_contents"
  assumes get_present: "inv s \<Longrightarrow> serves l \<Longrightarrow> key_ok key g n \<Longrightarrow>
      contents s (place l) g n = Some (d, b) \<Longrightarrow>
      key_type key = data_type d \<or> key_type key = BUXTON_TYPE_UNSET \<Longrightarrow>
      \<exists>s' lab. be_get_value be l key s = Inr (0, Some (d, lab), s') \<and> inv s' \<and>
        contents s' = contents s \<and> str_ok lab \<and> str_value lab \<noteq> None \<and> str_bytes lab = b"
    and get_mistyped: "inv s \<Longrightarrow> serves l \<Longrightarrow> key_ok key g n \<Longrightarrow>
      contents s (place l) g n = Some (d, b) \<Longrightarrow>
      key_type key \<noteq> data_type d \<Longrightarrow> key_type key \<noteq> BUXTON_TYPE_UNSET \<Longrightarrow>
      \<exists>s'. be_get_value be l key s = Inr (EINVAL, None, s') \<and> inv s' \<and> contents s' = contents s"
    and get_absent: "inv s \<Longrightarrow> serves l \<Longrightarrow> key_ok key g n \<Longrightarrow>
      contents s (place l) g n = None \<Longrightarrow>
      \<exists>s'. be_get_value be l key s = Inr (ENOENT, None, s') \<and> inv s' \<and> contents s' = contents s"
    and set_data: "inv s \<Longrightarrow> serves l \<Longrightarrow> key_ok key g n \<Longrightarrow> data_ok d \<Longrightarrow> str_ok label \<Longrightarrow>
      str_value label \<noteq> None \<Longrightarrow>
      \<exists>s'. be_set_value be l key (Some d) label s = Inr (0, s') \<and> inv s' \<and>
        contents s' = kv_upd (contents s) (place l) g n (Some (as_stored d, str_bytes label))"
    and set_label: "inv s \<Longrightarrow> serves l \<Longrightarrow> key_ok key g n \<Longrightarrow> str_ok label \<Longrightarrow>
      str_value label \<noteq> None \<Longrightarrow>
      \<exists>s'. be_set_value be l key None label s =
          Inr (if contents s (place l) g n = None then ENOENT else 0, s') \<and> inv s' \<and>
        contents s' = kv_upd (contents s) (place l) g n
          (map_option (\<lambda>(d, _). (d, str_bytes label)) (contents s (place l) g n))"
    and unset_name: "inv s \<Longrightarrow> serves l \<Longrightarrow> key_ok key g (Some m) \<Longrightarrow>
      \<exists>s'. be_unset_value be l key s =
          Inr (if contents s (place l) g (Some m) = None then ENOENT else 0, s') \<and> inv s' \<and>
        contents s' = kv_upd (contents s) (place l) g (Some m) None"
    and unset_group: "inv s \<Longrightarrow> serves l \<Longrightarrow> key_ok key g None \<Longrightarrow>
      contents s (place l) g None \<noteq> None \<Longrightarrow>
      \<exists>s'. be_unset_value be l key s = Inr (0, s') \<and> inv s' \<and>
        contents s' = (\<lambda>p g' n. if p = place l \<and> g' = g then None else contents s p g' n)"

sublocale kv_backend \<subseteq> store: kv_store be inv serves place contents "\<lambda>_. True" "\<lambda>_ _. True" True
proof (unfold_locales, goal_cases)
  case (1 s l key g n d b)
  then show ?case using get_present[of s l key g n d b] by auto
next
  case (2 s l key g n d b)
  then show ?case using get_mistyped[of s l key g n d b] by auto
next
  case (3 s l key g n)
  then show ?case using get_absent[of s l key g n] by auto
next
  case (4 s l key g n d label)
  then show ?case using set_data[of s l key g n d label] by auto
next
  case (5 s l key g n label d b)
  then show ?case using set_label[of s l key g n label] by auto
next
  case (6 s l key g n label)
  moreover from this have "kv_upd (contents s) (place l) g n None = contents s" by (auto simp: fun_eq_iff)
  ultimately show ?case using set_label[of s l key g n label] by auto
next
  case (7 s l key g m)
  then show ?case using unset_name[of s l key g m] by auto
next
  case (8 s l key g)
  then show ?case using unset_group[of s l key g] by auto
qed

section \<open>Start-up\<close>

text \<open>When the configured sections are accepted (else the daemon aborts), the layers come in the
  order of their sections, and asking for the backend of any of them, provided the modules load,
  gives the one its section names and leaves the layers and the invariant as they are.\<close>

theorem configured_backend:
  assumes "buxton_init_layers confs empty_config = Inr cfg"
    "\<forall>c \<in> set confs. NUL \<notin> set (conf_name c)" "c \<in> set confs" "\<forall>b. module_ok b"
  shows "map fst (layers cfg) = map conf_name confs \<and> config_ok cfg \<and>
     (\<exists>l cfg'. hm_get (layers cfg) (conf_name c) = Some l \<and>
        backend_for_layer module_ok cfg l =
          Inr (Some (if conf_backend c = ''gdbm'' then BACKEND_GDBM else BACKEND_MEMORY), cfg') \<and>
        layers cfg' = layers cfg \<and> config_ok cfg')"
proof -
  obtain ls where ls: "init_layers_loop confs [] = Inr ls" "cfg = empty_config\<lparr>layers := ls\<rparr>"
    using assms(1) by (auto simp: buxton_init_layers_def res_simps)
  note ok = init_layers_loop_ok[OF ls(1) assms(2)]
  have cfg: "config_ok cfg" using ok by (simp add: ls(2) config_ok_def empty_config_def)
  have get: "hm_get (layers cfg) (conf_name c) = buxton_layer_new c"
    using ok assms(3) by (simp add: ls(2))
  have "conf_name c \<in> set (map fst ls)" using ok assms(3) by simp
  then have "hm_get (layers cfg) (conf_name c) \<noteq> None"
    by (simp add: ls(2) hm_get_None del: set_map) simp
  with get have "buxton_layer_new c \<noteq> None" by simp
  then obtain l where l: "buxton_layer_new c = Some l" by blast
  then have b: "layer_backend l = (if conf_backend c = ''gdbm'' then BACKEND_GDBM else BACKEND_MEMORY)"
    by (auto simp: buxton_layer_new_def split: if_splits option.splits)
  show ?thesis
    using backend_for_layer_ok[OF cfg get[unfolded l] assms(4)] ok get l b cfg by (auto simp: ls(2))
qed

definition sample_confs :: "ConfigLayer list" where
  "sample_confs =
     [\<lparr>conf_name = ''base'', conf_type = ''System'', conf_backend = ''gdbm'',
       conf_description = Some ''Operating System configuration layer'',
       conf_access = ''read-write'', conf_priority = 0\<rparr>,
      \<lparr>conf_name = ''temp'', conf_type = ''User'', conf_backend = ''memory'',
       conf_description = None, conf_access = ''read-only'', conf_priority = 10\<rparr>]"

theorem configured_backend_witness:
  "\<exists>cfg l cfg'. buxton_init_layers sample_confs empty_config = Inr cfg \<and>
     hm_get (layers cfg) ''temp'' = Some l \<and>
     backend_for_layer (\<lambda>_. True) cfg l = Inr (Some BACKEND_MEMORY, cfg')"
proof -
  let ?c = "sample_confs ! 1"
  have run: "\<exists>cfg. buxton_init_layers sample_confs empty_config = Inr cfg"
    by (simp add: buxton_init_layers_def sample_confs_def buxton_layer_new_def is_read_only_def
        eval_simps hm_put_def hm_get_append hm_get_single)
  then obtain cfg where cfg: "buxton_init_layers sample_confs empty_config = Inr cfg" ..
  have "\<forall>c \<in> set sample_confs. NUL \<notin> set (conf_name c)" "?c \<in> set sample_confs"
    by (simp_all add: sample_confs_def)
  from configured_backend[OF cfg this, of "\<lambda>_. True"] cfg show ?thesis
    by (auto simp: sample_confs_def)
qed

end
