(* ===== verification/Hashmap.thy ===== *)
theory Hashmap
  imports Ordered_Map
begin

text \<open>
  The hash table of \<open>src/shared/hashmap.c\<close>: chained buckets, an insertion ordered iteration list
  through all entries, and growth by rehashing. Entries live in a store indexed by their address;
  a bucket chain and the iteration list are the sequences of addresses that the \<open>bucket_next\<close> and
  \<open>iterate_next\<close> pointers run through. Unsigned arithmetic is written out modulo \<open>2 ^ 32\<close>, and every
  \<open>assert\<close> is a branch. Allocation picks an address that is not in use.
\<close>

section \<open>Hash and comparison functions\<close>

text \<open>\<open>*c\<close> is a \<open>signed char\<close>, so bytes from 128 on are sign extended before they are added.\<close>

definition signed_char :: "byte \<Rightarrow> 32 word" where
  "signed_char c =
     (if (of_char c :: nat) < 128 then word_of_nat (of_char c) else word_of_nat (of_char c) - 256)"

definition string_hash_func :: "bytes \<Rightarrow> 32 word" where
  "string_hash_func p = fold (\<lambda>c hash. push_bit 5 hash + hash + signed_char c) p 5381"

text \<open>\<open>strcmp\<close> of two strings without their NULs; bytes compare as unsigned.\<close>

fun string_compare_func :: "bytes \<Rightarrow> bytes \<Rightarrow> int" where
  "string_compare_func [] [] = 0"
| "string_compare_func [] (_ # _) = - 1"
| "string_compare_func (_ # _) [] = 1"
| "string_compare_func (a # as) (b # bs) =
     (if a = b then string_compare_func as bs
      else if (of_char a :: nat) < of_char b then - 1 else 1)"

text \<open>Keys that are pointers: \<open>PTR_TO_UINT\<close> keeps the low half of the address.\<close>

definition trivial_hash_func :: "64 word \<Rightarrow> 32 word" where
  "trivial_hash_func p = ucast p"

definition trivial_compare_func :: "64 word \<Rightarrow> 64 word \<Rightarrow> int" where
  "trivial_compare_func a b = (if a < b then - 1 else if a > b then 1 else 0)"

definition uint64_hash_func :: "64 word \<Rightarrow> 32 word" where
  "uint64_hash_func u = ucast (xor (drop_bit 32 u) u)"

definition uint64_compare_func :: "64 word \<Rightarrow> 64 word \<Rightarrow> int" where
  "uint64_compare_func a b = (if a < b then - 1 else if a > b then 1 else 0)"

section \<open>The table\<close>

abbreviation (input) "INITIAL_N_BUCKETS \<equiv> 31 :: nat"

text \<open>Unsigned 32-bit arithmetic on \<open>nat\<close>.\<close>

definition u32 :: "nat \<Rightarrow> nat" where
  "u32 n = n mod 2 ^ 32"

record ('k, 'v) Hashmap =
  hash_func :: "'k \<Rightarrow> 32 word"
  compare_func :: "'k \<Rightarrow> 'k \<Rightarrow> int"
  entries :: "nat \<Rightarrow> ('k \<times> 'v) option"
  iterate_list :: "nat list"
  buckets :: "nat list list"
  n_buckets :: nat
  n_entries :: nat

definition entry_key :: "('k, 'v) Hashmap \<Rightarrow> nat \<Rightarrow> 'k" where
  "entry_key h e = fst (the (entries h e))"

definition entry_value :: "('k, 'v) Hashmap \<Rightarrow> nat \<Rightarrow> 'v" where
  "entry_value h e = snd (the (entries h e))"

definition hashmap_new :: "('k \<Rightarrow> 32 word) \<Rightarrow> ('k \<Rightarrow> 'k \<Rightarrow> int) \<Rightarrow> ('k, 'v) Hashmap" where
  "hashmap_new hash cmp =
     \<lparr>hash_func = hash, compare_func = cmp, entries = (\<lambda>_. None), iterate_list = [],
      buckets = replicate INITIAL_N_BUCKETS [], n_buckets = INITIAL_N_BUCKETS, n_entries = 0\<rparr>"

text \<open>\<open>h->hash_func(key) % h->n_buckets\<close>.\<close>

definition bucket_of :: "('k, 'v) Hashmap \<Rightarrow> 'k \<Rightarrow> nat" where
  "bucket_of h key = unat (hash_func h key) mod n_buckets h"

definition link_entry :: "('k, 'v) Hashmap \<Rightarrow> nat \<Rightarrow> nat \<Rightarrow> ('k, 'v) Hashmap res" where
  "link_entry h e hash =
     (let n = u32 (n_entries h + 1)
      in bindE (assertE (n \<ge> 1)) (\<lambda>_. Inr (h\<lparr>
           buckets := (buckets h)[hash := e # buckets h ! hash],
           iterate_list := iterate_list h @ [e],
           n_entries := n\<rparr>)))"

definition unlink_entry :: "('k, 'v) Hashmap \<Rightarrow> nat \<Rightarrow> nat \<Rightarrow> ('k, 'v) Hashmap res" where
  "unlink_entry h e hash =
     bindE (assertE (n_entries h \<ge> 1)) (\<lambda>_. Inr (h\<lparr>
        iterate_list := remove1 e (iterate_list h),
        buckets := (buckets h)[hash := remove1 e (buckets h ! hash)],
        n_entries := n_entries h - 1\<rparr>))"

definition remove_entry :: "('k, 'v) Hashmap \<Rightarrow> nat \<Rightarrow> ('k, 'v) Hashmap res" where
  "remove_entry h e =
     bindE (unlink_entry h e (bucket_of h (entry_key h e)))
       (\<lambda>h. Inr (h\<lparr>entries := (entries h)(e := None)\<rparr>))"

definition hash_scan :: "('k, 'v) Hashmap \<Rightarrow> nat \<Rightarrow> 'k \<Rightarrow> nat option res" where
  "hash_scan h hash key =
     bindE (assertE (hash < n_buckets h))
       (\<lambda>_. Inr (find (\<lambda>e. compare_func h (entry_key h e) key = 0) (buckets h ! hash)))"

text \<open>
  The new table is filled in iteration order, each entry pushed onto the front of its chain. An
  allocation failure, where the code carries on with the packed table, is not modelled.
\<close>

definition resize_buckets :: "('k, 'v) Hashmap \<Rightarrow> bool \<times> ('k, 'v) Hashmap" where
  "resize_buckets h =
     (if u32 (n_entries h * 4) < u32 (n_buckets h * 3) then (False, h)
      else
        let m = u32 ((n_entries h + 1) * 4 - 1);
            x = (\<lambda>i. unat (hash_func h (entry_key h i)) mod m);
            n = fold (\<lambda>i n. n[x i := i # n ! x i]) (iterate_list h) (replicate m [])
        in (True, h\<lparr>buckets := n, n_buckets := m\<rparr>))"

definition fresh_entry :: "('k, 'v) Hashmap \<Rightarrow> nat" where
  "fresh_entry h = Suc (fold max (iterate_list h) 0)"

definition hashmap_put :: "('k, 'v) Hashmap \<Rightarrow> 'k \<Rightarrow> 'v \<Rightarrow> (int \<times> ('k, 'v) Hashmap) res" where
  "hashmap_put h key v =
     bindE (hash_scan h (bucket_of h key) key) (\<lambda>s. case s of
         Some e \<Rightarrow> Inr (if entry_value h e = v then 0 else - EEXIST, h)
       | None \<Rightarrow>
           let h1 = snd (resize_buckets h);
               e = fresh_entry h1;
               h2 = h1\<lparr>entries := (entries h1)(e := Some (key, v))\<rparr>
           in bindE (link_entry h2 e (bucket_of h2 key)) (\<lambda>h3. Inr (1, h3)))"

definition hashmap_replace :: "('k, 'v) Hashmap \<Rightarrow> 'k \<Rightarrow> 'v \<Rightarrow> (int \<times> ('k, 'v) Hashmap) res" where
  "hashmap_replace h key v =
     bindE (hash_scan h (bucket_of h key) key) (\<lambda>s. case s of
         Some e \<Rightarrow> Inr (0, h\<lparr>entries := (entries h)(e := Some (key, v))\<rparr>)
       | None \<Rightarrow> hashmap_put h key v)"

definition hashmap_update :: "('k, 'v) Hashmap \<Rightarrow> 'k \<Rightarrow> 'v \<Rightarrow> (int \<times> ('k, 'v) Hashmap) res" where
  "hashmap_update h key v =
     bindE (hash_scan h (bucket_of h key) key) (\<lambda>s. case s of
         None \<Rightarrow> Inr (- ENOENT, h)
       | Some e \<Rightarrow> Inr (0, h\<lparr>entries := (entries h)(e := Some (entry_key h e, v))\<rparr>))"

definition hashmap_get :: "('k, 'v) Hashmap \<Rightarrow> 'k \<Rightarrow> 'v option res" where
  "hashmap_get h key =
     bindE (hash_scan h (bucket_of h key) key) (\<lambda>s. Inr (map_option (entry_value h) s))"

definition hashmap_get2 :: "('k, 'v) Hashmap \<Rightarrow> 'k \<Rightarrow> ('k \<times> 'v) option res" where
  "hashmap_get2 h key =
     bindE (hash_scan h (bucket_of h key) key)
       (\<lambda>s. Inr (map_option (\<lambda>e. (entry_key h e, entry_value h e)) s))"

definition hashmap_contains :: "('k, 'v) Hashmap \<Rightarrow> 'k \<Rightarrow> bool res" where
  "hashmap_contains h key =
     bindE (hash_scan h (bucket_of h key) key) (\<lambda>s. Inr (s \<noteq> None))"

definition hashmap_remove :: "('k, 'v) Hashmap \<Rightarrow> 'k \<Rightarrow> ('v option \<times> ('k, 'v) Hashmap) res" where
  "hashmap_remove h key =
     bindE (hash_scan h (bucket_of h key) key) (\<lambda>s. case s of
         None \<Rightarrow> Inr (None, h)
       | Some e \<Rightarrow> bindE (remove_entry h e) (\<lambda>h'. Inr (Some (entry_value h e), h')))"

definition hashmap_remove2 ::
  "('k, 'v) Hashmap \<Rightarrow> 'k \<Rightarrow> (('k \<times> 'v) option \<times> ('k, 'v) Hashmap) res" where
  "hashmap_remove2 h key =
     bindE (hash_scan h (bucket_of h key) key) (\<lambda>s. case s of
         None \<Rightarrow> Inr (None, h)
       | Some e \<Rightarrow>
           bindE (remove_entry h e) (\<lambda>h'. Inr (Some (entry_key h e, entry_value h e), h')))"

definition hashmap_remove_value ::
  "('k, 'v) Hashmap \<Rightarrow> 'k \<Rightarrow> 'v \<Rightarrow> ('v option \<times> ('k, 'v) Hashmap) res" where
  "hashmap_remove_value h key v =
     bindE (hash_scan h (bucket_of h key) key) (\<lambda>s. case s of
         None \<Rightarrow> Inr (None, h)
       | Some e \<Rightarrow>
           if entry_value h e \<noteq> v then Inr (None, h)
           else bindE (remove_entry h e) (\<lambda>h'. Inr (Some v, h')))"

definition hashmap_remove_and_put ::
  "('k, 'v) Hashmap \<Rightarrow> 'k \<Rightarrow> 'k \<Rightarrow> 'v \<Rightarrow> (int \<times> ('k, 'v) Hashmap) res" where
  "hashmap_remove_and_put h old_key new_key v =
     bindE (hash_scan h (bucket_of h old_key) old_key) (\<lambda>s. case s of
         None \<Rightarrow> Inr (- ENOENT, h)
       | Some e \<Rightarrow>
           bindE (hash_scan h (bucket_of h new_key) new_key) (\<lambda>s'. case s' of
               Some _ \<Rightarrow> Inr (- EEXIST, h)
             | None \<Rightarrow>
                 bindE (unlink_entry h e (bucket_of h old_key)) (\<lambda>h1.
                 bindE (link_entry (h1\<lparr>entries := (entries h1)(e := Some (new_key, v))\<rparr>) e
                         (bucket_of h new_key)) (\<lambda>h2. Inr (0, h2)))))"

text \<open>\<open>hashmap_clear\<close> removes the head of the iteration list until none is left.\<close>

fun clear_loop :: "nat list \<Rightarrow> ('k, 'v) Hashmap \<Rightarrow> ('k, 'v) Hashmap res" where
  "clear_loop [] h = Inr h"
| "clear_loop (e # es) h = bindE (remove_entry h e) (clear_loop es)"

definition hashmap_clear :: "('k, 'v) Hashmap \<Rightarrow> ('k, 'v) Hashmap res" where
  "hashmap_clear h = clear_loop (iterate_list h) h"

definition hashmap_first :: "('k, 'v) Hashmap \<Rightarrow> 'v option" where
  "hashmap_first h = (case iterate_list h of [] \<Rightarrow> None | e # _ \<Rightarrow> Some (entry_value h e))"

definition hashmap_first_key :: "('k, 'v) Hashmap \<Rightarrow> 'k option" where
  "hashmap_first_key h = (case iterate_list h of [] \<Rightarrow> None | e # _ \<Rightarrow> Some (entry_key h e))"

definition hashmap_last :: "('k, 'v) Hashmap \<Rightarrow> 'v option" where
  "hashmap_last h = (if iterate_list h = [] then None else Some (entry_value h (last (iterate_list h))))"

definition hashmap_steal_first :: "('k, 'v) Hashmap \<Rightarrow> ('v option \<times> ('k, 'v) Hashmap) res" where
  "hashmap_steal_first h = (case iterate_list h of
       [] \<Rightarrow> Inr (None, h)
     | e # _ \<Rightarrow> bindE (remove_entry h e) (\<lambda>h'. Inr (Some (entry_value h e), h')))"

definition hashmap_size :: "('k, 'v) Hashmap \<Rightarrow> nat" where
  "hashmap_size h = n_entries h"

definition hashmap_isempty :: "('k, 'v) Hashmap \<Rightarrow> bool" where
  "hashmap_isempty h \<longleftrightarrow> n_entries h = 0"

text \<open>
  \<open>hashmap_iterate\<close>: the cursor is \<open>None\<close> for \<open>ITERATOR_FIRST\<close>, \<open>Some None\<close> for \<open>ITERATOR_LAST\<close>
  and \<open>Some (Some e)\<close> for an entry. It is advanced before the entry is handed out, so that the
  loop body may remove that entry.
\<close>

fun next_after :: "nat list \<Rightarrow> nat \<Rightarrow> nat option" where
  "next_after [] e = None"
| "next_after (x # xs) e =
     (if x = e then (case xs of [] \<Rightarrow> None | y # _ \<Rightarrow> Some y) else next_after xs e)"

definition hashmap_iterate ::
  "('k, 'v) Hashmap \<Rightarrow> nat option option \<Rightarrow> ('k \<times> 'v) option \<times> nat option option" where
  "hashmap_iterate h i = (case i of
       Some None \<Rightarrow> (None, Some None)
     | None \<Rightarrow> (case iterate_list h of
           [] \<Rightarrow> (None, Some None)
         | e # _ \<Rightarrow> (Some (entry_key h e, entry_value h e), Some (next_after (iterate_list h) e)))
     | Some (Some e) \<Rightarrow>
         (Some (entry_key h e, entry_value h e), Some (next_after (iterate_list h) e)))"

definition hashmap_next :: "('k, 'v) Hashmap \<Rightarrow> 'k \<Rightarrow> 'v option res" where
  "hashmap_next h key =
     bindE (hash_scan h (bucket_of h key) key) (\<lambda>s. case s of
         None \<Rightarrow> Inr None
       | Some e \<Rightarrow> Inr (map_option (entry_value h) (next_after (iterate_list h) e)))"

fun merge_loop ::
  "('k \<times> 'v) list \<Rightarrow> ('k, 'v) Hashmap \<Rightarrow> (int \<times> ('k, 'v) Hashmap) res" where
  "merge_loop [] h = Inr (0, h)"
| "merge_loop ((k, v) # es) h =
     bindE (hashmap_put h k v) (\<lambda>(r, h').
       if r < 0 \<and> r \<noteq> - EEXIST then Inr (r, h') else merge_loop es h')"

definition hashmap_merge ::
  "('k, 'v) Hashmap \<Rightarrow> ('k, 'v) Hashmap \<Rightarrow> (int \<times> ('k, 'v) Hashmap) res" where
  "hashmap_merge h other =
     merge_loop (map (\<lambda>e. (entry_key other e, entry_value other e)) (iterate_list other)) h"

definition hashmap_copy :: "('k, 'v) Hashmap \<Rightarrow> ('k, 'v) Hashmap option res" where
  "hashmap_copy h =
     bindE (hashmap_merge (hashmap_new (hash_func h) (compare_func h)) h)
       (\<lambda>(r, c). Inr (if r < 0 then None else Some c))"

section \<open>The invariant\<close>

definition table_alist :: "('k, 'v) Hashmap \<Rightarrow> ('k \<times> 'v) list" where
  "table_alist h = map (\<lambda>e. (entry_key h e, entry_value h e)) (iterate_list h)"

definition table_room :: "('k, 'v) Hashmap \<Rightarrow> bool" where
  "table_room h \<longleftrightarrow> n_entries h + 1 < 2 ^ 32"

text \<open>
  Chain \<open>i\<close> holds exactly the entries of the iteration list whose key hashes to \<open>i\<close>, once each; no
  two entries have the same key; the counters agree with the lists.
\<close>

definition chains_ok :: "('k, 'v) Hashmap \<Rightarrow> bool" where
  "chains_ok h \<longleftrightarrow> (\<forall>i < n_buckets h. distinct (buckets h ! i) \<and>
     set (buckets h ! i) = {e \<in> set (iterate_list h). bucket_of h (entry_key h e) = i})"

definition table_inv ::
  "('k \<Rightarrow> 32 word) \<Rightarrow> ('k \<Rightarrow> 'k \<Rightarrow> int) \<Rightarrow> ('k, 'v) Hashmap \<Rightarrow> bool" where
  "table_inv hash cmp h \<longleftrightarrow>
     hash_func h = hash \<and> compare_func h = cmp \<and>
     0 < n_buckets h \<and> length (buckets h) = n_buckets h \<and>
     n_entries h = length (iterate_list h) \<and> n_entries h < 2 ^ 32 \<and>
     distinct (iterate_list h) \<and> (\<forall>e \<in> set (iterate_list h). entries h e \<noteq> None) \<and>
     inj_on (entry_key h) (set (iterate_list h)) \<and> chains_ok h"

lemma find_same:
  assumes "\<And>x y. x \<in> set xs \<Longrightarrow> y \<in> set xs \<Longrightarrow> P x \<Longrightarrow> P y \<Longrightarrow> x = y"
    and "{x \<in> set xs. P x} = {x \<in> set ys. P x}"
  shows "find P xs = find P ys"
proof (cases "find P xs")
  case None
  then have "{x \<in> set xs. P x} = {}" by (auto simp: find_None_iff)
  then have "\<not> (\<exists>x. x \<in> set ys \<and> P x)" using assms(2) by auto
  then show ?thesis using None by (metis find_None_iff)
next
  case (Some a)
  then have a: "a \<in> set xs" "P a" by (auto simp: find_Some_iff)
  then have "a \<in> set ys" using assms(2) by blast
  then obtain b where b: "find P ys = Some b" using a(2) find_None_iff[of P ys] by (cases "find P ys") auto
  then have "b \<in> set xs" "P b" using assms(2) by (auto simp: find_Some_iff)
  with a assms(1) have "a = b" by blast
  then show ?thesis using Some b by simp
qed

lemma find_in_set: "find P xs = Some x \<Longrightarrow> x \<in> set xs \<and> P x"
  by (auto simp: find_Some_iff)

lemma hm_get_table:
  "hm_get (table_alist h) k = map_option (entry_value h) (find (\<lambda>e. entry_key h e = k) (iterate_list h))"
proof -
  have "map_of (map (\<lambda>e. (entry_key h e, entry_value h e)) es) k =
      map_option (entry_value h) (find (\<lambda>e. entry_key h e = k) es)" for es
    by (induction es) auto
  then show ?thesis by (simp add: hm_get_def table_alist_def)
qed

lemma fresh_entry_new: "e \<in> set (iterate_list h) \<Longrightarrow> e < fresh_entry h"
proof -
  have "e \<in> set xs \<Longrightarrow> e \<le> fold max xs n" for xs and n :: nat
  proof (induction xs arbitrary: n)
    case (Cons x xs)
    have mono: "m \<le> fold max ys m" for ys and m :: nat
    proof (induction ys arbitrary: m)
      case (Cons y ys)
      show ?case using Cons[of "max y m"] by simp
    qed simp
    show ?case using Cons mono[of "max x n" xs] by auto
  qed simp
  then show "e \<in> set (iterate_list h) \<Longrightarrow> e < fresh_entry h"
    by (simp add: fresh_entry_def less_Suc_eq_le)
qed

text \<open>Filling a fresh bucket array with the entries of a list.\<close>

lemma rehash_bucket:
  assumes "\<And>e. e \<in> set es \<Longrightarrow> x e < m" "length n = m" "i < m"
  shows "fold (\<lambda>e n. n[x e := e # n ! x e]) es n ! i = rev (filter (\<lambda>e. x e = i) es) @ n ! i \<and>
         length (fold (\<lambda>e n. n[x e := e # n ! x e]) es n) = m"
  using assms
proof (induction es arbitrary: n)
  case (Cons e es)
  have "length (n[x e := e # n ! x e]) = m" using Cons.prems by simp
  from Cons.IH[OF _ this Cons.prems(3)] Cons.prems show ?case
    by (auto simp: nth_list_update)
qed simp

lemma u32_odd: "0 < u32 ((n + 1) * 4 - 1)"
proof -
  have "((n + 1) * 4 - 1) mod 2 ^ 32 mod 4 = ((n + 1) * 4 - 1) mod (4::nat)"
    by (rule mod_mod_cancel) simp
  also have "\<dots> = (4 * n + 3) mod 4" by (simp add: algebra_simps)
  also have "\<dots> = 3" by simp
  finally show ?thesis unfolding u32_def by (metis mod_0 neq0_conv zero_neq_numeral)
qed

locale hash_key =
  fixes hash :: "'k \<Rightarrow> 32 word" and cmp :: "'k \<Rightarrow> 'k \<Rightarrow> int"
  assumes cmp_eq: "cmp a b = 0 \<longleftrightarrow> a = b"
begin

lemma inv_new: "table_inv hash cmp (hashmap_new hash cmp) \<and> table_alist (hashmap_new hash cmp) = []"
  by (simp add: table_inv_def hashmap_new_def table_alist_def chains_ok_def)

lemma inv_alist: "table_inv hash cmp h \<Longrightarrow> hm_ok (table_alist h)"
  by (auto simp: table_inv_def hm_ok_def table_alist_def distinct_map comp_def)

lemma bucket_of_less: "table_inv hash cmp h \<Longrightarrow> bucket_of h k < n_buckets h"
  by (simp add: table_inv_def bucket_of_def)

lemma scan:
  assumes "table_inv hash cmp h"
  shows "hash_scan h (bucket_of h k) k = Inr (find (\<lambda>e. entry_key h e = k) (iterate_list h))"
proof -
  let ?i = "bucket_of h k"
  have i: "?i < n_buckets h" by (rule bucket_of_less[OF assms])
  have inj: "inj_on (entry_key h) (set (iterate_list h))" and cmp: "compare_func h = cmp"
    and chain: "set (buckets h ! ?i) = {e \<in> set (iterate_list h). bucket_of h (entry_key h e) = ?i}"
    using assms i by (auto simp: table_inv_def chains_ok_def)
  have "find (\<lambda>e. entry_key h e = k) (buckets h ! ?i) = find (\<lambda>e. entry_key h e = k) (iterate_list h)"
    by (rule find_same) (use inj chain in \<open>auto dest: inj_onD\<close>)
  then show ?thesis using i by (simp add: hash_scan_def cmp cmp_eq)
qed

lemma inv_resize:
  assumes "table_inv hash cmp h"
  shows "table_inv hash cmp (snd (resize_buckets h)) \<and>
         iterate_list (snd (resize_buckets h)) = iterate_list h \<and>
         entries (snd (resize_buckets h)) = entries h"
proof (cases "u32 (n_entries h * 4) < u32 (n_buckets h * 3)")
  case True
  then show ?thesis using assms by (simp add: resize_buckets_def)
next
  case False
  define m where "m = u32 ((n_entries h + 1) * 4 - 1)"
  define x where "x = (\<lambda>i. unat (hash_func h (entry_key h i)) mod m)"
  define n where "n = fold (\<lambda>i n. n[x i := i # n ! x i]) (iterate_list h) (replicate m [])"
  have m: "0 < m" unfolding m_def by (rule u32_odd)
  have r: "snd (resize_buckets h) = h\<lparr>buckets := n, n_buckets := m\<rparr>"
    using False by (simp add: resize_buckets_def Let_def m_def x_def n_def)
  have n: "n ! i = rev (filter (\<lambda>e. x e = i) (iterate_list h)) \<and> length n = m" if "i < m" for i
    using rehash_bucket[of "iterate_list h" x m "replicate m []" i] m that
    by (simp add: n_def x_def)
  have k: "entry_key (h\<lparr>buckets := n, n_buckets := m\<rparr>) = entry_key h"
    by (simp add: entry_key_def fun_eq_iff)
  have b: "bucket_of (h\<lparr>buckets := n, n_buckets := m\<rparr>) (entry_key h e) = x e" for e
    by (simp add: bucket_of_def x_def)
  have "chains_ok (h\<lparr>buckets := n, n_buckets := m\<rparr>)"
    using n assms by (auto simp: chains_ok_def k b table_inv_def)
  then show ?thesis
    using assms m n[of 0] by (simp add: r table_inv_def k)
qed


lemma link_fresh:
  assumes h: "table_inv hash cmp h" and room: "table_room h"
    and e: "e \<notin> set (iterate_list h)" and k: "k \<notin> entry_key h ` set (iterate_list h)"
  shows "\<exists>h'. link_entry (h\<lparr>entries := (entries h)(e := Some (k, v))\<rparr>) e (bucket_of h k) = Inr h' \<and>
     table_inv hash cmp h' \<and> iterate_list h' = iterate_list h @ [e] \<and>
     entries h' = (entries h)(e := Some (k, v))"
proof -
  define h2 where "h2 = h\<lparr>entries := (entries h)(e := Some (k, v))\<rparr>"
  define i where "i = bucket_of h k"
  define h3 where "h3 = h2\<lparr>buckets := (buckets h2)[i := e # buckets h2 ! i],
      iterate_list := iterate_list h2 @ [e], n_entries := n_entries h + 1\<rparr>"
  have u: "u32 (n_entries h + 1) = n_entries h + 1"
    using room by (simp add: table_room_def u32_def)
  then have l: "link_entry h2 e i = Inr h3"
    by (simp add: link_entry_def h3_def h2_def)
  have i: "i < n_buckets h" using bucket_of_less[OF h] by (simp add: i_def)
  have key: "entry_key h3 x = (if x = e then k else entry_key h x)" for x
    by (simp add: entry_key_def h3_def h2_def)
  have bo: "bucket_of h3 = bucket_of h"
    by (simp add: bucket_of_def h3_def h2_def fun_eq_iff)
  have bs: "buckets h3 ! j = (if j = i then e # buckets h ! i else buckets h ! j)"
    if "j < n_buckets h" for j
    using that h by (auto simp: h3_def h2_def table_inv_def nth_list_update)
  have "chains_ok h3"
    unfolding chains_ok_def
  proof (intro allI impI)
    fix j assume "j < n_buckets h3"
    then have j: "j < n_buckets h" by (simp add: h3_def h2_def)
    have c: "distinct (buckets h ! j)"
      "set (buckets h ! j) = {x \<in> set (iterate_list h). bucket_of h (entry_key h x) = j}"
      using h j by (auto simp: table_inv_def chains_ok_def)
    have "set (iterate_list h3) = insert e (set (iterate_list h))" by (simp add: h3_def h2_def)
    with c e show "distinct (buckets h3 ! j) \<and> set (buckets h3 ! j) =
        {x \<in> set (iterate_list h3). bucket_of h3 (entry_key h3 x) = j}"
      by (auto simp: bs[OF j] bo key i_def)
  qed
  moreover have "inj_on (entry_key h3) (set (iterate_list h) \<union> {e})"
    using h e k by (auto simp: table_inv_def inj_on_def key)
  moreover have "hash_func h3 = hash" "compare_func h3 = cmp" "n_buckets h3 = n_buckets h"
    "length (buckets h3) = n_buckets h" "iterate_list h3 = iterate_list h @ [e]"
    "n_entries h3 = n_entries h + 1" "entries h3 = (entries h)(e := Some (k, v))"
    using h by (simp_all add: table_inv_def h3_def h2_def)
  ultimately have "table_inv hash cmp h3"
    using h e room by (auto simp: table_inv_def table_room_def)
  then show ?thesis using l by (auto simp: h2_def i_def h3_def)
qed

text \<open>Putting a new key, at any address that is not in use.\<close>

lemma put_fresh:
  assumes h: "table_inv hash cmp h" and room: "table_room h"
    and None: "find (\<lambda>e. entry_key h e = k) (iterate_list h) = None"
    and h1_def: "h1 = snd (resize_buckets h)" and e: "e \<notin> set (iterate_list h)"
  shows "\<exists>h'. link_entry (h1\<lparr>entries := (entries h1)(e := Some (k, v))\<rparr>) e (bucket_of h1 k) = Inr h' \<and>
     table_inv hash cmp h' \<and> table_alist h' = table_alist h @ [(k, v)]"
proof -
  have h1: "table_inv hash cmp h1" "iterate_list h1 = iterate_list h" "entries h1 = entries h"
    using inv_resize[OF h] by (simp_all add: h1_def)
  have key: "entry_key h1 = entry_key h" by (simp add: entry_key_def h1 fun_eq_iff)
  have k: "k \<notin> entry_key h1 ` set (iterate_list h1)"
    using None by (auto simp: find_None_iff h1 key)
  have n: "table_room h1" using room h h1 by (simp add: table_room_def table_inv_def)
  obtain h3 where h3: "link_entry (h1\<lparr>entries := (entries h1)(e := Some (k, v))\<rparr>) e (bucket_of h1 k) = Inr h3"
    "table_inv hash cmp h3" "iterate_list h3 = iterate_list h @ [e]"
    "entries h3 = (entries h)(e := Some (k, v))"
    using link_fresh[OF h1(1) n _ k, of e v] h1 e by auto
  have "table_alist h3 = table_alist h @ [(k, v)]"
    using e h1 by (auto simp: table_alist_def h3 entry_key_def entry_value_def)
  then show ?thesis using h3 by auto
qed

lemma inv_put:
  assumes h: "table_inv hash cmp h" and room: "table_room h"
  shows "\<exists>h'. hashmap_put h k v = Inr (fst (hm_put (table_alist h) k v), h') \<and>
     table_inv hash cmp h' \<and> table_alist h' = snd (hm_put (table_alist h) k v)"
proof (cases "find (\<lambda>e. entry_key h e = k) (iterate_list h)")
  case (Some e)
  then show ?thesis
    using h by (auto simp: hashmap_put_def scan hm_put_def hm_get_table)
next
  case None
  define h1 where "h1 = snd (resize_buckets h)"
  define e where "e = fresh_entry h1"
  have "iterate_list h1 = iterate_list h" using inv_resize[OF h] by (simp add: h1_def)
  then have e: "e \<notin> set (iterate_list h)" using fresh_entry_new[of e h1] by (auto simp: e_def)
  have bo: "bucket_of (h1\<lparr>entries := x\<rparr>) k = bucket_of h1 k" for x
    by (simp add: bucket_of_def)
  have "hm_put (table_alist h) k v = (1, table_alist h @ [(k, v)])"
    by (simp add: hm_put_def hm_get_table None)
  then show ?thesis
    using put_fresh[OF h room None h1_def e, of v]
    by (auto simp: hashmap_put_def scan[OF h] None Let_def bo simp flip: h1_def e_def)
qed

text \<open>Giving an entry another value, or another copy of its key, changes the value only.\<close>

lemma set_entry:
  assumes h: "table_inv hash cmp h" and s: "find (\<lambda>e. entry_key h e = k) (iterate_list h) = Some e"
  shows "table_inv hash cmp (h\<lparr>entries := (entries h)(e := Some (k, v))\<rparr>) \<and>
     table_alist (h\<lparr>entries := (entries h)(e := Some (k, v))\<rparr>) = hm_set (table_alist h) k v"
proof -
  let ?h = "h\<lparr>entries := (entries h)(e := Some (k, v))\<rparr>"
  have e: "e \<in> set (iterate_list h)" "entry_key h e = k" using find_in_set[OF s] by auto
  have key: "entry_key ?h = entry_key h" using e by (auto simp: entry_key_def fun_eq_iff)
  have bo: "bucket_of ?h = bucket_of h" by (simp add: bucket_of_def fun_eq_iff)
  have "entry_key h x = k \<longleftrightarrow> x = e" if "x \<in> set (iterate_list h)" for x
    using h e that by (auto simp: table_inv_def inj_on_def)
  then have "table_alist ?h = hm_set (table_alist h) k v"
    by (auto simp: table_alist_def hm_set_def key entry_value_def)
  moreover have "table_inv hash cmp ?h"
    using h by (auto simp: table_inv_def chains_ok_def key bo)
  ultimately show ?thesis by blast
qed

lemma inv_get: "table_inv hash cmp h \<Longrightarrow> hashmap_get h k = Inr (hm_get (table_alist h) k)"
  by (simp add: hashmap_get_def scan hm_get_table)

lemma inv_update:
  assumes h: "table_inv hash cmp h"
  shows "\<exists>h'. hashmap_update h k v = Inr (fst (hm_update (table_alist h) k v), h') \<and>
     table_inv hash cmp h' \<and> table_alist h' = snd (hm_update (table_alist h) k v)"
proof (cases "find (\<lambda>e. entry_key h e = k) (iterate_list h)")
  case None
  then show ?thesis using h by (simp add: hashmap_update_def scan hm_update_def hm_get_table)
next
  case (Some e)
  then show ?thesis using set_entry[OF h Some, of v] find_in_set[OF Some] h
    by (simp add: hashmap_update_def scan hm_update_def hm_get_table)
qed

lemma inv_replace:
  assumes h: "table_inv hash cmp h" and room: "table_room h"
  shows "\<exists>h'. hashmap_replace h k v = Inr (if hm_get (table_alist h) k = None then 1 else 0, h') \<and>
     table_inv hash cmp h' \<and>
     table_alist h' = (if hm_get (table_alist h) k = None then table_alist h @ [(k, v)]
                       else hm_set (table_alist h) k v)"
proof (cases "find (\<lambda>e. entry_key h e = k) (iterate_list h)")
  case None
  then have n: "hm_get (table_alist h) k = None" by (simp add: hm_get_table)
  then show ?thesis using inv_put[OF h room, of k v] None
    by (simp add: hashmap_replace_def scan[OF h] hm_put_def)
next
  case (Some e)
  then show ?thesis using set_entry[OF h Some, of v] h
    by (simp add: hashmap_replace_def scan hm_get_table)
qed

lemma inv_unlink:
  assumes h: "table_inv hash cmp h" and e: "e \<in> set (iterate_list h)"
  shows "\<exists>h'. unlink_entry h e (bucket_of h (entry_key h e)) = Inr h' \<and> table_inv hash cmp h' \<and>
     iterate_list h' = filter (\<lambda>x. x \<noteq> e) (iterate_list h) \<and> entries h' = entries h"
proof -
  define i where "i = bucket_of h (entry_key h e)"
  define h' where "h' = h\<lparr>iterate_list := remove1 e (iterate_list h),
      buckets := (buckets h)[i := remove1 e (buckets h ! i)], n_entries := n_entries h - 1\<rparr>"
  have d: "distinct (iterate_list h)" using h by (simp add: table_inv_def)
  have n: "1 \<le> n_entries h" using h e by (cases "iterate_list h") (auto simp: table_inv_def)
  have u: "unlink_entry h e i = Inr h'"
    using n by (simp add: unlink_entry_def h'_def)
  have key: "entry_key h' = entry_key h" by (simp add: entry_key_def h'_def fun_eq_iff)
  have bo: "bucket_of h' = bucket_of h" by (simp add: bucket_of_def h'_def fun_eq_iff)
  have it: "iterate_list h' = filter (\<lambda>x. x \<noteq> e) (iterate_list h)"
    using d by (auto simp: h'_def distinct_remove1_removeAll removeAll_filter_not_eq
        intro: filter_cong)
  have i: "i < n_buckets h" using bucket_of_less[OF h] by (simp add: i_def)
  have "chains_ok h'"
    unfolding chains_ok_def
  proof (intro allI impI)
    fix j assume "j < n_buckets h'"
    then have j: "j < n_buckets h" by (simp add: h'_def)
    have c: "distinct (buckets h ! j)"
      "set (buckets h ! j) = {x \<in> set (iterate_list h). bucket_of h (entry_key h x) = j}"
      using h j by (auto simp: table_inv_def chains_ok_def)
    have b: "buckets h' ! j = (if j = i then remove1 e (buckets h ! i) else buckets h ! j)"
      using j h by (auto simp: h'_def table_inv_def nth_list_update)
    have "distinct (buckets h' ! j)" using c(1) b by (cases "j = i") simp_all
    moreover have "set (buckets h' ! j) = set (buckets h ! j) - (if j = i then {e} else {})"
      using c(1) b by (cases "j = i") simp_all
    moreover have "\<dots> = {x \<in> set (iterate_list h'). bucket_of h' (entry_key h' x) = j}"
      unfolding c(2) it key bo i_def by auto
    ultimately show "distinct (buckets h' ! j) \<and>
        set (buckets h' ! j) = {x \<in> set (iterate_list h'). bucket_of h' (entry_key h' x) = j}"
      by simp
  qed
  moreover have "inj_on (entry_key h') (set (iterate_list h'))"
    using h by (auto simp: table_inv_def inj_on_def key it)
  moreover have "hash_func h' = hash" "compare_func h' = cmp" "n_buckets h' = n_buckets h"
    "length (buckets h') = n_buckets h" "entries h' = entries h"
    "n_entries h' = length (iterate_list h')" "n_entries h' < 2 ^ 32"
    using h e by (auto simp: table_inv_def h'_def length_remove1)
  moreover have "distinct (iterate_list h')" using d by (simp add: it)
  moreover have "\<forall>x \<in> set (iterate_list h'). entries h' x \<noteq> None"
    using h by (simp add: it table_inv_def h'_def)
  moreover have "0 < n_buckets h'" using i \<open>n_buckets h' = n_buckets h\<close> by simp
  ultimately have "table_inv hash cmp h'" by (simp add: table_inv_def)
  then show ?thesis using u it by (auto simp: i_def h'_def)
qed

lemma inv_remove_entry:
  assumes h: "table_inv hash cmp h" and e: "e \<in> set (iterate_list h)"
  shows "\<exists>h'. remove_entry h e = Inr h' \<and> table_inv hash cmp h' \<and>
     table_alist h' = filter (\<lambda>p. fst p \<noteq> entry_key h e) (table_alist h) \<and>
     iterate_list h' = filter (\<lambda>x. x \<noteq> e) (iterate_list h) \<and>
     (\<forall>x. x \<noteq> e \<longrightarrow> entries h' x = entries h x)"
proof -
  obtain h1 where h1: "unlink_entry h e (bucket_of h (entry_key h e)) = Inr h1"
    "table_inv hash cmp h1" "iterate_list h1 = filter (\<lambda>x. x \<noteq> e) (iterate_list h)"
    "entries h1 = entries h"
    using inv_unlink[OF assms] by blast
  define h2 where "h2 = h1\<lparr>entries := (entries h1)(e := None)\<rparr>"
  have key: "entry_key h2 x = entry_key h x" "entry_value h2 x = entry_value h x"
    if "x \<in> set (iterate_list h2)" for x
    using that by (auto simp: entry_key_def entry_value_def h2_def h1)
  have key1: "entry_key h1 = entry_key h" by (simp add: entry_key_def h1 fun_eq_iff)
  have bo: "bucket_of h2 = bucket_of h1" by (simp add: bucket_of_def h2_def fun_eq_iff)
  have it: "iterate_list h2 = iterate_list h1" and bs: "buckets h2 = buckets h1"
    and nb: "n_buckets h2 = n_buckets h1" by (simp_all add: h2_def)
  have "{x \<in> set (iterate_list h2). bucket_of h2 (entry_key h2 x) = i} =
      {x \<in> set (iterate_list h1). bucket_of h1 (entry_key h1 x) = i}" for i
    using key by (auto simp: bo it key1)
  then have "chains_ok h2"
    using h1(2) by (simp add: table_inv_def chains_ok_def bs nb)
  moreover have "inj_on (entry_key h2) (set (iterate_list h2))"
    using h1(2) key key1 by (auto simp: table_inv_def inj_on_def it)
  ultimately have inv: "table_inv hash cmp h2"
    using h1 by (auto simp: table_inv_def h2_def)
  have inj: "entry_key h x = entry_key h e \<longleftrightarrow> x = e" if "x \<in> set (iterate_list h)" for x
    using h e that by (auto simp: table_inv_def inj_on_def)
  have "table_alist h2 = map (\<lambda>x. (entry_key h x, entry_value h x)) (iterate_list h2)"
    unfolding table_alist_def by (rule map_cong) (auto simp: key)
  also have "\<dots> = filter (\<lambda>p. fst p \<noteq> entry_key h e) (table_alist h)"
    unfolding it h1 by (simp add: table_alist_def filter_map comp_def inj cong: filter_cong)
  finally show ?thesis
    using h1 inv by (auto simp: remove_entry_def h2_def)
qed

lemma inv_remove:
  assumes h: "table_inv hash cmp h"
  shows "\<exists>h'. hashmap_remove h k = Inr (hm_get (table_alist h) k, h') \<and> table_inv hash cmp h' \<and>
     table_alist h' = snd (hm_remove (table_alist h) k)"
proof (cases "find (\<lambda>e. entry_key h e = k) (iterate_list h)")
  case None
  then have "hm_get (table_alist h) k = None" by (simp add: hm_get_table)
  then have "filter (\<lambda>e. fst e \<noteq> k) (table_alist h) = table_alist h"
    by (auto simp: hm_get_None filter_id_conv)
  then show ?thesis using None h
    by (simp add: hashmap_remove_def scan hm_remove_def hm_get_table)
next
  case (Some e)
  have e: "e \<in> set (iterate_list h)" "entry_key h e = k" using find_in_set[OF Some] by auto
  show ?thesis using inv_remove_entry[OF h e(1)] h e Some
    by (auto simp: hashmap_remove_def scan hm_remove_def hm_get_table)
qed

lemma inv_clear:
  assumes h: "table_inv hash cmp h"
  shows "\<exists>h'. hashmap_clear h = Inr h' \<and> table_inv hash cmp h' \<and> table_alist h' = []"
proof -
  have "iterate_list h = es \<Longrightarrow> table_inv hash cmp h \<Longrightarrow>
     \<exists>h'. clear_loop es h = Inr h' \<and> table_inv hash cmp h' \<and> table_alist h' = []" for es
  proof (induction es arbitrary: h)
    case Nil
    then show ?case by (simp add: table_alist_def)
  next
    case (Cons e es)
    obtain h1 where h1: "remove_entry h e = Inr h1" "table_inv hash cmp h1"
      "iterate_list h1 = filter (\<lambda>x. x \<noteq> e) (iterate_list h)"
      using inv_remove_entry[OF Cons.prems(2), of e] Cons.prems(1) by auto
    have "filter (\<lambda>x. x \<noteq> e) es = es"
      using Cons.prems by (auto simp: table_inv_def filter_id_conv)
    then have "iterate_list h1 = es" using h1(3) Cons.prems(1) by simp
    then show ?case using Cons.IH[OF _ h1(2)] h1(1) by simp
  qed
  then show ?thesis using h by (simp add: hashmap_clear_def)
qed

end

sublocale hash_key \<subseteq> tab: ordered_map "table_inv hash cmp" table_room table_alist
  hashmap_get hashmap_put hashmap_update hashmap_remove
  by unfold_locales (simp_all only: inv_alist inv_get inv_put inv_update inv_remove)

lemma string_compare_eq: "string_compare_func a b = 0 \<longleftrightarrow> a = b"
  by (induction a b rule: string_compare_func.induct) auto

interpretation str: hash_key string_hash_func string_compare_func
  by unfold_locales (rule string_compare_eq)

interpretation ptr: hash_key trivial_hash_func trivial_compare_func
  by unfold_locales (auto simp: trivial_compare_func_def)

interpretation u64: hash_key uint64_hash_func uint64_compare_func
  by unfold_locales (auto simp: uint64_compare_func_def)

section \<open>Iteration\<close>

text \<open>
  The \<open>HASHMAP_FOREACH_KEY\<close> loop whose body removes the current entry when \<open>P\<close> holds of it, as the
  loops over the memory store and over the daemon's tables do. It collects what it visited. The
  fuel bounds the number of rounds; one more than the number of entries is enough.
\<close>

fun foreach_remove ::
  "nat \<Rightarrow> ('k \<Rightarrow> 'v \<Rightarrow> bool) \<Rightarrow> ('k, 'v) Hashmap \<Rightarrow> nat option option \<Rightarrow>
   (('k \<times> 'v) list \<times> ('k, 'v) Hashmap) option res" where
  "foreach_remove 0 P h i = Inr None"
| "foreach_remove (Suc fuel) P h i = (case hashmap_iterate h i of
      (None, _) \<Rightarrow> Inr (Some ([], h))
    | (Some (k, v), j) \<Rightarrow>
        bindE (if P k v then bindE (hashmap_remove h k) (\<lambda>(_, h'). Inr h') else Inr h) (\<lambda>h'.
        bindE (foreach_remove fuel P h' j) (\<lambda>r.
          Inr (map_option (\<lambda>(seen, h''). ((k, v) # seen, h'')) r))))"

lemma next_after_append:
  "e \<notin> set xs \<Longrightarrow> next_after (xs @ e # ys) e = (case ys of [] \<Rightarrow> None | y # _ \<Rightarrow> Some y)"
  by (induction xs) auto

lemma iterate_at:
  assumes "iterate_list h = xs @ e # ys" "e \<notin> set xs"
  shows "hashmap_iterate h (Some (Some e)) =
    (Some (entry_key h e, entry_value h e), Some (case ys of [] \<Rightarrow> None | y # _ \<Rightarrow> Some y))"
  using assms by (simp add: hashmap_iterate_def next_after_append)

context hash_key begin

lemma remove_entry_of:
  assumes h: "table_inv hash cmp h" and e: "e \<in> set (iterate_list h)"
  shows "\<exists>h' w. hashmap_remove h (entry_key h e) = Inr (w, h') \<and> table_inv hash cmp h' \<and>
     iterate_list h' = filter (\<lambda>x. x \<noteq> e) (iterate_list h) \<and>
     (\<forall>x. x \<noteq> e \<longrightarrow> entries h' x = entries h x)"
proof -
  have "find (\<lambda>x. entry_key h x = entry_key h e) (iterate_list h) = Some e"
  proof (cases "find (\<lambda>x. entry_key h x = entry_key h e) (iterate_list h)")
    case None
    then show ?thesis using e by (auto simp: find_None_iff)
  next
    case (Some x)
    then have "x \<in> set (iterate_list h)" "entry_key h x = entry_key h e"
      using find_in_set[OF Some] by auto
    then show ?thesis using Some h e by (auto simp: table_inv_def inj_on_def)
  qed
  then show ?thesis
    using inv_remove_entry[OF assms] h by (auto simp: hashmap_remove_def scan)
qed

lemma foreach_from:
  assumes "table_inv hash cmp h" "iterate_list h = xs @ es" "length es < fuel"
  shows "\<exists>h'. foreach_remove fuel P h (Some (case es of [] \<Rightarrow> None | e # _ \<Rightarrow> Some e)) =
      Inr (Some (map (\<lambda>e. (entry_key h e, entry_value h e)) es, h')) \<and> table_inv hash cmp h' \<and>
     table_alist h' = map (\<lambda>e. (entry_key h e, entry_value h e)) xs @
       filter (\<lambda>p. \<not> P (fst p) (snd p)) (map (\<lambda>e. (entry_key h e, entry_value h e)) es)"
  using assms
proof (induction es arbitrary: h xs fuel)
  case Nil
  then show ?case by (cases fuel) (auto simp: hashmap_iterate_def table_alist_def)
next
  case (Cons e es)
  then obtain f where f: "fuel = Suc f" "length es < f" by (cases fuel) auto
  have d: "e \<notin> set xs" "e \<notin> set es" and ein: "e \<in> set (iterate_list h)"
    using Cons.prems by (auto simp: table_inv_def)
  note it = iterate_at[OF Cons.prems(2) d(1)]
  show ?case
  proof (cases "P (entry_key h e) (entry_value h e)")
    case False
    then show ?thesis
      using Cons.IH[OF Cons.prems(1), of "xs @ [e]" f] Cons.prems(2) f by (auto simp: it)
  next
    case True
    obtain h1 w where h1: "hashmap_remove h (entry_key h e) = Inr (w, h1)" "table_inv hash cmp h1"
      "iterate_list h1 = filter (\<lambda>x. x \<noteq> e) (iterate_list h)"
      "\<And>x. x \<noteq> e \<Longrightarrow> entries h1 x = entries h x"
      using remove_entry_of[OF Cons.prems(1) ein] by blast
    have "filter (\<lambda>x. x \<noteq> e) zs = zs" if "e \<notin> set zs" for zs
      using that by (induction zs) auto
    then have il: "iterate_list h1 = xs @ es"
      using h1(3) d Cons.prems(2) by simp
    have same: "map (\<lambda>e. (entry_key h1 e, entry_value h1 e)) zs =
        map (\<lambda>e. (entry_key h e, entry_value h e)) zs" if "e \<notin> set zs" for zs
      using that h1(4) by (auto simp: entry_key_def entry_value_def) (metis fst_conv snd_conv)+
    show ?thesis
      using Cons.IH[OF h1(2) il f(2)] True
      by (auto simp: it f(1) h1(1) same[OF d(1)] same[OF d(2)])
  qed
qed

lemma foreach_all:
  assumes "table_inv hash cmp h" "n_entries h < fuel"
  shows "\<exists>h'. foreach_remove fuel P h None = Inr (Some (table_alist h, h')) \<and> table_inv hash cmp h' \<and>
     table_alist h' = filter (\<lambda>p. \<not> P (fst p) (snd p)) (table_alist h)"
proof -
  obtain f where f: "fuel = Suc f" using assms(2) by (cases fuel) auto
  have "hashmap_iterate h None =
      hashmap_iterate h (Some (case iterate_list h of [] \<Rightarrow> None | e # _ \<Rightarrow> Some e))"
    by (auto simp: hashmap_iterate_def split: list.splits)
  then have "foreach_remove fuel P h None =
      foreach_remove fuel P h (Some (case iterate_list h of [] \<Rightarrow> None | e # _ \<Rightarrow> Some e))"
    by (simp only: f foreach_remove.simps)
  then show ?thesis
    using foreach_from[OF assms(1), of "[]" "iterate_list h" fuel P] assms
    by (auto simp: table_alist_def table_inv_def)
qed

lemma merge_all:
  assumes "table_inv hash cmp h" "length (table_alist h) + length es < 2 ^ 32" "hm_ok es"
    "fst ` set es \<inter> fst ` set (table_alist h) = {}"
  shows "\<exists>h'. merge_loop es h = Inr (0, h') \<and> table_inv hash cmp h' \<and>
     table_alist h' = table_alist h @ es"
  using assms
proof (induction es arbitrary: h)
  case (Cons p es)
  obtain k v where p: "p = (k, v)" by (cases p)
  have n: "hm_get (table_alist h) k = None" using Cons.prems(4) by (auto simp: hm_get_None p)
  have room: "table_room h"
    using Cons.prems(1,2) by (simp add: table_room_def table_inv_def table_alist_def)
  obtain h1 where h1: "hashmap_put h k v = Inr (1, h1)" "table_inv hash cmp h1"
    "table_alist h1 = table_alist h @ [(k, v)]"
    using inv_put[OF Cons.prems(1) room, of k v] n by (auto simp: hm_put_def)
  have "\<exists>h'. merge_loop es h1 = Inr (0, h') \<and> table_inv hash cmp h' \<and>
      table_alist h' = table_alist h1 @ es"
    using Cons.prems h1 by (intro Cons.IH) (auto simp: hm_ok_def p)
  then show ?case using h1 by (simp add: p)
qed simp

lemma copy_table:
  assumes "table_inv hash cmp h"
  shows "\<exists>c. hashmap_copy h = Inr (Some c) \<and> table_inv hash cmp c \<and> table_alist c = table_alist h"
proof -
  have f: "hash_func h = hash" "compare_func h = cmp" "length (table_alist h) < 2 ^ 32"
    using assms by (auto simp: table_inv_def table_alist_def)
  have "\<exists>c. merge_loop (table_alist h) (hashmap_new hash cmp) = Inr (0, c) \<and>
      table_inv hash cmp c \<and> table_alist c = table_alist (hashmap_new hash cmp) @ table_alist h"
    by (rule merge_all) (simp_all add: inv_new inv_alist[OF assms] f(3)[simplified])
  then show ?thesis
    using inv_new unfolding hashmap_copy_def hashmap_merge_def f(1,2) table_alist_def[symmetric]
    by auto
qed

end

section \<open>What the table promises\<close>

text \<open>A client of the table: a script of calls, and what each call returned.\<close>

datatype ('k, 'v) hm_op = OpPut 'k 'v | OpUpdate 'k 'v | OpRemove 'k | OpGet 'k

datatype 'v hm_ret = RetInt int | RetValue "'v option"

fun run_table ::
  "('k, 'v) hm_op list \<Rightarrow> ('k, 'v) Hashmap \<Rightarrow> 'v hm_ret list res" where
  "run_table [] h = Inr []"
| "run_table (OpPut k v # ops) h = bindE (hashmap_put h k v) (\<lambda>(r, h').
     bindE (run_table ops h') (\<lambda>rs. Inr (RetInt r # rs)))"
| "run_table (OpUpdate k v # ops) h = bindE (hashmap_update h k v) (\<lambda>(r, h').
     bindE (run_table ops h') (\<lambda>rs. Inr (RetInt r # rs)))"
| "run_table (OpRemove k # ops) h = bindE (hashmap_remove h k) (\<lambda>(r, h').
     bindE (run_table ops h') (\<lambda>rs. Inr (RetValue r # rs)))"
| "run_table (OpGet k # ops) h = bindE (hashmap_get h k) (\<lambda>r.
     bindE (run_table ops h) (\<lambda>rs. Inr (RetValue r # rs)))"

fun run_alist :: "('k, 'v) hm_op list \<Rightarrow> ('k \<times> 'v) list \<Rightarrow> 'v hm_ret list" where
  "run_alist [] m = []"
| "run_alist (OpPut k v # ops) m =
     RetInt (fst (hm_put m k v)) # run_alist ops (snd (hm_put m k v))"
| "run_alist (OpUpdate k v # ops) m =
     RetInt (fst (hm_update m k v)) # run_alist ops (snd (hm_update m k v))"
| "run_alist (OpRemove k # ops) m =
     RetValue (fst (hm_remove m k)) # run_alist ops (snd (hm_remove m k))"
| "run_alist (OpGet k # ops) m = RetValue (hm_get m k) # run_alist ops m"

lemma length_hm_ops:
  "length (snd (hm_put m k v)) \<le> Suc (length m)" "length (snd (hm_update m k v)) = length m"
  "length (snd (hm_remove m k)) \<le> length m"
  by (auto simp: hm_put_def hm_update_def hm_set_def hm_remove_def split: option.splits)

lemma fst_hm_remove: "fst (hm_remove m k) = hm_get m k"
  by (simp add: hm_remove_def)

context hash_key begin

lemma run_table_alist:
  assumes "table_inv hash cmp h" "length (table_alist h) + length ops < 2 ^ 32"
  shows "run_table ops h = Inr (run_alist ops (table_alist h))"
  using assms
proof (induction ops arbitrary: h)
  case (Cons op ops)
  have room: "table_room h"
    using Cons.prems by (simp add: table_room_def table_inv_def table_alist_def)
  show ?case
  proof (cases op)
    case (OpPut k v)
    obtain h' where "hashmap_put h k v = Inr (fst (hm_put (table_alist h) k v), h')"
      "table_inv hash cmp h'" "table_alist h' = snd (hm_put (table_alist h) k v)"
      using inv_put[OF Cons.prems(1) room] by blast
    then show ?thesis
      using OpPut Cons.IH[of h'] Cons.prems length_hm_ops(1)[of "table_alist h" k v] by simp
  next
    case (OpUpdate k v)
    obtain h' where "hashmap_update h k v = Inr (fst (hm_update (table_alist h) k v), h')"
      "table_inv hash cmp h'" "table_alist h' = snd (hm_update (table_alist h) k v)"
      using inv_update[OF Cons.prems(1)] by blast
    then show ?thesis
      using OpUpdate Cons.IH[of h'] Cons.prems by (simp add: length_hm_ops)
  next
    case (OpRemove k)
    obtain h' where "hashmap_remove h k = Inr (hm_get (table_alist h) k, h')"
      "table_inv hash cmp h'" "table_alist h' = snd (hm_remove (table_alist h) k)"
      using inv_remove[OF Cons.prems(1)] by blast
    then show ?thesis
      using OpRemove Cons.IH[of h'] Cons.prems length_hm_ops(3)[of "table_alist h" k]
      by (simp add: fst_hm_remove)
  next
    case (OpGet k)
    then show ?thesis using Cons.IH[of h] Cons.prems by (simp add: inv_get)
  qed
qed simp

lemma put_load:
  assumes h: "table_inv hash cmp h" and n: "n_entries h < 2 ^ 30 - 1" "3 * n_buckets h < 2 ^ 32"
    and p: "hashmap_put h k v = Inr (1, h')"
  shows "n_entries h' = n_entries h + 1 \<and> 4 * n_entries h' < 3 * n_buckets h' + 4"
proof -
  have "find (\<lambda>e. entry_key h e = k) (iterate_list h) = None"
    using p h by (auto simp: hashmap_put_def scan split: option.splits if_splits)
  then obtain e i where l: "link_entry (snd (resize_buckets h)\<lparr>entries := e\<rparr>) i
      (bucket_of (snd (resize_buckets h)\<lparr>entries := e\<rparr>) k) = Inr h'"
    using p h by (auto simp: hashmap_put_def scan Let_def res_simps)
  have "n_entries h' = u32 (n_entries (snd (resize_buckets h)) + 1)"
    "n_buckets h' = n_buckets (snd (resize_buckets h))"
    using l by (auto simp: link_entry_def Let_def res_simps)
  then show ?thesis
    using n by (auto simp: resize_buckets_def u32_def Let_def)
qed

end

text \<open>Any script of puts, updates, removals and lookups on a new string keyed table runs without
  a fault (no assertion of hashmap.c fails) and every call returns what the same call on an
  association list returns, as long as the entry counter cannot wrap.\<close>

theorem string_table_scripts:
  assumes "length ops < 2 ^ 32"
  shows "run_table ops (hashmap_new string_hash_func string_compare_func) = Inr (run_alist ops [])"
  using str.run_table_alist[of "hashmap_new string_hash_func string_compare_func" ops] assms
  by (simp add: str.inv_new)

theorem string_table_scripts_witness:
  "run_table [OpPut ''daemon'' (1::nat), OpPut ''daemon'' 2, OpGet ''daemon'', OpRemove ''daemon'',
              OpGet ''daemon'']
     (hashmap_new string_hash_func string_compare_func) =
   Inr [RetInt 1, RetInt (- EEXIST), RetValue (Some 1), RetValue (Some 1), RetValue None]"
  using string_table_scripts[of "[OpPut ''daemon'' (1::nat), OpPut ''daemon'' 2, OpGet ''daemon'',
      OpRemove ''daemon'', OpGet ''daemon'']"]
  by (simp add: hm_put_def hm_get_def hm_remove_def)

text \<open>A \<open>HASHMAP_FOREACH\<close> loop visits every entry once, in the order of insertion, also when its
  body removes the entry it is at; afterwards exactly the entries the body left are there, in the
  same order. The loop ends after one more round than there are entries.\<close>

theorem foreach_visits_in_order:
  assumes "table_inv uint64_hash_func uint64_compare_func h" "n_entries h < fuel"
  shows "\<exists>h'. foreach_remove fuel P h None = Inr (Some (table_alist h, h')) \<and>
     table_alist h' = filter (\<lambda>p. \<not> P (fst p) (snd p)) (table_alist h)"
  using u64.foreach_all[OF assms, of P] by blast

theorem foreach_visits_in_order_witness:
  "\<exists>h h'. hashmap_put (hashmap_new uint64_hash_func uint64_compare_func) 5 ''a'' = Inr (1, h) \<and>
     foreach_remove 2 (\<lambda>_ _. True) h None = Inr (Some ([(5, ''a'')], h')) \<and> table_alist h' = []"
proof -
  let ?new = "hashmap_new uint64_hash_func uint64_compare_func :: (64 word, string) Hashmap"
  have i: "table_inv uint64_hash_func uint64_compare_func ?new" "table_room ?new" "table_alist ?new = []"
    using u64.inv_new by (auto simp: table_room_def hashmap_new_def)
  from u64.inv_put[OF i(1,2), of 5 "''a''"] obtain h where
    h: "hashmap_put ?new 5 ''a'' = Inr (1, h)" "table_inv uint64_hash_func uint64_compare_func h"
    "table_alist h = [(5, ''a'')]"
    by (auto simp: i hm_put_def)
  have "n_entries h < 2" using h(2,3) by (auto simp: table_inv_def table_alist_def)
  from foreach_visits_in_order[OF h(2) this, of "\<lambda>_ _. True"] h show ?thesis by auto
qed

text \<open>A table that grows stays sparse: after a put of a new key there are fewer than four thirds of
  an entry per bucket and one more, for tables small enough that the unsigned products of
  \<open>resize_buckets\<close> do not wrap.\<close>

theorem put_keeps_load:
  assumes "table_inv string_hash_func string_compare_func h" "n_entries h < 2 ^ 30 - 1"
    "3 * n_buckets h < 2 ^ 32" "hashmap_put h k v = Inr (1, h')"
  shows "n_entries h' = n_entries h + 1 \<and> 4 * n_entries h' < 3 * n_buckets h' + 4"
  by (rule str.put_load[OF assms])

theorem put_keeps_load_witness:
  "\<exists>h'. hashmap_put (hashmap_new string_hash_func string_compare_func) ''k'' ''v'' = Inr (1, h') \<and>
     n_entries h' = 1 \<and> 4 * n_entries h' < 3 * n_buckets h' + 4"
proof -
  let ?new = "hashmap_new string_hash_func string_compare_func :: (string, string) Hashmap"
  have i: "table_inv string_hash_func string_compare_func ?new" "table_room ?new" "table_alist ?new = []"
    "n_entries ?new = 0" "n_buckets ?new = 31"
    using str.inv_new by (auto simp: table_room_def hashmap_new_def)
  from str.inv_put[OF i(1,2), of "''k''" "''v''"] obtain h where
    h: "hashmap_put ?new ''k'' ''v'' = Inr (1, h)"
    by (auto simp: i hm_put_def)
  from put_keeps_load[OF i(1) _ _ h] h show ?thesis by (simp add: i)
qed

text \<open>\<open>hashmap_copy\<close> of a table succeeds and holds the same entries in the same iteration order.\<close>

theorem copy_same_entries:
  assumes "table_inv string_hash_func string_compare_func h"
  shows "\<exists>c. hashmap_copy h = Inr (Some c) \<and> table_inv string_hash_func string_compare_func c \<and>
     table_alist c = table_alist h"
  by (rule str.copy_table[OF assms])

theorem copy_same_entries_witness:
  "\<exists>c. hashmap_copy (hashmap_new string_hash_func string_compare_func) = Inr (Some c) \<and>
     table_alist c = ([] :: (string \<times> nat) list)"
  using copy_same_entries[of "hashmap_new string_hash_func string_compare_func"]
  by (auto simp: str.inv_new)

end
