(* ===== verification/Memory.thy ===== *)
theory Memory
  imports Backend Hashmap
begin

text \<open>
  The memory backend, \<open>src/db/memory.c\<close>: one database per layer (per layer and user for user
  layers), keyed by the bytes of group and name. The databases are the ordered maps of theory
  \<open>Ordered_Map\<close>; that the hash table with \<open>hash_keyrec\<close> and \<open>compare_keyrec\<close> behaves like one is
  the interpretation \<open>krec\<close>.
\<close>

section \<open>Keys and values\<close>

text \<open>A \<open>struct keyrec\<close> is its bytes: size and hash are computed from them.\<close>

type_synonym keyrec = bytes

record valrec =
  val_data :: BuxtonData
  val_label :: BuxtonString

type_synonym MemDb = "(keyrec \<times> valrec) list"
type_synonym Resources = "(bytes \<times> MemDb) list"

text \<open>
  The sum of the two lengths is a \<open>uint32_t\<close>: when it wraps, the copies do not fit the block.
\<close>

definition make_keyrec :: "BuxtonKey \<Rightarrow> keyrec res" where
  "make_keyrec key =
     (let gl = unat (str_length (key_group key));
          nl = (if str_value (key_name key) = None then 0 else unat (str_length (key_name key)))
      in bindE (memcpy_from (str_value (key_group key)) gl) (\<lambda>g.
         bindE (if str_value (key_name key) = None then Inr []
                else memcpy_from (str_value (key_name key)) nl) (\<lambda>n.
         if u32 (gl + nl) < gl + nl then Inl OutOfBounds else Inr (g @ n))))"

definition hash_keyrec :: "keyrec \<Rightarrow> 32 word" where
  "hash_keyrec k =
     fold (\<lambda>c hash. push_bit 5 hash + hash + word_of_nat (of_char c)) (rev k) 5381"

definition compare_keyrec :: "keyrec \<Rightarrow> keyrec \<Rightarrow> int" where
  "compare_keyrec a b =
     (if length a = length b then string_compare_func a b
      else if length a < length b then - 1 else 1)"

interpretation krec: hash_key hash_keyrec compare_keyrec
  by unfold_locales (auto simp: compare_keyrec_def string_compare_eq)

text \<open>
  \<open>set_valrec\<close> copies what it is given before it touches the record; a string value without a
  block stays without one, with the length of the argument.
\<close>

definition set_valrec :: "valrec \<Rightarrow> BuxtonData option \<Rightarrow> BuxtonString option \<Rightarrow> valrec res" where
  "set_valrec item data label =
     bindE (case data of
         None \<Rightarrow> Inr None
       | Some (DString s) \<Rightarrow>
           (case str_value s of
              None \<Rightarrow> Inr (Some (DString s))
            | Some b \<Rightarrow> bindE (rd b 0 (unat (str_length s)))
                (\<lambda>c. Inr (Some (DString \<lparr>str_value = Some c, str_length = str_length s\<rparr>))))
       | Some d \<Rightarrow> Inr (Some d)) (\<lambda>d.
     bindE (case label of
         None \<Rightarrow> Inr None
       | Some s \<Rightarrow>
           (case str_value s of
              None \<Rightarrow> Inr (Some \<lparr>str_value = None, str_length = str_length s\<rparr>)
            | Some b \<Rightarrow> bindE (rd b 0 (unat (str_length s)))
                (\<lambda>c. Inr (Some \<lparr>str_value = Some c, str_length = str_length s\<rparr>)))) (\<lambda>l.
     Inr \<lparr>val_data = (case d of None \<Rightarrow> val_data item | Some x \<Rightarrow> x),
          val_label = (case l of None \<Rightarrow> val_label item | Some x \<Rightarrow> x)\<rparr>))"

definition zero_valrec :: valrec where
  "zero_valrec = \<lparr>val_data = DZero, val_label = null_string\<rparr>"

section \<open>Databases\<close>

text \<open>\<open>%d\<close> prints the \<open>uid_t\<close> as a signed number.\<close>

definition db_name :: "BuxtonLayer \<Rightarrow> bytes res" where
  "db_name layer =
     bindE (cstrp (str_value (layer_name layer))) (\<lambda>n.
       Inr (if layer_type layer = LAYER_USER then n @ ''-'' @ dec_int (sint (layer_uid layer)) else n))"

definition db_for_resource :: "BuxtonLayer \<Rightarrow> Resources \<Rightarrow> (bytes \<times> MemDb \<times> Resources) res" where
  "db_for_resource layer resources =
     bindE (db_name layer) (\<lambda>name. case hm_get resources name of
         Some db \<Rightarrow> Inr (name, db, resources)
       | None \<Rightarrow> Inr (name, [], snd (hm_put resources name [])))"

section \<open>Module functions\<close>

definition mem_set_value ::
  "BuxtonLayer \<Rightarrow> BuxtonKey \<Rightarrow> BuxtonData option \<Rightarrow> BuxtonString \<Rightarrow> Resources \<Rightarrow> (int \<times> Resources) res"
where
  "mem_set_value layer key data label resources =
     bindE (db_for_resource layer resources) (\<lambda>(name, db, resources).
     bindE (make_keyrec key) (\<lambda>keyrec. case hm_get db keyrec of
         Some valrec \<Rightarrow>
           bindE (set_valrec valrec data (Some label)) (\<lambda>v.
             Inr (0, hm_set resources name (hm_set db keyrec v)))
       | None \<Rightarrow>
           if data = None then Inr (ENOENT, resources)
           else
             bindE (set_valrec zero_valrec data (Some label)) (\<lambda>v.
               let (r, db') = hm_put db keyrec v
               in if r \<noteq> 1 then Inl Aborted else Inr (0, hm_set resources name db'))))"

definition mem_get_value :: "allocator \<Rightarrow> BuxtonLayer \<Rightarrow> BuxtonKey \<Rightarrow> Resources \<Rightarrow>
    (int \<times> (BuxtonData \<times> BuxtonString) option \<times> Resources) res" where
  "mem_get_value slack layer key resources =
     bindE (db_for_resource layer resources) (\<lambda>(name, db, resources).
     bindE (make_keyrec key) (\<lambda>keyrec. case hm_get db keyrec of
         None \<Rightarrow> Inr (ENOENT, None, resources)
       | Some valrec \<Rightarrow>
           if data_type (val_data valrec) \<noteq> key_type key \<and> key_type key \<noteq> BUXTON_TYPE_UNSET
           then Inr (EINVAL, None, resources)
           else
             bindE (buxton_data_copy (val_data valrec)) (\<lambda>d. case d of
                 None \<Rightarrow> Inl Aborted
               | Some data \<Rightarrow>
                   bindE (buxton_string_copy slack (val_label valrec)) (\<lambda>label.
                     Inr (0, Some (data, label), resources)))))"

definition unset_key :: "BuxtonLayer \<Rightarrow> BuxtonKey \<Rightarrow> Resources \<Rightarrow> (int \<times> Resources) res" where
  "unset_key layer key resources =
     bindE (assertE (str_value (key_name key) \<noteq> None)) (\<lambda>_.
     bindE (db_for_resource layer resources) (\<lambda>(name, db, resources).
     bindE (make_keyrec key) (\<lambda>keyrec. case hm_remove db keyrec of
         (None, _) \<Rightarrow> Inr (ENOENT, resources)
       | (Some _, db') \<Rightarrow> Inr (0, hm_set resources name db'))))"

text \<open>
  The loop of \<open>unset_group\<close> with its removals done in place; the theorem
  \<open>foreach_visits_in_order\<close> of theory \<open>Hashmap\<close> says that such a loop meets every entry once.
\<close>

fun unset_group_loop :: "BuxtonString \<Rightarrow> MemDb \<Rightarrow> int \<Rightarrow> (int \<times> MemDb) res" where
  "unset_group_loop grp [] ret = Inr (ret, [])"
| "unset_group_loop grp ((k, v) # db) ret =
     bindE (cstr k) (\<lambda>kg.
     bindE (cstrp (str_value grp)) (\<lambda>g.
       if kg = g then unset_group_loop grp db 0
       else bindE (unset_group_loop grp db ret) (\<lambda>(r, db'). Inr (r, (k, v) # db'))))"

definition unset_group :: "BuxtonLayer \<Rightarrow> BuxtonKey \<Rightarrow> Resources \<Rightarrow> (int \<times> Resources) res" where
  "unset_group layer key resources =
     bindE (assertE (str_value (key_name key) = None)) (\<lambda>_.
     bindE (db_for_resource layer resources) (\<lambda>(name, db, resources).
     bindE (unset_group_loop (key_group key) db ENOENT) (\<lambda>(ret, db').
       Inr (ret, hm_set resources name db'))))"

definition mem_unset_value :: "BuxtonLayer \<Rightarrow> BuxtonKey \<Rightarrow> Resources \<Rightarrow> (int \<times> Resources) res" where
  "mem_unset_value layer key resources =
     (if str_value (key_name key) \<noteq> None then unset_key layer key resources
      else unset_group layer key resources)"

text \<open>\<open>strncmp\<close> of two blocks: equal in the first \<open>n\<close> bytes or up to a common NUL.\<close>

fun strncmp_eq :: "nat \<Rightarrow> bytes \<Rightarrow> bytes \<Rightarrow> bool res" where
  "strncmp_eq 0 _ _ = Inr True"
| "strncmp_eq (Suc n) (a # as) (b # bs) =
     (if a \<noteq> b then Inr False else if a = NUL then Inr True else strncmp_eq n as bs)"
| "strncmp_eq (Suc n) _ _ = Inl OutOfBounds"

text \<open>What \<open>list_names\<close> takes from one key: the name of a key of the group, or a group.\<close>

definition list_candidate :: "BuxtonString option \<Rightarrow> keyrec \<Rightarrow> bytes option res" where
  "list_candidate grp k =
     bindE (cstr k) (\<lambda>gname.
     let glen = length gname + 1; klen = length k - glen
     in bindE (assertE (glen \<le> length k)) (\<lambda>_.
        bindE (if klen = 0 then Inr ()
               else bindE (cstr (drop glen k)) (\<lambda>n. assertE (klen = length n + 1))) (\<lambda>_.
        if klen \<noteq> 0 then
          (case grp of
             None \<Rightarrow> Inr None
           | Some g \<Rightarrow>
               if glen = unat (str_length g) then
                 bindE (cstrp (str_value g)) (\<lambda>gn.
                   Inr (if gname = gn then Some (drop glen k) else None))
               else Inr None)
        else Inr (if grp = None then Some (take glen k) else None))))"

definition prefix_match :: "BuxtonString option \<Rightarrow> bytes \<Rightarrow> bool res" where
  "prefix_match prefix v = (case prefix of
       None \<Rightarrow> Inr True
     | Some p \<Rightarrow> (case str_value p of
           None \<Rightarrow> Inl NullDeref
         | Some b \<Rightarrow> strncmp_eq (unat (str_length p) - 1) v b))"

definition list_pick :: "BuxtonString option \<Rightarrow> BuxtonString option \<Rightarrow> keyrec \<Rightarrow> bytes option res" where
  "list_pick grp prefix k =
     bindE (list_candidate grp k) (\<lambda>c. case c of
       None \<Rightarrow> Inr None
     | Some v \<Rightarrow> bindE (prefix_match prefix v) (\<lambda>m. Inr (if m then Some v else None)))"

text \<open>The loop of \<open>list_names\<close>; \<open>buxton_array_add\<close> fails when the array holds 65535 values.\<close>

fun list_names_loop ::
  "BuxtonString option \<Rightarrow> BuxtonString option \<Rightarrow> nat \<Rightarrow> keyrec list \<Rightarrow> BuxtonData list option res" where
  "list_names_loop grp prefix room [] = Inr (Some [])"
| "list_names_loop grp prefix room (k # ks) =
     bindE (list_pick grp prefix k) (\<lambda>c. case c of
       None \<Rightarrow> list_names_loop grp prefix room ks
     | Some v \<Rightarrow>
         if room = 0 then Inr None
         else bindE (list_names_loop grp prefix (room - 1) ks) (\<lambda>rest. Inr (map_option
           ((#) (DString \<lparr>str_value = Some v, str_length = word_of_nat (length v)\<rparr>)) rest)))"

definition drop_empty :: "BuxtonString option \<Rightarrow> BuxtonString option" where
  "drop_empty s = (case s of Some t \<Rightarrow> if str_length t = 0 then None else Some t | None \<Rightarrow> None)"

definition mem_list_names ::
  "BuxtonLayer \<Rightarrow> BuxtonString option \<Rightarrow> BuxtonString option \<Rightarrow> Resources \<Rightarrow>
   (BuxtonData list option \<times> Resources) res" where
  "mem_list_names layer grp prefix resources =
     bindE (db_for_resource layer resources) (\<lambda>(name, db, resources).
     bindE (list_names_loop (drop_empty grp) (drop_empty prefix) 65535 (map fst db)) (\<lambda>l.
       Inr (l, resources)))"

text \<open>\<open>buxton_module_init\<close>: the function table and an empty set of databases.\<close>

definition memory_backend :: "allocator \<Rightarrow> Resources BuxtonBackend" where
  "memory_backend slack =
     \<lparr>be_set_value = mem_set_value, be_get_value = mem_get_value slack,
      be_unset_value = mem_unset_value, be_list_keys = None, be_list_names = mem_list_names,
      be_create_db = None\<rparr>"

definition memory_init :: Resources where
  "memory_init = []"

section \<open>Databases as maps from groups and names\<close>

definition keybytes :: "bytes \<Rightarrow> bytes option \<Rightarrow> keyrec" where
  "keybytes g n = zstr g @ (case n of None \<Rightarrow> [] | Some m \<Rightarrow> zstr m)"

definition key_text :: "bytes \<Rightarrow> bytes option \<Rightarrow> bool" where
  "key_text g n \<longleftrightarrow> NUL \<notin> set g \<and> (\<forall>m. n = Some m \<longrightarrow> NUL \<notin> set m)"

lemma keybytes_inject:
  assumes "key_text g n" "key_text g' n'"
  shows "keybytes g n = keybytes g' n' \<longleftrightarrow> g = g' \<and> n = n'"
proof
  assume "keybytes g n = keybytes g' n'"
  then have "g = g' \<and> (case n of None \<Rightarrow> [] | Some m \<Rightarrow> zstr m) = (case n' of None \<Rightarrow> [] | Some m \<Rightarrow> zstr m)"
    using assms by (intro zstr_append_inject) (auto simp: keybytes_def key_text_def)
  then show "g = g' \<and> n = n'" by (auto simp: zstr_def split: option.splits)
qed simp

lemma key_ok_text: "key_ok key g n \<Longrightarrow> key_text g n"
  by (auto simp: key_ok_def key_text_def str_holds_def)

lemma make_keyrec_ok:
  assumes "key_ok key g n"
  shows "make_keyrec key = Inr (keybytes g n)"
proof -
  have g: "str_holds (key_group key) g" using assms by (simp add: key_ok_def)
  show ?thesis
  proof (cases n)
    case None
    then show ?thesis
      using assms g str_holds_length[OF g] memcpy_from_str[OF str_holds_ok[OF g]] str_holds_bytes[OF g]
      by (simp add: key_ok_def make_keyrec_def keybytes_def u32_def)
  next
    case (Some m)
    then have m: "str_holds (key_name key) m" using assms by (simp add: key_ok_def)
    then show ?thesis
      using assms g Some str_holds_length[OF g] memcpy_from_str[OF str_holds_ok[OF g]]
        str_holds_bytes[OF g] str_holds_length[OF m] memcpy_from_str[OF str_holds_ok[OF m]]
        str_holds_bytes[OF m] str_holds_value[OF m]
      by (auto simp: key_ok_def make_keyrec_def keybytes_def u32_def)
  qed
qed

definition val_ok :: "valrec \<Rightarrow> bool" where
  "val_ok v \<longleftrightarrow> data_ok (val_data v) \<and> str_ok (val_label v)"

definition db_ok :: "MemDb \<Rightarrow> bool" where
  "db_ok db \<longleftrightarrow> hm_ok db \<and>
     (\<forall>k v. hm_get db k = Some v \<longrightarrow> val_ok v \<and> (\<exists>g n. key_text g n \<and> k = keybytes g n))"

definition mem_ok :: "Resources \<Rightarrow> bool" where
  "mem_ok r \<longleftrightarrow> hm_ok r \<and> (\<forall>p db. hm_get r p = Some db \<longrightarrow> db_ok db)"

definition val_of :: "valrec \<Rightarrow> BuxtonData \<times> bytes" where
  "val_of v = (as_stored (val_data v), str_bytes (val_label v))"

definition db_contents :: "MemDb \<Rightarrow> bytes \<Rightarrow> bytes option \<Rightarrow> (BuxtonData \<times> bytes) option" where
  "db_contents db g n =
     (if key_text g n then map_option val_of (hm_get db (keybytes g n)) else None)"

definition mem_contents :: "Resources \<Rightarrow> kv_contents" where
  "mem_contents r p g n = (case hm_get r p of None \<Rightarrow> None | Some db \<Rightarrow> db_contents db g n)"

definition mem_place :: "BuxtonLayer \<Rightarrow> bytes" where
  "mem_place l = (case db_name l of Inl _ \<Rightarrow> [] | Inr n \<Rightarrow> n)"

lemma db_name_ok: "layer_ok nm l \<Longrightarrow> db_name l = Inr (mem_place l)"
  by (simp add: db_name_def layer_ok_cstr mem_place_def)

lemma db_ok_Nil: "db_ok []"
  by (simp add: db_ok_def)

lemma db_for_resource_ok:
  assumes "mem_ok r" "layer_ok nm l"
  obtains db r' where "db_for_resource l r = Inr (mem_place l, db, r')"
    "hm_get r' (mem_place l) = Some db" "db_ok db" "mem_ok r'" "mem_contents r' = mem_contents r"
proof (cases "hm_get r (mem_place l)")
  case (Some db)
  then show ?thesis
    using assms that[of db r] by (auto simp: db_for_resource_def db_name_ok mem_ok_def)
next
  case None
  let ?r = "r @ [(mem_place l, [])]"
  have "mem_ok ?r"
    using assms None hm_ok_put[of r "mem_place l" "[]"]
    by (auto simp: mem_ok_def hm_put_def hm_get_append hm_get_single db_ok_Nil
        split: option.splits if_splits)
  moreover have "mem_contents ?r = mem_contents r"
    using None by (auto simp: fun_eq_iff mem_contents_def hm_get_append hm_get_single
        db_contents_def split: option.splits)
  ultimately show ?thesis
    using None assms(2) that[of "[]" ?r]
    by (simp add: db_for_resource_def db_name_ok hm_put_def hm_get_append hm_get_single db_ok_Nil)
qed

lemma mem_store:
  assumes "mem_ok r" "hm_get r p = Some db" "db_ok db'"
  shows "mem_ok (hm_set r p db')"
    "mem_contents (hm_set r p db') =
       (\<lambda>p' g n. if p' = p then db_contents db' g n else mem_contents r p' g n)"
  using assms by (auto simp: mem_ok_def hm_ok_set hm_get_set mem_contents_def fun_eq_iff)

lemma db_store:
  assumes "db_ok db" "val_ok v" "key_text g n"
    "db' = hm_set db (keybytes g n) v \<and> hm_get db (keybytes g n) \<noteq> None \<or>
     db' = db @ [(keybytes g n, v)] \<and> hm_get db (keybytes g n) = None"
  shows "db_ok db' \<and> db_contents db' =
     (\<lambda>g' n'. if g' = g \<and> n' = n then Some (val_of v) else db_contents db g' n')"
proof -
  have get: "hm_get db' k = (if k = keybytes g n then Some v else hm_get db k)" for k
    using assms(4) by (auto simp: hm_get_set hm_get_append hm_get_single split: option.splits)
  have "hm_ok db'"
    using assms(1,4) hm_ok_put[of db "keybytes g n" v]
    by (auto simp: db_ok_def hm_ok_set hm_put_def)
  then have "db_ok db'" using assms(1-3) unfolding db_ok_def get by auto
  moreover have "db_contents db' g' n' =
      (if g' = g \<and> n' = n then Some (val_of v) else db_contents db g' n')" for g' n'
    using assms(3) keybytes_inject[of g' n' g n] by (auto simp: db_contents_def get)
  ultimately show ?thesis by auto
qed

lemma set_valrec_data:
  assumes "data_ok d" "str_ok label" "str_value label \<noteq> None"
  shows "\<exists>v. set_valrec item (Some d) (Some label) = Inr v \<and> val_ok v \<and>
     val_of v = (as_stored d, str_bytes label)"
proof -
  obtain b where b: "str_value label = Some b" using assms(3) by blast
  then have rb: "rd b 0 (unat (str_length label)) = Inr (str_bytes label)"
    "length (str_bytes label) = unat (str_length label)"
    using assms(2) by (auto simp: str_ok_def rd_def str_bytes_def)
  show ?thesis
  proof (cases d)
    case (DString s)
    show ?thesis
    proof (cases "str_value s")
      case None
      then show ?thesis using assms b rb DString
        by (auto simp: set_valrec_def val_ok_def val_of_def str_ok_def str_bytes_def)
    next
      case (Some c)
      then have "rd c 0 (unat (str_length s)) = Inr (str_bytes s)"
        "length (str_bytes s) = unat (str_length s)"
        using assms(1) DString by (auto simp: str_ok_def rd_def str_bytes_def)
      then show ?thesis using assms b rb DString Some
        by (auto simp: set_valrec_def val_ok_def val_of_def str_ok_def str_bytes_def)
    qed
  qed (use assms b rb in \<open>auto simp: set_valrec_def val_ok_def val_of_def str_ok_def str_bytes_def\<close>)
qed

lemma set_valrec_label:
  assumes "val_ok item" "str_ok label" "str_value label \<noteq> None"
  shows "\<exists>v. set_valrec item None (Some label) = Inr v \<and> val_ok v \<and>
     val_of v = (as_stored (val_data item), str_bytes label)"
proof -
  obtain b where b: "str_value label = Some b" using assms(3) by blast
  then have "rd b 0 (unat (str_length label)) = Inr (str_bytes label)"
    "length (str_bytes label) = unat (str_length label)"
    using assms(2) by (auto simp: str_ok_def rd_def str_bytes_def)
  then show ?thesis using assms b
    by (auto simp: set_valrec_def val_ok_def val_of_def str_ok_def str_bytes_def)
qed

lemma mem_get_ok:
  assumes "mem_ok r" "layer_ok nm l" "key_ok key g n"
  obtains r' lab where "mem_ok r'" "mem_contents r' = mem_contents r"
    "mem_get_value slack l key r = (case mem_contents r (mem_place l) g n of
        None \<Rightarrow> Inr (ENOENT, None, r')
      | Some (d, b) \<Rightarrow>
          if data_type d \<noteq> key_type key \<and> key_type key \<noteq> BUXTON_TYPE_UNSET then Inr (EINVAL, None, r')
          else Inr (0, Some (d, lab), r'))"
    "\<And>d b. mem_contents r (mem_place l) g n = Some (d, b) \<Longrightarrow>
      str_ok lab \<and> str_value lab \<noteq> None \<and> str_bytes lab = b"
proof -
  obtain db r' where r': "db_for_resource l r = Inr (mem_place l, db, r')"
    "hm_get r' (mem_place l) = Some db" "db_ok db" "mem_ok r'" "mem_contents r' = mem_contents r"
    using db_for_resource_ok[OF assms(1,2)] .
  have c: "mem_contents r (mem_place l) g n = map_option val_of (hm_get db (keybytes g n))"
    using key_ok_text[OF assms(3)] r'(2) by (simp flip: r'(5)) (simp add: mem_contents_def db_contents_def)
  show ?thesis
  proof (cases "hm_get db (keybytes g n)")
    case None
    then show ?thesis using that[OF r'(4,5)] r'(1) c make_keyrec_ok[OF assms(3)]
      by (simp add: mem_get_value_def)
  next
    case (Some v)
    then have v: "data_ok (val_data v)" "str_ok (val_label v)"
      using r'(3) by (auto simp: db_ok_def val_ok_def)
    define lab where "lab = \<lparr>str_value = Some (str_bytes (val_label v) @ slack (unat (str_length (val_label v)))),
        str_length = str_length (val_label v)\<rparr>"
    have "str_ok lab \<and> str_value lab \<noteq> None \<and> str_bytes lab = str_bytes (val_label v)"
      using length_str_bytes[OF v(2)] by (simp add: lab_def str_ok_def str_bytes_def)
    then show ?thesis
      using r'(1) c make_keyrec_ok[OF assms(3)] Some v
      by (intro that[OF r'(4,5), of lab])
        (simp_all add: mem_get_value_def val_of_def buxton_data_copy_stored buxton_string_copy_ok lab_def)
  qed
qed

lemma mem_set_ok:
  assumes r: "mem_ok r" "layer_ok nm l" and k: "key_ok key g n"
    and v: "data \<noteq> None \<or> mem_contents r (mem_place l) g n \<noteq> None"
    and sv: "\<And>item. val_ok item \<or> data \<noteq> None \<Longrightarrow>
      \<exists>v. set_valrec item data (Some label) = Inr v \<and> val_ok v \<and> val_of v = f (val_of item)"
  shows "\<exists>r'. mem_set_value l key data label r = Inr (0, r') \<and> mem_ok r' \<and>
     mem_contents r' = kv_upd (mem_contents r) (mem_place l) g n
       (Some (f (case mem_contents r (mem_place l) g n of None \<Rightarrow> val_of zero_valrec | Some x \<Rightarrow> x)))"
proof -
  obtain db r' where r': "db_for_resource l r = Inr (mem_place l, db, r')"
    "hm_get r' (mem_place l) = Some db" "db_ok db" "mem_ok r'" "mem_contents r' = mem_contents r"
    using db_for_resource_ok[OF r] .
  have kt: "key_text g n" by (rule key_ok_text[OF k])
  have c: "mem_contents r (mem_place l) g n = map_option val_of (hm_get db (keybytes g n))"
    using kt r'(2) by (simp flip: r'(5)) (simp add: mem_contents_def db_contents_def)
  have at: "mem_contents r (mem_place l) g' n' = db_contents db g' n'" for g' n'
    using r'(2) by (simp flip: r'(5)) (simp add: mem_contents_def)
  define item where "item = (case hm_get db (keybytes g n) of None \<Rightarrow> zero_valrec | Some w \<Rightarrow> w)"
  have "val_ok item \<or> data \<noteq> None"
    using r'(3) v c by (auto simp: item_def db_ok_def split: option.splits)
  from sv[OF this] obtain w where w: "set_valrec item data (Some label) = Inr w" "val_ok w"
    "val_of w = f (val_of item)" by blast
  define db' where "db' = (if hm_get db (keybytes g n) = None then db @ [(keybytes g n, w)]
      else hm_set db (keybytes g n) w)"
  have db': "db_ok db' \<and> db_contents db' =
      (\<lambda>g' n'. if g' = g \<and> n' = n then Some (val_of w) else db_contents db g' n')"
    by (rule db_store[OF r'(3) w(2) kt]) (auto simp: db'_def)
  have "mem_set_value l key data label r = Inr (0, hm_set r' (mem_place l) db')"
    using r'(1) make_keyrec_ok[OF k] w(1) v c
    by (auto simp: mem_set_value_def item_def db'_def hm_put_def Let_def split: option.splits)
  moreover have "val_of item =
      (case mem_contents r (mem_place l) g n of None \<Rightarrow> val_of zero_valrec | Some x \<Rightarrow> x)"
    by (simp add: c item_def split: option.splits)
  then have "mem_contents (hm_set r' (mem_place l) db') = kv_upd (mem_contents r) (mem_place l) g n
      (Some (f (case mem_contents r (mem_place l) g n of None \<Rightarrow> val_of zero_valrec | Some x \<Rightarrow> x)))"
    using db' w(3) at unfolding mem_store(2)[OF r'(4,2) conjunct1[OF db']]
    by (auto simp: fun_eq_iff r'(5))
  ultimately show ?thesis using mem_store(1)[OF r'(4,2) conjunct1[OF db']] by blast
qed

lemma db_remove:
  assumes "db_ok db"
  shows "db_ok (filter P db)"
    "(\<And>v. P (keybytes g n, v) \<longleftrightarrow> Q) \<Longrightarrow>
      db_contents (filter P db) g n = (if Q then db_contents db g n else None)"
proof -
  have get: "hm_get (filter P db) k = Some v \<longleftrightarrow> hm_get db k = Some v \<and> P (k, v)" for k v
    using assms by (simp add: db_ok_def hm_get_filter)
  show "db_ok (filter P db)"
    using assms unfolding db_ok_def get by (auto simp: hm_ok_def distinct_map_filter)
  assume Q: "\<And>v. P (keybytes g n, v) \<longleftrightarrow> Q"
  have "hm_get (filter P db) (keybytes g n) = (if Q then hm_get db (keybytes g n) else None)"
  proof (cases "hm_get (filter P db) (keybytes g n)")
    case None
    then have "\<not> (hm_get db (keybytes g n) = Some v \<and> Q)" for v
      using get[of "keybytes g n" v] Q[of v] by simp
    then show ?thesis using None by (cases "hm_get db (keybytes g n)") auto
  next
    case (Some v)
    then show ?thesis using get[of "keybytes g n" v] Q[of v] by simp
  qed
  then show "db_contents (filter P db) g n = (if Q then db_contents db g n else None)"
    by (simp add: db_contents_def)
qed

lemma cstr_keybytes: "key_text g n \<Longrightarrow> cstr (keybytes g n) = Inr g"
  by (simp add: keybytes_def key_text_def cstr_simps)

lemma unset_group_loop_ok:
  assumes "cstrp (str_value grp) = Inr g" "\<forall>k \<in> fst ` set db. \<exists>g n. key_text g n \<and> k = keybytes g n"
  shows "unset_group_loop grp db ret =
     Inr (if \<exists>k \<in> fst ` set db. cstr k = Inr g then 0 else ret, filter (\<lambda>e. cstr (fst e) \<noteq> Inr g) db)"
  using assms(2)
proof (induction db arbitrary: ret)
  case (Cons e db)
  obtain k v where e: "e = (k, v)" by (cases e)
  obtain g' n' where "key_text g' n'" "k = keybytes g' n'" using Cons.prems by (auto simp: e)
  then have "cstr k = Inr g'" by (simp add: cstr_keybytes)
  then show ?case using Cons assms(1) by (auto simp: e)
qed simp

lemma db_keys: "db_ok db \<Longrightarrow> \<forall>k \<in> fst ` set db. \<exists>g n. key_text g n \<and> k = keybytes g n"
  by (force simp: db_ok_def hm_get_in_set)

lemma mem_unset_name_ok:
  assumes r: "mem_ok r" "layer_ok nm l" and k: "key_ok key g (Some m)"
  shows "\<exists>r'. mem_unset_value l key r =
       Inr (if mem_contents r (mem_place l) g (Some m) = None then ENOENT else 0, r') \<and> mem_ok r' \<and>
     mem_contents r' = kv_upd (mem_contents r) (mem_place l) g (Some m) None"
proof -
  obtain db r' where r': "db_for_resource l r = Inr (mem_place l, db, r')"
    "hm_get r' (mem_place l) = Some db" "db_ok db" "mem_ok r'" "mem_contents r' = mem_contents r"
    using db_for_resource_ok[OF r] .
  have kt: "key_text g (Some m)" by (rule key_ok_text[OF k])
  have at: "mem_contents r (mem_place l) g' n' = db_contents db g' n'" for g' n'
    using r'(2) by (simp flip: r'(5)) (simp add: mem_contents_def)
  have nm: "str_value (key_name key) \<noteq> None"
    using k str_holds_value[of "key_name key" m] by (simp add: key_ok_def)
  let ?k = "keybytes g (Some m)"
  define db' where "db' = filter (\<lambda>e. fst e \<noteq> ?k) db"
  have db': "db_ok db'" "db_contents db' g' n' =
      (if g' = g \<and> n' = Some m then None else db_contents db g' n')" for g' n'
  proof -
    show "db_ok db'" using db_remove(1)[OF r'(3)] by (simp add: db'_def)
    show "db_contents db' g' n' = (if g' = g \<and> n' = Some m then None else db_contents db g' n')"
    proof (cases "key_text g' n'")
      case True
      then show ?thesis
        unfolding db'_def
        by (subst db_remove(2)[OF r'(3), where Q = "\<not> (g' = g \<and> n' = Some m)"])
          (auto simp: keybytes_inject[OF True kt])
    next
      case False
      then show ?thesis by (simp add: db_contents_def)
    qed
  qed
  have st: "mem_contents (hm_set r' (mem_place l) db') = kv_upd (mem_contents r) (mem_place l) g (Some m) None"
    using at db'(2) unfolding mem_store(2)[OF r'(4,2) db'(1)] by (auto simp: fun_eq_iff r'(5))
  show ?thesis
  proof (cases "hm_get db ?k")
    case None
    then have "mem_contents r (mem_place l) g (Some m) = None" by (simp add: at db_contents_def)
    moreover from this have "mem_contents r' = kv_upd (mem_contents r) (mem_place l) g (Some m) None"
      using r'(5) by (auto simp: fun_eq_iff)
    ultimately show ?thesis using None r'(1,4) make_keyrec_ok[OF k] nm
      by (auto simp: mem_unset_value_def unset_key_def hm_remove_def assertE_def)
  next
    case (Some v)
    then have "mem_contents r (mem_place l) g (Some m) \<noteq> None" using kt by (simp add: at db_contents_def)
    then show ?thesis using Some r'(1) make_keyrec_ok[OF k] nm st mem_store(1)[OF r'(4,2) db'(1)]
      by (auto simp: mem_unset_value_def unset_key_def hm_remove_def assertE_def db'_def)
  qed
qed

lemma mem_unset_group_ok:
  assumes r: "mem_ok r" "layer_ok nm l" and k: "key_ok key g None"
  shows "\<exists>r'. mem_unset_value l key r =
       Inr (if \<forall>n. mem_contents r (mem_place l) g n = None then ENOENT else 0, r') \<and> mem_ok r' \<and>
     mem_contents r' = (\<lambda>p g' n. if p = mem_place l \<and> g' = g then None else mem_contents r p g' n)"
proof -
  obtain db r' where r': "db_for_resource l r = Inr (mem_place l, db, r')"
    "hm_get r' (mem_place l) = Some db" "db_ok db" "mem_ok r'" "mem_contents r' = mem_contents r"
    using db_for_resource_ok[OF r] .
  have at: "mem_contents r (mem_place l) g' n' = db_contents db g' n'" for g' n'
    using r'(2) by (simp flip: r'(5)) (simp add: mem_contents_def)
  have g: "cstrp (str_value (key_group key)) = Inr g" "NUL \<notin> set g"
    using k by (auto simp: key_ok_def str_holds_cstr str_holds_def)
  have nm: "str_value (key_name key) = None" using k by (simp add: key_ok_def)
  define db' where "db' = filter (\<lambda>e. cstr (fst e) \<noteq> Inr g) db"
  have loop: "unset_group_loop (key_group key) db ENOENT =
      Inr (if \<exists>k \<in> fst ` set db. cstr k = Inr g then 0 else ENOENT, db')"
    unfolding db'_def by (rule unset_group_loop_ok[OF g(1) db_keys[OF r'(3)]])
  have db': "db_ok db'" "db_contents db' g' n' = (if g' = g then None else db_contents db g' n')" for g' n'
  proof -
    show "db_ok db'" using db_remove(1)[OF r'(3)] by (simp add: db'_def)
    show "db_contents db' g' n' = (if g' = g then None else db_contents db g' n')"
    proof (cases "key_text g' n'")
      case True
      then show ?thesis
        unfolding db'_def
        by (subst db_remove(2)[OF r'(3), where Q = "g' \<noteq> g"]) (auto simp: cstr_keybytes)
    next
      case False
      then show ?thesis by (simp add: db_contents_def)
    qed
  qed
  have st: "mem_contents (hm_set r' (mem_place l) db') =
      (\<lambda>p g' n. if p = mem_place l \<and> g' = g then None else mem_contents r p g' n)"
    using at db'(2) unfolding mem_store(2)[OF r'(4,2) db'(1)] by (auto simp: fun_eq_iff r'(5))
  have "(\<exists>k \<in> fst ` set db. cstr k = Inr g) \<longleftrightarrow> (\<exists>n. mem_contents r (mem_place l) g n \<noteq> None)"
  proof
    assume "\<exists>k \<in> fst ` set db. cstr k = Inr g"
    then obtain k v where kv: "(k, v) \<in> set db" "cstr k = Inr g" by auto
    then obtain g' n where gn: "key_text g' n" "k = keybytes g' n" using db_keys[OF r'(3)] by force
    then have "g' = g" using kv(2) by (simp add: cstr_keybytes)
    moreover have "hm_get db k = Some v" using kv(1) r'(3) by (simp add: hm_get_in_set db_ok_def)
    ultimately show "\<exists>n. mem_contents r (mem_place l) g n \<noteq> None"
      using gn by (auto simp: at db_contents_def intro!: exI[of _ n])
  next
    assume "\<exists>n. mem_contents r (mem_place l) g n \<noteq> None"
    then obtain n v where "key_text g n" "hm_get db (keybytes g n) = Some v"
      by (auto simp: at db_contents_def split: if_splits)
    then show "\<exists>k \<in> fst ` set db. cstr k = Inr g"
      using r'(3) cstr_keybytes by (auto simp: hm_get_in_set db_ok_def intro!: bexI[of _ "(keybytes g n, v)"])
  qed
  then show ?thesis
    using r'(1) nm loop st mem_store(1)[OF r'(4,2) db'(1)]
    by (auto simp: mem_unset_value_def unset_group_def)
qed

lemma mem_set_absent:
  assumes r: "mem_ok r" "layer_ok nm l" and k: "key_ok key g n" "mem_contents r (mem_place l) g n = None"
  shows "\<exists>r'. mem_set_value l key None label r = Inr (ENOENT, r') \<and> mem_ok r' \<and>
     mem_contents r' = mem_contents r"
proof -
  obtain db r' where r': "db_for_resource l r = Inr (mem_place l, db, r')"
    "hm_get r' (mem_place l) = Some db" "db_ok db" "mem_ok r'" "mem_contents r' = mem_contents r"
    using db_for_resource_ok[OF r] .
  have "hm_get db (keybytes g n) = None"
    using key_ok_text[OF k(1)] r'(2) k(2)
    by (simp flip: r'(5)) (simp add: mem_contents_def db_contents_def)
  then show ?thesis
    using r' make_keyrec_ok[OF k(1)] by (auto simp: mem_set_value_def)
qed

interpretation mem: kv_backend "memory_backend slack" mem_ok named_layer mem_place mem_contents for slack
proof (unfold_locales, goal_cases)
  case (1 s l key g n d b)
  then obtain nm where nm: "layer_ok nm l" by (auto simp: named_layer_def)
  show ?case
    by (rule mem_get_ok[OF 1(1) nm 1(3), of slack]) (use 1(4,5) in \<open>auto simp: memory_backend_def\<close>)
next
  case (2 s l key g n d b)
  then obtain nm where nm: "layer_ok nm l" by (auto simp: named_layer_def)
  show ?case
    by (rule mem_get_ok[OF 2(1) nm 2(3), of slack]) (use 2(4-6) in \<open>auto simp: memory_backend_def\<close>)
next
  case (3 s l key g n)
  then obtain nm where nm: "layer_ok nm l" by (auto simp: named_layer_def)
  show ?case
    by (rule mem_get_ok[OF 3(1) nm 3(3), of slack]) (use 3(4) in \<open>auto simp: memory_backend_def\<close>)
next
  case (4 s l key g n d label)
  then obtain nm where nm: "layer_ok nm l" by (auto simp: named_layer_def)
  show ?case
    using mem_set_ok[OF 4(1) nm 4(3), where data = "Some d" and label = label and
        f = "\<lambda>_. (as_stored d, str_bytes label)"] set_valrec_data[OF 4(4-6)]
    by (auto simp: memory_backend_def)
next
  case (5 s l key g n label)
  then obtain nm where nm: "layer_ok nm l" by (auto simp: named_layer_def)
  show ?case
  proof (cases "mem_contents s (mem_place l) g n")
    case None
    moreover have "kv_upd (mem_contents s) (mem_place l) g n None = mem_contents s"
      using None by (auto simp: fun_eq_iff)
    ultimately show ?thesis using mem_set_absent[OF 5(1) nm 5(3) None, of label]
      by (auto simp: memory_backend_def)
  next
    case (Some x)
    have "\<exists>r'. mem_set_value l key None label s = Inr (0, r') \<and> mem_ok r' \<and>
       mem_contents r' = kv_upd (mem_contents s) (mem_place l) g n
         (Some ((\<lambda>(d, _). (d, str_bytes label))
           (case mem_contents s (mem_place l) g n of None \<Rightarrow> val_of zero_valrec | Some x \<Rightarrow> x)))"
      using set_valrec_label[OF _ 5(4,5)] Some
      by (intro mem_set_ok[OF 5(1) nm 5(3)]) (auto simp: val_of_def)
    then show ?thesis using Some by (auto simp: memory_backend_def)
  qed
next
  case (6 s l key g m)
  then obtain nm where nm: "layer_ok nm l" by (auto simp: named_layer_def)
  show ?case using mem_unset_name_ok[OF 6(1) nm 6(3)] by (simp add: memory_backend_def)
next
  case (7 s l key g)
  then obtain nm where nm: "layer_ok nm l" by (auto simp: named_layer_def)
  obtain r' where r': "mem_unset_value l key s =
       Inr (if \<forall>n. mem_contents s (mem_place l) g n = None then ENOENT else 0, r')" "mem_ok r'"
     "mem_contents r' = (\<lambda>p g' n. if p = mem_place l \<and> g' = g then None else mem_contents s p g' n)"
    using mem_unset_group_ok[OF 7(1) nm 7(3)] by blast
  have "\<not> (\<forall>n. mem_contents s (mem_place l) g n = None)"
    using 7(4) by (rule contrapos_nn) simp
  then have "be_unset_value (memory_backend slack) l key s = Inr (0, r')"
    using r'(1) by (simp add: memory_backend_def)
  then show ?case using r'(2,3) by auto
qed

section \<open>What the backend promises\<close>

lemma strncmp_prefix:
  "NUL \<notin> set m \<Longrightarrow> NUL \<notin> set p \<Longrightarrow> strncmp_eq (length p) (zstr m @ x) (zstr p @ y) = Inr (\<exists>q. m = p @ q)"
proof (induction p arbitrary: m)
  case (Cons a p)
  then show ?case by (cases m) (auto simp: zstr_def)
qed simp

definition name_data :: "bytes \<Rightarrow> BuxtonData" where
  "name_data m = DString \<lparr>str_value = Some (zstr m), str_length = word_of_nat (length m + 1)\<rparr>"

definition starts_with :: "bytes \<Rightarrow> bytes \<Rightarrow> bool" where
  "starts_with p m \<longleftrightarrow> take (length p) m = p"

lemma starts_with_iff: "starts_with p m \<longleftrightarrow> (\<exists>q. m = p @ q)"
  by (metis append_take_drop_id append_eq_conv_conj starts_with_def)

text \<open>The prefix argument: absent (or of length 0), or a string.\<close>

definition prefix_arg :: "BuxtonString option \<Rightarrow> bytes \<Rightarrow> bool" where
  "prefix_arg prefix p \<longleftrightarrow> prefix = None \<and> p = [] \<or> (\<exists>s. prefix = Some s \<and> str_holds s p)"

lemma prefix_match_ok:
  assumes "prefix_arg prefix p" "NUL \<notin> set m"
  shows "prefix_match (drop_empty prefix) (zstr m) = Inr (starts_with p m)"
proof (cases prefix)
  case None
  then show ?thesis using assms by (auto simp: prefix_match_def drop_empty_def prefix_arg_def starts_with_def)
next
  case (Some s)
  then have s: "str_holds s p" using assms(1) by (simp add: prefix_arg_def)
  then obtain y where y: "str_value s = Some (zstr p @ y)" "NUL \<notin> set p"
    by (auto simp: str_holds_def)
  have n: "unat (str_length s) = length p + 1" by (rule str_holds_length[OF s])
  then have "str_length s \<noteq> 0" by auto
  then show ?thesis
    using Some y n strncmp_prefix[OF assms(2) y(2), of "[]" y]
    by (simp add: prefix_match_def drop_empty_def starts_with_iff)
qed

lemma candidate_name:
  assumes "str_holds gs g" "key_text g' n" "length g' + 1 < 2 ^ 32"
  shows "list_candidate (drop_empty (Some gs)) (keybytes g' n) =
     Inr (case n of None \<Rightarrow> None | Some m \<Rightarrow> if g' = g then Some (zstr m) else None)"
proof -
  have l: "unat (str_length gs) = length g + 1" by (rule str_holds_length[OF assms(1)])
  then have "str_length gs \<noteq> 0" by auto
  then show ?thesis
    using assms l str_holds_cstr[OF assms(1)] cstr_keybytes[OF assms(2)]
    by (auto simp: list_candidate_def drop_empty_def keybytes_def key_text_def Let_def cstr_simps
        split: option.splits)
qed

lemma candidate_group:
  assumes "key_text g' n"
  shows "list_candidate None (keybytes g' n) =
     Inr (case n of None \<Rightarrow> Some (zstr g') | Some m \<Rightarrow> None)"
  using assms cstr_keybytes[OF assms(1)]
  by (auto simp: list_candidate_def keybytes_def key_text_def Let_def cstr_simps split: option.splits)

text \<open>A list of names in an array with room for \<open>n\<close> of them.\<close>

definition fits :: "nat \<Rightarrow> 'a list \<Rightarrow> 'a list option" where
  "fits n xs = (if length xs \<le> n then Some xs else None)"

lemma fits_simps [simp]:
  "fits n [] = Some []" "fits 0 (x # xs) = None"
  "0 < n \<Longrightarrow> map_option ((#) x) (fits (n - Suc 0) xs) = fits n (x # xs)"
  by (auto simp: fits_def)

lemma list_names_of_group:
  assumes "str_holds gs g" "prefix_arg prefix p"
    "\<forall>(g', n) \<in> set parts. key_text g' n \<and> length g' + 1 < 2 ^ 32"
  shows "list_names_loop (drop_empty (Some gs)) (drop_empty prefix) room (map (\<lambda>(g', n). keybytes g' n) parts) =
     Inr (fits room [name_data m. (g', Some m) \<leftarrow> parts, g' = g \<and> starts_with p m])"
  using assms(3)
proof (induction parts arbitrary: room)
  case (Cons e parts)
  obtain g' n where e: "e = (g', n)" by (cases e)
  have k: "key_text g' n" "length g' + 1 < 2 ^ 32" using Cons.prems by (auto simp: e)
  show ?case
    using Cons candidate_name[OF assms(1) k] prefix_match_ok[OF assms(2)] k(1)
    by (cases n) (auto simp: e key_text_def name_data_def list_pick_def)
qed simp

lemma list_names_of_groups:
  assumes "prefix_arg prefix p" "\<forall>(g', n) \<in> set parts. key_text g' n"
  shows "list_names_loop (drop_empty None) (drop_empty prefix) room (map (\<lambda>(g', n). keybytes g' n) parts) =
     Inr (fits room [name_data g'. (g', None) \<leftarrow> parts, starts_with p g'])"
  using assms(2)
proof (induction parts arbitrary: room)
  case (Cons e parts)
  obtain g' n where e: "e = (g', n)" by (cases e)
  have k: "key_text g' n" using Cons.prems by (auto simp: e)
  show ?case
    using Cons candidate_group[OF k] prefix_match_ok[OF assms(1)] k
    by (cases n) (auto simp: e key_text_def name_data_def drop_empty_def list_pick_def)
qed (simp add: drop_empty_def)

text \<open>A layer, a key and a store to try the properties on.\<close>

definition user_layer :: "bytes \<Rightarrow> 32 word \<Rightarrow> BuxtonLayer" where
  "user_layer nm uid =
     \<lparr>layer_name = \<lparr>str_value = Some (zstr nm), str_length = word_of_nat (length nm)\<rparr>,
      layer_type = LAYER_USER, layer_backend = BACKEND_MEMORY, layer_uid = uid,
      layer_priority = 0, layer_description = None, layer_readonly = False\<rparr>"

definition plain_key :: "bytes \<Rightarrow> bytes option \<Rightarrow> BuxtonDataType \<Rightarrow> BuxtonKey" where
  "plain_key g n t =
     \<lparr>key_group = buxton_string_pack g,
      key_name = (case n of None \<Rightarrow> null_string | Some m \<Rightarrow> buxton_string_pack m),
      key_layer = null_string, key_type = t\<rparr>"

lemma user_layer_ok: "NUL \<notin> set nm \<Longrightarrow> layer_ok nm (user_layer nm uid)"
  by (simp add: layer_ok_def user_layer_def)

lemma plain_key_ok:
  "key_text g n \<Longrightarrow> length g + 2 + (case n of None \<Rightarrow> 0 | Some m \<Rightarrow> length m) < 2 ^ 31 \<Longrightarrow>
   key_ok (plain_key g n t) g n"
  by (auto simp: key_ok_def plain_key_def key_text_def null_string_def
      intro!: str_holds_pack split: option.splits)

lemma mem_ok_init: "mem_ok memory_init"
  by (simp add: mem_ok_def memory_init_def)

text \<open>What \<open>set_value\<close> of the memory backend stores, \<open>get_value\<close> of the same key returns, value and
  label, under a request for its type or for any type; every other key, group and database keeps
  its contents.\<close>

theorem memory_get_after_set:
  assumes "mem_ok r" "layer_ok nm l" "key_ok key g n" "data_ok d" "str_ok label"
    "str_value label \<noteq> None" "key_ok key' g n" "key_type key' \<in> {data_type d, BUXTON_TYPE_UNSET}"
  shows "\<exists>r' lab r''. mem_set_value l key (Some d) label r = Inr (0, r') \<and> mem_ok r' \<and>
     mem_get_value slack l key' r' = Inr (0, Some (as_stored d, lab), r'') \<and>
     str_bytes lab = str_bytes label \<and>
     (\<forall>p g' n'. (p, g', n') \<noteq> (mem_place l, g, n) \<longrightarrow> mem_contents r' p g' n' = mem_contents r p g' n')"
proof -
  obtain r' where r': "mem_set_value l key (Some d) label r = Inr (0, r')" "mem_ok r'"
    "mem_contents r' = kv_upd (mem_contents r) (mem_place l) g n (Some (as_stored d, str_bytes label))"
    using mem.set_data[OF assms(1) named_layerI[OF assms(2)] assms(3-6)] by (auto simp: memory_backend_def)
  show ?thesis
    using mem.store.get_after_set[OF assms(1) named_layerI[OF assms(2)] assms(3-6) TrueI _ assms(7,8), of slack 0 r'] r'
    by (auto simp: memory_backend_def)
qed

theorem memory_get_after_set_witness:
  "\<exists>r' lab r''. mem_set_value (user_layer ''user'' 1000) (plain_key ''g'' (Some ''k'') BUXTON_TYPE_INT32)
        (Some (DInt32 7)) (buxton_string_pack ''_'') memory_init = Inr (0, r') \<and>
     mem_get_value (\<lambda>_. []) (user_layer ''user'' 1000) (plain_key ''g'' (Some ''k'') BUXTON_TYPE_UNSET) r' =
       Inr (0, Some (DInt32 7, lab), r'') \<and> str_bytes lab = zstr ''_''"
proof -
  have k: "key_ok (plain_key ''g'' (Some ''k'') t) ''g'' (Some ''k'')" for t
    by (rule plain_key_ok) (simp_all add: key_text_def)
  have h: "str_holds (buxton_string_pack ''_'') ''_''" by (rule str_holds_pack) simp_all
  have l: "layer_ok ''user'' (user_layer ''user'' 1000)" by (rule user_layer_ok) simp
  have t: "key_type (plain_key ''g'' (Some ''k'') BUXTON_TYPE_UNSET) \<in> {data_type (DInt32 7), BUXTON_TYPE_UNSET}"
    by (simp add: plain_key_def)
  from memory_get_after_set[OF mem_ok_init l k _ str_holds_ok[OF h] str_holds_value[OF h] k t,
      of BUXTON_TYPE_INT32 "\<lambda>_. []"] str_holds_bytes[OF h]
  show ?thesis by auto
qed

text \<open>Removing a group removes the group and all of its keys, and nothing else in any database; it
  reports ENOENT exactly when there was nothing to remove.\<close>

theorem memory_group_removal:
  assumes "mem_ok r" "layer_ok nm l" "key_ok key g None"
  shows "\<exists>r'. mem_unset_value l key r =
       Inr (if \<forall>n. mem_contents r (mem_place l) g n = None then ENOENT else 0, r') \<and> mem_ok r' \<and>
     mem_contents r' = (\<lambda>p g' n. if p = mem_place l \<and> g' = g then None else mem_contents r p g' n)"
  by (rule mem_unset_group_ok[OF assms])

theorem memory_group_removal_witness:
  "\<exists>r'. mem_unset_value (user_layer ''user'' 1000) (plain_key ''g'' None BUXTON_TYPE_STRING)
     memory_init = Inr (ENOENT, r') \<and> mem_ok r'"
proof -
  have "key_ok (plain_key ''g'' None BUXTON_TYPE_STRING) ''g'' None"
    by (rule plain_key_ok) (simp_all add: key_text_def)
  from memory_group_removal[OF mem_ok_init user_layer_ok[of "''user''" 1000] this] show ?thesis
    by (auto simp: mem_contents_def memory_init_def)
qed

text \<open>Two users of a user layer have separate databases, whatever their ids (also ids that print as
  negative numbers): a write by one user changes nothing that the other user can read.\<close>

theorem user_databases_separate:
  assumes "mem_ok r" "layer_ok nm l1" "layer_ok nm l2" "layer_type l1 = LAYER_USER"
    "layer_type l2 = LAYER_USER" "layer_uid l1 \<noteq> layer_uid l2" "key_ok key g n" "data_ok d"
    "str_ok label" "str_value label \<noteq> None"
  shows "mem_place l1 \<noteq> mem_place l2 \<and>
     (\<exists>r'. mem_set_value l1 key (Some d) label r = Inr (0, r') \<and>
       (\<forall>g' n'. mem_contents r' (mem_place l2) g' n' = mem_contents r (mem_place l2) g' n'))"
proof -
  have "sint (layer_uid l1) \<noteq> sint (layer_uid l2)" using assms(6) using signed_word_eqI by blast
  then have ne: "mem_place l1 \<noteq> mem_place l2"
    using assms(2-5) by (simp add: mem_place_def db_name_def layer_ok_cstr dec_int_inject)
  then show ?thesis
    using mem.set_data[OF assms(1) named_layerI[OF assms(2)] assms(7-10)] by (auto simp: memory_backend_def)
qed

theorem user_databases_separate_witness:
  "mem_place (user_layer ''user'' 1000) \<noteq> mem_place (user_layer ''user'' 4294966296) \<and>
   (\<exists>r'. mem_set_value (user_layer ''user'' 1000) (plain_key ''g'' None BUXTON_TYPE_STRING)
      (Some (DInt32 7)) (buxton_string_pack ''_'') memory_init = Inr (0, r'))"
proof -
  have k: "key_ok (plain_key ''g'' None BUXTON_TYPE_STRING) ''g'' None"
    by (rule plain_key_ok) (simp_all add: key_text_def)
  have h: "str_holds (buxton_string_pack ''_'') ''_''" by (rule str_holds_pack) simp_all
  have l: "layer_ok ''user'' (user_layer ''user'' u)" for u by (rule user_layer_ok) simp
  from user_databases_separate[OF mem_ok_init l l _ _ _ k _ str_holds_ok[OF h] str_holds_value[OF h],
      of 1000 4294966296 "DInt32 7"]
  show ?thesis by (auto simp: user_layer_def)
qed

text \<open>\<open>list_names\<close> never fails an assertion on a database of well formed keys. Asked for a group it
  returns the names of that group's keys that start with the prefix, in the order they were first
  written; asked without a group it returns the group names that start with the prefix. It fails only
  when they are more than 65535.\<close>

theorem memory_list_names:
  assumes "mem_ok r" "layer_ok nm l" "hm_get r (mem_place l) = Some db"
    "map fst db = map (\<lambda>(g', n). keybytes g' n) parts"
    "\<forall>(g', n) \<in> set parts. key_text g' n \<and> length g' + 1 < 2 ^ 32"
    "str_holds gs g" "prefix_arg prefix p"
  shows "mem_list_names l (Some gs) prefix r =
       Inr (fits 65535 [name_data m. (g', Some m) \<leftarrow> parts, g' = g \<and> starts_with p m], r) \<and>
     mem_list_names l None prefix r = Inr (fits 65535 [name_data g'. (g', None) \<leftarrow> parts, starts_with p g'], r)"
proof -
  have "db_for_resource l r = Inr (mem_place l, db, r)"
    using assms(3) by (simp add: db_for_resource_def db_name_ok[OF assms(2)])
  moreover have texts: "\<forall>(g', n) \<in> set parts. key_text g' n" using assms(5) by auto
  ultimately show ?thesis
    using list_names_of_group[OF assms(6,7,5)] list_names_of_groups[OF assms(7) texts] assms(4)
    by (simp add: mem_list_names_def)
qed

definition sample_store :: Resources where
  "sample_store =
     [(''user-1000'', map (\<lambda>(g, n). (keybytes g n, \<lparr>val_data = DInt32 1, val_label = buxton_string_pack ''_''\<rparr>))
        [(''g'', None), (''g'', Some ''ab''), (''g'', Some ''b''), (''h'', None), (''h'', Some ''ac'')])]"

theorem memory_list_names_witness:
  "mem_list_names (user_layer ''user'' 1000) (Some (buxton_string_pack ''g''))
     (Some (buxton_string_pack ''a'')) sample_store = Inr (Some [name_data ''ab''], sample_store)"
proof -
  let ?v = "\<lparr>val_data = DInt32 1, val_label = buxton_string_pack ''_''\<rparr>"
  let ?parts = "[(''g'', None), (''g'', Some ''ab''), (''g'', Some ''b''), (''h'', None), (''h'', Some ''ac'')]"
  let ?db = "map (\<lambda>(g, n). (keybytes g n, ?v)) ?parts"
  have h: "str_holds (buxton_string_pack s) s" if "s \<in> {''_'', ''g'', ''a''}" for s
    using that by (auto intro!: str_holds_pack)
  have t: "\<forall>(g', n) \<in> set ?parts. key_text g' n \<and> length g' + 1 < 2 ^ 32"
    by (simp add: key_text_def)
  have "distinct ?parts" by simp
  have "hm_ok ?db"
    using t by (simp add: hm_ok_def keybytes_inject)
  moreover have "val_ok ?v" using str_holds_ok[OF h[of "''_''"]] by (simp add: val_ok_def)
  ultimately have "db_ok ?db" using t unfolding db_ok_def
    by (auto simp: hm_get_in_set)
  then have ok: "mem_ok sample_store"
    by (auto simp: mem_ok_def sample_store_def hm_ok_def hm_get_single split: if_splits)
  have pl: "mem_place (user_layer ''user'' 1000) = ''user-1000''"
    by (simp add: mem_place_def db_name_def user_layer_def eval_simps dec_int_def dec_nat.simps dec_digit_def
        char_of_def bit_iff_odd)
  have "mem_list_names (user_layer ''user'' 1000) (Some (buxton_string_pack ''g''))
      (Some (buxton_string_pack ''a'')) sample_store =
    Inr (fits 65535 [name_data m. (g', Some m) \<leftarrow> ?parts, g' = ''g'' \<and> starts_with ''a'' m], sample_store)"
    by (rule conjunct1[OF memory_list_names[OF ok user_layer_ok _ _ t, where db = ?db]])
      (simp_all add: pl sample_store_def hm_get_single h prefix_arg_def)
  then show ?thesis by (simp add: starts_with_def fits_def)
qed

end
