(* ===== verification/Direct.thy ===== *)
theory Direct
  imports Smack Memory
begin

text \<open>
  The operations on keys and groups, \<open>src/shared/direct.c\<close>: which layer a request reaches, who may
  read and write, and what reaches the backend. The daemon calls exactly these functions for its
  clients. A \<open>client_label\<close> that is \<open>None\<close> is the NULL label of a direct client, for which no access
  checks are made.
\<close>

section \<open>State\<close>

text \<open>
  What surrounds the code: the allocator, the backend modules on disk, and the value of the
  environment variable \<open>BUXTON_ROOT_CHECK\<close>.
\<close>

record 's env =
  env_slack :: allocator
  env_module_ok :: "BuxtonBackendType \<Rightarrow> bool"
  env_table :: "BuxtonBackendType \<Rightarrow> 's BuxtonBackend"
  env_root_check :: "bytes option"

text \<open>\<open>modules\<close> is the state of the loaded backend modules, \<open>rules\<close> that of \<open>smack.c\<close>.\<close>

record 's BuxtonControl =
  client_uid :: "32 word"
  config :: BuxtonConfig
  modules :: 's
  rules :: SmackState

definition buxton_direct_open :: "ConfigLayer list \<Rightarrow> 's \<Rightarrow> SmackState \<Rightarrow> 's BuxtonControl res" where
  "buxton_direct_open confs w st =
     bindE (buxton_init_layers confs empty_config) (\<lambda>cfg.
       Inr \<lparr>client_uid = 0, config = cfg, modules = w, rules = st\<rparr>)"

text \<open>\<open>hashmap_get(config->layers, ...)\<close>, with the name the layer was found under.\<close>

definition find_layer :: "'s BuxtonControl \<Rightarrow> BuxtonString \<Rightarrow> (bytes \<times> BuxtonLayer) option res" where
  "find_layer ctl s =
     bindE (cstrp (str_value s)) (\<lambda>n.
       Inr (map_option (\<lambda>l. (n, l)) (hm_get (layers (config ctl)) n)))"

text \<open>
  \<open>backend = backend_for_layer(config, layer); assert(backend); layer->uid = control->client.uid;\<close>
  The layer is shared: its new uid is seen by every later lookup.
\<close>

definition with_backend :: "'s env \<Rightarrow> 's BuxtonControl \<Rightarrow> bytes \<times> BuxtonLayer \<Rightarrow>
    ('s BuxtonBackend \<times> BuxtonLayer \<times> 's BuxtonControl) res" where
  "with_backend env ctl = (\<lambda>(n, layer).
     bindE (backend_for_layer (env_module_ok env) (config ctl) layer) (\<lambda>(b, cfg).
     bindE (assertE (b \<noteq> None)) (\<lambda>_.
       let layer' = layer\<lparr>layer_uid := client_uid ctl\<rparr>
       in Inr (env_table env (the b), layer',
               ctl\<lparr>config := cfg\<lparr>layers := hm_set (layers cfg) n layer'\<rparr>\<rparr>))))"

section \<open>Reading\<close>

text \<open>The end of a read: the backend's answer, and the check of the client's label against the entry's.\<close>

definition read_backend :: "'s BuxtonBackend \<Rightarrow> BuxtonLayer \<Rightarrow> BuxtonKey \<Rightarrow> BuxtonString option \<Rightarrow>
    's BuxtonControl \<Rightarrow> (int \<times> (BuxtonData \<times> BuxtonString) option \<times> 's BuxtonControl) res" where
  "read_backend backend layer key client_label ctl =
     bindE (be_get_value backend layer key (modules ctl)) (\<lambda>(ret, out, w).
     let ctl1 = ctl\<lparr>modules := w\<rparr>
     in case (out, client_label) of
          (Some (data, data_label), Some c) \<Rightarrow>
            if ret \<noteq> 0 \<or> str_value data_label = None \<or> str_value c = None then Inr (ret, out, ctl1)
            else
              bindE (buxton_check_smack_access (rules ctl1) c data_label ACCESS_READ) (\<lambda>ok.
                if ok then Inr (ret, out, ctl1)
                else Inr (EPERM, Some (data, data_label\<lparr>str_value := None\<rparr>), ctl1))
        | _ \<Rightarrow> Inr (ret, out, ctl1))"

text \<open>
  The result is the return code, what was stored through \<open>data\<close> and \<open>data_label\<close> (if anything), and
  the new state. The group of a key is looked up by the function itself, without a label.
\<close>

lemma copy_key_group_name:
  "buxton_copy_key_group slack key = Inr grp \<Longrightarrow> str_value (key_name grp) = None"
  by (auto simp: buxton_copy_key_group_def res_simps null_string_def)

function buxton_direct_get_value_for_layer ::
  "'s env \<Rightarrow> BuxtonKey \<Rightarrow> BuxtonString option \<Rightarrow> 's BuxtonControl \<Rightarrow>
   (int \<times> (BuxtonData \<times> BuxtonString) option \<times> 's BuxtonControl) res" where
  "buxton_direct_get_value_for_layer env key client_label ctl =
     (if str_value (key_layer key) = None then Inr (EINVAL, None, ctl)
      else
       bindE (find_layer ctl (key_layer key)) (\<lambda>found. case found of
         None \<Rightarrow> Inr (EINVAL, None, ctl)
       | Some nl \<Rightarrow>
           bindE (with_backend env ctl nl) (\<lambda>(backend, layer, ctl1).
           bindE (if str_value (key_name key) \<noteq> None then
                    bindE (buxton_copy_key_group (env_slack env) key) (\<lambda>grp.
                    bindE (buxton_direct_get_value_for_layer env grp None ctl1) (\<lambda>(ret, out, ctl2).
                      Inr (ret, (case out of None \<Rightarrow> null_string | Some (_, l) \<Rightarrow> l), ctl2)))
                  else Inr (0, null_string, ctl1)) (\<lambda>(ret, group_label, ctl2).
           if ret \<noteq> 0 then Inr (ret, None, ctl2)
           else
            bindE (case client_label of
                Some c \<Rightarrow> if str_value (key_name key) \<noteq> None
                    then buxton_check_smack_access (rules ctl2) c group_label ACCESS_READ
                    else Inr True
              | None \<Rightarrow> Inr True) (\<lambda>ok.
            if \<not> ok then Inr (EPERM, None, ctl2)
            else
             read_backend backend layer key client_label ctl2)))))"
  by pat_completeness auto

termination
  by (relation "measure (\<lambda>(env, key, cl, ctl). if str_value (key_name key) = None then 0 else 1)")
    (auto dest: copy_key_group_name)

declare buxton_direct_get_value_for_layer.simps [simp del]

text \<open>
  The loop over all layers of a request that names none: which layer type was chosen so far
  (\<open>None\<close> for the initial -1), its priority and its name. The search runs over the layers as they
  are at its start: it changes nothing of a layer but its uid.
\<close>

type_synonym search = "BuxtonLayerType option \<times> int \<times> BuxtonString"

definition better_layer :: "search \<Rightarrow> BuxtonLayer \<Rightarrow> bool" where
  "better_layer = (\<lambda>(origin, priority, _) l.
     layer_type l = LAYER_SYSTEM \<and>
       (origin \<noteq> Some LAYER_SYSTEM \<or> priority \<le> layer_priority l) \<or>
     layer_type l = LAYER_USER \<and> origin \<noteq> Some LAYER_SYSTEM \<and> priority \<le> layer_priority l)"

fun search_layers :: "'s env \<Rightarrow> BuxtonKey \<Rightarrow> BuxtonString option \<Rightarrow> BuxtonLayer list \<Rightarrow> search \<Rightarrow>
    's BuxtonControl \<Rightarrow> (search \<times> 's BuxtonControl) res" where
  "search_layers env key client_label [] acc ctl = Inr (acc, ctl)"
| "search_layers env key client_label (l # ls) acc ctl =
     bindE (buxton_direct_get_value_for_layer env (key\<lparr>key_layer := layer_name l\<rparr>) client_label ctl)
       (\<lambda>(ret, _, ctl').
         search_layers env key client_label ls
           (if ret = 0 \<and> better_layer acc l
            then (Some (layer_type l), layer_priority l, layer_name l) else acc) ctl')"

definition buxton_direct_get_value :: "'s env \<Rightarrow> BuxtonKey \<Rightarrow> BuxtonString option \<Rightarrow> 's BuxtonControl \<Rightarrow>
    (int \<times> (BuxtonData \<times> BuxtonString) option \<times> 's BuxtonControl) res" where
  "buxton_direct_get_value env key client_label ctl =
     (if str_value (key_layer key) \<noteq> None
      then buxton_direct_get_value_for_layer env key client_label ctl
      else
        bindE (search_layers env key client_label (map snd (layers (config ctl)))
                 (None, 0, null_string) ctl) (\<lambda>((_, _, layer), ctl').
          if str_value layer \<noteq> None
          then buxton_direct_get_value_for_layer env (key\<lparr>key_layer := layer\<rparr>) client_label ctl'
          else Inr (ENOENT, None, ctl')))"

section \<open>Writing\<close>

text \<open>The end of every write: the backend is chosen and called, and its return code decides.\<close>

definition backend_set :: "'s env \<Rightarrow> 's BuxtonControl \<Rightarrow> bytes \<times> BuxtonLayer \<Rightarrow> BuxtonKey \<Rightarrow>
    BuxtonData option \<Rightarrow> BuxtonString \<Rightarrow> (bool \<times> 's BuxtonControl) res" where
  "backend_set env ctl nl key data label =
     bindE (with_backend env ctl nl) (\<lambda>(backend, layer, ctl1).
     bindE (be_set_value backend layer key data label (modules ctl1)) (\<lambda>(ret, w).
       Inr (ret = 0, ctl1\<lparr>modules := w\<rparr>)))"

definition backend_unset :: "'s env \<Rightarrow> 's BuxtonControl \<Rightarrow> bytes \<times> BuxtonLayer \<Rightarrow> BuxtonKey \<Rightarrow>
    (bool \<times> 's BuxtonControl) res" where
  "backend_unset env ctl nl key =
     bindE (with_backend env ctl nl) (\<lambda>(backend, layer, ctl1).
     bindE (be_unset_value backend layer key (modules ctl1)) (\<lambda>(ret, w).
       Inr (ret = 0, ctl1\<lparr>modules := w\<rparr>)))"

definition default_label :: BuxtonString where
  "default_label = buxton_string_pack ''_''"

text \<open>The label a read stored through its pointer; the zeroed label when it stored none.\<close>

definition out_label :: "(BuxtonData \<times> BuxtonString) option \<Rightarrow> BuxtonString" where
  "out_label out = (case out of None \<Rightarrow> null_string | Some (_, l) \<Rightarrow> l)"

definition buxton_direct_set_value :: "'s env \<Rightarrow> BuxtonKey \<Rightarrow> BuxtonData \<Rightarrow> BuxtonString option \<Rightarrow>
    's BuxtonControl \<Rightarrow> (bool \<times> 's BuxtonControl) res" where
  "buxton_direct_set_value env key data label ctl =
     bindE (buxton_copy_key_group (env_slack env) key) (\<lambda>grp.
     bindE (buxton_direct_get_value_for_layer env grp None ctl) (\<lambda>(ret, gout, ctl1).
     if ret \<noteq> 0 then Inr (False, ctl1)
     else
      bindE (case label of None \<Rightarrow> Inr True
             | Some c \<Rightarrow> buxton_check_smack_access (rules ctl1) c (out_label gout) ACCESS_WRITE) (\<lambda>ok.
      if \<not> ok then Inr (False, ctl1)
      else
       bindE (buxton_direct_get_value_for_layer env (key\<lparr>key_type := BUXTON_TYPE_UNSET\<rparr>) None ctl1)
         (\<lambda>(ret, out, ctl2).
       if ret = - ENOENT \<or> ret = EINVAL then Inr (False, ctl2)
       else
        bindE (if ret = 0 then
                 (case label of
                    None \<Rightarrow> Inr (Some (out_label out))
                  | Some c \<Rightarrow>
                      bindE (buxton_check_smack_access (rules ctl2) c (out_label out) ACCESS_WRITE)
                        (\<lambda>ok. Inr (if ok then Some (out_label out) else None)))
               else Inr (Some (case label of None \<Rightarrow> default_label | Some c \<Rightarrow> c))) (\<lambda>l. case l of
          None \<Rightarrow> Inr (False, ctl2)
        | Some l \<Rightarrow>
            bindE (find_layer ctl2 (key_layer key)) (\<lambda>found. case found of
              None \<Rightarrow> Inr (False, ctl2)
            | Some nl \<Rightarrow>
                if layer_readonly (snd nl) then Inr (False, ctl2)
                else
                  backend_set env ctl2 nl key (Some data) l))))))"

text \<open>
  \<open>root_refused\<close>: the check on the client's uid, off when \<open>BUXTON_ROOT_CHECK\<close> is \<open>0\<close>.
\<close>

definition root_refused :: "'s env \<Rightarrow> 's BuxtonControl \<Rightarrow> bool" where
  "root_refused env ctl \<longleftrightarrow> client_uid ctl \<noteq> 0 \<and> env_root_check env \<noteq> Some ''0''"

definition buxton_direct_set_label :: "'s env \<Rightarrow> BuxtonKey \<Rightarrow> BuxtonString \<Rightarrow>
    's BuxtonControl \<Rightarrow> (bool \<times> 's BuxtonControl) res" where
  "buxton_direct_set_label env key label ctl =
     bindE (find_layer ctl (key_layer key)) (\<lambda>found. case found of
       None \<Rightarrow> Inr (False, ctl)
     | Some nl \<Rightarrow>
         if layer_readonly (snd nl) then Inr (False, ctl)
         else if layer_type (snd nl) = LAYER_SYSTEM \<and> root_refused env ctl then Inr (False, ctl)
         else if layer_type (snd nl) \<noteq> LAYER_SYSTEM then Inr (False, ctl)
         else
           backend_set env ctl nl key None label)"

definition buxton_direct_create_group :: "'s env \<Rightarrow> BuxtonKey \<Rightarrow> BuxtonString option \<Rightarrow>
    's BuxtonControl \<Rightarrow> (bool \<times> 's BuxtonControl) res" where
  "buxton_direct_create_group env key label ctl =
     bindE (find_layer ctl (key_layer key)) (\<lambda>found. case found of
       None \<Rightarrow> Inr (False, ctl)
     | Some nl \<Rightarrow>
         if layer_readonly (snd nl) then Inr (False, ctl)
         else if layer_type (snd nl) = LAYER_SYSTEM \<and> root_refused env ctl then Inr (False, ctl)
         else
           bindE (buxton_direct_get_value_for_layer env key None ctl) (\<lambda>(ret, _, ctl1).
           if ret \<noteq> ENOENT then Inr (False, ctl1)
           else
             bindE (buxton_string_copy (env_slack env) (buxton_string_pack ''BUXTON_GROUP_VALUE'')) (\<lambda>s.
             bindE (buxton_string_copy (env_slack env)
                     (case label of Some l \<Rightarrow> l | None \<Rightarrow> buxton_string_pack ''_'')) (\<lambda>dlabel.
               backend_set env ctl1 nl key (Some (DString s)) dlabel))))"

definition buxton_direct_remove_group :: "'s env \<Rightarrow> BuxtonKey \<Rightarrow> BuxtonString option \<Rightarrow>
    's BuxtonControl \<Rightarrow> (bool \<times> 's BuxtonControl) res" where
  "buxton_direct_remove_group env key client_label ctl =
     bindE (find_layer ctl (key_layer key)) (\<lambda>found. case found of
       None \<Rightarrow> Inr (False, ctl)
     | Some nl \<Rightarrow>
         if layer_readonly (snd nl) then Inr (False, ctl)
         else if layer_type (snd nl) = LAYER_SYSTEM \<and> root_refused env ctl then Inr (False, ctl)
         else
           bindE (buxton_direct_get_value_for_layer env key None ctl) (\<lambda>(ret, out, ctl1).
           if ret \<noteq> 0 then Inr (False, ctl1)
           else
             bindE (if layer_type (snd nl) = LAYER_USER then
                      (case client_label of None \<Rightarrow> Inr True
                       | Some c \<Rightarrow> buxton_check_smack_access (rules ctl1) c (out_label out) ACCESS_WRITE)
                    else Inr True) (\<lambda>ok.
             if \<not> ok then Inr (False, ctl1)
             else
               backend_unset env ctl1 nl key)))"

definition buxton_direct_unset_value :: "'s env \<Rightarrow> BuxtonKey \<Rightarrow> BuxtonString option \<Rightarrow>
    's BuxtonControl \<Rightarrow> (bool \<times> 's BuxtonControl) res" where
  "buxton_direct_unset_value env key label ctl =
     bindE (buxton_copy_key_group (env_slack env) key) (\<lambda>grp.
     bindE (buxton_direct_get_value_for_layer env grp None ctl) (\<lambda>(ret, gout, ctl1).
     if ret \<noteq> 0 then Inr (False, ctl1)
     else
      bindE (case label of None \<Rightarrow> Inr (True, ctl1)
        | Some c \<Rightarrow>
            bindE (buxton_check_smack_access (rules ctl1) c (out_label gout) ACCESS_WRITE) (\<lambda>ok.
            if \<not> ok then Inr (False, ctl1)
            else
              bindE (buxton_direct_get_value_for_layer env key None ctl1) (\<lambda>(ret, out, ctl2).
              if ret \<noteq> 0 then Inr (False, ctl2)
              else
                bindE (buxton_check_smack_access (rules ctl2) c (out_label out) ACCESS_WRITE)
                  (\<lambda>ok. Inr (ok, ctl2))))) (\<lambda>(ok, ctl2).
      if \<not> ok then Inr (False, ctl2)
      else
       bindE (find_layer ctl2 (key_layer key)) (\<lambda>found. case found of
         None \<Rightarrow> Inr (False, ctl2)
       | Some nl \<Rightarrow>
           if layer_readonly (snd nl) then Inr (False, ctl2)
           else
             backend_unset env ctl2 nl key))))"

section \<open>Listing\<close>

text \<open>Calling a function the module does not have is a call through a NULL pointer.\<close>

definition buxton_direct_list_keys :: "'s env \<Rightarrow> BuxtonString \<Rightarrow> 's BuxtonControl \<Rightarrow>
    (BuxtonData list option \<times> 's BuxtonControl) res" where
  "buxton_direct_list_keys env layer_nm ctl =
     bindE (find_layer ctl layer_nm) (\<lambda>found. case found of
       None \<Rightarrow> Inr (None, ctl)
     | Some nl \<Rightarrow>
         bindE (with_backend env ctl nl) (\<lambda>(backend, layer, ctl1). case be_list_keys backend of
           None \<Rightarrow> Inl NullDeref
         | Some f \<Rightarrow> bindE (f layer (modules ctl1)) (\<lambda>(l, w). Inr (l, ctl1\<lparr>modules := w\<rparr>))))"

definition buxton_direct_list_names :: "'s env \<Rightarrow> BuxtonString \<Rightarrow> BuxtonString option \<Rightarrow>
    BuxtonString option \<Rightarrow> 's BuxtonControl \<Rightarrow> (BuxtonData list option \<times> 's BuxtonControl) res" where
  "buxton_direct_list_names env layer_nm grp prefix ctl =
     bindE (assertE (str_value layer_nm \<noteq> None)) (\<lambda>_.
     bindE (find_layer ctl layer_nm) (\<lambda>found. case found of
       None \<Rightarrow> Inr (None, ctl)
     | Some nl \<Rightarrow>
         bindE (with_backend env ctl nl) (\<lambda>(backend, layer, ctl1).
         bindE (be_list_names backend layer grp prefix (modules ctl1)) (\<lambda>(l, w).
           Inr (l, ctl1\<lparr>modules := w\<rparr>)))))"

text \<open>\<open>buxton_direct_init_db\<close> leaves the uid of the layer as it is.\<close>

definition buxton_direct_init_db :: "'s env \<Rightarrow> BuxtonString \<Rightarrow> 's BuxtonControl \<Rightarrow>
    (bool \<times> 's BuxtonControl) res" where
  "buxton_direct_init_db env layer_nm ctl =
     bindE (find_layer ctl layer_nm) (\<lambda>found. case found of
       None \<Rightarrow> Inr (False, ctl)
     | Some (n, layer) \<Rightarrow>
         if layer_type layer = LAYER_USER then Inr (True, ctl)
         else
           bindE (backend_for_layer (env_module_ok env) (config ctl) layer) (\<lambda>(b, cfg).
           bindE (assertE (b \<noteq> None)) (\<lambda>_. case be_create_db (env_table env (the b)) of
             None \<Rightarrow> Inl NullDeref
           | Some f \<Rightarrow> bindE (f layer (modules ctl)) (\<lambda>(db, w).
               Inr (db, ctl\<lparr>config := cfg, modules := w\<rparr>)))))"

end
