(* ===== verification/Serialize.thy ===== *)
theory Serialize
  imports Bx_Types
begin

text \<open>
  \<open>src/shared/serialize.c\<close>: the record format of the database backends (\<open>buxton_serialize\<close>,
  \<open>buxton_deserialize\<close>) and the wire format of control messages. The decoders read from the block
  they are given; a read behind its end is the fault \<open>OutOfBounds\<close>, so that "never reads past the
  message" is a statement about the model. \<open>Inr None\<close> is the code's error return (-1 or 0).
\<close>

section \<open>Constants\<close>

abbreviation (input) "BUXTON_CONTROL_CODE \<equiv> 0x672 :: nat"
abbreviation (input) "BUXTON_LENGTH_OFFSET \<equiv> 4 :: nat"
abbreviation (input) "BXT_MINIMUM_SIZE \<equiv> 14 :: nat"
abbreviation (input) "BUXTON_MESSAGE_HEADER_LENGTH \<equiv> 8 :: nat"
abbreviation (input) "BUXTON_MESSAGE_MAX_LENGTH \<equiv> 32768 :: nat"
abbreviation (input) "BUXTON_MESSAGE_MAX_PARAMS \<equiv> 4096 :: nat"

text \<open>\<open>sizeof(BuxtonDataStore)\<close>: a pointer, a 32-bit length and padding on a 64-bit host.\<close>

abbreviation (input) "STORE_SIZE \<equiv> 16 :: nat"

section \<open>Reading scalars\<close>

text \<open>
  The \<open>switch\<close> on the type that both decoders share. \<open>None\<close> stands for a type that is not that
  of a scalar.
\<close>

definition read_scalar :: "BuxtonDataType \<Rightarrow> bytes \<Rightarrow> nat \<Rightarrow> BuxtonData option res" where
  "read_scalar t data off =
     (if t = BUXTON_TYPE_INT32 then
        bindE (rd data off 4) (\<lambda>b. Inr (Some (DInt32 (word_of_nat (le_nat b)))))
      else if t = BUXTON_TYPE_UINT32 then
        bindE (rd data off 4) (\<lambda>b. Inr (Some (DUInt32 (word_of_nat (le_nat b)))))
      else if t = BUXTON_TYPE_INT64 then
        bindE (rd data off 8) (\<lambda>b. Inr (Some (DInt64 (word_of_nat (le_nat b)))))
      else if t = BUXTON_TYPE_UINT64 then
        bindE (rd data off 8) (\<lambda>b. Inr (Some (DUInt64 (word_of_nat (le_nat b)))))
      else if t = BUXTON_TYPE_FLOAT then
        bindE (rd data off 4) (\<lambda>b. Inr (Some (DFloat (word_of_nat (le_nat b)))))
      else if t = BUXTON_TYPE_DOUBLE then
        bindE (rd data off 8) (\<lambda>b. Inr (Some (DDouble (word_of_nat (le_nat b)))))
      else if t = BUXTON_TYPE_BOOLEAN then
        bindE (rd data off 1) (\<lambda>b. Inr (Some (DBoolean (hd b))))
      else Inr None)"

section \<open>Database records\<close>

fun data_length :: "BuxtonData \<Rightarrow> nat" where
  "data_length (DString s) = unat (str_length s)"
| "data_length _ = STORE_SIZE"

text \<open>The value section: zero padded to the size of the union for scalars (\<open>malloc0\<close>).\<close>

fun data_image :: "BuxtonData \<Rightarrow> bytes res" where
  "data_image (DString s) = memcpy_from (str_value s) (unat (str_length s))"
| "data_image DZero = Inl Aborted"
| "data_image d = Inr (scalar_bytes d @ replicate (STORE_SIZE - length (scalar_bytes d)) NUL)"

definition buxton_serialize :: "BuxtonData \<Rightarrow> BuxtonString \<Rightarrow> bytes res" where
  "buxton_serialize source label =
     bindE (memcpy_from (str_value label) (unat (str_length label))) (\<lambda>l.
     bindE (data_image source) (\<lambda>d.
       let data = w32_bytes (data_type source) @ w32_bytes (str_length label) @
                  le_bytes 4 (data_length source) @ l @ d
       in bindE (assertE (BXT_MINIMUM_SIZE \<le> length data)) (\<lambda>_. Inr data)))"

definition buxton_deserialize :: "bytes \<Rightarrow> (BuxtonData \<times> BuxtonString) res" where
  "buxton_deserialize source =
     bindE (rd source 0 4) (\<lambda>t.
     bindE (rd source 4 4) (\<lambda>ll.
     bindE (rd source 8 4) (\<lambda>dl.
     let ty = word_of_nat (le_nat t); llen = le_nat ll; len = le_nat dl in
     bindE (rd source 12 llen) (\<lambda>l.
     let label = \<lparr>str_value = Some l, str_length = word_of_nat llen\<rparr> in
     if ty = BUXTON_TYPE_STRING then
       bindE (rd source (12 + llen) len)
         (\<lambda>b. Inr (DString \<lparr>str_value = Some b, str_length = word_of_nat len\<rparr>, label))
     else
       bindE (read_scalar ty source (12 + llen))
         (\<lambda>v. case v of None \<Rightarrow> Inl Aborted | Some d \<Rightarrow> Inr (d, label))))))"

section \<open>Wire messages: encoding\<close>

fun serialize_param :: "BuxtonData \<Rightarrow> bytes option res" where
  "serialize_param DZero = Inr None"
| "serialize_param (DString s) =
     bindE (memcpy_from (str_value s) (unat (str_length s)))
       (\<lambda>b. Inr (Some (le_bytes 2 1 @ w32_bytes (str_length s) @ b)))"
| "serialize_param d =
     Inr (Some (le_bytes 2 (unat (data_type d)) @ le_bytes 4 (length (scalar_bytes d)) @
                scalar_bytes d))"

fun serialize_params :: "BuxtonData list \<Rightarrow> bytes option res" where
  "serialize_params [] = Inr (Some [])"
| "serialize_params (p # ps) =
     bindE (serialize_param p) (\<lambda>r. case r of
         None \<Rightarrow> Inr None
       | Some b \<Rightarrow> bindE (serialize_params ps) (\<lambda>r'. Inr (map_option (\<lambda>bs. b @ bs) r')))"

definition buxton_serialize_message ::
  "nat \<Rightarrow> 32 word \<Rightarrow> BuxtonData list \<Rightarrow> bytes option res" where
  "buxton_serialize_message message msgid list =
     (if length list > BUXTON_MESSAGE_MAX_PARAMS then Inr None
      else if message \<ge> BUXTON_CONTROL_MAX \<or> message < control_code CONTROL_SET then Inr None
      else bindE (serialize_params list) (\<lambda>r. Inr (map_option (\<lambda>body.
        le_bytes 2 BUXTON_CONTROL_CODE @ le_bytes 2 message @
        le_bytes 4 (16 + length body) @ w32_bytes msgid @
        le_bytes 4 (length list) @ body) r)))"

section \<open>Wire messages: decoding\<close>

text \<open>One value of declared length \<open>len\<close>. A string must end in a NUL; an empty one is NULL.\<close>

definition read_value ::
  "BuxtonDataType \<Rightarrow> bytes \<Rightarrow> nat \<Rightarrow> nat \<Rightarrow> BuxtonData option res" where
  "read_value t data off len =
     (if t = BUXTON_TYPE_STRING then
        if len = 0 then Inr (Some (DString null_string))
        else bindE (rd data off len) (\<lambda>b.
          if b ! (len - 1) \<noteq> NUL then Inr None
          else Inr (Some (DString \<lparr>str_value = Some b, str_length = word_of_nat len\<rparr>)))
      else read_scalar t data off)"

text \<open>The parameter loop: \<open>n\<close> parameters to go, at \<open>offset\<close>.\<close>

fun deserialize_params :: "bytes \<Rightarrow> nat \<Rightarrow> nat \<Rightarrow> nat \<Rightarrow> BuxtonData list option res" where
  "deserialize_params data sz 0 offset = Inr (Some [])"
| "deserialize_params data sz (Suc n) offset =
     (if offset + 2 + 4 > sz then Inr None
      else bindE (rd data offset 2) (\<lambda>t.
        let c_type = word_of_nat (le_nat t) in
        if c_type \<ge> BUXTON_TYPE_MAX \<or> c_type \<le> BUXTON_TYPE_MIN then Inr None
        else bindE (rd data (offset + 2) 4) (\<lambda>l.
          let c_length = le_nat l in
          if c_length = 0 \<and> c_type \<noteq> BUXTON_TYPE_STRING then Inr None
          else if offset + 6 + c_length > sz then Inr None
          else bindE (read_value c_type data (offset + 6) c_length) (\<lambda>v. case v of
              None \<Rightarrow> Inr None
            | Some c_data \<Rightarrow>
                bindE (deserialize_params data sz n (offset + 6 + c_length))
                  (\<lambda>r. Inr (map_option (\<lambda>k_list. c_data # k_list) r))))))"

definition buxton_deserialize_message ::
  "bytes \<Rightarrow> nat \<Rightarrow> (BuxtonControlMessage \<times> 32 word \<times> BuxtonData list) option res" where
  "buxton_deserialize_message data sz =
     (if sz < BUXTON_MESSAGE_HEADER_LENGTH then Inr None
      else bindE (rd data 0 2) (\<lambda>c.
        if le_nat c \<noteq> BUXTON_CONTROL_CODE then Inr None
        else bindE (rd data 2 4) (\<lambda>m. case control_of_code (le_nat m mod 65536) of
            None \<Rightarrow> Inr None
          | Some message \<Rightarrow>
              bindE (rd data 8 4) (\<lambda>i.
              bindE (rd data 12 4) (\<lambda>p.
                let n_params = le_nat p in
                if n_params > BUXTON_MESSAGE_MAX_PARAMS then Inr None
                else bindE (deserialize_params data sz n_params 16)
                  (\<lambda>r. Inr (map_option
                     (\<lambda>k_list. (message, word_of_nat (le_nat i), k_list)) r)))))))"

definition buxton_get_message_size :: "bytes \<Rightarrow> nat \<Rightarrow> nat res" where
  "buxton_get_message_size data sz =
     (if sz < BUXTON_MESSAGE_HEADER_LENGTH then Inr 0
      else bindE (rd data BUXTON_LENGTH_OFFSET 4)
        (\<lambda>r. if le_nat r < BUXTON_MESSAGE_HEADER_LENGTH then Inr 0 else Inr (le_nat r)))"

section \<open>Round trips\<close>

fun is_scalar :: "BuxtonData \<Rightarrow> bool" where
  "is_scalar DZero = False"
| "is_scalar (DString _) = False"
| "is_scalar _ = True"

lemma le_nat_take: "le_nat (take n cs) = le_nat cs mod 256 ^ n"
proof (induction cs arbitrary: n)
  case Nil
  then show ?case by simp
next
  case (Cons c cs)
  show ?case
  proof (cases n)
    case 0
    then show ?thesis by simp
  next
    case (Suc m)
    have "le_nat (take n (c # cs)) = of_char c + 256 * (le_nat cs mod 256 ^ m)"
      using Suc Cons.IH by simp
    also have "\<dots> = (of_char c + 256 * le_nat cs) mod (256 * 256 ^ m)"
      by (simp add: mod_mult2_eq of_char_lt)
    finally show ?thesis using Suc by simp
  qed
qed

lemma word_le_nat_w [byte_simps]:
  "word_of_nat (le_nat (w32_bytes w)) = w" "word_of_nat (le_nat (w64_bytes v)) = v"
  by simp_all

lemma read_scalar_scalar_bytes:
  assumes "is_scalar d" "length pre = off"
  shows "read_scalar (data_type d) (pre @ scalar_bytes d @ post) off = Inr (Some d)"
proof -
  have "rd (pre @ scalar_bytes d @ post) off (length (scalar_bytes d)) = Inr (scalar_bytes d)"
    using assms(2) by (simp add: rd_append)
  with assms(1) show ?thesis
    by (cases d) (simp_all add: read_scalar_def word_le_nat_w)
qed

definition wire_string :: "BuxtonString \<Rightarrow> bool" where
  "wire_string s \<longleftrightarrow> str_exact s \<and>
     (case str_value s of None \<Rightarrow> True | Some b \<Rightarrow> b \<noteq> [] \<and> last b = NUL)"

text \<open>Values a peer can send: a typed value whose string, if it is one, is NULL or terminated.\<close>

fun wire_ok :: "BuxtonData \<Rightarrow> bool" where
  "wire_ok DZero = False"
| "wire_ok (DString s) = wire_string s"
| "wire_ok _ = True"

lemma wire_string_cases:
  assumes "wire_string s"
  obtains "s = null_string"
  | b where "str_value s = Some b" "b \<noteq> []" "last b = NUL" "unat (str_length s) = length b"
  using assms by (cases s) (auto simp: wire_string_def str_exact_def null_string_def
      split: option.splits)

lemma w_bytes_not_Nil [simp]:
  "w16_bytes a \<noteq> []" "w32_bytes b \<noteq> []" "w64_bytes c \<noteq> []"
  using length_w_bytes by (metis list.size(3) zero_neq_numeral)+

lemma param_roundtrip:
  assumes ok: "wire_ok d"
  obtains v where
    "serialize_param d = Inr (Some (le_bytes 2 (unat (data_type d)) @ le_bytes 4 (length v) @ v))"
    "length v < 2 ^ 32" "v = [] \<Longrightarrow> data_type d = BUXTON_TYPE_STRING"
    "\<And>pre post. read_value (data_type d) (pre @ v @ post) (length pre) (length v) = Inr (Some d)"
proof (cases "is_scalar d")
  case True
  then have "data_type d \<noteq> BUXTON_TYPE_STRING" "scalar_bytes d \<noteq> []"
    "length (scalar_bytes d) < 2 ^ 32"
    by (cases d; simp)+
  moreover have "serialize_param d = Inr (Some (le_bytes 2 (unat (data_type d)) @
      le_bytes 4 (length (scalar_bytes d)) @ scalar_bytes d))"
    using True by (cases d) simp_all
  ultimately show ?thesis
    using that[of "scalar_bytes d"] read_scalar_scalar_bytes[OF True refl]
    by (simp add: read_value_def)
next
  case False
  then obtain s where d: "d = DString s" and s: "wire_string s" using ok by (cases d) auto
  from s show ?thesis
  proof (cases rule: wire_string_cases)
    case 1
    then show ?thesis
      using d by (intro that[of "[]"]) (simp_all add: read_value_def null_string_def w32_bytes_def)
  next
    case (2 b)
    have b: "s = \<lparr>str_value = Some b, str_length = word_of_nat (length b)\<rparr>"
      using 2 by (cases s) (simp flip: 2(4))
    have "length b < 2 ^ 32"
      using unsigned_less[of "str_length s", where ?'a = nat] 2(4) by simp
    then show ?thesis
      using d b 2 by (intro that[of b])
        (simp_all add: read_value_def w32_bytes_def rd_def last_conv_nth unat_of_nat)
  qed
qed

lemma data_type_code:
  assumes "wire_ok d"
  shows "word_of_nat (le_nat (le_bytes 2 (unat (data_type d)))) = data_type d"
    "\<not> (data_type d \<ge> BUXTON_TYPE_MAX \<or> data_type d \<le> BUXTON_TYPE_MIN)"
proof -
  have "unat (data_type d) < 256 ^ 2" by (cases d) simp_all
  then show "word_of_nat (le_nat (le_bytes 2 (unat (data_type d)))) = data_type d"
    by (simp add: le_nat_bytes)
  show "\<not> (data_type d \<ge> BUXTON_TYPE_MAX \<or> data_type d \<le> BUXTON_TYPE_MIN)"
    using assms by (cases d) (simp_all add: word_le_nat_alt)
qed

lemma serialize_params_ok:
  "\<forall>d\<in>set ds. wire_ok d \<Longrightarrow> \<exists>body. serialize_params ds = Inr (Some body)"
proof (induction ds)
  case (Cons d ds)
  moreover obtain v where "serialize_param d = Inr (Some v)"
    using Cons.prems by (auto elim: param_roundtrip[of d])
  ultimately show ?case by auto
qed simp

lemma params_roundtrip:
  assumes "\<forall>d\<in>set ds. wire_ok d" "serialize_params ds = Inr (Some body)"
    "length pre = off" "off + length body \<le> sz"
  shows "deserialize_params (pre @ body @ post) sz (length ds) off = Inr (Some ds)"
  using assms
proof (induction ds arbitrary: pre off body)
  case Nil
  then show ?case by simp
next
  case (Cons d ds)
  have ok: "wire_ok d" using Cons.prems(1) by simp
  let ?t = "le_bytes 2 (unat (data_type d))"
  from ok obtain v where v: "serialize_param d = Inr (Some (?t @ le_bytes 4 (length v) @ v))"
    and len: "length v < 2 ^ 32" and nil: "v = [] \<Longrightarrow> data_type d = BUXTON_TYPE_STRING"
    and val: "\<And>pr po.
      read_value (data_type d) (pr @ v @ po) (length pr) (length v) = Inr (Some d)"
    by (rule param_roundtrip) blast
  obtain rest where rest: "serialize_params ds = Inr (Some rest)"
    and body: "body = ?t @ le_bytes 4 (length v) @ v @ rest"
    using Cons.prems(2) v serialize_params_ok[of ds] Cons.prems(1) by (auto simp: res_simps)
  let ?D = "pre @ body @ post"
  have D1: "rd ?D off 2 = Inr ?t" using Cons.prems(3) by (simp add: body rd_def)
  have D2: "rd ?D (off + 2) 4 = Inr (le_bytes 4 (length v))"
    using Cons.prems(3) by (simp add: body rd_def)
  have D3: "read_value (data_type d) ?D (off + 6) (length v) = Inr (Some d)"
    using val[of "pre @ ?t @ le_bytes 4 (length v)" "rest @ post"] Cons.prems(3)
    by (simp add: body)
  have D4: "deserialize_params ?D sz (length ds) (off + 6 + length v) = Inr (Some ds)"
    using Cons.IH[of rest "pre @ ?t @ le_bytes 4 (length v) @ v" "off + 6 + length v"]
      Cons.prems rest by (simp add: body)
  have len': "le_nat (le_bytes 4 (length v)) = length v" using len by (simp add: le_nat_bytes)
  show ?case
    using Cons.prems(4) D1 D2 D3 D4 nil data_type_code[OF ok] len' by (simp add: body Let_def)
qed


lemma le_nat_le_bytes_small [simp]:
  "le_nat (le_bytes 2 1650) = 1650"
  "n < 65536 \<Longrightarrow> le_nat (le_bytes 2 n) = n"
  "k < 4294967296 \<Longrightarrow> le_nat (le_bytes 4 k) = k"
  by (simp_all add: le_nat_bytes)

lemma message_roundtrip_lemma:
  assumes "\<forall>d\<in>set ds. wire_ok d" "length ds \<le> BUXTON_MESSAGE_MAX_PARAMS"
  obtains body where "serialize_params ds = Inr (Some body)"
    "buxton_serialize_message (control_code m) msgid ds = Inr (Some
       (le_bytes 2 BUXTON_CONTROL_CODE @ le_bytes 2 (control_code m) @
        le_bytes 4 (16 + length body) @ w32_bytes msgid @ le_bytes 4 (length ds) @ body))"
    "\<And>post. buxton_deserialize_message
       (le_bytes 2 BUXTON_CONTROL_CODE @ le_bytes 2 (control_code m) @
        le_bytes 4 (16 + length body) @ w32_bytes msgid @ le_bytes 4 (length ds) @ body @ post)
       (16 + length body) = Inr (Some (m, msgid, ds))"
proof -
  obtain body where body: "serialize_params ds = Inr (Some body)"
    using serialize_params_ok assms(1) by blast
  let ?c = "le_bytes 2 BUXTON_CONTROL_CODE" and ?m = "le_bytes 2 (control_code m)"
  let ?s = "le_bytes 4 (16 + length body)" and ?i = "w32_bytes msgid"
  let ?n = "le_bytes 4 (length ds)"
  have ser: "buxton_serialize_message (control_code m) msgid ds =
      Inr (Some (?c @ ?m @ ?s @ ?i @ ?n @ body))"
    using assms(2) body control_code_range[of m]
    by (simp add: buxton_serialize_message_def not_le Suc_le_eq)
  have de: "buxton_deserialize_message (?c @ ?m @ ?s @ ?i @ ?n @ body @ post) (16 + length body) =
      Inr (Some (m, msgid, ds))" for post
  proof -
    let ?D = "?c @ ?m @ ?s @ ?i @ ?n @ body @ post"
    have r0: "rd ?D 0 2 = Inr ?c" by (simp add: rd_def)
    have r2: "rd ?D 2 4 = Inr (?m @ take 2 ?s)" by (simp add: rd_def)
    have r8: "rd ?D 8 4 = Inr ?i" by (simp add: rd_def)
    have r12: "rd ?D 12 4 = Inr ?n" by (simp add: rd_def)
    have mc: "control_code m < 65536" using control_code_range(2)[of m] by linarith
    have "le_nat (?m @ take 2 ?s) mod 65536 = le_nat (take 2 (?m @ take 2 ?s))"
      unfolding le_nat_take by simp
    also have "\<dots> = control_code m" using mc by simp
    finally have code: "control_of_code (le_nat (?m @ take 2 ?s) mod 65536) = Some m" by simp
    have ps: "deserialize_params ?D (16 + length body) (length ds) 16 = Inr (Some ds)"
      using params_roundtrip[OF assms(1) body, of "?c @ ?m @ ?s @ ?i @ ?n" 16 "16 + length body" post]
      by simp
    show ?thesis
      unfolding buxton_deserialize_message_def r0 r2 r8 r12 bindE_Inr code option.case
      using assms(2) ps by simp
  qed
  show ?thesis using that body ser de by blast
qed

lemma serialize_message_length:
  assumes "buxton_serialize_message c i ds = Inr (Some b)"
  shows "16 \<le> length b \<and> take 8 b = le_bytes 2 BUXTON_CONTROL_CODE @ le_bytes 2 c @ le_bytes 4 (length b)"
  using assms by (auto simp: buxton_serialize_message_def res_simps split: if_splits)

lemma read_scalar_ok:
  "read_scalar t data off = Inr (Some d) \<Longrightarrow> is_scalar d \<and> data_type d = t"
  by (auto simp: read_scalar_def res_simps split: if_splits)

lemma read_value_ok:
  assumes "read_value t data off len = Inr (Some d)" "len < 2 ^ 32"
  shows "wire_ok d \<and> data_type d = t"
proof (cases "t = BUXTON_TYPE_STRING \<and> len \<noteq> 0")
  case True
  then obtain b where "rd data off len = Inr b" "b ! (len - 1) = NUL"
    and d: "d = DString \<lparr>str_value = Some b, str_length = word_of_nat len\<rparr>"
    using assms(1) by (auto simp: read_value_def res_simps split: if_splits)
  moreover from this have "length b = len" by (auto simp: res_simps)
  ultimately have "wire_string \<lparr>str_value = Some b, str_length = word_of_nat len\<rparr>"
    using True assms(2)
    by (auto simp: wire_string_def str_exact_def unat_of_nat last_conv_nth)
  then show ?thesis using d True by simp
next
  case False
  then show ?thesis
    using assms(1) read_scalar_ok[of t data off d]
    by (cases d) (auto simp: read_value_def wire_string_def str_exact_def null_string_def
        split: if_splits)
qed

lemma deserialize_params_ok:
  "deserialize_params data sz n off = Inr (Some ds) \<Longrightarrow> length ds = n \<and> (\<forall>d\<in>set ds. wire_ok d)"
proof (induction n arbitrary: off ds)
  case (Suc n)
  from Suc.prems obtain l d ds' where l: "rd data (off + 2) 4 = Inr l"
    and v: "read_value (word_of_nat (le_nat (take 2 (drop off data)))) data (off + 6) (le_nat l)
          = Inr (Some d)"
    and r: "deserialize_params data sz n (off + 6 + le_nat l) = Inr (Some ds')" and "ds = d # ds'"
    by (auto simp: res_simps Let_def split: if_splits option.splits)
  have "le_nat l < 2 ^ 32" using l le_nat_bound[of l] by (auto simp: res_simps)
  with v have "wire_ok d" using read_value_ok by blast
  with Suc.IH[OF r] \<open>ds = d # ds'\<close> show ?case by simp
qed simp

lemma runs_read_scalar: "off + 8 \<le> length data \<Longrightarrow> runs (read_scalar t data off)"
  by (auto simp: read_scalar_def)

lemma runs_read_value:
  "off + 8 \<le> length data \<Longrightarrow> off + len \<le> length data \<Longrightarrow> runs (read_value t data off len)"
  by (auto simp: read_value_def runs_read_scalar)

lemma runs_deserialize_params:
  "sz + 8 \<le> length data \<Longrightarrow> runs (deserialize_params data sz n off)"
proof (induction n arbitrary: off)
  case (Suc n)
  then show ?case
    by (auto simp: Let_def intro!: runs_bindE runs_read_value split: option.splits)
qed simp

lemma runs_deserialize_message:
  "sz + 8 \<le> length data \<Longrightarrow> runs (buxton_deserialize_message data sz)"
  by (auto simp: buxton_deserialize_message_def Let_def
      intro!: runs_bindE runs_deserialize_params split: option.splits)

lemma db_roundtrip_lemma:
  assumes d: "stored_data d" and l: "stored_string label"
    and m: "2 \<le> unat (str_length label) + data_length d"
  obtains bs where "buxton_serialize d label = Inr bs"
    "\<And>post. buxton_deserialize (bs @ post) = Inr (d, label)"
proof -
  obtain lb where lb: "label = \<lparr>str_value = Some lb, str_length = word_of_nat (length lb)\<rparr>"
    and ll: "length lb < 2 ^ 32"
    using l by (rule stored_string_cases)
  have lu: "unat (word_of_nat (length lb) :: 32 word) = length lb"
    using ll by (simp add: unat_of_nat)
  obtain img where img: "data_image d = Inr img" and li: "length img = data_length d"
  proof (cases d)
    case (DString s)
    then have "stored_string s" using d by simp
    then show ?thesis
      by (rule stored_string_cases) (use DString in \<open>auto intro!: that simp: rd_def unat_of_nat\<close>)
  qed (use d in \<open>auto intro!: that\<close>)
  let ?t = "w32_bytes (data_type d)" and ?n = "le_bytes 4 (data_length d)"
  let ?bs = "?t @ w32_bytes (str_length label) @ ?n @ lb @ img"
  have ser: "buxton_serialize d label = Inr ?bs"
    using m lu by (simp add: buxton_serialize_def lb img rd_def li Let_def assertE_def)
  have dl: "data_length d < 2 ^ 32"
    using unsigned_less[of "str_length s" for s, where ?'a = nat] by (cases d) simp_all
  have "buxton_deserialize (?bs @ post) = Inr (d, label)" for post
  proof -
    let ?D = "?bs @ post"
    have r: "rd ?D 0 4 = Inr ?t" "rd ?D 4 4 = Inr (w32_bytes (str_length label))"
      "rd ?D 8 4 = Inr ?n" "rd ?D 12 (length lb) = Inr lb"
      "rd ?D (12 + length lb) (data_length d) = Inr img"
      by (simp_all add: rd_def li)
    show ?thesis
    proof (cases "is_scalar d")
      case True
      then have "img = scalar_bytes d @ replicate (STORE_SIZE - length (scalar_bytes d)) NUL"
        "data_type d \<noteq> BUXTON_TYPE_STRING"
        using img by (cases d; simp)+
      moreover from this have "read_scalar (data_type d) ?D (12 + length lb) = Inr (Some d)"
        using read_scalar_scalar_bytes[OF True,
            of "?t @ w32_bytes (str_length label) @ ?n @ lb" "12 + length lb"]
        by simp
      ultimately show ?thesis
        unfolding buxton_deserialize_def r bindE_Inr Let_def using lu dl
        by (simp add: lb rd_def)
    next
      case False
      then obtain s where s: "d = DString s" "stored_string s" using d by (cases d) auto
      from s(2) obtain b where b: "s = \<lparr>str_value = Some b, str_length = word_of_nat (length b)\<rparr>"
        "length b < 2 ^ 32"
        by (rule stored_string_cases)
      then have "img = b" "data_length d = length b"
        using img s by (simp_all add: rd_def unat_of_nat)
      then show ?thesis
        unfolding buxton_deserialize_def r bindE_Inr Let_def using lu dl s b r(4,5)
        by (simp add: lb)
    qed
  qed
  with ser show ?thesis by (rule that)
qed

declare control_of_code_def [eval_simps] all_controls_def [eval_simps]
  read_value_def [eval_simps] read_scalar_def [eval_simps] buxton_deserialize_message_def [eval_simps]
  buxton_get_message_size_def [eval_simps] buxton_serialize_message_def [eval_simps]
  buxton_string_pack_def [eval_simps] null_string_def [eval_simps]

section \<open>Properties\<close>

text \<open>C9. A control message survives the wire: for every message code, id and at most 4096 values
  that a peer can send, encoding succeeds, and decoding the bytes (whatever follows them in
  memory) gives back the same code, id and values.\<close>

theorem message_roundtrip:
  assumes "\<forall>d\<in>set ds. wire_ok d" "length ds \<le> BUXTON_MESSAGE_MAX_PARAMS"
  shows "\<exists>b. buxton_serialize_message (control_code m) msgid ds = Inr (Some b) \<and>
             buxton_deserialize_message (b @ post) (length b) = Inr (Some (m, msgid, ds))"
  by (rule message_roundtrip_lemma[OF assms, of m msgid]) (force simp: add.commute)

theorem message_roundtrip_witness:
  "wire_ok (DString (buxton_string_pack ''g'')) \<and> wire_ok (DInt32 5) \<and>
   (\<exists>b. buxton_serialize_message (control_code CONTROL_SET) 7
          [DString (buxton_string_pack ''g''), DInt32 5] = Inr (Some b) \<and>
        buxton_deserialize_message (b @ [NUL]) (length b) =
          Inr (Some (CONTROL_SET, 7, [DString (buxton_string_pack ''g''), DInt32 5])))"
proof -
  have ok: "\<forall>d\<in>set [DString (buxton_string_pack ''g''), DInt32 5]. wire_ok d"
    by (simp add: wire_string_def str_exact_def buxton_string_pack_def zstr_def)
  show ?thesis using ok message_roundtrip[OF ok, of CONTROL_SET 7 "[NUL]"] by simp
qed

text \<open>The length field frames the message: of any encoded message below 4 GB, the first 8 bytes
  alone tell \<open>buxton_get_message_size\<close> the number of bytes to read.\<close>

theorem message_framing:
  assumes "buxton_serialize_message c msgid ds = Inr (Some b)" "length b < 2 ^ 32"
  shows "buxton_get_message_size (take 8 b) 8 = Inr (length b)"
  using serialize_message_length[OF assms(1)] assms(2)
  by (simp add: buxton_get_message_size_def rd_def)

theorem message_framing_witness:
  "buxton_get_message_size (take 8 (le_bytes 2 0x672 @ le_bytes 2 8 @ le_bytes 4 16 @ w32_bytes 1 @ le_bytes 4 0)) 8
    = Inr 16"
proof -
  have "buxton_serialize_message 8 1 [] =
      Inr (Some (le_bytes 2 0x672 @ le_bytes 2 8 @ le_bytes 4 16 @ w32_bytes 1 @ le_bytes 4 0))"
    by (simp add: buxton_serialize_message_def)
  from message_framing[OF this] show ?thesis by simp
qed

text \<open>C10. Whatever bytes arrive, a decoded message has at most 4096 parameters and every parameter
  is a typed value; its string, if it is one, is NULL or a block that ends in a NUL.\<close>

theorem decoded_message_typed:
  assumes "buxton_deserialize_message data sz = Inr (Some (m, msgid, ds))"
  shows "length ds \<le> BUXTON_MESSAGE_MAX_PARAMS \<and> list_all wire_ok ds"
  using assms
  by (auto simp: buxton_deserialize_message_def res_simps Let_def list_all_iff
      dest: deserialize_params_ok split: if_splits option.splits)

definition sample_message :: bytes where
  "sample_message =
     le_bytes 2 0x672 @ le_bytes 2 9 @ le_bytes 4 26 @ le_bytes 4 3 @ le_bytes 4 1 @
     le_bytes 2 3 @ le_bytes 4 4 @ le_bytes 4 77"

theorem decoded_message_typed_witness:
  "buxton_deserialize_message sample_message 26 = Inr (Some (CONTROL_NOTIFY, 3, [DUInt32 77])) \<and>
   list_all wire_ok [DUInt32 77]"
proof -
  have d: "buxton_deserialize_message sample_message 26 = Inr (Some (CONTROL_NOTIFY, 3, [DUInt32 77]))"
    by (simp add: eval_simps sample_message_def Let_def word_le_nat_alt)
  from decoded_message_typed[OF d] show ?thesis using d by simp
qed

text \<open>C11. The decoder's reads past the end of a message are bounded: with 8 readable bytes behind the
  message it never leaves the block, whatever the message says.\<close>

theorem decode_overread_bounded:
  assumes "sz + 8 \<le> length data"
  shows "\<exists>r. buxton_deserialize_message data sz = Inr r"
  using runs_deserialize_message[OF assms] by (simp add: runs_iff)

theorem decode_overread_bounded_witness:
  "26 + 8 \<le> length (sample_message @ replicate 8 NUL) \<and>
   (\<exists>r. buxton_deserialize_message (sample_message @ replicate 8 NUL) 26 = Inr r)"
proof -
  have h: "26 + 8 \<le> length (sample_message @ replicate 8 NUL)" by (simp add: sample_message_def)
  from decode_overread_bounded[OF h] show ?thesis using h by simp
qed

text \<open>The bound is needed: \<open>BUXTON_MESSAGE_HEADER_LENGTH\<close> is 8, but the decoder reads a header of
  16 bytes. A message that declares a size between 8 and 15, has the magic number and a valid
  code, makes it read past the block that \<open>handle_client\<close> allocated for it.\<close>

theorem short_header_overread:
  assumes "length data = sz" "8 \<le> sz" "sz < 16"
    and "le_nat (take 2 data) = BUXTON_CONTROL_CODE"
    and "control_of_code (le_nat (take 4 (drop 2 data)) mod 65536) = Some m"
  shows "buxton_deserialize_message data sz = Inl OutOfBounds"
proof -
  have "rd data 12 4 = Inl OutOfBounds" using assms(1,3) by (simp add: rd_def)
  moreover have "rd data 0 2 = Inr (take 2 data)" "rd data 2 4 = Inr (take 4 (drop 2 data))"
    using assms(1,2) by (simp_all add: rd_def)
  moreover have "\<not> sz < 8" using assms(2) by simp
  ultimately show ?thesis
    using assms(4,5) unfolding buxton_deserialize_message_def
    by (cases "rd data 8 4") (auto simp: res_simps)
qed

theorem short_header_overread_witness:
  "buxton_get_message_size (le_bytes 2 0x672 @ le_bytes 2 1 @ le_bytes 4 8) 8 = Inr 8 \<and>
   buxton_deserialize_message (le_bytes 2 0x672 @ le_bytes 2 1 @ le_bytes 4 8) 8 = Inl OutOfBounds"
proof
  show "buxton_get_message_size (le_bytes 2 0x672 @ le_bytes 2 1 @ le_bytes 4 8) 8 = Inr 8"
    by (simp add: eval_simps)
  show "buxton_deserialize_message (le_bytes 2 0x672 @ le_bytes 2 1 @ le_bytes 4 8) 8 = Inl OutOfBounds"
    by (rule short_header_overread[where m = CONTROL_SET]) (simp_all add: eval_simps)
qed

text \<open>A database record survives storage: what \<open>buxton_serialize\<close> writes for a value and its
  label, \<open>buxton_deserialize\<close> reads back, whatever follows in memory. Together the label and the
  value must take 2 bytes, which the code asserts.\<close>

theorem db_record_roundtrip:
  assumes "stored_data d" "stored_string label" "2 \<le> unat (str_length label) + data_length d"
  shows "\<exists>bs. buxton_serialize d label = Inr bs \<and> buxton_deserialize (bs @ post) = Inr (d, label)"
  by (rule db_roundtrip_lemma[OF assms]) blast

theorem db_record_roundtrip_witness:
  "stored_data (DInt64 9) \<and> stored_string (buxton_string_pack ''_'') \<and>
   (\<exists>bs. buxton_serialize (DInt64 9) (buxton_string_pack ''_'') = Inr bs \<and>
         buxton_deserialize (bs @ []) = Inr (DInt64 9, buxton_string_pack ''_''))"
proof -
  have h: "stored_data (DInt64 9)" "stored_string (buxton_string_pack ''_'')"
    "2 \<le> unat (str_length (buxton_string_pack ''_'')) + data_length (DInt64 9)"
    by (simp_all add: stored_string_def buxton_string_pack_def)
  from db_record_roundtrip[OF h, of "[]"] show ?thesis using h by blast
qed

end
