(* ===== verification/Daemon.thy ===== *)
theory Daemon
  imports Direct Serialize
begin

text \<open>
  The daemon, \<open>src/core/daemon.c\<close>: requests of clients, notifications, the poll set, and the end of
  a connection. A client is known by a number that stands for its \<open>client_list_item\<close>. What the
  kernel does (whether a write succeeds, what a read delivers, who the peer is) is a parameter;
  what the daemon sends is collected in its state.
\<close>

section \<open>State\<close>

record client_list_item =
  cl_id :: nat
  cl_fd :: int
  cl_uid :: "32 word"
  cl_pid :: "32 word"
  smack_label :: "BuxtonString option"
  cl_data :: "bytes option"
  cl_offset :: nat
  cl_size :: nat

text \<open>\<open>old_data\<close> points to a zeroed value after the key was unset.\<close>

record BuxtonNotification =
  n_client :: nat
  old_data :: "BuxtonData option"
  n_msgid :: "32 word"

text \<open>
  The two maps are the ordered maps of theory \<open>Ordered_Map\<close>; a \<open>BuxtonList\<close> is the list of its data
  pointers. \<open>nfds\<close> is the length of \<open>pollfds\<close>, and the two \<open>_alloc\<close> fields count bytes. \<open>sent\<close>
  is the history of messages handed to \<open>_write\<close>, latest last.
\<close>

record pollfd =
  pfd :: int
  events :: nat
  revents :: nat

record 's BuxtonDaemon =
  nfds_alloc :: nat
  accepting_alloc :: nat
  accepting :: "bool list"
  pollfds :: "pollfd list"
  client_list :: "client_list_item list"
  notify_mapping :: "(bytes \<times> BuxtonNotification list) list"
  client_key_mapping :: "(int \<times> bytes list) list"
  buxton :: "'s BuxtonControl"
  sent :: "(int \<times> bytes) list"

section \<open>Names of notified keys\<close>

fun first_byte :: "bytes option \<Rightarrow> byte res" where
  "first_byte None = Inl NullDeref"
| "first_byte (Some []) = Inl OutOfBounds"
| "first_byte (Some (c # _)) = Inr c"

definition notify_key_name :: "BuxtonKey \<Rightarrow> bytes option res" where
  "notify_key_name key =
     bindE (first_byte (str_value (key_group key))) (\<lambda>g0.
     if g0 = NUL then Inr None
     else
       bindE (first_byte (str_value (key_name key))) (\<lambda>n0.
       if n0 = NUL then Inr None
       else
         bindE (cstrp (str_value (key_group key))) (\<lambda>g.
         bindE (cstrp (str_value (key_name key))) (\<lambda>n.
           Inr (Some (g @ [CHR 0x0A] @ n))))))"

section \<open>From parameters to a key\<close>

definition string_at :: "BuxtonData list \<Rightarrow> nat \<Rightarrow> BuxtonString option" where
  "string_at ps i = (case ps ! i of DString s \<Rightarrow> Some s | _ \<Rightarrow> None)"

definition uint32_at :: "BuxtonData list \<Rightarrow> nat \<Rightarrow> 32 word option" where
  "uint32_at ps i = (case ps ! i of DUInt32 w \<Rightarrow> Some w | _ \<Rightarrow> None)"

text \<open>\<open>Some (key, value)\<close> when the parameters fit the message; the value where the message has one.\<close>

definition parse_set :: "BuxtonData list \<Rightarrow> (BuxtonKey \<times> BuxtonData option) option" where
  "parse_set ps =
     (if length ps \<noteq> 4 then None
      else case (string_at ps 0, string_at ps 1, string_at ps 2) of
        (Some l, Some g, Some n) \<Rightarrow>
          if data_type (ps ! 3) = BUXTON_TYPE_MIN \<or> data_type (ps ! 3) = BUXTON_TYPE_MAX then None
          else Some (zero_key\<lparr>key_layer := l, key_group := g, key_name := n,
                              key_type := data_type (ps ! 3)\<rparr>, Some (ps ! 3))
      | _ \<Rightarrow> None)"

definition parse_set_label :: "BuxtonData list \<Rightarrow> (BuxtonKey \<times> BuxtonData option) option" where
  "parse_set_label ps =
     (if length ps = 3 then
        (case (string_at ps 0, string_at ps 1, string_at ps 2) of
           (Some l, Some g, Some _) \<Rightarrow>
             Some (zero_key\<lparr>key_type := BUXTON_TYPE_UNSET, key_layer := l, key_group := g\<rparr>, Some (ps ! 2))
         | _ \<Rightarrow> None)
      else if length ps = 4 then
        (case (string_at ps 0, string_at ps 1, string_at ps 2, string_at ps 3) of
           (Some l, Some g, Some n, Some _) \<Rightarrow>
             Some (zero_key\<lparr>key_type := BUXTON_TYPE_UNSET, key_layer := l, key_group := g,
                            key_name := n\<rparr>, Some (ps ! 3))
         | _ \<Rightarrow> None)
      else None)"

definition parse_group :: "BuxtonData list \<Rightarrow> (BuxtonKey \<times> BuxtonData option) option" where
  "parse_group ps =
     (if length ps \<noteq> 2 then None
      else case (string_at ps 0, string_at ps 1) of
        (Some l, Some g) \<Rightarrow>
          Some (zero_key\<lparr>key_type := BUXTON_TYPE_STRING, key_layer := l, key_group := g\<rparr>, None)
      | _ \<Rightarrow> None)"

definition parse_get :: "BuxtonData list \<Rightarrow> (BuxtonKey \<times> BuxtonData option) option" where
  "parse_get ps =
     (if length ps = 4 then
        (case (string_at ps 0, string_at ps 1, string_at ps 2, uint32_at ps 3) of
           (Some l, Some g, Some n, Some t) \<Rightarrow>
             Some (zero_key\<lparr>key_layer := l, key_group := g, key_name := n, key_type := t\<rparr>, None)
         | _ \<Rightarrow> None)
      else if length ps = 3 then
        (case (string_at ps 0, string_at ps 1, uint32_at ps 2) of
           (Some g, Some n, Some t) \<Rightarrow>
             Some (zero_key\<lparr>key_group := g, key_name := n, key_type := t\<rparr>, None)
         | _ \<Rightarrow> None)
      else None)"

definition parse_get_label :: "BuxtonData list \<Rightarrow> (BuxtonKey \<times> BuxtonData option) option" where
  "parse_get_label ps =
     (if length ps = 3 then
        (case (string_at ps 0, string_at ps 1, string_at ps 2) of
           (Some l, Some g, Some n) \<Rightarrow>
             Some (zero_key\<lparr>key_type := BUXTON_TYPE_UNSET, key_layer := l, key_group := g,
                            key_name := n\<rparr>, None)
         | _ \<Rightarrow> None)
      else if length ps = 2 then
        (case (string_at ps 0, string_at ps 1) of
           (Some l, Some g) \<Rightarrow>
             Some (zero_key\<lparr>key_type := BUXTON_TYPE_UNSET, key_layer := l, key_group := g\<rparr>, None)
         | _ \<Rightarrow> None)
      else None)"

definition parse_list_names :: "BuxtonData list \<Rightarrow> (BuxtonKey \<times> BuxtonData option) option" where
  "parse_list_names ps =
     (if length ps \<noteq> 3 then None
      else case (string_at ps 0, string_at ps 1, string_at ps 2) of
        (Some l, Some g, Some n) \<Rightarrow> Some (zero_key\<lparr>key_layer := l, key_group := g, key_name := n\<rparr>, None)
      | _ \<Rightarrow> None)"

definition parse_unset :: "BuxtonData list \<Rightarrow> (BuxtonKey \<times> BuxtonData option) option" where
  "parse_unset ps =
     (if length ps \<noteq> 4 then None
      else case (string_at ps 0, string_at ps 1, string_at ps 2, uint32_at ps 3) of
        (Some l, Some g, Some n, Some t) \<Rightarrow>
          Some (zero_key\<lparr>key_layer := l, key_group := g, key_name := n, key_type := t\<rparr>, None)
      | _ \<Rightarrow> None)"

definition parse_notify :: "BuxtonData list \<Rightarrow> (BuxtonKey \<times> BuxtonData option) option" where
  "parse_notify ps =
     (if length ps \<noteq> 3 then None
      else case (string_at ps 0, string_at ps 1, uint32_at ps 2) of
        (Some g, Some n, Some t) \<Rightarrow>
          Some (zero_key\<lparr>key_group := g, key_name := n, key_type := t\<rparr>, None)
      | _ \<Rightarrow> None)"

text \<open>\<open>BUXTON_CONTROL_LIST\<close> is refused before anything is looked at.\<close>

fun parse_list :: "BuxtonControlMessage \<Rightarrow> BuxtonData list \<Rightarrow> (BuxtonKey \<times> BuxtonData option) option" where
  "parse_list CONTROL_SET ps = parse_set ps"
| "parse_list CONTROL_SET_LABEL ps = parse_set_label ps"
| "parse_list CONTROL_CREATE_GROUP ps = parse_group ps"
| "parse_list CONTROL_REMOVE_GROUP ps = parse_group ps"
| "parse_list CONTROL_GET ps = parse_get ps"
| "parse_list CONTROL_GET_LABEL ps = parse_get_label ps"
| "parse_list CONTROL_LIST ps = None"
| "parse_list CONTROL_LIST_NAMES ps = parse_list_names ps"
| "parse_list CONTROL_UNSET ps = parse_unset ps"
| "parse_list CONTROL_NOTIFY ps = parse_notify ps"
| "parse_list CONTROL_UNNOTIFY ps = parse_notify ps"
| "parse_list _ ps = None"

section \<open>Requests on behalf of a client\<close>

text \<open>Every handler first takes on the uid of the client; the status is 0 or -1.\<close>

definition as_client :: "client_list_item \<Rightarrow> 's BuxtonDaemon \<Rightarrow> 's BuxtonControl" where
  "as_client client self = (buxton self)\<lparr>client_uid := cl_uid client\<rparr>"

definition status_of :: "'s BuxtonDaemon \<Rightarrow> (bool \<times> 's BuxtonControl) res \<Rightarrow> (int \<times> 's BuxtonDaemon) res" where
  "status_of self r = bindE r (\<lambda>(ok, ctl). Inr (if ok then 0 else - 1, self\<lparr>buxton := ctl\<rparr>))"

definition daemon_set_value :: "'s env \<Rightarrow> 's BuxtonDaemon \<Rightarrow> client_list_item \<Rightarrow> BuxtonKey \<Rightarrow>
    BuxtonData option \<Rightarrow> (int \<times> 's BuxtonDaemon) res" where
  "daemon_set_value env self client key v =
     bindE (assertE (v \<noteq> None)) (\<lambda>_.
       status_of self (buxton_direct_set_value env key (the v) (smack_label client) (as_client client self)))"

definition daemon_set_label :: "'s env \<Rightarrow> 's BuxtonDaemon \<Rightarrow> client_list_item \<Rightarrow> BuxtonKey \<Rightarrow>
    BuxtonData option \<Rightarrow> (int \<times> 's BuxtonDaemon) res" where
  "daemon_set_label env self client key v =
     bindE (assertE (v \<noteq> None)) (\<lambda>_. case the v of
         DString s \<Rightarrow> status_of self (buxton_direct_set_label env key s (as_client client self))
       | _ \<Rightarrow> Inl Indeterminate)"

definition daemon_create_group :: "'s env \<Rightarrow> 's BuxtonDaemon \<Rightarrow> client_list_item \<Rightarrow> BuxtonKey \<Rightarrow>
    (int \<times> 's BuxtonDaemon) res" where
  "daemon_create_group env self client key =
     status_of self (buxton_direct_create_group env key (smack_label client) (as_client client self))"

definition daemon_remove_group :: "'s env \<Rightarrow> 's BuxtonDaemon \<Rightarrow> client_list_item \<Rightarrow> BuxtonKey \<Rightarrow>
    (int \<times> 's BuxtonDaemon) res" where
  "daemon_remove_group env self client key =
     status_of self (buxton_direct_remove_group env key (smack_label client) (as_client client self))"

definition daemon_unset_value :: "'s env \<Rightarrow> 's BuxtonDaemon \<Rightarrow> client_list_item \<Rightarrow> BuxtonKey \<Rightarrow>
    (int \<times> 's BuxtonDaemon) res" where
  "daemon_unset_value env self client key =
     status_of self (buxton_direct_unset_value env key (smack_label client) (as_client client self))"

definition daemon_get_value :: "'s env \<Rightarrow> 's BuxtonDaemon \<Rightarrow> client_list_item \<Rightarrow> BuxtonKey \<Rightarrow>
    (BuxtonData option \<times> int \<times> 's BuxtonDaemon) res" where
  "daemon_get_value env self client key =
     bindE (buxton_direct_get_value env key (smack_label client) (as_client client self)) (\<lambda>(ret, out, ctl).
       if ret \<noteq> 0 then Inr (None, - 1, self\<lparr>buxton := ctl\<rparr>)
       else Inr (Some (case out of None \<Rightarrow> DZero | Some (d, _) \<Rightarrow> d), 0, self\<lparr>buxton := ctl\<rparr>))"

definition daemon_get_label :: "'s env \<Rightarrow> 's BuxtonDaemon \<Rightarrow> client_list_item \<Rightarrow> BuxtonKey \<Rightarrow>
    (BuxtonData option \<times> int \<times> 's BuxtonDaemon) res" where
  "daemon_get_label env self client key =
     bindE (buxton_direct_get_value env key (smack_label client) (as_client client self)) (\<lambda>(ret, out, ctl).
       if ret \<noteq> 0 then Inr (None, - 1, self\<lparr>buxton := ctl\<rparr>)
       else Inr (Some (DString (out_label out)), 0, self\<lparr>buxton := ctl\<rparr>))"

text \<open>\<open>list_keys\<close> and \<open>list_names\<close> leave the uid as it is.\<close>

definition daemon_list_keys :: "'s env \<Rightarrow> 's BuxtonDaemon \<Rightarrow> BuxtonString \<Rightarrow>
    (BuxtonData list option \<times> int \<times> 's BuxtonDaemon) res" where
  "daemon_list_keys env self layer_nm =
     bindE (buxton_direct_list_keys env layer_nm (buxton self)) (\<lambda>(l, ctl).
       Inr (l, if l = None then - 1 else 0, self\<lparr>buxton := ctl\<rparr>))"

definition daemon_list_names :: "'s env \<Rightarrow> 's BuxtonDaemon \<Rightarrow> BuxtonKey \<Rightarrow>
    (BuxtonData list option \<times> int \<times> 's BuxtonDaemon) res" where
  "daemon_list_names env self key =
     bindE (buxton_direct_list_names env (key_layer key) (Some (key_group key)) (Some (key_name key))
              (buxton self)) (\<lambda>(l, ctl).
       Inr (l, if l = None then - 1 else 0, self\<lparr>buxton := ctl\<rparr>))"

section \<open>Notifications\<close>

text \<open>
  The names a client registered are kept per file descriptor so that they can be cleaned up. A put
  into either map aborts the daemon when it fails.
\<close>

definition put_or_abort :: "('k \<times> 'v) list \<Rightarrow> 'k \<Rightarrow> 'v \<Rightarrow> ('k \<times> 'v) list res" where
  "put_or_abort m k v = (let (r, m') = hm_put m k v in if r < 0 then Inl Aborted else Inr m')"

text \<open>Appending to the list a map holds under a key; the first element also enters the key.\<close>

definition append_entry :: "('k \<times> 'v list) list \<Rightarrow> 'k \<Rightarrow> 'v \<Rightarrow> ('k \<times> 'v list) list res" where
  "append_entry m k x = (case hm_get m k of
       None \<Rightarrow> put_or_abort m k [x]
     | Some xs \<Rightarrow> Inr (hm_set m k (xs @ [x])))"

definition register_notification :: "'s env \<Rightarrow> 's BuxtonDaemon \<Rightarrow> client_list_item \<Rightarrow> BuxtonKey \<Rightarrow>
    32 word \<Rightarrow> (int \<times> 's BuxtonDaemon) res" where
  "register_notification env self client key msgid =
     bindE (daemon_get_value env self client key) (\<lambda>(data, key_status, self1).
     if key_status \<noteq> 0 then Inr (- 1, self1)
     else
      bindE (notify_key_name key) (\<lambda>name. case name of
        None \<Rightarrow> Inr (- 1, self1)
      | Some key_nm \<Rightarrow>
          bindE (append_entry (notify_mapping self1) key_nm
                  \<lparr>n_client = cl_id client, old_data = data, n_msgid = msgid\<rparr>) (\<lambda>nm.
          bindE (append_entry (client_key_mapping self1) (cl_fd client) key_nm) (\<lambda>ckm.
            Inr (0, self1\<lparr>notify_mapping := nm, client_key_mapping := ckm\<rparr>)))))"

text \<open>The first item of a client; \<open>buxton_list_remove\<close> of that item.\<close>

definition find_client :: "nat \<Rightarrow> BuxtonNotification list \<Rightarrow> BuxtonNotification option" where
  "find_client c ns = find (\<lambda>n. n_client n = c) ns"

fun remove_client :: "nat \<Rightarrow> BuxtonNotification list \<Rightarrow> BuxtonNotification list" where
  "remove_client c [] = []"
| "remove_client c (n # ns) = (if n_client n = c then ns else n # remove_client c ns)"

text \<open>The map entry after its list changed: gone when the list is empty.\<close>

definition store_list :: "('k \<times> 'v list) list \<Rightarrow> 'k \<Rightarrow> 'v list \<Rightarrow> ('k \<times> 'v list) list" where
  "store_list m k xs = (if xs = [] then snd (hm_remove m k) else hm_set m k xs)"

definition unregister_notification :: "'s BuxtonDaemon \<Rightarrow> client_list_item \<Rightarrow> BuxtonKey \<Rightarrow>
    (32 word \<times> int \<times> 's BuxtonDaemon) res" where
  "unregister_notification self client key =
     bindE (notify_key_name key) (\<lambda>name. case name of
       None \<Rightarrow> Inr (0, - 1, self)
     | Some key_nm \<Rightarrow>
         (case hm_get (notify_mapping self) key_nm of
            None \<Rightarrow> Inr (0, - 1, self)
          | Some n_list \<Rightarrow>
              (case find_client (cl_id client) n_list of
                 None \<Rightarrow> Inr (0, - 1, self)
               | Some citem \<Rightarrow>
                   (case hm_get (client_key_mapping self) (cl_fd client) of
                      None \<Rightarrow> Inr (0, - 1, self)
                    | Some key_list \<Rightarrow>
                        Inr (n_msgid citem, 0, self\<lparr>
                          client_key_mapping :=
                            (if key_nm \<in> set key_list
                             then store_list (client_key_mapping self) (cl_fd client) (remove1 key_nm key_list)
                             else client_key_mapping self),
                          notify_mapping :=
                            store_list (notify_mapping self) key_nm (remove_client (cl_id client) n_list)\<rparr>)))))"

text \<open>
  The bytes of the union of a stored value: those of its scalar. What lies behind a scalar, and the
  bytes of a pointer, are not determined by the program; a zeroed value is all zero.
\<close>

definition union_bytes :: "BuxtonData \<Rightarrow> nat \<Rightarrow> bytes res" where
  "union_bytes old n = (case old of
       DZero \<Rightarrow> Inr (replicate n NUL)
     | DString _ \<Rightarrow> Inl Indeterminate
     | _ \<Rightarrow> if n \<le> length (scalar_bytes old) then Inr (take n (scalar_bytes old)) else Inl Indeterminate)"

text \<open>\<open>memcmp\<close> up to the first difference.\<close>

fun memcmp_eq :: "nat \<Rightarrow> bytes \<Rightarrow> bytes \<Rightarrow> bool res" where
  "memcmp_eq 0 _ _ = Inr True"
| "memcmp_eq (Suc n) (a # as) (b # bs) = (if a \<noteq> b then Inr False else memcmp_eq n as bs)"
| "memcmp_eq (Suc n) _ _ = Inl OutOfBounds"

text \<open>Whether the value a client was last told and the new one compare equal.\<close>

definition same_value :: "BuxtonData \<Rightarrow> BuxtonData \<Rightarrow> bool res" where
  "same_value old new = (case new of
       DZero \<Rightarrow> Inl Aborted
     | DString s \<Rightarrow>
         (let n = unat (str_length s) in
          if n = 0 then Inr True
          else (case old of
              DString o' \<Rightarrow>
                (case (str_value o', str_value s) of
                   (Some a, Some b) \<Rightarrow> memcmp_eq n a b
                 | _ \<Rightarrow> Inl NullDeref)
            | DZero \<Rightarrow> Inl NullDeref
            | _ \<Rightarrow> Inl Indeterminate))
     | _ \<Rightarrow> bindE (union_bytes old (length (scalar_bytes new))) (\<lambda>b. Inr (b = scalar_bytes new)))"

text \<open>
  One registered item: whether it is skipped; the item after it was told, and the message for its
  client. The value is copied first, then the message is made.
\<close>

definition unchanged :: "BuxtonData option \<Rightarrow> BuxtonNotification \<Rightarrow> bool res" where
  "unchanged v n = (case (old_data n, v) of
       (Some old, Some new) \<Rightarrow> same_value old new
     | _ \<Rightarrow> Inr False)"

definition copy_or_abort :: "BuxtonData \<Rightarrow> BuxtonData res" where
  "copy_or_abort d =
     bindE (buxton_data_copy d) (\<lambda>c. case c of None \<Rightarrow> Inl Aborted | Some d' \<Rightarrow> Inr d')"

definition tell :: "BuxtonData option \<Rightarrow> BuxtonNotification \<Rightarrow> (BuxtonNotification \<times> bytes) res" where
  "tell v n =
     bindE (case v of None \<Rightarrow> Inr DZero | Some new \<Rightarrow> copy_or_abort new) (\<lambda>stored.
     bindE (buxton_serialize_message (control_code CONTROL_CHANGED) (n_msgid n)
              (case v of None \<Rightarrow> [] | Some new \<Rightarrow> [new])) (\<lambda>r. case r of
         None \<Rightarrow> Inl Aborted
       | Some msg \<Rightarrow> Inr (n\<lparr>old_data := Some stored\<rparr>, msg)))"

definition notify_item :: "BuxtonData option \<Rightarrow> BuxtonNotification \<Rightarrow>
    (BuxtonNotification \<times> bytes) option res" where
  "notify_item v n =
     bindE (unchanged v n) (\<lambda>same.
       if same then Inr None else bindE (tell v n) (\<lambda>r. Inr (Some r)))"

definition fd_of :: "'s BuxtonDaemon \<Rightarrow> nat \<Rightarrow> int option" where
  "fd_of self c = map_option cl_fd (find (\<lambda>cl. cl_id cl = c) (client_list self))"

fun notify_loop :: "(nat \<Rightarrow> int option) \<Rightarrow> BuxtonData option \<Rightarrow> BuxtonNotification list \<Rightarrow>
    (BuxtonNotification list \<times> (int \<times> bytes) list) res" where
  "notify_loop fd v [] = Inr ([], [])"
| "notify_loop fd v (n # ns) =
     bindE (notify_item v n) (\<lambda>r. case r of
       None \<Rightarrow> bindE (notify_loop fd v ns) (\<lambda>(ns', out). Inr (n # ns', out))
     | Some (n', msg) \<Rightarrow> (case fd (n_client n) of
           None \<Rightarrow> Inl NullDeref
         | Some f \<Rightarrow> bindE (notify_loop fd v ns) (\<lambda>(ns', out). Inr (n' # ns', (f, msg) # out))))"

definition buxtond_notify_clients :: "'s BuxtonDaemon \<Rightarrow> BuxtonKey \<Rightarrow> BuxtonData option \<Rightarrow>
    's BuxtonDaemon res" where
  "buxtond_notify_clients self key v =
     bindE (notify_key_name key) (\<lambda>name. case name of
       None \<Rightarrow> Inr self
     | Some key_nm \<Rightarrow>
         (case hm_get (notify_mapping self) key_nm of
            None \<Rightarrow> Inr self
          | Some ns \<Rightarrow>
              bindE (notify_loop (fd_of self) v ns) (\<lambda>(ns', out).
                Inr (self\<lparr>notify_mapping := hm_set (notify_mapping self) key_nm ns',
                          sent := sent self @ out\<rparr>))))"

section \<open>Messages\<close>

text \<open>What a request computes before it is answered.\<close>

record outcome =
  o_response :: int
  o_data :: "BuxtonData option"
  o_list :: "BuxtonData list option"
  o_msgid :: "32 word"

definition plain_outcome :: "int \<Rightarrow> outcome" where
  "plain_outcome r = \<lparr>o_response = r, o_data = None, o_list = None, o_msgid = 0\<rparr>"

text \<open>The first \<open>switch\<close> of \<open>buxtond_handle_message\<close>; \<open>None\<close> is its default branch.\<close>

definition run_request :: "'s env \<Rightarrow> 's BuxtonDaemon \<Rightarrow> client_list_item \<Rightarrow> BuxtonControlMessage \<Rightarrow>
    32 word \<Rightarrow> BuxtonKey \<Rightarrow> BuxtonData option \<Rightarrow> (outcome \<times> 's BuxtonDaemon) option res" where
  "run_request env self client msg msgid key v =
     (let plain = (\<lambda>r. bindE r (\<lambda>(st, d). Inr (Some (plain_outcome st, d))))
      in case msg of
        CONTROL_SET \<Rightarrow> plain (daemon_set_value env self client key v)
      | CONTROL_SET_LABEL \<Rightarrow> plain (daemon_set_label env self client key v)
      | CONTROL_CREATE_GROUP \<Rightarrow> plain (daemon_create_group env self client key)
      | CONTROL_REMOVE_GROUP \<Rightarrow> plain (daemon_remove_group env self client key)
      | CONTROL_UNSET \<Rightarrow> plain (daemon_unset_value env self client key)
      | CONTROL_NOTIFY \<Rightarrow> plain (register_notification env self client key msgid)
      | CONTROL_GET \<Rightarrow> bindE (daemon_get_value env self client key) (\<lambda>(data, st, d).
          Inr (Some (\<lparr>o_response = st, o_data = data, o_list = None, o_msgid = 0\<rparr>, d)))
      | CONTROL_GET_LABEL \<Rightarrow> bindE (daemon_get_label env self client key) (\<lambda>(data, st, d).
          Inr (Some (\<lparr>o_response = st, o_data = data, o_list = None, o_msgid = 0\<rparr>, d)))
      | CONTROL_LIST \<Rightarrow> (case v of
            Some (DString s) \<Rightarrow> bindE (daemon_list_keys env self s) (\<lambda>(l, st, d).
              Inr (Some (\<lparr>o_response = st, o_data = None, o_list = l, o_msgid = 0\<rparr>, d)))
          | _ \<Rightarrow> Inl NullDeref)
      | CONTROL_LIST_NAMES \<Rightarrow> bindE (daemon_list_names env self key) (\<lambda>(l, st, d).
          Inr (Some (\<lparr>o_response = st, o_data = None, o_list = l, o_msgid = 0\<rparr>, d)))
      | CONTROL_UNNOTIFY \<Rightarrow> bindE (unregister_notification self client key) (\<lambda>(m, st, d).
          Inr (Some (\<lparr>o_response = st, o_data = None, o_list = None, o_msgid = m\<rparr>, d)))
      | _ \<Rightarrow> Inr None)"

text \<open>The second \<open>switch\<close>: the parameters of the answer. More than 65535 of them abort.\<close>

definition reply_params :: "BuxtonControlMessage \<Rightarrow> outcome \<Rightarrow> BuxtonData list res" where
  "reply_params msg oc =
     (let status = DInt32 (word_of_int (o_response oc));
          params =
            (case msg of
               CONTROL_GET \<Rightarrow> status # (case o_data oc of None \<Rightarrow> [] | Some d \<Rightarrow> [d])
             | CONTROL_GET_LABEL \<Rightarrow> status # (case o_data oc of None \<Rightarrow> [] | Some d \<Rightarrow> [d])
             | CONTROL_LIST \<Rightarrow> status # (case o_list oc of None \<Rightarrow> [] | Some l \<Rightarrow> l)
             | CONTROL_LIST_NAMES \<Rightarrow> status # (case o_list oc of None \<Rightarrow> [] | Some l \<Rightarrow> l)
             | CONTROL_UNNOTIFY \<Rightarrow> [status, DUInt32 (o_msgid oc)]
             | _ \<Rightarrow> [status])
      in if length params < 65536 then Inr params else Inl Aborted)"

definition serialize_reply :: "32 word \<Rightarrow> BuxtonData list \<Rightarrow> bytes res" where
  "serialize_reply msgid params =
     bindE (buxton_serialize_message (control_code CONTROL_STATUS) msgid params)
       (\<lambda>r. case r of None \<Rightarrow> Inl Aborted | Some b \<Rightarrow> Inr b)"

text \<open>
  The whole handler. \<open>writes h\<close> says whether \<open>_write\<close> of the latest message of the history \<open>h\<close>
  succeeds. The daemon gets its own
  uid back on every path.
\<close>

definition answer :: "'s env \<Rightarrow> ((int \<times> bytes) list \<Rightarrow> bool) \<Rightarrow> 's BuxtonDaemon \<Rightarrow> client_list_item \<Rightarrow> BuxtonControlMessage \<Rightarrow>
    32 word \<Rightarrow> BuxtonKey \<Rightarrow> BuxtonData option \<Rightarrow> (bool \<times> 's BuxtonDaemon) res" where
  "answer env writes self client msg msgid key v =
     bindE (run_request env self client msg msgid key v) (\<lambda>r. case r of
       None \<Rightarrow> Inr (False, self)
     | Some (oc, self1) \<Rightarrow>
         bindE (reply_params msg oc) (\<lambda>params.
         bindE (serialize_reply msgid params) (\<lambda>response_store.
         let self2 = self1\<lparr>sent := sent self1 @ [(cl_fd client, response_store)]\<rparr>
         in if \<not> writes (sent self2) then Inr (False, self2)
            else
              bindE (if msg = CONTROL_SET \<and> o_response oc = 0
                     then buxtond_notify_clients self2 key v
                     else if msg = CONTROL_UNSET \<and> o_response oc = 0
                     then buxtond_notify_clients self2 key None
                     else Inr self2) (\<lambda>self3. Inr (True, self3)))))"

definition buxtond_handle_message :: "'s env \<Rightarrow> ((int \<times> bytes) list \<Rightarrow> bool) \<Rightarrow> 's BuxtonDaemon \<Rightarrow> client_list_item \<Rightarrow>
    bytes \<Rightarrow> nat \<Rightarrow> (bool \<times> 's BuxtonDaemon) res" where
  "buxtond_handle_message env writes self client data sz =
     (let uid = client_uid (buxton self);
          restore = (\<lambda>d. d\<lparr>buxton := (buxton d)\<lparr>client_uid := uid\<rparr>\<rparr>)
      in bindE (buxton_deserialize_message data sz) (\<lambda>m. case m of
           None \<Rightarrow> Inr (False, restore self)
         | Some (msg, msgid, params) \<Rightarrow>
             (case parse_list msg params of
                None \<Rightarrow> Inr (False, restore self)
              | Some (key, v) \<Rightarrow>
                  bindE (answer env writes self client msg msgid key v)
                    (\<lambda>(ret, d). Inr (ret, restore d)))))"

end
