(* ===== verification/Connections.thy ===== *)
theory Connections
  imports Daemon
begin

text \<open>
  The connections of the daemon: writing to a socket (\<open>src/shared/util.c\<close>), the poll set, reading and
  framing of requests and the end of a connection (\<open>src/core/daemon.c\<close>), and one round of the main
  loop (\<open>src/core/main.c\<close>). The kernel is a parameter: what a read delivers, who a peer is, which
  descriptors are ready. File descriptors are \<open>int\<close>s, as in the code.
\<close>

section \<open>Writing to a socket\<close>

text \<open>
  The result of the \<open>i\<close>-th call of \<open>write\<close>: an error, \<open>EAGAIN\<close>, or a number of bytes, which is at
  most what was asked for. The loop may run forever, so its result is optional.
\<close>

datatype write_result = WriteError | WriteAgain | Wrote nat

partial_function (option) write_loop ::
    "(nat \<Rightarrow> write_result) \<Rightarrow> nat \<Rightarrow> bytes \<Rightarrow> nat \<Rightarrow> bytes \<Rightarrow> (bool \<times> bytes) option" where
  [code]: "write_loop w i buf nbytes_out done =
     (if nbytes_out = length buf then Some (True, done)
      else case w i of
        WriteError \<Rightarrow> Some (False, done)
      | WriteAgain \<Rightarrow> write_loop w (Suc i) buf nbytes_out done
      | Wrote k \<Rightarrow>
          (let b = min k (length buf - nbytes_out)
           in write_loop w (Suc i) buf (nbytes_out + b) (done @ take b (drop nbytes_out buf))))"

text \<open>\<open>_write\<close>: whether it succeeded, and the bytes the peer gets.\<close>

definition write_all :: "(nat \<Rightarrow> write_result) \<Rightarrow> bytes \<Rightarrow> (bool \<times> bytes) option" where
  "write_all w buf = write_loop w 0 buf 0 []"

section \<open>The poll set\<close>

abbreviation (input) "SIZEOF_POLLFD \<equiv> 8 :: nat"
abbreviation (input) "SIZEOF_POINTER \<equiv> 8 :: nat"
abbreviation (input) "POLLIN \<equiv> 1 :: nat"
abbreviation (input) "POLLPRI \<equiv> 2 :: nat"

text \<open>Storing beyond the reallocated blocks is a fault.\<close>

definition add_pollfd :: "'s BuxtonDaemon \<Rightarrow> int \<Rightarrow> nat \<Rightarrow> bool \<Rightarrow> 's BuxtonDaemon res" where
  "add_pollfd self fd ev a =
     bindE (assertE (0 \<le> fd)) (\<lambda>_.
       let nfds = length (pollfds self);
           na = greedy_realloc (nfds_alloc self) ((nfds + 1) * SIZEOF_POLLFD);
           aa = greedy_realloc (accepting_alloc self) ((nfds + 1) * SIZEOF_POINTER)
       in if na < (nfds + 1) * SIZEOF_POLLFD \<or> aa < nfds + 1 then Inl OutOfBounds
          else Inr (self\<lparr>nfds_alloc := na, accepting_alloc := aa,
                         pollfds := pollfds self @ [\<lparr>pfd = fd, events = ev, revents = 0\<rparr>],
                         accepting := accepting self @ [a]\<rparr>))"

definition del_pollfd :: "'s BuxtonDaemon \<Rightarrow> nat \<Rightarrow> 's BuxtonDaemon res" where
  "del_pollfd self i =
     bindE (assertE (i < length (pollfds self))) (\<lambda>_.
       Inr (self\<lparr>pollfds := take i (pollfds self) @ drop (Suc i) (pollfds self),
                 accepting := take i (accepting self) @ drop (Suc i) (accepting self)\<rparr>))"

section \<open>The end of a connection\<close>

text \<open>A registered name without its notification aborts the daemon.\<close>

fun drop_notifications :: "nat \<Rightarrow> bytes list \<Rightarrow> (bytes \<times> BuxtonNotification list) list \<Rightarrow>
    (bytes \<times> BuxtonNotification list) list res" where
  "drop_notifications c [] nm = Inr nm"
| "drop_notifications c (key_nm # ks) nm = (case hm_get nm key_nm of
       None \<Rightarrow> Inl Aborted
     | Some n_list \<Rightarrow> (case find_client c n_list of
           None \<Rightarrow> Inl Aborted
         | Some _ \<Rightarrow> drop_notifications c ks (store_list nm key_nm (remove_client c n_list))))"

definition terminate_client :: "'s BuxtonDaemon \<Rightarrow> client_list_item \<Rightarrow> nat \<Rightarrow> 's BuxtonDaemon res" where
  "terminate_client self cl i =
     bindE (case hm_get (client_key_mapping self) (cl_fd cl) of
         None \<Rightarrow> Inr self
       | Some key_list \<Rightarrow>
           bindE (drop_notifications (cl_id cl) key_list (notify_mapping self)) (\<lambda>nm.
             Inr (self\<lparr>notify_mapping := nm,
                       client_key_mapping := snd (hm_remove (client_key_mapping self) (cl_fd cl))\<rparr>)))
       (\<lambda>self1.
     bindE (del_pollfd self1 i) (\<lambda>self2.
       Inr (self2\<lparr>client_list := filter (\<lambda>c. cl_id c \<noteq> cl_id cl) (client_list self2)\<rparr>)))"

section \<open>Reading requests\<close>

text \<open>
  What the kernel delivers on a socket until it would block: blocks of bytes, of which a read takes
  at most what it asked for, and errors. An empty block is the end of the stream.
\<close>

datatype read_event = Bytes bytes | ReadError
datatype read_result = Got bytes | WouldBlock | Failed

fun sock_read :: "nat \<Rightarrow> read_event list \<Rightarrow> read_result \<times> read_event list" where
  "sock_read n [] = (WouldBlock, [])"
| "sock_read n (ReadError # s) = (Failed, s)"
| "sock_read n (Bytes b # s) = (Got (take n b), if length b \<le> n then s else Bytes (drop n b) # s)"

text \<open>\<open>recv\<close> with \<open>MSG_PEEK\<close>; empty unless it returns a positive number.\<close>

fun sock_peek :: "nat \<Rightarrow> read_event list \<Rightarrow> bytes" where
  "sock_peek n (Bytes b # s) = take n b"
| "sock_peek n _ = []"

fun sock_size :: "read_event list \<Rightarrow> nat" where
  "sock_size [] = 0"
| "sock_size (ReadError # s) = Suc (sock_size s)"
| "sock_size (Bytes b # s) = Suc (length b + sock_size s)"

lemma sock_read_less:
  "sock_read n s = (Got b, s') \<Longrightarrow> b \<noteq> [] \<Longrightarrow> sock_size s' < sock_size s"
  by (cases "(n, s)" rule: sock_read.cases) (auto split: if_splits)

text \<open>Storing into the client's buffer, and \<open>realloc\<close> of it: \<open>junk\<close> is what new memory holds.\<close>

definition poke :: "client_list_item \<Rightarrow> nat \<Rightarrow> bytes \<Rightarrow> client_list_item res" where
  "poke cl off b = (case cl_data cl of
       None \<Rightarrow> Inl NullDeref
     | Some d \<Rightarrow>
         if off + length b \<le> length d
         then Inr (cl\<lparr>cl_data := Some (take off d @ b @ drop (off + length b) d)\<rparr>)
         else Inl OutOfBounds)"

definition buffer :: "client_list_item \<Rightarrow> bytes" where
  "buffer cl = (case cl_data cl of None \<Rightarrow> [] | Some d \<Rightarrow> d)"

definition grow :: "(nat \<Rightarrow> byte) \<Rightarrow> nat \<Rightarrow> client_list_item \<Rightarrow> client_list_item" where
  "grow junk n cl =
     cl\<lparr>cl_data := Some (take n (buffer cl) @ map junk [length (buffer cl) ..< n])\<rparr>"

text \<open>The size of the message being read, known once its header is there; the buffer for it.\<close>

definition frame_size :: "client_list_item \<Rightarrow> nat res" where
  "frame_size cl =
     (if cl_size cl = BUXTON_MESSAGE_HEADER_LENGTH
      then buxton_get_message_size (buffer cl) (cl_offset cl)
      else Inr (cl_size cl))"

definition resize :: "(nat \<Rightarrow> byte) \<Rightarrow> nat \<Rightarrow> client_list_item \<Rightarrow> client_list_item" where
  "resize junk sz cl =
     (if sz \<noteq> BUXTON_MESSAGE_HEADER_LENGTH then grow junk sz cl else cl)\<lparr>cl_size := sz\<rparr>"

text \<open>After a message: the same buffer takes the next header.\<close>

definition rewind :: "client_list_item \<Rightarrow> client_list_item" where
  "rewind cl = cl\<lparr>cl_size := BUXTON_MESSAGE_HEADER_LENGTH, cl_offset := 0\<rparr>"

datatype loop_end = Cleanup bool | Terminate

text \<open>The \<open>do\<close> loop of \<open>handle_client\<close>; it ends because every turn consumes input.\<close>

function client_loop :: "'s env \<Rightarrow> ((int \<times> bytes) list \<Rightarrow> bool) \<Rightarrow> (nat \<Rightarrow> byte) \<Rightarrow> nat \<Rightarrow>
    's BuxtonDaemon \<Rightarrow> client_list_item \<Rightarrow> read_event list \<Rightarrow> (loop_end \<times> 's BuxtonDaemon) res" where
  "client_loop env writes junk limit self cl sock =
     (case sock_read (cl_size cl - cl_offset cl) sock of
        (Failed, rest) \<Rightarrow> Inr (Terminate, self)
      | (WouldBlock, rest) \<Rightarrow> Inr (Cleanup False, self)
      | (Got b, rest) \<Rightarrow>
          if b = [] then Inr (Cleanup False, self)
          else
           bindE (poke cl (cl_offset cl) b) (\<lambda>cl0.
           let cl1 = cl0\<lparr>cl_offset := cl_offset cl + length b\<rparr>
           in if cl_offset cl1 < BUXTON_MESSAGE_HEADER_LENGTH
              then client_loop env writes junk limit self cl1 rest
              else
               bindE (frame_size cl1) (\<lambda>sz.
               if cl_size cl1 = BUXTON_MESSAGE_HEADER_LENGTH \<and> (sz = 0 \<or> BUXTON_MESSAGE_MAX_LENGTH < sz)
               then Inr (Terminate, self)
               else
                let cl2 = resize junk sz cl1
                in if cl_offset cl2 < sz then client_loop env writes junk limit self cl2 rest
                   else if sz < cl_offset cl2 then Inl Aborted
                   else
                    bindE (buxtond_handle_message env writes self cl2 (buffer cl2) sz) (\<lambda>(ok, self1).
                    if \<not> ok then Inr (Terminate, self1)
                    else if limit - 1 \<noteq> 0 then
                      client_loop env writes junk (limit - 1) self1 (rewind cl2) rest
                    else Inr (Cleanup (sock_peek 2 rest \<noteq> []), self1)))))"
  by pat_completeness auto

termination
  by (relation "measure (\<lambda>(env, writes, junk, limit, self, cl, sock). sock_size sock)")
    (simp_all add: sock_read_less[OF sym])

declare client_loop.simps [simp del]

text \<open>
  What the kernel says of a peer: \<open>identify_client\<close> fails, faults, or gives the credentials;
  \<open>handle_smack_label\<close> gives the label, or ends the process.
\<close>

record peer =
  peer_cred :: "(32 word \<times> 32 word) option res"
  peer_label :: "BuxtonString option res"

definition authenticate :: "peer \<Rightarrow> client_list_item \<Rightarrow> client_list_item option res" where
  "authenticate peer cl =
     (if cl_uid cl = 0 \<or> cl_pid cl = 0 then
        bindE (peer_cred peer) (\<lambda>cred. case cred of
          None \<Rightarrow> Inr None
        | Some (u, p) \<Rightarrow>
            bindE (peer_label peer) (\<lambda>l. Inr (Some (cl\<lparr>cl_uid := u, cl_pid := p, smack_label := l\<rparr>))))
      else Inr (Some cl))"

text \<open>The item of a client in the list, as it is after the call.\<close>

definition put_client :: "client_list_item \<Rightarrow> 's BuxtonDaemon \<Rightarrow> 's BuxtonDaemon" where
  "put_client cl self =
     self\<lparr>client_list := map (\<lambda>c. if cl_id c = cl_id cl then cl else c) (client_list self)\<rparr>"

text \<open>\<open>socks fd\<close> is what can be read from \<open>fd\<close>. The result says whether more data is waiting.\<close>

definition handle_client :: "'s env \<Rightarrow> ((int \<times> bytes) list \<Rightarrow> bool) \<Rightarrow> (nat \<Rightarrow> byte) \<Rightarrow> peer \<Rightarrow>
    (int \<Rightarrow> read_event list) \<Rightarrow> 's BuxtonDaemon \<Rightarrow> client_list_item \<Rightarrow> nat \<Rightarrow>
    (bool \<times> 's BuxtonDaemon) res" where
  "handle_client env writes junk peer socks self cl i =
     (let cl0 = (if cl_data cl = None
                 then cl\<lparr>cl_data := Some (replicate BUXTON_MESSAGE_HEADER_LENGTH NUL), cl_offset := 0,
                         cl_size := BUXTON_MESSAGE_HEADER_LENGTH\<rparr>
                 else cl);
          seen = sock_peek (cl_size cl0) (socks (cl_fd cl));
          terminate = (\<lambda>d c. bindE (terminate_client d c i) (\<lambda>d'. Inr (False, d')))
      in if seen = [] then terminate self cl0
         else
          bindE (poke cl0 0 seen) (\<lambda>cl1.
          bindE (authenticate peer cl1) (\<lambda>a. case a of
            None \<Rightarrow> terminate self cl1
          | Some cl2 \<Rightarrow>
              if length (pollfds self) \<le> i then Inl OutOfBounds
              else
               bindE (client_loop env writes junk 32 self cl2 (socks (pfd (pollfds self ! i)))) (\<lambda>(e, d). case e of
                 Terminate \<Rightarrow> terminate d cl2
               | Cleanup more_data \<Rightarrow>
                   Inr (more_data, put_client (cl2\<lparr>cl_data := None, cl_size := BUXTON_MESSAGE_HEADER_LENGTH,
                                              cl_offset := 0\<rparr>) d)))))"

section \<open>The main loop\<close>

text \<open>
  What the kernel does in one round: which descriptors are ready, what \<open>accept\<close> gives while a list
  of descriptors is open (the new one, and whether it could be made non-blocking), the pending signal (\<open>None\<close> for a short
  read, else whether it stops the daemon), and the rest as above.
\<close>

record net =
  net_ready :: "int \<Rightarrow> nat"
  net_signal :: "bool option"
  net_accept :: "int list \<Rightarrow> int \<Rightarrow> (int \<times> bool) option"
  net_rules :: SmackFs
  net_socks :: "int \<Rightarrow> read_event list"
  net_peer :: "int \<Rightarrow> peer"
  net_writes :: "(int \<times> bytes) list \<Rightarrow> bool"
  net_junk :: "nat \<Rightarrow> byte"

text \<open>The identity of a new client: a block that no live client occupies.\<close>

definition fresh_id :: "'s BuxtonDaemon \<Rightarrow> nat" where
  "fresh_id self = Suc (foldr max (map cl_id (client_list self)) 0)"

definition accept_client :: "'s BuxtonDaemon \<Rightarrow> int \<Rightarrow> 's BuxtonDaemon res" where
  "accept_client self fd =
     add_pollfd (self\<lparr>client_list :=
         \<lparr>cl_id = fresh_id self, cl_fd = fd, cl_uid = 0, cl_pid = 0, smack_label = None, cl_data = None,
          cl_offset = 0, cl_size = 0\<rparr> # client_list self\<rparr>)
       fd (POLLIN + POLLPRI) False"

text \<open>\<open>Round left\<close>: the loop goes on, with messages left over or not; \<open>Stopped\<close>: a signal ended it;
  \<open>Exited\<close>: the process exited with a failure.\<close>

datatype round_end = Round bool | Stopped | Exited

text \<open>
  The loop over the poll set, from index \<open>i\<close> on. The first argument bounds the number of turns; the
  poll set never grows inside the loop, so its length is enough.
\<close>

fun serve_from :: "'s env \<Rightarrow> net \<Rightarrow> int \<Rightarrow> nat \<Rightarrow> nat \<Rightarrow> bool \<Rightarrow> 's BuxtonDaemon \<Rightarrow>
    (round_end \<times> 's BuxtonDaemon) res" where
  "serve_from env net smackfd 0 i left self = Inr (Round left, self)"
| "serve_from env net smackfd (Suc n) i left self =
     (if length (pollfds self) \<le> i then Inr (Round left, self)
      else if length (accepting self) \<le> i then Inl OutOfBounds
      else
       let p = pollfds self ! i in
       if revents p = 0 then serve_from env net smackfd n (Suc i) left self
       else if pfd p = - 1 then
         bindE (del_pollfd self i) (\<lambda>d. serve_from env net smackfd n (Suc i) left d)
       else if 0 \<le> smackfd \<and> pfd p = smackfd then
         bindE (buxton_cache_smack_rules (net_rules net) (rules (buxton self))) (\<lambda>(ok, st).
           if \<not> ok then Inr (Exited, self)
           else serve_from env net smackfd n (Suc i) left
                  (self\<lparr>buxton := (buxton self)\<lparr>rules := st\<rparr>\<rparr>))
       else if accepting self ! i then
         (case net_accept net (map pfd (pollfds self)) (pfd p) of
            None \<Rightarrow> Inr (Round left, self)
          | Some (fd, nonblock) \<Rightarrow>
              if \<not> nonblock then Inr (Round left, self)
              else bindE (accept_client self fd) (\<lambda>d. Inr (Round left, d)))
       else
         (case find (\<lambda>c. cl_fd c = pfd p) (client_list self) of
            None \<Rightarrow> Inl AssertFailed
          | Some cl \<Rightarrow>
              bindE (handle_client env (net_writes net) (net_junk net) (net_peer net (cl_fd cl))
                       (net_socks net) self cl i) (\<lambda>(more_data, d).
                serve_from env net smackfd n (Suc i) (left \<or> more_data) d)))"

text \<open>One turn of the \<open>for (;;)\<close> loop after a successful \<open>poll\<close>.\<close>

definition poll_round :: "'s env \<Rightarrow> net \<Rightarrow> int \<Rightarrow> 's BuxtonDaemon \<Rightarrow>
    (round_end \<times> 's BuxtonDaemon) res" where
  "poll_round env net smackfd self =
     (let self1 = self\<lparr>pollfds := map (\<lambda>p. p\<lparr>revents := net_ready net (pfd p)\<rparr>) (pollfds self)\<rparr>
      in if pollfds self1 = [] then Inl OutOfBounds
         else if revents (pollfds self1 ! 0) \<noteq> 0 \<and> net_signal net = None then Inr (Exited, self1)
         else if revents (pollfds self1 ! 0) \<noteq> 0 \<and> net_signal net = Some True then Inr (Stopped, self1)
         else serve_from env net smackfd (length (pollfds self1)) 1 False self1)"

text \<open>
  The start: the signal descriptor, the descriptors of \<open>systemd\<close> (or the daemon's own socket), and
  the descriptor that watches the Smack rules.
\<close>

datatype fd_kind = Fifo | UnixStream | OtherSocket | NoSocket

fun add_listeners :: "(int \<times> fd_kind) list \<Rightarrow> 's BuxtonDaemon \<Rightarrow> 's BuxtonDaemon res" where
  "add_listeners [] self = Inr self"
| "add_listeners ((fd, k) # fds) self =
     bindE (case k of
         Fifo \<Rightarrow> add_pollfd self fd POLLIN False
       | UnixStream \<Rightarrow> add_pollfd self fd (POLLIN + POLLPRI) True
       | OtherSocket \<Rightarrow> add_pollfd self fd (POLLIN + POLLPRI) True
       | NoSocket \<Rightarrow> Inr self) (add_listeners fds)"

definition daemon_start :: "'s BuxtonControl \<Rightarrow> int \<Rightarrow> (int \<times> fd_kind) list \<Rightarrow> int \<Rightarrow>
    's BuxtonDaemon res" where
  "daemon_start ctl sigfd fds smackfd =
     bindE (add_pollfd \<lparr>nfds_alloc = 0, accepting_alloc = 0, accepting = [], pollfds = [],
                        client_list = [], notify_mapping = [], client_key_mapping = [],
                        buxton = ctl, sent = []\<rparr> sigfd POLLIN False) (\<lambda>d0.
     bindE (add_listeners fds d0) (\<lambda>d1.
       if 0 \<le> smackfd then add_pollfd d1 smackfd (POLLIN + POLLPRI) False else Inr d1))"

end
