(* ===== verification/Protocol.thy ===== *)
theory Protocol
  imports Connections
begin

text \<open>
  The client side of the protocol, \<open>src/shared/protocol.c\<close>: message ids, the tables of callbacks, the
  requests and the replies. A callback is known by a number; running one is recorded, with what it is
  given, in \<open>ran\<close>. Time is in seconds. The mutex is not modelled: calls are taken one after the other.
\<close>

section \<open>Callbacks\<close>

record notify_value =
  nv_data :: nat
  nv_cb :: "nat option"
  nv_time :: int
  nv_type :: BuxtonControlMessage
  nv_key :: "BuxtonKey option"

record BuxtonResponse =
  r_type :: BuxtonControlMessage
  r_data :: "BuxtonData list"
  r_key :: "BuxtonKey option"

type_synonym callback_table = "(32 word \<times> notify_value) list"

text \<open>The variables of the file, what was written to the daemon, and the callbacks run.\<close>

record client_state =
  cs_msgid :: "32 word"
  callbacks :: "callback_table option"
  notify_callbacks :: "callback_table option"
  written :: "bytes list"
  ran :: "(nat \<times> nat \<times> BuxtonResponse) list"

text \<open>
  \<open>hashmap_put\<close> of a block that was just allocated: values are compared as pointers, so it is never the
  value that is already there.
\<close>

definition put_block :: "callback_table \<Rightarrow> 32 word \<Rightarrow> notify_value \<Rightarrow> int \<times> callback_table" where
  "put_block m k nv = (case hm_get m k of None \<Rightarrow> (1, m @ [(k, nv)]) | Some _ \<Rightarrow> (- EEXIST, m))"

definition TIMEOUT :: int where
  "TIMEOUT = 3"

definition get_msgid :: "client_state \<Rightarrow> 32 word \<times> client_state" where
  "get_msgid st = (cs_msgid st, st\<lparr>cs_msgid := cs_msgid st + 1\<rparr>)"

text \<open>The result is true only for the call that makes the tables.\<close>

definition setup_callbacks :: "client_state \<Rightarrow> bool \<times> client_state" where
  "setup_callbacks st =
     (if callbacks st \<noteq> None \<and> notify_callbacks st \<noteq> None then (False, st)
      else (True, st\<lparr>callbacks := Some [], notify_callbacks := Some []\<rparr>))"

definition cleanup_callbacks :: "client_state \<Rightarrow> client_state" where
  "cleanup_callbacks st = st\<lparr>callbacks := None, notify_callbacks := None\<rparr>"

text \<open>The array handed to a callback holds at most 65535 values.\<close>

definition run_callback :: "nat option \<Rightarrow> nat \<Rightarrow> BuxtonData list \<Rightarrow> BuxtonControlMessage \<Rightarrow> BuxtonKey option \<Rightarrow>
    client_state \<Rightarrow> client_state" where
  "run_callback callback data list type key st =
     (case callback of
        None \<Rightarrow> st
      | Some cb \<Rightarrow>
          if 65535 < length list then st
          else st\<lparr>ran := ran st @ [(cb, data, \<lparr>r_type = type, r_data = list, r_key = key\<rparr>)]\<rparr>)"

definition reap_callbacks :: "int \<Rightarrow> client_state \<Rightarrow> client_state" where
  "reap_callbacks now st =
     st\<lparr>callbacks := map_option (filter (\<lambda>(_, nv). \<not> now - nv_time nv > TIMEOUT)) (callbacks st)\<rparr>"

text \<open>\<open>writes\<close> says whether \<open>_write\<close> of the last message succeeds.\<close>

definition send_message :: "allocator \<Rightarrow> (bytes list \<Rightarrow> bool) \<Rightarrow> int \<Rightarrow> bytes \<Rightarrow> nat option \<Rightarrow> nat \<Rightarrow> 32 word \<Rightarrow>
    BuxtonControlMessage \<Rightarrow> BuxtonKey option \<Rightarrow> client_state \<Rightarrow> (bool \<times> client_state) res" where
  "send_message slack writes now msg callback data msgid type key st =
     bindE (case key of
         None \<Rightarrow> Inr None
       | Some k \<Rightarrow> bindE (buxton_key_copy slack k) (\<lambda>k'. Inr (Some k'))) (\<lambda>k.
     let nv = \<lparr>nv_data = data, nv_cb = callback, nv_time = now, nv_type = type, nv_key = k\<rparr>;
         st1 = reap_callbacks now st
     in case callbacks st1 of
          None \<Rightarrow> Inl AssertFailed
        | Some cbs \<Rightarrow>
            (let (s, cbs') = put_block cbs msgid nv; st2 = st1\<lparr>callbacks := Some cbs'\<rparr>
             in if s < 1 then Inr (False, st2)
                else let st3 = st2\<lparr>written := written st2 @ [msg]\<rparr>
                     in Inr (writes (written st3), st3)))"

section \<open>Replies\<close>

definition table_get :: "callback_table option \<Rightarrow> 32 word \<Rightarrow> notify_value option" where
  "table_get t k = (case t of None \<Rightarrow> None | Some m \<Rightarrow> hm_get m k)"

definition table_remove :: "callback_table option \<Rightarrow> 32 word \<Rightarrow> callback_table option" where
  "table_remove t k = map_option (\<lambda>m. snd (hm_remove m k)) t"

text \<open>A status of 0; the list is not looked at before it is read.\<close>

definition status_zero :: "BuxtonData list \<Rightarrow> bool res" where
  "status_zero list = (case list of
       [] \<Rightarrow> Inl NullDeref
     | d # _ \<Rightarrow> Inr (case d of DInt32 w \<Rightarrow> w = 0 | _ \<Rightarrow> False))"

text \<open>\<open>list[2].store.d_uint32\<close>, whatever the value is.\<close>

definition third_uint32 :: "BuxtonData list \<Rightarrow> 32 word res" where
  "third_uint32 list =
     (if length list \<le> 2 then Inl OutOfBounds
      else bindE (union_bytes (list ! 2) 4) (\<lambda>b. Inr (word_of_nat (le_nat b))))"

definition handle_callback_response :: "BuxtonControlMessage \<Rightarrow> 32 word \<Rightarrow> BuxtonData list \<Rightarrow> client_state \<Rightarrow>
    client_state res" where
  "handle_callback_response msg msgid list st =
     (if msg = CONTROL_CHANGED then
        (case table_get (notify_callbacks st) msgid of
           None \<Rightarrow> Inr st
         | Some nv \<Rightarrow> Inr (run_callback (nv_cb nv) (nv_data nv) list CONTROL_CHANGED (nv_key nv) st))
      else
        (case table_get (callbacks st) msgid of
           None \<Rightarrow> Inr st
         | Some nv \<Rightarrow>
             (let st1 = st\<lparr>callbacks := table_remove (callbacks st) msgid\<rparr>;
                  run = run_callback (nv_cb nv) (nv_data nv) list (nv_type nv) (nv_key nv)
              in if nv_type nv = CONTROL_NOTIFY then
                   bindE (status_zero list) (\<lambda>ok.
                     if \<not> ok then Inr (run st1)
                     else (case notify_callbacks st1 of
                         None \<Rightarrow> Inl AssertFailed
                       | Some m \<Rightarrow>
                           (let (r, m') = put_block m msgid nv
                            in if 0 \<le> r then Inr (st1\<lparr>notify_callbacks := Some m'\<rparr>) else Inr (run st1))))
                 else if nv_type nv = CONTROL_UNNOTIFY then
                   bindE (status_zero list) (\<lambda>ok.
                     if \<not> ok then Inr (run st1)
                     else bindE (third_uint32 list) (\<lambda>m.
                       Inr (st1\<lparr>notify_callbacks := table_remove (notify_callbacks st1) m\<rparr>)))
                 else Inr (run st1))))"

text \<open>
  A whole message of \<open>sz\<close> bytes: the number it adds to \<open>handled\<close>, and whether \<open>r_list\<close> still points to
  the block of this message, which is freed at the end of the turn. The decoder leaves \<open>r_list\<close> alone
  when it fails, so that a block of the turn before is freed again.
\<close>

definition handle_reply :: "bytes \<Rightarrow> nat \<Rightarrow> bool \<Rightarrow> client_state \<Rightarrow> (nat \<times> bool \<times> client_state) res" where
  "handle_reply response sz stale st =
     bindE (buxton_deserialize_message response sz) (\<lambda>m. case m of
       None \<Rightarrow> if stale then Inl DoubleFree else Inr (0, False, st)
     | Some (r_msg, r_msgid, r_list) \<Rightarrow>
         if \<not> (r_msg = CONTROL_STATUS \<and> r_list \<noteq> [] \<and> data_type (hd r_list) = BUXTON_TYPE_INT32) \<and>
            r_msg \<noteq> CONTROL_CHANGED
         then Inr (1, r_list \<noteq> [], st)
         else bindE (handle_callback_response r_msg r_msgid r_list st) (\<lambda>st'. Inr (1, r_list \<noteq> [], st')))"

text \<open>The buffer of a reply, as the local variables of \<open>buxton_wire_handle_response\<close>.\<close>

record reply_buffer =
  rb_data :: bytes
  rb_offset :: nat
  rb_size :: nat

definition empty_reply :: reply_buffer where
  "empty_reply = \<lparr>rb_data = replicate BUXTON_MESSAGE_HEADER_LENGTH NUL, rb_offset = 0,
     rb_size = BUXTON_MESSAGE_HEADER_LENGTH\<rparr>"

text \<open>
  The loop; \<open>sock\<close> is what the daemon sends, as in \<open>client_loop\<close>. The result is \<open>handled\<close>, or -1 for a
  message of an impossible size.
\<close>

function wire_loop :: "(nat \<Rightarrow> byte) \<Rightarrow> reply_buffer \<Rightarrow> bool \<Rightarrow> nat \<Rightarrow> client_state \<Rightarrow> read_event list \<Rightarrow>
    (int \<times> client_state) res" where
  "wire_loop junk rb stale handled st sock =
     (case sock_read (rb_size rb - rb_offset rb) sock of
        (Failed, rest) \<Rightarrow> Inr (int handled, st)
      | (WouldBlock, rest) \<Rightarrow> Inr (int handled, st)
      | (Got b, rest) \<Rightarrow>
          if b = [] then Inr (int handled, st)
          else if length (rb_data rb) < rb_offset rb + length b then Inl OutOfBounds
          else
           let response = take (rb_offset rb) (rb_data rb) @ b @ drop (rb_offset rb + length b) (rb_data rb);
               offset = rb_offset rb + length b
           in if offset < BUXTON_MESSAGE_HEADER_LENGTH
              then wire_loop junk \<lparr>rb_data = response, rb_offset = offset, rb_size = rb_size rb\<rparr> stale handled st rest
              else
               bindE (if rb_size rb = BUXTON_MESSAGE_HEADER_LENGTH then buxton_get_message_size response offset
                      else Inr (rb_size rb)) (\<lambda>sz.
               if rb_size rb = BUXTON_MESSAGE_HEADER_LENGTH \<and> (sz = 0 \<or> BUXTON_MESSAGE_MAX_LENGTH < sz)
               then Inr (- 1, st)
               else
                let block = (if sz \<noteq> BUXTON_MESSAGE_HEADER_LENGTH
                             then take sz response @ map junk [length response ..< sz] else response)
                in if sz \<noteq> offset
                   then wire_loop junk \<lparr>rb_data = block, rb_offset = offset, rb_size = sz\<rparr> stale handled st rest
                   else
                    bindE (handle_reply block sz stale st) (\<lambda>(n, stale', st').
                      wire_loop junk \<lparr>rb_data = block, rb_offset = 0, rb_size = BUXTON_MESSAGE_HEADER_LENGTH\<rparr>
                        stale' (handled + n) st' rest)))"
  by pat_completeness auto

termination
  by (relation "measure (\<lambda>(junk, rb, stale, handled, st, sock). sock_size sock)")
    (simp_all add: sock_read_less[OF sym])

declare wire_loop.simps [simp del]

definition buxton_wire_handle_response :: "(nat \<Rightarrow> byte) \<Rightarrow> int \<Rightarrow> read_event list \<Rightarrow> client_state \<Rightarrow>
    (int \<times> client_state) res" where
  "buxton_wire_handle_response junk now sock st =
     wire_loop junk empty_reply False 0 (reap_callbacks now st) sock"

text \<open>\<open>polled\<close> is what \<open>poll\<close> returns, with \<open>errno\<close> when that is negative.\<close>

definition ETIME :: int where
  "ETIME = 62"

definition buxton_wire_get_response :: "(nat \<Rightarrow> byte) \<Rightarrow> int \<Rightarrow> int \<times> int \<Rightarrow> read_event list \<Rightarrow> client_state \<Rightarrow>
    (int \<times> client_state) res" where
  "buxton_wire_get_response junk now polled sock st =
     (let (r, errno) = polled
      in if r = 0 then Inr (- ETIME, st)
         else if r < 0 then Inr (- errno, st)
         else buxton_wire_handle_response junk now sock st)"

section \<open>Requests\<close>

text \<open>
  What the functions of the client library give to a request: where copies get their slack, whether
  \<open>_write\<close> succeeds, the time, the callback and its data.
\<close>

record request_env =
  rq_slack :: allocator
  rq_writes :: "bytes list \<Rightarrow> bool"
  rq_now :: int
  rq_callback :: "nat option"
  rq_data :: nat

text \<open>The end of every request: its parameters are encoded and sent.\<close>

definition send_request :: "request_env \<Rightarrow> BuxtonControlMessage \<Rightarrow> 32 word \<Rightarrow> BuxtonData list \<Rightarrow> BuxtonKey option \<Rightarrow>
    client_state \<Rightarrow> (bool \<times> client_state) res" where
  "send_request rq type msgid list key st =
     bindE (buxton_serialize_message (control_code type) msgid list) (\<lambda>send. case send of
       None \<Rightarrow> Inr (False, st)
     | Some msg \<Rightarrow> send_message (rq_slack rq) (rq_writes rq) (rq_now rq) msg (rq_callback rq) (rq_data rq) msgid type key st)"

text \<open>The value behind the pointer \<open>value\<close>, by the type of the key; other types leave the union unset.\<close>

definition value_behind :: "BuxtonDataType \<Rightarrow> bytes \<Rightarrow> BuxtonData res" where
  "value_behind t value =
     (if t = BUXTON_TYPE_STRING then
        bindE (cstr value) (\<lambda>s. Inr (DString \<lparr>str_value = Some value, str_length = word_of_nat (length s) + 1\<rparr>))
      else bindE (read_scalar t value 0) (\<lambda>d. Inr (case d of None \<Rightarrow> DZero | Some x \<Rightarrow> x)))"

definition buxton_wire_set_value :: "request_env \<Rightarrow> BuxtonKey \<Rightarrow> bytes \<Rightarrow> client_state \<Rightarrow> (bool \<times> client_state) res" where
  "buxton_wire_set_value rq key value st =
     (let (msgid, st) = get_msgid st
      in bindE (value_behind (key_type key) value) (\<lambda>d_value.
           send_request rq CONTROL_SET msgid
             [DString (key_layer key), DString (key_group key), DString (key_name key), d_value] (Some key) st))"

definition buxton_wire_set_label :: "request_env \<Rightarrow> BuxtonKey \<Rightarrow> BuxtonString \<Rightarrow> client_state \<Rightarrow>
    (bool \<times> client_state) res" where
  "buxton_wire_set_label rq key value st =
     (let (msgid, st) = get_msgid st
      in send_request rq CONTROL_SET_LABEL msgid
           ([DString (key_layer key), DString (key_group key)] @
            (if str_value (key_name key) \<noteq> None then [DString (key_name key)] else []) @ [DString value]) (Some key) st)"

definition buxton_wire_create_group :: "request_env \<Rightarrow> BuxtonKey \<Rightarrow> client_state \<Rightarrow> (bool \<times> client_state) res" where
  "buxton_wire_create_group rq key st =
     (let (msgid, st) = get_msgid st
      in send_request rq CONTROL_CREATE_GROUP msgid [DString (key_layer key), DString (key_group key)] (Some key) st)"

definition buxton_wire_remove_group :: "request_env \<Rightarrow> BuxtonKey \<Rightarrow> client_state \<Rightarrow> (bool \<times> client_state) res" where
  "buxton_wire_remove_group rq key st =
     (let (msgid, st) = get_msgid st
      in send_request rq CONTROL_REMOVE_GROUP msgid [DString (key_layer key), DString (key_group key)] (Some key) st)"

definition buxton_wire_get_value :: "request_env \<Rightarrow> BuxtonKey \<Rightarrow> client_state \<Rightarrow> (bool \<times> client_state) res" where
  "buxton_wire_get_value rq key st =
     (let (msgid, st) = get_msgid st
      in send_request rq CONTROL_GET msgid
           ((if str_value (key_layer key) \<noteq> None then [DString (key_layer key)] else []) @
            [DString (key_group key), DString (key_name key), DUInt32 (key_type key)]) (Some key) st)"

definition buxton_wire_get_label :: "request_env \<Rightarrow> BuxtonKey \<Rightarrow> client_state \<Rightarrow> (bool \<times> client_state) res" where
  "buxton_wire_get_label rq key st =
     (let (msgid, st) = get_msgid st
      in send_request rq CONTROL_GET_LABEL msgid
           ([DString (key_layer key), DString (key_group key)] @
            (if str_value (key_name key) \<noteq> None then [DString (key_name key)] else [])) (Some key) st)"

definition buxton_wire_unset_value :: "request_env \<Rightarrow> BuxtonKey \<Rightarrow> client_state \<Rightarrow> (bool \<times> client_state) res" where
  "buxton_wire_unset_value rq key st =
     (let (msgid, st) = get_msgid st
      in send_request rq CONTROL_UNSET msgid
           [DString (key_layer key), DString (key_group key), DString (key_name key), DUInt32 (key_type key)]
           (Some key) st)"

definition buxton_wire_list_keys :: "request_env \<Rightarrow> BuxtonString \<Rightarrow> client_state \<Rightarrow> (bool \<times> client_state) res" where
  "buxton_wire_list_keys rq layer st =
     (let (msgid, st) = get_msgid st in send_request rq CONTROL_LIST msgid [DString layer] None st)"

definition buxton_wire_list_names :: "request_env \<Rightarrow> BuxtonString \<Rightarrow> BuxtonString \<Rightarrow> BuxtonString \<Rightarrow> client_state \<Rightarrow>
    (bool \<times> client_state) res" where
  "buxton_wire_list_names rq layer grp prefix st =
     (let (msgid, st) = get_msgid st
      in send_request rq CONTROL_LIST_NAMES msgid [DString layer, DString grp, DString prefix] None st)"

definition buxton_wire_register_notification :: "request_env \<Rightarrow> BuxtonKey \<Rightarrow> client_state \<Rightarrow>
    (bool \<times> client_state) res" where
  "buxton_wire_register_notification rq key st =
     (let (msgid, st) = get_msgid st
      in send_request rq CONTROL_NOTIFY msgid
           [DString (key_group key), DString (key_name key), DUInt32 (key_type key)] (Some key) st)"

definition buxton_wire_unregister_notification :: "request_env \<Rightarrow> BuxtonKey \<Rightarrow> client_state \<Rightarrow>
    (bool \<times> client_state) res" where
  "buxton_wire_unregister_notification rq key st =
     (let (msgid, st) = get_msgid st
      in send_request rq CONTROL_UNNOTIFY msgid
           [DString (key_group key), DString (key_name key), DUInt32 (key_type key)] (Some key) st)"

end
