(* ===== verification/Lbuxton.thy ===== *)
theory Lbuxton
  imports Protocol
begin

text \<open>
  The client library, \<open>src/libbuxton/lbuxton.c\<close>: keys, the calls of the API with their checks, and the
  accessors of a response. \<open>None\<close> is a NULL argument.
\<close>

section \<open>Keys\<close>

text \<open>\<open>key_hash\<close> holds the keys that are not freed; a key is known by a number.\<close>

record library_state =
  ls_client :: client_state
  key_hash :: "(nat \<times> BuxtonKey) list option"
  key_count :: nat

definition packed :: "bytes option \<Rightarrow> BuxtonString" where
  "packed s = (case s of None \<Rightarrow> null_string | Some t \<Rightarrow> buxton_string_pack t)"

text \<open>The arguments are C strings without their NUL.\<close>

definition buxton_key_create :: "bytes option \<Rightarrow> bytes option \<Rightarrow> bytes option \<Rightarrow> BuxtonDataType \<Rightarrow>
    library_state \<Rightarrow> nat option \<times> library_state" where
  "buxton_key_create grp name layer type st =
     (if grp = None then (None, st)
      else if type \<le> BUXTON_TYPE_MIN \<or> BUXTON_TYPE_MAX \<le> type then (None, st)
      else if name = None \<and> type \<noteq> BUXTON_TYPE_STRING \<and> type \<noteq> BUXTON_TYPE_UNSET then (None, st)
      else
       let keys = (case key_hash st of None \<Rightarrow> [] | Some m \<Rightarrow> m);
           key = \<lparr>key_group = packed grp, key_name = packed name, key_layer = packed layer, key_type = type\<rparr>
       in (Some (key_count st), st\<lparr>key_hash := Some (snd (hm_put keys (key_count st) key)), key_count := key_count st + 1\<rparr>))"

definition find_key :: "nat option \<Rightarrow> library_state \<Rightarrow> BuxtonKey option" where
  "find_key k st = (case k of None \<Rightarrow> None | Some i \<Rightarrow> (case key_hash st of None \<Rightarrow> None | Some m \<Rightarrow> hm_get m i))"

definition buxton_key_free :: "nat option \<Rightarrow> library_state \<Rightarrow> library_state res" where
  "buxton_key_free k st = (case k of
       None \<Rightarrow> Inr st
     | Some i \<Rightarrow>
         (if find_key k st = None then Inl DoubleFree
          else Inr (st\<lparr>key_hash := map_option (\<lambda>m. snd (hm_remove m i)) (key_hash st)\<rparr>)))"

text \<open>The accessors of a key; no key gives NULL, or the type -1.\<close>

definition buxton_key_get_group :: "BuxtonKey option \<Rightarrow> bytes option res" where
  "buxton_key_get_group key = (case key of None \<Rightarrow> Inr None | Some k \<Rightarrow> get_group k)"

definition buxton_key_get_name :: "BuxtonKey option \<Rightarrow> bytes option res" where
  "buxton_key_get_name key = (case key of None \<Rightarrow> Inr None | Some k \<Rightarrow> get_name k)"

definition buxton_key_get_layer :: "BuxtonKey option \<Rightarrow> bytes option res" where
  "buxton_key_get_layer key = (case key of None \<Rightarrow> Inr None | Some k \<Rightarrow> get_layer k)"

definition buxton_key_get_type :: "BuxtonKey option \<Rightarrow> BuxtonDataType" where
  "buxton_key_get_type key = (case key of None \<Rightarrow> - 1 | Some k \<Rightarrow> key_type k)"

text \<open>Closing a connection frees every key of the process.\<close>

definition buxton_close :: "bool \<Rightarrow> library_state \<Rightarrow> library_state" where
  "buxton_close client st =
     st\<lparr>key_hash := None, ls_client := (if client then cleanup_callbacks (ls_client st) else ls_client st)\<rparr>"

text \<open>\<open>buxton_open\<close> once the socket is connected.\<close>

definition buxton_open :: "bool \<Rightarrow> int \<Rightarrow> library_state \<Rightarrow> int \<times> library_state" where
  "buxton_open connected fd st =
     (if \<not> connected then (- 1, st)
      else (let (ok, c) = setup_callbacks (ls_client st)
            in (if ok then fd else - 1, st\<lparr>ls_client := c\<rparr>)))"

section \<open>Calls\<close>

text \<open>A synchronous call waits for one batch of replies.\<close>

record call_env = request_env +
  ce_sync :: bool
  ce_junk :: "nat \<Rightarrow> byte"
  ce_polled :: "int \<times> int"
  ce_sock :: "read_event list"
  ce_now :: int

definition finish_call :: "call_env \<Rightarrow> (bool \<times> client_state) res \<Rightarrow> (int \<times> client_state) res" where
  "finish_call ce r =
     bindE r (\<lambda>(ok, st).
       if \<not> ok then Inr (- 1, st)
       else if ce_sync ce then
         bindE (buxton_wire_get_response (ce_junk ce) (ce_now ce) (ce_polled ce) (ce_sock ce) st) (\<lambda>(ret, st).
           Inr (if ret \<le> 0 then - 1 else 0, st))
       else Inr (0, st))"

definition type_out_of_range :: "BuxtonDataType \<Rightarrow> bool" where
  "type_out_of_range t \<longleftrightarrow> t \<le> BUXTON_TYPE_MIN \<or> BUXTON_TYPE_MAX \<le> t"

abbreviation (input) "rq_of ce \<equiv> request_env.truncate ce"

definition buxton_get_value :: "call_env \<Rightarrow> BuxtonKey option \<Rightarrow> client_state \<Rightarrow> (int \<times> client_state) res" where
  "buxton_get_value ce key st = (case key of
       None \<Rightarrow> Inr (EINVAL, st)
     | Some k \<Rightarrow>
         if str_value (key_group k) = None \<or> str_value (key_name k) = None \<or> type_out_of_range (key_type k)
         then Inr (EINVAL, st)
         else finish_call ce (buxton_wire_get_value (rq_of ce) k st))"

definition buxton_register_notification :: "call_env \<Rightarrow> BuxtonKey option \<Rightarrow> client_state \<Rightarrow> (int \<times> client_state) res" where
  "buxton_register_notification ce key st = (case key of
       None \<Rightarrow> Inr (EINVAL, st)
     | Some k \<Rightarrow>
         if str_value (key_group k) = None \<or> str_value (key_name k) = None \<or> type_out_of_range (key_type k)
         then Inr (EINVAL, st)
         else finish_call ce (buxton_wire_register_notification (rq_of ce) k st))"

definition buxton_unregister_notification :: "call_env \<Rightarrow> BuxtonKey option \<Rightarrow> client_state \<Rightarrow> (int \<times> client_state) res" where
  "buxton_unregister_notification ce key st = (case key of
       None \<Rightarrow> Inr (EINVAL, st)
     | Some k \<Rightarrow>
         if str_value (key_group k) = None \<or> str_value (key_name k) = None \<or> type_out_of_range (key_type k)
         then Inr (EINVAL, st)
         else finish_call ce (buxton_wire_unregister_notification (rq_of ce) k st))"

definition buxton_set_value :: "call_env \<Rightarrow> BuxtonKey option \<Rightarrow> bytes option \<Rightarrow> client_state \<Rightarrow>
    (int \<times> client_state) res" where
  "buxton_set_value ce key v st = (case (key, v) of
       (Some k, Some value) \<Rightarrow>
         if str_value (key_group k) = None \<or> str_value (key_name k) = None \<or> str_value (key_layer k) = None \<or>
            type_out_of_range (key_type k) \<or> key_type k = BUXTON_TYPE_UNSET
         then Inr (EINVAL, st)
         else finish_call ce (buxton_wire_set_value (rq_of ce) k value st)
     | _ \<Rightarrow> Inr (EINVAL, st))"

definition buxton_set_label :: "call_env \<Rightarrow> BuxtonKey option \<Rightarrow> bytes option \<Rightarrow> client_state \<Rightarrow>
    (int \<times> client_state) res" where
  "buxton_set_label ce key v st = (case (key, v) of
       (Some k, Some value) \<Rightarrow>
         if str_value (key_group k) = None \<or> str_value (key_layer k) = None then Inr (EINVAL, st)
         else finish_call ce (buxton_wire_set_label (rq_of ce) k (buxton_string_pack value) st)
     | _ \<Rightarrow> Inr (EINVAL, st))"

definition buxton_get_label :: "call_env \<Rightarrow> BuxtonKey option \<Rightarrow> client_state \<Rightarrow> (int \<times> client_state) res" where
  "buxton_get_label ce key st = (case key of
       None \<Rightarrow> Inr (EINVAL, st)
     | Some k \<Rightarrow>
         if str_value (key_group k) = None \<or> str_value (key_layer k) = None \<or> type_out_of_range (key_type k)
         then Inr (EINVAL, st)
         else finish_call ce (buxton_wire_get_label (rq_of ce) k st))"

definition buxton_create_group :: "call_env \<Rightarrow> BuxtonKey option \<Rightarrow> client_state \<Rightarrow> (int \<times> client_state) res" where
  "buxton_create_group ce key st = (case key of
       None \<Rightarrow> Inr (EINVAL, st)
     | Some k \<Rightarrow>
         if str_value (key_group k) = None \<or> str_value (key_name k) \<noteq> None \<or> str_value (key_layer k) = None
         then Inr (EINVAL, st)
         else finish_call ce (buxton_wire_create_group (rq_of ce) k st))"

definition buxton_remove_group :: "call_env \<Rightarrow> BuxtonKey option \<Rightarrow> client_state \<Rightarrow> (int \<times> client_state) res" where
  "buxton_remove_group ce key st = (case key of
       None \<Rightarrow> Inr (EINVAL, st)
     | Some k \<Rightarrow>
         if str_value (key_group k) = None \<or> str_value (key_name k) \<noteq> None \<or> str_value (key_layer k) = None
         then Inr (EINVAL, st)
         else finish_call ce (buxton_wire_remove_group (rq_of ce) k st))"

definition buxton_client_list_keys :: "call_env \<Rightarrow> bytes option \<Rightarrow> client_state \<Rightarrow> (int \<times> client_state) res" where
  "buxton_client_list_keys ce layer_nm st = (case layer_nm of
       None \<Rightarrow> Inr (EINVAL, st)
     | Some l \<Rightarrow> finish_call ce (buxton_wire_list_keys (rq_of ce) (buxton_string_pack l) st))"

definition buxton_list_names :: "call_env \<Rightarrow> bytes option \<Rightarrow> bytes option \<Rightarrow> bytes option \<Rightarrow> client_state \<Rightarrow>
    (int \<times> client_state) res" where
  "buxton_list_names ce layer_nm group_name prefix_filter st = (case layer_nm of
       None \<Rightarrow> Inr (EINVAL, st)
     | Some l \<Rightarrow>
         finish_call ce (buxton_wire_list_names (rq_of ce) (buxton_string_pack l) (packed group_name)
           (packed prefix_filter) st))"

definition buxton_unset_value :: "call_env \<Rightarrow> BuxtonKey option \<Rightarrow> client_state \<Rightarrow> (int \<times> client_state) res" where
  "buxton_unset_value ce key st = (case key of
       None \<Rightarrow> Inr (EINVAL, st)
     | Some k \<Rightarrow>
         if str_value (key_group k) = None \<or> str_value (key_name k) = None \<or> str_value (key_layer k) = None \<or>
            type_out_of_range (key_type k)
         then Inr (EINVAL, st)
         else finish_call ce (buxton_wire_unset_value (rq_of ce) k st))"

section \<open>Responses\<close>

text \<open>\<open>None\<close> is -1.\<close>

definition buxton_response_type :: "BuxtonResponse option \<Rightarrow> BuxtonControlMessage option" where
  "buxton_response_type response = map_option r_type response"

text \<open>\<open>buxton_array_get\<close>: NULL past the end.\<close>

definition item :: "BuxtonResponse \<Rightarrow> nat \<Rightarrow> BuxtonData option" where
  "item r i = (if i < length (r_data r) then Some (r_data r ! i) else None)"

definition buxton_response_status :: "BuxtonResponse option \<Rightarrow> int res" where
  "buxton_response_status response = (case response of
       None \<Rightarrow> Inr (- 1)
     | Some r \<Rightarrow>
         if r_type r = CONTROL_CHANGED then Inr 0
         else (case item r 0 of
             None \<Rightarrow> Inr (- 1)
           | Some d \<Rightarrow> bindE (union_bytes d 4) (\<lambda>b. Inr (sint (word_of_nat (le_nat b) :: 32 word)))))"

definition buxton_response_key :: "allocator \<Rightarrow> BuxtonResponse option \<Rightarrow> BuxtonKey option res" where
  "buxton_response_key slack response = (case response of
       None \<Rightarrow> Inr None
     | Some r \<Rightarrow>
         if r_type r = CONTROL_LIST_NAMES then Inr None
         else (case r_key r of
             None \<Rightarrow> Inr None
           | Some k \<Rightarrow> bindE (buxton_key_copy slack k) (\<lambda>k'. Inr (Some k'))))"

text \<open>The item that \<open>buxton_response_value\<close> and \<open>buxton_response_value_type\<close> look at.\<close>

definition value_item :: "BuxtonResponse \<Rightarrow> BuxtonData option" where
  "value_item r =
     (if r_type r = CONTROL_GET \<or> r_type r = CONTROL_GET_LABEL then item r 1
      else if r_type r = CONTROL_CHANGED then item r 0
      else None)"

text \<open>A copy of the value; a string is copied with \<open>strdup\<close>.\<close>

definition buxton_response_value :: "BuxtonResponse option \<Rightarrow> BuxtonData option res" where
  "buxton_response_value response = (case response of
       None \<Rightarrow> Inr None
     | Some r \<Rightarrow> (case value_item r of
           None \<Rightarrow> Inr None
         | Some DZero \<Rightarrow> Inr None
         | Some (DString s) \<Rightarrow> bindE (cstrp (str_value s)) (\<lambda>t. Inr (Some (DString (buxton_string_pack t))))
         | Some d \<Rightarrow> Inr (Some d)))"

text \<open>\<open>None\<close> is -1.\<close>

definition buxton_response_value_type :: "BuxtonResponse option \<Rightarrow> BuxtonDataType option" where
  "buxton_response_value_type response = (case response of
       None \<Rightarrow> None
     | Some r \<Rightarrow> map_option data_type (value_item r))"

definition buxton_response_list_names_count :: "BuxtonResponse option \<Rightarrow> nat" where
  "buxton_response_list_names_count response = (case response of
       None \<Rightarrow> 0
     | Some r \<Rightarrow> if r_type r \<noteq> CONTROL_LIST_NAMES then 0 else length (r_data r) - 1)"

definition buxton_response_list_names_item :: "BuxtonResponse option \<Rightarrow> 32 word \<Rightarrow> bytes option res" where
  "buxton_response_list_names_item response index = (case response of
       None \<Rightarrow> Inr None
     | Some r \<Rightarrow>
         if r_type r \<noteq> CONTROL_LIST_NAMES then Inr None
         else if length (r_data r) \<le> unat (index + 1) then Inr None
         else (case item r (unat (index + 1) mod 65536) of
             Some (DString s) \<Rightarrow> bindE (cstrp (str_value s)) (\<lambda>t. Inr (Some t))
           | _ \<Rightarrow> Inr None))"

end
