(* ===== verification/Registry.thy ===== *)
theory Registry
  imports Connections
begin

text \<open>
  The bookkeeping of registrations in \<open>src/core/daemon.c\<close>: two maps, from a key's name to the
  notifications of all clients and from a client's descriptor to the names it registered, are kept
  in step by \<open>register_notification\<close>, \<open>unregister_notification\<close>, \<open>buxtond_notify_clients\<close> and
  \<open>terminate_client\<close>. The aborts of \<open>terminate_client\<close> are unreachable as long as they are.
\<close>

named_theorems listed_simps \<open>maps to lists that are never empty\<close>

section \<open>Maps to non-empty lists\<close>

definition entries :: "('k \<times> 'v list) list \<Rightarrow> 'k \<Rightarrow> 'v list" where
  "entries m k = (case hm_get m k of None \<Rightarrow> [] | Some xs \<Rightarrow> xs)"

definition listed :: "('k \<times> 'v list) list \<Rightarrow> bool" where
  "listed m \<longleftrightarrow> hm_ok m \<and> (\<forall>k. hm_get m k \<noteq> Some [])"

lemma listed_Nil [simp]: "listed []"
  by (simp add: listed_def)

lemma entries_Nil [simp]: "entries [] k = []"
  by (simp add: entries_def)

lemma listed_get:
  assumes "listed m"
  shows "hm_get m k = (if entries m k = [] then None else Some (entries m k))"
  using assms by (auto simp: listed_def entries_def split: option.splits)

lemma append_entry_listed:
  assumes "listed m"
  shows "\<exists>m'. append_entry m k x = Inr m' \<and> listed m' \<and>
    entries m' = (entries m)(k := entries m k @ [x])"
proof (cases "hm_get m k")
  case None
  then have p: "hm_put m k [x] = (1, m @ [(k, [x])])" by (simp add: hm_put_def)
  have a: "append_entry m k x = Inr (m @ [(k, [x])])"
    using None p by (simp add: append_entry_def put_or_abort_def)
  moreover have "hm_ok (m @ [(k, [x])])"
    using hm_ok_put[of m k "[x]"] assms p by (simp add: listed_def)
  moreover have "entries (m @ [(k, [x])]) = (entries m)(k := entries m k @ [x])"
    using None by (auto simp: entries_def hm_simps split: option.splits)
  moreover have "hm_get (m @ [(k, [x])]) j \<noteq> Some []" for j
    using assms by (auto simp: listed_def hm_simps split: option.splits)
  ultimately show ?thesis by (simp add: listed_def)
next
  case (Some xs)
  then have "append_entry m k x = Inr (hm_set m k (xs @ [x]))" by (simp add: append_entry_def)
  moreover have "listed (hm_set m k (xs @ [x]))"
    using assms by (auto simp: listed_def hm_ok_set hm_simps)
  moreover have "entries (hm_set m k (xs @ [x])) = (entries m)(k := entries m k @ [x])"
    using Some by (auto simp: entries_def hm_simps split: option.splits)
  ultimately show ?thesis by simp
qed

lemma entries_set:
  assumes "hm_get m k \<noteq> None"
  shows "entries (hm_set m k xs) = (entries m)(k := xs)"
  using assms by (auto simp: entries_def hm_simps)

lemma listed_set: "listed m \<Longrightarrow> xs \<noteq> [] \<Longrightarrow> listed (hm_set m k xs)"
  by (auto simp: listed_def hm_ok_set hm_simps)

lemma entries_remove: "entries (snd (hm_remove m k)) = (entries m)(k := [])"
  by (auto simp: entries_def hm_simps)

lemma listed_remove: "listed m \<Longrightarrow> listed (snd (hm_remove m k))"
  by (auto simp: listed_def hm_ok_remove hm_simps)

lemma listed_store: "listed m \<Longrightarrow> listed (store_list m k xs)"
  by (simp add: store_list_def listed_set listed_remove)

lemma entries_store:
  "hm_get m k \<noteq> None \<Longrightarrow> entries (store_list m k xs) = (entries m)(k := xs)"
  by (simp add: store_list_def entries_set entries_remove)

section \<open>Counting\<close>

abbreviation (input) of_client :: "nat \<Rightarrow> BuxtonNotification \<Rightarrow> bool" where
  "of_client c n \<equiv> n_client n = c"

definition held :: "nat \<Rightarrow> BuxtonNotification list \<Rightarrow> nat" where
  "held c ns = length (filter (of_client c) ns)"

lemma held_simps [simp]:
  "held c [] = 0" "held c (n # ns) = (if n_client n = c then Suc (held c ns) else held c ns)"
  "held c (ms @ ns) = held c ms + held c ns"
  by (simp_all add: held_def)

lemma held_pos: "0 < held c ns \<longleftrightarrow> c \<in> n_client ` set ns"
  by (induction ns) auto

lemma held_map: "map n_client ms = map n_client ns \<Longrightarrow> held c ms = held c ns"
proof (induction ns arbitrary: ms)
  case (Cons n ns)
  then obtain m ms' where m: "ms = m # ms'" by (cases ms) auto
  then have "map n_client ms' = map n_client ns" "n_client m = n_client n" using Cons.prems by auto
  then show ?case using Cons.IH[of ms'] m by simp
qed simp

lemma held_remove: "held d (remove_client c ns) = held d ns - (if d = c then 1 else 0)"
  by (induction ns) auto

lemma filter_remove:
  "filter (\<lambda>n. n_client n \<noteq> c) (remove_client c ns) = filter (\<lambda>n. n_client n \<noteq> c) ns"
  by (induction ns) auto

lemma set_remove: "n \<in> set (remove_client c ns) \<Longrightarrow> n \<in> set ns"
  by (induction ns) (auto split: if_splits)

lemma find_client_None: "find_client c ns = None \<longleftrightarrow> held c ns = 0"
  by (induction ns) (auto simp: find_client_def)

lemma find_client_Some: "find_client c ns = Some n \<Longrightarrow> n \<in> set ns \<and> n_client n = c"
  by (auto simp: find_client_def find_Some_iff in_set_conv_nth)

lemma count_list_remove1: "count_list (remove1 x xs) y = count_list xs y - (if y = x then 1 else 0)"
  by (induction xs) auto

section \<open>The invariant\<close>

text \<open>
  Every client holds as many notifications on a key as the key's name occurs among the names under
  its descriptor; nothing is kept of anybody who is not a client.
\<close>

definition matched :: "client_list_item list \<Rightarrow> (bytes \<Rightarrow> BuxtonNotification list) \<Rightarrow>
    (int \<Rightarrow> bytes list) \<Rightarrow> bool" where
  "matched cls nm ckm \<longleftrightarrow>
     distinct (map cl_id cls) \<and> distinct (map cl_fd cls) \<and>
     (\<forall>cl \<in> set cls. \<forall>k. held (cl_id cl) (nm k) = count_list (ckm (cl_fd cl)) k) \<and>
     (\<forall>k. n_client ` set (nm k) \<subseteq> cl_id ` set cls) \<and>
     (\<forall>fd. ckm fd \<noteq> [] \<longrightarrow> fd \<in> cl_fd ` set cls)"

definition registry_ok :: "'s BuxtonDaemon \<Rightarrow> bool" where
  "registry_ok self \<longleftrightarrow> listed (notify_mapping self) \<and> listed (client_key_mapping self) \<and>
     matched (client_list self) (entries (notify_mapping self)) (entries (client_key_mapping self))"

lemma matched_other:
  assumes "matched cls nm ckm" "c \<in> set cls" "c' \<in> set cls" "c' \<noteq> c"
  shows "cl_id c' \<noteq> cl_id c" "cl_fd c' \<noteq> cl_fd c"
  using assms by (auto simp: matched_def distinct_map dest: inj_onD)

lemma matched_add:
  assumes "matched cls nm ckm" "c \<in> set cls" "n_client n = cl_id c"
  shows "matched cls (nm(k := nm k @ [n])) (ckm(cl_fd c := ckm (cl_fd c) @ [k]))"
proof -
  have "held (cl_id c') ((nm(k := nm k @ [n])) j) =
      count_list ((ckm(cl_fd c := ckm (cl_fd c) @ [k])) (cl_fd c')) j" if "c' \<in> set cls" for c' j
  proof (cases "c' = c")
    case True
    then show ?thesis using assms by (auto simp: matched_def)
  next
    case False
    then show ?thesis
      using assms matched_other[OF assms(1,2) that] that by (auto simp: matched_def)
  qed
  then show ?thesis using assms by (auto simp: matched_def)
qed

lemma matched_drop:
  assumes "matched cls nm ckm" "c \<in> set cls"
  shows "matched cls (nm(k := remove_client (cl_id c) (nm k))) (ckm(cl_fd c := remove1 k (ckm (cl_fd c))))"
proof -
  have "held (cl_id c') ((nm(k := remove_client (cl_id c) (nm k))) j) =
      count_list ((ckm(cl_fd c := remove1 k (ckm (cl_fd c)))) (cl_fd c')) j" if "c' \<in> set cls" for c' j
  proof (cases "c' = c")
    case True
    then show ?thesis using assms by (auto simp: matched_def held_remove count_list_remove1)
  next
    case False
    then show ?thesis
      using assms matched_other[OF assms(1,2) that] that by (auto simp: matched_def held_remove)
  qed
  moreover have "n_client ` set ((nm(k := remove_client (cl_id c) (nm k))) j) \<subseteq> cl_id ` set cls" for j
  proof -
    have "n_client ` set (nm j) \<subseteq> cl_id ` set cls" for j
      using assms(1) by (simp add: matched_def)
    moreover have "set (remove_client (cl_id c) (nm k)) \<subseteq> set (nm k)" by (auto dest: set_remove)
    ultimately show ?thesis by (cases "j = k") (simp_all, blast)
  qed
  ultimately show ?thesis
    using assms by (auto simp: matched_def)
qed

lemma matched_map:
  assumes "matched cls nm ckm" "map n_client ns = map n_client (nm k)"
  shows "matched cls (nm(k := ns)) ckm"
proof -
  have "n_client ` set ns = n_client ` set (nm k)"
    using assms(2) by (metis list.set_map)
  then show ?thesis
    using assms held_map[OF assms(2)] by (auto simp: matched_def)
qed

lemma matched_clients:
  assumes "matched cls nm ckm" "map cl_id cls' = map cl_id cls" "map cl_fd cls' = map cl_fd cls"
  shows "matched cls' nm ckm"
proof -
  have i: "cl_id ` set cls' = cl_id ` set cls" "cl_fd ` set cls' = cl_fd ` set cls"
    using assms(2,3) by (metis list.set_map)+
  have "held (cl_id c') (nm k) = count_list (ckm (cl_fd c')) k" if c': "c' \<in> set cls'" for c' k
  proof -
    obtain i where i: "i < length cls'" "c' = cls' ! i" using c' by (auto simp: in_set_conv_nth)
    have l: "length cls' = length cls" using assms(2) by (metis length_map)
    have "cl_id c' = cl_id (cls ! i)" "cl_fd c' = cl_fd (cls ! i)"
      using i l assms(2,3) by (metis nth_map)+
    then show ?thesis using assms(1) i l by (auto simp: matched_def)
  qed
  then show ?thesis using assms i by (simp add: matched_def)
qed

section \<open>Removing all notifications of a client\<close>

lemma drop_notifications_ok:
  assumes "listed nm" "\<And>k. count_list ks k \<le> held c (entries nm k)"
  shows "\<exists>nm'. drop_notifications c ks nm = Inr nm' \<and> listed nm' \<and>
    (\<forall>k. held c (entries nm' k) = held c (entries nm k) - count_list ks k \<and>
       filter (\<lambda>n. n_client n \<noteq> c) (entries nm' k) = filter (\<lambda>n. n_client n \<noteq> c) (entries nm k))"
  using assms
proof (induction ks arbitrary: nm)
  case Nil
  then show ?case by simp
next
  case (Cons k ks)
  have h: "0 < held c (entries nm k)" using Cons.prems(2)[of k] by simp
  then have "entries nm k \<noteq> []" by auto
  then have g: "hm_get nm k = Some (entries nm k)" using listed_get[OF Cons.prems(1)] by simp
  obtain ci where f: "find_client c (entries nm k) = Some ci"
    using h find_client_None[of c] by (cases "find_client c (entries nm k)") auto
  let ?nm = "store_list nm k (remove_client c (entries nm k))"
  have e: "entries ?nm = (entries nm)(k := remove_client c (entries nm k))"
    using g by (simp add: entries_store)
  have "count_list ks j \<le> held c (entries ?nm j)" for j
    using Cons.prems(2)[of j] by (auto simp: e held_remove split: if_splits)
  from Cons.IH[OF listed_store[OF Cons.prems(1)] this] obtain nm' where
    nm': "drop_notifications c ks ?nm = Inr nm'" "listed nm'"
      "\<And>j. held c (entries nm' j) = held c (entries ?nm j) - count_list ks j"
      "\<And>j. filter (\<lambda>n. n_client n \<noteq> c) (entries nm' j) = filter (\<lambda>n. n_client n \<noteq> c) (entries ?nm j)"
    by blast
  then show ?case using g f by (simp add: e held_remove filter_remove)
qed

lemma matched_gone:
  assumes "matched cls nm ckm" "c \<in> set cls"
    "\<And>k. nm' k = filter (\<lambda>n. n_client n \<noteq> cl_id c) (nm k)"
  shows "matched (filter (\<lambda>d. cl_id d \<noteq> cl_id c) cls) nm' (ckm(cl_fd c := []))"
proof -
  let ?cls = "filter (\<lambda>d. cl_id d \<noteq> cl_id c) cls"
  have s: "set ?cls = set cls - {c}"
    using matched_other(1)[OF assms(1,2)] by auto
  have "held (cl_id d) (nm' k) = count_list ((ckm(cl_fd c := [])) (cl_fd d)) k" if "d \<in> set ?cls" for d k
  proof -
    have d: "d \<in> set cls" "d \<noteq> c" using that s by auto
    have n: "cl_id d \<noteq> cl_id c" "cl_fd d \<noteq> cl_fd c" using matched_other[OF assms(1,2) d] by auto
    have "held (cl_id d) (nm' k) = held (cl_id d) (nm k)"
      using n by (simp add: assms(3) held_def) (metis (mono_tags, lifting) filter_cong)
    then show ?thesis using assms(1) d n by (simp add: matched_def)
  qed
  moreover have "n_client ` set (nm' k) \<subseteq> cl_id ` set ?cls" for k
    using assms(1) by (fastforce simp: matched_def assms(3))
  moreover have "fd \<in> cl_fd ` set ?cls" if "(ckm(cl_fd c := [])) fd \<noteq> []" for fd
  proof -
    have "fd \<noteq> cl_fd c" "fd \<in> cl_fd ` set cls"
      using that assms(1) by (auto simp: matched_def split: if_splits)
    then show ?thesis unfolding s by auto
  qed
  moreover have "distinct (map cl_id ?cls)" "distinct (map cl_fd ?cls)"
    using assms(1) by (simp_all add: matched_def distinct_map_filter)
  ultimately show ?thesis by (simp add: matched_def)
qed

section \<open>What a request may change\<close>

definition same_connections :: "'s BuxtonDaemon \<Rightarrow> 's BuxtonDaemon \<Rightarrow> bool" where
  "same_connections d d' \<longleftrightarrow> client_list d' = client_list d \<and> pollfds d' = pollfds d \<and>
     accepting d' = accepting d \<and> nfds_alloc d' = nfds_alloc d \<and> accepting_alloc d' = accepting_alloc d"

text \<open>A client that is being served: its record may already carry new credentials or data.\<close>

definition known :: "'s BuxtonDaemon \<Rightarrow> client_list_item \<Rightarrow> bool" where
  "known self client \<longleftrightarrow>
     (\<exists>c \<in> set (client_list self). cl_id c = cl_id client \<and> cl_fd c = cl_fd client)"

definition kept :: "'s BuxtonDaemon \<Rightarrow> 's BuxtonDaemon \<Rightarrow> bool" where
  "kept d d' \<longleftrightarrow> same_connections d d' \<and> (registry_ok d \<longrightarrow> registry_ok d')"

lemma same_connections_refl [simp]: "same_connections d d"
  by (simp add: same_connections_def)

lemma kept_refl [simp]: "kept d d"
  by (simp add: kept_def)

lemma kept_trans: "kept a b \<Longrightarrow> kept b c \<Longrightarrow> kept a c"
  by (auto simp: kept_def same_connections_def)

lemma kept_known: "kept d d' \<Longrightarrow> known d' c = known d c"
  by (simp add: kept_def same_connections_def known_def)

lemma kept_simps [simp]:
  "kept d (d\<lparr>buxton := ctl\<rparr>)" "kept d (d\<lparr>sent := h\<rparr>)"
  "kept d (d\<lparr>buxton := ctl, sent := h\<rparr>)"
  by (simp_all add: kept_def same_connections_def registry_ok_def)

lemma status_of_kept: "status_of self r = Inr (st, d) \<Longrightarrow> kept self d"
  by (auto simp: status_of_def res_simps)

lemma get_value_buxton:
  "daemon_get_value env self client key = Inr (data, st, d) \<Longrightarrow> \<exists>ctl. d = self\<lparr>buxton := ctl\<rparr>"
  by (auto simp: daemon_get_value_def res_simps split: if_splits)

lemma get_value_kept: "daemon_get_value env self client key = Inr (data, st, d) \<Longrightarrow> kept self d"
  by (auto dest: get_value_buxton)

lemma get_label_kept: "daemon_get_label env self client key = Inr (data, st, d) \<Longrightarrow> kept self d"
  by (auto simp: daemon_get_label_def res_simps split: if_splits)

lemma list_keys_kept: "daemon_list_keys env self l = Inr (x, st, d) \<Longrightarrow> kept self d"
  by (auto simp: daemon_list_keys_def res_simps)

lemma list_names_kept: "daemon_list_names env self key = Inr (x, st, d) \<Longrightarrow> kept self d"
  by (auto simp: daemon_list_names_def res_simps)

lemma status_ops_kept:
  "daemon_set_value env self client key v = Inr (st, d) \<Longrightarrow> kept self d"
  "daemon_set_label env self client key v = Inr (st, d) \<Longrightarrow> kept self d"
  "daemon_create_group env self client key = Inr (st, d) \<Longrightarrow> kept self d"
  "daemon_remove_group env self client key = Inr (st, d) \<Longrightarrow> kept self d"
  "daemon_unset_value env self client key = Inr (st, d) \<Longrightarrow> kept self d"
  by (auto simp: daemon_set_value_def daemon_set_label_def daemon_create_group_def
      daemon_remove_group_def daemon_unset_value_def res_simps
      intro: status_of_kept split: BuxtonData.splits)

section \<open>Registering and unregistering\<close>

text \<open>What a successful registration does: the item and the name are appended.\<close>

lemma register_cases:
  assumes "register_notification env self client key msgid = Inr (st, d)"
    and "listed (notify_mapping self)" "listed (client_key_mapping self)"
  shows "(\<exists>ctl. d = self\<lparr>buxton := ctl\<rparr>) \<and> st = - 1 \<or>
    (\<exists>k ctl data. st = 0 \<and> notify_key_name key = Inr (Some k) \<and>
       daemon_get_value env self client key = Inr (data, 0, self\<lparr>buxton := ctl\<rparr>) \<and>
       buxton d = ctl \<and> same_connections self d \<and> sent d = sent self \<and>
       listed (notify_mapping d) \<and> listed (client_key_mapping d) \<and>
       entries (notify_mapping d) = (entries (notify_mapping self))
         (k := entries (notify_mapping self) k @ [\<lparr>n_client = cl_id client, old_data = data, n_msgid = msgid\<rparr>]) \<and>
       entries (client_key_mapping d) = (entries (client_key_mapping self))
         (cl_fd client := entries (client_key_mapping self) (cl_fd client) @ [k]))"
proof -
  obtain data ks d1 where g: "daemon_get_value env self client key = Inr (data, ks, d1)"
    using assms(1) by (auto simp: register_notification_def res_simps)
  obtain ctl where d1: "d1 = self\<lparr>buxton := ctl\<rparr>" using get_value_buxton[OF g] by blast
  show ?thesis
  proof (cases "ks = 0")
    case False
    then show ?thesis using assms(1) g d1 by (auto simp: register_notification_def)
  next
    case True
    then obtain name where n: "notify_key_name key = Inr name"
      using assms(1) g by (auto simp: register_notification_def res_simps)
    show ?thesis
    proof (cases name)
      case None
      then show ?thesis using assms(1) g d1 n True by (auto simp: register_notification_def)
    next
      case (Some k)
      let ?n = "\<lparr>n_client = cl_id client, old_data = data, n_msgid = msgid\<rparr>"
      obtain nm where nm: "append_entry (notify_mapping self) k ?n = Inr nm" "listed nm"
        "entries nm = (entries (notify_mapping self))(k := entries (notify_mapping self) k @ [?n])"
        using append_entry_listed[OF assms(2)] by blast
      obtain ckm where ckm: "append_entry (client_key_mapping self) (cl_fd client) k = Inr ckm" "listed ckm"
        "entries ckm = (entries (client_key_mapping self))
           (cl_fd client := entries (client_key_mapping self) (cl_fd client) @ [k])"
        using append_entry_listed[OF assms(3)] by blast
      have "d = self\<lparr>buxton := ctl, notify_mapping := nm, client_key_mapping := ckm\<rparr>" "st = 0"
        using assms(1) g d1 n True Some nm(1) ckm(1) by (simp_all add: register_notification_def)
      then show ?thesis
        using n Some g True d1 nm(2,3) ckm(2,3) by (simp add: same_connections_def)
    qed
  qed
qed

lemma register_kept:
  assumes "register_notification env self client key msgid = Inr (st, d)" "known self client"
    "registry_ok self"
  shows "kept self d"
proof -
  have l: "listed (notify_mapping self)" "listed (client_key_mapping self)"
    using assms(3) by (simp_all add: registry_ok_def)
  from register_cases[OF assms(1) l] consider ctl where "d = self\<lparr>buxton := ctl\<rparr>"
    | k data where "same_connections self d" "listed (notify_mapping d)" "listed (client_key_mapping d)"
      "entries (notify_mapping d) = (entries (notify_mapping self))
         (k := entries (notify_mapping self) k @ [\<lparr>n_client = cl_id client, old_data = data, n_msgid = msgid\<rparr>])"
      "entries (client_key_mapping d) = (entries (client_key_mapping self))
         (cl_fd client := entries (client_key_mapping self) (cl_fd client) @ [k])"
    by blast
  then show ?thesis
  proof cases
    case 1
    then show ?thesis by simp
  next
    case 2
    obtain c where c: "c \<in> set (client_list self)" "cl_id c = cl_id client" "cl_fd c = cl_fd client"
      using assms(2) by (auto simp: known_def)
    have "matched (client_list self) (entries (notify_mapping self)) (entries (client_key_mapping self))"
      using assms(3) by (simp add: registry_ok_def)
    from matched_add[OF this c(1), of "\<lparr>n_client = cl_id client, old_data = data, n_msgid = msgid\<rparr>" k]
    have "registry_ok d"
      using 2 c by (simp add: registry_ok_def same_connections_def)
    then show ?thesis using 2 by (simp add: kept_def)
  qed
qed

lemma unregister_cases:
  assumes "unregister_notification self client key = Inr (m, st, d)" "known self client" "registry_ok self"
  shows "d = self \<and> st = - 1 \<and> m = 0 \<and>
      (\<forall>k. notify_key_name key = Inr (Some k) \<longrightarrow> held (cl_id client) (entries (notify_mapping self) k) = 0) \<or>
    (\<exists>k n. st = 0 \<and> notify_key_name key = Inr (Some k) \<and>
       find_client (cl_id client) (entries (notify_mapping self) k) = Some n \<and> m = n_msgid n \<and>
       buxton d = buxton self \<and> same_connections self d \<and> sent d = sent self \<and>
       listed (notify_mapping d) \<and> listed (client_key_mapping d) \<and>
       entries (notify_mapping d) = (entries (notify_mapping self))
         (k := remove_client (cl_id client) (entries (notify_mapping self) k)) \<and>
       entries (client_key_mapping d) = (entries (client_key_mapping self))
         (cl_fd client := remove1 k (entries (client_key_mapping self) (cl_fd client))))"
proof -
  have l: "listed (notify_mapping self)" "listed (client_key_mapping self)"
    and mt: "matched (client_list self) (entries (notify_mapping self)) (entries (client_key_mapping self))"
    using assms(3) by (simp_all add: registry_ok_def)
  obtain c where c: "c \<in> set (client_list self)" "cl_id c = cl_id client" "cl_fd c = cl_fd client"
    using assms(2) by (auto simp: known_def)
  have eq: "held (cl_id client) (entries (notify_mapping self) k) =
      count_list (entries (client_key_mapping self) (cl_fd client)) k" for k
    using mt c by (auto simp: matched_def)
  obtain name where n: "notify_key_name key = Inr name"
    using assms(1) by (auto simp: unregister_notification_def res_simps)
  show ?thesis
  proof (cases name)
    case None
    then show ?thesis using assms(1) n by (auto simp: unregister_notification_def)
  next
    case (Some k)
    let ?ns = "entries (notify_mapping self) k" and ?ks = "entries (client_key_mapping self) (cl_fd client)"
    show ?thesis
    proof (cases "find_client (cl_id client) ?ns")
      case None
      then have "d = self \<and> st = - 1 \<and> m = 0"
        using assms(1) n Some listed_get[OF l(1), of k]
        by (auto simp: unregister_notification_def find_client_def split: if_splits)
      then show ?thesis using None n Some by (simp add: find_client_None)
    next
      case (Some ci)
      have h: "0 < held (cl_id client) ?ns" using Some find_client_None[of "cl_id client" ?ns] by simp
      then have "?ns \<noteq> []" by auto
      then have gn: "hm_get (notify_mapping self) k = Some ?ns" using listed_get[OF l(1), of k] by simp
      have ks: "k \<in> set ?ks" using h eq[of k] count_notin[of k ?ks] by (cases "k \<in> set ?ks") auto
      then have "?ks \<noteq> []" by auto
      then have gk: "hm_get (client_key_mapping self) (cl_fd client) = Some ?ks"
        using listed_get[OF l(2), of "cl_fd client"] by simp
      have d: "m = n_msgid ci" "st = 0" "d = self\<lparr>
          client_key_mapping := store_list (client_key_mapping self) (cl_fd client) (remove1 k ?ks),
          notify_mapping := store_list (notify_mapping self) k (remove_client (cl_id client) ?ns)\<rparr>"
        using assms(1) n \<open>name = Some k\<close> Some gn gk ks by (simp_all add: unregister_notification_def)
      then show ?thesis
        using n \<open>name = Some k\<close> Some gn gk l
        by (simp add: same_connections_def listed_store entries_store)
    qed
  qed
qed

lemma unregister_kept:
  assumes "unregister_notification self client key = Inr (m, st, d)" "known self client" "registry_ok self"
  shows "kept self d"
proof -
  obtain c where c: "c \<in> set (client_list self)" "cl_id c = cl_id client" "cl_fd c = cl_fd client"
    using assms(2) by (auto simp: known_def)
  have mt: "matched (client_list self) (entries (notify_mapping self)) (entries (client_key_mapping self))"
    using assms(3) by (simp add: registry_ok_def)
  from unregister_cases[OF assms] show ?thesis
  proof (elim disjE exE conjE)
    assume "d = self"
    then show ?thesis by simp
  next
    fix k n
    assume d: "same_connections self d" "listed (notify_mapping d)" "listed (client_key_mapping d)"
      "entries (notify_mapping d) = (entries (notify_mapping self))
         (k := remove_client (cl_id client) (entries (notify_mapping self) k))"
      "entries (client_key_mapping d) = (entries (client_key_mapping self))
         (cl_fd client := remove1 k (entries (client_key_mapping self) (cl_fd client)))"
    then have "registry_ok d"
      using matched_drop[OF mt c(1), of k] c by (simp add: registry_ok_def same_connections_def)
    then show ?thesis using d by (simp add: kept_def)
  qed
qed

section \<open>Notifying\<close>

lemma tell_client: "tell v n = Inr (n', msg) \<Longrightarrow> n_client n' = n_client n"
  unfolding tell_def
proof (elim bindE_InrE)
  fix x xa
  assume "(case xa of None \<Rightarrow> Inl Aborted | Some m \<Rightarrow> Inr (n\<lparr>old_data := Some x\<rparr>, m)) = Inr (n', msg)"
  then show "n_client n' = n_client n" by (cases xa) auto
qed

lemma notify_item_client: "notify_item v n = Inr (Some (n', msg)) \<Longrightarrow> n_client n' = n_client n"
  by (auto simp: notify_item_def bindE_eq_Inr split: if_splits dest: tell_client)

lemma notify_loop_clients:
  "notify_loop fd v ns = Inr (ns', out) \<Longrightarrow> map n_client ns' = map n_client ns"
proof (induction ns arbitrary: ns' out)
  case (Cons n ns)
  obtain r where r: "notify_item v n = Inr r" using Cons.prems by (auto simp: res_simps)
  obtain ns1 out1 where l: "notify_loop fd v ns = Inr (ns1, out1)"
    using Cons.prems r by (auto simp: res_simps split: option.splits)
  have "n_client n' = n_client n" if "r = Some (n', msg)" for n' msg
    using notify_item_client[OF r[unfolded that]] .
  then show ?case
    using Cons.prems Cons.IH[OF l] r l by (auto split: option.splits)
qed simp

lemma notify_clients_kept:
  assumes "buxtond_notify_clients self key v = Inr d"
  shows "kept self d \<and> buxton d = buxton self"
proof -
  obtain name where n: "notify_key_name key = Inr name"
    using assms by (auto simp: buxtond_notify_clients_def res_simps)
  show ?thesis
  proof (cases "name = None \<or> hm_get (notify_mapping self) (the name) = None")
    case True
    then have "d = self"
      using assms n by (cases name) (auto simp: buxtond_notify_clients_def)
    then show ?thesis by simp
  next
    case False
    then obtain k ns where k: "name = Some k" "hm_get (notify_mapping self) k = Some ns" by auto
    then obtain ns' out where l: "notify_loop (fd_of self) v ns = Inr (ns', out)"
      and d: "d = self\<lparr>notify_mapping := hm_set (notify_mapping self) k ns', sent := sent self @ out\<rparr>"
      using assms n by (auto simp: buxtond_notify_clients_def res_simps)
    have m: "map n_client ns' = map n_client ns" by (rule notify_loop_clients[OF l])
    have "registry_ok d" if ok: "registry_ok self"
    proof -
      have li: "listed (notify_mapping self)" using ok by (simp add: registry_ok_def)
      then have e: "entries (notify_mapping self) k = ns" "ns \<noteq> []"
        using k(2) by (auto simp: entries_def listed_def)
      then have "ns' \<noteq> []" using m by auto
      then show ?thesis
        using ok k(2) m e(1) li matched_map[of "client_list self" "entries (notify_mapping self)" _ ns' k]
        by (simp add: registry_ok_def d listed_set entries_set)
    qed
    then show ?thesis by (simp add: kept_def same_connections_def d)
  qed
qed

section \<open>Requests\<close>

lemma run_request_kept:
  assumes "run_request env self client msg msgid key v = Inr (Some (oc, d))" "known self client" "registry_ok self"
  shows "kept self d"
  using assms
  by (auto simp: run_request_def res_simps Let_def
      split: BuxtonControlMessage.splits option.splits BuxtonData.splits
      dest: status_ops_kept get_value_kept get_label_kept list_keys_kept list_names_kept
      intro: register_kept unregister_kept)

lemma answer_kept:
  assumes "answer env writes self client msg msgid key v = Inr (ret, d)" "known self client" "registry_ok self"
  shows "kept self d"
proof -
  obtain r where r: "run_request env self client msg msgid key v = Inr r"
    using assms(1) by (auto simp: answer_def res_simps)
  show ?thesis
  proof (cases r)
    case None
    then show ?thesis using assms(1) r by (simp add: answer_def)
  next
    case (Some x)
    then obtain oc d1 where x: "r = Some (oc, d1)" by (cases x) auto
    have k1: "kept self d1" using run_request_kept[OF r[unfolded x] assms(2,3)] .
    obtain params b where p: "reply_params msg oc = Inr params" "serialize_reply msgid params = Inr b"
      using assms(1) r x by (auto simp: answer_def res_simps)
    let ?d2 = "d1\<lparr>sent := sent d1 @ [(cl_fd client, b)]\<rparr>"
    have k2: "kept self ?d2" using kept_trans[OF k1] by simp
    show ?thesis
      using assms(1) r x p k2
      by (auto simp: answer_def Let_def res_simps split: if_splits
          dest!: notify_clients_kept intro: kept_trans)
  qed
qed

lemma handle_message_kept:
  assumes "buxtond_handle_message env writes self client data sz = Inr (ret, d)" "known self client" "registry_ok self"
  shows "kept self d"
proof -
  obtain m where m: "buxton_deserialize_message data sz = Inr m"
    using assms(1) by (auto simp: buxtond_handle_message_def Let_def res_simps)
  show ?thesis
  proof (cases m)
    case None
    then show ?thesis using assms(1) m by (simp add: buxtond_handle_message_def)
  next
    case (Some x)
    obtain msg msgid params where x: "x = (msg, msgid, params)" by (cases x) auto
    show ?thesis
    proof (cases "parse_list msg params")
      case None
      then show ?thesis using assms(1) m Some x by (simp add: buxtond_handle_message_def)
    next
      case (Some kv)
      obtain key v where kv: "kv = (key, v)" by (cases kv) auto
      obtain d1 where a: "answer env writes self client msg msgid key v = Inr (ret, d1)"
        and d: "d = d1\<lparr>buxton := (buxton d1)\<lparr>client_uid := client_uid (buxton self)\<rparr>\<rparr>"
        using assms(1) m \<open>m = Some x\<close> x Some kv by (auto simp: buxtond_handle_message_def Let_def res_simps)
      show ?thesis using kept_trans[OF answer_kept[OF a assms(2,3)]] d by simp
    qed
  qed
qed

section \<open>The end of a client\<close>

lemma matched_nothing_registered:
  assumes "matched cls nm ckm" "c \<in> set cls" "ckm (cl_fd c) = []"
  shows "matched (filter (\<lambda>d. cl_id d \<noteq> cl_id c) cls) nm ckm"
proof -
  have h: "held (cl_id c) (nm k) = 0" for k using assms by (auto simp: matched_def)
  then have "nm k = filter (\<lambda>n. n_client n \<noteq> cl_id c) (nm k)" for k
    by (simp add: held_def filter_empty_conv filter_id_conv)
  from matched_gone[OF assms(1,2) this] show ?thesis using assms(3) by (simp add: fun_upd_idem)
qed

text \<open>As long as the maps are in step, a client can be ended, and no trace of it is left.\<close>

lemma terminate_client_ok:
  assumes "registry_ok self" "known self cl" "i < length (pollfds self)"
  shows "\<exists>d. terminate_client self cl i = Inr d \<and> registry_ok d \<and>
    client_list d = filter (\<lambda>c. cl_id c \<noteq> cl_id cl) (client_list self) \<and>
    pollfds d = take i (pollfds self) @ drop (Suc i) (pollfds self) \<and>
    accepting d = take i (accepting self) @ drop (Suc i) (accepting self) \<and>
    nfds_alloc d = nfds_alloc self \<and> accepting_alloc d = accepting_alloc self \<and>
    entries (client_key_mapping d) = (entries (client_key_mapping self))(cl_fd cl := []) \<and>
    (\<forall>k. entries (notify_mapping d) k =
       filter (\<lambda>n. n_client n \<noteq> cl_id cl) (entries (notify_mapping self) k))"
proof -
  have l: "listed (notify_mapping self)" "listed (client_key_mapping self)"
    and mt: "matched (client_list self) (entries (notify_mapping self)) (entries (client_key_mapping self))"
    using assms(1) by (simp_all add: registry_ok_def)
  obtain c where c: "c \<in> set (client_list self)" "cl_id c = cl_id cl" "cl_fd c = cl_fd cl"
    using assms(2) by (auto simp: known_def)
  let ?ks = "entries (client_key_mapping self) (cl_fd cl)"
  have eq: "held (cl_id cl) (entries (notify_mapping self) k) = count_list ?ks k" for k
    using mt c by (auto simp: matched_def)
  show ?thesis
  proof (cases "?ks = []")
    case True
    then have "hm_get (client_key_mapping self) (cl_fd cl) = None" using listed_get[OF l(2)] by simp
    then have "terminate_client self cl i = Inr (self\<lparr>
        pollfds := take i (pollfds self) @ drop (Suc i) (pollfds self),
        accepting := take i (accepting self) @ drop (Suc i) (accepting self),
        client_list := filter (\<lambda>c. cl_id c \<noteq> cl_id cl) (client_list self)\<rparr>)"
      using assms(3) by (simp add: terminate_client_def del_pollfd_def)
    moreover have "entries (notify_mapping self) k =
        filter (\<lambda>n. n_client n \<noteq> cl_id cl) (entries (notify_mapping self) k)" for k
      using eq[of k] True by (simp add: held_def filter_empty_conv filter_id_conv)
    ultimately show ?thesis
      using matched_nothing_registered[OF mt c(1)] c True l
      by (simp add: registry_ok_def fun_upd_idem)
  next
    case False
    then have g: "hm_get (client_key_mapping self) (cl_fd cl) = Some ?ks" using listed_get[OF l(2)] by simp
    obtain nm where nm: "drop_notifications (cl_id cl) ?ks (notify_mapping self) = Inr nm" "listed nm"
      "\<And>k. held (cl_id cl) (entries nm k) = 0"
      "\<And>k. filter (\<lambda>n. n_client n \<noteq> cl_id cl) (entries nm k) =
        filter (\<lambda>n. n_client n \<noteq> cl_id cl) (entries (notify_mapping self) k)"
      using drop_notifications_ok[OF l(1), of ?ks "cl_id cl"] eq by auto
    have e: "entries nm k = filter (\<lambda>n. n_client n \<noteq> cl_id cl) (entries (notify_mapping self) k)" for k
      using nm(3)[of k] nm(4)[of k, symmetric] by (simp add: held_def filter_empty_conv filter_id_conv)
    let ?ckm = "snd (hm_remove (client_key_mapping self) (cl_fd cl))"
    have "terminate_client self cl i = Inr (self\<lparr>notify_mapping := nm, client_key_mapping := ?ckm,
        pollfds := take i (pollfds self) @ drop (Suc i) (pollfds self),
        accepting := take i (accepting self) @ drop (Suc i) (accepting self),
        client_list := filter (\<lambda>c. cl_id c \<noteq> cl_id cl) (client_list self)\<rparr>)"
      using assms(3) g nm(1) by (simp add: terminate_client_def del_pollfd_def)
    moreover have "matched (filter (\<lambda>d. cl_id d \<noteq> cl_id cl) (client_list self)) (entries nm) (entries ?ckm)"
      using matched_gone[OF mt c(1), of "entries nm"] e c by (simp add: entries_remove)
    ultimately show ?thesis
      using l nm(2) e by (simp add: registry_ok_def listed_remove entries_remove)
  qed
qed

end
