(* ===== verification/Direct_Laws.thy ===== *)
theory Direct_Laws
  imports Direct
begin

text \<open>
  What the requests of theory \<open>Direct\<close> do over any backend that keeps the contract \<open>kv_backend\<close>,
  proved in the locale \<open>direct\<close>, and the same for the program: the interpretation \<open>sys\<close> has both
  backend modules side by side, with the layers kept in memory under the contract.
\<close>

section \<open>The requests over a backend that keeps its contract\<close>

text \<open>The backend a layer's requests end up in.\<close>

definition dispatch :: "(BuxtonBackendType \<Rightarrow> 's BuxtonBackend) \<Rightarrow> 's BuxtonBackend" where
  "dispatch tb =
     \<lparr>be_set_value = (\<lambda>l. be_set_value (tb (layer_backend l)) l),
      be_get_value = (\<lambda>l. be_get_value (tb (layer_backend l)) l),
      be_unset_value = (\<lambda>l. be_unset_value (tb (layer_backend l)) l),
      be_list_keys = None,
      be_list_names = (\<lambda>l. be_list_names (tb (layer_backend l)) l),
      be_create_db = None\<rparr>"

lemma cstrp_value: "cstrp v = Inr t \<Longrightarrow> v \<noteq> None"
  by (cases v) auto

text \<open>The decision on two label texts.\<close>

definition smack_allows :: "SmackState \<Rightarrow> bytes \<Rightarrow> bytes \<Rightarrow> 32 word \<Rightarrow> bool" where
  "smack_allows st s ob request \<longleftrightarrow>
     buxton_check_smack_access st (buxton_string_pack s) (buxton_string_pack ob) request = Inr True"

definition smack_ready :: "SmackState \<Rightarrow> bool" where
  "smack_ready st \<longleftrightarrow> (have_smack st \<longrightarrow> smackrules st \<noteq> None)"

lemma check_allows:
  assumes "smack_ready st" "reads_as s a" "reads_as ob b" "request \<in> {ACCESS_READ, ACCESS_WRITE}"
  shows "buxton_check_smack_access st s ob request = Inr (smack_allows st a b request)"
proof -
  have n: "NUL \<notin> set a" "NUL \<notin> set b"
    using assms(2,3) cstr_eq_Inr by (auto simp: reads_as_def)
  then have "cstrp (str_value (buxton_string_pack a)) = Inr a" "cstrp (str_value (buxton_string_pack b)) = Inr b"
    by (simp_all add: buxton_string_pack_def cstr_simps)
  moreover have "cstrp (str_value s) = Inr a" "cstrp (str_value ob) = Inr b"
    using assms(2,3) by (simp_all add: reads_as_cstr)
  ultimately have eq: "buxton_check_smack_access st (buxton_string_pack a) (buxton_string_pack b) request =
      buxton_check_smack_access st s ob request"
    by (simp add: buxton_check_smack_access_def)
  have "runs (buxton_check_smack_access st s ob request)"
    using assms(1,4) \<open>cstrp (str_value s) = Inr a\<close> \<open>cstrp (str_value ob) = Inr b\<close>
    by (auto simp: buxton_check_smack_access_def smack_ready_def split: option.splits)
  then show ?thesis by (auto simp: smack_allows_def eq runs_iff)
qed

text \<open>A client's label, or none for a direct client, and what it may do to an object.\<close>

definition client_as :: "BuxtonString option \<Rightarrow> bytes option \<Rightarrow> bool" where
  "client_as cl ct \<longleftrightarrow> (case cl of None \<Rightarrow> ct = None | Some c \<Rightarrow> (\<exists>t. ct = Some t \<and> reads_as c t))"

definition client_may :: "SmackState \<Rightarrow> bytes option \<Rightarrow> 32 word \<Rightarrow> bytes \<Rightarrow> bool" where
  "client_may st ct request label =
     (case ct of None \<Rightarrow> True | Some t \<Rightarrow> smack_allows st t (takeWhile (\<lambda>c. c \<noteq> NUL) label) request)"

lemma client_check:
  assumes "smack_ready st" "client_as (Some c) ct" "str_ok lab" "NUL \<in> set (str_bytes lab)"
    "request \<in> {ACCESS_READ, ACCESS_WRITE}"
  shows "buxton_check_smack_access st c lab request = Inr (client_may st ct request (str_bytes lab))"
proof -
  obtain t where t: "ct = Some t" "reads_as c t" using assms(2) by (auto simp: client_as_def)
  have "reads_as lab (takeWhile (\<lambda>c. c \<noteq> NUL) (str_bytes lab))"
    using assms(3,4) by (simp add: reads_as_def cstr_def)
  from check_allows[OF assms(1) t(2) this assms(5)] t(1) show ?thesis
    by (simp add: client_may_def)
qed

text \<open>The layer argument of a request: it names the layer, and so does the copy made for the lookup of
  the group.\<close>

definition layer_arg :: "allocator \<Rightarrow> BuxtonString \<Rightarrow> bytes \<Rightarrow> bool" where
  "layer_arg slack s ly \<longleftrightarrow> cstrp (str_value s) = Inr ly \<and>
     (\<exists>c. copy_member slack s = Inr c \<and> cstrp (str_value c) = Inr ly)"

lemma layer_arg_reads:
  assumes "reads_as s ly"
  shows "layer_arg slack s ly"
proof -
  have "str_ok s" "cstr (str_bytes s) = Inr ly" using assms by (auto simp: reads_as_def)
  moreover have "cstr (b @ x) = Inr ly" if "cstr b = Inr ly" for b x
    using cstr_eq_Inr[OF that] by (auto simp: cstr_simps)
  ultimately show ?thesis
    using reads_as_cstr[OF assms] reads_as_value[OF assms]
    by (auto simp: layer_arg_def copy_member_def buxton_string_copy_ok)
qed

text \<open>
  The layers of a configuration with the uid the next access gives them; and what two states of the
  daemon have in common when only caches and the uids of layers differ.
\<close>

definition the_layer :: "'s BuxtonControl \<Rightarrow> bytes \<Rightarrow> BuxtonLayer option" where
  "the_layer ctl n = map_option (\<lambda>l. l\<lparr>layer_uid := client_uid ctl\<rparr>) (hm_get (layers (config ctl)) n)"

definition same_setup :: "'s BuxtonControl \<Rightarrow> 's BuxtonControl \<Rightarrow> bool" where
  "same_setup a b \<longleftrightarrow> client_uid a = client_uid b \<and> rules a = rules b \<and>
     map (\<lambda>(n, l). (n, l\<lparr>layer_uid := 0\<rparr>)) (layers (config a)) =
     map (\<lambda>(n, l). (n, l\<lparr>layer_uid := 0\<rparr>)) (layers (config b))"

lemma same_setup_refl [simp]: "same_setup a a"
  by (simp add: same_setup_def)

lemma same_setup_trans: "same_setup a b \<Longrightarrow> same_setup b c \<Longrightarrow> same_setup a c"
  by (simp add: same_setup_def)

lemma hm_get_map_snd: "hm_get (map (\<lambda>(n, l). (n, f l)) m) k = map_option f (hm_get m k)"
  by (induction m) (auto simp: hm_get_def)

lemma uid_irrelevant:
  "l\<lparr>layer_uid := 0\<rparr> = l'\<lparr>layer_uid := 0\<rparr> \<Longrightarrow> l\<lparr>layer_uid := u\<rparr> = l'\<lparr>layer_uid := u\<rparr>"
  for l l' :: BuxtonLayer
  by (cases l; cases l') simp

lemma same_setup_layer:
  assumes "same_setup a b"
  shows "the_layer a n = the_layer b n"
proof -
  have eq: "map_option (\<lambda>l. l\<lparr>layer_uid := 0\<rparr>) (hm_get (layers (config a)) n) =
      map_option (\<lambda>l. l\<lparr>layer_uid := 0\<rparr>) (hm_get (layers (config b)) n)"
    using assms by (simp add: same_setup_def flip: hm_get_map_snd)
  have u: "client_uid a = client_uid b" using assms by (simp add: same_setup_def)
  show ?thesis
  proof (cases "hm_get (layers (config a)) n")
    case None
    then show ?thesis using eq by (simp add: the_layer_def)
  next
    case (Some l)
    then obtain l' where l': "hm_get (layers (config b)) n = Some l'"
      "l\<lparr>layer_uid := 0\<rparr> = l'\<lparr>layer_uid := 0\<rparr>"
      using eq by (cases "hm_get (layers (config b)) n") auto
    from uid_irrelevant[OF l'(2), of "client_uid b"] show ?thesis
      by (simp add: the_layer_def Some l'(1) u)
  qed
qed

lemma same_setup_names:
  "same_setup a b \<Longrightarrow> map fst (layers (config a)) = map fst (layers (config b))"
proof -
  assume s: "same_setup a b"
  have f: "map fst m = map fst (map (\<lambda>(n, l). (n, l\<lparr>layer_uid := 0\<rparr>)) m)"
    for m :: "(bytes \<times> BuxtonLayer) list"
    by (induction m) auto
  show "map fst (layers (config a)) = map fst (layers (config b))"
    using s unfolding same_setup_def by (subst (1 2) f) simp
qed

text \<open>What a read returns, in terms of the contents \<open>c\<close> of the group.\<close>

definition read_entry :: "SmackState \<Rightarrow> bytes option \<Rightarrow> (bytes option \<Rightarrow> (BuxtonData \<times> bytes) option) \<Rightarrow>
    bytes option \<Rightarrow> BuxtonDataType \<Rightarrow> int \<times> (BuxtonData \<times> bytes) option" where
  "read_entry st ct c n t = (case c n of
       None \<Rightarrow> (ENOENT, None)
     | Some (d, b) \<Rightarrow>
         if data_type d \<noteq> t \<and> t \<noteq> BUXTON_TYPE_UNSET then (EINVAL, None)
         else if \<not> client_may st ct ACCESS_READ b then (EPERM, None)
         else (0, Some (d, b)))"

definition read_spec :: "SmackState \<Rightarrow> bytes option \<Rightarrow> (bytes option \<Rightarrow> (BuxtonData \<times> bytes) option) \<Rightarrow>
    bytes option \<Rightarrow> BuxtonDataType \<Rightarrow> int \<times> (BuxtonData \<times> bytes) option" where
  "read_spec st ct c n t =
     (if n = None then read_entry st ct c n t
      else case read_entry st None c None BUXTON_TYPE_STRING of
          (r, None) \<Rightarrow> (r, None)
        | (_, Some (_, gb)) \<Rightarrow>
            if \<not> client_may st ct ACCESS_READ gb then (EPERM, None) else read_entry st ct c n t)"

text \<open>A stored pair stands for a value and the bytes of its label.\<close>

definition stands_for :: "(BuxtonData \<times> BuxtonString) option \<Rightarrow> (BuxtonData \<times> bytes) option \<Rightarrow> bool" where
  "stands_for out x \<longleftrightarrow> (\<forall>d b. x = Some (d, b) \<longrightarrow>
     (\<exists>lab. out = Some (d, lab) \<and> str_ok lab \<and> str_value lab \<noteq> None \<and> str_bytes lab = b))"

text \<open>When a write is let through, and the label the entry has afterwards.\<close>

definition write_allowed :: "SmackState \<Rightarrow> bytes option \<Rightarrow> (bytes option \<Rightarrow> (BuxtonData \<times> bytes) option) \<Rightarrow>
    bytes option \<Rightarrow> bool" where
  "write_allowed st ct c n = (case c None of
       None \<Rightarrow> False
     | Some (gd, gb) \<Rightarrow>
         data_type gd = BUXTON_TYPE_STRING \<and> client_may st ct ACCESS_WRITE gb \<and>
         (case c n of None \<Rightarrow> True | Some (d, b) \<Rightarrow> client_may st ct ACCESS_WRITE b))"

definition label_after :: "BuxtonString option \<Rightarrow> (BuxtonData \<times> bytes) option \<Rightarrow> bytes" where
  "label_after cl old = (case old of
       Some (_, b) \<Rightarrow> b
     | None \<Rightarrow> (case cl of Some c \<Rightarrow> str_bytes c | None \<Rightarrow> zstr ''_''))"

text \<open>The value that stands for an existing group.\<close>

definition group_value :: BuxtonData where
  "group_value = DString \<lparr>str_value = Some (zstr ''BUXTON_GROUP_VALUE''), str_length = 19\<rparr>"

lemma backend_for_layer_uid:
  "backend_for_layer m cfg (l\<lparr>layer_uid := u\<rparr>) = backend_for_layer m cfg l"
proof -
  have f: "layer_backend (l\<lparr>layer_uid := u\<rparr>) = layer_backend l" "layer_name (l\<lparr>layer_uid := u\<rparr>) = layer_name l"
    by simp_all
  have "init_backend m c (l\<lparr>layer_uid := u\<rparr>) = init_backend m c l" for c
    unfolding init_backend_def f ..
  then show ?thesis unfolding backend_for_layer_def f by presburger
qed

locale direct =
  kv_backend "dispatch (env_table env)" inv serves place contents
  for env :: "'s env" and inv serves place contents +
  assumes modules_load: "env_module_ok env b"
begin

definition ctl_ok :: "'s BuxtonControl \<Rightarrow> bool" where
  "ctl_ok ctl \<longleftrightarrow> config_ok (config ctl) \<and> smack_ready (rules ctl) \<and> inv (modules ctl) \<and>
     (\<forall>p g n d b. contents (modules ctl) p g n = Some (d, b) \<longrightarrow> NUL \<in> set b) \<and>
     (\<forall>n l. the_layer ctl n = Some l \<longrightarrow> serves l)"

lemma with_backend_ok:
  assumes "ctl_ok ctl" "l = l0\<lparr>layer_uid := client_uid ctl\<rparr>" "the_layer ctl n = Some l"
  obtains ctl' where "with_backend env ctl (n, l0) = Inr (env_table env (layer_backend l), l, ctl')"
    "modules ctl' = modules ctl" "same_setup ctl ctl'" "ctl_ok ctl'"
proof -
  note l_def = assms(2)
  obtain l1 where l1: "hm_get (layers (config ctl)) n = Some l1" "l = l1\<lparr>layer_uid := client_uid ctl\<rparr>"
    using assms(3) by (auto simp: the_layer_def)
  have lb: "layer_backend l1 = layer_backend l" "layer_backend l0 = layer_backend l"
    by (simp add: l1(2)) (simp add: l_def)
  have "backend_for_layer (env_module_ok env) (config ctl) l0 =
      backend_for_layer (env_module_ok env) (config ctl) l"
    by (simp add: l_def backend_for_layer_uid)
  then have same_b: "backend_for_layer (env_module_ok env) (config ctl) l0 =
      backend_for_layer (env_module_ok env) (config ctl) l1"
    by (simp add: l1(2) backend_for_layer_uid)
  obtain d m where dm: "backend_for_layer (env_module_ok env) (config ctl) l0 =
      Inr (Some (layer_backend l), (config ctl)\<lparr>databases := d, backends := m\<rparr>)"
    "config_ok ((config ctl)\<lparr>databases := d, backends := m\<rparr>)"
    using backend_for_layer_ok[of "config ctl" n l1 "env_module_ok env"] assms(1) l1(1) modules_load
    by (auto simp: ctl_ok_def same_b lb)
  define ctl' where "ctl' = ctl\<lparr>config := (config ctl)\<lparr>databases := d, backends := m,
      layers := hm_set (layers (config ctl)) n l\<rparr>\<rparr>"
  have run: "with_backend env ctl (n, l0) = Inr (env_table env (layer_backend l), l, ctl')"
    by (simp add: with_backend_def dm(1) ctl'_def Let_def flip: l_def)
  have cfg: "config_ok (config ctl')"
    using config_ok_touch[OF dm(2), of n l1 "client_uid ctl"] l1(1) by (simp add: ctl'_def flip: l1(2))
  have uniq: "snd e = l1" if "e \<in> set (layers (config ctl))" "fst e = n" for e
  proof -
    have "distinct (map fst (layers (config ctl)))"
      using assms(1) by (simp add: ctl_ok_def config_ok_def hm_ok_def)
    moreover have "(n, l1) \<in> set (layers (config ctl))"
      using l1(1) by (simp add: hm_get_def map_of_SomeD)
    ultimately show ?thesis using that by (cases e) (auto intro: eq_key_imp_eq_value)
  qed
  have "map (\<lambda>(n, l). (n, l\<lparr>layer_uid := 0\<rparr>)) (layers (config ctl)) =
      map (\<lambda>(n, l). (n, l\<lparr>layer_uid := 0\<rparr>)) (layers (config ctl'))"
    using uniq by (auto simp: ctl'_def hm_set_def l1(2))
  then have same: "same_setup ctl ctl'" by (simp add: same_setup_def ctl'_def)
  have "ctl_ok ctl'"
    using assms(1) cfg same_setup_layer[OF same] by (auto simp: ctl_ok_def ctl'_def)
  then show ?thesis
    using that[OF run _ same] by (simp add: ctl'_def)
qed

definition keeps :: "'s BuxtonControl \<Rightarrow> 's BuxtonControl \<Rightarrow> bool" where
  "keeps ctl ctl' \<longleftrightarrow> ctl_ok ctl' \<and> same_setup ctl ctl' \<and>
     contents (modules ctl') = contents (modules ctl)"

lemma keeps_trans: "keeps a b \<Longrightarrow> keeps b c \<Longrightarrow> keeps a c"
  by (auto simp: keeps_def intro: same_setup_trans)

lemma keepsI: "ctl_ok c' \<Longrightarrow> same_setup c c' \<Longrightarrow> contents (modules c') = contents (modules c) \<Longrightarrow> keeps c c'"
  by (simp add: keeps_def)

lemma keeps_layer: "keeps a b \<Longrightarrow> the_layer b n = the_layer a n"
  by (auto simp: keeps_def dest: same_setup_layer[of _ _ n])

lemma keeps_rules: "keeps a b \<Longrightarrow> rules b = rules a"
  by (auto simp: keeps_def same_setup_def)

lemma keeps_ok: "keeps a b \<Longrightarrow> ctl_ok b"
  by (simp add: keeps_def)

lemma keeps_modules:
  assumes "ctl_ok ctl" "inv w" "contents w = contents (modules ctl)"
  shows "keeps ctl (ctl\<lparr>modules := w\<rparr>)"
  using assms by (auto simp: keeps_def ctl_ok_def same_setup_def the_layer_def)

lemma find_layer_ok:
  assumes "cstrp (str_value s) = Inr ly" "the_layer ctl ly = Some l"
  obtains l0 where "find_layer ctl s = Inr (Some (ly, l0))" "hm_get (layers (config ctl)) ly = Some l0"
    "l = l0\<lparr>layer_uid := client_uid ctl\<rparr>"
  using assms by (auto simp: find_layer_def the_layer_def)

lemma be_dispatch:
  "be_get_value (env_table env (layer_backend l)) l = be_get_value (dispatch (env_table env)) l"
  "be_set_value (env_table env (layer_backend l)) l = be_set_value (dispatch (env_table env)) l"
  "be_unset_value (env_table env (layer_backend l)) l = be_unset_value (dispatch (env_table env)) l"
  by (simp_all add: dispatch_def)

text \<open>The call of the backend and the check of the entry's label, which end every read.\<close>

lemma backend_read:
  assumes "ctl_ok ctl" "serves l" "key_ok key g n"
  obtains out w where
    "be_get_value (env_table env (layer_backend l)) l key (modules ctl) =
       Inr (fst (read_entry (rules ctl) None (contents (modules ctl) (place l) g) n (key_type key)), out, w)"
    "stands_for out (snd (read_entry (rules ctl) None (contents (modules ctl) (place l) g) n (key_type key)))"
    "keeps ctl (ctl\<lparr>modules := w\<rparr>)"
proof (cases "contents (modules ctl) (place l) g n")
  case None
  obtain w where "be_get_value (dispatch (env_table env)) l key (modules ctl) = Inr (ENOENT, None, w)"
    "inv w" "contents w = contents (modules ctl)"
    using get_absent[OF _ assms(2,3) None] assms(1) by (auto simp: ctl_ok_def)
  then show ?thesis
    using that[of None w] keeps_modules[OF assms(1)] None
    by (auto simp: be_dispatch read_entry_def stands_for_def)
next
  case (Some x)
  obtain d b where x: "x = (d, b)" by (cases x)
  note c = Some[unfolded x]
  have inv: "inv (modules ctl)" using assms(1) by (simp add: ctl_ok_def)
  show ?thesis
  proof (cases "data_type d \<noteq> key_type key \<and> key_type key \<noteq> BUXTON_TYPE_UNSET")
    case True
    then have "key_type key \<noteq> data_type d" by auto
    then obtain w where "be_get_value (dispatch (env_table env)) l key (modules ctl) = Inr (EINVAL, None, w)"
      "inv w" "contents w = contents (modules ctl)"
      using get_mistyped[OF inv assms(2,3) c] True by auto
    then show ?thesis
      using that[of None w] keeps_modules[OF assms(1)] c True
      by (auto simp: be_dispatch read_entry_def stands_for_def)
  next
    case False
    then have "key_type key = data_type d \<or> key_type key = BUXTON_TYPE_UNSET" by auto
    from get_present[OF inv assms(2,3) c this] obtain w lab where
      "be_get_value (dispatch (env_table env)) l key (modules ctl) = Inr (0, Some (d, lab), w)"
      "inv w" "contents w = contents (modules ctl)" "str_ok lab" "str_value lab \<noteq> None" "str_bytes lab = b"
      by blast
    then show ?thesis
      using that[of "Some (d, lab)" w] keeps_modules[OF assms(1)] c False
      by (auto simp: be_dispatch read_entry_def stands_for_def client_may_def)
  qed
qed

lemma read_label:
  assumes "ctl_ok ctl" "snd (read_entry (rules ctl) ct (contents (modules ctl) p g) n t) = Some (d, b)"
  shows "NUL \<in> set b"
  using assms by (auto simp: read_entry_def ctl_ok_def split: option.splits if_splits)

lemma read_backend_ok:
  assumes "ctl_ok ctl" "serves l" "key_ok key g n" "client_as cl ct"
  obtains out ctl' where
    "read_backend (env_table env (layer_backend l)) l key cl ctl =
       Inr (fst (read_entry (rules ctl) ct (contents (modules ctl) (place l) g) n (key_type key)), out, ctl')"
    "stands_for out (snd (read_entry (rules ctl) ct (contents (modules ctl) (place l) g) n (key_type key)))"
    "keeps ctl ctl'"
proof -
  let ?c = "contents (modules ctl) (place l) g"
  obtain out w where g: "be_get_value (env_table env (layer_backend l)) l key (modules ctl) =
       Inr (fst (read_entry (rules ctl) None ?c n (key_type key)), out, w)"
    "stands_for out (snd (read_entry (rules ctl) None ?c n (key_type key)))"
    "keeps ctl (ctl\<lparr>modules := w\<rparr>)"
    using backend_read[OF assms(1-3)] .
  show ?thesis
  proof (cases "snd (read_entry (rules ctl) None ?c n (key_type key))")
    case None
    then have r: "fst (read_entry (rules ctl) None ?c n (key_type key)) \<noteq> 0"
      "read_entry (rules ctl) ct ?c n (key_type key) = read_entry (rules ctl) None ?c n (key_type key)"
      by (auto simp: read_entry_def client_may_def split: option.splits if_splits)
    have "read_backend (env_table env (layer_backend l)) l key cl ctl =
        Inr (fst (read_entry (rules ctl) None ?c n (key_type key)), out, ctl\<lparr>modules := w\<rparr>)"
      using r(1) by (cases out; cases cl) (auto simp: read_backend_def g(1))
    then show ?thesis
      by (intro that[OF _ _ g(3), of out]) (simp_all only: r(2) None stands_for_def, simp)
  next
    case (Some x)
    obtain d b where x: "x = (d, b)" by (cases x)
    have nul: "NUL \<in> set b" using read_label[OF assms(1)] Some x by blast
    obtain lab where lab: "out = Some (d, lab)" "str_ok lab" "str_value lab \<noteq> None" "str_bytes lab = b"
      using g(2) Some x by (auto simp: stands_for_def)
    have e: "fst (read_entry (rules ctl) None ?c n (key_type key)) = 0"
      "read_entry (rules ctl) ct ?c n (key_type key) =
         (if client_may (rules ctl) ct ACCESS_READ b then (0, Some (d, b)) else (EPERM, None))"
      using Some x by (auto simp: read_entry_def client_may_def split: option.splits if_splits)
    show ?thesis
    proof (cases cl)
      case None
      then have "ct = None" using assms(4) by (simp add: client_as_def)
      then show ?thesis
        using that[OF _ _ g(3), of out] g(1,2) Some x e None lab
        by (auto simp: read_backend_def client_may_def stands_for_def)
    next
      case (Some c)
      have cv: "str_value c \<noteq> None" using assms(4) Some by (auto simp: client_as_def dest: reads_as_value)
      have chk: "buxton_check_smack_access (rules ctl) c lab ACCESS_READ =
          Inr (client_may (rules ctl) ct ACCESS_READ b)"
        using client_check[of "rules ctl" c ct lab ACCESS_READ] assms(1,4) Some lab nul
        by (simp add: ctl_ok_def)
      show ?thesis
        using that[OF _ _ g(3)] g(1) e lab Some cv chk
        by (cases "client_may (rules ctl) ct ACCESS_READ b")
          (auto simp: read_backend_def stands_for_def)
    qed
  qed
qed

lemma get_group_ok:
  assumes "ctl_ok ctl" "key_ok key g None" "cstrp (str_value (key_layer key)) = Inr ly"
    "the_layer ctl ly = Some l" "client_as cl ct"
  obtains out ctl' where
    "buxton_direct_get_value_for_layer env key cl ctl =
       Inr (fst (read_entry (rules ctl) ct (contents (modules ctl) (place l) g) None (key_type key)), out, ctl')"
    "stands_for out (snd (read_entry (rules ctl) ct (contents (modules ctl) (place l) g) None (key_type key)))"
    "keeps ctl ctl'"
proof -
  obtain l0 where l0: "find_layer ctl (key_layer key) = Inr (Some (ly, l0))"
    "hm_get (layers (config ctl)) ly = Some l0" "l = l0\<lparr>layer_uid := client_uid ctl\<rparr>"
    using find_layer_ok[OF assms(3,4)] .
  obtain ctl1 where c1: "with_backend env ctl (ly, l0) = Inr (env_table env (layer_backend l), l, ctl1)"
    "modules ctl1 = modules ctl" "same_setup ctl ctl1" "ctl_ok ctl1"
    using with_backend_ok[OF assms(1) l0(3) assms(4)] .
  have k1: "keeps ctl ctl1" using c1 by (simp add: keeps_def)
  have sv: "serves l" using assms(1,4) by (simp add: ctl_ok_def)
  obtain out ctl' where r: "read_backend (env_table env (layer_backend l)) l key cl ctl1 =
       Inr (fst (read_entry (rules ctl1) ct (contents (modules ctl1) (place l) g) None (key_type key)), out, ctl')"
    "stands_for out (snd (read_entry (rules ctl1) ct (contents (modules ctl1) (place l) g) None (key_type key)))"
    "keeps ctl1 ctl'"
    using read_backend_ok[OF c1(4) sv assms(2,5)] .
  have nm: "str_value (key_name key) = None" "str_value (key_layer key) \<noteq> None"
    using assms(2) cstrp_value[OF assms(3)] by (auto simp: key_ok_def)
  have "buxton_direct_get_value_for_layer env key cl ctl =
      read_backend (env_table env (layer_backend l)) l key cl ctl1"
    by (subst buxton_direct_get_value_for_layer.simps) (simp add: nm l0(1) c1(1) split: option.splits)
  then show ?thesis
    using that[OF _ _ keeps_trans[OF k1 r(3)]] r(1,2) c1(2) keeps_rules[OF k1] by simp
qed

text \<open>The key of the group of a request.\<close>

lemma copy_group_ok:
  assumes "key_ok key g n" "layer_arg (env_slack env) (key_layer key) ly"
  obtains grp where "buxton_copy_key_group (env_slack env) key = Inr grp" "key_ok grp g None"
    "cstrp (str_value (key_layer grp)) = Inr ly" "key_type grp = BUXTON_TYPE_STRING"
proof -
  have "str_holds (key_group key) g" using assms(1) by (simp add: key_ok_def)
  from copy_member_holds[OF this] obtain c where c: "copy_member (env_slack env) (key_group key) = Inr c"
    "str_holds c g" by blast
  obtain l where l: "copy_member (env_slack env) (key_layer key) = Inr l" "cstrp (str_value l) = Inr ly"
    using assms(2) by (auto simp: layer_arg_def)
  let ?grp = "\<lparr>key_group = c, key_name = null_string, key_layer = l, key_type = BUXTON_TYPE_STRING\<rparr>"
  have "key_ok ?grp g None"
    by (rule key_ok_group[OF assms(1)]) (simp_all add: c null_string_def)
  then show ?thesis
    using that[of ?grp] c l by (simp add: buxton_copy_key_group_def)
qed

lemma get_layer_ok:
  assumes ctl: "ctl_ok ctl" and k: "key_ok key g n" and la: "layer_arg (env_slack env) (key_layer key) ly"
    and l: "the_layer ctl ly = Some l" and cl: "client_as cl ct"
  obtains out ctl' where
    "buxton_direct_get_value_for_layer env key cl ctl =
       Inr (fst (read_spec (rules ctl) ct (contents (modules ctl) (place l) g) n (key_type key)), out, ctl')"
    "stands_for out (snd (read_spec (rules ctl) ct (contents (modules ctl) (place l) g) n (key_type key)))"
    "keeps ctl ctl'"
proof (cases n)
  case None
  have "cstrp (str_value (key_layer key)) = Inr ly" using la by (simp add: layer_arg_def)
  then show ?thesis
    using get_group_ok[OF ctl _ _ l cl, of key g] k None that by (auto simp: read_spec_def)
next
  case (Some m)
  let ?c = "contents (modules ctl) (place l) g"
  have lk: "cstrp (str_value (key_layer key)) = Inr ly" using la by (simp add: layer_arg_def)
  obtain l0 where l0: "find_layer ctl (key_layer key) = Inr (Some (ly, l0))"
    "hm_get (layers (config ctl)) ly = Some l0" "l = l0\<lparr>layer_uid := client_uid ctl\<rparr>"
    using find_layer_ok[OF lk l] .
  obtain ctl1 where c1: "with_backend env ctl (ly, l0) = Inr (env_table env (layer_backend l), l, ctl1)"
    "modules ctl1 = modules ctl" "same_setup ctl ctl1" "ctl_ok ctl1"
    using with_backend_ok[OF ctl l0(3) l] .
  have k1: "keeps ctl ctl1" using c1 by (simp add: keeps_def)
  have sv: "serves l" using ctl l by (simp add: ctl_ok_def)
  have l1: "the_layer ctl1 ly = Some l" using keeps_layer[OF k1] l by simp
  obtain grp where grp: "buxton_copy_key_group (env_slack env) key = Inr grp" "key_ok grp g None"
    "cstrp (str_value (key_layer grp)) = Inr ly" "key_type grp = BUXTON_TYPE_STRING"
    using copy_group_ok[OF k la] .
  have "client_as None None" by (simp add: client_as_def)
  from get_group_ok[OF c1(4) grp(2,3) l1 this] obtain gout ctl2 where
    g: "buxton_direct_get_value_for_layer env grp None ctl1 =
       Inr (fst (read_entry (rules ctl) None ?c None BUXTON_TYPE_STRING), gout, ctl2)"
    "stands_for gout (snd (read_entry (rules ctl) None ?c None BUXTON_TYPE_STRING))" "keeps ctl1 ctl2"
    using c1(2) keeps_rules[OF k1] grp(4) by auto
  have k2: "keeps ctl ctl2" by (rule keeps_trans[OF k1 g(3)])
  have c2: "ctl_ok ctl2" "rules ctl2 = rules ctl" "contents (modules ctl2) = contents (modules ctl)"
    using k2 keeps_rules[OF k2] by (auto simp: keeps_def)
  have nm: "str_value (key_name key) \<noteq> None" "str_value (key_layer key) \<noteq> None"
    using k Some cstrp_value[OF lk] str_holds_value[of "key_name key" m] by (auto simp: key_ok_def)
  define tail where "tail = (bindE (case cl of
                Some c \<Rightarrow> buxton_check_smack_access (rules ctl2) c (out_label gout) ACCESS_READ
              | None \<Rightarrow> Inr True) (\<lambda>ok.
            if \<not> ok then Inr (EPERM, None, ctl2)
            else read_backend (env_table env (layer_backend l)) l key cl ctl2))"
  have run: "buxton_direct_get_value_for_layer env key cl ctl =
      (if fst (read_entry (rules ctl) None ?c None BUXTON_TYPE_STRING) \<noteq> 0
       then Inr (fst (read_entry (rules ctl) None ?c None BUXTON_TYPE_STRING), None, ctl2) else tail)"
  proof -
    obtain nv lv where "str_value (key_name key) = Some nv" "str_value (key_layer key) = Some lv"
      using nm by blast
    then show ?thesis
      by (subst buxton_direct_get_value_for_layer.simps, cases cl)
        (simp_all add: l0(1) c1(1) grp(1) g(1) tail_def out_label_def)
  qed
  show ?thesis
  proof (cases "snd (read_entry (rules ctl) None ?c None BUXTON_TYPE_STRING)")
    case None
    then have f: "fst (read_entry (rules ctl) None ?c None BUXTON_TYPE_STRING) \<noteq> 0"
      "read_spec (rules ctl) ct ?c n (key_type key) =
         (fst (read_entry (rules ctl) None ?c None BUXTON_TYPE_STRING), None)"
      using Some by (auto simp: read_spec_def read_entry_def client_may_def split: option.splits if_splits)
    show ?thesis
      by (rule that[OF _ _ k2, of None]) (use f run in \<open>simp_all add: stands_for_def\<close>)
  next
    case (Some x)
    obtain gd gb where x: "x = (gd, gb)" by (cases x)
    have f: "fst (read_entry (rules ctl) None ?c None BUXTON_TYPE_STRING) = 0"
      "read_spec (rules ctl) ct ?c n (key_type key) =
         (if client_may (rules ctl) ct ACCESS_READ gb then read_entry (rules ctl) ct ?c n (key_type key)
          else (EPERM, None))"
      using Some \<open>n = Some m\<close> x
      by (auto simp: read_spec_def read_entry_def client_may_def split: option.splits if_splits)
    have nul: "NUL \<in> set gb" using read_label[OF ctl] Some x by blast
    obtain lab where lab: "gout = Some (gd, lab)" "str_ok lab" "str_bytes lab = gb"
      using g(2) Some x by (auto simp: stands_for_def)
    have chk: "(case cl of Some c \<Rightarrow> buxton_check_smack_access (rules ctl2) c (out_label gout) ACCESS_READ
        | None \<Rightarrow> Inr True) = Inr (client_may (rules ctl) ct ACCESS_READ gb)"
    proof (cases cl)
      case None
      then show ?thesis using cl by (simp add: client_as_def client_may_def)
    next
      case (Some c)
      then show ?thesis
        using client_check[of "rules ctl" c ct lab ACCESS_READ] ctl cl lab nul c2
        by (simp add: ctl_ok_def out_label_def)
    qed
    obtain out ctl3 where r: "read_backend (env_table env (layer_backend l)) l key cl ctl2 =
         Inr (fst (read_entry (rules ctl) ct ?c n (key_type key)), out, ctl3)"
      "stands_for out (snd (read_entry (rules ctl) ct ?c n (key_type key)))" "keeps ctl2 ctl3"
      using read_backend_ok[OF c2(1) sv k cl] c2(2,3) by auto
    show ?thesis
    proof (cases "client_may (rules ctl) ct ACCESS_READ gb")
      case True
      show ?thesis
        by (rule that[OF _ _ keeps_trans[OF k2 r(3)], of out])
          (use True f run r(1,2) chk in \<open>simp_all add: tail_def\<close>)
    next
      case False
      show ?thesis
        by (rule that[OF _ _ k2, of None]) (use False f run chk in \<open>simp_all add: tail_def stands_for_def\<close>)
    qed
  qed
qed

lemma backend_set_ok:
  assumes "ctl_ok ctl" "l = l0\<lparr>layer_uid := client_uid ctl\<rparr>" "the_layer ctl ly = Some l"
    "key_ok key g n" "data_ok d" "str_ok lab" "str_value lab \<noteq> None" "NUL \<in> set (str_bytes lab)"
  obtains ctl' where "backend_set env ctl (ly, l0) key (Some d) lab = Inr (True, ctl')" "ctl_ok ctl'"
    "same_setup ctl ctl'" "contents (modules ctl') =
       kv_upd (contents (modules ctl)) (place l) g n (Some (as_stored d, str_bytes lab))"
proof -
  obtain ctl1 where c1: "with_backend env ctl (ly, l0) = Inr (env_table env (layer_backend l), l, ctl1)"
    "modules ctl1 = modules ctl" "same_setup ctl ctl1" "ctl_ok ctl1"
    using with_backend_ok[OF assms(1-3)] .
  have "inv (modules ctl)" "serves l" using assms(1,3) by (auto simp: ctl_ok_def)
  from set_data[OF this assms(4-7)] obtain w where
    w: "be_set_value (env_table env (layer_backend l)) l key (Some d) lab (modules ctl) = Inr (0, w)"
    "inv w" "contents w = kv_upd (contents (modules ctl)) (place l) g n (Some (as_stored d, str_bytes lab))"
    unfolding be_dispatch by blast
  have "ctl_ok (ctl1\<lparr>modules := w\<rparr>)"
    using c1(2,4) w(2,3) assms(8) by (auto simp: ctl_ok_def the_layer_def)
  moreover have "same_setup ctl (ctl1\<lparr>modules := w\<rparr>)" using c1(3) by (simp add: same_setup_def)
  ultimately show ?thesis
    using that[of "ctl1\<lparr>modules := w\<rparr>"] w c1(1,2) by (simp add: backend_set_def)
qed

lemma backend_label_ok:
  assumes "ctl_ok ctl" "l = l0\<lparr>layer_uid := client_uid ctl\<rparr>" "the_layer ctl ly = Some l"
    "key_ok key g n" "str_ok lab" "str_value lab \<noteq> None" "NUL \<in> set (str_bytes lab)"
  obtains ctl' where "backend_set env ctl (ly, l0) key None lab =
      Inr (contents (modules ctl) (place l) g n \<noteq> None, ctl')" "ctl_ok ctl'"
    "same_setup ctl ctl'" "contents (modules ctl') =
       kv_upd (contents (modules ctl)) (place l) g n
         (map_option (\<lambda>(d, _). (d, str_bytes lab)) (contents (modules ctl) (place l) g n))"
proof -
  obtain ctl1 where c1: "with_backend env ctl (ly, l0) = Inr (env_table env (layer_backend l), l, ctl1)"
    "modules ctl1 = modules ctl" "same_setup ctl ctl1" "ctl_ok ctl1"
    using with_backend_ok[OF assms(1-3)] .
  have "inv (modules ctl)" "serves l" using assms(1,3) by (auto simp: ctl_ok_def)
  from set_label[OF this assms(4-6)] obtain w where
    w: "be_set_value (env_table env (layer_backend l)) l key None lab (modules ctl) =
          Inr (if contents (modules ctl) (place l) g n = None then ENOENT else 0, w)"
    "inv w" "contents w = kv_upd (contents (modules ctl)) (place l) g n
         (map_option (\<lambda>(d, _). (d, str_bytes lab)) (contents (modules ctl) (place l) g n))"
    unfolding be_dispatch by blast
  have "ctl_ok (ctl1\<lparr>modules := w\<rparr>)"
    using c1(2,4) w(2,3) assms(7) by (auto simp: ctl_ok_def the_layer_def)
  moreover have "same_setup ctl (ctl1\<lparr>modules := w\<rparr>)" using c1(3) by (simp add: same_setup_def)
  ultimately show ?thesis
    using that[of "ctl1\<lparr>modules := w\<rparr>"] w c1(1,2) by (auto simp: backend_set_def)
qed

lemma backend_unset_name_ok:
  assumes "ctl_ok ctl" "l = l0\<lparr>layer_uid := client_uid ctl\<rparr>" "the_layer ctl ly = Some l"
    "key_ok key g (Some m)"
  obtains ctl' where "backend_unset env ctl (ly, l0) key =
      Inr (contents (modules ctl) (place l) g (Some m) \<noteq> None, ctl')" "ctl_ok ctl'"
    "same_setup ctl ctl'" "contents (modules ctl') = kv_upd (contents (modules ctl)) (place l) g (Some m) None"
proof -
  obtain ctl1 where c1: "with_backend env ctl (ly, l0) = Inr (env_table env (layer_backend l), l, ctl1)"
    "modules ctl1 = modules ctl" "same_setup ctl ctl1" "ctl_ok ctl1"
    using with_backend_ok[OF assms(1-3)] .
  have "inv (modules ctl)" "serves l" using assms(1,3) by (auto simp: ctl_ok_def)
  from unset_name[OF this assms(4)] obtain w where
    w: "be_unset_value (env_table env (layer_backend l)) l key (modules ctl) =
          Inr (if contents (modules ctl) (place l) g (Some m) = None then ENOENT else 0, w)"
    "inv w" "contents w = kv_upd (contents (modules ctl)) (place l) g (Some m) None"
    unfolding be_dispatch by blast
  have "ctl_ok (ctl1\<lparr>modules := w\<rparr>)"
    using c1(2,4) w(2,3) by (auto simp: ctl_ok_def the_layer_def)
  moreover have "same_setup ctl (ctl1\<lparr>modules := w\<rparr>)" using c1(3) by (simp add: same_setup_def)
  ultimately show ?thesis
    using that[of "ctl1\<lparr>modules := w\<rparr>"] w c1(1,2) by (auto simp: backend_unset_def)
qed

lemma backend_unset_group_ok:
  assumes "ctl_ok ctl" "l = l0\<lparr>layer_uid := client_uid ctl\<rparr>" "the_layer ctl ly = Some l"
    "key_ok key g None" "contents (modules ctl) (place l) g None \<noteq> None"
  obtains ctl' where "backend_unset env ctl (ly, l0) key = Inr (True, ctl')"
    "ctl_ok ctl'" "same_setup ctl ctl'"
    "contents (modules ctl') = (\<lambda>p g' n. if p = place l \<and> g' = g then None else contents (modules ctl) p g' n)"
proof -
  obtain ctl1 where c1: "with_backend env ctl (ly, l0) = Inr (env_table env (layer_backend l), l, ctl1)"
    "modules ctl1 = modules ctl" "same_setup ctl ctl1" "ctl_ok ctl1"
    using with_backend_ok[OF assms(1-3)] .
  have "inv (modules ctl)" "serves l" using assms(1,3) by (auto simp: ctl_ok_def)
  from unset_group[OF this assms(4,5)] obtain w where
    w: "be_unset_value (env_table env (layer_backend l)) l key (modules ctl) = Inr (0, w)" "inv w"
    "contents w = (\<lambda>p g' n. if p = place l \<and> g' = g then None else contents (modules ctl) p g' n)"
    unfolding be_dispatch by blast
  have "NUL \<in> set b" if "contents w p g' n = Some (d, b)" for p g' n d b
    using that assms(1) unfolding ctl_ok_def w(3) by (auto split: if_splits)
  then have "ctl_ok (ctl1\<lparr>modules := w\<rparr>)"
    using c1(2,4) w(2) by (auto simp: ctl_ok_def the_layer_def)
  moreover have "same_setup ctl (ctl1\<lparr>modules := w\<rparr>)" using c1(3) by (simp add: same_setup_def)
  ultimately show ?thesis
    using that[of "ctl1\<lparr>modules := w\<rparr>"] w c1(1,2) by (simp add: backend_unset_def)
qed

lemma client_check_some:
  assumes "ctl_ok ctl" "client_as cl ct" "str_ok lab" "NUL \<in> set (str_bytes lab)"
    "request \<in> {ACCESS_READ, ACCESS_WRITE}"
  shows "(case cl of None \<Rightarrow> Inr True | Some c \<Rightarrow> buxton_check_smack_access (rules ctl) c lab request) =
     Inr (client_may (rules ctl) ct request (str_bytes lab))"
proof (cases cl)
  case None
  then show ?thesis using assms(2) by (simp add: client_as_def client_may_def)
next
  case (Some c)
  then show ?thesis
    using client_check[OF _ _ assms(3-5), of "rules ctl" c ct] assms(1,2) by (simp add: ctl_ok_def)
qed

text \<open>The lookup of the group that every write starts with.\<close>

lemma group_lookup:
  assumes ctl: "ctl_ok ctl" and k: "key_ok key g n" and la: "layer_arg (env_slack env) (key_layer key) ly"
    and l: "the_layer ctl ly = Some l"
  obtains grp ret gout ctl1 where "buxton_copy_key_group (env_slack env) key = Inr grp"
    "buxton_direct_get_value_for_layer env grp None ctl = Inr (ret, gout, ctl1)" "keeps ctl ctl1"
    "ret \<noteq> 0 \<longrightarrow> \<not> (\<exists>gd gb. contents (modules ctl) (place l) g None = Some (gd, gb) \<and>
       data_type gd = BUXTON_TYPE_STRING)"
    "ret = 0 \<longrightarrow> (\<exists>gd gb. contents (modules ctl) (place l) g None = Some (gd, gb) \<and>
       data_type gd = BUXTON_TYPE_STRING \<and> str_ok (out_label gout) \<and>
       str_bytes (out_label gout) = gb \<and> NUL \<in> set gb)"
proof -
  obtain grp where grp: "buxton_copy_key_group (env_slack env) key = Inr grp" "key_ok grp g None"
    "cstrp (str_value (key_layer grp)) = Inr ly" "key_type grp = BUXTON_TYPE_STRING"
    using copy_group_ok[OF k la] .
  let ?r = "read_entry (rules ctl) None (contents (modules ctl) (place l) g) None BUXTON_TYPE_STRING"
  have "client_as None None" by (simp add: client_as_def)
  from get_group_ok[OF ctl grp(2,3) l this] obtain gout ctl1 where
    g: "buxton_direct_get_value_for_layer env grp None ctl = Inr (fst ?r, gout, ctl1)"
    "stands_for gout (snd ?r)" "keeps ctl ctl1"
    using grp(4) by auto
  show ?thesis
  proof (rule that[OF grp(1) g(1,3)]; rule impI)
    assume "fst ?r \<noteq> 0"
    then show "\<not> (\<exists>gd gb. contents (modules ctl) (place l) g None = Some (gd, gb) \<and>
       data_type gd = BUXTON_TYPE_STRING)"
      by (auto simp: read_entry_def client_may_def)
  next
    assume "fst ?r = 0"
    then obtain gd gb where x: "contents (modules ctl) (place l) g None = Some (gd, gb)"
      "data_type gd = BUXTON_TYPE_STRING" "snd ?r = Some (gd, gb)"
      by (auto simp: read_entry_def client_may_def split: option.splits if_splits)
    then have "NUL \<in> set gb" using read_label[OF ctl x(3)] by simp
    moreover obtain lab where "gout = Some (gd, lab)" "str_ok lab" "str_bytes lab = gb"
      using g(2) x(3) by (auto simp: stands_for_def)
    ultimately show "\<exists>gd gb. contents (modules ctl) (place l) g None = Some (gd, gb) \<and>
       data_type gd = BUXTON_TYPE_STRING \<and> str_ok (out_label gout) \<and>
       str_bytes (out_label gout) = gb \<and> NUL \<in> set gb"
      using x by (auto simp: out_label_def)
  qed
qed

text \<open>The lookup of the entry itself, once the group is known to exist.\<close>

lemma entry_lookup:
  assumes ctl: "ctl_ok ctl" and k: "key_ok key g n" and la: "layer_arg (env_slack env) (key_layer key) ly"
    and l: "the_layer ctl ly = Some l"
    and grp: "contents (modules ctl) (place l) g None = Some (gd, gb)" "data_type gd = BUXTON_TYPE_STRING"
  obtains out ctl1 where "buxton_direct_get_value_for_layer env key None ctl =
      Inr (fst (read_entry (rules ctl) None (contents (modules ctl) (place l) g) n (key_type key)), out, ctl1)"
    "stands_for out (snd (read_entry (rules ctl) None (contents (modules ctl) (place l) g) n (key_type key)))"
    "keeps ctl ctl1"
proof -
  let ?c = "contents (modules ctl) (place l) g"
  have "client_as None None" by (simp add: client_as_def)
  moreover have "read_spec (rules ctl) None ?c n (key_type key) = read_entry (rules ctl) None ?c n (key_type key)"
    using grp by (auto simp: read_spec_def read_entry_def client_may_def)
  ultimately show ?thesis using get_layer_ok[OF ctl k la l, of None None] that by metis
qed

lemma new_label_ok:
  assumes "client_as cl ct"
  defines "lab \<equiv> case cl of None \<Rightarrow> default_label | Some c \<Rightarrow> c"
  shows "str_ok lab \<and> str_value lab \<noteq> None \<and> NUL \<in> set (str_bytes lab) \<and>
    str_bytes lab = label_after cl None"
proof (cases cl)
  case None
  have h: "str_holds default_label ''_''" unfolding default_label_def by (rule str_holds_pack) simp_all
  then show ?thesis
    using None str_holds_ok[OF h] str_holds_value[OF h] str_holds_bytes[OF h]
    by (simp add: lab_def label_after_def zstr_def)
next
  case (Some c)
  then obtain t where t: "reads_as c t" using assms(1) by (auto simp: client_as_def)
  then have "NUL \<in> set (str_bytes c)" by (auto simp: reads_as_def cstr_def split: if_splits)
  then show ?thesis
    using Some t reads_as_value[OF t] by (simp add: lab_def label_after_def reads_as_def)
qed

lemma set_value_ok:
  assumes ctl: "ctl_ok ctl" and k: "key_ok key g n" and la: "layer_arg (env_slack env) (key_layer key) ly"
    and l: "the_layer ctl ly = Some l" and cl: "client_as cl ct" and d: "data_ok d"
  defines "c \<equiv> contents (modules ctl) (place l) g"
  defines "ok \<equiv> write_allowed (rules ctl) ct c n \<and> \<not> layer_readonly l"
  shows "\<exists>ctl'. buxton_direct_set_value env key d cl ctl = Inr (ok, ctl') \<and> ctl_ok ctl' \<and>
    same_setup ctl ctl' \<and> contents (modules ctl') =
       (if ok then kv_upd (contents (modules ctl)) (place l) g n (Some (as_stored d, label_after cl (c n)))
        else contents (modules ctl))"
proof -
  obtain grp ret gout ctl1 where g: "buxton_copy_key_group (env_slack env) key = Inr grp"
    "buxton_direct_get_value_for_layer env grp None ctl = Inr (ret, gout, ctl1)" "keeps ctl ctl1"
    "ret \<noteq> 0 \<longrightarrow> \<not> (\<exists>gd gb. c None = Some (gd, gb) \<and> data_type gd = BUXTON_TYPE_STRING)"
    "ret = 0 \<longrightarrow> (\<exists>gd gb. c None = Some (gd, gb) \<and> data_type gd = BUXTON_TYPE_STRING \<and>
       str_ok (out_label gout) \<and> str_bytes (out_label gout) = gb \<and> NUL \<in> set gb)"
    using group_lookup[OF ctl k la l] unfolding c_def .
  have c1: "ctl_ok ctl1" "rules ctl1 = rules ctl" "contents (modules ctl1) = contents (modules ctl)"
    "the_layer ctl1 ly = Some l"
    using g(3) keeps_rules[OF g(3)] keeps_layer[OF g(3)] l by (auto simp: keeps_def)
  have fail: ?thesis if "buxton_direct_set_value env key d cl ctl = Inr (False, x)" "keeps ctl x" "\<not> ok" for x
    using that by (auto simp: keeps_def)
  show ?thesis
  proof (cases "ret = 0")
    case False
    then have "\<not> ok" using g(4) by (auto simp: ok_def write_allowed_def split: option.splits)
    then show ?thesis
      by (intro fail[OF _ g(3)]) (use False in \<open>simp_all add: buxton_direct_set_value_def g(1,2)\<close>)
  next
    case True
    then obtain gd gb where gg: "c None = Some (gd, gb)" "data_type gd = BUXTON_TYPE_STRING"
      "str_ok (out_label gout)" "str_bytes (out_label gout) = gb" "NUL \<in> set gb"
      using g(5) by blast
    have chk: "(case cl of None \<Rightarrow> Inr True
        | Some c \<Rightarrow> buxton_check_smack_access (rules ctl1) c (out_label gout) ACCESS_WRITE) =
        Inr (client_may (rules ctl) ct ACCESS_WRITE gb)"
      using client_check_some[OF c1(1) cl gg(3), of ACCESS_WRITE] gg(4,5) c1(2) by simp
    let ?key = "key\<lparr>key_type := BUXTON_TYPE_UNSET\<rparr>"
    have k': "key_ok ?key g n" "layer_arg (env_slack env) (key_layer ?key) ly"
      using k la by (auto simp: key_ok_def split: option.splits)
    obtain out ctl2 where e: "buxton_direct_get_value_for_layer env ?key None ctl1 =
        Inr (fst (read_entry (rules ctl) None c n BUXTON_TYPE_UNSET), out, ctl2)"
      "stands_for out (snd (read_entry (rules ctl) None c n BUXTON_TYPE_UNSET))" "keeps ctl1 ctl2"
      using entry_lookup[OF c1(1) k' c1(4)] gg(1,2) c1(2,3) unfolding c_def by auto
    have k2: "keeps ctl ctl2" by (rule keeps_trans[OF g(3) e(3)])
    have c2: "ctl_ok ctl2" "rules ctl2 = rules ctl" "contents (modules ctl2) = contents (modules ctl)"
      "the_layer ctl2 ly = Some l" "same_setup ctl ctl2"
      using k2 keeps_rules[OF k2] keeps_layer[OF k2] l by (auto simp: keeps_def)
    have lk: "cstrp (str_value (key_layer key)) = Inr ly" using la by (simp add: layer_arg_def)
    obtain l0 where l0: "find_layer ctl2 (key_layer key) = Inr (Some (ly, l0))"
      "hm_get (layers (config ctl2)) ly = Some l0" "l = l0\<lparr>layer_uid := client_uid ctl2\<rparr>"
      using find_layer_ok[OF lk c2(4)] .
    have ro: "layer_readonly l0 = layer_readonly l" by (simp add: l0(3))
    define lab where "lab = (case c n of None \<Rightarrow> (case cl of None \<Rightarrow> default_label | Some c \<Rightarrow> c)
      | Some _ \<Rightarrow> out_label out)"
    have labels: "str_ok lab \<and> str_value lab \<noteq> None \<and> NUL \<in> set (str_bytes lab) \<and>
       str_bytes lab = label_after cl (c n)"
    proof (cases "c n")
      case None
      then have e: "lab = (case cl of None \<Rightarrow> default_label | Some c \<Rightarrow> c)" by (simp add: lab_def)
      show ?thesis unfolding e None by (rule new_label_ok[OF cl])
    next
      case (Some x)
      obtain d' b where x: "x = (d', b)" by (cases x)
      then obtain lb where "out = Some (d', lb)" "str_ok lb" "str_value lb \<noteq> None" "str_bytes lb = b"
        using e(2) Some by (auto simp: stands_for_def read_entry_def client_may_def)
      moreover have "NUL \<in> set b" using ctl Some x unfolding ctl_ok_def c_def by blast
      ultimately show ?thesis using Some x by (simp add: lab_def label_after_def out_label_def)
    qed
    have run: "buxton_direct_set_value env key d cl ctl =
       (if write_allowed (rules ctl) ct c n \<and> \<not> layer_readonly l
        then backend_set env ctl2 (ly, l0) key (Some d) lab
        else Inr (False, if client_may (rules ctl) ct ACCESS_WRITE gb then ctl2 else ctl1))"
    proof (cases "client_may (rules ctl) ct ACCESS_WRITE gb")
      case False
      then show ?thesis
        using gg(1,2) True by (simp add: buxton_direct_set_value_def g(1,2) chk write_allowed_def)
    next
      case may: True
      show ?thesis
      proof (cases "c n")
        case None
        then show ?thesis
          using gg(1,2) True may e(1) l0(1) ro
          by (simp add: buxton_direct_set_value_def g(1,2) chk write_allowed_def read_entry_def lab_def)
      next
        case (Some x)
        obtain d' b where x: "x = (d', b)" by (cases x)
        have ch: "(case cl of None \<Rightarrow> Inr (Some lab)
            | Some c \<Rightarrow> bindE (buxton_check_smack_access (rules ctl2) c lab ACCESS_WRITE)
                (\<lambda>ok. Inr (if ok then Some lab else None))) =
            Inr (if client_may (rules ctl) ct ACCESS_WRITE b then Some lab else None)"
          using client_check_some[OF c2(1) cl, of lab ACCESS_WRITE] labels Some x c2(2) cl
          by (cases cl) (auto simp: label_after_def client_as_def client_may_def)
        have lo: "lab = out_label out" using Some by (simp add: lab_def)
        have "fst (read_entry (rules ctl) None c n BUXTON_TYPE_UNSET) = 0"
          using Some x by (simp add: read_entry_def client_may_def)
        then show ?thesis
          using gg(1,2) True may e(1) l0(1) ro Some x
          by (simp add: buxton_direct_set_value_def g(1,2) chk write_allowed_def lo ch[unfolded lo])
      qed
    qed
    show ?thesis
    proof (cases ok)
      case False
      then show ?thesis
        by (intro fail[of "if client_may (rules ctl) ct ACCESS_WRITE gb then ctl2 else ctl1"])
          (use run g(3) k2 in \<open>auto simp: ok_def\<close>)
    next
      case True
      obtain ctl' where s: "backend_set env ctl2 (ly, l0) key (Some d) lab = Inr (True, ctl')" "ctl_ok ctl'"
        "same_setup ctl2 ctl'" "contents (modules ctl') =
           kv_upd (contents (modules ctl2)) (place l) g n (Some (as_stored d, str_bytes lab))"
        using backend_set_ok[OF c2(1) l0(3) c2(4) k d] labels by blast
      then show ?thesis
        using run True labels c2(3) same_setup_trans[OF c2(5) s(3)] by (simp add: ok_def)
    qed
  qed
qed

lemma unset_value_ok:
  assumes ctl: "ctl_ok ctl" and k: "key_ok key g (Some m)"
    and la: "layer_arg (env_slack env) (key_layer key) ly"
    and l: "the_layer ctl ly = Some l" and cl: "client_as cl ct"
  defines "c \<equiv> contents (modules ctl) (place l) g"
  defines "ok \<equiv> write_allowed (rules ctl) ct c (Some m) \<and> \<not> layer_readonly l \<and>
    (\<exists>d b. c (Some m) = Some (d, b) \<and>
       (ct = None \<or> key_type key = data_type d \<or> key_type key = BUXTON_TYPE_UNSET))"
  shows "\<exists>ctl'. buxton_direct_unset_value env key cl ctl = Inr (ok, ctl') \<and> ctl_ok ctl' \<and>
    same_setup ctl ctl' \<and> contents (modules ctl') =
       (if ok then kv_upd (contents (modules ctl)) (place l) g (Some m) None
        else contents (modules ctl))"
proof -
  obtain grp ret gout ctl1 where g: "buxton_copy_key_group (env_slack env) key = Inr grp"
    "buxton_direct_get_value_for_layer env grp None ctl = Inr (ret, gout, ctl1)" "keeps ctl ctl1"
    "ret \<noteq> 0 \<longrightarrow> \<not> (\<exists>gd gb. c None = Some (gd, gb) \<and> data_type gd = BUXTON_TYPE_STRING)"
    "ret = 0 \<longrightarrow> (\<exists>gd gb. c None = Some (gd, gb) \<and> data_type gd = BUXTON_TYPE_STRING \<and>
       str_ok (out_label gout) \<and> str_bytes (out_label gout) = gb \<and> NUL \<in> set gb)"
    using group_lookup[OF ctl k la l] unfolding c_def .
  have c1: "ctl_ok ctl1" "rules ctl1 = rules ctl" "contents (modules ctl1) = contents (modules ctl)"
    "the_layer ctl1 ly = Some l"
    using g(3) keeps_rules[OF g(3)] keeps_layer[OF g(3)] l by (auto simp: keeps_def)
  have fail: ?thesis if "buxton_direct_unset_value env key cl ctl = Inr (False, x)" "keeps ctl x" "\<not> ok" for x
    using that by (auto simp: keeps_def)
  define tail where "tail ctl2 = bindE (find_layer ctl2 (key_layer key)) (\<lambda>found. case found of
         None \<Rightarrow> Inr (False, ctl2)
       | Some nl \<Rightarrow> if layer_readonly (snd nl) then Inr (False, ctl2) else backend_unset env ctl2 nl key)" for ctl2
  have tail: "\<exists>ctl'. tail ctl2 = Inr (c (Some m) \<noteq> None \<and> \<not> layer_readonly l, ctl') \<and> ctl_ok ctl' \<and>
      same_setup ctl ctl' \<and> contents (modules ctl') =
        (if c (Some m) \<noteq> None \<and> \<not> layer_readonly l
         then kv_upd (contents (modules ctl)) (place l) g (Some m) None else contents (modules ctl))"
    if k2: "keeps ctl ctl2" for ctl2
  proof -
    have c2: "ctl_ok ctl2" "contents (modules ctl2) = contents (modules ctl)"
      "the_layer ctl2 ly = Some l" "same_setup ctl ctl2"
      using k2 keeps_layer[OF k2] l by (auto simp: keeps_def)
    have lk: "cstrp (str_value (key_layer key)) = Inr ly" using la by (simp add: layer_arg_def)
    obtain l0 where l0: "find_layer ctl2 (key_layer key) = Inr (Some (ly, l0))"
      "hm_get (layers (config ctl2)) ly = Some l0" "l = l0\<lparr>layer_uid := client_uid ctl2\<rparr>"
      using find_layer_ok[OF lk c2(3)] .
    obtain ctl' where u: "backend_unset env ctl2 (ly, l0) key = Inr (c (Some m) \<noteq> None, ctl')"
      "ctl_ok ctl'" "same_setup ctl2 ctl'"
      "contents (modules ctl') = kv_upd (contents (modules ctl2)) (place l) g (Some m) None"
      using backend_unset_name_ok[OF c2(1) l0(3) c2(3) k] unfolding c_def c2(2) .
    have "kv_upd (contents (modules ctl)) (place l) g (Some m) None = contents (modules ctl)"
      if "c (Some m) = None" using that by (auto simp: fun_eq_iff c_def)
    then show ?thesis
      using u c2 l0 same_setup_trans[OF c2(4) u(3)]
      by (cases "c (Some m)"; cases "layer_readonly l0") (simp_all add: tail_def)
  qed
  show ?thesis
  proof (cases "ret = 0")
    case False
    then have "\<not> ok" using g(4) by (auto simp: ok_def write_allowed_def split: option.splits)
    then show ?thesis
      by (intro fail[OF _ g(3)]) (use False in \<open>simp_all add: buxton_direct_unset_value_def g(1,2)\<close>)
  next
    case True
    then obtain gd gb where gg: "c None = Some (gd, gb)" "data_type gd = BUXTON_TYPE_STRING"
      "str_ok (out_label gout)" "str_bytes (out_label gout) = gb" "NUL \<in> set gb"
      using g(5) by blast
    show ?thesis
    proof (cases cl)
      case None
      then have ct: "ct = None" using cl by (simp add: client_as_def)
      have "buxton_direct_unset_value env key cl ctl = tail ctl1"
        using True None by (simp add: buxton_direct_unset_value_def g(1,2) tail_def)
      moreover have "ok \<longleftrightarrow> c (Some m) \<noteq> None \<and> \<not> layer_readonly l"
        using gg(1,2) ct by (auto simp: ok_def write_allowed_def client_may_def split: option.splits)
      ultimately show ?thesis using tail[OF g(3)] by simp
    next
      case (Some s)
      have chk: "buxton_check_smack_access (rules ctl1) s (out_label gout) ACCESS_WRITE =
          Inr (client_may (rules ctl) ct ACCESS_WRITE gb)"
        using client_check_some[OF c1(1) cl gg(3), of ACCESS_WRITE] gg(4,5) c1(2) Some by simp
      let ?r = "read_entry (rules ctl) None c (Some m) (key_type key)"
      obtain out ctl2 where e: "buxton_direct_get_value_for_layer env key None ctl1 = Inr (fst ?r, out, ctl2)"
        "stands_for out (snd ?r)" "keeps ctl1 ctl2"
        using entry_lookup[OF c1(1) k la c1(4)] gg(1,2) c1(2,3) unfolding c_def by auto
      have k2: "keeps ctl ctl2" by (rule keeps_trans[OF g(3) e(3)])
      have ct: "ct \<noteq> None" using Some cl by (auto simp: client_as_def)
      show ?thesis
      proof (cases "client_may (rules ctl) ct ACCESS_WRITE gb")
        case False
        then have "\<not> ok" using gg(1) by (auto simp: ok_def write_allowed_def)
        then show ?thesis
          by (intro fail[OF _ g(3)])
            (use True False Some chk in \<open>simp_all add: buxton_direct_unset_value_def g(1,2)\<close>)
      next
        case may: True
        show ?thesis
        proof (cases "snd ?r")
          case None
          then have "fst ?r \<noteq> 0" "\<not> ok"
            using ct by (auto simp: ok_def read_entry_def client_may_def split: option.splits if_splits)
          then show ?thesis
            by (intro fail[OF _ k2])
              (use True may Some chk e(1) in \<open>simp_all add: buxton_direct_unset_value_def g(1,2)\<close>)
        next
          case r: (Some x)
          obtain d b where x: "x = (d, b)" by (cases x)
          have c: "c (Some m) = Some (d, b)" "fst ?r = 0" "key_type key = data_type d \<or> key_type key = BUXTON_TYPE_UNSET"
            using r x by (auto simp: read_entry_def client_may_def split: option.splits if_splits)
          have nul: "NUL \<in> set b" using ctl c(1) unfolding ctl_ok_def c_def by blast
          obtain lb where lb: "out = Some (d, lb)" "str_ok lb" "str_bytes lb = b"
            using e(2) r x by (auto simp: stands_for_def)
          have "buxton_check_smack_access (rules ctl2) s (out_label out) ACCESS_WRITE =
              Inr (client_may (rules ctl) ct ACCESS_WRITE b)"
            using client_check_some[OF keeps_ok[OF k2] cl lb(2), of ACCESS_WRITE] lb nul
              keeps_rules[OF k2] Some by (simp add: out_label_def)
          then have run: "buxton_direct_unset_value env key cl ctl =
              (if client_may (rules ctl) ct ACCESS_WRITE b then tail ctl2 else Inr (False, ctl2))"
            using True may Some chk e(1) c(2)
            by (simp add: buxton_direct_unset_value_def g(1,2) tail_def)
          have "ok \<longleftrightarrow> client_may (rules ctl) ct ACCESS_WRITE b \<and> \<not> layer_readonly l"
            using gg(1,2) may c by (auto simp: ok_def write_allowed_def)
          then show ?thesis
            using run tail[OF k2] c(1) fail[OF _ k2]
            by (cases "client_may (rules ctl) ct ACCESS_WRITE b") auto
        qed
      qed
    qed
  qed
qed

lemma set_label_ok:
  assumes ctl: "ctl_ok ctl" and k: "key_ok key g n"
    and lk: "cstrp (str_value (key_layer key)) = Inr ly"
    and l: "the_layer ctl ly = Some l" and lab: "reads_as lab t"
  defines "c \<equiv> contents (modules ctl) (place l) g"
  defines "ok \<equiv> \<not> layer_readonly l \<and> layer_type l = LAYER_SYSTEM \<and> \<not> root_refused env ctl \<and> c n \<noteq> None"
  shows "\<exists>ctl'. buxton_direct_set_label env key lab ctl = Inr (ok, ctl') \<and> ctl_ok ctl' \<and>
    same_setup ctl ctl' \<and> contents (modules ctl') =
       (if ok then kv_upd (contents (modules ctl)) (place l) g n
                     (map_option (\<lambda>(d, _). (d, str_bytes lab)) (c n))
        else contents (modules ctl))"
proof -
  obtain l0 where l0: "find_layer ctl (key_layer key) = Inr (Some (ly, l0))"
    "hm_get (layers (config ctl)) ly = Some l0" "l = l0\<lparr>layer_uid := client_uid ctl\<rparr>"
    using find_layer_ok[OF lk l] .
  have f: "layer_readonly l0 = layer_readonly l" "layer_type l0 = layer_type l" by (simp_all add: l0(3))
  have "str_ok lab" "str_value lab \<noteq> None" "NUL \<in> set (str_bytes lab)"
    using lab reads_as_value[OF lab] by (auto simp: reads_as_def cstr_def split: if_splits)
  then obtain ctl' where s: "backend_set env ctl (ly, l0) key None lab = Inr (c n \<noteq> None, ctl')" "ctl_ok ctl'"
    "same_setup ctl ctl'" "contents (modules ctl') = kv_upd (contents (modules ctl)) (place l) g n
       (map_option (\<lambda>(d, _). (d, str_bytes lab)) (c n))"
    using backend_label_ok[OF ctl l0(3) l k] unfolding c_def by blast
  have e: "kv_upd (contents (modules ctl)) (place l) g n None = contents (modules ctl)" if "c n = None"
    using that by (auto simp: fun_eq_iff c_def)
  show ?thesis
  proof (cases "\<not> layer_readonly l \<and> layer_type l = LAYER_SYSTEM \<and> \<not> root_refused env ctl")
    case True
    then have "buxton_direct_set_label env key lab ctl = Inr (c n \<noteq> None, ctl')"
      using l0(1) s(1) f by (simp add: buxton_direct_set_label_def)
    then show ?thesis using s e True by (cases "c n") (auto simp: ok_def)
  next
    case False
    then have "buxton_direct_set_label env key lab ctl = Inr (False, ctl)" "\<not> ok"
      using l0(1) f by (auto simp: buxton_direct_set_label_def ok_def)
    then show ?thesis using ctl by simp
  qed
qed

lemma create_group_ok:
  assumes ctl: "ctl_ok ctl" and k: "key_ok key g None"
    and lk: "cstrp (str_value (key_layer key)) = Inr ly"
    and l: "the_layer ctl ly = Some l" and cl: "client_as cl ct"
  defines "c \<equiv> contents (modules ctl) (place l) g"
  defines "ok \<equiv> \<not> layer_readonly l \<and> (layer_type l = LAYER_SYSTEM \<longrightarrow> \<not> root_refused env ctl) \<and> c None = None"
  shows "\<exists>ctl'. buxton_direct_create_group env key cl ctl = Inr (ok, ctl') \<and> ctl_ok ctl' \<and>
    same_setup ctl ctl' \<and> contents (modules ctl') =
       (if ok then kv_upd (contents (modules ctl)) (place l) g None (Some (group_value, label_after cl None))
        else contents (modules ctl))"
proof -
  obtain l0 where l0: "find_layer ctl (key_layer key) = Inr (Some (ly, l0))"
    "hm_get (layers (config ctl)) ly = Some l0" "l = l0\<lparr>layer_uid := client_uid ctl\<rparr>"
    using find_layer_ok[OF lk l] .
  have f: "layer_readonly l0 = layer_readonly l" "layer_type l0 = layer_type l" by (simp_all add: l0(3))
  have n: "client_as None None" by (simp add: client_as_def)
  let ?r = "read_entry (rules ctl) None c None (key_type key)"
  obtain out ctl1 where g: "buxton_direct_get_value_for_layer env key None ctl = Inr (fst ?r, out, ctl1)"
    "keeps ctl ctl1"
    using get_group_ok[OF ctl k lk l n] unfolding c_def by blast
  have r: "fst ?r = ENOENT \<longleftrightarrow> c None = None"
    by (auto simp: read_entry_def client_may_def split: option.splits)
  have c1: "ctl_ok ctl1" "contents (modules ctl1) = contents (modules ctl)"
    "the_layer ctl1 ly = Some l" "same_setup ctl ctl1"
    using g(2) keeps_layer[OF g(2)] l by (auto simp: keeps_def)
  show ?thesis
  proof (cases ok)
    case False
    then have "buxton_direct_create_group env key cl ctl = Inr (False, ctl) \<or>
        buxton_direct_create_group env key cl ctl = Inr (False, ctl1)"
      using l0(1) f r g(1) by (auto simp: buxton_direct_create_group_def ok_def)
    then show ?thesis using False ctl c1 by auto
  next
    case True
    have l0': "l = l0\<lparr>layer_uid := client_uid ctl1\<rparr>"
      using l0(3) c1(4) by (simp add: same_setup_def)
    have h: "str_holds (buxton_string_pack ''BUXTON_GROUP_VALUE'') ''BUXTON_GROUP_VALUE''"
      by (rule str_holds_pack) simp_all
    obtain s where s: "buxton_string_copy (env_slack env) (buxton_string_pack ''BUXTON_GROUP_VALUE'') = Inr s"
      "str_bytes s = str_bytes (buxton_string_pack ''BUXTON_GROUP_VALUE'')" "str_ok s"
      "str_value s \<noteq> None" "str_length s = str_length (buxton_string_pack ''BUXTON_GROUP_VALUE'')"
      using buxton_string_copy_same[OF str_holds_ok[OF h]] .
    have gv: "as_stored (DString s) = group_value"
      unfolding as_stored.simps s(2,5) str_holds_bytes[OF h] group_value_def
      by (simp add: buxton_string_pack_def)
    define lab where "lab = (case cl of Some l \<Rightarrow> l | None \<Rightarrow> buxton_string_pack ''_'')"
    have lab: "str_ok lab" "str_value lab \<noteq> None" "NUL \<in> set (str_bytes lab)"
      "str_bytes lab = label_after cl None"
      using new_label_ok[OF cl] unfolding lab_def default_label_def by auto
    obtain dl where dl: "buxton_string_copy (env_slack env) lab = Inr dl" "str_bytes dl = str_bytes lab"
      "str_ok dl" "str_value dl \<noteq> None"
      using buxton_string_copy_same[OF lab(1)] .
    obtain ctl' where b: "backend_set env ctl1 (ly, l0) key (Some (DString s)) dl = Inr (True, ctl')"
      "ctl_ok ctl'" "same_setup ctl1 ctl'" "contents (modules ctl') = kv_upd (contents (modules ctl1))
        (place l) g None (Some (group_value, label_after cl None))"
    proof (rule backend_set_ok[OF c1(1) l0' c1(3) k _ dl(3,4), of "DString s"])
      show "data_ok (DString s)" using s(3) by simp
      show "NUL \<in> set (str_bytes dl)" using lab(3) dl(2) by simp
    qed (use that gv dl(2) lab(4) in simp)
    have "buxton_direct_create_group env key cl ctl = Inr (True, ctl')"
      using True l0(1) f r g(1) s(1) dl(1) b(1)
      by (simp add: buxton_direct_create_group_def ok_def lab_def)
    then show ?thesis using True b c1(2) same_setup_trans[OF c1(4) b(3)] by simp
  qed
qed

lemma remove_group_ok:
  assumes ctl: "ctl_ok ctl" and k: "key_ok key g None"
    and lk: "cstrp (str_value (key_layer key)) = Inr ly"
    and l: "the_layer ctl ly = Some l" and cl: "client_as cl ct"
  defines "c \<equiv> contents (modules ctl) (place l) g"
  defines "ok \<equiv> \<not> layer_readonly l \<and> (layer_type l = LAYER_SYSTEM \<longrightarrow> \<not> root_refused env ctl) \<and>
    (\<exists>d b. c None = Some (d, b) \<and> (key_type key = data_type d \<or> key_type key = BUXTON_TYPE_UNSET) \<and>
       (layer_type l = LAYER_USER \<longrightarrow> client_may (rules ctl) ct ACCESS_WRITE b))"
  shows "\<exists>ctl'. buxton_direct_remove_group env key cl ctl = Inr (ok, ctl') \<and> ctl_ok ctl' \<and>
    same_setup ctl ctl' \<and>
    contents (modules ctl') =
      (\<lambda>p g' n. if ok \<and> p = place l \<and> g' = g then None else contents (modules ctl) p g' n)"
proof -
  obtain l0 where l0: "find_layer ctl (key_layer key) = Inr (Some (ly, l0))"
    "hm_get (layers (config ctl)) ly = Some l0" "l = l0\<lparr>layer_uid := client_uid ctl\<rparr>"
    using find_layer_ok[OF lk l] .
  have f: "layer_readonly l0 = layer_readonly l" "layer_type l0 = layer_type l" by (simp_all add: l0(3))
  have n: "client_as None None" by (simp add: client_as_def)
  let ?r = "read_entry (rules ctl) None c None (key_type key)"
  obtain out ctl1 where g: "buxton_direct_get_value_for_layer env key None ctl = Inr (fst ?r, out, ctl1)"
    "stands_for out (snd ?r)" "keeps ctl ctl1"
    using get_group_ok[OF ctl k lk l n] unfolding c_def by blast
  have c1: "ctl_ok ctl1" "contents (modules ctl1) = contents (modules ctl)" "rules ctl1 = rules ctl"
    "the_layer ctl1 ly = Some l" "same_setup ctl ctl1"
    using g(3) keeps_layer[OF g(3)] keeps_rules[OF g(3)] l by (auto simp: keeps_def)
  have l0': "l = l0\<lparr>layer_uid := client_uid ctl1\<rparr>"
    using l0(3) c1(5) by (simp add: same_setup_def)
  have fail: ?thesis if "buxton_direct_remove_group env key cl ctl = Inr (False, x)" "x = ctl \<or> x = ctl1" "\<not> ok" for x
    using that ctl c1 by auto
  show ?thesis
  proof (cases "layer_readonly l \<or> layer_type l = LAYER_SYSTEM \<and> root_refused env ctl")
    case True
    then show ?thesis
      by (intro fail[of ctl]) (use l0(1) f in \<open>auto simp: buxton_direct_remove_group_def ok_def\<close>)
  next
    case may: False
    show ?thesis
    proof (cases "snd ?r")
      case None
      then have "fst ?r \<noteq> 0" "\<not> ok"
        by (auto simp: ok_def read_entry_def client_may_def split: option.splits if_splits)
      then show ?thesis
        by (intro fail[of ctl1]) (use l0(1) f may g(1) in \<open>auto simp: buxton_direct_remove_group_def\<close>)
    next
      case (Some x)
      obtain d b where x: "x = (d, b)" by (cases x)
      have c: "c None = Some (d, b)" "fst ?r = 0" "key_type key = data_type d \<or> key_type key = BUXTON_TYPE_UNSET"
        using Some x by (auto simp: read_entry_def client_may_def split: option.splits if_splits)
      have nul: "NUL \<in> set b" using ctl c(1) unfolding ctl_ok_def c_def by blast
      obtain lb where lb: "out = Some (d, lb)" "str_ok lb" "str_bytes lb = b"
        using g(2) Some x by (auto simp: stands_for_def)
      define w where "w \<longleftrightarrow> (layer_type l = LAYER_USER \<longrightarrow> client_may (rules ctl) ct ACCESS_WRITE b)"
      have chk: "(if layer_type l = LAYER_USER then
            (case cl of None \<Rightarrow> Inr True
             | Some c \<Rightarrow> buxton_check_smack_access (rules ctl1) c (out_label out) ACCESS_WRITE)
          else Inr True) = Inr w"
      proof -
        have lo: "out_label out = lb" by (simp add: lb(1) out_label_def)
        show ?thesis
          unfolding lo using client_check_some[OF c1(1) cl lb(2), of ACCESS_WRITE] lb(3) nul c1(3)
          by (simp add: w_def)
      qed
      have run: "buxton_direct_remove_group env key cl ctl =
          (if w then backend_unset env ctl1 (ly, l0) key else Inr (False, ctl1))"
        using l0(1) f may g(1) c(2) chk by (auto simp: buxton_direct_remove_group_def)
      have okw: "ok \<longleftrightarrow> w" using c may by (auto simp: ok_def w_def)
      have present: "contents (modules ctl1) (place l) g None \<noteq> None"
        using c(1) by (simp add: c1(2) c_def)
      show ?thesis
      proof (cases w)
        case True
        obtain ctl' where u: "backend_unset env ctl1 (ly, l0) key = Inr (True, ctl')"
          "ctl_ok ctl'" "same_setup ctl1 ctl'"
          "contents (modules ctl') = (\<lambda>p g' n. if p = place l \<and> g' = g then None else contents (modules ctl1) p g' n)"
          using backend_unset_group_ok[OF c1(1) l0' c1(4) k present] by blast
        then show ?thesis
          using True okw run same_setup_trans[OF c1(5) u(3)] by (auto simp: c1(2) cong: if_cong)
      next
        case False
        then show ?thesis by (intro fail[of ctl1]) (use run okw in simp_all)
      qed
    qed
  qed
qed

section \<open>Requests that name no layer\<close>

text \<open>What the search looks for: the readable entries, in the order of the layers.\<close>

definition in_layer :: "'s BuxtonControl \<Rightarrow> bytes option \<Rightarrow> bytes \<Rightarrow> bytes option \<Rightarrow> BuxtonDataType \<Rightarrow>
    BuxtonLayer \<Rightarrow> int \<times> (BuxtonData \<times> bytes) option" where
  "in_layer ctl ct g n t l =
     read_spec (rules ctl) ct (contents (modules ctl) (place (l\<lparr>layer_uid := client_uid ctl\<rparr>)) g) n t"

lemma search_layers_ok:
  assumes "ctl_ok ctl0" "key_ok key g n" "client_as cl ct" "keeps ctl0 ctl"
    "\<forall>l \<in> set ls. \<exists>ly. layer_arg (env_slack env) (layer_name l) ly \<and>
        the_layer ctl0 ly = Some (l\<lparr>layer_uid := client_uid ctl0\<rparr>)"
  shows "\<exists>ctl'. search_layers env key cl ls acc ctl =
      Inr (fold (\<lambda>l acc. if fst (in_layer ctl0 ct g n (key_type key) l) = 0 \<and> better_layer acc l
                         then (Some (layer_type l), layer_priority l, layer_name l) else acc) ls acc, ctl') \<and>
    keeps ctl0 ctl'"
  using assms(4,5)
proof (induction ls arbitrary: acc ctl)
  case (Cons l ls)
  let ?key = "key\<lparr>key_layer := layer_name l\<rparr>"
  obtain ly where ly: "layer_arg (env_slack env) (layer_name l) ly"
    "the_layer ctl0 ly = Some (l\<lparr>layer_uid := client_uid ctl0\<rparr>)"
    using Cons.prems(2) by auto
  have k: "key_ok ?key g n" "layer_arg (env_slack env) (key_layer ?key) ly"
    using assms(2) ly(1) by (auto simp: key_ok_def split: option.splits)
  have c: "ctl_ok ctl" "the_layer ctl ly = Some (l\<lparr>layer_uid := client_uid ctl0\<rparr>)"
    "rules ctl = rules ctl0" "contents (modules ctl) = contents (modules ctl0)"
    using Cons.prems(1) keeps_layer[OF Cons.prems(1)] keeps_rules[OF Cons.prems(1)] ly(2)
    by (auto simp: keeps_def)
  obtain out ctl1 where r: "buxton_direct_get_value_for_layer env ?key cl ctl =
      Inr (fst (in_layer ctl0 ct g n (key_type key) l), out, ctl1)" "keeps ctl ctl1"
    by (rule get_layer_ok[OF c(1) k c(2) assms(3)]) (rule that, simp_all add: in_layer_def c(3,4))
  show ?case
    using Cons.IH[OF keeps_trans[OF Cons.prems(1) r(2)]] Cons.prems(2) r(1) by simp
qed simp

end

text \<open>The pick of the search is best among the readable layers: a system layer if there is one, and the
  highest priority among those of its type.\<close>

definition best_pick :: "BuxtonLayer list \<Rightarrow> BuxtonLayer \<Rightarrow> bool" where
  "best_pick cs l \<longleftrightarrow> l \<in> set cs \<and>
     ((\<exists>l' \<in> set cs. layer_type l' = LAYER_SYSTEM) \<longrightarrow> layer_type l = LAYER_SYSTEM) \<and>
     (\<forall>l' \<in> set cs. layer_type l' = layer_type l \<longrightarrow> layer_priority l' \<le> layer_priority l)"

lemma search_best:
  assumes "\<forall>l \<in> set ls. 0 \<le> layer_priority l"
  shows "let acc = fold (\<lambda>l acc. if P l \<and> better_layer acc l
             then (Some (layer_type l), layer_priority l, layer_name l) else acc) ls (None, 0, null_string)
    in if filter P ls = [] then acc = (None, 0, null_string)
       else \<exists>l. best_pick (filter P ls) l \<and> acc = (Some (layer_type l), layer_priority l, layer_name l)"
  using assms
proof (induction ls rule: rev_induct)
  case (snoc l ls)
  define acc where "acc = fold (\<lambda>l acc. if P l \<and> better_layer acc l
      then (Some (layer_type l), layer_priority l, layer_name l) else acc) ls (None, 0, null_string)"
  have IH: "if filter P ls = [] then acc = (None, 0, null_string)
       else \<exists>l. best_pick (filter P ls) l \<and> acc = (Some (layer_type l), layer_priority l, layer_name l)"
    using snoc by (simp add: acc_def Let_def)
  have pr: "0 \<le> layer_priority l" using snoc.prems by simp
  show ?case
  proof (cases "P l")
    case False
    then show ?thesis using IH by (simp add: Let_def flip: acc_def)
  next
    case P: True
    show ?thesis
    proof (cases "filter P ls = []")
      case True
      then have "better_layer acc l" using IH pr by (cases "layer_type l") (auto simp: better_layer_def)
      then show ?thesis
        using P True by (auto simp: Let_def best_pick_def simp flip: acc_def)
    next
      case False
      then obtain p where p: "best_pick (filter P ls) p"
        "acc = (Some (layer_type p), layer_priority p, layer_name p)"
        using IH by auto
      show ?thesis
      proof (cases "better_layer acc l")
        case True
        have "best_pick (filter P (ls @ [l])) l"
          using True p P unfolding better_layer_def p(2) best_pick_def
          by (cases "layer_type l"; cases "layer_type p") force+
        then show ?thesis using P True by (auto simp: Let_def simp flip: acc_def)
      next
        case no: False
        have "best_pick (filter P (ls @ [l])) p"
          using no p P unfolding better_layer_def p(2) best_pick_def
          by (cases "layer_type l"; cases "layer_type p") force+
        then show ?thesis using P no p(2) by (auto simp: Let_def simp flip: acc_def)
      qed
    qed
  qed
qed simp

lemma layer_arg_name:
  assumes "layer_ok nm l" "length nm < 2 ^ 32" "slack (length nm) = NUL # r"
  shows "layer_arg slack (layer_name l) nm"
proof -
  have n: "layer_name l = \<lparr>str_value = Some (zstr nm), str_length = word_of_nat (length nm)\<rparr>" "NUL \<notin> set nm"
    using assms(1) by (auto simp: layer_ok_def)
  have u: "unat (word_of_nat (length nm) :: 32 word) = length nm"
    using assms(2) by (simp add: unat_of_nat)
  have "copy_member slack (layer_name l) = Inr \<lparr>str_value = Some (nm @ NUL # r), str_length = word_of_nat (length nm)\<rparr>"
    using assms(3) by (simp add: n(1) copy_member_def buxton_string_copy_def u rd_def) (simp add: zstr_def)
  moreover have "cstr (nm @ NUL # r) = Inr nm"
    using cstr_zstr[OF n(2), of r] by (simp add: zstr_def)
  ultimately show ?thesis using layer_ok_cstr[OF assms(1)] by (auto simp: layer_arg_def)
qed

context direct begin

lemma get_value_ok:
  assumes ctl: "ctl_ok ctl" and k: "key_ok key g n" and cl: "client_as cl ct"
    and nl: "str_value (key_layer key) = None"
    and slack: "\<forall>i. \<exists>r. env_slack env i = NUL # r"
    and len: "\<forall>nm \<in> fst ` set (layers (config ctl)). length nm < 2 ^ 32"
  defines "found \<equiv> in_layer ctl ct g n (key_type key)"
  defines "cs \<equiv> filter (\<lambda>l. fst (found l) = 0) (map snd (layers (config ctl)))"
  shows "\<exists>ret out ctl'. buxton_direct_get_value env key cl ctl = Inr (ret, out, ctl') \<and> keeps ctl ctl' \<and>
    (if cs = [] then ret = ENOENT \<and> out = None
     else ret = 0 \<and> (\<exists>l. best_pick cs l \<and> stands_for out (snd (found l))))"
proof -
  let ?ls = "map snd (layers (config ctl))"
  have lay: "\<exists>nm. layer_arg (env_slack env) (layer_name l) nm \<and>
      the_layer ctl nm = Some (l\<lparr>layer_uid := client_uid ctl\<rparr>) \<and> 0 \<le> layer_priority l" if "l \<in> set ?ls" for l
  proof -
    from that obtain e where "e \<in> set (layers (config ctl))" "l = snd e" by auto
    then have "(fst e, l) \<in> set (layers (config ctl))" by simp
    then obtain nm where nm: "(nm, l) \<in> set (layers (config ctl))" by blast
    have cfg: "config_ok (config ctl)" using ctl by (simp add: ctl_ok_def)
    then have get: "hm_get (layers (config ctl)) nm = Some l"
      using nm by (simp add: config_ok_def hm_get_in_set)
    have lo: "layer_ok nm l" by (rule config_layer[OF cfg get])
    obtain r where "env_slack env (length nm) = NUL # r" using slack by blast
    moreover have "length nm < 2 ^ 32" using len nm by force
    ultimately have "layer_arg (env_slack env) (layer_name l) nm"
      using layer_arg_name[OF lo, where slack = "env_slack env"] by blast
    then show ?thesis using get lo by (auto simp: the_layer_def layer_ok_def)
  qed
  define acc where "acc = fold (\<lambda>l acc. if fst (found l) = 0 \<and> better_layer acc l
      then (Some (layer_type l), layer_priority l, layer_name l) else acc) ?ls (None, 0, null_string)"
  have kk: "keeps ctl ctl" using ctl by (simp add: keeps_def)
  obtain ctl1 where s: "search_layers env key cl ?ls (None, 0, null_string) ctl = Inr (acc, ctl1)" "keeps ctl ctl1"
    using search_layers_ok[OF ctl k cl kk, of ?ls "(None, 0, null_string)"] lay
    unfolding acc_def found_def by blast
  have best: "if cs = [] then acc = (None, 0, null_string)
      else \<exists>l. best_pick cs l \<and> acc = (Some (layer_type l), layer_priority l, layer_name l)"
  proof -
    have "\<forall>l \<in> set ?ls. 0 \<le> layer_priority l" using lay by blast
    from search_best[OF this, of "\<lambda>l. fst (found l) = 0"] show ?thesis
      unfolding cs_def acc_def Let_def .
  qed
  show ?thesis
  proof (cases "cs = []")
    case True
    then show ?thesis
      using best s nl by (auto simp: buxton_direct_get_value_def null_string_def)
  next
    case False
    then obtain l where l: "best_pick cs l" "acc = (Some (layer_type l), layer_priority l, layer_name l)"
      using best by auto
    then have lin: "l \<in> set ?ls" "fst (found l) = 0" by (auto simp: best_pick_def cs_def)
    obtain nm where nm: "layer_arg (env_slack env) (layer_name l) nm"
      "the_layer ctl nm = Some (l\<lparr>layer_uid := client_uid ctl\<rparr>)"
      using lay[OF lin(1)] by blast
    let ?key = "key\<lparr>key_layer := layer_name l\<rparr>"
    have k': "key_ok ?key g n" "layer_arg (env_slack env) (key_layer ?key) nm"
      using k nm(1) by (auto simp: key_ok_def split: option.splits)
    have c: "ctl_ok ctl1" "the_layer ctl1 nm = Some (l\<lparr>layer_uid := client_uid ctl\<rparr>)"
      "rules ctl1 = rules ctl" "contents (modules ctl1) = contents (modules ctl)"
      using s(2) keeps_layer[OF s(2)] keeps_rules[OF s(2)] nm(2) by (auto simp: keeps_def)
    obtain out ctl2 where r: "buxton_direct_get_value_for_layer env ?key cl ctl1 = Inr (fst (found l), out, ctl2)"
      "stands_for out (snd (found l))" "keeps ctl1 ctl2"
      by (rule get_layer_ok[OF c(1) k' c(2) cl]) (rule that, simp_all add: found_def in_layer_def c(3,4))
    have "str_value (layer_name l) \<noteq> None"
      using nm(1) cstrp_value by (auto simp: layer_arg_def)
    then have "buxton_direct_get_value env key cl ctl = Inr (0, out, ctl2)"
      using s(1) l(2) r(1) lin(2) nl by (auto simp: buxton_direct_get_value_def)
    then show ?thesis using False l(1) r(2) keeps_trans[OF s(2) r(3)] by auto
  qed
qed

end
section \<open>The system with the memory backend\<close>

text \<open>
  Both modules together: the state is that of the memory module and that of the gdbm module, whose
  functions are the parameter \<open>gdbm\<close>. The contract holds for the layers that are kept in memory.
\<close>

definition lift_fst :: "'a BuxtonBackend \<Rightarrow> ('a \<times> 'b) BuxtonBackend" where
  "lift_fst be =
     \<lparr>be_set_value = (\<lambda>l k d lab (a, b). bindE (be_set_value be l k d lab a) (\<lambda>(r, a'). Inr (r, (a', b)))),
      be_get_value = (\<lambda>l k (a, b). bindE (be_get_value be l k a) (\<lambda>(r, out, a'). Inr (r, out, (a', b)))),
      be_unset_value = (\<lambda>l k (a, b). bindE (be_unset_value be l k a) (\<lambda>(r, a'). Inr (r, (a', b)))),
      be_list_keys = map_option (\<lambda>f l (a, b). bindE (f l a) (\<lambda>(r, a'). Inr (r, (a', b)))) (be_list_keys be),
      be_list_names = (\<lambda>l g p (a, b). bindE (be_list_names be l g p a) (\<lambda>(r, a'). Inr (r, (a', b)))),
      be_create_db = map_option (\<lambda>f l (a, b). bindE (f l a) (\<lambda>(r, a'). Inr (r, (a', b)))) (be_create_db be)\<rparr>"

definition lift_snd :: "'b BuxtonBackend \<Rightarrow> ('a \<times> 'b) BuxtonBackend" where
  "lift_snd be =
     \<lparr>be_set_value = (\<lambda>l k d lab (a, b). bindE (be_set_value be l k d lab b) (\<lambda>(r, b'). Inr (r, (a, b')))),
      be_get_value = (\<lambda>l k (a, b). bindE (be_get_value be l k b) (\<lambda>(r, out, b'). Inr (r, out, (a, b')))),
      be_unset_value = (\<lambda>l k (a, b). bindE (be_unset_value be l k b) (\<lambda>(r, b'). Inr (r, (a, b')))),
      be_list_keys = map_option (\<lambda>f l (a, b). bindE (f l b) (\<lambda>(r, b'). Inr (r, (a, b')))) (be_list_keys be),
      be_list_names = (\<lambda>l g p (a, b). bindE (be_list_names be l g p b) (\<lambda>(r, b'). Inr (r, (a, b')))),
      be_create_db = map_option (\<lambda>f l (a, b). bindE (f l b) (\<lambda>(r, b'). Inr (r, (a, b')))) (be_create_db be)\<rparr>"

definition system_env :: "allocator \<Rightarrow> bytes option \<Rightarrow> 'g BuxtonBackend \<Rightarrow> (Resources \<times> 'g) env" where
  "system_env slack root gdbm =
     \<lparr>env_slack = slack, env_module_ok = (\<lambda>_. True),
      env_table = (\<lambda>t. if t = BACKEND_MEMORY then lift_fst (memory_backend slack) else lift_snd gdbm),
      env_root_check = root\<rparr>"

definition memory_layer :: "BuxtonLayer \<Rightarrow> bool" where
  "memory_layer l \<longleftrightarrow> named_layer l \<and> layer_backend l = BACKEND_MEMORY"

abbreviation sys_inv :: "Resources \<times> 'g \<Rightarrow> bool" where
  "sys_inv \<equiv> \<lambda>w. mem_ok (fst w)"

abbreviation sys_contents :: "Resources \<times> 'g \<Rightarrow> kv_contents" where
  "sys_contents \<equiv> \<lambda>w. mem_contents (fst w)"

lemma dispatch_memory:
  assumes "memory_layer l"
  shows
    "be_get_value (dispatch (env_table (system_env slack root gdbm))) l k w =
       bindE (be_get_value (memory_backend slack) l k (fst w)) (\<lambda>(r, out, a). Inr (r, out, (a, snd w)))"
    "be_set_value (dispatch (env_table (system_env slack root gdbm))) l k d lab w =
       bindE (be_set_value (memory_backend slack) l k d lab (fst w)) (\<lambda>(r, a). Inr (r, (a, snd w)))"
    "be_unset_value (dispatch (env_table (system_env slack root gdbm))) l k w =
       bindE (be_unset_value (memory_backend slack) l k (fst w)) (\<lambda>(r, a). Inr (r, (a, snd w)))"
  using assms by (cases w; simp add: dispatch_def system_env_def memory_layer_def lift_fst_def)+

lemma memory_layer_named: "memory_layer l \<Longrightarrow> named_layer l"
  by (simp add: memory_layer_def)

interpretation sys: direct "system_env slack root gdbm" sys_inv memory_layer mem_place sys_contents
  for slack root and gdbm :: "'g BuxtonBackend"
proof (unfold_locales, goal_cases)
  case (1 s l key g n d b)
  then show ?case
    using mem.get_present[OF 1(1) memory_layer_named[OF 1(2)] 1(3-5), of slack]
    by (auto simp: dispatch_memory)
next
  case (2 s l key g n d b)
  then show ?case
    using mem.get_mistyped[OF 2(1) memory_layer_named[OF 2(2)] 2(3-6), of slack]
    by (auto simp: dispatch_memory)
next
  case (3 s l key g n)
  then show ?case
    using mem.get_absent[OF 3(1) memory_layer_named[OF 3(2)] 3(3,4), of slack]
    by (auto simp: dispatch_memory)
next
  case (4 s l key g n d label)
  then show ?case
    using mem.set_data[OF 4(1) memory_layer_named[OF 4(2)] 4(3-6), of slack]
    by (auto simp: dispatch_memory)
next
  case (5 s l key g n label)
  then show ?case
    using mem.set_label[OF 5(1) memory_layer_named[OF 5(2)] 5(3-5), of slack]
    by (auto simp: dispatch_memory)
next
  case (6 s l key g m)
  then show ?case
    using mem.unset_name[OF 6(1) memory_layer_named[OF 6(2)] 6(3), of slack]
    by (auto simp: dispatch_memory)
next
  case (7 s l key g)
  obtain w where "be_unset_value (memory_backend slack) l key (fst s) = Inr (0, w)" "mem_ok w"
    "mem_contents w = (\<lambda>p g' n. if p = mem_place l \<and> g' = g then None else mem_contents (fst s) p g' n)"
    using mem.unset_group[OF 7(1) memory_layer_named[OF 7(2)] 7(3,4), of slack] by blast
  then show ?case using 7(2) by (intro exI[of _ "(w, snd s)"]) (simp add: dispatch_memory)
next
  case (8 b)
  show ?case by (simp add: system_env_def)
qed

end
