(* ===== verification/Direct_Props.thy ===== *)
theory Direct_Props
  imports Direct_Laws
begin

text \<open>
  The properties of the requests of \<open>src/shared/direct.c\<close> for the program with its memory backend:
  who may do what, what a request changes, and which layer answers a request that names none.
\<close>

section \<open>States\<close>

text \<open>
  A state of the daemon between two requests, all of whose layers are kept in memory: the layers and
  caches agree with the configuration, the rules are loaded when Smack is on, and every stored label
  has its NUL.
\<close>

definition system_ok :: "(Resources \<times> 'g) BuxtonControl \<Rightarrow> bool" where
  "system_ok ctl \<longleftrightarrow> config_ok (config ctl) \<and> smack_ready (rules ctl) \<and> mem_ok (fst (modules ctl)) \<and>
     (\<forall>p g n d b. mem_contents (fst (modules ctl)) p g n = Some (d, b) \<longrightarrow> NUL \<in> set b) \<and>
     (\<forall>n l. the_layer ctl n = Some l \<longrightarrow> memory_layer l)"

lemma sys_ctl_ok: "sys.ctl_ok ctl \<longleftrightarrow> system_ok ctl"
  by (simp add: sys.ctl_ok_def system_ok_def)

text \<open>What lies in a group of a layer, for the user the daemon currently works for.\<close>

definition group_contents :: "(Resources \<times> 'g) BuxtonControl \<Rightarrow> BuxtonLayer \<Rightarrow> bytes \<Rightarrow>
    bytes option \<Rightarrow> (BuxtonData \<times> bytes) option" where
  "group_contents ctl l g = mem_contents (fst (modules ctl)) (mem_place l) g"

definition all_contents :: "(Resources \<times> 'g) BuxtonControl \<Rightarrow> kv_contents" where
  "all_contents ctl = mem_contents (fst (modules ctl))"

section \<open>A state to try the properties on\<close>

definition sample_layer :: "BuxtonLayerType \<Rightarrow> int \<Rightarrow> bytes \<Rightarrow> BuxtonLayer" where
  "sample_layer t prio nm =
     \<lparr>layer_name = \<lparr>str_value = Some (zstr nm), str_length = word_of_nat (length nm)\<rparr>,
      layer_type = t, layer_backend = BACKEND_MEMORY, layer_uid = 0,
      layer_priority = prio, layer_description = None, layer_readonly = False\<rparr>"

text \<open>A system layer with a group that the label \<open>App\<close> owns, and a user layer; a root client.\<close>

definition sample_ctl :: "(Resources \<times> Resources) BuxtonControl" where
  "sample_ctl =
     \<lparr>client_uid = 0,
      config = \<lparr>databases = None, layers = [(''sys'', sample_layer LAYER_SYSTEM 5 ''sys''),
                   (''usr'', sample_layer LAYER_USER 9 ''usr'')], backends = None\<rparr>,
      modules = ([(''sys'', [(keybytes ''g'' None, \<lparr>val_data = group_value, val_label = buxton_string_pack ''App''\<rparr>)])], []),
      rules = \<lparr>have_smack = True, smackrules = Some []\<rparr>\<rparr>"

abbreviation (input) "no_gdbm \<equiv> memory_backend (\<lambda>_. [])"

definition layer_key :: "bytes \<Rightarrow> bytes \<Rightarrow> bytes option \<Rightarrow> BuxtonDataType \<Rightarrow> BuxtonKey" where
  "layer_key ly g n t = plain_key g n t\<lparr>key_layer := buxton_string_pack ly\<rparr>"

lemma layer_key_ok:
  "key_text g n \<Longrightarrow> length g + 2 + (case n of None \<Rightarrow> 0 | Some m \<Rightarrow> length m) < 2 ^ 31 \<Longrightarrow>
   key_ok (layer_key ly g n t) g n"
  using plain_key_ok[of g n t] by (auto simp: layer_key_def key_ok_def split: option.splits)

lemma layer_key_arg:
  "NUL \<notin> set ly \<Longrightarrow> length ly + 1 < 2 ^ 32 \<Longrightarrow> layer_arg slack (key_layer (layer_key ly g n t)) ly"
  by (simp add: layer_key_def layer_arg_reads str_holds_reads str_holds_pack)

lemma sample_layer_ok: "NUL \<notin> set nm \<Longrightarrow> 0 \<le> prio \<Longrightarrow> layer_ok nm (sample_layer t prio nm)"
  by (simp add: layer_ok_def sample_layer_def)

lemma sample_label: "str_holds (buxton_string_pack ''App'') ''App''"
  by (rule str_holds_pack) simp_all

lemma sample_client: "client_as (Some (buxton_string_pack ''App'')) (Some ''App'')"
  by (simp add: client_as_def str_holds_reads[OF sample_label])

lemma group_value_stored [simp]:
  "data_ok group_value" "as_stored group_value = group_value" "data_type group_value = BUXTON_TYPE_STRING"
  by (simp_all add: group_value_def str_ok_def str_bytes_def)

lemma sample_get:
  "mem_contents (fst (modules sample_ctl)) p g n =
     (if p = ''sys'' \<and> g = ''g'' \<and> n = None then Some (group_value, zstr ''App'') else None)"
proof -
  show ?thesis
  proof (cases "key_text g n")
    case True
    then have "keybytes g n = keybytes ''g'' None \<longleftrightarrow> g = ''g'' \<and> n = None"
      by (rule keybytes_inject) (simp add: key_text_def)
    then show ?thesis
      using True by (auto simp: sample_ctl_def mem_contents_def hm_get_def db_contents_def val_of_def
          str_holds_bytes[OF sample_label])
  next
    case False
    then show ?thesis
      by (auto simp: sample_ctl_def mem_contents_def hm_get_def db_contents_def key_text_def)
  qed
qed

lemma sample_ctl_ok: "system_ok sample_ctl"
proof -
  have "config_ok (config sample_ctl)"
    using sample_layer_ok[of "''sys''" 5 LAYER_SYSTEM] sample_layer_ok[of "''usr''" 9 LAYER_USER]
    by (simp add: sample_ctl_def config_ok_def hm_ok_def)
  moreover have "mem_ok (fst (modules sample_ctl))"
    using str_holds_ok[OF sample_label]
    by (auto simp: sample_ctl_def mem_ok_def hm_ok_def hm_get_def db_ok_def val_ok_def key_text_def
        intro!: exI[of _ "''g''"] exI[of _ None] split: if_splits)
  moreover have "memory_layer l" if "the_layer sample_ctl n = Some l" for n l
  proof -
    have "named_layer (sample_layer LAYER_SYSTEM 5 ''sys'')" "named_layer (sample_layer LAYER_USER 9 ''usr'')"
      by (auto intro!: named_layerI sample_layer_ok)
    then show ?thesis
      using that by (auto simp: the_layer_def sample_ctl_def hm_get_def memory_layer_def named_layer_def
          layer_ok_def sample_layer_def split: if_splits)
  qed
  ultimately show ?thesis
    by (auto simp: system_ok_def sample_get smack_ready_def zstr_def) (simp add: sample_ctl_def)
qed

lemma sample_the_layer:
  "the_layer sample_ctl ''sys'' = Some (sample_layer LAYER_SYSTEM 5 ''sys'')"
  "the_layer sample_ctl ''usr'' = Some (sample_layer LAYER_USER 9 ''usr'')"
  by (simp_all add: the_layer_def sample_ctl_def hm_get_def sample_layer_def)

lemma sample_layer_sel [simp]:
  "layer_type (sample_layer t p nm) = t" "layer_priority (sample_layer t p nm) = p"
  "\<not> layer_readonly (sample_layer t p nm)" "layer_uid (sample_layer t p nm) = 0"
  by (simp_all add: sample_layer_def)

lemma sample_place: "mem_place (sample_layer LAYER_SYSTEM 5 ''sys'') = ''sys''"
  by (simp add: mem_place_def db_name_def sample_layer_def eval_simps)

lemma sample_may: "client_may (rules sample_ctl) (Some ''App'') r (zstr ''App'')" if "r \<in> {ACCESS_READ, ACCESS_WRITE}"
  using that by (auto simp: client_may_def zstr_def smack_allows_def sample_ctl_def
      buxton_check_smack_access_def buxton_string_pack_def cstr_def)

section \<open>Reading and writing\<close>

lemma system_env_slack [simp]: "env_slack (system_env slack root gdbm) = slack"
  by (simp add: system_env_def)

lemma may_write_read: "client_may st ct ACCESS_WRITE b \<Longrightarrow> client_may st ct ACCESS_READ b"
  by (auto simp: client_may_def smack_allows_def check_write_read split: option.splits)

lemma may_own_label:
  assumes "client_may st (Some t) ACCESS_WRITE b" "reads_as c t" "smack_ready st"
  shows "client_may st (Some t) ACCESS_READ (str_bytes c)"
proof -
  have n: "NUL \<notin> set t" "takeWhile (\<lambda>c. c \<noteq> NUL) (str_bytes c) = t"
    using assms(2) cstr_eq_Inr[of "str_bytes c" t] by (auto simp: reads_as_def cstr_def split: if_splits)
  have p: "cstrp (str_value (buxton_string_pack x)) = Inr x" if "NUL \<notin> set x" for x
    using that by (simp add: buxton_string_pack_def cstr_simps)
  have "\<not> have_smack st \<or> t \<noteq> ''*''"
    using assms(1) p[OF n(1)]
    by (auto simp: client_may_def smack_allows_def buxton_check_smack_access_def assertE_def split: if_splits)
  then show ?thesis
    using p[OF n(1)] n assms(3)
    by (auto simp: client_may_def smack_allows_def buxton_check_smack_access_def smack_ready_def)
qed

text \<open>C1. A set succeeds exactly when the group exists, the client may write the group and, if the key
  exists already, the key, and the layer is not read-only. It then stores the value under the label
  the key had, or else the client's label (the floor label for direct clients), and changes nothing
  else; a refused set changes nothing. No branch faults.\<close>

theorem direct_set_value:
  assumes "system_ok ctl" "key_ok key g n" "layer_arg slack (key_layer key) ly"
    "the_layer ctl ly = Some l" "client_as cl ct" "data_ok d"
  shows "let c = group_contents ctl l g;
             ok = (write_allowed (rules ctl) ct c n \<and> \<not> layer_readonly l)
    in \<exists>ctl'. buxton_direct_set_value (system_env slack root gdbm) key d cl ctl = Inr (ok, ctl') \<and>
         system_ok ctl' \<and> same_setup ctl ctl' \<and>
         all_contents ctl' = (if ok then kv_upd (all_contents ctl) (mem_place l) g n
             (Some (as_stored d, label_after cl (c n))) else all_contents ctl)"
  unfolding Let_def group_contents_def all_contents_def
  by (rule sys.set_value_ok[unfolded sys_ctl_ok system_env_slack, OF assms])

theorem direct_set_value_witness:
  "\<exists>ctl'. buxton_direct_set_value (system_env (\<lambda>_. []) None no_gdbm)
       (layer_key ''sys'' ''g'' (Some ''k'') BUXTON_TYPE_INT32) (DInt32 7)
       (Some (buxton_string_pack ''App'')) sample_ctl = Inr (True, ctl') \<and> system_ok ctl' \<and>
     all_contents ctl' ''sys'' ''g'' (Some ''k'') = Some (DInt32 7, zstr ''App'')"
proof -
  have k: "key_ok (layer_key ''sys'' ''g'' (Some ''k'') BUXTON_TYPE_INT32) ''g'' (Some ''k'')"
    by (rule layer_key_ok) (simp_all add: key_text_def)
  have a: "layer_arg (\<lambda>_. []) (key_layer (layer_key ''sys'' ''g'' (Some ''k'') BUXTON_TYPE_INT32)) ''sys''"
    by (rule layer_key_arg) simp_all
  have "write_allowed (rules sample_ctl) (Some ''App'')
      (group_contents sample_ctl (sample_layer LAYER_SYSTEM 5 ''sys'') ''g'') (Some ''k'')"
    by (simp add: write_allowed_def group_contents_def sample_get sample_place sample_may)
  then show ?thesis
    using direct_set_value[OF sample_ctl_ok k a sample_the_layer(1) sample_client,
        of "DInt32 7" None no_gdbm]
    by (auto simp: Let_def sample_place label_after_def group_contents_def sample_get
        str_holds_bytes[OF sample_label])
qed

lemma reads_back:
  assumes "system_ok ctl" "key_ok key g n" "layer_arg slack (key_layer key) ly"
    "the_layer ctl ly = Some l" "client_as cl ct" "data_ok d"
    "buxton_direct_set_value (system_env slack root gdbm) key d cl ctl = Inr (True, ctl1)"
    "key_ok key' g n" "layer_arg slack (key_layer key') ly"
    "key_type key' = data_type d \<or> key_type key' = BUXTON_TYPE_UNSET"
  shows "\<exists>lab ctl2. buxton_direct_get_value_for_layer (system_env slack root gdbm) key' cl ctl1 =
    Inr (0, Some (as_stored d, lab), ctl2)"
proof -
  let ?c = "group_contents ctl l g"
  have s: "write_allowed (rules ctl) ct ?c n" "system_ok ctl1" "same_setup ctl ctl1"
    "all_contents ctl1 = kv_upd (all_contents ctl) (mem_place l) g n
       (Some (as_stored d, label_after cl (?c n)))"
    using sys.set_value_ok[unfolded sys_ctl_ok system_env_slack, OF assms(1-6), of root gdbm] assms(7)
    unfolding group_contents_def all_contents_def by auto
  let ?c1 = "mem_contents (fst (modules ctl1)) (mem_place l) g"
  have c1: "?c1 n' = (if n' = n then Some (as_stored d, label_after cl (?c n)) else ?c n')" for n'
    using s(4) by (simp add: all_contents_def group_contents_def)
  have r: "rules ctl1 = rules ctl" "smack_ready (rules ctl)" using s(3) assms(1)
    by (simp_all add: same_setup_def system_ok_def)
  obtain gd gb where g: "?c None = Some (gd, gb)" "data_type gd = BUXTON_TYPE_STRING"
    "client_may (rules ctl) ct ACCESS_WRITE gb"
    using s(1) by (auto simp: write_allowed_def split: option.splits)
  have "client_may (rules ctl) ct ACCESS_READ (label_after cl (?c n))"
  proof (cases "?c n")
    case None
    show ?thesis
    proof (cases cl)
      case None
      then show ?thesis using assms(5) by (simp add: client_as_def client_may_def)
    next
      case (Some c)
      then obtain t where "ct = Some t" "reads_as c t" using assms(5) by (auto simp: client_as_def)
      then show ?thesis
        using may_own_label[OF _ _ r(2), of t gb c] g(3) Some None by (simp add: label_after_def)
    qed
  next
    case (Some x)
    then show ?thesis
      using s(1) g by (cases x) (auto simp: write_allowed_def label_after_def intro: may_write_read)
  qed
  then have e: "read_entry (rules ctl) ct ?c1 n (key_type key') = (0, Some (as_stored d, label_after cl (?c n)))"
    using assms(10) by (auto simp: read_entry_def c1)
  have "read_spec (rules ctl) ct ?c1 n (key_type key') = (0, Some (as_stored d, label_after cl (?c n)))"
  proof (cases n)
    case None
    then show ?thesis using e by (simp add: read_spec_def)
  next
    case (Some m)
    then have "?c1 None = Some (gd, gb)" using g(1) by (simp add: c1)
    then show ?thesis
      using e g(2) may_write_read[OF g(3)] Some
      by (simp add: read_spec_def read_entry_def[of _ None] client_may_def[of _ None])
  qed
  moreover have "the_layer ctl1 ly = Some l" using same_setup_layer[OF s(3)] assms(4) by simp
  note rd = calculation and l1 = this
  obtain out ctl2 where
    "buxton_direct_get_value_for_layer (system_env slack root gdbm) key' cl ctl1 =
       Inr (fst (read_spec (rules ctl1) ct ?c1 n (key_type key')), out, ctl2)"
    "stands_for out (snd (read_spec (rules ctl1) ct ?c1 n (key_type key')))"
    using sys.get_layer_ok[unfolded sys_ctl_ok system_env_slack, OF s(2) assms(8,9) l1 assms(5)] by blast
  then show ?thesis by (auto simp: r(1) rd stands_for_def)
qed

text \<open>C2. After a successful set, the same client reads the value back from the layer, asking for its
  type or for any type: a client that may write can never lose sight of what it wrote.\<close>

theorem direct_get_after_set:
  assumes "system_ok ctl" "key_ok key g n" "layer_arg slack (key_layer key) ly"
    "the_layer ctl ly = Some l" "client_as cl ct" "data_ok d"
    "buxton_direct_set_value (system_env slack root gdbm) key d cl ctl = Inr (True, ctl1)"
    "key_ok key' g n" "layer_arg slack (key_layer key') ly"
    "key_type key' = data_type d \<or> key_type key' = BUXTON_TYPE_UNSET"
  shows "\<exists>lab ctl2. buxton_direct_get_value_for_layer (system_env slack root gdbm) key' cl ctl1 =
    Inr (0, Some (as_stored d, lab), ctl2)"
  by (rule reads_back[OF assms])

lemma sample_set:
  "\<exists>ctl'. buxton_direct_set_value (system_env (\<lambda>_. []) None no_gdbm)
     (layer_key ''sys'' ''g'' (Some ''k'') BUXTON_TYPE_INT32) (DInt32 7)
     (Some (buxton_string_pack ''App'')) sample_ctl = Inr (True, ctl')"
proof -
  have k: "key_ok (layer_key ''sys'' ''g'' (Some ''k'') BUXTON_TYPE_INT32) ''g'' (Some ''k'')"
    by (rule layer_key_ok) (simp_all add: key_text_def)
  have a: "layer_arg (\<lambda>_. []) (key_layer (layer_key ''sys'' ''g'' (Some ''k'') BUXTON_TYPE_INT32)) ''sys''"
    by (rule layer_key_arg) simp_all
  have d: "data_ok (DInt32 7)" by simp
  have "write_allowed (rules sample_ctl) (Some ''App'') (mem_contents (fst (modules sample_ctl))
      (mem_place (sample_layer LAYER_SYSTEM 5 ''sys'')) ''g'') (Some ''k'')"
    by (simp add: write_allowed_def sample_get sample_place sample_may)
  then show ?thesis
    using sys.set_value_ok[unfolded sys_ctl_ok system_env_slack, OF sample_ctl_ok k a sample_the_layer(1)
        sample_client d, of None no_gdbm] by auto
qed

theorem direct_get_after_set_witness:
  "\<exists>ctl1 lab ctl2. buxton_direct_set_value (system_env (\<lambda>_. []) None no_gdbm)
       (layer_key ''sys'' ''g'' (Some ''k'') BUXTON_TYPE_INT32) (DInt32 7)
       (Some (buxton_string_pack ''App'')) sample_ctl = Inr (True, ctl1) \<and>
     buxton_direct_get_value_for_layer (system_env (\<lambda>_. []) None no_gdbm)
       (layer_key ''sys'' ''g'' (Some ''k'') BUXTON_TYPE_UNSET) (Some (buxton_string_pack ''App'')) ctl1 =
         Inr (0, Some (DInt32 7, lab), ctl2)"
proof -
  have k: "key_ok (layer_key ''sys'' ''g'' (Some ''k'') t) ''g'' (Some ''k'')" for t
    by (rule layer_key_ok) (simp_all add: key_text_def)
  have a: "layer_arg (\<lambda>_. []) (key_layer (layer_key ''sys'' ''g'' (Some ''k'') t)) ''sys''" for t
    by (rule layer_key_arg) simp_all
  obtain ctl1 where s: "buxton_direct_set_value (system_env (\<lambda>_. []) None no_gdbm)
       (layer_key ''sys'' ''g'' (Some ''k'') BUXTON_TYPE_INT32) (DInt32 7)
       (Some (buxton_string_pack ''App'')) sample_ctl = Inr (True, ctl1)"
    using sample_set by blast
  have t: "key_type (layer_key ''sys'' ''g'' (Some ''k'') BUXTON_TYPE_UNSET) = data_type (DInt32 7) \<or>
      key_type (layer_key ''sys'' ''g'' (Some ''k'') BUXTON_TYPE_UNSET) = BUXTON_TYPE_UNSET"
    by (simp add: layer_key_def plain_key_def)
  from direct_get_after_set[OF sample_ctl_ok k a sample_the_layer(1) sample_client _ s k a t]
  show ?thesis using s by auto
qed

text \<open>C3. Reading a key of a layer: ENOENT when the group or the key is missing, EINVAL when the group is
  not a group or the key has another type, EPERM when the client may not read the group or the key,
  and otherwise the stored value with the bytes of its label. A read changes nothing that is stored.\<close>

theorem direct_read_decision:
  assumes "system_ok ctl" "key_ok key g n" "layer_arg slack (key_layer key) ly"
    "the_layer ctl ly = Some l" "client_as cl ct"
  shows "\<exists>out ctl'. buxton_direct_get_value_for_layer (system_env slack root gdbm) key cl ctl =
       Inr (fst (read_spec (rules ctl) ct (group_contents ctl l g) n (key_type key)), out, ctl') \<and>
     stands_for out (snd (read_spec (rules ctl) ct (group_contents ctl l g) n (key_type key))) \<and>
     system_ok ctl' \<and> same_setup ctl ctl' \<and> all_contents ctl' = all_contents ctl"
  using sys.get_layer_ok[unfolded sys_ctl_ok system_env_slack, OF assms, of root gdbm]
  unfolding group_contents_def all_contents_def sys.keeps_def sys_ctl_ok by blast

theorem direct_read_decision_witness:
  "\<exists>out ctl'. buxton_direct_get_value_for_layer (system_env (\<lambda>_. []) None no_gdbm)
     (layer_key ''sys'' ''g'' (Some ''k'') BUXTON_TYPE_INT32) (Some (buxton_string_pack ''App''))
     sample_ctl = Inr (ENOENT, out, ctl')"
proof -
  have k: "key_ok (layer_key ''sys'' ''g'' (Some ''k'') BUXTON_TYPE_INT32) ''g'' (Some ''k'')"
    by (rule layer_key_ok) (simp_all add: key_text_def)
  have a: "layer_arg (\<lambda>_. []) (key_layer (layer_key ''sys'' ''g'' (Some ''k'') BUXTON_TYPE_INT32)) ''sys''"
    by (rule layer_key_arg) simp_all
  have "read_spec (rules sample_ctl) (Some ''App'')
      (group_contents sample_ctl (sample_layer LAYER_SYSTEM 5 ''sys'') ''g'') (Some ''k'') t = (ENOENT, None)" for t
    using sample_may[of ACCESS_READ]
    by (simp add: read_spec_def read_entry_def group_contents_def sample_get sample_place
        client_may_def[of _ None])
  then show ?thesis
    using direct_read_decision[OF sample_ctl_ok k a sample_the_layer(1) sample_client, of None no_gdbm]
    by auto
qed

text \<open>C5. A key is unset exactly when the group exists, the client may write group and key, the layer is
  not read-only, the key exists and, for clients of the daemon, the type of the request fits the
  key; then that key alone is gone, and otherwise nothing changes.\<close>

theorem direct_unset_value:
  assumes "system_ok ctl" "key_ok key g (Some m)" "layer_arg slack (key_layer key) ly"
    "the_layer ctl ly = Some l" "client_as cl ct"
  shows "let c = group_contents ctl l g;
             ok = (write_allowed (rules ctl) ct c (Some m) \<and> \<not> layer_readonly l \<and>
               (\<exists>d b. c (Some m) = Some (d, b) \<and>
                  (ct = None \<or> key_type key = data_type d \<or> key_type key = BUXTON_TYPE_UNSET)))
    in \<exists>ctl'. buxton_direct_unset_value (system_env slack root gdbm) key cl ctl = Inr (ok, ctl') \<and>
         system_ok ctl' \<and> same_setup ctl ctl' \<and>
         all_contents ctl' = (if ok then kv_upd (all_contents ctl) (mem_place l) g (Some m) None
                              else all_contents ctl)"
  unfolding Let_def group_contents_def all_contents_def
  by (rule sys.unset_value_ok[unfolded sys_ctl_ok system_env_slack, OF assms])

theorem direct_unset_value_witness:
  "\<exists>ctl'. buxton_direct_unset_value (system_env (\<lambda>_. []) None no_gdbm)
     (layer_key ''sys'' ''g'' (Some ''k'') BUXTON_TYPE_INT32) (Some (buxton_string_pack ''App''))
     sample_ctl = Inr (False, ctl') \<and> all_contents ctl' = all_contents sample_ctl"
proof -
  have k: "key_ok (layer_key ''sys'' ''g'' (Some ''k'') BUXTON_TYPE_INT32) ''g'' (Some ''k'')"
    by (rule layer_key_ok) (simp_all add: key_text_def)
  have a: "layer_arg (\<lambda>_. []) (key_layer (layer_key ''sys'' ''g'' (Some ''k'') BUXTON_TYPE_INT32)) ''sys''"
    by (rule layer_key_arg) simp_all
  have "group_contents sample_ctl (sample_layer LAYER_SYSTEM 5 ''sys'') ''g'' (Some ''k'') = None"
    by (simp add: group_contents_def sample_get)
  then show ?thesis
    using direct_unset_value[OF sample_ctl_ok k a sample_the_layer(1) sample_client, of None no_gdbm]
    by (auto simp: Let_def)
qed

section \<open>Groups and labels\<close>

text \<open>C6. The label of an existing group or key changes exactly when the client is root (or the root check
  is switched off) and the layer is a writable system layer; the value stays, and nothing else
  changes. In user layers labels can never be set.\<close>

theorem direct_set_label:
  assumes "system_ok ctl" "key_ok key g n" "cstrp (str_value (key_layer key)) = Inr ly"
    "the_layer ctl ly = Some l" "reads_as lab t"
  shows "let c = group_contents ctl l g;
             ok = (\<not> layer_readonly l \<and> layer_type l = LAYER_SYSTEM \<and>
               \<not> root_refused (system_env slack root gdbm) ctl \<and> c n \<noteq> None)
    in \<exists>ctl'. buxton_direct_set_label (system_env slack root gdbm) key lab ctl = Inr (ok, ctl') \<and>
         system_ok ctl' \<and> same_setup ctl ctl' \<and>
         all_contents ctl' = (if ok then kv_upd (all_contents ctl) (mem_place l) g n
             (map_option (\<lambda>(d, _). (d, str_bytes lab)) (c n)) else all_contents ctl)"
  unfolding Let_def group_contents_def all_contents_def
  by (rule sys.set_label_ok[unfolded sys_ctl_ok, OF assms])

theorem direct_set_label_witness:
  "\<exists>ctl'. buxton_direct_set_label (system_env (\<lambda>_. []) None no_gdbm)
       (layer_key ''sys'' ''g'' None BUXTON_TYPE_STRING) (buxton_string_pack ''System'') sample_ctl =
         Inr (True, ctl') \<and>
     all_contents ctl' ''sys'' ''g'' None = Some (group_value, zstr ''System'')"
proof -
  have k: "key_ok (layer_key ''sys'' ''g'' None BUXTON_TYPE_STRING) ''g'' None"
    by (rule layer_key_ok) (simp_all add: key_text_def)
  have a: "cstrp (str_value (key_layer (layer_key ''sys'' ''g'' None BUXTON_TYPE_STRING))) = Inr ''sys''"
    using layer_key_arg[of "''sys''" "\<lambda>_. []"] by (simp add: layer_arg_def)
  have h: "str_holds (buxton_string_pack ''System'') ''System''" by (rule str_holds_pack) simp_all
  have "\<not> root_refused (system_env (\<lambda>_. []) None no_gdbm) sample_ctl"
    by (simp add: root_refused_def sample_ctl_def)
  then show ?thesis
    using direct_set_label[OF sample_ctl_ok k a sample_the_layer(1) str_holds_reads[OF h],
        of "\<lambda>_. []" None no_gdbm]
    by (auto simp: Let_def group_contents_def sample_get sample_place str_holds_bytes[OF h])
qed

text \<open>C7. A group is created exactly when it does not exist, the layer is not read-only and, for a system
  layer, the client is root; it gets the client's label, or the floor label for a direct client.\<close>

theorem direct_create_group:
  assumes "system_ok ctl" "key_ok key g None" "cstrp (str_value (key_layer key)) = Inr ly"
    "the_layer ctl ly = Some l" "client_as cl ct"
  shows "let c = group_contents ctl l g;
             ok = (\<not> layer_readonly l \<and>
               (layer_type l = LAYER_SYSTEM \<longrightarrow> \<not> root_refused (system_env slack root gdbm) ctl) \<and>
               c None = None)
    in \<exists>ctl'. buxton_direct_create_group (system_env slack root gdbm) key cl ctl = Inr (ok, ctl') \<and>
         system_ok ctl' \<and> same_setup ctl ctl' \<and>
         all_contents ctl' = (if ok then kv_upd (all_contents ctl) (mem_place l) g None
             (Some (group_value, label_after cl None)) else all_contents ctl)"
  unfolding Let_def group_contents_def all_contents_def
  by (rule sys.create_group_ok[unfolded sys_ctl_ok, OF assms])

theorem direct_create_group_witness:
  "\<exists>ctl'. buxton_direct_create_group (system_env (\<lambda>_. []) None no_gdbm)
       (layer_key ''sys'' ''h'' None BUXTON_TYPE_STRING) (Some (buxton_string_pack ''App'')) sample_ctl =
         Inr (True, ctl') \<and>
     all_contents ctl' ''sys'' ''h'' None = Some (group_value, zstr ''App'')"
proof -
  have k: "key_ok (layer_key ''sys'' ''h'' None BUXTON_TYPE_STRING) ''h'' None"
    by (rule layer_key_ok) (simp_all add: key_text_def)
  have a: "cstrp (str_value (key_layer (layer_key ''sys'' ''h'' None BUXTON_TYPE_STRING))) = Inr ''sys''"
    using layer_key_arg[of "''sys''" "\<lambda>_. []"] by (simp add: layer_arg_def)
  have "\<not> root_refused (system_env (\<lambda>_. []) None no_gdbm) sample_ctl"
    by (simp add: root_refused_def sample_ctl_def)
  then show ?thesis
    using direct_create_group[OF sample_ctl_ok k a sample_the_layer(1) sample_client,
        of "\<lambda>_. []" None no_gdbm]
    by (auto simp: Let_def group_contents_def sample_get sample_place label_after_def
        str_holds_bytes[OF sample_label])
qed

text \<open>C8. A group is removed exactly when it exists with the type of the request, the layer is not
  read-only, and the client is root (system layers) or may write the group (user layers). Then the
  group is gone with all of its keys, and no other entry of any database has changed.\<close>

theorem direct_remove_group:
  assumes "system_ok ctl" "key_ok key g None" "cstrp (str_value (key_layer key)) = Inr ly"
    "the_layer ctl ly = Some l" "client_as cl ct"
  shows "let c = group_contents ctl l g;
             ok = (\<not> layer_readonly l \<and>
               (layer_type l = LAYER_SYSTEM \<longrightarrow> \<not> root_refused (system_env slack root gdbm) ctl) \<and>
               (\<exists>d b. c None = Some (d, b) \<and>
                  (key_type key = data_type d \<or> key_type key = BUXTON_TYPE_UNSET) \<and>
                  (layer_type l = LAYER_USER \<longrightarrow> client_may (rules ctl) ct ACCESS_WRITE b)))
    in \<exists>ctl'. buxton_direct_remove_group (system_env slack root gdbm) key cl ctl = Inr (ok, ctl') \<and>
         system_ok ctl' \<and> same_setup ctl ctl' \<and>
         all_contents ctl' =
           (\<lambda>p g' n. if ok \<and> p = mem_place l \<and> g' = g then None else all_contents ctl p g' n)"
  unfolding Let_def group_contents_def all_contents_def
  by (rule sys.remove_group_ok[unfolded sys_ctl_ok, OF assms])

theorem direct_remove_group_witness:
  "\<exists>ctl'. buxton_direct_remove_group (system_env (\<lambda>_. []) None no_gdbm)
       (layer_key ''sys'' ''g'' None BUXTON_TYPE_STRING) (Some (buxton_string_pack ''App'')) sample_ctl =
         Inr (True, ctl') \<and> all_contents ctl' ''sys'' ''g'' None = None"
proof -
  have k: "key_ok (layer_key ''sys'' ''g'' None BUXTON_TYPE_STRING) ''g'' None"
    by (rule layer_key_ok) (simp_all add: key_text_def)
  have a: "cstrp (str_value (key_layer (layer_key ''sys'' ''g'' None BUXTON_TYPE_STRING))) = Inr ''sys''"
    using layer_key_arg[of "''sys''" "\<lambda>_. []"] by (simp add: layer_arg_def)
  have "\<not> root_refused (system_env (\<lambda>_. []) None no_gdbm) sample_ctl"
    by (simp add: root_refused_def sample_ctl_def)
  then show ?thesis
    using direct_remove_group[OF sample_ctl_ok k a sample_the_layer(1) sample_client,
        of "\<lambda>_. []" None no_gdbm]
    by (auto simp: Let_def group_contents_def sample_get sample_place layer_key_def plain_key_def)
qed

section \<open>Requests that name no layer\<close>



text \<open>Without a zero byte behind the copied name, a get of a key that names no layer reads past the
  end of a block as soon as there is a layer to search: the group's lookup runs \<open>strcmp\<close> over a
  name of \<open>strlen\<close> bytes that has no NUL.\<close>

theorem layerless_get_overreads:
  assumes "system_ok ctl" "key_ok key g (Some m)" "str_value (key_layer key) = None"
    "layers (config ctl) = (nm, l) # ls" "length nm < 2 ^ 32"
  shows "buxton_direct_get_value (system_env (\<lambda>_. []) root gdbm) key cl ctl = Inl OutOfBounds"
proof -
  let ?env = "system_env (\<lambda>_. []) root gdbm" and ?key = "key\<lparr>key_layer := layer_name l\<rparr>"
  have cfg: "config_ok (config ctl)" using assms(1) by (simp add: system_ok_def)
  have get: "hm_get (layers (config ctl)) nm = Some l" by (simp add: assms(4) hm_get_def)
  have lo: "layer_ok nm l" by (rule config_layer[OF cfg get])
  then have n: "layer_name l = \<lparr>str_value = Some (zstr nm), str_length = word_of_nat (length nm)\<rparr>"
    "NUL \<notin> set nm" by (auto simp: layer_ok_def)
  have lv: "str_value (layer_name l) = Some (zstr nm)" by (simp add: n(1))
  have u: "unat (word_of_nat (length nm) :: 32 word) = length nm"
    using assms(5) by (simp add: unat_of_nat)
  have copy: "copy_member (\<lambda>_. []) (layer_name l) = Inr \<lparr>str_value = Some nm, str_length = word_of_nat (length nm)\<rparr>"
    by (simp add: n(1) copy_member_def buxton_string_copy_def u rd_def) (simp add: zstr_def)
  have "str_holds (key_group key) g" using assms(2) by (simp add: key_ok_def)
  from copy_member_holds[OF this, of "\<lambda>_. []"] obtain c where c: "copy_member (\<lambda>_. []) (key_group key) = Inr c" by blast
  define grp where "grp = \<lparr>key_group = c, key_name = null_string,
     key_layer = \<lparr>str_value = Some nm, str_length = word_of_nat (length nm)\<rparr>, key_type = BUXTON_TYPE_STRING\<rparr>"
  have grp: "buxton_copy_key_group (\<lambda>_. []) ?key = Inr grp"
    by (simp add: buxton_copy_key_group_def c copy grp_def)
  have f: "find_layer ctl (layer_name l) = Inr (Some (nm, l))"
    using layer_ok_cstr[OF lo] get by (simp add: find_layer_def)
  define l1 where "l1 = l\<lparr>layer_uid := client_uid ctl\<rparr>"
  have tl: "the_layer ctl nm = Some l1" by (simp add: the_layer_def get l1_def)
  have ok: "sys.ctl_ok ctl" using assms(1) by (simp add: sys_ctl_ok)
  obtain ctl1 where w: "with_backend ?env ctl (nm, l) = Inr (env_table ?env (layer_backend l1), l1, ctl1)"
    using sys.with_backend_ok[OF ok l1_def tl] by blast
  have "buxton_direct_get_value_for_layer ?env grp None ctl1 = Inl OutOfBounds"
    using n(2) by (subst buxton_direct_get_value_for_layer.simps) (simp add: grp_def find_layer_def cstr_def)
  moreover have "str_value (key_name key) \<noteq> None"
    using assms(2) str_holds_value[of "key_name key" m] by (simp add: key_ok_def)
  then obtain nv where "str_value (key_name key) = Some nv" by blast
  ultimately have "buxton_direct_get_value_for_layer ?env ?key cl ctl = Inl OutOfBounds"
    by (subst buxton_direct_get_value_for_layer.simps) (simp add: f w grp lv)
  then show ?thesis using assms(3,4) by (simp add: buxton_direct_get_value_def)
qed

theorem layerless_get_overreads_witness:
  "buxton_direct_get_value (system_env (\<lambda>_. []) None no_gdbm)
     (plain_key ''g'' (Some ''k'') BUXTON_TYPE_STRING) None sample_ctl = Inl OutOfBounds"
proof -
  have k: "key_ok (plain_key ''g'' (Some ''k'') BUXTON_TYPE_STRING) ''g'' (Some ''k'')"
    by (rule plain_key_ok) (simp_all add: key_text_def)
  show ?thesis
    by (rule layerless_get_overreads[OF sample_ctl_ok k, where nm = "''sys''"])
      (simp_all add: plain_key_def null_string_def sample_ctl_def)
qed

end
