(* ===== verification/Main_Loop.thy ===== *)
theory Main_Loop
  imports Registry Direct_Props
begin

text \<open>
  The daemon from its start to any later round of its main loop: the registrations stay in step
  (theory \<open>Registry\<close>), the poll set holds exactly the descriptors of the clients beside the daemon's
  own, and no assertion or abort of the loop and of \<open>terminate_client\<close> can be reached. What is left
  to fail is the handling of a request itself and what the kernel says of a peer.
\<close>

section \<open>The poll set\<close>

definition slots :: "'s BuxtonDaemon \<Rightarrow> (int \<times> bool) list" where
  "slots d = zip (map pfd (pollfds d)) (accepting d)"

text \<open>
  Between two calls of \<open>handle_client\<close> no client has a buffer. Slot 0 is the signal descriptor. Every other slot that does not accept connections is a client's
  or the one that watches the Smack rules, and every client has a slot.
\<close>

definition poll_ok :: "int \<Rightarrow> 's BuxtonDaemon \<Rightarrow> bool" where
  "poll_ok smackfd d \<longleftrightarrow>
     length (accepting d) = length (pollfds d) \<and> pollfds d \<noteq> [] \<and>
     distinct (map pfd (pollfds d)) \<and> (\<forall>p \<in> set (pollfds d). 0 \<le> pfd p) \<and>
     length (pollfds d) * SIZEOF_POLLFD \<le> nfds_alloc d \<and>
     length (pollfds d) * SIZEOF_POINTER \<le> accepting_alloc d \<and>
     {fd. (fd, False) \<in> set (tl (slots d)) \<and> fd \<noteq> smackfd} = cl_fd ` set (client_list d) \<and>
     (0 \<le> smackfd \<longrightarrow> (smackfd, False) \<in> set (tl (slots d)))"

definition daemon_ok :: "int \<Rightarrow> 's BuxtonDaemon \<Rightarrow> bool" where
  "daemon_ok smackfd d \<longleftrightarrow> registry_ok d \<and> poll_ok smackfd d \<and>
     (\<forall>cl \<in> set (client_list d). cl_data cl = None)"

lemma slots_fst: "length (accepting d) = length (pollfds d) \<Longrightarrow> map fst (slots d) = map pfd (pollfds d)"
  by (simp add: slots_def)

lemma slots_nth:
  "length (accepting d) = length (pollfds d) \<Longrightarrow> i < length (pollfds d) \<Longrightarrow>
   slots d ! i = (pfd (pollfds d ! i), accepting d ! i)"
  by (simp add: slots_def)

lemma length_slots: "length (accepting d) = length (pollfds d) \<Longrightarrow> length (slots d) = length (pollfds d)"
  by (simp add: slots_def)

lemma same_connections_poll:
  "same_connections d d' \<Longrightarrow> poll_ok smackfd d' = poll_ok smackfd d"
  by (simp add: same_connections_def poll_ok_def slots_def)

lemma kept_daemon_ok:
  assumes "kept d d'" "daemon_ok smackfd d"
  shows "daemon_ok smackfd d'"
proof -
  have "client_list d' = client_list d" "poll_ok smackfd d' = poll_ok smackfd d"
    using assms(1) by (simp_all add: kept_def same_connections_poll) (simp add: same_connections_def)
  then show ?thesis using assms by (simp add: kept_def daemon_ok_def)
qed

lemma greedy_realloc_enough: "need \<le> greedy_realloc allocated need"
  by (auto simp: greedy_realloc_def max_def)

lemma add_pollfd_ok:
  assumes "0 \<le> fd"
  obtains na aa where "add_pollfd d fd ev a = Inr (d\<lparr>nfds_alloc := na, accepting_alloc := aa,
      pollfds := pollfds d @ [\<lparr>pfd = fd, events = ev, revents = 0\<rparr>], accepting := accepting d @ [a]\<rparr>)"
    "Suc (length (pollfds d)) * SIZEOF_POLLFD \<le> na" "Suc (length (pollfds d)) * SIZEOF_POINTER \<le> aa"
proof -
  let ?na = "greedy_realloc (nfds_alloc d) ((length (pollfds d) + 1) * SIZEOF_POLLFD)"
  let ?aa = "greedy_realloc (accepting_alloc d) ((length (pollfds d) + 1) * SIZEOF_POINTER)"
  have n: "Suc (length (pollfds d)) * SIZEOF_POLLFD \<le> ?na" "Suc (length (pollfds d)) * SIZEOF_POINTER \<le> ?aa"
    using greedy_realloc_enough[of "(length (pollfds d) + 1) * SIZEOF_POLLFD"] by simp_all
  have "add_pollfd d fd ev a = Inr (d\<lparr>nfds_alloc := ?na, accepting_alloc := ?aa,
      pollfds := pollfds d @ [\<lparr>pfd = fd, events = ev, revents = 0\<rparr>], accepting := accepting d @ [a]\<rparr>)"
    using assms n by (simp add: add_pollfd_def Let_def)
  then show ?thesis using n by (rule that)
qed

text \<open>Removing a slot other than the first.\<close>

lemma set_tl_delete:
  assumes "distinct (map fst xs)" "0 < i" "i < length xs"
  shows "set (tl (take i xs @ drop (Suc i) xs)) = set (tl xs) - {xs ! i}"
proof -
  obtain j where i: "i = Suc j" using assms(2) by (cases i) auto
  obtain x ys where xs: "xs = x # ys" using assms(3) by (cases xs) auto
  have j: "j < length ys" using assms(3) i xs by simp
  have d: "distinct ys" using assms(1) xs by (auto dest: distinct_map[THEN iffD1])
  have y: "ys = take j ys @ ys ! j # drop (Suc j) ys" using j by (rule id_take_nth_drop)
  have "distinct (take j ys @ ys ! j # drop (Suc j) ys)" using d y by simp
  then have "ys ! j \<notin> set (take j ys) \<union> set (drop (Suc j) ys)" by auto
  moreover have "set ys = insert (ys ! j) (set (take j ys) \<union> set (drop (Suc j) ys))"
    using arg_cong[OF y, of set] by simp
  ultimately have "set (take j ys @ drop (Suc j) ys) = set ys - {ys ! j}" by auto
  then show ?thesis using i xs by simp
qed

section \<open>The buffer of a client\<close>

definition same_peer :: "client_list_item \<Rightarrow> client_list_item \<Rightarrow> bool" where
  "same_peer cl cl' \<longleftrightarrow> cl_id cl' = cl_id cl \<and> cl_fd cl' = cl_fd cl"

lemma known_same_peer: "same_peer cl cl' \<Longrightarrow> known d cl' = known d cl"
  by (simp add: known_def same_peer_def)

text \<open>Between two reads: something is still missing, and it fits.\<close>

definition buf_ok :: "client_list_item \<Rightarrow> bool" where
  "buf_ok cl \<longleftrightarrow> (\<exists>b. cl_data cl = Some b \<and> cl_size cl \<le> length b) \<and> cl_offset cl < cl_size cl \<and>
     BUXTON_MESSAGE_HEADER_LENGTH \<le> cl_size cl"

lemma poke_fits:
  assumes "cl_data cl = Some d" "off + length b \<le> length d"
  shows "\<exists>d'. poke cl off b = Inr (cl\<lparr>cl_data := Some d'\<rparr>) \<and> length d' = length d"
  using assms by (auto simp: poke_def)

lemma get_message_size_cases:
  assumes "BUXTON_MESSAGE_HEADER_LENGTH \<le> length b"
  shows "\<exists>n. buxton_get_message_size b sz = Inr n \<and> (n = 0 \<or> BUXTON_MESSAGE_HEADER_LENGTH \<le> n)"
  using assms by (auto simp: buxton_get_message_size_def rd_def)

lemma sock_read_length: "sock_read n s = (Got b, s') \<Longrightarrow> length b \<le> n"
  by (cases "(n, s)" rule: sock_read.cases) (auto split: if_splits)

text \<open>Some request that a known client may send makes the daemon fault.\<close>

definition message_fault :: "'s env \<Rightarrow> ((int \<times> bytes) list \<Rightarrow> bool) \<Rightarrow> fault \<Rightarrow> bool" where
  "message_fault env writes f \<longleftrightarrow> (\<exists>d c. registry_ok d \<and> known d c \<and> cl_size c \<le> length (buffer c) \<and>
     buxtond_handle_message env writes d c (buffer c) (cl_size c) = Inl f)"

lemma client_loop_ok:
  assumes "registry_ok self" "known self cl" "buf_ok cl"
  shows "case client_loop env writes junk limit self cl sock of
      Inr (e, d) \<Rightarrow> kept self d
    | Inl f \<Rightarrow> message_fault env writes f"
  using assms
proof (induction "sock_size sock" arbitrary: limit self cl sock rule: less_induct)
  case less
  note reg = less.prems(1) and kn = less.prems(2)
  note unf = client_loop.simps[of env writes junk limit self cl sock]
  obtain data where data: "cl_data cl = Some data" "cl_size cl \<le> length data" "cl_offset cl < cl_size cl"
    "BUXTON_MESSAGE_HEADER_LENGTH \<le> cl_size cl"
    using less.prems(3) by (auto simp: buf_ok_def)
  obtain r rest where r: "sock_read (cl_size cl - cl_offset cl) sock = (r, rest)"
    by (cases "sock_read (cl_size cl - cl_offset cl) sock")
  show ?case
  proof (cases "r = Failed \<or> r = WouldBlock \<or> r = Got []")
    case True
    then show ?thesis using r by (auto simp: unf)
  next
    case False
    then obtain b where b: "r = Got b" "b \<noteq> []" by (cases r) auto
    have lb: "length b \<le> cl_size cl - cl_offset cl" using sock_read_length r b by metis
    have rest: "sock_size rest < sock_size sock" using sock_read_less r b by metis
    have "cl_offset cl + length b \<le> length data" using lb data by simp
    from poke_fits[OF data(1) this] obtain d' where
      p: "poke cl (cl_offset cl) b = Inr (cl\<lparr>cl_data := Some d'\<rparr>)" "length d' = length data"
      by blast
    define cl1 where "cl1 = cl\<lparr>cl_data := Some d', cl_offset := cl_offset cl + length b\<rparr>"
    have cl1: "same_peer cl cl1" "cl_size cl1 = cl_size cl" "cl_offset cl1 \<le> cl_size cl1"
      "cl_data cl1 = Some d'" "buffer cl1 = d'"
      using lb data(3) by (simp_all add: cl1_def same_peer_def buffer_def)
    have go: "case client_loop env writes junk l d c rest of
        Inr (e, d') \<Rightarrow> kept self d' | Inl f \<Rightarrow> message_fault env writes f"
      if "kept self d" "same_peer cl1 c" "buf_ok c" for l d c
    proof -
      have "registry_ok d" "known d c"
        using that reg kn
        by (simp_all add: known_same_peer[OF that(2)] known_same_peer[OF cl1(1)] kept_known[OF that(1)])
          (simp add: kept_def)
      from less.hyps[OF rest this that(3), of l] show ?thesis
        using kept_trans[OF that(1)] by (auto split: sum.splits)
    qed
    show ?thesis
    proof (cases "cl_offset cl1 < BUXTON_MESSAGE_HEADER_LENGTH")
      case True
      have "buf_ok cl1" using data(2,4) p(2) cl1 True by (simp add: buf_ok_def)
      then show ?thesis
        using go[of self cl1 limit] r b p(1) True by (simp add: unf cl1_def same_peer_def)
    next
      case False
      define sz where "sz = (if cl_size cl = BUXTON_MESSAGE_HEADER_LENGTH
        then projr (buxton_get_message_size d' (cl_offset cl1)) else cl_size cl)"
      have sz: "frame_size cl1 = Inr sz" and sz8: "sz = 0 \<or> BUXTON_MESSAGE_HEADER_LENGTH \<le> sz"
        using get_message_size_cases[of d' "cl_offset cl1"] data p(2) cl1
        by (auto simp: sz_def frame_size_def)
      define cl2 where "cl2 = resize junk sz cl1"
      have eq: "client_loop env writes junk limit self cl sock =
        (if cl_size cl1 = BUXTON_MESSAGE_HEADER_LENGTH \<and> (sz = 0 \<or> BUXTON_MESSAGE_MAX_LENGTH < sz)
         then Inr (Terminate, self)
         else if cl_offset cl2 < sz then client_loop env writes junk limit self cl2 rest
         else if sz < cl_offset cl2 then Inl Aborted
         else bindE (buxtond_handle_message env writes self cl2 (buffer cl2) sz) (\<lambda>(ok, self1).
            if \<not> ok then Inr (Terminate, self1)
            else if limit - 1 \<noteq> 0 then
              client_loop env writes junk (limit - 1) self1 (rewind cl2) rest
            else Inr (Cleanup (sock_peek 2 rest \<noteq> []), self1)))"
      proof -
        have c: "cl\<lparr>cl_data := Some d'\<rparr>\<lparr>cl_offset := cl_offset cl + length b\<rparr> = cl1"
          by (simp add: cl1_def)
        show ?thesis
          unfolding unf r b(1) prod.case read_result.case p(1) bindE_Inr Let_def c sz cl2_def
          using False b(2) by simp
      qed
      show ?thesis
      proof (cases "cl_size cl1 = BUXTON_MESSAGE_HEADER_LENGTH \<and> (sz = 0 \<or> BUXTON_MESSAGE_MAX_LENGTH < sz)")
        case True
        then show ?thesis by (simp add: eq)
      next
        case F: False
        then have sz0: "BUXTON_MESSAGE_HEADER_LENGTH \<le> sz" "cl_offset cl1 \<le> sz"
          using sz8 data(4) cl1(2,3) by (auto simp: sz_def)
        have cl2: "same_peer cl1 cl2" "cl_offset cl2 = cl_offset cl1" "cl_size cl2 = sz"
          "cl_data cl2 = Some (buffer cl2)" "sz \<le> length (buffer cl2)"
          using sz0 data cl1 p(2) by (auto simp: cl2_def resize_def same_peer_def grow_def buffer_def)
        show ?thesis
        proof (cases "cl_offset cl2 < sz")
          case True
          then have "buf_ok cl2" using cl2 sz0 by (simp add: buf_ok_def)
          then show ?thesis using go[of self cl2 limit] cl2(1) F True by (simp add: eq)
        next
          case G: False
          have kn2: "known self cl2"
            using kn by (simp add: known_same_peer[OF cl1(1)] known_same_peer[OF cl2(1)])
          show ?thesis
          proof (cases "buxtond_handle_message env writes self cl2 (buffer cl2) sz")
            case (Inl f)
            then have "message_fault env writes f"
              using reg kn2 cl2 by (auto simp: message_fault_def)
            then show ?thesis using F G sz0 cl2(2) Inl by (simp add: eq)
          next
            case (Inr x)
            obtain ok d1 where x: "x = (ok, d1)" by (cases x)
            have k1: "kept self d1" using handle_message_kept[OF Inr[unfolded x] kn2 reg] .
            have b3: "buf_ok (rewind cl2)" using cl2(4,5) sz0(1)
              by (auto simp: rewind_def buf_ok_def intro!: exI[of _ "buffer cl2"])
            have "same_peer cl1 (rewind cl2)" using cl2(1) by (simp add: rewind_def same_peer_def)
            from go[OF k1 this b3, of "limit - 1"] show ?thesis
              using F G sz0 cl2(2) Inr x k1 by (simp add: eq)
          qed
        qed
      qed
    qed
  qed
qed

section \<open>Serving a client\<close>

text \<open>The kernel's answer about a peer is itself a fault.\<close>

definition peer_fault :: "peer \<Rightarrow> fault \<Rightarrow> bool" where
  "peer_fault peer f \<longleftrightarrow> peer_cred peer = Inl f \<or> peer_label peer = Inl f"

lemma authenticate_cases:
  "case authenticate peer cl of
     Inl f \<Rightarrow> peer_fault peer f
   | Inr None \<Rightarrow> True
   | Inr (Some cl') \<Rightarrow> same_peer cl cl' \<and> cl_data cl' = cl_data cl \<and> cl_size cl' = cl_size cl \<and>
       cl_offset cl' = cl_offset cl"
proof (cases "cl_uid cl = 0 \<or> cl_pid cl = 0")
  case True
  show ?thesis
  proof (cases "peer_cred peer")
    case (Inl f)
    then show ?thesis using True by (simp add: authenticate_def peer_fault_def)
  next
    case (Inr c)
    then show ?thesis
      using True
      by (cases c; cases "peer_label peer")
        (auto simp: authenticate_def peer_fault_def same_peer_def)
  qed
next
  case False
  then show ?thesis by (simp add: authenticate_def same_peer_def)
qed

text \<open>A client list only gets fresher records, or loses one client.\<close>

lemma put_client_ok:
  assumes "registry_ok d" "known d cl"
  shows "registry_ok (put_client cl d)" "cl_fd ` set (client_list (put_client cl d)) = cl_fd ` set (client_list d)"
proof -
  have mt: "matched (client_list d) (entries (notify_mapping d)) (entries (client_key_mapping d))"
    using assms(1) by (simp add: registry_ok_def)
  obtain c where c: "c \<in> set (client_list d)" "cl_id c = cl_id cl" "cl_fd c = cl_fd cl"
    using assms(2) by (auto simp: known_def)
  let ?f = "\<lambda>c. if cl_id c = cl_id cl then cl else c"
  have f: "cl_fd (?f x) = cl_fd x" "cl_id (?f x) = cl_id x" if "x \<in> set (client_list d)" for x
    using matched_other(1)[OF mt c(1) that] c(2,3) by (cases "x = c"; auto)+
  have "map cl_id (map ?f (client_list d)) = map cl_id (client_list d)"
    "map cl_fd (map ?f (client_list d)) = map cl_fd (client_list d)"
    using f by simp_all
  then show "registry_ok (put_client cl d)"
    using matched_clients[OF mt, of "map ?f (client_list d)"] assms(1)
    by (simp add: registry_ok_def put_client_def)
  show "cl_fd ` set (client_list (put_client cl d)) = cl_fd ` set (client_list d)"
  proof -
    have "cl_fd ` ?f ` set (client_list d) = cl_fd ` set (client_list d)"
      unfolding image_image by (rule image_cong[OF refl]) (rule f(1))
    then show ?thesis by (simp add: put_client_def)
  qed
qed

lemma put_client_poll:
  assumes "daemon_ok smackfd d" "known d cl" "cl_data cl = None"
  shows "daemon_ok smackfd (put_client cl d)" "pollfds (put_client cl d) = pollfds d"
  using put_client_ok[of d cl] assms
  by (auto simp: daemon_ok_def poll_ok_def slots_def put_client_def)

text \<open>The slot of a client that is being served.\<close>

definition serving :: "'s BuxtonDaemon \<Rightarrow> client_list_item \<Rightarrow> nat \<Rightarrow> bool" where
  "serving d cl i \<longleftrightarrow> known d cl \<and> 0 < i \<and> i < length (pollfds d) \<and>
     pfd (pollfds d ! i) = cl_fd cl \<and> \<not> accepting d ! i"

lemma terminate_client_daemon:
  assumes "daemon_ok smackfd d" "serving d cl i"
  shows "\<exists>d'. terminate_client d cl i = Inr d' \<and> daemon_ok smackfd d' \<and>
    length (pollfds d') < length (pollfds d)"
proof -
  have s: "known d cl" "0 < i" "i < length (pollfds d)" "pfd (pollfds d ! i) = cl_fd cl" "\<not> accepting d ! i"
    using assms(2) by (auto simp: serving_def)
  have reg: "registry_ok d" and p: "poll_ok smackfd d" using assms(1) by (auto simp: daemon_ok_def)
  have len: "length (accepting d) = length (pollfds d)" using p by (simp add: poll_ok_def)
  obtain d' where d': "terminate_client d cl i = Inr d'" "registry_ok d'"
    "client_list d' = filter (\<lambda>c. cl_id c \<noteq> cl_id cl) (client_list d)"
    "pollfds d' = take i (pollfds d) @ drop (Suc i) (pollfds d)"
    "accepting d' = take i (accepting d) @ drop (Suc i) (accepting d)"
    "nfds_alloc d' = nfds_alloc d" "accepting_alloc d' = accepting_alloc d"
    using terminate_client_ok[OF reg s(1,3)] by blast
  have sl: "slots d' = take i (slots d) @ drop (Suc i) (slots d)"
    using len s(3) by (simp add: slots_def d'(4,5) take_map[symmetric] drop_map[symmetric] take_zip drop_zip
        zip_append)
  have fst_d: "distinct (map fst (slots d))" using p slots_fst[OF len] by (simp add: poll_ok_def)
  have it: "slots d ! i = (cl_fd cl, False)" using slots_nth[OF len s(3)] s(4,5) by simp
  have tl: "set (tl (slots d')) = set (tl (slots d)) - {(cl_fd cl, False)}"
    using set_tl_delete[OF fst_d s(2)] s(3) length_slots[OF len] it sl by simp
  obtain c where c: "c \<in> set (client_list d)" "cl_id c = cl_id cl" "cl_fd c = cl_fd cl"
    using s(1) by (auto simp: known_def)
  have mt: "matched (client_list d) (entries (notify_mapping d)) (entries (client_key_mapping d))"
    using reg by (simp add: registry_ok_def)
  have "set (client_list d') = set (client_list d) - {c}"
    using matched_other(1)[OF mt c(1)] c(2) by (auto simp: d'(3))
  moreover have "cl_fd ` (set (client_list d) - {c}) = cl_fd ` set (client_list d) - {cl_fd cl}"
    using matched_other(2)[OF mt c(1)] c by auto
  ultimately have fds: "cl_fd ` set (client_list d') = cl_fd ` set (client_list d) - {cl_fd cl}" by simp
  have cs: "{fd. (fd, False) \<in> set (tl (slots d)) \<and> fd \<noteq> smackfd} = cl_fd ` set (client_list d)"
    using p by (simp add: poll_ok_def)
  then have nw: "cl_fd cl \<noteq> smackfd" using c by (metis (mono_tags, lifting) image_eqI mem_Collect_eq)
  have "pollfds d' \<noteq> []" using s(2) p by (auto simp: d'(4) poll_ok_def)
  moreover have "distinct (map pfd (pollfds d'))"
  proof -
    have "distinct (take i (map pfd (pollfds d)) @ drop i (map pfd (pollfds d)))"
      using p by (simp add: poll_ok_def)
    then show ?thesis
      using s(3) by (simp add: d'(4) take_map drop_map Cons_nth_drop_Suc[symmetric])
  qed
  moreover have "\<forall>x \<in> set (pollfds d'). 0 \<le> pfd x"
    using p by (auto simp: d'(4) poll_ok_def dest: in_set_takeD in_set_dropD)
  moreover have "{fd. (fd, False) \<in> set (tl (slots d')) \<and> fd \<noteq> smackfd} = cl_fd ` set (client_list d')"
    unfolding fds tl using cs by auto
  moreover have "0 \<le> smackfd \<longrightarrow> (smackfd, False) \<in> set (tl (slots d'))"
    unfolding tl using p nw by (auto simp: poll_ok_def)
  ultimately have "poll_ok smackfd d'"
    using p s(3) len by (auto simp: poll_ok_def d'(4-7))
  then show ?thesis using d' s(3) assms(1) by (auto simp: daemon_ok_def)
qed

lemma kept_serving: "kept d d' \<Longrightarrow> serving d' cl i = serving d cl i"
  using kept_known[of d d' cl] by (auto simp: serving_def kept_def same_connections_def)

lemma same_peer_serving: "same_peer cl cl' \<Longrightarrow> serving d cl' i = serving d cl i"
  by (auto simp: serving_def known_same_peer) (simp_all add: same_peer_def)

lemma handle_client_ok:
  assumes "daemon_ok smackfd self" "serving self cl i" "cl_data cl = None"
  shows "case handle_client env writes junk peer socks self cl i of
      Inr (more_data, d) \<Rightarrow> daemon_ok smackfd d \<and> length (pollfds d) \<le> length (pollfds self)
    | Inl f \<Rightarrow> message_fault env writes f \<or> peer_fault peer f"
proof -
  define cl0 where "cl0 = cl\<lparr>cl_data := Some (replicate BUXTON_MESSAGE_HEADER_LENGTH NUL), cl_offset := 0,
                             cl_size := BUXTON_MESSAGE_HEADER_LENGTH\<rparr>"
  define seen where "seen = sock_peek BUXTON_MESSAGE_HEADER_LENGTH (socks (cl_fd cl))"
  have sp0: "same_peer cl cl0" by (simp add: cl0_def same_peer_def)
  have reg: "registry_ok self" using assms(1) by (simp add: daemon_ok_def)
  have tc: "\<exists>d'. terminate_client d c i = Inr d' \<and> daemon_ok smackfd d' \<and>
      length (pollfds d') \<le> length (pollfds self)" if "kept self d" "same_peer cl c" for d c
  proof -
    have "daemon_ok smackfd d" "serving d c i"
      using kept_daemon_ok[OF that(1) assms(1)] assms(2)
      by (simp_all add: kept_serving[OF that(1)] same_peer_serving[OF that(2)])
    from terminate_client_daemon[OF this] show ?thesis
      using that(1) by (auto simp: kept_def same_connections_def)
  qed
  have hc: "handle_client env writes junk peer socks self cl i =
     (if seen = [] then bindE (terminate_client self cl0 i) (\<lambda>d'. Inr (False, d'))
      else
       bindE (poke cl0 0 seen) (\<lambda>cl1.
       bindE (authenticate peer cl1) (\<lambda>a. case a of
         None \<Rightarrow> bindE (terminate_client self cl1 i) (\<lambda>d'. Inr (False, d'))
       | Some cl2 \<Rightarrow>
           if length (pollfds self) \<le> i then Inl OutOfBounds
           else
            bindE (client_loop env writes junk 32 self cl2 (socks (pfd (pollfds self ! i)))) (\<lambda>(e, d). case e of
              Terminate \<Rightarrow> bindE (terminate_client d cl2 i) (\<lambda>d'. Inr (False, d'))
            | Cleanup more_data \<Rightarrow>
                Inr (more_data, put_client (cl2\<lparr>cl_data := None, cl_size := BUXTON_MESSAGE_HEADER_LENGTH,
                                           cl_offset := 0\<rparr>) d)))))"
    using assms(3) by (simp add: handle_client_def Let_def cl0_def seen_def)
  show ?thesis
  proof (cases "seen = []")
    case True
    obtain d' where "terminate_client self cl0 i = Inr d'" "daemon_ok smackfd d'"
      "length (pollfds d') \<le> length (pollfds self)"
      using tc[OF kept_refl sp0] by blast
    then show ?thesis using True by (simp add: hc)
  next
    case False
    have "length seen \<le> BUXTON_MESSAGE_HEADER_LENGTH"
      unfolding seen_def by (cases "(BUXTON_MESSAGE_HEADER_LENGTH, socks (cl_fd cl))" rule: sock_peek.cases) auto
    then obtain b where b: "poke cl0 0 seen = Inr (cl0\<lparr>cl_data := Some b\<rparr>)" "length b = BUXTON_MESSAGE_HEADER_LENGTH"
      using poke_fits[of cl0 "replicate BUXTON_MESSAGE_HEADER_LENGTH NUL" 0 seen] by (auto simp: cl0_def)
    define cl1 where "cl1 = cl0\<lparr>cl_data := Some b\<rparr>"
    have sp1: "same_peer cl cl1" by (simp add: cl1_def cl0_def same_peer_def)
    show ?thesis
    proof (cases "authenticate peer cl1")
      case (Inl f)
      then have "peer_fault peer f" using authenticate_cases[of peer cl1] by simp
      then show ?thesis using False b(1) Inl by (simp add: hc cl1_def)
    next
      case (Inr a)
      show ?thesis
      proof (cases a)
        case None
        obtain d' where "terminate_client self cl1 i = Inr d'" "daemon_ok smackfd d'"
          "length (pollfds d') \<le> length (pollfds self)"
          using tc[OF kept_refl sp1] by blast
        then show ?thesis using False b(1) Inr None by (simp add: hc cl1_def)
      next
        case (Some cl2)
        have c2: "same_peer cl1 cl2" "cl_data cl2 = cl_data cl1" "cl_size cl2 = cl_size cl1"
          "cl_offset cl2 = cl_offset cl1"
          using authenticate_cases[of peer cl1] Inr Some by auto
        have sp2: "same_peer cl cl2" using sp1 c2(1) by (simp add: same_peer_def)
        have b2: "buf_ok cl2" using c2 b(2) by (simp add: buf_ok_def cl1_def cl0_def)
        have kn: "known self cl2" using assms(2) by (simp add: known_same_peer[OF sp2] serving_def)
        have ib: "\<not> length (pollfds self) \<le> i" using assms(2) by (simp add: serving_def)
        note L = client_loop_ok[OF reg kn b2, of env writes junk 32 "socks (pfd (pollfds self ! i))"]
        show ?thesis
        proof (cases "client_loop env writes junk 32 self cl2 (socks (pfd (pollfds self ! i)))")
          case (Inl f)
          then show ?thesis using L False b(1) Inr Some ib \<open>authenticate peer cl1 = Inr a\<close> by (simp add: hc cl1_def)
        next
          case (Inr x)
          obtain e d where x: "x = (e, d)" by (cases x)
          have k: "kept self d" using L Inr x by simp
          note steps = False b(1) \<open>authenticate peer cl1 = Inr a\<close> Some ib Inr x
          show ?thesis
          proof (cases e)
            case Terminate
            obtain d' where "terminate_client d cl2 i = Inr d'" "daemon_ok smackfd d'"
              "length (pollfds d') \<le> length (pollfds self)"
              using tc[OF k sp2] by blast
            then show ?thesis using steps Terminate by (simp add: hc cl1_def)
          next
            case (Cleanup m)
            let ?cl3 = "cl2\<lparr>cl_data := None, cl_size := BUXTON_MESSAGE_HEADER_LENGTH, cl_offset := 0\<rparr>"
            have "same_peer cl2 ?cl3" by (simp add: same_peer_def)
            then have "known d ?cl3" using kn by (simp add: known_same_peer kept_known[OF k])
            from put_client_poll[OF kept_daemon_ok[OF k assms(1)] this] show ?thesis
              using steps Cleanup k by (simp add: hc cl1_def kept_def same_connections_def)
          qed
        qed
      qed
    qed
  qed
qed

section \<open>A round of the loop\<close>

text \<open>A new descriptor is not one that is open.\<close>

definition fresh_fds :: "net \<Rightarrow> bool" where
  "fresh_fds net \<longleftrightarrow>
     (\<forall>opened p fd ok. net_accept net opened p = Some (fd, ok) \<longrightarrow> 0 \<le> fd \<and> fd \<notin> set opened)"

lemma le_foldr_max: "x \<in> set xs \<Longrightarrow> x \<le> foldr max xs (z :: 'a :: linorder)"
  by (induction xs) (auto simp: le_max_iff_disj)

lemma fresh_id_new: "cl \<in> set (client_list d) \<Longrightarrow> cl_id cl \<noteq> fresh_id d"
  using le_foldr_max[of "cl_id cl" "map cl_id (client_list d)" 0] by (auto simp: fresh_id_def)

lemma accept_client_ok:
  assumes "daemon_ok smackfd d" "0 \<le> fd" "fd \<notin> set (map pfd (pollfds d))"
  shows "\<exists>d'. accept_client d fd = Inr d' \<and> daemon_ok smackfd d'"
proof -
  have reg: "registry_ok d" and p: "poll_ok smackfd d" using assms(1) by (auto simp: daemon_ok_def)
  have mt: "matched (client_list d) (entries (notify_mapping d)) (entries (client_key_mapping d))"
    using reg by (simp add: registry_ok_def)
  have len: "length (accepting d) = length (pollfds d)" "pollfds d \<noteq> []" using p by (simp_all add: poll_ok_def)
  let ?cl = "\<lparr>cl_id = fresh_id d, cl_fd = fd, cl_uid = 0, cl_pid = 0, smack_label = None, cl_data = None,
          cl_offset = 0, cl_size = 0\<rparr>"
  let ?d = "d\<lparr>client_list := ?cl # client_list d\<rparr>"
  obtain na aa where a: "add_pollfd ?d fd (POLLIN + POLLPRI) False = Inr (?d\<lparr>nfds_alloc := na, accepting_alloc := aa,
      pollfds := pollfds ?d @ [\<lparr>pfd = fd, events = POLLIN + POLLPRI, revents = 0\<rparr>], accepting := accepting ?d @ [False]\<rparr>)"
    "Suc (length (pollfds ?d)) * SIZEOF_POLLFD \<le> na" "Suc (length (pollfds ?d)) * SIZEOF_POINTER \<le> aa"
    by (rule add_pollfd_ok[OF assms(2)])
  let ?d' = "?d\<lparr>nfds_alloc := na, accepting_alloc := aa,
      pollfds := pollfds ?d @ [\<lparr>pfd = fd, events = POLLIN + POLLPRI, revents = 0\<rparr>], accepting := accepting ?d @ [False]\<rparr>"
  have sl: "slots ?d' = slots d @ [(fd, False)]" using len by (simp add: slots_def)
  have sne: "slots d \<noteq> []" using len by (auto simp: slots_def)
  have cs: "{f. (f, False) \<in> set (tl (slots d)) \<and> f \<noteq> smackfd} = cl_fd ` set (client_list d)"
    using p by (simp add: poll_ok_def)
  have sub: "fst ` set (tl (slots d)) \<subseteq> set (map pfd (pollfds d))"
    using slots_fst[OF len(1)] by (metis image_mono list.set_map list.set_sel(2) sne subsetI)
  have nf: "fd \<notin> cl_fd ` set (client_list d)" using cs sub assms(3) by force
  have nw: "fd \<noteq> smackfd" using p sub assms(2,3) by (force simp: poll_ok_def)
  have fi: "fresh_id d \<notin> cl_id ` set (client_list d)" using fresh_id_new[of _ d] by (metis imageE)
  have nh: "held (fresh_id d) (entries (notify_mapping d) k) = 0" for k
  proof -
    have "fresh_id d \<notin> n_client ` set (entries (notify_mapping d) k)"
      using mt fi unfolding matched_def by blast
    then show ?thesis using held_pos by (metis not_gr_zero)
  qed
  have nk: "entries (client_key_mapping d) fd = []" using mt nf by (auto simp: matched_def)
  have "matched (?cl # client_list d) (entries (notify_mapping d)) (entries (client_key_mapping d))"
    unfolding matched_def
  proof (intro conjI ballI allI)
    fix c k
    assume "c \<in> set (?cl # client_list d)"
    then show "held (cl_id c) (entries (notify_mapping d) k) =
        count_list (entries (client_key_mapping d) (cl_fd c)) k"
      using mt nh nk by (auto simp: matched_def)
  next
    show "distinct (map cl_id (?cl # client_list d))"
      using mt fi by (simp add: matched_def)
    show "distinct (map cl_fd (?cl # client_list d))"
      using mt nf by (simp add: matched_def)
    show "n_client ` set (entries (notify_mapping d) k) \<subseteq> cl_id ` set (?cl # client_list d)" for k
    proof -
      have "n_client ` set (entries (notify_mapping d) k) \<subseteq> cl_id ` set (client_list d)"
        using mt by (simp add: matched_def)
      then show ?thesis by auto
    qed
    show "entries (client_key_mapping d) f \<noteq> [] \<longrightarrow> f \<in> cl_fd ` set (?cl # client_list d)" for f
      using mt by (auto simp: matched_def)
  qed
  then have "registry_ok ?d'" using reg by (simp add: registry_ok_def)
  moreover have "poll_ok smackfd ?d'"
    using p a(2,3) assms(2,3) len nw sne cs unfolding poll_ok_def sl by auto
  ultimately have "daemon_ok smackfd ?d'" using assms(1) by (simp add: daemon_ok_def)
  moreover have "accept_client d fd = Inr ?d'" unfolding accept_client_def by (rule a(1))
  ultimately show ?thesis by blast
qed

text \<open>What may end a round: a request, the kernel's answer about a peer, or the rule file.\<close>

definition round_fault :: "'s env \<Rightarrow> net \<Rightarrow> fault \<Rightarrow> bool" where
  "round_fault env net f \<longleftrightarrow> message_fault env (net_writes net) f \<or> (\<exists>fd. peer_fault (net_peer net fd) f) \<or>
     (\<exists>st. buxton_cache_smack_rules (net_rules net) st = Inl f)"

lemma serving_found:
  assumes "daemon_ok smackfd d" "i < length (pollfds d)" "0 < i" "\<not> accepting d ! i"
    "\<not> (0 \<le> smackfd \<and> pfd (pollfds d ! i) = smackfd)"
  shows "\<exists>cl. find (\<lambda>c. cl_fd c = pfd (pollfds d ! i)) (client_list d) = Some cl \<and> serving d cl i \<and>
    cl_data cl = None"
proof -
  have p: "poll_ok smackfd d" using assms(1) by (simp add: daemon_ok_def)
  then have len: "length (accepting d) = length (pollfds d)" by (simp add: poll_ok_def)
  have sl: "slots d ! i = (pfd (pollfds d ! i), False)" using slots_nth[OF len assms(2)] assms(4) by simp
  obtain j where j: "i = Suc j" using assms(3) by (cases i) auto
  have jl: "j < length (tl (slots d))" using assms(2) length_slots[OF len] by (simp add: j)
  then have "tl (slots d) ! j = slots d ! i" by (simp add: nth_tl j)
  then have m: "(pfd (pollfds d ! i), False) \<in> set (tl (slots d))" using sl jl nth_mem by metis
  have "0 \<le> pfd (pollfds d ! i)" using p assms(2) by (simp add: poll_ok_def)
  then have "pfd (pollfds d ! i) \<noteq> smackfd" using assms(5) by auto
  then have "pfd (pollfds d ! i) \<in> cl_fd ` set (client_list d)" using m p unfolding poll_ok_def by blast
  then have "find (\<lambda>c. cl_fd c = pfd (pollfds d ! i)) (client_list d) \<noteq> None"
    by (auto simp: find_None_iff)
  then obtain cl where cl: "find (\<lambda>c. cl_fd c = pfd (pollfds d ! i)) (client_list d) = Some cl" by blast
  then have "cl \<in> set (client_list d)" "cl_fd cl = pfd (pollfds d ! i)"
    by (auto simp: find_Some_iff)
  then show ?thesis using cl assms by (auto simp: serving_def known_def daemon_ok_def)
qed

lemma rules_daemon_ok [simp]: "daemon_ok smackfd (d\<lparr>buxton := ctl\<rparr>) = daemon_ok smackfd d"
  by (simp add: daemon_ok_def registry_ok_def poll_ok_def slots_def)

lemma serve_from_ok:
  assumes "daemon_ok smackfd d" "0 < i" "fresh_fds net"
  shows "case serve_from env net smackfd n i left d of
      Inr (e, d') \<Rightarrow> daemon_ok smackfd d'
    | Inl f \<Rightarrow> round_fault env net f"
  using assms(1,2)
proof (induction n arbitrary: i left d)
  case 0
  then show ?case by simp
next
  case (Suc n)
  have p: "poll_ok smackfd d" using Suc.prems(1) by (simp add: daemon_ok_def)
  have len: "length (accepting d) = length (pollfds d)" using p by (simp add: poll_ok_def)
  show ?case
  proof (cases "length (pollfds d) \<le> i \<or> revents (pollfds d ! i) = 0")
    case True
    then show ?thesis using Suc.IH[OF Suc.prems(1), of "Suc i"] Suc.prems(1) len by auto
  next
    case F: False
    then have i: "i < length (pollfds d)" by simp
    have nn: "pfd (pollfds d ! i) \<noteq> - 1"
    proof -
      have "0 \<le> pfd (pollfds d ! i)" using p i by (simp add: poll_ok_def)
      then show ?thesis by simp
    qed
    show ?thesis
    proof (cases "0 \<le> smackfd \<and> pfd (pollfds d ! i) = smackfd")
      case True
      show ?thesis
      proof (cases "buxton_cache_smack_rules (net_rules net) (rules (buxton d))")
        case (Inl f)
        then show ?thesis using F i nn True len by (auto simp: Let_def round_fault_def)
      next
        case (Inr x)
        obtain ok st where x: "x = (ok, st)" by (cases x)
        show ?thesis
          using F i nn True len Inr x Suc.prems(1)
            Suc.IH[of "d\<lparr>buxton := (buxton d)\<lparr>rules := st\<rparr>\<rparr>" "Suc i" left]
          by (simp add: Let_def)
      qed
    next
      case nw: False
      show ?thesis
      proof (cases "accepting d ! i")
        case True
        show ?thesis
        proof (cases "net_accept net (map pfd (pollfds d)) (pfd (pollfds d ! i))")
          case None
          then show ?thesis using F i nn True len Suc.prems(1) by (simp add: Let_def nw)
        next
          case (Some x)
          obtain fd nb where x: "x = (fd, nb)" by (cases x)
          have "0 \<le> fd" "fd \<notin> set (map pfd (pollfds d))"
            using assms(3) Some x unfolding fresh_fds_def by blast+
          from accept_client_ok[OF Suc.prems(1) this] obtain d' where
            "accept_client d fd = Inr d'" "daemon_ok smackfd d'" by blast
          then show ?thesis using F i nn True len Suc.prems(1) Some x by (simp add: Let_def nw)
        qed
      next
        case False
        obtain cl where cl: "find (\<lambda>c. cl_fd c = pfd (pollfds d ! i)) (client_list d) = Some cl"
          "serving d cl i" "cl_data cl = None"
          using serving_found[OF Suc.prems(1) i Suc.prems(2) False nw] by blast
        note H = handle_client_ok[OF Suc.prems(1) cl(2,3), where env = env and writes = "net_writes net"
            and junk = "net_junk net" and peer = "net_peer net (cl_fd cl)" and socks = "net_socks net"]
        show ?thesis
        proof (cases "handle_client env (net_writes net) (net_junk net) (net_peer net (cl_fd cl)) (net_socks net) d cl i")
          case (Inl f)
          then have "round_fault env net f" using H by (auto simp: round_fault_def)
          then show ?thesis using F i nn False len cl(1) Inl by (simp add: Let_def nw)
        next
          case (Inr x)
          obtain m d' where x: "x = (m, d')" by (cases x)
          show ?thesis
            using H F i nn False len cl(1) Inr x Suc.IH[of d' "Suc i" "left \<or> m"]
            by (simp add: Let_def nw)
        qed
      qed
    qed
  qed
qed

text \<open>
  The bound on the number of turns is large enough: more turns change nothing, because the poll set
  only shrinks inside the loop.
\<close>

lemma serve_from_fuel:
  assumes "daemon_ok smackfd d" "0 < i" "length (pollfds d) \<le> n + i"
  shows "serve_from env net smackfd (n + k) i left d = serve_from env net smackfd n i left d"
  using assms
proof (induction n arbitrary: i left d)
  case 0
  then show ?case by (cases k) simp_all
next
  case (Suc n)
  have p: "poll_ok smackfd d" using Suc.prems(1) by (simp add: daemon_ok_def)
  have len: "length (accepting d) = length (pollfds d)" using p by (simp add: poll_ok_def)
  have IH: "serve_from env net smackfd (n + k) (Suc i) l d' = serve_from env net smackfd n (Suc i) l d'"
    if "daemon_ok smackfd d'" "length (pollfds d') \<le> length (pollfds d)" for l d'
    using Suc.IH[of d' "Suc i" l] that Suc.prems(3) by simp
  show ?case
  proof (cases "i < length (pollfds d)")
    case False
    then show ?thesis by simp
  next
    case i: True
    have nn: "pfd (pollfds d ! i) \<noteq> - 1"
      using p i by (auto simp: poll_ok_def dest!: bspec[OF _ nth_mem])
    show ?thesis
    proof (cases "\<not> accepting d ! i \<and> \<not> (0 \<le> smackfd \<and> pfd (pollfds d ! i) = smackfd)")
      case True
      obtain cl where cl: "find (\<lambda>c. cl_fd c = pfd (pollfds d ! i)) (client_list d) = Some cl"
        "serving d cl i" "cl_data cl = None"
        using serving_found[OF Suc.prems(1) i Suc.prems(2)] True by blast
      let ?h = "handle_client env (net_writes net) (net_junk net) (net_peer net (cl_fd cl)) (net_socks net) d cl i"
      have same: "bindE ?h (\<lambda>(m, d'). serve_from env net smackfd (n + k) (Suc i) (left \<or> m) d') =
          bindE ?h (\<lambda>(m, d'). serve_from env net smackfd n (Suc i) (left \<or> m) d')"
      proof (rule bindE_cong[OF refl])
        fix x
        assume x: "?h = Inr x"
        obtain m d' where "x = (m, d')" by (cases x)
        then show "(case x of (m, d') \<Rightarrow> serve_from env net smackfd (n + k) (Suc i) (left \<or> m) d') =
            (case x of (m, d') \<Rightarrow> serve_from env net smackfd n (Suc i) (left \<or> m) d')"
          using handle_client_ok[OF Suc.prems(1) cl(2,3), where env = env and writes = "net_writes net"
              and junk = "net_junk net" and peer = "net_peer net (cl_fd cl)" and socks = "net_socks net"] x IH
          by simp
      qed
      have nw: "\<not> (0 \<le> smackfd \<and> pfd (pollfds d ! i) = smackfd)" and na: "\<not> accepting d ! i"
        using True by blast+
      show ?thesis
        using same i nn len cl(1) na IH[OF Suc.prems(1) order_refl] by (simp add: Let_def nw)
    next
      case False
      have r: "serve_from env net smackfd (n + k) (Suc i) left (d\<lparr>buxton := (buxton d)\<lparr>rules := st\<rparr>\<rparr>) =
          serve_from env net smackfd n (Suc i) left (d\<lparr>buxton := (buxton d)\<lparr>rules := st\<rparr>\<rparr>)" for st
        using IH[of "d\<lparr>buxton := (buxton d)\<lparr>rules := st\<rparr>\<rparr>" left] Suc.prems(1) by simp
      show ?thesis
      proof (cases "0 \<le> smackfd \<and> pfd (pollfds d ! i) = smackfd")
        case w: True
        then have w': "(0 \<le> smackfd \<and> pfd (pollfds d ! i) = smackfd) = True" by simp
        show ?thesis
          using nn by (simp only: add_Suc serve_from.simps Let_def w' if_True if_False r
              IH[OF Suc.prems(1) order_refl])
      next
        case nw: False
        have acc: "accepting d ! i" using False nw by blast
        show ?thesis
          using i nn len acc IH[OF Suc.prems(1) order_refl] by (simp add: Let_def nw)
      qed
    qed
  qed
qed

lemma poll_round_ok:
  assumes "daemon_ok smackfd d" "fresh_fds net"
  shows "case poll_round env net smackfd d of
      Inr (e, d') \<Rightarrow> daemon_ok smackfd d'
    | Inl f \<Rightarrow> round_fault env net f"
proof -
  let ?d = "d\<lparr>pollfds := map (\<lambda>p. p\<lparr>revents := net_ready net (pfd p)\<rparr>) (pollfds d)\<rparr>"
  have "slots ?d = slots d" by (simp add: slots_def comp_def)
  then have "daemon_ok smackfd ?d"
    using assms(1) by (simp add: daemon_ok_def registry_ok_def poll_ok_def comp_def)
  moreover have "pollfds d \<noteq> []" using assms(1) by (simp add: daemon_ok_def poll_ok_def)
  ultimately show ?thesis
    using serve_from_ok[of smackfd ?d 1 net env "length (pollfds ?d)" False] assms(2)
    by (simp add: poll_round_def Let_def)
qed

section \<open>Reachable states\<close>

text \<open>
  \<open>plain_fds\<close>: what the daemon is started with are distinct open descriptors, and \<open>systemd\<close> hands
  over no FIFO.
\<close>

definition plain_fds :: "int \<Rightarrow> (int \<times> fd_kind) list \<Rightarrow> int \<Rightarrow> bool" where
  "plain_fds sigfd fds smackfd \<longleftrightarrow>
     0 \<le> sigfd \<and> (\<forall>(fd, k) \<in> set fds. 0 \<le> fd \<and> k \<noteq> Fifo) \<and>
     distinct (sigfd # map fst fds) \<and> smackfd \<notin> insert sigfd (fst ` set fds)"

inductive reachable :: "'s env \<Rightarrow> int \<Rightarrow> 's BuxtonDaemon \<Rightarrow> bool" for env smackfd where
  start: "plain_fds sigfd fds smackfd \<Longrightarrow> daemon_start ctl sigfd fds smackfd = Inr d \<Longrightarrow>
    reachable env smackfd d"
| round: "reachable env smackfd d \<Longrightarrow> fresh_fds net \<Longrightarrow>
    poll_round env net smackfd d = Inr (Round left, d') \<Longrightarrow> reachable env smackfd d'"

text \<open>While the daemon starts there are no clients yet.\<close>

definition starting :: "int set \<Rightarrow> 's BuxtonDaemon \<Rightarrow> bool" where
  "starting S d \<longleftrightarrow> client_list d = [] \<and> notify_mapping d = [] \<and> client_key_mapping d = [] \<and>
     length (accepting d) = length (pollfds d) \<and> pollfds d \<noteq> [] \<and>
     distinct (map pfd (pollfds d)) \<and> set (map pfd (pollfds d)) \<subseteq> S \<and> (\<forall>p \<in> set (pollfds d). 0 \<le> pfd p) \<and>
     length (pollfds d) * SIZEOF_POLLFD \<le> nfds_alloc d \<and>
     length (pollfds d) * SIZEOF_POINTER \<le> accepting_alloc d \<and> (\<forall>s \<in> set (tl (slots d)). snd s)"

lemma starting_add:
  assumes "starting S d" "0 \<le> fd" "fd \<notin> S"
  shows "\<exists>d'. add_pollfd d fd ev True = Inr d' \<and> starting (insert fd S) d'"
proof -
  obtain na aa where a: "add_pollfd d fd ev True = Inr (d\<lparr>nfds_alloc := na, accepting_alloc := aa,
      pollfds := pollfds d @ [\<lparr>pfd = fd, events = ev, revents = 0\<rparr>], accepting := accepting d @ [True]\<rparr>)"
    "Suc (length (pollfds d)) * SIZEOF_POLLFD \<le> na" "Suc (length (pollfds d)) * SIZEOF_POINTER \<le> aa"
    by (rule add_pollfd_ok[OF assms(2)])
  let ?d = "d\<lparr>nfds_alloc := na, accepting_alloc := aa,
      pollfds := pollfds d @ [\<lparr>pfd = fd, events = ev, revents = 0\<rparr>], accepting := accepting d @ [True]\<rparr>"
  have "slots d \<noteq> []" "slots ?d = slots d @ [(fd, True)]"
    using assms(1) by (auto simp: starting_def slots_def)
  then have "starting (insert fd S) ?d"
    using assms a(2,3) by (auto simp: starting_def)
  then show ?thesis using a(1) by blast
qed

lemma starting_listeners:
  assumes "starting S d" "\<forall>(fd, k) \<in> set fds. 0 \<le> fd \<and> k \<noteq> Fifo" "distinct (map fst fds)"
    "S \<inter> fst ` set fds = {}"
  shows "\<exists>d'. add_listeners fds d = Inr d' \<and> starting (S \<union> fst ` set fds) d'"
  using assms
proof (induction fds arbitrary: S d)
  case Nil
  then show ?case by simp
next
  case (Cons x fds)
  obtain fd k where x: "x = (fd, k)" by (cases x)
  have fd: "0 \<le> fd" "fd \<notin> S" "k \<noteq> Fifo" using Cons.prems x by auto
  have i: "insert fd S \<inter> fst ` set fds = {}" using Cons.prems(3,4) x by auto
  have mono: "starting S d' \<Longrightarrow> starting (insert fd S) d'" for d' by (auto simp: starting_def)
  have u: "insert fd S \<union> fst ` set fds = S \<union> fst ` set (x # fds)" using x by auto
  obtain d1 where d1: "(case k of Fifo \<Rightarrow> add_pollfd d fd POLLIN False
       | UnixStream \<Rightarrow> add_pollfd d fd (POLLIN + POLLPRI) True
       | OtherSocket \<Rightarrow> add_pollfd d fd (POLLIN + POLLPRI) True
       | NoSocket \<Rightarrow> Inr d) = Inr d1" "starting (insert fd S) d1"
    using starting_add[OF Cons.prems(1) fd(1,2), of "POLLIN + POLLPRI"] fd(3) mono[OF Cons.prems(1)]
    by (cases k) auto
  have "\<exists>d'. add_listeners fds d1 = Inr d' \<and> starting (insert fd S \<union> fst ` set fds) d'"
    by (rule Cons.IH[OF d1(2)]) (use Cons.prems i in auto)
  then show ?case using d1(1) x u by simp
qed

lemma starting_ok:
  assumes "starting S d" "smackfd \<notin> S" "smackfd < 0"
  shows "daemon_ok smackfd d"
proof -
  have "{fd. (fd, False) \<in> set (tl (slots d)) \<and> fd \<noteq> smackfd} = {}"
    using assms(1) by (auto simp: starting_def)
  then show ?thesis
    using assms by (auto simp: starting_def daemon_ok_def registry_ok_def matched_def poll_ok_def)
qed

lemma daemon_start_ok:
  assumes "plain_fds sigfd fds smackfd"
  shows "\<exists>d. daemon_start ctl sigfd fds smackfd = Inr d \<and> daemon_ok smackfd d"
proof -
  let ?e = "\<lparr>nfds_alloc = 0, accepting_alloc = 0, accepting = [], pollfds = [], client_list = [],
      notify_mapping = [], client_key_mapping = [], buxton = ctl, sent = []\<rparr>"
  have pf: "0 \<le> sigfd" "\<forall>(fd, k) \<in> set fds. 0 \<le> fd \<and> k \<noteq> Fifo" "distinct (map fst fds)"
    "{sigfd} \<inter> fst ` set fds = {}" "smackfd \<notin> {sigfd} \<union> fst ` set fds"
    using assms by (auto simp: plain_fds_def)
  obtain na aa where a: "add_pollfd ?e sigfd POLLIN False = Inr (?e\<lparr>nfds_alloc := na, accepting_alloc := aa,
      pollfds := pollfds ?e @ [\<lparr>pfd = sigfd, events = POLLIN, revents = 0\<rparr>], accepting := accepting ?e @ [False]\<rparr>)"
    "Suc (length (pollfds ?e)) * SIZEOF_POLLFD \<le> na" "Suc (length (pollfds ?e)) * SIZEOF_POINTER \<le> aa"
    by (rule add_pollfd_ok[OF pf(1)])
  define d0 where "d0 = ?e\<lparr>nfds_alloc := na, accepting_alloc := aa,
      pollfds := pollfds ?e @ [\<lparr>pfd = sigfd, events = POLLIN, revents = 0\<rparr>], accepting := accepting ?e @ [False]\<rparr>"
  have "starting {sigfd} d0" using a(2,3) pf(1) by (simp add: d0_def starting_def slots_def)
  from starting_listeners[OF this pf(2-4)] obtain d1 where
    d1: "add_listeners fds d0 = Inr d1" "starting ({sigfd} \<union> fst ` set fds) d1" by blast
  have e: "daemon_start ctl sigfd fds smackfd =
      (if 0 \<le> smackfd then add_pollfd d1 smackfd (POLLIN + POLLPRI) False else Inr d1)"
    using a(1) d1(1) unfolding daemon_start_def d0_def by simp
  show ?thesis
  proof (cases "0 \<le> smackfd")
    case False
    then show ?thesis using starting_ok[OF d1(2) pf(5)] e by simp
  next
    case True
    obtain nb ab where b: "add_pollfd d1 smackfd (POLLIN + POLLPRI) False = Inr (d1\<lparr>nfds_alloc := nb, accepting_alloc := ab,
        pollfds := pollfds d1 @ [\<lparr>pfd = smackfd, events = POLLIN + POLLPRI, revents = 0\<rparr>], accepting := accepting d1 @ [False]\<rparr>)"
      "Suc (length (pollfds d1)) * SIZEOF_POLLFD \<le> nb" "Suc (length (pollfds d1)) * SIZEOF_POINTER \<le> ab"
      by (rule add_pollfd_ok[OF True])
    let ?d = "d1\<lparr>nfds_alloc := nb, accepting_alloc := ab,
        pollfds := pollfds d1 @ [\<lparr>pfd = smackfd, events = POLLIN + POLLPRI, revents = 0\<rparr>], accepting := accepting d1 @ [False]\<rparr>"
    have ne: "slots d1 \<noteq> []" and sl: "slots ?d = slots d1 @ [(smackfd, False)]"
      using d1(2) by (auto simp: starting_def slots_def)
    have "{fd. (fd, False) \<in> set (tl (slots ?d)) \<and> fd \<noteq> smackfd} = {}"
      unfolding sl using d1(2) ne by (auto simp: starting_def)
    moreover have "(smackfd, False) \<in> set (tl (slots ?d))" unfolding sl using ne by simp
    ultimately have "poll_ok smackfd ?d"
      using d1(2) b(2,3) pf(5) True unfolding poll_ok_def by (auto simp: starting_def)
    then have "daemon_ok smackfd ?d"
      using d1(2) by (auto simp: starting_def daemon_ok_def registry_ok_def matched_def)
    then show ?thesis using e True b(1) by simp
  qed
qed

lemma reachable_ok: "reachable env smackfd d \<Longrightarrow> daemon_ok smackfd d"
proof (induction rule: reachable.induct)
  case (start sigfd fds ctl d)
  then show ?case using daemon_start_ok[OF start(1), of ctl] by auto
next
  case (round d net left d')
  then show ?case using poll_round_ok[of smackfd d net env] by simp
qed

section \<open>Properties\<close>

abbreviation (input) "memory_env \<equiv> system_env (\<lambda>_. [NUL]) None no_gdbm"

text \<open>A kernel in which nothing happens but that descriptor 3 is a listening socket.\<close>

definition quiet_net :: net where
  "quiet_net =
     \<lparr>net_ready = (\<lambda>_. 0), net_signal = Some False, net_accept = (\<lambda>opened _. Some (foldr max opened 0 + 1, True)),
      net_rules = FsNotMounted, net_socks = (\<lambda>_. []),
      net_peer = (\<lambda>_. \<lparr>peer_cred = Inr (Some (1000, 42)), peer_label = Inr None\<rparr>),
      net_writes = (\<lambda>_. True), net_junk = (\<lambda>_. NUL)\<rparr>"

lemma quiet_net_fresh: "fresh_fds (quiet_net\<lparr>net_ready := r\<rparr>)"
proof -
  have "foldr max opened 0 + 1 \<notin> set opened" for opened :: "int list"
    using le_foldr_max[of "foldr max opened 0 + 1" opened "0::int"] by auto
  moreover have "0 \<le> foldr max opened (0::int)" for opened by (induction opened) auto
  ultimately show ?thesis by (auto simp: fresh_fds_def quiet_net_def intro: add_nonneg_nonneg)
qed

definition sample_daemon :: "(Resources \<times> Resources) BuxtonDaemon" where
  "sample_daemon = \<lparr>nfds_alloc = 64, accepting_alloc = 64, accepting = [False, True, False, False],
     pollfds = [\<lparr>pfd = 2, events = 1, revents = 0\<rparr>, \<lparr>pfd = 3, events = 3, revents = 1\<rparr>,
       \<lparr>pfd = 5, events = 3, revents = 0\<rparr>, \<lparr>pfd = 6, events = 3, revents = 0\<rparr>],
     client_list = [\<lparr>cl_id = 1, cl_fd = 6, cl_uid = 0, cl_pid = 0, smack_label = None, cl_data = None,
       cl_offset = 0, cl_size = 0\<rparr>],
     notify_mapping = [], client_key_mapping = [], buxton = sample_ctl, sent = []\<rparr>"

lemma sample_reachable: "reachable memory_env 5 sample_daemon"
proof -
  let ?net = "quiet_net\<lparr>net_ready := (\<lambda>fd. if fd = 3 then 1 else 0)\<rparr>"
  have p: "plain_fds 2 [(3, UnixStream)] 5" by (simp add: plain_fds_def)
  obtain d0 where d0: "daemon_start sample_ctl 2 [(3, UnixStream)] 5 = Inr d0"
    and r: "poll_round memory_env ?net 5 d0 = Inr (Round False, sample_daemon)"
    by (simp add: daemon_start_def add_pollfd_def greedy_realloc_def poll_round_def quiet_net_def
        eval_nat_numeral accept_client_def fresh_id_def sample_daemon_def Let_def)
  show ?thesis
    by (rule reachable.round[OF reachable.start[OF p d0] quiet_net_fresh r])
qed

text \<open>C15. In every state the daemon can reach, its bookkeeping is in step: for every client and every
  key name, the notifications the client holds under the name are as many as the entries of the name
  under the client's descriptor, nothing is registered for anybody who is not connected, and the poll
  set holds the clients' descriptors, each once, within its allocated blocks.\<close>

theorem reachable_bookkeeping:
  assumes "reachable env smackfd d"
  shows "daemon_ok smackfd d"
  using assms by (rule reachable_ok)

theorem reachable_bookkeeping_witness:
  "reachable memory_env 5 sample_daemon \<and> daemon_ok 5 sample_daemon"
  using sample_reachable reachable_bookkeeping[OF sample_reachable] by simp

text \<open>From a reachable state, a round of the main loop can fault only in the handling of a request,
  in what the kernel says of a peer, or in reading the Smack rules: the assertion that every ready
  descriptor has a client, that of \<open>del_pollfd\<close>, the aborts of \<open>terminate_client\<close> and of reading more
  than was asked for, and every access to the poll set are never violated.\<close>

theorem round_faults_in_requests:
  assumes "reachable env smackfd d" "fresh_fds net" "poll_round env net smackfd d = Inl f"
  shows "round_fault env net f"
  using poll_round_ok[OF reachable_ok[OF assms(1)] assms(2), of env] assms(3) by simp

theorem round_faults_in_requests_witness:
  "let net = quiet_net\<lparr>net_ready := (\<lambda>fd. if fd = 5 then 1 else 0), net_rules := FsFile ''a b rwxat'' False\<rparr>
   in poll_round memory_env net 5 sample_daemon = Inl OutOfBounds \<and> round_fault memory_env net OutOfBounds"
proof -
  let ?r = "\<lambda>fd. if fd = 5 then 1 else (0::nat)"
  let ?net = "quiet_net\<lparr>net_ready := ?r, net_rules := FsFile ''a b rwxat'' False\<rparr>"
  have f: "fresh_fds ?net" using quiet_net_fresh[of ?r] by (simp add: fresh_fds_def)
  have c: "buxton_cache_smack_rules (FsFile ''a b rwxat'' False) (rules sample_ctl) = Inl OutOfBounds"
    by (simp add: sample_ctl_def buxton_cache_smack_rules_def Smack.fields_def isspace_def scan_field_def)
  have "poll_round memory_env ?net 5 sample_daemon = Inl OutOfBounds"
    by (simp add: poll_round_def sample_daemon_def quiet_net_def eval_nat_numeral Let_def c)
  then show ?thesis
    using round_faults_in_requests[OF sample_reachable f] by (simp add: Let_def)
qed

text \<open>A connected client can be ended in every reachable state, and nothing of it is left: its
  notifications, its key names, its slot and its record are gone, while the notifications of every other
  client are the same, in the same order.\<close>

theorem client_end_leaves_nothing:
  assumes "reachable env smackfd d" "cl \<in> set (client_list d)"
  shows "\<exists>i d'. pfd (pollfds d ! i) = cl_fd cl \<and> terminate_client d cl i = Inr d' \<and> daemon_ok smackfd d' \<and>
     cl_fd cl \<notin> pfd ` set (pollfds d') \<and> cl_id cl \<notin> cl_id ` set (client_list d') \<and>
     entries (client_key_mapping d') (cl_fd cl) = [] \<and>
     (\<forall>k. entries (notify_mapping d') k = filter (\<lambda>n. n_client n \<noteq> cl_id cl) (entries (notify_mapping d) k))"
proof -
  have ok: "daemon_ok smackfd d" by (rule reachable_ok[OF assms(1)])
  then have p: "poll_ok smackfd d" and reg: "registry_ok d" by (simp_all add: daemon_ok_def)
  then have len: "length (accepting d) = length (pollfds d)" by (simp add: poll_ok_def)
  have "cl_fd cl \<in> {fd. (fd, False) \<in> set (tl (slots d)) \<and> fd \<noteq> smackfd}"
    using p assms(2) by (auto simp: poll_ok_def)
  then obtain j where j: "j < length (tl (slots d))" "tl (slots d) ! j = (cl_fd cl, False)"
    by (auto simp: in_set_conv_nth)
  then have i: "Suc j < length (pollfds d)" "slots d ! Suc j = (cl_fd cl, False)"
    using length_slots[OF len] by (auto simp: nth_tl)
  have s: "pfd (pollfds d ! Suc j) = cl_fd cl" "\<not> accepting d ! Suc j"
    using slots_nth[OF len i(1)] i(2) by simp_all
  have k: "known d cl" using assms(2) by (auto simp: known_def)
  then have srv: "serving d cl (Suc j)" using s i(1) by (simp add: serving_def)
  obtain d' where d': "terminate_client d cl (Suc j) = Inr d'"
    "client_list d' = filter (\<lambda>c. cl_id c \<noteq> cl_id cl) (client_list d)"
    "pollfds d' = take (Suc j) (pollfds d) @ drop (Suc (Suc j)) (pollfds d)"
    "entries (client_key_mapping d') = (entries (client_key_mapping d))(cl_fd cl := [])"
    "\<forall>k. entries (notify_mapping d') k = filter (\<lambda>n. n_client n \<noteq> cl_id cl) (entries (notify_mapping d) k)"
    using terminate_client_ok[OF reg k i(1)] by blast
  have "daemon_ok smackfd d'" using terminate_client_daemon[OF ok srv] d'(1) by simp
  moreover have "cl_fd cl \<notin> pfd ` set (pollfds d')"
  proof -
    have "distinct (map pfd (take (Suc j) (pollfds d) @ pollfds d ! Suc j # drop (Suc (Suc j)) (pollfds d)))"
      using p id_take_nth_drop[OF i(1)] by (simp add: poll_ok_def)
    then show ?thesis by (auto simp: d'(3) s(1))
  qed
  ultimately show ?thesis using d' s(1) by (intro exI[of _ "Suc j"] exI[of _ d']) auto
qed

theorem client_end_leaves_nothing_witness:
  "\<exists>i d'. terminate_client sample_daemon (hd (client_list sample_daemon)) i = Inr d' \<and> daemon_ok 5 d'"
proof -
  have "hd (client_list sample_daemon) \<in> set (client_list sample_daemon)" by (simp add: sample_daemon_def)
  from client_end_leaves_nothing[OF sample_reachable this] show ?thesis by blast
qed

text \<open>A FIFO that \<open>systemd\<close> hands over has no client: as soon as it is readable, the assertion of the
  main loop fails.\<close>

theorem readable_fifo_asserts:
  assumes "daemon_start ctl sigfd [(fd, Fifo)] (- 1) = Inr d" "sigfd \<noteq> fd" "net_ready net fd \<noteq> 0"
    "net_ready net sigfd = 0"
  shows "poll_round env net (- 1) d = Inl AssertFailed"
proof -
  have nn: "0 \<le> sigfd" "0 \<le> fd"
    using assms(1) by (auto simp: daemon_start_def add_pollfd_def res_simps Let_def split: if_splits)
  then have "pollfds d = [\<lparr>pfd = sigfd, events = 1, revents = 0\<rparr>, \<lparr>pfd = fd, events = 1, revents = 0\<rparr>]"
    "accepting d = [False, False]" "client_list d = []"
    using assms(1) by (auto simp: daemon_start_def add_pollfd_def greedy_realloc_def Let_def)
  then show ?thesis
    using assms(2-4) nn by (simp add: poll_round_def eval_nat_numeral Let_def)
qed

theorem readable_fifo_asserts_witness:
  "\<exists>d. daemon_start sample_ctl 2 [(4, Fifo)] (- 1) = Inr d \<and>
     poll_round memory_env (quiet_net\<lparr>net_ready := (\<lambda>fd. if fd = 4 then 1 else 0)\<rparr>) (- 1) d = Inl AssertFailed"
proof -
  obtain d where d: "daemon_start sample_ctl 2 [(4, Fifo)] (- 1) = Inr d"
    by (simp add: daemon_start_def add_pollfd_def greedy_realloc_def Let_def)
  from readable_fifo_asserts[OF d] show ?thesis using d by (auto simp: quiet_net_def)
qed

end
