(* ===== verification/Daemon_Props.thy ===== *)
theory Daemon_Props
  imports Main_Loop
begin

text \<open>
  The properties of single requests of \<open>src/core/daemon.c\<close>: which messages are accepted, what is
  answered, who is told of a change, and the requests that bring the daemon down.
\<close>

section \<open>Accepted messages\<close>

text \<open>The parameter types of the requests, as \<open>docs/buxton-protocol.7\<close> and the client library have them.\<close>

fun shapes :: "BuxtonControlMessage \<Rightarrow> BuxtonDataType list list" where
  "shapes CONTROL_SET = map (\<lambda>t. [BUXTON_TYPE_STRING, BUXTON_TYPE_STRING, BUXTON_TYPE_STRING, t])
     [BUXTON_TYPE_STRING, BUXTON_TYPE_INT32, BUXTON_TYPE_UINT32, BUXTON_TYPE_INT64, BUXTON_TYPE_UINT64,
      BUXTON_TYPE_FLOAT, BUXTON_TYPE_DOUBLE, BUXTON_TYPE_BOOLEAN]"
| "shapes CONTROL_SET_LABEL = map (\<lambda>n. replicate n BUXTON_TYPE_STRING) [3, 4]"
| "shapes CONTROL_CREATE_GROUP = [replicate 2 BUXTON_TYPE_STRING]"
| "shapes CONTROL_REMOVE_GROUP = [replicate 2 BUXTON_TYPE_STRING]"
| "shapes CONTROL_GET = map (\<lambda>n. replicate n BUXTON_TYPE_STRING @ [BUXTON_TYPE_UINT32]) [3, 2]"
| "shapes CONTROL_GET_LABEL = map (\<lambda>n. replicate n BUXTON_TYPE_STRING) [3, 2]"
| "shapes CONTROL_LIST_NAMES = [replicate 3 BUXTON_TYPE_STRING]"
| "shapes CONTROL_UNSET = [replicate 3 BUXTON_TYPE_STRING @ [BUXTON_TYPE_UINT32]]"
| "shapes CONTROL_NOTIFY = [replicate 2 BUXTON_TYPE_STRING @ [BUXTON_TYPE_UINT32]]"
| "shapes CONTROL_UNNOTIFY = [replicate 2 BUXTON_TYPE_STRING @ [BUXTON_TYPE_UINT32]]"
| "shapes _ = []"

lemma string_at_iff: "(data_type (ps ! i) = BUXTON_TYPE_STRING) = (string_at ps i \<noteq> None)"
  by (cases "ps ! i") (simp_all add: string_at_def)

lemma uint32_at_iff: "(data_type (ps ! i) = BUXTON_TYPE_UINT32) = (uint32_at ps i \<noteq> None)"
  by (cases "ps ! i") (simp_all add: uint32_at_def)

lemma types_listed: "data_type d \<in> {BUXTON_TYPE_MIN, BUXTON_TYPE_STRING, BUXTON_TYPE_INT32, BUXTON_TYPE_UINT32,
    BUXTON_TYPE_INT64, BUXTON_TYPE_UINT64, BUXTON_TYPE_FLOAT, BUXTON_TYPE_DOUBLE, BUXTON_TYPE_BOOLEAN}"
  by (cases d) auto

lemma map_types:
  "map f ps = [a, b] \<longleftrightarrow> length ps = 2 \<and> f (ps ! 0) = a \<and> f (ps ! 1) = b"
  "map f ps = [a, b, c] \<longleftrightarrow> length ps = 3 \<and> f (ps ! 0) = a \<and> f (ps ! 1) = b \<and> f (ps ! 2) = c"
  "map f ps = [a, b, c, d] \<longleftrightarrow>
     length ps = 4 \<and> f (ps ! 0) = a \<and> f (ps ! 1) = b \<and> f (ps ! 2) = c \<and> f (ps ! 3) = d"
  by (auto simp: map_eq_Cons_conv length_Suc_conv eval_nat_numeral)

lemma parse_set_shape:
  "parse_set ps \<noteq> None \<longleftrightarrow> (\<exists>t. map data_type ps = [BUXTON_TYPE_STRING, BUXTON_TYPE_STRING, BUXTON_TYPE_STRING, t] \<and>
     t \<noteq> BUXTON_TYPE_MIN)"
proof -
  have "data_type (ps ! 3) \<noteq> BUXTON_TYPE_MAX" using types_listed[of "ps ! 3"] by auto
  then show ?thesis
    unfolding map_types string_at_iff
    by (cases "string_at ps 0"; cases "string_at ps 1"; cases "string_at ps 2") (simp_all add: parse_set_def)
qed

lemma parse_shape:
  "parse_set_label ps \<noteq> None \<longleftrightarrow> map data_type ps \<in> set (shapes CONTROL_SET_LABEL)"
  "parse_group ps \<noteq> None \<longleftrightarrow> map data_type ps \<in> set (shapes CONTROL_CREATE_GROUP)"
  "parse_get ps \<noteq> None \<longleftrightarrow> map data_type ps \<in> set (shapes CONTROL_GET)"
  "parse_get_label ps \<noteq> None \<longleftrightarrow> map data_type ps \<in> set (shapes CONTROL_GET_LABEL)"
  "parse_list_names ps \<noteq> None \<longleftrightarrow> map data_type ps \<in> set (shapes CONTROL_LIST_NAMES)"
  "parse_unset ps \<noteq> None \<longleftrightarrow> map data_type ps \<in> set (shapes CONTROL_UNSET)"
  "parse_notify ps \<noteq> None \<longleftrightarrow> map data_type ps \<in> set (shapes CONTROL_NOTIFY)"
  by (simp_all add: map_types string_at_iff uint32_at_iff parse_set_label_def parse_group_def parse_get_def
      parse_get_label_def parse_list_names_def parse_unset_def parse_notify_def eval_nat_numeral
      split: option.splits)

text \<open>\<open>parse_list\<close> accepts exactly the messages whose parameters have the types of a documented
  form; every other list of parameters, of whatever length, is refused (and every LIST request).\<close>

theorem parse_list_shapes:
  "parse_list m ps \<noteq> None \<longleftrightarrow> map data_type ps \<in> set (shapes m)"
proof -
  have "parse_set ps \<noteq> None \<longleftrightarrow> map data_type ps \<in> set (shapes CONTROL_SET)"
    unfolding parse_set_shape using types_listed[of "ps ! 3"] by (auto simp: map_types)
  moreover have "shapes CONTROL_REMOVE_GROUP = shapes CONTROL_CREATE_GROUP"
    "shapes CONTROL_UNNOTIFY = shapes CONTROL_NOTIFY"
    "shapes CONTROL_LIST = []" "shapes CONTROL_STATUS = []" "shapes CONTROL_CHANGED = []"
    by simp_all
  ultimately show ?thesis
    using parse_shape[of ps] by (cases m) (simp_all del: shapes.simps)
qed

section \<open>Answers\<close>

text \<open>What a handler leaves behind: only the notifications it registered, and its own state.\<close>

lemma run_request_sent:
  assumes "run_request env self client msg msgid key v = Inr (Some (oc, d))" "known self client" "registry_ok self"
  shows "sent d = sent self"
proof -
  have st: "status_of self r = Inr (st, d') \<Longrightarrow> sent d' = sent self" for r st d'
    by (auto simp: status_of_def res_simps)
  have ops: "daemon_set_value env self client key v = Inr (st, d') \<Longrightarrow> sent d' = sent self"
    "daemon_set_label env self client key v = Inr (st, d') \<Longrightarrow> sent d' = sent self"
    "daemon_create_group env self client key = Inr (st, d') \<Longrightarrow> sent d' = sent self"
    "daemon_remove_group env self client key = Inr (st, d') \<Longrightarrow> sent d' = sent self"
    "daemon_unset_value env self client key = Inr (st, d') \<Longrightarrow> sent d' = sent self"
    "daemon_get_value env self client key = Inr (data, st, d') \<Longrightarrow> sent d' = sent self"
    "daemon_get_label env self client key = Inr (data, st, d') \<Longrightarrow> sent d' = sent self"
    "daemon_list_names env self key = Inr (x, st, d') \<Longrightarrow> sent d' = sent self"
    "daemon_list_keys env self s = Inr (x, st, d') \<Longrightarrow> sent d' = sent self" for st d' data x s
    by (auto simp: daemon_set_value_def daemon_set_label_def daemon_create_group_def
        daemon_remove_group_def daemon_unset_value_def daemon_get_value_def daemon_get_label_def
        daemon_list_names_def daemon_list_keys_def res_simps
        intro: st split: BuxtonData.splits if_splits)
  have reg: "register_notification env self client key msgid = Inr (st, d') \<Longrightarrow> sent d' = sent self" for st d'
    using register_cases[of env self client key msgid st d'] assms(3) by (auto simp: registry_ok_def)
  have unreg: "unregister_notification self client key = Inr (m, st, d') \<Longrightarrow> sent d' = sent self" for m st d'
    using unregister_cases[of self client key m st d'] assms(2,3) by auto
  show ?thesis
    using assms(1)
    by (auto simp: run_request_def res_simps Let_def
        split: BuxtonControlMessage.splits option.splits BuxtonData.splits dest: ops reg unreg)
qed

text \<open>A notification message, and what else a request can send.\<close>

definition changed_message :: "BuxtonNotification \<Rightarrow> BuxtonData option \<Rightarrow> bytes option res" where
  "changed_message n v =
     buxton_serialize_message (control_code CONTROL_CHANGED) (n_msgid n) (case v of None \<Rightarrow> [] | Some d \<Rightarrow> [d])"

lemma tell_message: "tell v n = Inr (n', b) \<Longrightarrow> changed_message n v = Inr (Some b)"
  unfolding tell_def changed_message_def
proof (elim bindE_InrE)
  fix x r
  assume "(case r of None \<Rightarrow> Inl Aborted | Some m \<Rightarrow> Inr (n\<lparr>old_data := Some x\<rparr>, m)) = Inr (n', b)"
    and r: "buxton_serialize_message (control_code CONTROL_CHANGED) (n_msgid n)
      (case v of None \<Rightarrow> [] | Some d \<Rightarrow> [d]) = Inr r"
  then have "r = Some b" by (cases r) auto
  then show "buxton_serialize_message (control_code CONTROL_CHANGED) (n_msgid n)
      (case v of None \<Rightarrow> [] | Some d \<Rightarrow> [d]) = Inr (Some b)" using r by simp
qed

section \<open>Who is told\<close>

text \<open>What a registration remembers of a value it was told: a copy, or a zeroed value after an unset.\<close>

definition remembered :: "BuxtonData option \<Rightarrow> BuxtonData" where
  "remembered v = (case v of None \<Rightarrow> DZero | Some d \<Rightarrow> as_stored d)"

definition value_ok :: "BuxtonData option \<Rightarrow> bool" where
  "value_ok v = (case v of None \<Rightarrow> True | Some d \<Rightarrow> d \<noteq> DZero \<and> data_ok d)"

definition told :: "BuxtonData option \<Rightarrow> BuxtonNotification \<Rightarrow> BuxtonNotification" where
  "told v n = (if unchanged v n = Inr False then n\<lparr>old_data := Some (remembered v)\<rparr> else n)"

lemma told_None [simp]: "told None n = n\<lparr>old_data := Some DZero\<rparr>"
  by (simp add: told_def unchanged_def remembered_def split: option.split)

lemma copy_or_abort_ok: "data_ok d \<Longrightarrow> copy_or_abort d = Inr (as_stored d)"
  by (simp add: copy_or_abort_def buxton_data_copy_stored)

lemma tell_ok:
  assumes "value_ok v" "changed_message n v = Inr (Some b)"
  shows "tell v n = Inr (n\<lparr>old_data := Some (remembered v)\<rparr>, b)"
  using assms by (cases v) (auto simp: tell_def changed_message_def remembered_def value_ok_def copy_or_abort_ok)

lemma tell_eq:
  assumes "value_ok v" "tell v n = Inr (n', b)"
  shows "n' = n\<lparr>old_data := Some (remembered v)\<rparr>" "changed_message n v = Inr (Some b)"
  using tell_ok[OF assms(1) tell_message[OF assms(2)]] assms(2) tell_message[OF assms(2)] by simp_all

lemma notify_loop_spec:
  assumes "value_ok v" "notify_loop fd v ns = Inr (ns', out)"
  shows "ns' = map (told v) ns \<and>
    list_all2 (\<lambda>n (f, b). fd (n_client n) = Some f \<and> changed_message n v = Inr (Some b))
      (filter (\<lambda>n. unchanged v n = Inr False) ns) out \<and>
    (\<forall>n \<in> set ns. unchanged v n = Inr True \<or> unchanged v n = Inr False)"
  using assms(2)
proof (induction ns arbitrary: ns' out)
  case Nil
  then show ?case by simp
next
  case (Cons n ns)
  obtain same where u: "unchanged v n = Inr same"
    using Cons.prems by (auto simp: notify_item_def res_simps)
  show ?case
  proof (cases same)
    case True
    then obtain ns1 where "notify_loop fd v ns = Inr (ns1, out)" "ns' = n # ns1"
      using Cons.prems u by (auto simp: notify_item_def res_simps)
    then show ?thesis using Cons.IH[of ns1 out] u True by (simp add: told_def)
  next
    case False
    obtain n1 b where t: "tell v n = Inr (n1, b)"
      using Cons.prems u False by (auto simp: notify_item_def res_simps)
    obtain f where f: "fd (n_client n) = Some f"
      using Cons.prems u False t by (cases "fd (n_client n)") (auto simp: notify_item_def)
    obtain ns1 out1 where l: "notify_loop fd v ns = Inr (ns1, out1)"
      using Cons.prems u False t f by (auto simp: notify_item_def res_simps)
    have "ns' = n1 # ns1" "out = (f, b) # out1"
      using Cons.prems u False t f l by (simp_all add: notify_item_def)
    then show ?thesis
      using Cons.IH[OF l] u False f tell_eq[OF assms(1) t] by (simp add: told_def)
  qed
qed

text \<open>The other direction: when every comparison is defined, every message can be made and every
  client has a descriptor, the loop runs.\<close>

lemma notify_loop_runs:
  assumes "value_ok v"
    "\<forall>n \<in> set ns. (unchanged v n = Inr True \<or> unchanged v n = Inr False) \<and>
       (\<exists>b. changed_message n v = Inr (Some b)) \<and> fd (n_client n) \<noteq> None"
  shows "\<exists>out. notify_loop fd v ns = Inr (map (told v) ns, out)"
  using assms(2)
proof (induction ns)
  case Nil
  then show ?case by simp
next
  case (Cons n ns)
  obtain out where l: "notify_loop fd v ns = Inr (map (told v) ns, out)" using Cons by auto
  obtain b f where b: "changed_message n v = Inr (Some b)" "fd (n_client n) = Some f" using Cons.prems by auto
  from tell_ok[OF assms(1) b(1)] l b(2) Cons.prems show ?case
    by (auto simp: notify_item_def told_def)
qed

text \<open>Comparing a value with the copy that was made of it.\<close>

lemma memcmp_eq_refl: "n \<le> length xs \<Longrightarrow> n \<le> length ys \<Longrightarrow> take n xs = take n ys \<Longrightarrow> memcmp_eq n xs ys = Inr True"
  by (induction n xs ys rule: memcmp_eq.induct) auto

lemma same_value_stored:
  assumes "data_ok d" "d \<noteq> DZero"
  shows "same_value (as_stored d) d = Inr True"
proof (cases d)
  case (DString s)
  show ?thesis
  proof (cases "unat (str_length s) = 0")
    case True
    then show ?thesis using DString by (simp add: same_value_def)
  next
    case False
    obtain b where b: "str_value s = Some b" "unat (str_length s) \<le> length b"
      using assms DString False by (auto simp: str_ok_def split: option.splits)
    then have sb: "str_bytes s = take (unat (str_length s)) b" by (simp add: str_bytes_def)
    have "memcmp_eq (unat (str_length s)) (str_bytes s) b = Inr True"
      by (rule memcmp_eq_refl) (use b(2) in \<open>simp_all add: sb\<close>)
    then show ?thesis using DString b(1) False by (simp add: same_value_def)
  qed
qed (use assms in \<open>simp_all add: same_value_def union_bytes_def\<close>)

lemma unchanged_told:
  assumes "value_ok (Some d)" "unchanged (Some d) n = Inr True \<or> unchanged (Some d) n = Inr False"
  shows "unchanged (Some d) (told (Some d) n) = Inr True"
  using assms same_value_stored[of d]
  by (auto simp: told_def unchanged_def remembered_def value_ok_def)

section \<open>Properties of notifications\<close>

lemma notify_clients_spec:
  assumes "value_ok v" "buxtond_notify_clients self key v = Inr d" "notify_key_name key = Inr (Some k)"
  shows "\<exists>out. sent d = sent self @ out \<and> same_connections self d \<and>
    list_all2 (\<lambda>n (f, b). fd_of self (n_client n) = Some f \<and> changed_message n v = Inr (Some b))
      (filter (\<lambda>n. unchanged v n = Inr False) (entries (notify_mapping self) k)) out \<and>
    (\<forall>n \<in> set (entries (notify_mapping self) k). unchanged v n = Inr True \<or> unchanged v n = Inr False) \<and>
    entries (notify_mapping d) = (entries (notify_mapping self))
      (k := map (told v) (entries (notify_mapping self) k))"
proof (cases "hm_get (notify_mapping self) k")
  case None
  then have "d = self" "entries (notify_mapping self) k = []"
    using assms(2,3) by (auto simp: buxtond_notify_clients_def entries_def)
  then show ?thesis by (simp add: fun_upd_idem)
next
  case (Some ns)
  then have e: "entries (notify_mapping self) k = ns" by (simp add: entries_def)
  obtain ns' out where l: "notify_loop (fd_of self) v ns = Inr (ns', out)"
    and d: "d = self\<lparr>notify_mapping := hm_set (notify_mapping self) k ns', sent := sent self @ out\<rparr>"
    using assms(2,3) Some by (auto simp: buxtond_notify_clients_def res_simps)
  from notify_loop_spec[OF assms(1) l] show ?thesis
    using d Some by (auto simp: e entries_set same_connections_def)
qed

lemma notify_clients_runs:
  assumes "value_ok v" "notify_key_name key = Inr (Some k)"
    "\<forall>n \<in> set (entries (notify_mapping self) k). (unchanged v n = Inr True \<or> unchanged v n = Inr False) \<and>
       (\<exists>b. changed_message n v = Inr (Some b)) \<and> fd_of self (n_client n) \<noteq> None"
  shows "\<exists>d. buxtond_notify_clients self key v = Inr d"
proof (cases "hm_get (notify_mapping self) k")
  case None
  then show ?thesis using assms(2) by (simp add: buxtond_notify_clients_def)
next
  case (Some ns)
  then have "entries (notify_mapping self) k = ns" by (simp add: entries_def)
  then obtain out where "notify_loop (fd_of self) v ns = Inr (map (told v) ns, out)"
    using notify_loop_runs[OF assms(1), of ns "fd_of self"] assms(3) by auto
  then show ?thesis using assms(2) Some by (simp add: buxtond_notify_clients_def)
qed

lemma changed_message_ok:
  assumes "case v of None \<Rightarrow> True | Some d \<Rightarrow> wire_ok d"
  shows "\<exists>b. changed_message n v = Inr (Some b)"
proof -
  have "\<forall>d \<in> set (case v of None \<Rightarrow> [] | Some d \<Rightarrow> [d]). wire_ok d" using assms by (cases v) auto
  then show ?thesis
    unfolding changed_message_def
    by (rule message_roundtrip_lemma[of _ CONTROL_CHANGED "n_msgid n"]) (simp_all split: option.splits)
qed

text \<open>When a remembered value counts as the new one: scalars by the number that their bits make, in the width
  of the new value, so that values of one type are equal bit by bit; strings by the bytes of the new one,
  with their NUL. \<open>changes\<close> is then what a registration must be told: everything when it remembers nothing,
  and every unset.\<close>

fun raw :: "BuxtonData \<Rightarrow> nat" where
  "raw (DInt32 w) = unat w" | "raw (DUInt32 w) = unat w" | "raw (DFloat w) = unat w"
| "raw (DInt64 w) = unat w" | "raw (DUInt64 w) = unat w" | "raw (DDouble w) = unat w"
| "raw (DBoolean b) = of_char b" | "raw _ = 0"

fun width :: "BuxtonData \<Rightarrow> nat" where
  "width (DInt32 _) = 32" | "width (DUInt32 _) = 32" | "width (DFloat _) = 32"
| "width (DInt64 _) = 64" | "width (DUInt64 _) = 64" | "width (DDouble _) = 64"
| "width (DBoolean _) = 8" | "width _ = 0"

definition same_content :: "BuxtonData \<Rightarrow> BuxtonData \<Rightarrow> bool" where
  "same_content old new = (case new of
       DString s \<Rightarrow> (case old of
           DString r \<Rightarrow> take (length (str_bytes s)) (the (str_value r)) = str_bytes s
         | _ \<Rightarrow> str_bytes s = [])
     | _ \<Rightarrow> raw old mod 2 ^ width new = raw new)"

definition changes :: "BuxtonData option \<Rightarrow> BuxtonData option \<Rightarrow> bool" where
  "changes old new = (case (old, new) of (Some x, Some y) \<Rightarrow> \<not> same_content x y | _ \<Rightarrow> True)"

text \<open>For two values of one type this is equality.\<close>

lemma same_content_scalar:
  "same_content (DInt32 a) (DInt32 b) = (a = b)" "same_content (DUInt32 a) (DUInt32 b) = (a = b)"
  "same_content (DInt64 c) (DInt64 d) = (c = d)" "same_content (DUInt64 c) (DUInt64 d) = (c = d)"
  "same_content (DFloat a) (DFloat b) = (a = b)" "same_content (DDouble c) (DDouble d) = (c = d)"
  "same_content (DBoolean x) (DBoolean y) = (x = y)"
  using unsigned_less[of a, where ?'a = nat] unsigned_less[of c, where ?'a = nat] of_char_lt[of x]
  by (simp_all add: same_content_def word_unat_eq_iff)

lemma raw_bytes:
  assumes "\<forall>s. d \<noteq> DString s"
  shows "le_nat (scalar_bytes d) = raw d" "2 ^ width d = (256 :: nat) ^ length (scalar_bytes d)"
  using assms by (cases d; simp)+

lemma le_nat_inject: "length xs = length ys \<Longrightarrow> le_nat xs = le_nat ys \<longleftrightarrow> xs = ys"
  by (metis le_bytes_nat)

lemma memcmp_eq_take: "memcmp_eq n xs ys = Inr r \<Longrightarrow> r \<longleftrightarrow> take n xs = take n ys"
  by (induction n xs ys rule: memcmp_eq.induct) (auto split: if_splits)

lemma same_value_is:
  assumes "same_value old new = Inr r" "new \<noteq> DZero" "data_ok new"
  shows "r = same_content old new"
proof (cases "\<exists>s. new = DString s")
  case True
  then obtain s where s: "new = DString s" by blast
  have b: "str_bytes s = take (unat (str_length s)) (the (str_value s))" if "unat (str_length s) \<noteq> 0"
    using assms(3) that s by (auto simp: str_ok_def str_bytes_def split: option.splits)
  have z: "str_bytes s = []" if "unat (str_length s) = 0"
    using that by (auto simp: str_bytes_def split: option.splits)
  have l: "length (str_bytes s) = unat (str_length s)"
    using assms(3) s by (auto simp: str_ok_def str_bytes_def split: option.splits)
  show ?thesis
  proof (cases "unat (str_length s) = 0")
    case True
    then show ?thesis using assms(1) s z by (simp add: same_value_def same_content_def split: BuxtonData.split)
  next
    case False
    then obtain a c d where "old = DString a" "str_value a = Some c" "str_value s = Some d"
      "memcmp_eq (unat (str_length s)) c d = Inr r"
      using assms(1) s by (auto simp: same_value_def Let_def split: BuxtonData.splits option.splits)
    then show ?thesis using memcmp_eq_take[of "unat (str_length s)" c d r] s l b[OF False]
      by (simp add: same_content_def)
  qed
next
  case False
  let ?n = "length (scalar_bytes new)"
  obtain b where b: "union_bytes old ?n = Inr b" "r = (b = scalar_bytes new)"
    using assms(1,2) False by (auto simp: same_value_def bindE_eq_Inr split: BuxtonData.splits)
  have "length b = ?n \<and> le_nat b = raw old mod 256 ^ ?n"
  proof (cases "old = DZero")
    case True
    have "le_nat (replicate n NUL) = 0" for n by (induction n) simp_all
    then show ?thesis using b(1) True by (auto simp: union_bytes_def)
  next
    case no: False
    then have "\<forall>s. old \<noteq> DString s" "?n \<le> length (scalar_bytes old)" "b = take ?n (scalar_bytes old)"
      using b(1) by (auto simp: union_bytes_def split: BuxtonData.splits if_splits)
    then show ?thesis by (simp add: le_nat_take raw_bytes)
  qed
  then have "r \<longleftrightarrow> raw old mod 2 ^ width new = raw new"
    using b(2) le_nat_inject[of b "scalar_bytes new"] raw_bytes[of new] False by auto
  then show ?thesis using False by (simp add: same_content_def split: BuxtonData.split)
qed

lemma unchanged_is:
  assumes "unchanged v n = Inr True \<or> unchanged v n = Inr False" "value_ok v"
  shows "unchanged v n = Inr False \<longleftrightarrow> changes (old_data n) v"
  using assms same_value_is
  by (auto simp: unchanged_def changes_def value_ok_def split: option.splits)

text \<open>C18. When a key changes, exactly the registrations for which \<open>changes\<close> holds are told, in the order in which
  they were made: those that remember nothing, and those whose remembered value differs from the new one; all
  of them after an unset. Each gets one CHANGED message with its own message id and the new value (none after an
  unset) and then remembers it; the others, and the registrations of other keys, stay as they are. For values of
  one type to differ means: other bits, or another text. Across types only the bytes of the new value's width are
  compared, and a string of length 0 differs from nothing, so that a change of the type alone, and a set to
  the empty string, are not told.\<close>

theorem change_told_exactly:
  assumes "buxtond_notify_clients self key v = Inr d" "notify_key_name key = Inr (Some k)" "value_ok v"
  shows "\<exists>out. sent d = sent self @ out \<and>
    list_all2 (\<lambda>n (f, b). fd_of self (n_client n) = Some f \<and>
        buxton_serialize_message (control_code CONTROL_CHANGED) (n_msgid n) (case v of None \<Rightarrow> [] | Some x \<Rightarrow> [x]) = Inr (Some b))
      (filter (\<lambda>n. changes (old_data n) v) (entries (notify_mapping self) k)) out \<and>
    entries (notify_mapping d) = (entries (notify_mapping self))
      (k := map (\<lambda>n. if changes (old_data n) v then n\<lparr>old_data := Some (remembered v)\<rparr> else n) (entries (notify_mapping self) k))"
proof -
  obtain out where o: "sent d = sent self @ out"
    "list_all2 (\<lambda>n (f, b). fd_of self (n_client n) = Some f \<and> changed_message n v = Inr (Some b))
      (filter (\<lambda>n. unchanged v n = Inr False) (entries (notify_mapping self) k)) out"
    "\<forall>n \<in> set (entries (notify_mapping self) k). unchanged v n = Inr True \<or> unchanged v n = Inr False"
    "entries (notify_mapping d) = (entries (notify_mapping self)) (k := map (told v) (entries (notify_mapping self) k))"
    using notify_clients_spec[OF assms(3,1,2)] by blast
  have u: "unchanged v n = Inr False \<longleftrightarrow> changes (old_data n) v" if "n \<in> set (entries (notify_mapping self) k)" for n
    using unchanged_is[OF _ assms(3)] o(3) that by blast
  then have "filter (\<lambda>n. unchanged v n = Inr False) (entries (notify_mapping self) k) =
      filter (\<lambda>n. changes (old_data n) v) (entries (notify_mapping self) k)" by (simp cong: filter_cong)
  moreover have "map (told v) (entries (notify_mapping self) k) =
      map (\<lambda>n. if changes (old_data n) v then n\<lparr>old_data := Some (remembered v)\<rparr> else n) (entries (notify_mapping self) k)"
    using u by (simp add: told_def)
  ultimately show ?thesis using o(1,2,4) unfolding changed_message_def by auto
qed

lemma w32_bytes_inject: "w32_bytes a = w32_bytes b \<longleftrightarrow> a = b"
  by (metis unat_w32 word_unat_eq_iff)

definition listening_daemon :: "(Resources \<times> Resources) BuxtonDaemon" where
  "listening_daemon = sample_daemon\<lparr>
     notify_mapping := [(''g'' @ CHR 0x0A # ''k'', [\<lparr>n_client = 1, old_data = Some (DInt32 4), n_msgid = 77\<rparr>])],
     client_key_mapping := [(6, [''g'' @ CHR 0x0A # ''k''])]\<rparr>"

lemma sample_key_name:
  "notify_key_name (layer_key ''sys'' ''g'' (Some ''k'') t) = Inr (Some (''g'' @ CHR 0x0A # ''k''))"
  by (simp add: notify_key_name_def layer_key_def plain_key_def buxton_string_pack_def eval_simps)

lemma listening_simps:
  "sent listening_daemon = []" "fd_of listening_daemon (Suc 0) = Some 6"
  "entries (notify_mapping listening_daemon) (CHR ''g'' # CHR 0x0A # ''k'') =
     [\<lparr>n_client = 1, old_data = Some (DInt32 4), n_msgid = 77\<rparr>]"
  by (simp_all add: listening_daemon_def sample_daemon_def fd_of_def entries_def hm_get_def)

lemma listening_unchanged:
  "unchanged (Some (DInt32 5)) \<lparr>n_client = 1, old_data = Some (DInt32 4), n_msgid = 77\<rparr> = Inr False"
  "unchanged None \<lparr>n_client = 1, old_data = Some (DInt32 4), n_msgid = 77\<rparr> = Inr False"
  by (simp_all add: unchanged_def same_value_def union_bytes_def w32_bytes_inject)

lemma listening_notified:
  assumes "v = None \<or> v = Some (DInt32 5)"
  shows "\<exists>d. buxtond_notify_clients listening_daemon (layer_key ''sys'' ''g'' (Some ''k'') t) v = Inr d"
  using notify_clients_runs[OF _ sample_key_name, of v listening_daemon t] changed_message_ok[of v] assms
    listening_unchanged
  by (auto simp: listening_simps value_ok_def)

theorem change_told_exactly_witness:
  "\<exists>d b. buxtond_notify_clients listening_daemon (layer_key ''sys'' ''g'' (Some ''k'') BUXTON_TYPE_INT32)
       (Some (DInt32 5)) = Inr d \<and> sent d = [(6, b)] \<and>
     buxton_serialize_message (control_code CONTROL_CHANGED) 77 [DInt32 5] = Inr (Some b)"
proof -
  obtain d where d: "buxtond_notify_clients listening_daemon
      (layer_key ''sys'' ''g'' (Some ''k'') BUXTON_TYPE_INT32) (Some (DInt32 5)) = Inr d"
    using listening_notified by blast
  have "value_ok (Some (DInt32 5))" by (simp add: value_ok_def)
  from change_told_exactly[OF d sample_key_name this] show ?thesis
    using d by (auto simp: listening_simps list_all2_Cons1 changes_def same_content_scalar)
qed

text \<open>Setting the same value again tells nobody: the notification after the first one finds every
  registration unchanged, sends nothing and leaves them as they are.\<close>

theorem same_value_told_once:
  assumes "buxtond_notify_clients self key (Some v) = Inr d" "notify_key_name key = Inr (Some k)"
    "value_ok (Some v)"
  shows "\<exists>d2. buxtond_notify_clients d key (Some v) = Inr d2 \<and> sent d2 = sent d \<and>
    entries (notify_mapping d2) = entries (notify_mapping d)"
proof -
  let ?ns = "entries (notify_mapping self) k" and ?ms = "entries (notify_mapping d) k"
  obtain out where o: "\<forall>n \<in> set ?ns. unchanged (Some v) n = Inr True \<or> unchanged (Some v) n = Inr False"
    "?ms = map (told (Some v)) ?ns"
    using notify_clients_spec[OF assms(3,1,2)] by auto
  have u: "unchanged (Some v) m = Inr True" if "m \<in> set ?ms" for m
    using that o unchanged_told[OF assms(3)] by auto
  then have t: "map (told (Some v)) ?ms = ?ms" by (simp add: told_def cong: map_cong)
  have "notify_item (Some v) m = Inr None" if "m \<in> set ?ms" for m
    using u[OF that] by (simp add: notify_item_def)
  then have l: "notify_loop fd (Some v) ms = Inr (ms, [])" if "set ms \<subseteq> set ?ms" for fd ms
    using that by (induction ms) auto
  have "\<exists>d2. buxtond_notify_clients d key (Some v) = Inr d2"
  proof (cases "hm_get (notify_mapping d) k")
    case None
    then show ?thesis using assms(2) by (simp add: buxtond_notify_clients_def)
  next
    case (Some ns)
    then have "?ms = ns" by (simp add: entries_def)
    then show ?thesis using l[of ns] Some assms(2) by (simp add: buxtond_notify_clients_def)
  qed
  then obtain d2 where d2: "buxtond_notify_clients d key (Some v) = Inr d2" ..
  have "filter (\<lambda>n. unchanged (Some v) n = Inr False) ?ms = []" using u by (auto simp: filter_empty_conv)
  then show ?thesis
    using notify_clients_spec[OF assms(3) d2 assms(2)] d2 t by (auto simp: fun_upd_idem)
qed

theorem same_value_told_once_witness:
  "\<exists>d d2. buxtond_notify_clients listening_daemon (layer_key ''sys'' ''g'' (Some ''k'') BUXTON_TYPE_INT32)
       (Some (DInt32 5)) = Inr d \<and>
     buxtond_notify_clients d (layer_key ''sys'' ''g'' (Some ''k'') BUXTON_TYPE_INT32)
       (Some (DInt32 5)) = Inr d2 \<and> sent d2 = sent d"
proof -
  obtain d where d: "buxtond_notify_clients listening_daemon
      (layer_key ''sys'' ''g'' (Some ''k'') BUXTON_TYPE_INT32) (Some (DInt32 5)) = Inr d"
    using listening_notified by blast
  from same_value_told_once[OF d sample_key_name] show ?thesis
    using d by (auto simp: value_ok_def)
qed

text \<open>After an unset, the registrations of a key remember a zeroed value, and the next string set
  compares it with \<open>memcmp\<close> through its NULL pointer: setting a string, unsetting the key and setting a
  string again faults as soon as one client is registered on the key.\<close>

theorem string_after_unset_faults:
  assumes "buxtond_notify_clients self key None = Inr d" "notify_key_name key = Inr (Some k)"
    "entries (notify_mapping self) k \<noteq> []" "str_length s \<noteq> 0"
  shows "buxtond_notify_clients d key (Some (DString s)) = Inl NullDeref"
proof -
  obtain n ns where ns: "entries (notify_mapping self) k = n # ns"
    using assms(3) by (cases "entries (notify_mapping self) k") auto
  have "value_ok None" by (simp add: value_ok_def)
  then have "entries (notify_mapping d) k = map (told None) (n # ns)"
    using notify_clients_spec[of None self key d k] assms(1,2) ns by auto
  then have "hm_get (notify_mapping d) k = Some (told None n # map (told None) ns)"
    by (auto simp: entries_def split: option.splits)
  moreover have "unat (str_length s) \<noteq> 0" using assms(4) by (simp add: unat_eq_zero)
  ultimately show ?thesis
    using assms(2)
    by (simp add: buxtond_notify_clients_def notify_item_def unchanged_def same_value_def Let_def)
qed

theorem string_after_unset_faults_witness:
  "\<exists>d. buxtond_notify_clients listening_daemon (layer_key ''sys'' ''g'' (Some ''k'') BUXTON_TYPE_STRING) None = Inr d \<and>
     buxtond_notify_clients d (layer_key ''sys'' ''g'' (Some ''k'') BUXTON_TYPE_STRING)
       (Some (DString (buxton_string_pack ''x''))) = Inl NullDeref"
proof -
  let ?k = "layer_key ''sys'' ''g'' (Some ''k'')"
  obtain d where d: "buxtond_notify_clients listening_daemon (?k BUXTON_TYPE_STRING) None = Inr d"
    using listening_notified by blast
  from string_after_unset_faults[OF d sample_key_name] show ?thesis
    using d by (auto simp: listening_simps buxton_string_pack_def)
qed

section \<open>Registering\<close>

lemma find_client_last:
  "held c ns = 0 \<Longrightarrow> n_client n = c \<Longrightarrow> find_client c (ns @ [n]) = Some n"
  by (induction ns) (auto simp: find_client_def split: if_splits)

lemma remove_client_last: "held c ns = 0 \<Longrightarrow> n_client n = c \<Longrightarrow> remove_client c (ns @ [n]) = ns"
  by (induction ns) (auto split: if_splits)

lemma remove1_last: "x \<notin> set xs \<Longrightarrow> remove1 x (xs @ [x]) = xs"
  by (induction xs) auto

lemma unregister_runs:
  assumes "notify_key_name key = Inr name"
  shows "\<exists>m st d. unregister_notification self client key = Inr (m, st, d)"
  using assms
  by (cases name; cases "hm_get (notify_mapping self) (the name)";
      cases "find_client (cl_id client) (the (hm_get (notify_mapping self) (the name)))";
      cases "hm_get (client_key_mapping self) (cl_fd client)")
    (auto simp: unregister_notification_def)

lemma remove_client_found: "find_client c ns = Some n \<Longrightarrow> remove_client c ns = remove1 n ns"
proof (induction ns)
  case (Cons x ns)
  then show ?case using find_client_Some[of c ns n] by (cases "n_client x = c") (auto simp: find_client_def)
qed (simp add: find_client_def)

lemma remove_client_append: "find_client c ns = Some n \<Longrightarrow> remove_client c (ns @ ms) = remove_client c ns @ ms"
  by (induction ns) (auto simp: find_client_def split: if_splits)

lemma find_client_append: "find_client c ns = Some n \<Longrightarrow> find_client c (ns @ ms) = Some n"
  by (induction ns) (auto simp: find_client_def split: if_splits)

text \<open>C19. UNNOTIFY after NOTIFY: when the client had no registration of the key before, the message id of the new one
  is returned, and every list of notifications and of registered names is what it was. When it had one, the
  oldest is removed and its message id returned, while the new one stays; no other client's and no other key's
  registrations change.\<close>

theorem unnotify_undoes_notify:
  assumes "registry_ok self" "known self client"
    "register_notification env self client key msgid = Inr (0, d1)" "notify_key_name key = Inr (Some k)"
  shows "case find (\<lambda>n. n_client n = cl_id client) (entries (notify_mapping self) k) of
      None \<Rightarrow> \<exists>d2. unregister_notification d1 client key = Inr (msgid, 0, d2) \<and>
        entries (notify_mapping d2) = entries (notify_mapping self) \<and>
        entries (client_key_mapping d2) = entries (client_key_mapping self)
    | Some old \<Rightarrow> \<exists>d2 data. unregister_notification d1 client key = Inr (n_msgid old, 0, d2) \<and>
        entries (notify_mapping d2) = (entries (notify_mapping self))
          (k := remove1 old (entries (notify_mapping self) k) @ [\<lparr>n_client = cl_id client, old_data = data, n_msgid = msgid\<rparr>]) \<and>
        entries (client_key_mapping d2) = (entries (client_key_mapping self))
          (cl_fd client := remove1 k (entries (client_key_mapping self) (cl_fd client)) @ [k])"
proof -
  have l: "listed (notify_mapping self)" "listed (client_key_mapping self)"
    using assms(1) by (simp_all add: registry_ok_def)
  let ?ns = "entries (notify_mapping self) k" and ?ks = "entries (client_key_mapping self) (cl_fd client)"
  obtain data where d1: "entries (notify_mapping d1) = (entries (notify_mapping self))
       (k := ?ns @ [\<lparr>n_client = cl_id client, old_data = data, n_msgid = msgid\<rparr>])"
    "entries (client_key_mapping d1) = (entries (client_key_mapping self)) (cl_fd client := ?ks @ [k])"
    using register_cases[OF assms(3) l] assms(4) by auto
  have kp: "kept self d1" by (rule register_kept[OF assms(3,2,1)])
  then have ok: "registry_ok d1" "known d1 client"
    using assms(1,2) by (simp_all add: kept_def kept_known[OF kp])
  obtain m st d2 where u: "unregister_notification d1 client key = Inr (m, st, d2)"
    using unregister_runs[OF assms(4)] by blast
  let ?n = "\<lparr>n_client = cl_id client, old_data = data, n_msgid = msgid\<rparr>"
  have "matched (client_list self) (entries (notify_mapping self)) (entries (client_key_mapping self))"
    using assms(1) by (simp add: registry_ok_def)
  then have cnt: "count_list ?ks k = held (cl_id client) ?ns"
    using assms(2) by (force simp: matched_def known_def)
  have "held (cl_id client) (entries (notify_mapping d1) k) \<noteq> 0" using d1(1) by simp
  then obtain n where f: "find_client (cl_id client) (?ns @ [?n]) = Some n" "st = 0" "m = n_msgid n"
    "entries (notify_mapping d2) = (entries (notify_mapping self)) (k := remove_client (cl_id client) (?ns @ [?n]))"
    "entries (client_key_mapping d2) = (entries (client_key_mapping self)) (cl_fd client := remove1 k (?ks @ [k]))"
    using unregister_cases[OF u ok(2,1)] assms(4) d1 by auto
  show ?thesis
  proof (cases "find_client (cl_id client) ?ns")
    case None
    then have h: "held (cl_id client) ?ns = 0" by (simp add: find_client_None)
    then have "k \<notin> set ?ks" using cnt by (simp add: count_list_0_iff)
    then show ?thesis
      using None f u find_client_last[OF h, of ?n] remove_client_last[OF h, of ?n]
      by (simp add: find_client_def remove1_last fun_upd_idem)
  next
    case (Some old)
    then have "held (cl_id client) ?ns \<noteq> 0" using find_client_None[of "cl_id client" ?ns] by simp
    then have "k \<in> set ?ks" using cnt count_list_0_iff by metis
    then show ?thesis
      using Some f u find_client_append[OF Some, of "[?n]"] remove_client_append[OF Some, of "[?n]"] remove_client_found[OF Some]
      by (auto simp: find_client_def remove1_append)
  qed
qed

text \<open>A client of the sample daemon, and the state after it stored a value.\<close>

definition app_client :: client_list_item where
  "app_client = \<lparr>cl_id = 1, cl_fd = 6, cl_uid = 0, cl_pid = 42, smack_label = Some (buxton_string_pack ''App''),
     cl_data = None, cl_offset = 0, cl_size = 0\<rparr>"

lemma app_known: "known sample_daemon app_client" "known (sample_daemon\<lparr>buxton := ctl\<rparr>) app_client"
  by (simp_all add: known_def sample_daemon_def app_client_def)

lemma sample_registry: "registry_ok sample_daemon" "registry_ok (sample_daemon\<lparr>buxton := ctl\<rparr>)"
  by (auto simp: registry_ok_def matched_def sample_daemon_def)

lemma sample_key_arg:
  "key_ok (layer_key ''sys'' ''g'' (Some ''k'') t) ''g'' (Some ''k'')"
  "layer_arg slack (key_layer (layer_key ''sys'' ''g'' (Some ''k'') t)) ''sys''"
  by (rule layer_key_ok, simp_all add: key_text_def) (rule layer_key_arg, simp_all)

lemma sample_stored:
  "\<exists>ctl. system_ok ctl \<and> same_setup sample_ctl ctl \<and>
     group_contents ctl (sample_layer LAYER_SYSTEM 5 ''sys'') ''g'' None = Some (group_value, zstr ''App'') \<and>
     group_contents ctl (sample_layer LAYER_SYSTEM 5 ''sys'') ''g'' (Some ''k'') = Some (DInt32 7, zstr ''App'') \<and>
     group_contents ctl (sample_layer LAYER_USER 9 ''usr'') ''g'' None = None"
proof -
  have pu: "mem_place (sample_layer LAYER_USER 9 ''usr'') = ''usr-0''"
    by (simp add: mem_place_def db_name_def sample_layer_def eval_simps dec_int_def dec_nat.simps dec_digit_def
        char_of_def bit_iff_odd)
  have w: "write_allowed (rules sample_ctl) (Some ''App'')
      (mem_contents (fst (modules sample_ctl)) (mem_place (sample_layer LAYER_SYSTEM 5 ''sys'')) ''g'') (Some ''k'')"
    by (simp add: write_allowed_def sample_get sample_place sample_may)
  obtain ctl where
    "buxton_direct_set_value memory_env (layer_key ''sys'' ''g'' (Some ''k'') BUXTON_TYPE_INT32) (DInt32 7)
       (Some (buxton_string_pack ''App'')) sample_ctl = Inr (True, ctl)" "system_ok ctl" "same_setup sample_ctl ctl"
    "sys_contents (modules ctl) = kv_upd (sys_contents (modules sample_ctl)) ''sys'' ''g'' (Some ''k'')
       (Some (DInt32 7, zstr ''App''))"
    using sys.set_value_ok[unfolded sys_ctl_ok system_env_slack, OF sample_ctl_ok sample_key_arg(1)
        sample_key_arg(2)[of "\<lambda>_. [NUL]"] sample_the_layer(1) sample_client, of "DInt32 7" None no_gdbm] w
      str_holds_bytes[OF sample_label]
    by (auto simp: group_contents_def sample_get sample_place label_after_def)
  then show ?thesis
    using w by (intro exI[of _ ctl]) (simp add: group_contents_def sample_place sample_get pu)
qed

lemma system_ok_uid [simp]: "system_ok (ctl\<lparr>client_uid := u\<rparr>) = system_ok ctl"
proof -
  have m: "memory_layer (l\<lparr>layer_uid := v\<rparr>) = memory_layer l" for l v
    by (auto simp: memory_layer_def named_layer_def layer_ok_def)
  have "(\<forall>n l. the_layer c n = Some l \<longrightarrow> memory_layer l) \<longleftrightarrow>
      (\<forall>n l. hm_get (layers (config c)) n = Some l \<longrightarrow> memory_layer l)" for c :: "(Resources \<times> 'a) BuxtonControl"
    by (force simp: the_layer_def m)
  then show ?thesis by (simp add: system_ok_def)
qed

lemma sample_get_stored:
  assumes "system_ok ctl" "same_setup sample_ctl ctl"
    "group_contents ctl (sample_layer LAYER_SYSTEM 5 ''sys'') ''g'' None = Some (group_value, zstr ''App'')"
    "group_contents ctl (sample_layer LAYER_SYSTEM 5 ''sys'') ''g'' (Some ''k'') = Some (DInt32 7, zstr ''App'')"
  shows "\<exists>ctl'. daemon_get_value memory_env (sample_daemon\<lparr>buxton := ctl\<rparr>) app_client
      (layer_key ''sys'' ''g'' (Some ''k'') BUXTON_TYPE_INT32) =
    Inr (Some (DInt32 7), 0, sample_daemon\<lparr>buxton := ctl'\<rparr>)"
proof -
  let ?key = "layer_key ''sys'' ''g'' (Some ''k'') BUXTON_TYPE_INT32"
  have uid: "ctl\<lparr>client_uid := 0\<rparr> = ctl" using assms(2) by (simp add: same_setup_def sample_ctl_def)
  have rl: "rules ctl = rules sample_ctl" using assms(2) by (simp add: same_setup_def)
  have tl: "the_layer ctl ''sys'' = Some (sample_layer LAYER_SYSTEM 5 ''sys'')"
    using same_setup_layer[OF assms(2), of "''sys''"] sample_the_layer(1) by simp
  have rs: "read_spec (rules ctl) (Some ''App'') (mem_contents (fst (modules ctl))
      (mem_place (sample_layer LAYER_SYSTEM 5 ''sys'')) ''g'') (Some ''k'') BUXTON_TYPE_INT32 =
      (0, Some (DInt32 7, zstr ''App''))"
    using assms(3,4) sample_may[of ACCESS_READ]
    by (simp add: read_spec_def read_entry_def group_contents_def rl client_may_def[of _ None])
  obtain out ctl' where g: "buxton_direct_get_value_for_layer memory_env ?key (Some (buxton_string_pack ''App'')) ctl =
      Inr (0, out, ctl')" "stands_for out (Some (DInt32 7, zstr ''App''))"
    using sys.get_layer_ok[unfolded sys_ctl_ok system_env_slack, OF assms(1) sample_key_arg(1)[of BUXTON_TYPE_INT32]
        sample_key_arg(2)[of "\<lambda>_. [NUL]" BUXTON_TYPE_INT32] tl sample_client, of None no_gdbm] rs
    by (simp add: layer_key_def plain_key_def) metis
  have "str_value (key_layer ?key) \<noteq> None" by (simp add: layer_key_def buxton_string_pack_def)
  then show ?thesis
    using g uid
    by (auto simp: daemon_get_value_def as_client_def app_client_def buxton_direct_get_value_def stands_for_def
        sample_daemon_def)
qed

theorem unnotify_undoes_notify_witness:
  "\<exists>ctl d1 d2. register_notification memory_env (sample_daemon\<lparr>buxton := ctl\<rparr>) app_client
       (layer_key ''sys'' ''g'' (Some ''k'') BUXTON_TYPE_INT32) 77 = Inr (0, d1) \<and>
     unregister_notification d1 app_client (layer_key ''sys'' ''g'' (Some ''k'') BUXTON_TYPE_INT32) = Inr (77, 0, d2)"
proof -
  obtain ctl where c: "system_ok ctl" "same_setup sample_ctl ctl"
    "group_contents ctl (sample_layer LAYER_SYSTEM 5 ''sys'') ''g'' None = Some (group_value, zstr ''App'')"
    "group_contents ctl (sample_layer LAYER_SYSTEM 5 ''sys'') ''g'' (Some ''k'') = Some (DInt32 7, zstr ''App'')"
    using sample_stored by blast
  let ?d = "sample_daemon\<lparr>buxton := ctl\<rparr>"
  obtain d1 where r: "register_notification memory_env ?d app_client
      (layer_key ''sys'' ''g'' (Some ''k'') BUXTON_TYPE_INT32) 77 = Inr (0, d1)"
    using sample_get_stored[OF c]
    by (auto simp: register_notification_def sample_key_name append_entry_def put_or_abort_def hm_put_def
        sample_daemon_def)
  have "entries (notify_mapping ?d) (''g'' @ CHR 0x0A # ''k'') = []"
    by (simp add: sample_daemon_def entries_def)
  from unnotify_undoes_notify[OF sample_registry(2) app_known(2) r sample_key_name, unfolded this] show ?thesis
    using r by auto
qed

end
