(* ===== verification/Request_Props.thy ===== *)
theory Request_Props
  imports Daemon_Props
begin

text \<open>
  A request from its bytes to its answer (\<open>buxtond_handle_message\<close>), and a stream of requests cut into
  arbitrary pieces (\<open>handle_client\<close>).
\<close>

section \<open>One answer per request\<close>

lemma notify_loop_out:
  "notify_loop fd v ns = Inr (ns', out) \<Longrightarrow> (f, b) \<in> set out \<Longrightarrow>
   \<exists>n \<in> set ns. fd (n_client n) = Some f \<and> changed_message n v = Inr (Some b)"
proof (induction ns arbitrary: ns' out)
  case Nil
  then show ?case by simp
next
  case (Cons n ns)
  obtain r where r: "notify_item v n = Inr r" using Cons.prems(1) by (auto simp: res_simps)
  show ?case
  proof (cases r)
    case None
    then obtain ns1 where "notify_loop fd v ns = Inr (ns1, out)"
      using Cons.prems(1) r by (auto simp: res_simps)
    then show ?thesis using Cons.IH Cons.prems(2) by fastforce
  next
    case (Some x)
    obtain n1 m where x: "x = (n1, m)" by (cases x)
    have t: "tell v n = Inr (n1, m)" using r Some x by (auto simp: notify_item_def res_simps split: if_splits)
    obtain g where g: "fd (n_client n) = Some g"
      using Cons.prems(1) r Some x by (cases "fd (n_client n)") auto
    obtain ns1 out1 where l: "notify_loop fd v ns = Inr (ns1, out1)" "out = (g, m) # out1"
      using Cons.prems(1) r Some x g by (auto simp: res_simps)
    show ?thesis using Cons.IH[OF l(1)] Cons.prems(2) l(2) g tell_message[OF t] by auto
  qed
qed

lemma notify_clients_sent:
  assumes "buxtond_notify_clients self key v = Inr d"
  shows "buxton d = buxton self \<and> (\<exists>out. sent d = sent self @ out \<and>
    list_all (\<lambda>m. \<exists>k. notify_key_name key = Inr (Some k) \<and>
       (\<exists>n \<in> set (entries (notify_mapping self) k). fd_of self (n_client n) = Some (fst m) \<and>
          changed_message n v = Inr (Some (snd m)))) out)"
proof -
  obtain name where name: "notify_key_name key = Inr name"
    using assms by (auto simp: buxtond_notify_clients_def res_simps)
  show ?thesis
  proof (cases "\<exists>k ns. name = Some k \<and> hm_get (notify_mapping self) k = Some ns")
    case False
    then have "d = self"
      using assms name by (auto simp: buxtond_notify_clients_def split: option.splits)
    then show ?thesis by simp
  next
    case True
    then obtain k ns where k: "name = Some k" "hm_get (notify_mapping self) k = Some ns" by blast
    obtain ns' out where l: "notify_loop (fd_of self) v ns = Inr (ns', out)"
        "d = self\<lparr>notify_mapping := hm_set (notify_mapping self) k ns', sent := sent self @ out\<rparr>"
      using assms name k by (auto simp: buxtond_notify_clients_def res_simps)
    have "entries (notify_mapping self) k = ns" using k(2) by (simp add: entries_def)
    then show ?thesis using notify_loop_out[OF l(1)] name k(1) l(2) by (fastforce simp: list_all_iff)
  qed
qed

text \<open>Which of the daemon's parts a set or an unset of a value leaves alone.\<close>

lemma value_ops_only:
  assumes "run_request env self client msg msgid key v = Inr (Some (oc, d))"
    "msg = CONTROL_SET \<or> msg = CONTROL_UNSET"
  shows "d = self\<lparr>buxton := buxton d\<rparr>"
proof -
  have "status_of self r = Inr (st, d') \<Longrightarrow> d' = self\<lparr>buxton := buxton d'\<rparr>" for r st d'
    by (auto simp: status_of_def res_simps)
  then have "daemon_set_value env self client key v = Inr (st, d') \<Longrightarrow> d' = self\<lparr>buxton := buxton d'\<rparr>"
    "daemon_unset_value env self client key = Inr (st, d') \<Longrightarrow> d' = self\<lparr>buxton := buxton d'\<rparr>" for st d'
    by (auto simp: daemon_set_value_def daemon_unset_value_def res_simps split: option.splits if_splits)
  then show ?thesis
    using assms by (auto simp: run_request_def res_simps Let_def)
qed

lemma reply_starts_with_status:
  "reply_params msg oc = Inr ps \<Longrightarrow> \<exists>xs. ps = DInt32 (word_of_int (o_response oc)) # xs"
  by (auto simp: reply_params_def Let_def split: BuxtonControlMessage.splits if_splits)

lemma accepted_runs:
  "parse_list msg ps = Some (key, v) \<Longrightarrow> run_request env self client msg msgid key v = Inr r \<Longrightarrow> r \<noteq> None"
  by (auto simp: run_request_def res_simps Let_def split: BuxtonControlMessage.splits option.splits BuxtonData.splits)

text \<open>What \<open>answer\<close> sends: the reply, then only notifications of a successful set or unset.\<close>

definition changed_note :: "'s BuxtonDaemon \<Rightarrow> BuxtonKey \<Rightarrow> BuxtonControlMessage \<Rightarrow> BuxtonData option \<Rightarrow>
    int \<times> bytes \<Rightarrow> bool" where
  "changed_note self key msg v m \<longleftrightarrow> (\<exists>k. notify_key_name key = Inr (Some k) \<and>
     (\<exists>n \<in> set (entries (notify_mapping self) k). fd_of self (n_client n) = Some (fst m) \<and>
        changed_message n (if msg = CONTROL_SET then v else None) = Inr (Some (snd m))))"

lemma answer_sends:
  assumes "answer env writes self client msg msgid key v = Inr (ret, d)" "registry_ok self" "known self client"
    "parse_list msg ps = Some (key, v)"
  shows "\<exists>st xs reply news. serialize_reply msgid (DInt32 st # xs) = Inr reply \<and>
    sent d = sent self @ (cl_fd client, reply) # news \<and>
    (\<exists>oc d1. run_request env self client msg msgid key v = Inr (Some (oc, d1)) \<and>
       reply_params msg oc = Inr (DInt32 st # xs) \<and> st = word_of_int (o_response oc)) \<and>
    ret = writes (sent self @ [(cl_fd client, reply)]) \<and> list_all (changed_note self key msg v) news \<and>
    (news \<noteq> [] \<longrightarrow> ret \<and> st = 0 \<and> (msg = CONTROL_SET \<or> msg = CONTROL_UNSET))"
proof -
  obtain r where r: "run_request env self client msg msgid key v = Inr r"
    using assms(1) by (auto simp: answer_def res_simps)
  obtain oc d1 where x: "r = Some (oc, d1)" using accepted_runs[OF assms(4) r] by (cases r) auto
  note r = r[unfolded x]
  obtain params reply where p: "reply_params msg oc = Inr params" "serialize_reply msgid params = Inr reply"
    using assms(1) r by (auto simp: answer_def res_simps)
  obtain xs where xs: "params = DInt32 (word_of_int (o_response oc)) # xs"
    using reply_starts_with_status[OF p(1)] by blast
  have s1: "sent d1 = sent self" by (rule run_request_sent[OF r assms(3,2)])
  let ?d2 = "d1\<lparr>sent := sent self @ [(cl_fd client, reply)]\<rparr>"
  let ?ok = "writes (sent self @ [(cl_fd client, reply)])"
  have a: "(if \<not> ?ok then Inr (False, ?d2)
       else bindE (if msg = CONTROL_SET \<and> o_response oc = 0 then buxtond_notify_clients ?d2 key v
                   else if msg = CONTROL_UNSET \<and> o_response oc = 0 then buxtond_notify_clients ?d2 key None
                   else Inr ?d2) (\<lambda>d3. Inr (True, d3))) = Inr (ret, d)"
    using assms(1) r p by (simp add: answer_def Let_def s1 split del: if_split cong: if_cong)
  show ?thesis
  proof (cases "?ok \<and> (msg = CONTROL_SET \<or> msg = CONTROL_UNSET) \<and> o_response oc = 0")
    case False
    then have "sent d = sent self @ [(cl_fd client, reply)]" "ret = ?ok"
      using a by (auto split: if_splits)
    then show ?thesis using p xs r by auto
  next
    case True
    then have n: "buxtond_notify_clients ?d2 key (if msg = CONTROL_SET then v else None) = Inr d" "ret"
      using a by (auto simp: res_simps split: if_splits)
    have same: "d1 = self\<lparr>buxton := buxton d1\<rparr>" using value_ops_only[OF r] True by blast
    have e: "notify_mapping d1 = notify_mapping self" "client_list d1 = client_list self"
      by (subst same, simp)+
    have fd: "fd_of ?d2 = fd_of self" by (simp add: fd_of_def fun_eq_iff e)
    obtain out where o: "sent d = (sent self @ [(cl_fd client, reply)]) @ out"
      "list_all (changed_note self key msg v) out"
      using notify_clients_sent[OF n(1)] by (auto simp add: changed_note_def[abs_def] fd e)
    have "params = DInt32 0 # xs" using xs True by simp
    then show ?thesis using p o n(2) True r by (intro exI[of _ 0] exI[of _ xs]) auto
  qed
qed

text \<open>C20. A message that the daemon handles without fault is either refused (it does not decode, or its
  parameters fit no request) and then nothing at all is sent; or it is answered: the first thing sent is
  one STATUS reply to the client that asked, carrying the request's own message id and a status, and
  after it only CHANGED messages follow, each to a registration of the key, and only when a SET or UNSET
  succeeded and its reply could be written. The daemon has its own uid back afterwards.\<close>

theorem request_answered_once:
  assumes "registry_ok self" "known self client" "buxtond_handle_message env writes self client data sz = Inr (ret, d)"
  shows "client_uid (buxton d) = client_uid (buxton self) \<and>
    (\<exists>out. sent d = sent self @ out \<and>
      (case buxton_deserialize_message data sz of
         Inl _ \<Rightarrow> False
       | Inr None \<Rightarrow> out = [] \<and> \<not> ret
       | Inr (Some (msg, msgid, ps)) \<Rightarrow>
           (case parse_list msg ps of
              None \<Rightarrow> out = [] \<and> \<not> ret
            | Some (key, v) \<Rightarrow>
                \<exists>st xs reply news. out = (cl_fd client, reply) # news \<and>
                  serialize_reply msgid (DInt32 st # xs) = Inr reply \<and>
                  ret = writes (sent self @ [(cl_fd client, reply)]) \<and>
                  list_all (changed_note self key msg v) news \<and>
                  (news \<noteq> [] \<longrightarrow> ret \<and> st = 0 \<and> (msg = CONTROL_SET \<or> msg = CONTROL_UNSET)))))"
proof (cases "buxton_deserialize_message data sz")
  case (Inl f)
  then show ?thesis using assms(3) by (simp add: buxtond_handle_message_def Let_def)
next
  case (Inr m)
  show ?thesis
  proof (cases "\<exists>msg msgid ps key v. m = Some (msg, msgid, ps) \<and> parse_list msg ps = Some (key, v)")
    case False
    then have "sent d = sent self \<and> \<not> ret \<and> client_uid (buxton d) = client_uid (buxton self)"
      using assms(3) Inr by (auto simp: buxtond_handle_message_def Let_def split: option.splits)
    then show ?thesis using Inr False by (auto split: option.splits)
  next
    case True
    then obtain msg msgid ps key v where m: "m = Some (msg, msgid, ps)" "parse_list msg ps = Some (key, v)" by blast
    obtain d1 where a: "answer env writes self client msg msgid key v = Inr (ret, d1)"
      and d: "d = d1\<lparr>buxton := (buxton d1)\<lparr>client_uid := client_uid (buxton self)\<rparr>\<rparr>"
      using assms(3) Inr m by (auto simp: buxtond_handle_message_def Let_def res_simps)
    obtain st xs reply news where o: "serialize_reply msgid (DInt32 st # xs) = Inr reply"
      "sent d1 = sent self @ (cl_fd client, reply) # news"
      "ret = writes (sent self @ [(cl_fd client, reply)])" "list_all (changed_note self key msg v) news"
      "news \<noteq> [] \<longrightarrow> ret \<and> st = 0 \<and> (msg = CONTROL_SET \<or> msg = CONTROL_UNSET)"
      using answer_sends[OF a assms(1,2) m(2)] by blast
    then show ?thesis
      using Inr m d by (intro conjI exI[of _ "(cl_fd client, reply) # news"]) auto
  qed
qed

text \<open>A request to end a registration that does not exist.\<close>

definition unnotify_params :: "BuxtonData list" where
  "unnotify_params = [DString (buxton_string_pack ''g''), DString (buxton_string_pack ''k''), DUInt32 5]"

lemma unnotify_wire: "\<forall>d \<in> set unnotify_params. wire_ok d"
  by (simp add: unnotify_params_def wire_string_def str_exact_def buxton_string_pack_def zstr_def)

lemma status_reply: "\<exists>b. serialize_reply m [DInt32 st, DUInt32 w] = Inr b"
proof -
  have "\<forall>d \<in> set [DInt32 st, DUInt32 w]. wire_ok d" by simp
  then show ?thesis
    unfolding serialize_reply_def by (rule message_roundtrip_lemma[of _ CONTROL_STATUS m]) simp_all
qed

lemma sample_unnotify:
  "\<exists>b d. buxton_deserialize_message b (length b) = Inr (Some (CONTROL_UNNOTIFY, 9, unnotify_params)) \<and>
     buxtond_handle_message memory_env (\<lambda>_. True) sample_daemon app_client b (length b) = Inr (True, d)"
proof -
  obtain body where
    b: "buxton_deserialize_message (le_bytes 2 BUXTON_CONTROL_CODE @ le_bytes 2 (control_code CONTROL_UNNOTIFY) @
       le_bytes 4 (16 + length body) @ w32_bytes 9 @ le_bytes 4 (length unnotify_params) @ body @ [])
       (16 + length body) = Inr (Some (CONTROL_UNNOTIFY, 9, unnotify_params))"
    by (rule message_roundtrip_lemma[OF unnotify_wire, of CONTROL_UNNOTIFY 9], simp add: unnotify_params_def, rule that)
  define m where "m = le_bytes 2 BUXTON_CONTROL_CODE @ le_bytes 2 (control_code CONTROL_UNNOTIFY) @
       le_bytes 4 (16 + length body) @ w32_bytes 9 @ le_bytes 4 (length unnotify_params) @ body @ []"
  have m: "buxton_deserialize_message m (length m) = Inr (Some (CONTROL_UNNOTIFY, 9, unnotify_params))"
    using b by (simp add: m_def)
  obtain reply where r: "serialize_reply 9 [DInt32 (- 1), DUInt32 0] = Inr reply" using status_reply by blast
  have p: "parse_list CONTROL_UNNOTIFY unnotify_params = Some (plain_key ''g'' (Some ''k'') 5, None)"
    by (simp add: unnotify_params_def parse_notify_def string_at_def uint32_at_def zero_key_def plain_key_def)
  have k: "notify_key_name (plain_key ''g'' (Some ''k'') 5) = Inr (Some (''g'' @ CHR 0x0A # ''k''))"
    by (simp add: notify_key_name_def plain_key_def buxton_string_pack_def eval_simps)
  have "answer memory_env (\<lambda>_. True) sample_daemon app_client CONTROL_UNNOTIFY 9
      (plain_key ''g'' (Some ''k'') 5) None = Inr (True, sample_daemon\<lparr>sent := [(6, reply)]\<rparr>)"
    using r k
    by (simp add: answer_def run_request_def unregister_notification_def sample_daemon_def
      app_client_def reply_params_def)
  then show ?thesis
    using m p by (intro exI[of _ m]) (simp add: buxtond_handle_message_def)
qed

theorem request_answered_once_witness:
  "\<exists>b d reply st xs. buxtond_handle_message memory_env (\<lambda>_. True) sample_daemon app_client b (length b) = Inr (True, d) \<and>
     sent d = [(6, reply)] \<and> serialize_reply 9 (DInt32 st # xs) = Inr reply"
proof -
  obtain b d where m: "buxton_deserialize_message b (length b) = Inr (Some (CONTROL_UNNOTIFY, 9, unnotify_params))"
    "buxtond_handle_message memory_env (\<lambda>_. True) sample_daemon app_client b (length b) = Inr (True, d)"
    using sample_unnotify by blast
  obtain key v where p: "parse_list CONTROL_UNNOTIFY unnotify_params = Some (key, v)"
    by (simp add: unnotify_params_def parse_notify_def string_at_def uint32_at_def)
  have s: "sent sample_daemon = []" "cl_fd app_client = 6" by (simp_all add: sample_daemon_def app_client_def)
  have "\<exists>reply st xs. sent d = [(6, reply)] \<and> serialize_reply 9 (DInt32 st # xs) = Inr reply"
    using request_answered_once[OF sample_registry(1) app_known(1) m(2)] m(1) p s by auto
  then show ?thesis using m(2) by blast
qed

section \<open>A stream of requests\<close>

text \<open>A handler looks at who the client is, not at its buffer.\<close>

definition same_who :: "client_list_item \<Rightarrow> client_list_item \<Rightarrow> bool" where
  "same_who a b \<longleftrightarrow> cl_id a = cl_id b \<and> cl_fd a = cl_fd b \<and> cl_uid a = cl_uid b \<and> smack_label a = smack_label b"

lemma handle_message_who:
  assumes "same_who a b"
  shows "buxtond_handle_message env writes self a data sz = buxtond_handle_message env writes self b data sz"
proof -
  have c: "as_client a self = as_client b self" "cl_id a = cl_id b" "cl_fd a = cl_fd b" "smack_label a = smack_label b"
    using assms by (simp_all add: same_who_def as_client_def)
  have g: "daemon_get_value env self a key = daemon_get_value env self b key" for key
    by (simp add: daemon_get_value_def c)
  have r: "register_notification env self a key msgid = register_notification env self b key msgid"
    "unregister_notification self a key = unregister_notification self b key" for key msgid
    unfolding register_notification_def unregister_notification_def g c by (rule refl)+
  have "run_request env self a msg msgid key v = run_request env self b msg msgid key v" for msg msgid key v
    unfolding run_request_def daemon_set_value_def daemon_set_label_def daemon_create_group_def
      daemon_remove_group_def daemon_unset_value_def daemon_get_label_def g r c by (rule refl)
  then have an: "answer env writes self a msg msgid key v = answer env writes self b msg msgid key v" for msg msgid key v
    unfolding answer_def c by presburger
  show ?thesis unfolding buxtond_handle_message_def an by (rule refl)
qed

text \<open>The specification of the loop: messages one after the other, until one of them fails.\<close>

fun serve_messages :: "'s env \<Rightarrow> ((int \<times> bytes) list \<Rightarrow> bool) \<Rightarrow> 's BuxtonDaemon \<Rightarrow> client_list_item \<Rightarrow>
    bytes list \<Rightarrow> (bool \<times> 's BuxtonDaemon) res" where
  "serve_messages env writes self cl [] = Inr (True, self)"
| "serve_messages env writes self cl (m # ms) =
     bindE (buxtond_handle_message env writes self cl m (length m)) (\<lambda>(ok, d).
       if ok then serve_messages env writes d cl ms else Inr (False, d))"

text \<open>A message whose header gives its length, which is more than the 8 bytes that are read first.\<close>

definition framed :: "bytes \<Rightarrow> bool" where
  "framed m \<longleftrightarrow> 8 < length m \<and> length m \<le> BUXTON_MESSAGE_MAX_LENGTH \<and>
     buxton_get_message_size m (length m) = Inr (length m)"

lemma framed_size:
  assumes "framed m" "8 \<le> length b" "take 8 b = take 8 m"
  shows "buxton_get_message_size b 8 = Inr (length m)"
proof -
  have "take 4 (drop 4 b) = take 4 (drop 4 m)"
    using arg_cong[OF assms(3), of "drop 4"] by (simp add: drop_take)
  then show ?thesis
    using assms by (auto simp: framed_def buxton_get_message_size_def rd_def split: if_splits)
qed

text \<open>Between two reads, inside the message \<open>m\<close> of which \<open>cl_offset\<close> bytes are there.\<close>

definition reading :: "client_list_item \<Rightarrow> bytes \<Rightarrow> bool" where
  "reading cl m \<longleftrightarrow> cl_data cl \<noteq> None \<and> take (cl_offset cl) (buffer cl) = take (cl_offset cl) m \<and>
     cl_offset cl < cl_size cl \<and>
     (if cl_offset cl < 8 then cl_size cl = 8 \<and> 8 \<le> length (buffer cl)
      else cl_size cl = length m \<and> length (buffer cl) = length m)"

lemma poke_reading:
  assumes "reading cl m" "framed m" "length b \<le> cl_size cl - cl_offset cl"
    "b = take (length b) (drop (cl_offset cl) m)"
  shows "\<exists>cl1. poke cl (cl_offset cl) b = Inr cl1 \<and> same_who cl1 cl \<and> cl_data cl1 \<noteq> None \<and>
    cl_size cl1 = cl_size cl \<and> length (buffer cl1) = length (buffer cl) \<and>
    take (cl_offset cl + length b) (buffer cl1) = take (cl_offset cl + length b) m"
proof -
  obtain d where d: "cl_data cl = Some d" using assms(1) by (auto simp: reading_def)
  have l: "cl_offset cl + length b \<le> length d"
    using assms(1,3) d by (auto simp: reading_def buffer_def split: if_splits)
  have "take (cl_offset cl) d = take (cl_offset cl) m" using assms(1) d by (simp add: reading_def buffer_def)
  then have "take (cl_offset cl) d @ b = take (cl_offset cl + length b) m"
    by (subst assms(4)) (simp add: take_add)
  then show ?thesis
    using d l by (auto simp: poke_def same_who_def buffer_def)
qed

lemma sock_read_blocks:
  assumes "bs \<noteq> []" "[] \<notin> set bs" "0 < n"
  obtains b bs' where "sock_read n (map Bytes bs) = (Got b, map Bytes bs')" "b \<noteq> []" "length b \<le> n"
    "[] \<notin> set bs'" "concat bs = b @ concat bs'"
proof -
  obtain c cs where c: "bs = c # cs" using assms(1) by (cases bs) auto
  then have ne: "c \<noteq> []" "[] \<notin> set cs" using assms(2) by auto
  show ?thesis
  proof (cases "length c \<le> n")
    case True
    then show ?thesis using that[of c cs] c ne by simp
  next
    case False
    then show ?thesis using that[of "take n c" "drop n c # cs"] c ne assms(3) by simp
  qed
qed

lemma resize_fields [simp]:
  "cl_offset (resize junk sz c) = cl_offset c" "cl_size (resize junk sz c) = sz"
  "cl_id (resize junk sz c) = cl_id c" "cl_fd (resize junk sz c) = cl_fd c"
  "cl_uid (resize junk sz c) = cl_uid c" "smack_label (resize junk sz c) = smack_label c"
  by (simp_all add: resize_def grow_def)

lemma buffer_offset [simp]: "buffer (c\<lparr>cl_offset := x\<rparr>) = buffer c"
  by (simp add: buffer_def)

lemma resize_buffer:
  "sz \<noteq> 8 \<Longrightarrow> buffer (resize junk sz c) = take sz (buffer c) @ map junk [length (buffer c) ..< sz]"
  "sz \<noteq> 8 \<Longrightarrow> cl_data (resize junk sz c) \<noteq> None"
  by (simp_all add: resize_def grow_def buffer_def)

text \<open>One turn of the loop that got \<open>b\<close> while it reads \<open>m\<close>.\<close>

lemma client_loop_turn:
  assumes "reading cl m" "framed m" "sock_read (cl_size cl - cl_offset cl) sock = (Got b, rest)" "b \<noteq> []"
    "length b \<le> cl_size cl - cl_offset cl" "b = take (length b) (drop (cl_offset cl) m)"
  shows "\<exists>cl1. same_who cl1 cl \<and>
    (if cl_offset cl + length b < length m
     then reading cl1 m \<and> cl_offset cl1 = cl_offset cl + length b \<and>
       client_loop env writes junk limit self cl sock = client_loop env writes junk limit self cl1 rest
     else cl_data cl1 \<noteq> None \<and> 8 \<le> length (buffer cl1) \<and>
       client_loop env writes junk limit self cl sock =
         bindE (buxtond_handle_message env writes self cl m (length m)) (\<lambda>(ok, d).
           if \<not> ok then Inr (Terminate, d)
           else if limit - 1 \<noteq> 0 then client_loop env writes junk (limit - 1) d (rewind cl1) rest
           else Inr (Cleanup (sock_peek 2 rest \<noteq> []), d)))"
proof -
  obtain cl0 where p: "poke cl (cl_offset cl) b = Inr cl0" "same_who cl0 cl" "cl_data cl0 \<noteq> None"
    "cl_size cl0 = cl_size cl" "length (buffer cl0) = length (buffer cl)"
    "take (cl_offset cl + length b) (buffer cl0) = take (cl_offset cl + length b) m"
    using poke_reading[OF assms(1,2,5,6)] by blast
  let ?o = "cl_offset cl + length b"
  let ?cl1 = "cl0\<lparr>cl_offset := ?o\<rparr>"
  have lm: "8 < length m" "length m \<le> BUXTON_MESSAGE_MAX_LENGTH" using assms(2) by (simp_all add: framed_def)
  have w: "same_who (cl0\<lparr>cl_offset := x\<rparr>) cl" "same_who (cl0\<lparr>cl_offset := x, cl_data := y, cl_size := z\<rparr>) cl" for x y z
    using p(2) by (simp_all add: same_who_def)
  have turn: "client_loop env writes junk limit self cl sock =
      (if ?o < 8 then client_loop env writes junk limit self ?cl1 rest
       else bindE (frame_size ?cl1) (\<lambda>sz.
         if cl_size cl = 8 \<and> (sz = 0 \<or> BUXTON_MESSAGE_MAX_LENGTH < sz) then Inr (Terminate, self)
         else let cl2 = resize junk sz ?cl1
           in if ?o < sz then client_loop env writes junk limit self cl2 rest
              else if sz < ?o then Inl Aborted
              else bindE (buxtond_handle_message env writes self cl2 (buffer cl2) sz) (\<lambda>(ok, d).
                if \<not> ok then Inr (Terminate, d)
                else if limit - 1 \<noteq> 0 then client_loop env writes junk (limit - 1) d (rewind cl2) rest
                else Inr (Cleanup (sock_peek 2 rest \<noteq> []), d))))"
    by (subst client_loop.simps) (simp add: assms(3,4) p(1,4) Let_def cong: if_cong)
  show ?thesis
  proof (cases "?o < 8")
    case True
    then have "reading ?cl1 m"
      using assms(1,5) p(3-6) by (auto simp: reading_def)
    then show ?thesis
      using turn True w(1) lm by (intro exI[of _ ?cl1]) simp
  next
    case False
    have big: "length m \<noteq> 8" "m \<noteq> []" using lm by auto
    have fs: "frame_size ?cl1 = Inr (length m) \<and> ?o \<le> length m \<and> 8 \<le> length (buffer cl0) \<and>
        (cl_size cl = 8 \<longrightarrow> ?o = 8) \<and> (cl_size cl \<noteq> 8 \<longrightarrow> length (buffer cl0) = length m)"
    proof (cases "cl_offset cl < 8")
      case True
      then have c: "cl_size cl = 8" "8 \<le> length (buffer cl0)" using assms(1) p(5) by (simp_all add: reading_def)
      then have o: "?o = 8" using True False assms(5) by simp
      have "buxton_get_message_size (buffer cl0) 8 = Inr (length m)"
        by (rule framed_size[OF assms(2) c(2)]) (use p(6) o in simp)
      then show ?thesis using c o p(4) lm by (simp add: frame_size_def)
    next
      case later: False
      then have "cl_size cl = length m" "length (buffer cl0) = length m"
        using assms(1) p(5) by (simp_all add: reading_def)
      moreover have "cl_offset cl < cl_size cl" using assms(1) by (simp add: reading_def)
      ultimately show ?thesis using p(4) big lm assms(5) by (simp add: frame_size_def)
    qed
    let ?cl2 = "resize junk (length m) ?cl1"
    have w2: "same_who ?cl2 cl" using p(2) by (simp add: same_who_def)
    have b2: "length (buffer ?cl2) = length m" "cl_data ?cl2 \<noteq> None"
      using resize_buffer[OF big(1), of junk ?cl1] by (simp_all add:)
    have t2: "take ?o (buffer ?cl2) = take ?o m"
    proof -
      have "?o \<le> length (buffer cl0)" using fs by auto
      then have "take ?o (buffer ?cl2) = take ?o (buffer cl0)"
        using fs resize_buffer(1)[OF big(1), of junk ?cl1] by (simp add:)
      then show ?thesis using p(6) by simp
    qed
    show ?thesis
    proof (cases "?o < length m")
      case True
      have "reading ?cl2 m" using b2 t2 True False by (simp add: reading_def)
      then show ?thesis using turn fs False True w2 lm big by (intro exI[of _ ?cl2]) (simp add: Let_def)
    next
      case end_of: False
      then have o: "?o = length m" using fs by simp
      then have m: "buffer ?cl2 = m" using t2 b2(1) by simp
      have "buxtond_handle_message env writes self ?cl2 m (length m) =
          buxtond_handle_message env writes self cl m (length m)" by (rule handle_message_who[OF w2])
      then show ?thesis
        using turn fs False end_of w2 lm b2 m big by (intro exI[of _ ?cl2]) (simp add: Let_def)
    qed
  qed
qed

lemma serve_messages_who:
  "same_who a b \<Longrightarrow> serve_messages env writes self a ms = serve_messages env writes self b ms"
proof (induction ms arbitrary: self)
  case Nil
  then show ?case by simp
next
  case (Cons m ms)
  show ?case
    unfolding serve_messages.simps handle_message_who[OF Cons.prems] Cons.IH[OF Cons.prems] by (rule refl)
qed

lemma client_loop_stream:
  assumes "[] \<notin> set bs" "list_all framed ms" "length ms < limit" "framed m'" "k < length m'"
    "concat bs = drop (cl_offset cl) (concat ms @ take k m')" "reading cl (hd (ms @ [m']))"
  shows "client_loop env writes junk limit self cl (map Bytes bs) =
    bindE (serve_messages env writes self cl ms) (\<lambda>(ok, d). Inr (if ok then Cleanup False else Terminate, d))"
  using assms
proof (induction "length (concat bs)" arbitrary: bs ms limit self cl rule: less_induct)
  case less
  define m where "m = hd (ms @ [m'])"
  have fm: "framed m" using less.prems(2,4) by (cases ms) (simp_all add: m_def)
  have rm: "reading cl m" using less.prems(7) by (simp add: m_def)
  have o: "cl_offset cl < cl_size cl" "cl_size cl \<le> length m"
    using rm fm by (auto simp: reading_def framed_def split: if_splits)
  define whole where "whole = (if ms = [] then take k m' else m @ concat (tl ms) @ take k m')"
  have cb: "concat bs = drop (cl_offset cl) whole"
    using less.prems(6) by (cases ms) (simp_all add: whole_def m_def)
  show ?case
  proof (cases "bs = []")
    case True
    have "ms = []"
    proof (rule ccontr)
      assume "ms \<noteq> []"
      then show False using cb True o by (simp add: whole_def)
    qed
    then show ?thesis using True by (simp add: client_loop.simps[of env])
  next
    case False
    then obtain b bs' where b: "sock_read (cl_size cl - cl_offset cl) (map Bytes bs) = (Got b, map Bytes bs')"
      "b \<noteq> []" "length b \<le> cl_size cl - cl_offset cl" "[] \<notin> set bs'" "concat bs = b @ concat bs'"
      using sock_read_blocks[OF _ less.prems(1), of "cl_size cl - cl_offset cl"] o by auto
    have less': "length (concat bs') < length (concat bs)" using b(2,5) by simp
    have eq: "b @ concat bs' = drop (cl_offset cl) whole" using b(5) cb by simp
    have rest: "concat bs' = drop (cl_offset cl + length b) whole"
      using arg_cong[OF eq, of "drop (length b)"] by (simp add: add.commute)
    have sofar: "cl_offset cl + length b \<le> length whole"
      using arg_cong[OF eq, of length] b(2) by (cases b) auto
    have part: "b = take (length b) (drop (cl_offset cl) m)"
    proof -
      have "b = take (length b) (drop (cl_offset cl) whole)"
        using arg_cong[OF eq, of "take (length b)"] by simp
      then show ?thesis
        using b(3) o sofar by (auto simp: whole_def m_def take_drop min_def split: if_splits)
    qed
    obtain cl1 where cl1: "same_who cl1 cl" "if cl_offset cl + length b < length m
     then reading cl1 m \<and> cl_offset cl1 = cl_offset cl + length b \<and>
       client_loop env writes junk limit self cl (map Bytes bs) = client_loop env writes junk limit self cl1 (map Bytes bs')
     else cl_data cl1 \<noteq> None \<and> 8 \<le> length (buffer cl1) \<and>
       client_loop env writes junk limit self cl (map Bytes bs) =
         bindE (buxtond_handle_message env writes self cl m (length m)) (\<lambda>(ok, d).
           if \<not> ok then Inr (Terminate, d)
           else if limit - 1 \<noteq> 0 then client_loop env writes junk (limit - 1) d (rewind cl1) (map Bytes bs')
           else Inr (Cleanup (sock_peek 2 (map Bytes bs') \<noteq> []), d))"
      using client_loop_turn[OF rm fm b(1-3) part, of env writes junk limit self] by blast
    show ?thesis
    proof (cases "cl_offset cl + length b < length m")
      case True
      then have c: "reading cl1 (hd (ms @ [m']))" "cl_offset cl1 = cl_offset cl + length b"
        "client_loop env writes junk limit self cl (map Bytes bs) = client_loop env writes junk limit self cl1 (map Bytes bs')"
        using cl1(2) by (auto simp: m_def)
      have "concat bs' = drop (cl_offset cl1) (concat ms @ take k m')"
        using rest c(2) by (cases ms) (simp_all add: whole_def m_def)
      then have ih: "client_loop env writes junk limit self cl1 (map Bytes bs') =
          bindE (serve_messages env writes self cl1 ms) (\<lambda>(ok, d). Inr (if ok then Cleanup False else Terminate, d))"
        by (rule less.hyps[OF less' b(4) less.prems(2-5) _ c(1)])
      show ?thesis unfolding c(3) ih serve_messages_who[OF cl1(1)] by (rule refl)
    next
      case False
      then have "ms \<noteq> []" using sofar less.prems(5) by (auto simp: whole_def m_def)
      then obtain ms' where ms: "ms = m # ms'" by (cases ms) (auto simp: m_def)
      have lim: "limit - 1 \<noteq> 0" using less.prems(3) ms by simp
      have c: "cl_data cl1 \<noteq> None" "8 \<le> length (buffer cl1)"
        "client_loop env writes junk limit self cl (map Bytes bs) =
         bindE (buxtond_handle_message env writes self cl m (length m)) (\<lambda>(ok, d).
           if \<not> ok then Inr (Terminate, d)
           else if limit - 1 \<noteq> 0 then client_loop env writes junk (limit - 1) d (rewind cl1) (map Bytes bs')
           else Inr (Cleanup (sock_peek 2 (map Bytes bs') \<noteq> []), d))"
        using cl1(2) False by (simp_all del: diff_is_0_eq diff_is_0_eq')
      have w: "same_who (rewind cl1) cl" using cl1(1) by (simp add: same_who_def rewind_def)
      have "cl_offset cl + length b = length m" using False b(3) o by simp
      then have "concat bs' = drop (cl_offset (rewind cl1)) (concat ms' @ take k m')"
        using rest ms by (simp add: rewind_def whole_def)
      moreover have "reading (rewind cl1) (hd (ms' @ [m']))"
        using c(1,2) by (simp add: reading_def rewind_def buffer_def)
      ultimately have "client_loop env writes junk (limit - 1) d (rewind cl1) (map Bytes bs') =
          bindE (serve_messages env writes d (rewind cl1) ms') (\<lambda>(ok, d). Inr (if ok then Cleanup False else Terminate, d))" for d
        using less.hyps[OF less' b(4), of ms' "limit - 1" "rewind cl1" d] less.prems(2-5) ms by simp
      note step = this[unfolded serve_messages_who[OF w]]
      show ?thesis
        unfolding c(3) step ms serve_messages.simps
        by (cases "buxtond_handle_message env writes self cl m (length m)")
          (use lim in \<open>auto split: prod.splits simp del: diff_is_0_eq diff_is_0_eq'\<close>)
    qed
  qed
qed

text \<open>A client with the buffer \<open>buf\<close>, of which nothing has been read.\<close>

abbreviation (input) unread :: "client_list_item \<Rightarrow> bytes \<Rightarrow> client_list_item" where
  "unread c buf \<equiv> c\<lparr>cl_data := Some buf, cl_offset := 0, cl_size := 8\<rparr>"

lemma terminate_starting:
  "terminate_client d (c\<lparr>cl_data := x, cl_offset := y, cl_size := z\<rparr>) i = terminate_client d c i"
proof -
  have "cl_id (c\<lparr>cl_data := x, cl_offset := y, cl_size := z\<rparr>) = cl_id c"
    "cl_fd (c\<lparr>cl_data := x, cl_offset := y, cl_size := z\<rparr>) = cl_fd c" by simp_all
  then show ?thesis unfolding terminate_client_def by metis
qed

lemma authenticate_starting:
  "authenticate peer (unread c buf) = bindE (authenticate peer c) (\<lambda>a. Inr (map_option (\<lambda>w. unread w buf) a))"
  by (auto simp: authenticate_def bindE_def split: option.splits sum.splits prod.splits)

text \<open>The call up to the loop: it looks at the first bytes, and finds out who the client is.\<close>

lemma handle_client_starts:
  assumes "cl_data cl = None" "i < length (pollfds self)" "pfd (pollfds self ! i) = cl_fd cl"
    "socks (cl_fd cl) = map Bytes bs" "[] \<notin> set bs" "bs \<noteq> []"
  obtains buf where "length buf = 8" "handle_client env writes junk peer socks self cl i =
      bindE (authenticate peer cl) (\<lambda>a. case a of
        None \<Rightarrow> bindE (terminate_client self cl i) (\<lambda>d'. Inr (False, d'))
      | Some w \<Rightarrow> bindE (client_loop env writes junk 32 self (unread w buf) (map Bytes bs)) (\<lambda>(e, d). case e of
          Terminate \<Rightarrow> bindE (terminate_client d w i) (\<lambda>d'. Inr (False, d'))
        | Cleanup more_data \<Rightarrow> Inr (more_data, put_client (w\<lparr>cl_data := None, cl_size := 8, cl_offset := 0\<rparr>) d)))"
proof -
  obtain b bs' where b: "bs = b # bs'" using assms(6) by (cases bs) auto
  then have "b \<noteq> []" using assms(5) by auto
  let ?seen = "take 8 b"
  define buf where "buf = ?seen @ drop (length ?seen) (replicate 8 NUL)"
  have p: "poke (unread cl (replicate 8 NUL)) 0 ?seen = Inr (unread cl buf)" by (simp add: poke_def buf_def)
  have seen: "sock_peek 8 (map Bytes bs) = ?seen" using b by simp
  have put: "(unread w buf)\<lparr>cl_data := None, cl_size := 8, cl_offset := 0\<rparr> =
      w\<lparr>cl_data := None, cl_size := 8, cl_offset := 0\<rparr>" for w by simp
  have "handle_client env writes junk peer socks self cl i =
      bindE (authenticate peer (unread cl buf)) (\<lambda>a. case a of
        None \<Rightarrow> bindE (terminate_client self (unread cl buf) i) (\<lambda>d'. Inr (False, d'))
      | Some w \<Rightarrow> bindE (client_loop env writes junk 32 self w (map Bytes bs)) (\<lambda>(e, d). case e of
          Terminate \<Rightarrow> bindE (terminate_client d w i) (\<lambda>d'. Inr (False, d'))
        | Cleanup more_data \<Rightarrow> Inr (more_data, put_client (w\<lparr>cl_data := None, cl_size := 8, cl_offset := 0\<rparr>) d)))"
    unfolding handle_client_def Let_def if_P[OF assms(1)]
    using assms(2,3) \<open>b \<noteq> []\<close> by (simp add: assms(4) seen p del: list.map cong: if_cong)
  then have run: "handle_client env writes junk peer socks self cl i =
      bindE (authenticate peer cl) (\<lambda>a. case a of
        None \<Rightarrow> bindE (terminate_client self cl i) (\<lambda>d'. Inr (False, d'))
      | Some w \<Rightarrow> bindE (client_loop env writes junk 32 self (unread w buf) (map Bytes bs)) (\<lambda>(e, d). case e of
          Terminate \<Rightarrow> bindE (terminate_client d w i) (\<lambda>d'. Inr (False, d'))
        | Cleanup more_data \<Rightarrow> Inr (more_data, put_client (w\<lparr>cl_data := None, cl_size := 8, cl_offset := 0\<rparr>) d)))"
    unfolding authenticate_starting bindE_assoc bindE_Inr terminate_starting
    by (auto simp: option.case_eq_if terminate_starting intro!: bindE_cong split: prod.splits loop_end.splits)
  moreover have "length buf = 8" by (simp add: buf_def)
  ultimately show ?thesis using that by blast
qed

text \<open>C21. Framing, for the bytes that can be read during one call, root's included and a connection's
  first ones: they come in pieces of any sizes, and make up to 31 messages, possibly followed by the
  beginning of another. The client is identified when its uid or pid is not known yet (\<open>authenticate\<close>);
  then the messages are handled whole, each once and in order, until one fails, which ends the
  connection. Otherwise the connection stays with nothing kept: a message of which only a part could be read
  is dropped (the comment on it has the client resend its request), and what arrives of it later is read
  as the start of a new message.\<close>

theorem stream_reassembled:
  assumes "cl_data cl = None" "i < length (pollfds self)"
    "pfd (pollfds self ! i) = cl_fd cl" "socks (cl_fd cl) = map Bytes bs" "[] \<notin> set bs" "bs \<noteq> []"
    "concat bs = concat ms @ part" "list_all framed ms" "length ms < 32"
    "part = [] \<or> (\<exists>m k. framed m \<and> k < length m \<and> part = take k m)"
  shows "handle_client env writes junk peer socks self cl i =
    bindE (authenticate peer cl) (\<lambda>a. case a of
      None \<Rightarrow> bindE (terminate_client self cl i) (\<lambda>d. Inr (False, d))
    | Some who \<Rightarrow>
        bindE (serve_messages env writes self who ms) (\<lambda>(ok, d).
          if ok then Inr (False, put_client (who\<lparr>cl_data := None, cl_size := 8, cl_offset := 0\<rparr>) d)
          else bindE (terminate_client d who i) (\<lambda>d'. Inr (False, d'))))"
proof -
  obtain m' k where m': "framed m'" "k < length m'" "part = take k m'"
  proof (cases "part = []")
    case True
    have "concat bs \<noteq> []" using assms(5,6) by (cases bs) auto
    then obtain m ms' where ms: "ms = m # ms'" using assms(7) True by (cases ms) auto
    then have "framed m" using assms(8) by simp
    moreover have "0 < length m" using \<open>framed m\<close> by (auto simp: framed_def)
    ultimately show ?thesis using that[of m 0] True by simp
  next
    case False
    then show ?thesis using assms(10) that by blast
  qed
  obtain buf where buf: "length buf = 8" and start: "handle_client env writes junk peer socks self cl i =
      bindE (authenticate peer cl) (\<lambda>a. case a of
        None \<Rightarrow> bindE (terminate_client self cl i) (\<lambda>d'. Inr (False, d'))
      | Some w \<Rightarrow> bindE (client_loop env writes junk 32 self (unread w buf) (map Bytes bs)) (\<lambda>(e, d). case e of
          Terminate \<Rightarrow> bindE (terminate_client d w i) (\<lambda>d'. Inr (False, d'))
        | Cleanup more_data \<Rightarrow> Inr (more_data, put_client (w\<lparr>cl_data := None, cl_size := 8, cl_offset := 0\<rparr>) d)))"
    by (rule handle_client_starts[where socks = socks, OF assms(1-6)])
  have loop: "client_loop env writes junk 32 self (unread who buf) (map Bytes bs) =
      bindE (serve_messages env writes self who ms) (\<lambda>(ok, d). Inr (if ok then Cleanup False else Terminate, d))" for who
  proof -
    have r: "reading (unread who buf) (hd (ms @ [m']))" using buf by (simp add: reading_def buffer_def)
    have w: "same_who (unread who buf) who" by (simp add: same_who_def)
    have "client_loop env writes junk 32 self (unread who buf) (map Bytes bs) =
      bindE (serve_messages env writes self (unread who buf) ms) (\<lambda>(ok, d). Inr (if ok then Cleanup False else Terminate, d))"
      by (rule client_loop_stream[OF assms(5,8,9) m'(1,2) _ r]) (simp add: assms(7) m'(3))
    then show ?thesis unfolding serve_messages_who[OF w] .
  qed
  have then_served: "bindE (bindE (serve_messages env writes self w ms) (\<lambda>(ok, d). Inr (if ok then Cleanup False else Terminate, d)))
      (\<lambda>(e, d). case e of
          Terminate \<Rightarrow> bindE (terminate_client d w i) (\<lambda>d'. Inr (False, d'))
        | Cleanup more_data \<Rightarrow> Inr (more_data, put_client (w\<lparr>cl_data := None, cl_size := 8, cl_offset := 0\<rparr>) d)) =
    bindE (serve_messages env writes self w ms) (\<lambda>(ok, d).
      if ok then Inr (False, put_client (w\<lparr>cl_data := None, cl_size := 8, cl_offset := 0\<rparr>) d)
      else bindE (terminate_client d w i) (\<lambda>d'. Inr (False, d')))" for w
    by (cases "serve_messages env writes self w ms") (auto split: prod.splits)
  show ?thesis unfolding start loop then_served by (rule refl)
qed

text \<open>The first message of a new connection of a user's process, cut in two, and the first bytes of a second one.\<close>

theorem stream_reassembled_witness:
  "\<exists>m. handle_client memory_env (\<lambda>_. True) (\<lambda>_. NUL) \<lparr>peer_cred = Inr (Some (7, 70)), peer_label = Inr None\<rparr>
       (\<lambda>_. [Bytes (take 3 m), Bytes (drop 3 m @ take 5 m)]) sample_daemon (app_client\<lparr>cl_uid := 0\<rparr>) 3 =
     bindE (serve_messages memory_env (\<lambda>_. True) sample_daemon (app_client\<lparr>cl_uid := 7, cl_pid := 70, smack_label := None\<rparr>) [m])
      (\<lambda>(ok, d).
       if ok then Inr (False, put_client (app_client\<lparr>cl_uid := 7, cl_pid := 70, smack_label := None,
                                            cl_data := None, cl_size := 8, cl_offset := 0\<rparr>) d)
       else bindE (terminate_client d (app_client\<lparr>cl_uid := 7, cl_pid := 70, smack_label := None\<rparr>) 3) (\<lambda>d'. Inr (False, d')))"
proof -
  define m where "m = le_bytes 2 0x672 @ le_bytes 2 8 @ le_bytes 4 16 @ w32_bytes 1 @ le_bytes 4 0"
  have l: "length m = 16" by (simp add: m_def)
  have f: "framed m" using l by (simp add: framed_def m_def buxton_get_message_size_def rd_def)
  have ne: "drop 3 m @ take 5 m \<noteq> []" "take 3 m \<noteq> []" using l by auto
  have p: "take 5 m = [] \<or> (\<exists>n k. framed n \<and> k < length n \<and> take 5 m = take k n)"
    using f l by (intro disjI2 exI[of _ m] exI[of _ 5]) simp
  have "handle_client memory_env (\<lambda>_. True) (\<lambda>_. NUL) \<lparr>peer_cred = Inr (Some (7, 70)), peer_label = Inr None\<rparr>
       (\<lambda>_. map Bytes [take 3 m, drop 3 m @ take 5 m]) sample_daemon (app_client\<lparr>cl_uid := 0\<rparr>) 3 =
     bindE (authenticate \<lparr>peer_cred = Inr (Some (7, 70)), peer_label = Inr None\<rparr> (app_client\<lparr>cl_uid := 0\<rparr>)) (\<lambda>a. case a of
      None \<Rightarrow> bindE (terminate_client sample_daemon (app_client\<lparr>cl_uid := 0\<rparr>) 3) (\<lambda>d. Inr (False, d))
    | Some who \<Rightarrow>
        bindE (serve_messages memory_env (\<lambda>_. True) sample_daemon who [m]) (\<lambda>(ok, d).
          if ok then Inr (False, put_client (who\<lparr>cl_data := None, cl_size := 8, cl_offset := 0\<rparr>) d)
          else bindE (terminate_client d who 3) (\<lambda>d'. Inr (False, d'))))"
    using f ne by (intro stream_reassembled[OF _ _ _ refl _ _ _ _ _ p]) (auto simp: app_client_def sample_daemon_def)
  then show ?thesis by (intro exI[of _ m]) (simp add: authenticate_def)
qed

section \<open>Requests that bring the daemon down\<close>

lemma nameless_key_crash:
  assumes "key_ok key g None" "g \<noteq> []"
  shows "notify_key_name key = Inl NullDeref"
proof -
  obtain r where r: "str_value (key_group key) = Some (zstr g @ r)" "NUL \<notin> set g" "str_value (key_name key) = None"
    using assms(1) by (auto simp: key_ok_def str_holds_def)
  obtain c cs where "g = c # cs" using assms(2) by (cases g) auto
  then have "first_byte (str_value (key_group key)) = Inr c" "c \<noteq> NUL" using r by (auto simp: zstr_def)
  then show ?thesis using r(3) by (simp add: notify_key_name_def)
qed

lemma status_only_reply: "\<exists>b. serialize_reply m [DInt32 st] = Inr b"
proof -
  have "\<forall>d \<in> set [DInt32 st]. wire_ok d" by simp
  then show ?thesis
    unfolding serialize_reply_def by (rule message_roundtrip_lemma[of _ CONTROL_STATUS m]) simp_all
qed

text \<open>C22. A SET with an empty name (a string of length 0, which decodes to a NULL pointer) on a group that
  the client may write succeeds: the group's own record is overwritten with the value, nothing else
  changes, and the client is answered with status 0. When that answer could be written the daemon looks
  for listeners and dereferences the NULL name: any such client can end the daemon. When the answer could
  not be written there is no crash, and the client is ended.\<close>

theorem empty_name_set_crashes:
  assumes "system_ok (buxton self)" "key_ok key g None" "g \<noteq> []" "layer_arg slack (key_layer key) ly"
    "the_layer (as_client client self) ly = Some l" "client_as (smack_label client) ct" "data_ok d"
    "write_allowed (rules (buxton self)) ct (group_contents (buxton self) l g) None" "\<not> layer_readonly l"
  shows "\<exists>ctl reply. run_request (system_env slack root gdbm) self client CONTROL_SET msgid key (Some d) =
      Inr (Some (plain_outcome 0, self\<lparr>buxton := ctl\<rparr>)) \<and>
    all_contents ctl = kv_upd (all_contents (buxton self)) (mem_place l) g None
      (Some (as_stored d, label_after (smack_label client) (group_contents (buxton self) l g None))) \<and>
    serialize_reply msgid [DInt32 0] = Inr reply \<and>
    answer (system_env slack root gdbm) writes self client CONTROL_SET msgid key (Some d) =
      (if writes (sent self @ [(cl_fd client, reply)]) then Inl NullDeref
       else Inr (False, self\<lparr>buxton := ctl, sent := sent self @ [(cl_fd client, reply)]\<rparr>))"
proof -
  have ok: "system_ok (as_client client self)" using assms(1) by (simp add: as_client_def)
  have same: "group_contents (as_client client self) l g = group_contents (buxton self) l g"
    "all_contents (as_client client self) = all_contents (buxton self)"
    "rules (as_client client self) = rules (buxton self)"
    by (simp_all add: as_client_def group_contents_def all_contents_def)
  obtain ctl where s: "buxton_direct_set_value (system_env slack root gdbm) key d (smack_label client)
      (as_client client self) = Inr (True, ctl)"
    "all_contents ctl = kv_upd (all_contents (buxton self)) (mem_place l) g None
      (Some (as_stored d, label_after (smack_label client) (group_contents (buxton self) l g None)))"
    using sys.set_value_ok[unfolded sys_ctl_ok system_env_slack, OF ok assms(2,4,5,6,7), of root gdbm]
      assms(8,9) same by (auto simp: group_contents_def all_contents_def)
  have run: "run_request (system_env slack root gdbm) self client CONTROL_SET msgid key (Some d) =
      Inr (Some (plain_outcome 0, self\<lparr>buxton := ctl\<rparr>))"
    using s(1) by (simp add: run_request_def daemon_set_value_def status_of_def)
  obtain reply where reply: "serialize_reply msgid [DInt32 0] = Inr reply" using status_only_reply by blast
  have "answer (system_env slack root gdbm) writes self client CONTROL_SET msgid key (Some d) =
      (if writes (sent self @ [(cl_fd client, reply)]) then Inl NullDeref
       else Inr (False, self\<lparr>buxton := ctl, sent := sent self @ [(cl_fd client, reply)]\<rparr>))"
    using run reply nameless_key_crash[OF assms(2,3)]
    by (simp add: answer_def reply_params_def plain_outcome_def buxtond_notify_clients_def)
  then show ?thesis using run s(2) reply by blast
qed

theorem empty_name_set_crashes_witness:
  "\<exists>ctl reply. answer (system_env (\<lambda>_. []) None no_gdbm) (\<lambda>_. True) sample_daemon app_client CONTROL_SET 9
     (layer_key ''sys'' ''g'' None BUXTON_TYPE_STRING) (Some (DString (buxton_string_pack ''boom''))) = Inl NullDeref \<and>
   answer (system_env (\<lambda>_. []) None no_gdbm) (\<lambda>_. False) sample_daemon app_client CONTROL_SET 9
     (layer_key ''sys'' ''g'' None BUXTON_TYPE_STRING) (Some (DString (buxton_string_pack ''boom''))) =
     Inr (False, sample_daemon\<lparr>buxton := ctl, sent := [(6, reply)]\<rparr>) \<and>
   map_option fst (all_contents ctl ''sys'' ''g'' None) = Some (as_stored (DString (buxton_string_pack ''boom'')))"
proof -
  have ctl: "buxton sample_daemon = sample_ctl" "as_client app_client sample_daemon = sample_ctl"
    by (simp_all add: sample_daemon_def as_client_def app_client_def) (simp add: sample_ctl_def)
  have w: "write_allowed (rules sample_ctl) (Some ''App'')
      (group_contents sample_ctl (sample_layer LAYER_SYSTEM 5 ''sys'') ''g'') None"
    by (simp add: write_allowed_def group_contents_def sample_get sample_place sample_may)
  have c: "smack_label app_client = Some (buxton_string_pack ''App'')" by (simp add: app_client_def)
  have d: "data_ok (DString (buxton_string_pack ''boom''))"
    by (simp add: buxton_string_pack_def str_ok_def zstr_def)
  have s: "sent sample_daemon = []" "cl_fd app_client = 6" by (simp_all add: sample_daemon_def app_client_def)
  define k where "k = layer_key ''sys'' ''g'' None BUXTON_TYPE_STRING"
  have k: "key_ok k ''g'' None" "layer_arg (\<lambda>_. []) (key_layer k) ''sys''"
    unfolding k_def by (simp_all add: layer_key_ok layer_key_arg key_text_def)
  note crash = empty_name_set_crashes[where self = sample_daemon and client = app_client and slack = "\<lambda>_. []"
      and root = None and gdbm = no_gdbm and msgid = 9 and d = "DString (buxton_string_pack ''boom'')"
      and l = "sample_layer LAYER_SYSTEM 5 ''sys''" and ct = "Some ''App''",
      unfolded ctl, OF sample_ctl_ok k(1) _ k(2)]
  have "\<exists>ctl reply.
    all_contents ctl = kv_upd (all_contents sample_ctl) (mem_place (sample_layer LAYER_SYSTEM 5 ''sys'')) ''g'' None
      (Some (as_stored (DString (buxton_string_pack ''boom'')),
         label_after (smack_label app_client) (group_contents sample_ctl (sample_layer LAYER_SYSTEM 5 ''sys'') ''g'' None))) \<and>
    serialize_reply 9 [DInt32 0] = Inr reply \<and>
    answer (system_env (\<lambda>_. []) None no_gdbm) (\<lambda>_. False) sample_daemon app_client CONTROL_SET 9 k
       (Some (DString (buxton_string_pack ''boom''))) = Inr (False, sample_daemon\<lparr>buxton := ctl, sent := [(6, reply)]\<rparr>)"
    using crash[of "\<lambda>_. False"] w c d s sample_the_layer sample_client by auto
  moreover have "answer (system_env (\<lambda>_. []) None no_gdbm) (\<lambda>_. True) sample_daemon app_client CONTROL_SET 9 k
       (Some (DString (buxton_string_pack ''boom''))) = Inl NullDeref"
    using crash[of "\<lambda>_. True"] w c d s sample_the_layer sample_client by auto
  ultimately show ?thesis unfolding k_def by (auto simp: sample_place)
qed

end
