(* ===== verification/Client_Props.thy ===== *)
theory Client_Props
  imports Lbuxton Request_Props
begin

text \<open>
  The client library and the daemon together: what the daemon understands of a call, what a reply does
  in the client, and the replies of a whole connection.
\<close>

section \<open>Calls as the daemon sees them\<close>

text \<open>The calls of the client library, after the checks of \<open>lbuxton.c\<close>.\<close>

datatype wire_call =
    SetValue BuxtonKey bytes
  | SetLabel BuxtonKey BuxtonString
  | CreateGroup BuxtonKey
  | RemoveGroup BuxtonKey
  | GetValue BuxtonKey
  | GetLabel BuxtonKey
  | UnsetValue BuxtonKey
  | ListKeys BuxtonString
  | ListNames BuxtonString BuxtonString BuxtonString
  | Register BuxtonKey
  | Unregister BuxtonKey

fun send_call :: "request_env \<Rightarrow> wire_call \<Rightarrow> client_state \<Rightarrow> (bool \<times> client_state) res" where
  "send_call rq (SetValue k v) st = buxton_wire_set_value rq k v st"
| "send_call rq (SetLabel k l) st = buxton_wire_set_label rq k l st"
| "send_call rq (CreateGroup k) st = buxton_wire_create_group rq k st"
| "send_call rq (RemoveGroup k) st = buxton_wire_remove_group rq k st"
| "send_call rq (GetValue k) st = buxton_wire_get_value rq k st"
| "send_call rq (GetLabel k) st = buxton_wire_get_label rq k st"
| "send_call rq (UnsetValue k) st = buxton_wire_unset_value rq k st"
| "send_call rq (ListKeys l) st = buxton_wire_list_keys rq l st"
| "send_call rq (ListNames l g p) st = buxton_wire_list_names rq l g p st"
| "send_call rq (Register k) st = buxton_wire_register_notification rq k st"
| "send_call rq (Unregister k) st = buxton_wire_unregister_notification rq k st"

fun call_type :: "wire_call \<Rightarrow> BuxtonControlMessage" where
  "call_type (SetValue _ _) = CONTROL_SET"
| "call_type (SetLabel _ _) = CONTROL_SET_LABEL"
| "call_type (CreateGroup _) = CONTROL_CREATE_GROUP"
| "call_type (RemoveGroup _) = CONTROL_REMOVE_GROUP"
| "call_type (GetValue _) = CONTROL_GET"
| "call_type (GetLabel _) = CONTROL_GET_LABEL"
| "call_type (UnsetValue _) = CONTROL_UNSET"
| "call_type (ListKeys _) = CONTROL_LIST"
| "call_type (ListNames _ _ _) = CONTROL_LIST_NAMES"
| "call_type (Register _) = CONTROL_NOTIFY"
| "call_type (Unregister _) = CONTROL_UNNOTIFY"

fun call_key :: "wire_call \<Rightarrow> BuxtonKey option" where
  "call_key (SetValue k _) = Some k"
| "call_key (SetLabel k _) = Some k"
| "call_key (CreateGroup k) = Some k"
| "call_key (RemoveGroup k) = Some k"
| "call_key (GetValue k) = Some k"
| "call_key (GetLabel k) = Some k"
| "call_key (UnsetValue k) = Some k"
| "call_key (ListKeys _) = None"
| "call_key (ListNames _ _ _) = None"
| "call_key (Register k) = Some k"
| "call_key (Unregister k) = Some k"

text \<open>
  What the call is about, in the daemon's terms: the key that a request handler gets, and the value.
  Notifications are not per layer, a label is not typed, and a group has the type of a string.
\<close>

fun meant :: "wire_call \<Rightarrow> (BuxtonKey \<times> BuxtonData option) option" where
  "meant (SetValue k v) = (case value_behind (key_type k) v of Inr d \<Rightarrow> Some (k, Some d) | Inl _ \<Rightarrow> None)"
| "meant (SetLabel k l) = Some (k\<lparr>key_type := BUXTON_TYPE_UNSET\<rparr>, Some (DString l))"
| "meant (CreateGroup k) = Some (k\<lparr>key_name := null_string, key_type := BUXTON_TYPE_STRING\<rparr>, None)"
| "meant (RemoveGroup k) = Some (k\<lparr>key_name := null_string, key_type := BUXTON_TYPE_STRING\<rparr>, None)"
| "meant (GetValue k) = Some (k, None)"
| "meant (GetLabel k) = Some (k\<lparr>key_type := BUXTON_TYPE_UNSET\<rparr>, None)"
| "meant (UnsetValue k) = Some (k, None)"
| "meant (ListKeys _) = None"
| "meant (ListNames l g p) = Some (zero_key\<lparr>key_layer := l, key_group := g, key_name := p\<rparr>, None)"
| "meant (Register k) = Some (k\<lparr>key_layer := null_string\<rparr>, None)"
| "meant (Unregister k) = Some (k\<lparr>key_layer := null_string\<rparr>, None)"

definition wire_key :: "BuxtonKey \<Rightarrow> bool" where
  "wire_key k \<longleftrightarrow> wire_string (key_group k) \<and> wire_string (key_name k) \<and> wire_string (key_layer k)"

text \<open>Strings as \<open>buxton_string_pack\<close> makes them (or NULL), and a value of the type of its key.\<close>

fun sendable :: "wire_call \<Rightarrow> bool" where
  "sendable (SetValue k v) \<longleftrightarrow> wire_key k \<and>
     (case value_behind (key_type k) v of Inr d \<Rightarrow> wire_ok d \<and> data_type d = key_type k | Inl _ \<Rightarrow> False)"
| "sendable (SetLabel k l) \<longleftrightarrow> wire_key k \<and> wire_string l"
| "sendable (ListKeys l) \<longleftrightarrow> wire_string l"
| "sendable (ListNames l g p) \<longleftrightarrow> wire_string l \<and> wire_string g \<and> wire_string p"
| "sendable (CreateGroup k) \<longleftrightarrow> wire_key k"
| "sendable (RemoveGroup k) \<longleftrightarrow> wire_key k"
| "sendable (GetValue k) \<longleftrightarrow> wire_key k"
| "sendable (GetLabel k) \<longleftrightarrow> wire_key k"
| "sendable (UnsetValue k) \<longleftrightarrow> wire_key k"
| "sendable (Register k) \<longleftrightarrow> wire_key k"
| "sendable (Unregister k) \<longleftrightarrow> wire_key k"

text \<open>The parameters of a request.\<close>

fun call_params :: "wire_call \<Rightarrow> BuxtonData list" where
  "call_params (SetValue k v) = [DString (key_layer k), DString (key_group k), DString (key_name k),
     (case value_behind (key_type k) v of Inr d \<Rightarrow> d | Inl _ \<Rightarrow> DZero)]"
| "call_params (SetLabel k l) = [DString (key_layer k), DString (key_group k)] @
     (if str_value (key_name k) \<noteq> None then [DString (key_name k)] else []) @ [DString l]"
| "call_params (CreateGroup k) = [DString (key_layer k), DString (key_group k)]"
| "call_params (RemoveGroup k) = [DString (key_layer k), DString (key_group k)]"
| "call_params (GetValue k) = (if str_value (key_layer k) \<noteq> None then [DString (key_layer k)] else []) @
     [DString (key_group k), DString (key_name k), DUInt32 (key_type k)]"
| "call_params (GetLabel k) = [DString (key_layer k), DString (key_group k)] @
     (if str_value (key_name k) \<noteq> None then [DString (key_name k)] else [])"
| "call_params (UnsetValue k) =
     [DString (key_layer k), DString (key_group k), DString (key_name k), DUInt32 (key_type k)]"
| "call_params (ListKeys l) = [DString l]"
| "call_params (ListNames l g p) = [DString l, DString g, DString p]"
| "call_params (Register k) = [DString (key_group k), DString (key_name k), DUInt32 (key_type k)]"
| "call_params (Unregister k) = [DString (key_group k), DString (key_name k), DUInt32 (key_type k)]"

lemma send_call_request:
  assumes "sendable c"
  shows "send_call rq c st =
    send_request rq (call_type c) (cs_msgid st) (call_params c) (call_key c) (st\<lparr>cs_msgid := cs_msgid st + 1\<rparr>)"
proof (cases c)
  case (SetValue k v)
  then obtain d where "value_behind (key_type k) v = Inr d" using assms by (auto split: sum.splits)
  then show ?thesis using SetValue by (simp add: buxton_wire_set_value_def get_msgid_def)
qed (simp_all add: get_msgid_def buxton_wire_set_label_def buxton_wire_create_group_def
    buxton_wire_remove_group_def buxton_wire_get_value_def buxton_wire_get_label_def buxton_wire_unset_value_def
    buxton_wire_list_keys_def buxton_wire_list_names_def buxton_wire_register_notification_def
    buxton_wire_unregister_notification_def)

lemma wire_string_null: "wire_string s \<Longrightarrow> str_value s = None \<longleftrightarrow> s = null_string"
  by (auto elim: wire_string_cases simp: null_string_def)

lemma wire_ok_type: "wire_ok d \<Longrightarrow> data_type d \<noteq> BUXTON_TYPE_MIN \<and> data_type d \<noteq> BUXTON_TYPE_MAX"
  by (cases d) simp_all

lemmas parse_defs = parse_set_def parse_set_label_def parse_group_def parse_get_def parse_get_label_def
  parse_list_names_def parse_unset_def parse_notify_def string_at_def uint32_at_def

lemma call_params_parse:
  assumes "sendable c"
  shows "parse_list (call_type c) (call_params c) = meant c"
proof (cases c)
  case (SetValue k v)
  then obtain d where "value_behind (key_type k) v = Inr d" "wire_ok d" "data_type d = key_type k"
    using assms by (auto split: sum.splits)
  then show ?thesis
    using SetValue wire_ok_type[of d] by (simp add: parse_defs zero_key_def)
qed (use assms in \<open>auto simp: parse_defs zero_key_def wire_key_def wire_string_null null_string_def\<close>)

lemma call_params_ok:
  assumes "sendable c"
  shows "\<forall>d \<in> set (call_params c). wire_ok d"
  using assms by (cases c) (auto simp: wire_key_def split: sum.splits)

lemma call_params_length: "1 \<le> length (call_params c)" "length (call_params c) \<le> 4"
  by (cases c; simp)+

text \<open>The copy of the key that is kept with the callback.\<close>

lemma wire_string_ok: "wire_string s \<Longrightarrow> str_ok s"
  by (auto elim: wire_string_cases simp: str_ok_def null_string_def)

lemma copy_member_ok: "wire_string s \<Longrightarrow> \<exists>c. copy_member slack s = Inr c"
  using buxton_string_copy_ok[OF wire_string_ok] by (auto simp: copy_member_def split: option.splits)

lemma key_copy_ok: "wire_key k \<Longrightarrow> \<exists>k'. buxton_key_copy slack k = Inr k'"
  using copy_member_ok[of "key_group k" slack] copy_member_ok[of "key_name k" slack]
    copy_member_ok[of "key_layer k" slack]
  by (auto simp: wire_key_def buxton_key_copy_def)

lemma call_key_wire: "sendable c \<Longrightarrow> call_key c = Some k \<Longrightarrow> wire_key k"
  by (cases c) auto

text \<open>The entry that waits for the answer.\<close>

definition waits :: "request_env \<Rightarrow> wire_call \<Rightarrow> notify_value \<Rightarrow> bool" where
  "waits rq c nv \<longleftrightarrow> nv_data nv = rq_data rq \<and> nv_cb nv = rq_callback rq \<and> nv_time nv = rq_now rq \<and>
     nv_type nv = call_type c \<and>
     (case call_key c of None \<Rightarrow> nv_key nv = None | Some k \<Rightarrow> \<exists>k'. nv_key nv = Some k' \<and> buxton_key_copy (rq_slack rq) k = Inr k')"

lemma send_message_ok:
  assumes "sendable c" "callbacks (reap_callbacks (rq_now rq) st) = Some cbs" "hm_get cbs i = None"
  shows "\<exists>nv. waits rq c nv \<and>
    send_message (rq_slack rq) (rq_writes rq) (rq_now rq) msg (rq_callback rq) (rq_data rq) i (call_type c) (call_key c) st =
      Inr (rq_writes rq (written st @ [msg]),
           (reap_callbacks (rq_now rq) st)\<lparr>callbacks := Some (cbs @ [(i, nv)]), written := written st @ [msg]\<rparr>)"
proof -
  obtain k where k: "(case call_key c of None \<Rightarrow> Inr None
      | Some k \<Rightarrow> bindE (buxton_key_copy (rq_slack rq) k) (\<lambda>k'. Inr (Some k'))) = (Inr k :: BuxtonKey option res)"
    "case call_key c of None \<Rightarrow> k = None | Some k0 \<Rightarrow> \<exists>k'. k = Some k' \<and> buxton_key_copy (rq_slack rq) k0 = Inr k'"
  proof (cases "call_key c")
    case None
    then show ?thesis using that[of None] by simp
  next
    case (Some k0)
    then obtain k' where "buxton_key_copy (rq_slack rq) k0 = Inr k'"
      using key_copy_ok[OF call_key_wire[OF assms(1) Some]] by blast
    then show ?thesis using that[of "Some k'"] Some by simp
  qed
  let ?nv = "\<lparr>nv_data = rq_data rq, nv_cb = rq_callback rq, nv_time = rq_now rq, nv_type = call_type c, nv_key = k\<rparr>"
  have w: "written (reap_callbacks (rq_now rq) st) = written st" by (simp add: reap_callbacks_def)
  have "waits rq c ?nv" using k(2) by (auto simp: waits_def split: option.splits)
  then show ?thesis
    using assms(2,3) w by (intro exI[of _ ?nv]) (simp add: send_message_def k(1) put_block_def Let_def)
qed

lemma message_framed:
  assumes "buxton_serialize_message (control_code m) i ps = Inr (Some b)" "length b \<le> BUXTON_MESSAGE_MAX_LENGTH"
  shows "framed b"
proof -
  have b: "16 \<le> length b" "take 8 b = le_bytes 2 1650 @ le_bytes 2 (control_code m) @ le_bytes 4 (length b)"
    using serialize_message_length[OF assms(1)] by simp_all
  have "take 4 (drop 4 b) = le_bytes 4 (length b)"
    using arg_cong[OF b(2), of "drop 4"] by (simp add: drop_take)
  then show ?thesis using b(1) assms(2) by (auto simp: framed_def buxton_get_message_size_def rd_def)
qed

lemma call_encoded:
  assumes "sendable c"
  obtains msg where "buxton_serialize_message (control_code (call_type c)) i (call_params c) = Inr (Some msg)"
    "buxton_deserialize_message msg (length msg) = Inr (Some (call_type c, i, call_params c))"
proof -
  have "length (call_params c) \<le> 4096" using call_params_length(2)[of c] by simp
  then obtain body where "buxton_serialize_message (control_code (call_type c)) i (call_params c) = Inr (Some
       (le_bytes 2 BUXTON_CONTROL_CODE @ le_bytes 2 (control_code (call_type c)) @
        le_bytes 4 (16 + length body) @ w32_bytes i @ le_bytes 4 (length (call_params c)) @ body))"
    (is "_ = Inr (Some ?b)") and "\<And>post. buxton_deserialize_message
       (le_bytes 2 BUXTON_CONTROL_CODE @ le_bytes 2 (control_code (call_type c)) @
        le_bytes 4 (16 + length body) @ w32_bytes i @ le_bytes 4 (length (call_params c)) @ body @ post)
       (16 + length body) = Inr (Some (call_type c, i, call_params c))"
    using message_roundtrip_lemma[OF call_params_ok[OF assms], of "call_type c" i] by blast
  moreover from this(2)[of "[]"] have "buxton_deserialize_message ?b (length ?b) = Inr (Some (call_type c, i, call_params c))"
    by (simp add: add.commute)
  ultimately show ?thesis using that by blast
qed

lemma call_sends:
  assumes "sendable c" "callbacks (reap_callbacks (rq_now rq) st) = Some cbs" "hm_get cbs (cs_msgid st) = None"
    "buxton_serialize_message (control_code (call_type c)) (cs_msgid st) (call_params c) = Inr (Some msg)"
  obtains nv where "waits rq c nv" "send_call rq c st = Inr (rq_writes rq (written st @ [msg]),
      (reap_callbacks (rq_now rq) st)\<lparr>cs_msgid := cs_msgid st + 1, callbacks := Some (cbs @ [(cs_msgid st, nv)]),
        written := written st @ [msg]\<rparr>)"
  using send_message_ok[OF assms(1) _ assms(3), of rq "st\<lparr>cs_msgid := cs_msgid st + 1\<rparr>" msg] assms(2)
  by (auto simp: send_call_request[OF assms(1)] send_request_def assms(4) reap_callbacks_def)

text \<open>C26. Client and daemon agree on the protocol: every call whose strings and value are well formed, made
  while no call with its message id is waiting, sends one message (whether or not the write then succeeds),
  waits under that id with the callback, its data, the time and a copy of the key, and uses the id up. The
  daemon decodes the message to the type of the call and its id, and finds in its parameters exactly the key
  and the value that the call is about. The one exception is LIST, which the daemon refuses. A message that
  is not over the limit is framed as the daemon expects it.\<close>

theorem request_understood:
  assumes "sendable c" "callbacks (reap_callbacks (rq_now rq) st) = Some cbs" "hm_get cbs (cs_msgid st) = None"
  shows "\<exists>msg nv ps. waits rq c nv \<and>
    send_call rq c st = Inr (rq_writes rq (written st @ [msg]),
      (reap_callbacks (rq_now rq) st)\<lparr>cs_msgid := cs_msgid st + 1, callbacks := Some (cbs @ [(cs_msgid st, nv)]),
        written := written st @ [msg]\<rparr>) \<and>
    buxton_deserialize_message msg (length msg) = Inr (Some (call_type c, cs_msgid st, ps)) \<and>
    parse_list (call_type c) ps = meant c \<and>
    (length msg \<le> BUXTON_MESSAGE_MAX_LENGTH \<longrightarrow> framed msg)"
proof -
  obtain msg where m: "buxton_serialize_message (control_code (call_type c)) (cs_msgid st) (call_params c) = Inr (Some msg)"
    "buxton_deserialize_message msg (length msg) = Inr (Some (call_type c, cs_msgid st, call_params c))"
    by (rule call_encoded[OF assms(1)])
  obtain nv where "waits rq c nv" "send_call rq c st = Inr (rq_writes rq (written st @ [msg]),
      (reap_callbacks (rq_now rq) st)\<lparr>cs_msgid := cs_msgid st + 1, callbacks := Some (cbs @ [(cs_msgid st, nv)]),
        written := written st @ [msg]\<rparr>)"
    by (rule call_sends[OF assms m(1)])
  then show ?thesis
    using m(2) call_params_parse[OF assms(1)] message_framed[OF m(1)] by blast
qed

section \<open>A stream of replies\<close>

definition receiving :: "reply_buffer \<Rightarrow> bytes \<Rightarrow> bool" where
  "receiving rb m \<longleftrightarrow> take (rb_offset rb) (rb_data rb) = take (rb_offset rb) m \<and> rb_offset rb < rb_size rb \<and>
     (if rb_offset rb < 8 then rb_size rb = 8 \<and> 8 \<le> length (rb_data rb)
      else rb_size rb = length m \<and> length (rb_data rb) = length m)"

text \<open>The specification of the loop: message after message.\<close>

fun deliver :: "bytes list \<Rightarrow> bool \<Rightarrow> nat \<Rightarrow> client_state \<Rightarrow> (int \<times> client_state) res" where
  "deliver [] stale handled st = Inr (int handled, st)"
| "deliver (m # ms) stale handled st =
     bindE (handle_reply m (length m) stale st) (\<lambda>(n, stale', st'). deliver ms stale' (handled + n) st')"

lemma wire_loop_turn:
  assumes "receiving rb m" "framed m" "sock_read (rb_size rb - rb_offset rb) sock = (Got b, rest)" "b \<noteq> []"
    "length b \<le> rb_size rb - rb_offset rb" "b = take (length b) (drop (rb_offset rb) m)"
  shows "\<exists>rb1. if rb_offset rb + length b < length m
    then receiving rb1 m \<and> rb_offset rb1 = rb_offset rb + length b \<and>
      wire_loop junk rb stale h st sock = wire_loop junk rb1 stale h st rest
    else 8 \<le> length (rb_data rb1) \<and> rb_offset rb1 = 0 \<and> rb_size rb1 = 8 \<and>
      wire_loop junk rb stale h st sock =
        bindE (handle_reply m (length m) stale st) (\<lambda>(n, stale', st'). wire_loop junk rb1 stale' (h + n) st' rest)"
proof -
  let ?o = "rb_offset rb + length b"
  define D where "D = take (rb_offset rb) (rb_data rb) @ b @ drop ?o (rb_data rb)"
  have lm: "8 < length m" "length m \<le> 32768" "length m \<noteq> 0" using assms(2) by (auto simp: framed_def)
  have l: "?o \<le> length (rb_data rb)"
    using assms(1,5) by (auto simp: receiving_def split: if_splits)
  have "take (rb_offset rb) (rb_data rb) @ b = take ?o m"
    using assms(1) by (subst assms(6)) (simp add: receiving_def take_add)
  then have d: "D = take ?o m @ drop ?o (rb_data rb)" by (simp add: D_def)
  have "?o \<le> rb_size rb" "rb_size rb \<le> length m"
    using assms(1,5) lm by (auto simp: receiving_def split: if_splits)
  then have lo: "?o \<le> length m" by simp
  have lD: "length D = length (rb_data rb)" unfolding d using l lo by simp
  have dt: "take ?o D = take ?o m" unfolding d using lo by simp
  show ?thesis
  proof (cases "?o < 8")
    case True
    have "wire_loop junk rb stale h st sock =
        wire_loop junk \<lparr>rb_data = D, rb_offset = ?o, rb_size = rb_size rb\<rparr> stale h st rest"
      by (subst wire_loop.simps) (use True l in \<open>simp add: assms(3,4) D_def[symmetric] Let_def\<close>)
    moreover have "receiving \<lparr>rb_data = D, rb_offset = ?o, rb_size = rb_size rb\<rparr> m"
      using True assms(1) dt lD by (simp add: receiving_def split: if_splits)
    ultimately show ?thesis using True lm
      by (intro exI[of _ "\<lparr>rb_data = D, rb_offset = ?o, rb_size = rb_size rb\<rparr>"]) simp
  next
    case False
    have sz: "(if rb_size rb = 8 then buxton_get_message_size D ?o else Inr (rb_size rb)) = Inr (length m)"
      "rb_size rb = 8 \<or> length D = length m" "8 \<le> length D"
    proof -
      consider "rb_offset rb < 8" "rb_size rb = 8" "8 \<le> length (rb_data rb)"
        | "8 \<le> rb_offset rb" "rb_size rb = length m" "length (rb_data rb) = length m"
        using assms(1) by (auto simp: receiving_def split: if_splits)
      then have "(if rb_size rb = 8 then buxton_get_message_size D ?o else Inr (rb_size rb)) = Inr (length m) \<and>
        (rb_size rb = 8 \<or> length D = length m) \<and> 8 \<le> length D"
      proof cases
        case 1
        then have o8: "?o = 8" using False assms(5) by simp
        have "buxton_get_message_size D 8 = Inr (length m)"
          by (rule framed_size[OF assms(2)]) (use 1 lD dt o8 in simp_all)
        then show ?thesis using 1 o8 lD by simp
      next
        case 2
        then show ?thesis using lm lD by simp
      qed
      then show "(if rb_size rb = 8 then buxton_get_message_size D ?o else Inr (rb_size rb)) = Inr (length m)"
        "rb_size rb = 8 \<or> length D = length m" "8 \<le> length D" by blast+
    qed
    let ?blk = "take (length m) D @ map junk [length D ..< length m]"
    have blk: "length ?blk = length m" by simp
    have "?o \<le> length (take (length m) D)" using lo l lD by simp
    then have "take ?o ?blk = take ?o D" using lo by (simp add: min_absorb1)
    then have bt: "take ?o ?blk = take ?o m" using dt by simp
    have turn: "wire_loop junk rb stale h st sock =
        (if length m \<noteq> ?o
         then wire_loop junk \<lparr>rb_data = ?blk, rb_offset = ?o, rb_size = length m\<rparr> stale h st rest
         else bindE (handle_reply ?blk (length m) stale st) (\<lambda>(n, stale', st').
           wire_loop junk \<lparr>rb_data = ?blk, rb_offset = 0, rb_size = 8\<rparr> stale' (h + n) st' rest))"
      by (subst wire_loop.simps) (use False l sz lm in \<open>simp add: assms(3,4) D_def[symmetric] Let_def cong: if_cong\<close>)
    show ?thesis
    proof (cases "?o = length m")
      case True
      then have "?blk = m" using blk bt by simp
      then show ?thesis using turn True lm
        by (intro exI[of _ "\<lparr>rb_data = ?blk, rb_offset = 0, rb_size = 8\<rparr>"]) simp
    next
      case neq: False
      then have "receiving \<lparr>rb_data = ?blk, rb_offset = ?o, rb_size = length m\<rparr> m"
        using blk bt lo neq False by (simp add: receiving_def)
      then show ?thesis using turn neq lo
        by (intro exI[of _ "\<lparr>rb_data = ?blk, rb_offset = ?o, rb_size = length m\<rparr>"]) simp
    qed
  qed
qed

lemma wire_loop_stream:
  assumes "[] \<notin> set bs" "list_all framed ms"
    "concat bs = (if ms = [] then [] else drop (rb_offset rb) (concat ms))" "ms = [] \<or> receiving rb (hd ms)"
  shows "wire_loop junk rb stale h st (map Bytes bs) = deliver ms stale h st"
  using assms
proof (induction "length (concat bs)" arbitrary: bs ms rb stale h st rule: less_induct)
  case less
  show ?case
  proof (cases ms)
    case Nil
    then have "bs = []" using less.prems(1,3) by (cases bs) auto
    then show ?thesis using Nil by (simp add: wire_loop.simps[of junk])
  next
    case (Cons m ms')
    have fm: "framed m" and rm: "receiving rb m" using less.prems(2,4) Cons by simp_all
    have o: "rb_offset rb < rb_size rb" "rb_size rb \<le> length m"
      using rm fm by (auto simp: receiving_def framed_def split: if_splits)
    then have cb: "concat bs = drop (rb_offset rb) m @ concat ms'" using less.prems(3) Cons by simp
    then have "bs \<noteq> []" using o by auto
    then obtain b bs' where b: "sock_read (rb_size rb - rb_offset rb) (map Bytes bs) = (Got b, map Bytes bs')"
      "b \<noteq> []" "length b \<le> rb_size rb - rb_offset rb" "[] \<notin> set bs'" "concat bs = b @ concat bs'"
      using sock_read_blocks[OF _ less.prems(1), of "rb_size rb - rb_offset rb"] o by auto
    have less': "length (concat bs') < length (concat bs)" using b(2,5) by simp
    have part: "b = take (length b) (drop (rb_offset rb) m)"
      using arg_cong[OF trans[OF sym[OF b(5)] cb], of "take (length b)"] b(3) o by simp
    have rest: "concat bs' = drop (rb_offset rb + length b) m @ concat ms'"
      using arg_cong[OF trans[OF sym[OF b(5)] cb], of "drop (length b)"] b(3) o by (simp add: add.commute)
    obtain rb1 where rb1: "if rb_offset rb + length b < length m
        then receiving rb1 m \<and> rb_offset rb1 = rb_offset rb + length b \<and>
          wire_loop junk rb stale h st (map Bytes bs) = wire_loop junk rb1 stale h st (map Bytes bs')
        else 8 \<le> length (rb_data rb1) \<and> rb_offset rb1 = 0 \<and> rb_size rb1 = 8 \<and>
          wire_loop junk rb stale h st (map Bytes bs) =
            bindE (handle_reply m (length m) stale st) (\<lambda>(n, stale', st'). wire_loop junk rb1 stale' (h + n) st' (map Bytes bs'))"
      using wire_loop_turn[OF rm fm b(1-3) part, of junk stale h st] by blast
    show ?thesis
    proof (cases "rb_offset rb + length b < length m")
      case True
      then have c: "receiving rb1 m" "rb_offset rb1 = rb_offset rb + length b"
        "wire_loop junk rb stale h st (map Bytes bs) = wire_loop junk rb1 stale h st (map Bytes bs')"
        using rb1 by simp_all
      have "concat bs' = drop (rb_offset rb1) (concat ms)" using rest c(2) True Cons by simp
      then show ?thesis using less.hyps[OF less' b(4) less.prems(2), of rb1] c Cons by simp
    next
      case False
      then have c: "8 \<le> length (rb_data rb1)" "rb_offset rb1 = 0" "rb_size rb1 = 8"
        "wire_loop junk rb stale h st (map Bytes bs) =
          bindE (handle_reply m (length m) stale st) (\<lambda>(n, stale', st'). wire_loop junk rb1 stale' (h + n) st' (map Bytes bs'))"
        using rb1 by simp_all
      have r: "receiving rb1 (hd ms')" using c(1-3) by (simp add: receiving_def)
      have "concat bs' = (if ms' = [] then [] else drop (rb_offset rb1) (concat ms'))"
        using rest False c(2) by auto
      then have ih: "wire_loop junk rb1 stale' h' st' (map Bytes bs') = deliver ms' stale' h' st'" for stale' h' st'
        using less.hyps[OF less' b(4)] less.prems(2) Cons r by simp
      show ?thesis unfolding c(4) ih Cons deliver.simps by (rule refl)
    qed
  qed
qed

lemma empty_receiving: "receiving empty_reply m"
  by (simp add: receiving_def empty_reply_def)

lemma handle_response_stream:
  assumes "[] \<notin> set bs" "concat bs = concat ms" "list_all framed ms"
  shows "buxton_wire_handle_response junk now (map Bytes bs) st = deliver ms False 0 (reap_callbacks now st)"
  unfolding buxton_wire_handle_response_def
  by (rule wire_loop_stream) (use assms empty_receiving in \<open>auto simp: empty_reply_def\<close>)

text \<open>Framing in the client: replies that arrive cut into pieces of any sizes are taken as the
  sequence of whole messages, in order, after the calls that waited too long are dropped.\<close>

theorem replies_reassembled:
  assumes "[] \<notin> set bs" "concat bs = concat ms" "list_all framed ms"
  shows "buxton_wire_handle_response junk now (map Bytes bs) st = deliver ms False 0 (reap_callbacks now st)"
  using assms by (rule handle_response_stream)

text \<open>A short message that arrives byte by byte.\<close>

definition ok_reply :: bytes where
  "ok_reply = le_bytes 2 BUXTON_CONTROL_CODE @ le_bytes 2 8 @ le_bytes 4 26 @ w32_bytes 5 @ le_bytes 4 1 @
     le_bytes 2 2 @ le_bytes 4 4 @ w32_bytes 0"

lemma ok_reply_framed: "framed ok_reply"
  by (simp add: framed_def ok_reply_def buxton_get_message_size_def rd_def)

definition idle_client :: client_state where
  "idle_client = \<lparr>cs_msgid = 0, callbacks = Some [], notify_callbacks = Some [], written = [], ran = []\<rparr>"

theorem replies_reassembled_witness:
  "buxton_wire_handle_response (\<lambda>_. NUL) 0 (map Bytes (map (\<lambda>c. [c]) ok_reply)) idle_client =
     deliver [ok_reply] False 0 (reap_callbacks 0 idle_client)"
  by (rule replies_reassembled) (simp_all add: ok_reply_framed image_iff)

section \<open>Answers\<close>

lemma message_back:
  assumes "buxton_serialize_message (control_code m) i ps = Inr (Some b)" "list_all wire_ok ps" "length ps \<le> 4096"
  shows "buxton_deserialize_message b (length b) = Inr (Some (m, i, ps))"
proof -
  obtain body where "buxton_serialize_message (control_code m) i ps = Inr (Some
       (le_bytes 2 BUXTON_CONTROL_CODE @ le_bytes 2 (control_code m) @
        le_bytes 4 (16 + length body) @ w32_bytes i @ le_bytes 4 (length ps) @ body))"
    "\<And>post. buxton_deserialize_message
       (le_bytes 2 BUXTON_CONTROL_CODE @ le_bytes 2 (control_code m) @
        le_bytes 4 (16 + length body) @ w32_bytes i @ le_bytes 4 (length ps) @ body @ post)
       (16 + length body) = Inr (Some (m, i, ps))"
    using message_roundtrip_lemma[OF _ assms(3), of m i] assms(2) unfolding list_all_iff by blast
  from this(1) this(2)[of "[]"] show ?thesis using assms(1) by (auto simp: add.commute)
qed

lemma serialized_reply:
  assumes "serialize_reply i ps = Inr reply" "list_all wire_ok ps" "length ps \<le> 4096"
  shows "buxton_deserialize_message reply (length reply) = Inr (Some (CONTROL_STATUS, i, ps))"
    "buxton_serialize_message (control_code CONTROL_STATUS) i ps = Inr (Some reply)"
proof -
  show "buxton_serialize_message (control_code CONTROL_STATUS) i ps = Inr (Some reply)"
    using assms(1) by (auto simp: serialize_reply_def res_simps split: option.splits)
  then show "buxton_deserialize_message reply (length reply) = Inr (Some (CONTROL_STATUS, i, ps))"
    using message_back[OF _ assms(2,3)] by blast
qed

text \<open>A reply of the daemon, however it is cut, does what \<open>handle_callback_response\<close> does.\<close>

lemma reply_handled:
  assumes "serialize_reply i (DInt32 s # xs) = Inr reply" "list_all wire_ok xs" "length xs < 4096"
    "length reply \<le> BUXTON_MESSAGE_MAX_LENGTH" "[] \<notin> set bs" "concat bs = reply"
  shows "buxton_wire_handle_response junk now (map Bytes bs) st =
    bindE (handle_callback_response CONTROL_STATUS i (DInt32 s # xs) (reap_callbacks now st)) (\<lambda>st'. Inr (1, st'))"
proof -
  have r: "buxton_deserialize_message reply (length reply) = Inr (Some (CONTROL_STATUS, i, DInt32 s # xs))"
    "buxton_serialize_message (control_code CONTROL_STATUS) i (DInt32 s # xs) = Inr (Some reply)"
    using serialized_reply[OF assms(1)] assms(2,3) by simp_all
  have f: "framed reply" by (rule message_framed[OF r(2) assms(4)])
  show ?thesis
    using handle_response_stream[OF assms(5), of "[reply]"] assms(6) f
    by (cases "handle_callback_response CONTROL_STATUS i (DInt32 s # xs) (reap_callbacks now st)")
      (simp_all add: handle_reply_def r(1))
qed

lemma reaped_get:
  assumes "table_get (callbacks st) i = Some nv" "now - nv_time nv \<le> TIMEOUT"
  shows "table_get (callbacks (reap_callbacks now st)) i = Some nv"
proof -
  obtain m where m: "callbacks st = Some m" "hm_get m i = Some nv"
    using assms(1) by (auto simp: table_get_def split: option.splits)
  have "hm_get (filter (\<lambda>(_, nv). \<not> now - nv_time nv > TIMEOUT) m) i = Some nv"
    using m(2) assms(2) by (induction m) (auto simp: hm_get_def split: if_splits)
  then show ?thesis using m(1) by (simp add: table_get_def reap_callbacks_def)
qed

lemma table_get_remove: "table_get (table_remove t i) j = (if j = i then None else table_get t j)"
  by (cases t) (simp_all add: table_get_def table_remove_def hm_get_remove)

lemma reap_fields [simp]:
  "ran (reap_callbacks now st) = ran st" "written (reap_callbacks now st) = written st"
  "cs_msgid (reap_callbacks now st) = cs_msgid st" "notify_callbacks (reap_callbacks now st) = notify_callbacks st"
  by (simp_all add: reap_callbacks_def)

text \<open>What a reply does to a call that waits, by the type of the call.\<close>

lemma plain_reply:
  assumes "table_get (callbacks st) i = Some nv" "nv_cb nv = Some f"
    "nv_type nv = CONTROL_NOTIFY \<or> nv_type nv = CONTROL_UNNOTIFY \<Longrightarrow> status_zero ps = Inr False"
    "length ps < 65536"
  shows "handle_callback_response CONTROL_STATUS i ps st =
    Inr (st\<lparr>callbacks := table_remove (callbacks st) i,
            ran := ran st @ [(f, nv_data nv, \<lparr>r_type = nv_type nv, r_data = ps, r_key = nv_key nv\<rparr>)]\<rparr>)"
  using assms by (auto simp: handle_callback_response_def run_callback_def Let_def)

text \<open>The state of the client after a call.\<close>

lemma call_sent:
  assumes "sendable c" "callbacks (reap_callbacks (rq_now rq) st) = Some cbs" "hm_get cbs (cs_msgid st) = None"
    "send_call rq c st = Inr (True, st1)"
  obtains msg nv ps where "written st1 = written st @ [msg]" "waits rq c nv"
    "table_get (callbacks st1) (cs_msgid st) = Some nv" "ran st1 = ran st"
    "notify_callbacks st1 = notify_callbacks st"
    "buxton_deserialize_message msg (length msg) = Inr (Some (call_type c, cs_msgid st, ps))"
    "parse_list (call_type c) ps = meant c"
proof -
  obtain msg where m: "buxton_serialize_message (control_code (call_type c)) (cs_msgid st) (call_params c) = Inr (Some msg)"
    "buxton_deserialize_message msg (length msg) = Inr (Some (call_type c, cs_msgid st, call_params c))"
    by (rule call_encoded[OF assms(1)])
  obtain nv where "waits rq c nv" "send_call rq c st = Inr (rq_writes rq (written st @ [msg]),
      (reap_callbacks (rq_now rq) st)\<lparr>cs_msgid := cs_msgid st + 1, callbacks := Some (cbs @ [(cs_msgid st, nv)]),
        written := written st @ [msg]\<rparr>)"
    by (rule call_sends[OF assms(1-3) m(1)])
  then show ?thesis
    using that[of msg nv "call_params c"] m(2) call_params_parse[OF assms(1)] assms(3,4)
    by (auto simp: table_get_def hm_get_append hm_get_single)
qed

text \<open>C27. A call from the client's side and back. The client makes a call, and the daemon accepts its
  message and handles it without fault (it refuses LIST). Then the first thing the daemon sends is its reply.
  When the client reads that reply during one call of \<open>buxton_wire_handle_response\<close>, at most three seconds
  after its call, in pieces of any sizes, the callback of the call is
  run exactly once, with the data and the type of the call, the status and the values that the daemon
  computed for it, and the call no longer waits: a second reply with its id would run nothing. For a GET or
  GET_LABEL the value that the callback looks at is the one the daemon found. A registration, and the end of
  one, are answered this way only when the daemon refuses them; their success is C28 and
  \<open>unregister_overreads\<close>. A reply that is cut between two calls of the function is lost
  (\<open>cut_reply_lost\<close>). The values must be well formed
  (their strings end in a NUL), and the reply must not be over the limit for messages.\<close>

theorem call_answered:
  assumes "sendable c" "callbacks (reap_callbacks (rq_now rq) st) = Some cbs" "hm_get cbs (cs_msgid st) = None"
    "meant c = Some (key, v)"
    "rq_callback rq = Some f" "send_call rq c st = Inr (True, st1)"
    "registry_ok self" "known self client"
    "buxtond_handle_message env writes self client (last (written st1)) (length (last (written st1))) = Inr (True, d)"
  shows "\<exists>reply news oc d1 s xs. sent d = sent self @ (cl_fd client, reply) # news \<and>
    run_request env self client (call_type c) (cs_msgid st) key v = Inr (Some (oc, d1)) \<and>
    reply_params (call_type c) oc = Inr (DInt32 s # xs) \<and> s = word_of_int (o_response oc) \<and>
    serialize_reply (cs_msgid st) (DInt32 s # xs) = Inr reply \<and>
    (\<forall>bs. list_all wire_ok xs \<and> length xs < 4096 \<and> length reply \<le> BUXTON_MESSAGE_MAX_LENGTH \<and>
       [] \<notin> set bs \<and> concat bs = reply \<and> now \<le> rq_now rq + TIMEOUT \<and>
       (call_type c = CONTROL_NOTIFY \<or> call_type c = CONTROL_UNNOTIFY \<longrightarrow> s \<noteq> 0) \<longrightarrow>
       (\<exists>st2 r. buxton_wire_handle_response junk now (map Bytes bs) st1 = Inr (1, st2) \<and>
          ran st2 = ran st @ [(f, rq_data rq, r)] \<and> r_type r = call_type c \<and> r_data r = DInt32 s # xs \<and>
          buxton_response_status (Some r) = Inr (sint s) \<and>
          (call_type c = CONTROL_GET \<or> call_type c = CONTROL_GET_LABEL \<longrightarrow> value_item r = o_data oc) \<and>
          table_get (callbacks st2) (cs_msgid st) = None))"
proof -
  let ?i = "cs_msgid st"
  obtain msg nv ps where m: "written st1 = written st @ [msg]" "waits rq c nv"
    "table_get (callbacks st1) ?i = Some nv" "ran st1 = ran st"
    "buxton_deserialize_message msg (length msg) = Inr (Some (call_type c, ?i, ps))"
    "parse_list (call_type c) ps = meant c"
    by (rule call_sent[OF assms(1-3,6)]) blast
  note p = m(6)[unfolded assms(4)]
  obtain d0 where a: "answer env writes self client (call_type c) ?i key v = Inr (True, d0)"
    and d: "d = d0\<lparr>buxton := (buxton d0)\<lparr>client_uid := client_uid (buxton self)\<rparr>\<rparr>"
    using assms(9) m(1,5) p by (auto simp: buxtond_handle_message_def Let_def res_simps)
  obtain s xs reply news oc d1 where o: "serialize_reply ?i (DInt32 s # xs) = Inr reply"
    "sent d0 = sent self @ (cl_fd client, reply) # news"
    "run_request env self client (call_type c) ?i key v = Inr (Some (oc, d1))"
    "reply_params (call_type c) oc = Inr (DInt32 s # xs)" "s = word_of_int (o_response oc)"
    using answer_sends[OF a assms(7,8) p] by blast
  let ?r = "\<lparr>r_type = call_type c, r_data = DInt32 s # xs, r_key = nv_key nv\<rparr>"
  have nv: "nv_cb nv = Some f" "nv_data nv = rq_data rq" "nv_type nv = call_type c" "nv_time nv = rq_now rq"
    using m(2) assms(5) by (simp_all add: waits_def)
  have st: "buxton_response_status (Some ?r) = Inr (sint s)"
    by (cases c) (simp_all add: buxton_response_status_def item_def union_bytes_def)
  have v: "call_type c = CONTROL_GET \<or> call_type c = CONTROL_GET_LABEL \<longrightarrow> value_item ?r = o_data oc"
    using o(4) by (auto simp: reply_params_def Let_def value_item_def item_def split: if_splits option.splits)
  have "\<exists>st2 r. buxton_wire_handle_response junk now (map Bytes bs) st1 = Inr (1, st2) \<and>
          ran st2 = ran st @ [(f, rq_data rq, r)] \<and> r_type r = call_type c \<and> r_data r = DInt32 s # xs \<and>
          buxton_response_status (Some r) = Inr (sint s) \<and>
          (call_type c = CONTROL_GET \<or> call_type c = CONTROL_GET_LABEL \<longrightarrow> value_item r = o_data oc) \<and>
          table_get (callbacks st2) ?i = None"
    if that: "list_all wire_ok xs \<and> length xs < 4096 \<and> length reply \<le> BUXTON_MESSAGE_MAX_LENGTH \<and>
       [] \<notin> set bs \<and> concat bs = reply \<and> now \<le> rq_now rq + TIMEOUT \<and>
       (call_type c = CONTROL_NOTIFY \<or> call_type c = CONTROL_UNNOTIFY \<longrightarrow> s \<noteq> 0)" for bs
  proof -
    have g: "table_get (callbacks (reap_callbacks now st1)) ?i = Some nv"
      using reaped_get[OF m(3), of now] that nv(4) by simp
    have "handle_callback_response CONTROL_STATUS ?i (DInt32 s # xs) (reap_callbacks now st1) =
      Inr ((reap_callbacks now st1)\<lparr>callbacks := table_remove (callbacks (reap_callbacks now st1)) ?i,
            ran := ran st1 @ [(f, rq_data rq, ?r)]\<rparr>)"
      using plain_reply[OF g nv(1), of "DInt32 s # xs"] nv that by (auto simp: status_zero_def)
    then show ?thesis
      using reply_handled[OF o(1), of bs junk now st1] that m(4) st v
      by (simp add: table_get_remove)
  qed
  then show ?thesis using o d by fastforce
qed

lemma reply_length:
  "serialize_reply i [DInt32 s] = Inr reply \<Longrightarrow> length reply = 26"
  "serialize_reply i [DInt32 s, DUInt32 w] = Inr reply \<Longrightarrow> length reply = 36"
  by (auto simp: serialize_reply_def buxton_serialize_message_def)

text \<open>The daemon's side of a call whose handler has the outcome \<open>oc\<close>.\<close>

lemma call_handled:
  assumes "buxtond_handle_message env writes self client msg (length msg) = Inr (True, d)"
    "buxton_deserialize_message msg (length msg) = Inr (Some (m, i, ps))" "parse_list m ps = Some (key, v)"
    "registry_ok self" "known self client" "run_request env self client m i key v = Inr (Some (oc, d1))"
  obtains reply news params where "sent d = sent self @ (cl_fd client, reply) # news"
    "reply_params m oc = Inr params" "serialize_reply i params = Inr reply"
    "m \<noteq> CONTROL_SET \<Longrightarrow> m \<noteq> CONTROL_UNSET \<Longrightarrow> news = []"
proof -
  obtain d0 where a: "answer env writes self client m i key v = Inr (True, d0)"
    and d: "d = d0\<lparr>buxton := (buxton d0)\<lparr>client_uid := client_uid (buxton self)\<rparr>\<rparr>"
    using assms(1-3) by (auto simp: buxtond_handle_message_def Let_def res_simps)
  show ?thesis
    using answer_sends[OF a assms(4,5,3)] d assms(6) by (auto intro!: that)
qed

text \<open>Ending a registration breaks the client. When the daemon ends the registration, its reply has two
  values, the status and the message id of the registration; but the client looks for the id in a third
  value and reads behind the end of the array. The reply is the one that the daemon sends for the call, and
  it may arrive in any pieces.\<close>

theorem unregister_overreads:
  assumes "sendable (Unregister k)" "callbacks (reap_callbacks (rq_now rq) st) = Some cbs"
    "hm_get cbs (cs_msgid st) = None" "send_call rq (Unregister k) st = Inr (True, st1)"
    "registry_ok self" "known self client"
    "buxtond_handle_message env writes self client (last (written st1)) (length (last (written st1))) = Inr (True, d)"
    "unregister_notification self client (k\<lparr>key_layer := null_string\<rparr>) = Inr (w, 0, self1)"
    "now \<le> rq_now rq + TIMEOUT"
  shows "\<exists>reply. sent d = sent self @ [(cl_fd client, reply)] \<and>
    (\<forall>bs. [] \<notin> set bs \<and> concat bs = reply \<longrightarrow> buxton_wire_handle_response junk now (map Bytes bs) st1 = Inl OutOfBounds)"
proof -
  let ?i = "cs_msgid st" and ?k = "k\<lparr>key_layer := null_string\<rparr>"
  obtain msg nv ps where m: "written st1 = written st @ [msg]" "waits rq (Unregister k) nv"
    "table_get (callbacks st1) ?i = Some nv"
    "buxton_deserialize_message msg (length msg) = Inr (Some (CONTROL_UNNOTIFY, ?i, ps))"
    "parse_list CONTROL_UNNOTIFY ps = Some (?k, None)"
    by (rule call_sent[OF assms(1-4), unfolded meant.simps call_type.simps]) blast
  let ?oc = "\<lparr>o_response = 0, o_data = None, o_list = None, o_msgid = w\<rparr>"
  have run: "run_request env self client CONTROL_UNNOTIFY ?i ?k None = Inr (Some (?oc, self1))"
    using assms(8) by (simp add: run_request_def)
  have h: "buxtond_handle_message env writes self client msg (length msg) = Inr (True, d)"
    using assms(7) m(1) by simp
  obtain reply news params where o: "sent d = sent self @ (cl_fd client, reply) # news"
    "reply_params CONTROL_UNNOTIFY ?oc = Inr params" "serialize_reply ?i params = Inr reply" "news = []"
    using call_handled[OF h m(4,5) assms(5,6) run] by auto
  have p: "params = [DInt32 0, DUInt32 w]" using o(2) by (simp add: reply_params_def)
  note r = o(3)[unfolded p]
  have nv: "nv_type nv = CONTROL_UNNOTIFY" "nv_time nv = rq_now rq" using m(2) by (simp_all add: waits_def)
  have "table_get (callbacks (reap_callbacks now st1)) ?i = Some nv"
    using reaped_get[OF m(3), of now] nv(2) assms(9) by simp
  then have "handle_callback_response CONTROL_STATUS ?i [DInt32 0, DUInt32 w] (reap_callbacks now st1) = Inl OutOfBounds"
    by (simp add: handle_callback_response_def nv status_zero_def third_uint32_def Let_def)
  then show ?thesis
    using reply_handled[OF r, of _ junk now st1] reply_length(2)[OF r] o(1,4) by auto
qed

text \<open>A client that listens to a key is told of every change of it.\<close>

text \<open>What a process does later: it makes other calls, and looks at what the daemon sent.\<close>

datatype client_event = MakesCall request_env wire_call | Looks int "bytes list"

fun goes_on :: "(nat \<Rightarrow> byte) \<Rightarrow> client_event list \<Rightarrow> client_state \<Rightarrow> client_state res" where
  "goes_on junk [] st = Inr st"
| "goes_on junk (MakesCall rq c # es) st = bindE (send_call rq c st) (\<lambda>(_, st'). goes_on junk es st')"
| "goes_on junk (Looks now bs # es) st =
     bindE (buxton_wire_handle_response junk now (map Bytes bs) st) (\<lambda>(_, st'). goes_on junk es st')"

text \<open>The messages that tell a registration of the changes \<open>vs\<close>, and a look at which whole ones arrive.\<close>

definition changes_of :: "BuxtonNotification \<Rightarrow> BuxtonData option list \<Rightarrow> bytes list \<Rightarrow> bool" where
  "changes_of n vs ms \<longleftrightarrow> list_all2 (\<lambda>v m. changed_message n v = Inr (Some m) \<and> (\<forall>x. v = Some x \<longrightarrow> wire_ok x) \<and>
     length m \<le> BUXTON_MESSAGE_MAX_LENGTH) vs ms"

fun brings :: "BuxtonNotification \<Rightarrow> client_event \<Rightarrow> BuxtonData option list \<Rightarrow> bool" where
  "brings n (MakesCall rq c) vs \<longleftrightarrow> sendable c \<and> vs = []"
| "brings n (Looks now bs) vs \<longleftrightarrow> [] \<notin> set bs \<and> (\<exists>ms. changes_of n vs ms \<and> concat bs = concat ms)"

text \<open>The run of a callback that tells a change.\<close>

definition change_run :: "nat \<Rightarrow> nat \<Rightarrow> BuxtonKey option \<Rightarrow> BuxtonData option \<Rightarrow> nat \<times> nat \<times> BuxtonResponse" where
  "change_run f dat k v =
     (f, dat, \<lparr>r_type = CONTROL_CHANGED, r_data = (case v of None \<Rightarrow> [] | Some x \<Rightarrow> [x]), r_key = k\<rparr>)"

lemma deliver_changes:
  assumes "table_get (notify_callbacks st) (n_msgid n) = Some nv" "nv_cb nv = Some f" "changes_of n vs ms"
  shows "deliver ms stale h st =
    Inr (int (h + length ms), st\<lparr>ran := ran st @ map (change_run f (nv_data nv) (nv_key nv)) vs\<rparr>)"
  using assms(3)[unfolded changes_of_def] assms(1)
proof (induction arbitrary: st stale h rule: list_all2_induct)
  case Nil
  then show ?case by simp
next
  case (Cons v vs m ms)
  let ?ps = "case v of None \<Rightarrow> [] | Some x \<Rightarrow> [x]"
  have s: "buxton_serialize_message (control_code CONTROL_CHANGED) (n_msgid n) ?ps = Inr (Some m)"
    using Cons.hyps(1) by (simp add: changed_message_def)
  have "list_all wire_ok ?ps" "length ?ps \<le> 4096" "length ?ps < 65536" using Cons.hyps(1) by (simp_all split: option.splits)
  then have d: "buxton_deserialize_message m (length m) = Inr (Some (CONTROL_CHANGED, n_msgid n, ?ps))"
    using message_back[OF s] by blast
  let ?st = "st\<lparr>ran := ran st @ [change_run f (nv_data nv) (nv_key nv) v]\<rparr>"
  have "handle_reply m (length m) stale st = Inr (1, ?ps \<noteq> [], ?st)"
    using Cons.prems assms(2) \<open>length ?ps < 65536\<close>
    by (simp add: handle_reply_def d handle_callback_response_def run_callback_def change_run_def)
  then show ?case using Cons.IH[of ?st "?ps \<noteq> []" "h + 1"] Cons.prems by (simp add: add.assoc)
qed

lemma changes_framed:
  assumes "changes_of n vs ms"
  shows "list_all framed ms" "length ms = length vs"
proof -
  show "list_all framed ms"
    using assms[unfolded changes_of_def]
    by (induction rule: list_all2_induct)
      (auto simp: changed_message_def intro: message_framed[of CONTROL_CHANGED, simplified])
  show "length ms = length vs"
    using assms by (auto simp: changes_of_def dest: list_all2_lengthD)
qed

text \<open>Making a call never disturbs the table of registrations.\<close>

lemma call_keeps_registrations:
  assumes "sendable c" "callbacks st \<noteq> None"
  shows "\<exists>b st'. send_call rq c st = Inr (b, st') \<and> ran st' = ran st \<and>
    notify_callbacks st' = notify_callbacks st \<and> callbacks st' \<noteq> None"
proof -
  obtain msg where m: "buxton_serialize_message (control_code (call_type c)) (cs_msgid st) (call_params c) = Inr (Some msg)"
    by (rule call_encoded[OF assms(1)])
  obtain k where k: "(case call_key c of None \<Rightarrow> Inr None
      | Some k \<Rightarrow> bindE (buxton_key_copy (rq_slack rq) k) (\<lambda>k'. Inr (Some k'))) = (Inr k :: BuxtonKey option res)"
  proof (cases "call_key c")
    case None
    then show ?thesis using that[of None] by simp
  next
    case (Some k0)
    then obtain k' where "buxton_key_copy (rq_slack rq) k0 = Inr k'"
      using key_copy_ok[OF call_key_wire[OF assms(1) Some]] by blast
    then show ?thesis using that[of "Some k'"] Some by simp
  qed
  obtain cbs where "callbacks (reap_callbacks (rq_now rq) (st\<lparr>cs_msgid := cs_msgid st + 1\<rparr>)) = Some cbs"
    using assms(2) by (auto simp: reap_callbacks_def)
  then show ?thesis
    by (auto simp: send_call_request[OF assms(1)] send_request_def m send_message_def k Let_def put_block_def
        split: option.splits)
qed

lemma keeps_telling:
  assumes "list_all2 (brings n) es vss" "callbacks st \<noteq> None"
    "table_get (notify_callbacks st) (n_msgid n) = Some nv" "nv_cb nv = Some f"
  shows "\<exists>st'. goes_on junk es st = Inr st' \<and> ran st' = ran st @ map (change_run f (nv_data nv) (nv_key nv)) (concat vss)"
  using assms(1-3)
proof (induction arbitrary: st rule: list_all2_induct)
  case Nil
  then show ?case by simp
next
  case (Cons e es vs vss)
  show ?case
  proof (cases e)
    case (MakesCall rq c)
    then obtain b st1 where "send_call rq c st = Inr (b, st1)" "ran st1 = ran st"
      "notify_callbacks st1 = notify_callbacks st" "callbacks st1 \<noteq> None" "vs = []"
      using call_keeps_registrations[of c st rq] Cons.hyps(1) Cons.prems(1) by auto
    then show ?thesis using Cons.IH[of st1] Cons.prems MakesCall by simp
  next
    case (Looks now bs)
    then obtain ms where ms: "[] \<notin> set bs" "changes_of n vs ms" "concat bs = concat ms" using Cons.hyps(1) by auto
    let ?st = "reap_callbacks now st"
    let ?st1 = "?st\<lparr>ran := ran ?st @ map (change_run f (nv_data nv) (nv_key nv)) vs\<rparr>"
    have t: "table_get (notify_callbacks ?st) (n_msgid n) = Some nv" using Cons.prems(2) by simp
    have "buxton_wire_handle_response junk now (map Bytes bs) st = Inr (int (length ms), ?st1)"
      using handle_response_stream[OF ms(1,3) changes_framed(1)[OF ms(2)], of junk now st]
        deliver_changes[OF t assms(4) ms(2), of False 0] by simp
    moreover have "callbacks ?st1 \<noteq> None" using Cons.prems(1) by (simp add: reap_callbacks_def)
    ultimately show ?thesis using Cons.IH[of ?st1] Looks Cons.prems(2) by simp
  qed
qed

text \<open>The two sides of a registration that the daemon takes.\<close>

lemma register_handled:
  assumes "buxtond_handle_message env writes self client msg (length msg) = Inr (True, d)"
    "buxton_deserialize_message msg (length msg) = Inr (Some (CONTROL_NOTIFY, i, ps))"
    "parse_list CONTROL_NOTIFY ps = Some (key, None)" "registry_ok self" "known self client"
    "register_notification env self client key i = Inr (0, self1)"
  obtains reply where "sent d = sent self @ [(cl_fd client, reply)]" "serialize_reply i [DInt32 0] = Inr reply"
proof -
  have run: "run_request env self client CONTROL_NOTIFY i key None = Inr (Some (plain_outcome 0, self1))"
    using assms(6) by (simp add: run_request_def)
  show ?thesis
    using call_handled[OF assms(1-5) run] by (auto simp: reply_params_def plain_outcome_def intro: that)
qed

lemma register_replied:
  assumes "table_get (callbacks st) i = Some nv" "nv_type nv = CONTROL_NOTIFY" "now - nv_time nv \<le> TIMEOUT"
    "notify_callbacks st = Some ncs" "hm_get ncs i = None" "serialize_reply i [DInt32 0] = Inr reply"
  obtains st' where "framed reply" "handle_reply reply (length reply) False (reap_callbacks now st) = Inr (1, True, st')"
    "ran st' = ran st" "table_get (notify_callbacks st') i = Some nv" "callbacks st' \<noteq> None"
proof -
  let ?st = "reap_callbacks now st"
  define st' where "st' = ?st\<lparr>callbacks := table_remove (callbacks ?st) i, notify_callbacks := Some (ncs @ [(i, nv)])\<rparr>"
  have g: "table_get (callbacks ?st) i = Some nv" using reaped_get[OF assms(1,3)] .
  have d: "buxton_deserialize_message reply (length reply) = Inr (Some (CONTROL_STATUS, i, [DInt32 0]))"
    "buxton_serialize_message (control_code CONTROL_STATUS) i [DInt32 0] = Inr (Some reply)"
    using serialized_reply[OF assms(6)] by simp_all
  have "handle_reply reply (length reply) False ?st = Inr (1, True, st')"
    using g assms(2,4,5)
    by (simp add: handle_reply_def d(1) handle_callback_response_def status_zero_def put_block_def st'_def Let_def)
  moreover have "framed reply" using message_framed[OF d(2)] reply_length(1)[OF assms(6)] by simp
  moreover have "ran st' = ran st" "table_get (notify_callbacks st') i = Some nv" "callbacks st' \<noteq> None"
    using g assms(5) by (simp_all add: st'_def table_get_def table_remove_def hm_get_append hm_get_single split: option.splits)
  ultimately show ?thesis using that by blast
qed


section \<open>Replies that break the client\<close>

text \<open>A message that does not decode, right after one that did and had a value, makes the client free a
  block twice. A daemon, or whoever holds its socket, can so crash the client at any time.\<close>

theorem malformed_reply_frees_twice:
  assumes "buxton_deserialize_message m1 (length m1) = Inr (Some (CONTROL_STATUS, i, DInt32 s # ps))"
    "table_get (callbacks (reap_callbacks now st)) i = None"
    "buxton_deserialize_message m2 (length m2) = Inr None"
    "framed m1" "framed m2" "[] \<notin> set bs" "concat bs = m1 @ m2"
  shows "buxton_wire_handle_response junk now (map Bytes bs) st = Inl DoubleFree"
  using handle_response_stream[of bs "[m1, m2]" junk now st] assms
  by (simp add: handle_reply_def handle_callback_response_def)

lemma wire_loop_partial:
  assumes "receiving rb m" "framed m" "[] \<notin> set bs" "concat bs = take j (drop (rb_offset rb) m)"
    "rb_offset rb + j < length m"
  shows "wire_loop junk rb stale h st (map Bytes bs) = Inr (int h, st)"
  using assms
proof (induction "length (concat bs)" arbitrary: bs j rb rule: less_induct)
  case less
  show ?case
  proof (cases "bs = []")
    case True
    then show ?thesis by (simp add: wire_loop.simps[of junk])
  next
    case False
    have o: "0 < rb_size rb - rb_offset rb" using less.prems(1) by (simp add: receiving_def)
    obtain b bs' where b: "sock_read (rb_size rb - rb_offset rb) (map Bytes bs) = (Got b, map Bytes bs')"
      "b \<noteq> []" "length b \<le> rb_size rb - rb_offset rb" "[] \<notin> set bs'" "concat bs = b @ concat bs'"
      using sock_read_blocks[OF False less.prems(3) o] by blast
    note cb = trans[OF sym[OF b(5)] less.prems(4)]
    have "length (b @ concat bs') \<le> j" unfolding cb by simp
    then have lb: "length b \<le> j" by simp
    have part: "b = take (length b) (drop (rb_offset rb) m)"
      using arg_cong[OF cb, of "take (length b)"] lb by (simp add: min_def)
    have rest: "concat bs' = take (j - length b) (drop (rb_offset rb + length b) m)"
      using arg_cong[OF cb, of "drop (length b)"] by (simp add: drop_take add.commute)
    have "rb_offset rb + length b < length m" using lb less.prems(5) by simp
    then obtain rb1 where rb1: "receiving rb1 m" "rb_offset rb1 = rb_offset rb + length b"
      "wire_loop junk rb stale h st (map Bytes bs) = wire_loop junk rb1 stale h st (map Bytes bs')"
      using wire_loop_turn[OF less.prems(1,2) b(1-3) part, of junk stale h st] by auto
    show ?thesis
      unfolding rb1(3)
    proof (rule less.hyps[OF _ rb1(1) less.prems(2) b(4)])
      show "length (concat bs') < length (concat bs)" using b(2) by (simp add: b(5))
      show "concat bs' = take (j - length b) (drop (rb_offset rb1) m)" using rest rb1(2) by simp
      show "rb_offset rb1 + (j - length b) < length m" using rb1(2) lb less.prems(5) by simp
    qed
  qed
qed

lemma wire_loop_short:
  assumes "[] \<notin> set bs" "rb_offset rb + length (concat bs) < 8" "rb_size rb = 8" "length (rb_data rb) = 8"
  shows "wire_loop junk rb stale h st (map Bytes bs) = Inr (int h, st)"
  using assms
proof (induction bs arbitrary: rb)
  case Nil
  then show ?case by (simp add: wire_loop.simps[of junk])
next
  case (Cons b bs)
  have b: "b \<noteq> []" "length b \<le> 8 - rb_offset rb" "rb_offset rb + length b < 8"
    "\<not> 8 < rb_offset rb + length b" using Cons.prems by auto
  let ?rb = "\<lparr>rb_data = take (rb_offset rb) (rb_data rb) @ b @ drop (rb_offset rb + length b) (rb_data rb),
    rb_offset = rb_offset rb + length b, rb_size = 8\<rparr>"
  have "wire_loop junk rb stale h st (map Bytes (b # bs)) = wire_loop junk ?rb stale h st (map Bytes bs)"
    by (subst wire_loop.simps) (simp add: Let_def b Cons.prems(3,4))
  then show ?case using Cons.IH[of ?rb] Cons.prems by simp
qed

text \<open>A reply of which the last bytes (fewer than 8) come after the client looked is lost: neither look
  runs a callback, and both handle nothing. The first part is forgotten, and the rest is taken for the start of
  another message.\<close>

theorem cut_reply_lost:
  assumes "framed m" "[] \<notin> set bs" "[] \<notin> set cs" "concat bs @ concat cs = m" "cs \<noteq> []" "length (concat cs) < 8"
  shows "\<exists>st1. buxton_wire_handle_response junk now (map Bytes bs) st = Inr (0, st1) \<and>
    buxton_wire_handle_response junk later (map Bytes cs) st1 = Inr (0, reap_callbacks later st1) \<and>
    st1 = reap_callbacks now st"
proof -
  have "concat cs \<noteq> []" using assms(3,5) by (cases cs) auto
  then have "length (concat bs) < length m" "concat bs = take (length (concat bs)) m" using assms(4) by auto
  then have "wire_loop junk empty_reply False 0 st' (map Bytes bs) = Inr (0, st')" for st'
    using wire_loop_partial[OF empty_receiving assms(1,2), of "length (concat bs)" junk False 0 st']
    by (simp add: empty_reply_def)
  moreover have "wire_loop junk empty_reply False 0 st' (map Bytes cs) = Inr (0, st')" for st'
    using wire_loop_short[OF assms(3), of empty_reply] assms(6) by (simp add: empty_reply_def)
  ultimately show ?thesis by (simp add: buxton_wire_handle_response_def)
qed

section \<open>Every call is answered at most once\<close>

text \<open>The callbacks run for a reply, and the calls that wait, by the data they were made with.\<close>

definition answers :: "client_state \<Rightarrow> nat list" where
  "answers st = map (fst \<circ> snd) (filter (\<lambda>(_, _, r). r_type r \<noteq> CONTROL_CHANGED) (ran st))"

definition pending :: "client_state \<Rightarrow> nat list" where
  "pending st = (case callbacks st of None \<Rightarrow> [] | Some m \<Rightarrow> map (nv_data \<circ> snd) m)"

lemma answers_update [simp]:
  "answers (st\<lparr>callbacks := x\<rparr>) = answers st" "answers (st\<lparr>notify_callbacks := y\<rparr>) = answers st"
  "answers (st\<lparr>cs_msgid := z\<rparr>) = answers st" "answers (st\<lparr>written := w\<rparr>) = answers st"
  by (simp_all add: answers_def)

definition once :: "nat list \<Rightarrow> client_state \<Rightarrow> bool" where
  "once used st \<longleftrightarrow> distinct (answers st) \<and> distinct (pending st) \<and> set (answers st) \<inter> set (pending st) = {} \<and>
     set (answers st) \<union> set (pending st) \<subseteq> set used \<and>
     (\<forall>m. callbacks st = Some m \<longrightarrow> (\<forall>(i, nv) \<in> set m. nv_type nv \<noteq> CONTROL_CHANGED))"

text \<open>A process that uses the library: every call gets data of its own.\<close>

inductive client_run :: "nat list \<Rightarrow> client_state \<Rightarrow> bool" where
  start: "client_run [] idle_client"
| call: "client_run used st \<Longrightarrow> rq_data rq \<notin> set used \<Longrightarrow> send_call rq c st = Inr (ok, st') \<Longrightarrow>
    client_run (rq_data rq # used) st'"
| look: "client_run used st \<Longrightarrow> buxton_wire_handle_response junk now sock st = Inr (n, st') \<Longrightarrow> client_run used st'"
| close: "client_run used st \<Longrightarrow> client_run used (cleanup_callbacks st)"
| again: "client_run used st \<Longrightarrow> client_run used (snd (setup_callbacks st))"

lemma once_reap:
  assumes "once used st"
  shows "once used (reap_callbacks now st)"
proof -
  have a: "answers (reap_callbacks now st) = answers st" by (simp add: answers_def)
  show ?thesis
  proof (cases "callbacks st")
    case None
    then show ?thesis using assms by (simp add: once_def a pending_def reap_callbacks_def)
  next
    case (Some m)
    let ?m = "filter (\<lambda>(_, nv). \<not> now - nv_time nv > TIMEOUT) m"
    have p: "pending st = map (nv_data \<circ> snd) m" "pending (reap_callbacks now st) = map (nv_data \<circ> snd) ?m"
      "callbacks (reap_callbacks now st) = Some ?m"
      using Some by (simp_all add: pending_def reap_callbacks_def)
    have "set (map (nv_data \<circ> snd) ?m) \<subseteq> set (map (nv_data \<circ> snd) m)" by auto
    moreover have "distinct (map (nv_data \<circ> snd) ?m)" using assms distinct_map_filter unfolding once_def p(1) by blast
    ultimately show ?thesis using assms Some unfolding once_def a p by auto
  qed
qed

lemma filter_drops:
  assumes "distinct (map g m)" "e \<in> set m" "\<not> P e"
  shows "g e \<notin> set (map g (filter P m))"
proof
  assume "g e \<in> set (map g (filter P m))"
  then obtain x where "x \<in> set m" "P x" "g x = g e" by auto
  then show False using assms by (metis distinct_map inj_onD)
qed

text \<open>Taking a waiting call out, and running its callback or not, keeps the invariant.\<close>

lemma once_taken:
  assumes "once used st" "table_get (callbacks st) i = Some nv"
    "callbacks st' = table_remove (callbacks st) i" "answers st' = answers st \<or> answers st' = answers st @ [nv_data nv]"
  shows "once used st'"
proof -
  obtain m where m: "callbacks st = Some m" "hm_get m i = Some nv"
    using assms(2) by (auto simp: table_get_def split: option.splits)
  have e: "(i, nv) \<in> set m" using m(2) by (auto simp: hm_get_def dest: map_of_SomeD)
  let ?m = "filter (\<lambda>e. fst e \<noteq> i) m"
  have c: "callbacks st' = Some ?m" using assms(3) m(1) by (simp add: table_remove_def hm_remove_def)
  have p: "pending st = map (nv_data \<circ> snd) m" "pending st' = map (nv_data \<circ> snd) ?m"
    using m(1) c by (simp_all add: pending_def)
  have d: "distinct (map (nv_data \<circ> snd) m)" using assms(1) p(1) by (simp add: once_def)
  have "nv_data nv \<notin> set (pending st')" using filter_drops[OF d e, of "\<lambda>e. fst e \<noteq> i"] p(2) by simp
  moreover have "nv_data nv \<in> set (pending st)" using e unfolding p(1) by force
  moreover have "set (pending st') \<subseteq> set (pending st)" unfolding p by auto
  moreover have "distinct (pending st')" unfolding p using d distinct_map_filter by blast
  moreover have "\<forall>(i, nv) \<in> set ?m. nv_type nv \<noteq> CONTROL_CHANGED" using assms(1) m(1) by (auto simp: once_def)
  ultimately show ?thesis
    using assms(1,4) c unfolding once_def by (auto simp del: set_map)
qed

lemma answers_run:
  "answers (run_callback cb data ps t k st) = answers st \<or>
   t \<noteq> CONTROL_CHANGED \<and> answers (run_callback cb data ps t k st) = answers st @ [data]"
  "callbacks (run_callback cb data ps t k st) = callbacks st"
  "t = CONTROL_CHANGED \<Longrightarrow> answers (run_callback cb data ps t k st) = answers st"
  by (auto simp: answers_def run_callback_def split: option.splits)

lemma once_same:
  "once used st \<Longrightarrow> answers st' = answers st \<Longrightarrow> callbacks st' = callbacks st \<Longrightarrow> once used st'"
  by (simp add: once_def pending_def)

lemma once_response:
  assumes "once used st" "handle_callback_response msg i ps st = Inr st'"
  shows "once used st'"
proof (cases "msg = CONTROL_CHANGED")
  case True
  then have "answers st' = answers st" "callbacks st' = callbacks st"
    using assms(2) answers_run(2,3) by (auto simp: handle_callback_response_def split: option.splits)
  then show ?thesis using once_same assms(1) by blast
next
  case False
  show ?thesis
  proof (cases "table_get (callbacks st) i")
    case None
    then show ?thesis using assms False by (simp add: handle_callback_response_def)
  next
    case (Some nv)
    let ?st1 = "st\<lparr>callbacks := table_remove (callbacks st) i\<rparr>"
    let ?run = "run_callback (nv_cb nv) (nv_data nv) ps (nv_type nv) (nv_key nv) ?st1"
    have "st' = ?run \<or> answers st' = answers ?st1 \<and> callbacks st' = callbacks ?st1"
      using assms(2) False Some
      by (auto simp: handle_callback_response_def Let_def res_simps split: option.splits if_splits prod.splits)
    then have "callbacks st' = table_remove (callbacks st) i"
      "answers st' = answers st \<or> answers st' = answers st @ [nv_data nv]"
      using answers_run(1)[of "nv_cb nv" "nv_data nv" ps "nv_type nv" "nv_key nv" ?st1] answers_run(2) by auto
    then show ?thesis using once_taken[OF assms(1) Some] by blast
  qed
qed

lemma once_reply: "once used st \<Longrightarrow> handle_reply m sz stale st = Inr (n, stale', st') \<Longrightarrow> once used st'"
proof (cases "buxton_deserialize_message m sz")
  case (Inr x)
  then show "once used st \<Longrightarrow> handle_reply m sz stale st = Inr (n, stale', st') \<Longrightarrow> once used st'"
  proof (cases x)
    case (Some y)
    obtain r_msg i ps where y: "y = (r_msg, i, ps)" by (cases y)
    assume "once used st" "handle_reply m sz stale st = Inr (n, stale', st')"
    then show ?thesis
      using Inr Some y once_response[of used st r_msg i ps st']
      by (auto simp: handle_reply_def res_simps split: if_splits)
  qed (auto simp: handle_reply_def split: if_splits)
qed (simp add: handle_reply_def)

lemma once_loop: "once used st \<Longrightarrow> wire_loop junk rb stale h st sock = Inr (n, st') \<Longrightarrow> once used st'"
proof (induction "sock_size sock" arbitrary: rb stale h st sock rule: less_induct)
  case less
  obtain r rest where r: "sock_read (rb_size rb - rb_offset rb) sock = (r, rest)"
    by (cases "sock_read (rb_size rb - rb_offset rb) sock")
  show ?case
  proof (cases "r = Failed \<or> r = WouldBlock \<or> r = Got []")
    case True
    then show ?thesis using r less.prems by (auto simp: wire_loop.simps[of junk rb])
  next
    case False
    then obtain b where b: "r = Got b" "b \<noteq> []" by (cases r) auto
    have rest: "sock_size rest < sock_size sock" using sock_read_less r b by metis
    show ?thesis
      using less.prems r b less.hyps[OF rest]
      by (subst (asm) wire_loop.simps) (auto simp: res_simps Let_def split: if_splits, (blast dest: once_reply)+)
  qed
qed

lemma once_registered:
  assumes "once used st" "callbacks st = Some cbs" "nv_data nv \<notin> set used" "nv_type nv \<noteq> CONTROL_CHANGED"
    "callbacks st' = Some (cbs @ [(i, nv)])" "answers st' = answers st"
  shows "once (nv_data nv # used) st'"
  using assms by (auto simp: once_def pending_def)

lemma once_more: "once used st \<Longrightarrow> once (x # used) st"
  by (auto simp: once_def)

lemma once_send_message:
  assumes "once used st" "data \<notin> set used" "type \<noteq> CONTROL_CHANGED"
    "send_message slack writes now msg cb data i type key st = Inr (ok, st')"
  shows "once (data # used) st'"
proof -
  let ?st = "reap_callbacks now st"
  have o: "once used ?st" by (rule once_reap[OF assms(1)])
  let ?copy = "case key of None \<Rightarrow> Inr None | Some k \<Rightarrow> bindE (buxton_key_copy slack k) (\<lambda>k'. Inr (Some k'))"
  obtain k where copy: "?copy = Inr k" using assms(4) by (cases ?copy) (auto simp: send_message_def)
  obtain cbs where k: "callbacks ?st = Some cbs"
    "st' = ?st\<lparr>callbacks := Some cbs\<rparr> \<or>
     st' = ?st\<lparr>callbacks := Some (cbs @ [(i, \<lparr>nv_data = data, nv_cb = cb, nv_time = now, nv_type = type, nv_key = k\<rparr>)]),
       written := written ?st @ [msg]\<rparr>"
    using assms(4)
    by (cases "callbacks ?st") (auto simp: send_message_def copy put_block_def Let_def split: option.splits)
  from k(2) show ?thesis
  proof
    assume "st' = ?st\<lparr>callbacks := Some cbs\<rparr>"
    then show ?thesis using once_same[OF once_more[OF o]] k(1) by simp
  next
    assume st': "st' = ?st\<lparr>callbacks := Some (cbs @ [(i, \<lparr>nv_data = data, nv_cb = cb, nv_time = now, nv_type = type, nv_key = k\<rparr>)]),
       written := written ?st @ [msg]\<rparr>"
    show ?thesis
      using once_registered[OF o k(1), of "\<lparr>nv_data = data, nv_cb = cb, nv_time = now, nv_type = type, nv_key = k\<rparr>" st' i]
        assms(2,3) st' by simp
  qed
qed

lemma once_request:
  assumes "once used st" "rq_data rq \<notin> set used" "type \<noteq> CONTROL_CHANGED" "send_request rq type i ps key st = Inr (ok, st')"
  shows "once (rq_data rq # used) st'"
  using assms(4) once_send_message[OF assms(1-3)] once_more[OF assms(1)]
  by (auto simp: send_request_def res_simps split: option.splits)

lemma once_call:
  assumes "once used st" "rq_data rq \<notin> set used" "send_call rq c st = Inr (ok, st')"
  shows "once (rq_data rq # used) st'"
proof -
  let ?st = "st\<lparr>cs_msgid := cs_msgid st + 1\<rparr>"
  have o: "once used ?st" using once_same[OF assms(1), of ?st] by simp
  have t: "call_type c \<noteq> CONTROL_CHANGED" by (cases c) simp_all
  obtain ps where "send_request rq (call_type c) (cs_msgid st) ps (call_key c) ?st = Inr (ok, st')"
    using assms(3)
    by (cases c) (auto simp: get_msgid_def res_simps buxton_wire_set_value_def buxton_wire_set_label_def
      buxton_wire_create_group_def buxton_wire_remove_group_def buxton_wire_get_value_def buxton_wire_get_label_def
      buxton_wire_unset_value_def buxton_wire_list_keys_def buxton_wire_list_names_def
      buxton_wire_register_notification_def buxton_wire_unregister_notification_def split del: if_split)
  then show ?thesis by (rule once_request[OF o assms(2) t])
qed

lemma once_run: "client_run used st \<Longrightarrow> once used st"
proof (induction rule: client_run.induct)
  case start
  then show ?case by (simp add: once_def answers_def pending_def idle_client_def)
next
  case (call used st rq c ok st')
  then show ?case using once_call by blast
next
  case (look used st junk now sock n st')
  then show ?case using once_loop[OF once_reap] by (simp add: buxton_wire_handle_response_def)
next
  case (close used st)
  then show ?case by (auto simp: once_def pending_def cleanup_callbacks_def)
next
  case (again used st)
  then show ?case by (auto simp: once_def pending_def setup_callbacks_def)
qed

text \<open>C29. Every call is answered at most once. In a process that makes calls (each with data of its own),
  looks for replies, closes its connection and opens it again, whatever the daemon sends: no two of the
  callbacks run for replies belong to the same call, each of them belongs to a call that was made, and no
  call that was answered still waits for an answer.\<close>

theorem answered_at_most_once:
  assumes "client_run used st"
  shows "distinct (answers st) \<and> set (answers st) \<subseteq> set used \<and> set (answers st) \<inter> set (pending st) = {}"
  using once_run[OF assms] by (simp add: once_def)

section \<open>A sample run\<close>

text \<open>Witnesses use the sample daemon, in which the value 7 was stored, and a client with a free table.\<close>

definition sample_rq :: request_env where
  "sample_rq = \<lparr>rq_slack = (\<lambda>_. []), rq_writes = (\<lambda>_. True), rq_now = 0, rq_callback = Some 4, rq_data = 5\<rparr>"

lemma sample_client_free:
  "callbacks (reap_callbacks (rq_now sample_rq) idle_client) = Some []" "hm_get ([] :: callback_table) (cs_msgid idle_client) = None"
  "notify_callbacks idle_client = Some []" "rq_callback sample_rq = Some 4" "cs_msgid idle_client = 0"
  "ran idle_client = []" "rq_now sample_rq = 0" "rq_data sample_rq = 5" "rq_slack sample_rq = (\<lambda>_. [])"
  by (simp_all add: sample_rq_def idle_client_def reap_callbacks_def)

lemma pack_wire: "length s + 1 < 2 ^ 32 \<Longrightarrow> wire_string (buxton_string_pack s)"
  by (simp add: wire_string_def str_exact_def buxton_string_pack_def zstr_def unat_word_ariths unat_of_nat)

lemma sample_keys_wire: "wire_key (layer_key ''sys'' ''g'' (Some ''k'') t)" "wire_key (plain_key ''g'' (Some ''k'') t)"
  by (simp_all add: wire_key_def layer_key_def plain_key_def pack_wire)
    (simp add: wire_string_def str_exact_def null_string_def)

lemma sample_send:
  assumes "sendable c"
  obtains st1 where "send_call sample_rq c idle_client = Inr (True, st1)"
proof -
  obtain msg where m: "buxton_serialize_message (control_code (call_type c)) (cs_msgid idle_client) (call_params c) = Inr (Some msg)"
    by (rule call_encoded[OF assms])
  obtain nv where "send_call sample_rq c idle_client = Inr (rq_writes sample_rq (written idle_client @ [msg]),
      (reap_callbacks (rq_now sample_rq) idle_client)\<lparr>cs_msgid := cs_msgid idle_client + 1,
        callbacks := Some ([] @ [(cs_msgid idle_client, nv)]), written := written idle_client @ [msg]\<rparr>)"
    by (rule call_sends[OF assms sample_client_free(1,2) m])
  then show ?thesis using that by (simp add: sample_rq_def)
qed

lemma sample_get_layerless:
  assumes "system_ok ctl" "same_setup sample_ctl ctl"
    "group_contents ctl (sample_layer LAYER_SYSTEM 5 ''sys'') ''g'' None = Some (group_value, zstr ''App'')"
    "group_contents ctl (sample_layer LAYER_SYSTEM 5 ''sys'') ''g'' (Some ''k'') = Some (DInt32 7, zstr ''App'')"
    "group_contents ctl (sample_layer LAYER_USER 9 ''usr'') ''g'' None = None"
  shows "\<exists>ctl'. daemon_get_value memory_env (sample_daemon\<lparr>buxton := ctl\<rparr>) app_client
      (plain_key ''g'' (Some ''k'') BUXTON_TYPE_INT32) = Inr (Some (DInt32 7), 0, sample_daemon\<lparr>buxton := ctl'\<rparr>)"
proof -
  let ?key = "plain_key ''g'' (Some ''k'') BUXTON_TYPE_INT32"
  let ?s = "sample_layer LAYER_SYSTEM 5 ''sys''" and ?u = "sample_layer LAYER_USER 9 ''usr''"
  have uid: "ctl\<lparr>client_uid := 0\<rparr> = ctl" "client_uid ctl = 0" using assms(2) by (simp_all add: same_setup_def sample_ctl_def)
  have rl: "rules ctl = rules sample_ctl" using assms(2) by (simp add: same_setup_def)
  have "map (\<lambda>(n, l). (n, l\<lparr>layer_uid := 0\<rparr>)) (layers (config ctl)) = [(''sys'', ?s), (''usr'', ?u)]"
    using assms(2) by (simp add: same_setup_def sample_ctl_def sample_layer_def)
  then obtain a b where ab: "layers (config ctl) = [(''sys'', a), (''usr'', b)]" "a\<lparr>layer_uid := 0\<rparr> = ?s" "b\<lparr>layer_uid := 0\<rparr> = ?u"
    by (auto simp: map_eq_Cons_conv)
  let ?found = "\<lambda>l. read_spec (rules ctl) (Some ''App'')
      (group_contents ctl (l\<lparr>layer_uid := 0\<rparr>) ''g'') (Some ''k'') BUXTON_TYPE_INT32"
  have f: "?found a = (0, Some (DInt32 7, zstr ''App''))" "fst (?found b) = ENOENT"
    using assms(3-5) sample_may[of ACCESS_READ]
    by (simp_all add: ab read_spec_def read_entry_def rl client_may_def[of _ None])
  have cs: "filter (\<lambda>l. fst (?found l) = 0) (map snd (layers (config ctl))) = [a]" using f by (simp add: ab(1))
  have k: "key_ok ?key ''g'' (Some ''k'')" by (rule plain_key_ok) (simp_all add: key_text_def)
  have p: "key_type ?key = BUXTON_TYPE_INT32" "str_value (key_layer ?key) = None"
    "\<forall>nm \<in> fst ` set (layers (config ctl)). length nm < 2 ^ 32"
    by (simp_all add: plain_key_def null_string_def ab(1))
  obtain ret out ctl' where "buxton_direct_get_value memory_env ?key (Some (buxton_string_pack ''App'')) ctl = Inr (ret, out, ctl')"
    "ret = 0" "stands_for out (Some (DInt32 7, zstr ''App''))"
    using sys.get_value_ok[unfolded sys_ctl_ok system_env_slack sys.in_layer_def, OF assms(1) k sample_client p(2) _ p(3), of "\<lambda>_. [NUL]" None no_gdbm] cs f p(1)
    by (auto simp: best_pick_def uid(2) group_contents_def)
  moreover have "as_client app_client (sample_daemon\<lparr>buxton := ctl\<rparr>) = ctl"
    "smack_label app_client = Some (buxton_string_pack ''App'')"
    using uid(1) by (simp_all add: as_client_def app_client_def)
  ultimately show ?thesis by (auto simp: daemon_get_value_def stands_for_def)
qed

lemma sample_goes_through:
  assumes "buxton_deserialize_message msg (length msg) = Inr (Some (m, i, ps))" "parse_list m ps = Some (key, v)"
    "run_request env self client m i key v = Inr (Some (oc, d1))" "reply_params m oc = Inr params"
    "list_all wire_ok params" "length params \<le> 4096" "m \<noteq> CONTROL_SET" "m \<noteq> CONTROL_UNSET"
  shows "\<exists>d. buxtond_handle_message env (\<lambda>_. True) self client msg (length msg) = Inr (True, d)"
proof -
  obtain reply where r: "serialize_reply i params = Inr reply"
  proof -
    have "\<forall>d \<in> set params. wire_ok d" using assms(5) by (simp add: list_all_iff)
    then have "\<exists>b. serialize_reply i params = Inr b"
      unfolding serialize_reply_def by (rule message_roundtrip_lemma[OF _ assms(6), of CONTROL_STATUS i]) simp_all
    then show ?thesis using that by blast
  qed
  have "answer env (\<lambda>_. True) self client m i key v = Inr (True, d1\<lparr>sent := sent d1 @ [(cl_fd client, reply)]\<rparr>)"
    unfolding answer_def assms(3) bindE_Inr option.case prod.case assms(4) r Let_def using assms(7,8) by simp
  then show ?thesis unfolding buxtond_handle_message_def assms(1) Let_def by (simp add: assms(2))
qed

theorem request_understood_witness:
  "\<exists>msg nv ps. waits sample_rq (UnsetValue (layer_key ''sys'' ''g'' (Some ''k'') 1)) nv \<and>
    buxton_deserialize_message msg (length msg) = Inr (Some (CONTROL_UNSET, 0, ps)) \<and>
    parse_list CONTROL_UNSET ps = Some (layer_key ''sys'' ''g'' (Some ''k'') 1, None)"
proof -
  have s: "sendable (UnsetValue (layer_key ''sys'' ''g'' (Some ''k'') 1))" by (simp add: sample_keys_wire)
  show ?thesis using request_understood[OF s sample_client_free(1,2)] sample_client_free(5) by auto
qed

theorem call_answered_witness:
  "\<exists>ctl st1 d reply news st2 r. send_call sample_rq (GetValue (layer_key ''sys'' ''g'' (Some ''k'') BUXTON_TYPE_INT32)) idle_client = Inr (True, st1) \<and>
    buxtond_handle_message memory_env (\<lambda>_. True) (sample_daemon\<lparr>buxton := ctl\<rparr>) app_client
      (last (written st1)) (length (last (written st1))) = Inr (True, d) \<and> sent d = (6, reply) # news \<and>
    buxton_wire_handle_response (\<lambda>_. NUL) 1 (map Bytes (map (\<lambda>c. [c]) reply)) st1 = Inr (1, st2) \<and>
    ran st2 = [(4, 5, r)] \<and> buxton_response_value (Some r) = Inr (Some (DInt32 7))"
proof -
  let ?k = "layer_key ''sys'' ''g'' (Some ''k'') BUXTON_TYPE_INT32"
  obtain ctl where c: "system_ok ctl" "same_setup sample_ctl ctl"
    "group_contents ctl (sample_layer LAYER_SYSTEM 5 ''sys'') ''g'' None = Some (group_value, zstr ''App'')"
    "group_contents ctl (sample_layer LAYER_SYSTEM 5 ''sys'') ''g'' (Some ''k'') = Some (DInt32 7, zstr ''App'')"
    using sample_stored by blast
  let ?d = "sample_daemon\<lparr>buxton := ctl\<rparr>"
  have s: "sendable (GetValue ?k)" by (simp add: sample_keys_wire)
  obtain st1 where st1: "send_call sample_rq (GetValue ?k) idle_client = Inr (True, st1)" by (rule sample_send[OF s])
  obtain msg nv ps where m: "written st1 = written idle_client @ [msg]"
    "buxton_deserialize_message msg (length msg) = Inr (Some (CONTROL_GET, 0, ps))" "parse_list CONTROL_GET ps = Some (?k, None)"
    by (rule call_sent[OF s sample_client_free(1,2) st1, unfolded meant.simps call_type.simps sample_client_free(5)]) blast
  let ?oc = "\<lparr>o_response = 0, o_data = Some (DInt32 7), o_list = None, o_msgid = 0\<rparr>"
  obtain d1 where run: "run_request memory_env ?d app_client CONTROL_GET 0 ?k None = Inr (Some (?oc, d1))"
    using sample_get_stored[OF c] by (auto simp: run_request_def)
  have "\<exists>d. buxtond_handle_message memory_env (\<lambda>_. True) ?d app_client msg (length msg) = Inr (True, d)"
    by (rule sample_goes_through[OF m(2,3) run, of "[DInt32 0, DInt32 7]"]) (simp_all add: reply_params_def)
  then obtain d where d: "buxtond_handle_message memory_env (\<lambda>_. True) ?d app_client
      (last (written st1)) (length (last (written st1))) = Inr (True, d)" using m(1) by auto
  have se: "sent ?d = []" "cl_fd app_client = 6" by (simp_all add: sample_daemon_def app_client_def)
  have mt: "meant (GetValue ?k) = Some (?k, None)" by simp
  have "\<exists>reply news s xs. sent d = (6, reply) # news \<and> reply_params CONTROL_GET ?oc = Inr (DInt32 s # xs) \<and>
    serialize_reply 0 (DInt32 s # xs) = Inr reply \<and>
    (\<forall>bs. list_all wire_ok xs \<and> length xs < 4096 \<and> length reply \<le> BUXTON_MESSAGE_MAX_LENGTH \<and>
       [] \<notin> set bs \<and> concat bs = reply \<longrightarrow>
     (\<exists>st2 r. buxton_wire_handle_response (\<lambda>_. NUL) 1 (map Bytes bs) st1 = Inr (1, st2) \<and>
       ran st2 = [(4, 5, r)] \<and> r_type r = CONTROL_GET \<and> value_item r = Some (DInt32 7)))"
    using call_answered[OF s sample_client_free(1,2) mt sample_client_free(4) st1 sample_registry(2) app_known(2) d,
        of 1 "\<lambda>_. NUL"]
    by (simp add: run se sample_client_free TIMEOUT_def) blast
  then obtain reply news where a: "sent d = (6, reply) # news" "serialize_reply 0 [DInt32 0, DInt32 7] = Inr reply"
    "\<And>bs. length reply \<le> BUXTON_MESSAGE_MAX_LENGTH \<and> [] \<notin> set bs \<and> concat bs = reply \<longrightarrow>
     (\<exists>st2 r. buxton_wire_handle_response (\<lambda>_. NUL) 1 (map Bytes bs) st1 = Inr (1, st2) \<and>
       ran st2 = [(4, 5, r)] \<and> r_type r = CONTROL_GET \<and> value_item r = Some (DInt32 7))"
    by (auto simp: reply_params_def)
  have "length reply = 36" using a(2) by (auto simp: serialize_reply_def buxton_serialize_message_def)
  then obtain st2 r where "buxton_wire_handle_response (\<lambda>_. NUL) 1 (map Bytes (map (\<lambda>c. [c]) reply)) st1 = Inr (1, st2)"
    "ran st2 = [(4, 5, r)]" "r_type r = CONTROL_GET" "value_item r = Some (DInt32 7)"
    using a(3)[of "map (\<lambda>c. [c]) reply"] by (auto simp: image_iff)
  moreover from this have "buxton_response_value (Some r) = Inr (Some (DInt32 7))"
    by (simp add: buxton_response_value_def)
  ultimately show ?thesis using st1 d a(1) by blast
qed

text \<open>A daemon in which the client has a registration.\<close>

definition registered_daemon :: "(Resources \<times> Resources) BuxtonDaemon" where
  "registered_daemon = sample_daemon\<lparr>
     notify_mapping := [(''g'' @ CHR 0x0A # ''k'', [\<lparr>n_client = 1, old_data = Some (DInt32 7), n_msgid = 77\<rparr>])],
     client_key_mapping := [(6, [''g'' @ CHR 0x0A # ''k''])]\<rparr>"

lemma registered_ok: "registry_ok registered_daemon" "known registered_daemon app_client"
  by (auto simp: registry_ok_def matched_def registered_daemon_def sample_daemon_def known_def app_client_def
      entries_def hm_get_def listed_def hm_ok_def split: option.splits)

theorem unregister_overreads_witness:
  "\<exists>st1 d reply. buxtond_handle_message memory_env (\<lambda>_. True) registered_daemon app_client
      (last (written st1)) (length (last (written st1))) = Inr (True, d) \<and>
    send_call sample_rq (Unregister (layer_key ''sys'' ''g'' (Some ''k'') BUXTON_TYPE_INT32)) idle_client = Inr (True, st1) \<and>
    sent d = [(6, reply)] \<and> buxton_wire_handle_response (\<lambda>_. NUL) 1 (map Bytes (map (\<lambda>c. [c]) reply)) st1 = Inl OutOfBounds"
proof -
  let ?k = "layer_key ''sys'' ''g'' (Some ''k'') BUXTON_TYPE_INT32" and ?d = registered_daemon
  have s: "sendable (Unregister ?k)" by (simp add: sample_keys_wire)
  obtain st1 where st1: "send_call sample_rq (Unregister ?k) idle_client = Inr (True, st1)" by (rule sample_send[OF s])
  let ?k' = "?k\<lparr>key_layer := null_string\<rparr>"
  obtain msg nv ps where m: "written st1 = written idle_client @ [msg]"
    "buxton_deserialize_message msg (length msg) = Inr (Some (CONTROL_UNNOTIFY, 0, ps))" "parse_list CONTROL_UNNOTIFY ps = Some (?k', None)"
    by (rule call_sent[OF s sample_client_free(1,2) st1, unfolded meant.simps call_type.simps sample_client_free(5)]) blast
  have nm: "notify_key_name ?k' = Inr (Some (''g'' @ CHR 0x0A # ''k''))"
    by (simp add: notify_key_name_def layer_key_def plain_key_def buxton_string_pack_def eval_simps)
  obtain d1 where u: "unregister_notification ?d app_client ?k' = Inr (77, 0, d1)"
    by (simp add: unregister_notification_def nm registered_daemon_def hm_get_def find_client_def app_client_def)
  let ?oc = "\<lparr>o_response = 0, o_data = None, o_list = None, o_msgid = 77\<rparr>"
  have run: "run_request memory_env ?d app_client CONTROL_UNNOTIFY 0 ?k' None = Inr (Some (?oc, d1))"
    using u by (simp add: run_request_def)
  have "\<exists>d. buxtond_handle_message memory_env (\<lambda>_. True) ?d app_client msg (length msg) = Inr (True, d)"
    by (rule sample_goes_through[OF m(2,3) run, of "[DInt32 0, DUInt32 77]"]) (simp_all add: reply_params_def)
  then obtain d where d: "buxtond_handle_message memory_env (\<lambda>_. True) ?d app_client
      (last (written st1)) (length (last (written st1))) = Inr (True, d)" using m(1) by auto
  obtain reply where "sent d = sent ?d @ [(6, reply)]"
    "\<And>bs. [] \<notin> set bs \<and> concat bs = reply \<longrightarrow> buxton_wire_handle_response (\<lambda>_. NUL) 1 (map Bytes bs) st1 = Inl OutOfBounds"
    using unregister_overreads[OF s sample_client_free(1,2) st1 registered_ok d u, of 1 "\<lambda>_. NUL"]
    by (auto simp: sample_client_free TIMEOUT_def app_client_def)
  moreover from this(2)[of "map (\<lambda>c. [c]) reply"]
  have "buxton_wire_handle_response (\<lambda>_. NUL) 1 (map Bytes (map (\<lambda>c. [c]) reply)) st1 = Inl OutOfBounds" by (auto simp: image_iff)
  moreover have "sent ?d = []" by (simp add: registered_daemon_def sample_daemon_def)
  ultimately show ?thesis using st1 d by auto
qed


lemma ok_reply_decodes:
  "buxton_deserialize_message ok_reply (length ok_reply) = Inr (Some (CONTROL_STATUS, 5, [DInt32 0]))"
  by (rule message_back) (simp_all add: ok_reply_def buxton_serialize_message_def)

theorem malformed_reply_frees_twice_witness:
  "buxton_wire_handle_response (\<lambda>_. NUL) 0
     [Bytes (ok_reply @ le_bytes 2 7 @ le_bytes 2 8 @ le_bytes 4 16 @ w32_bytes 1 @ le_bytes 4 0)] idle_client = Inl DoubleFree"
proof -
  define m2 where "m2 = le_bytes 2 7 @ le_bytes 2 8 @ le_bytes 4 16 @ w32_bytes 1 @ le_bytes 4 0"
  have l: "length m2 = 16" by (simp add: m2_def)
  have m2: "framed m2" "buxton_deserialize_message m2 (length m2) = Inr None"
    using l by (simp_all add: framed_def buxton_deserialize_message_def buxton_get_message_size_def m2_def rd_def)
  have i: "table_get (callbacks (reap_callbacks 0 idle_client)) 5 = None"
    by (simp add: table_get_def reap_callbacks_def idle_client_def)
  have ne: "m2 \<noteq> []" using l by auto
  have "buxton_wire_handle_response (\<lambda>_. NUL) 0 (map Bytes [ok_reply @ m2]) idle_client = Inl DoubleFree"
    using malformed_reply_frees_twice[OF ok_reply_decodes i m2(2) ok_reply_framed m2(1), of "[ok_reply @ m2]"] ne by simp
  then show ?thesis by (simp add: m2_def)
qed

theorem cut_reply_lost_witness:
  "\<exists>st1. buxton_wire_handle_response (\<lambda>_. NUL) 1 [Bytes (take 20 ok_reply)] idle_client = Inr (0, st1) \<and>
    buxton_wire_handle_response (\<lambda>_. NUL) 2 [Bytes (drop 20 ok_reply)] st1 = Inr (0, reap_callbacks 2 st1)"
proof -
  have l: "length ok_reply = 26" by (simp add: ok_reply_def)
  then have "drop 20 ok_reply \<noteq> []" "take 20 ok_reply \<noteq> []" by auto
  then show ?thesis
    using cut_reply_lost[OF ok_reply_framed, of "[take 20 ok_reply]" "[drop 20 ok_reply]" "\<lambda>_. NUL" 1 idle_client 2] l by auto
qed

theorem answered_at_most_once_witness:
  "\<exists>st. client_run [5] st \<and> answers st = [5] \<and> set (answers st) \<inter> set (pending st) = {}"
proof -
  let ?c = "UnsetValue (layer_key ''sys'' ''g'' (Some ''k'') 1)"
  have s: "sendable ?c" by (simp add: sample_keys_wire)
  obtain st1 where st1: "send_call sample_rq ?c idle_client = Inr (True, st1)" by (rule sample_send[OF s])
  obtain msg nv ps where m: "waits sample_rq ?c nv" "table_get (callbacks st1) 0 = Some nv" "ran st1 = ran idle_client"
    by (rule call_sent[OF s sample_client_free(1,2) st1, unfolded sample_client_free(5)]) blast
  have nv: "nv_cb nv = Some 4" "nv_data nv = 5" "nv_type nv = CONTROL_UNSET" "nv_time nv = 0"
    using m(1) by (simp_all add: waits_def sample_rq_def)
  have "\<forall>d \<in> set [DInt32 0]. wire_ok d" by simp
  then have "\<exists>b. serialize_reply 0 [DInt32 0] = Inr b"
    unfolding serialize_reply_def by (rule message_roundtrip_lemma[of _ CONTROL_STATUS 0]) simp_all
  then obtain reply where r: "serialize_reply 0 [DInt32 0] = Inr reply" by blast
  have l: "length reply = 26" by (rule reply_length(1)[OF r])
  have g: "table_get (callbacks (reap_callbacks 1 st1)) 0 = Some nv"
    by (rule reaped_get[OF m(2)]) (simp add: nv TIMEOUT_def)
  obtain st2 where h: "handle_callback_response CONTROL_STATUS 0 [DInt32 0] (reap_callbacks 1 st1) = Inr st2"
    "ran st2 = [(4, 5, \<lparr>r_type = CONTROL_UNSET, r_data = [DInt32 0], r_key = nv_key nv\<rparr>)]"
    using plain_reply[OF g nv(1), of "[DInt32 0]"] nv m(3) sample_client_free(6) by simp
  have "reply \<noteq> []" using l by auto
  then have w: "buxton_wire_handle_response (\<lambda>_. NUL) 1 (map Bytes [reply]) st1 = Inr (1, st2)"
    using reply_handled[OF r, of "[reply]" "\<lambda>_. NUL" 1 st1] h(1) l by simp
  have "client_run [5] st2"
    using client_run.look[OF client_run.call[OF client_run.start _ st1] w] sample_client_free(8) by simp
  moreover from answered_at_most_once[OF this] have "set (answers st2) \<inter> set (pending st2) = {}" by simp
  moreover have "answers st2 = [5]" using h(2) by (simp add: answers_def)
  ultimately show ?thesis by blast
qed

section \<open>Keys and connections of a process\<close>

lemma created_key:
  assumes "buxton_key_create g n l t st = (Some i, st')"
  shows "i = key_count st" "key_count st' = i + 1" "ls_client st' = ls_client st"
    "find_key (Some j) st' = (if j = i \<and> find_key (Some i) st = None
       then Some \<lparr>key_group = packed g, key_name = packed n, key_layer = packed l, key_type = t\<rparr>
       else find_key (Some j) st)"
    "\<exists>k. key_hash st' = Some (snd (hm_put (case key_hash st of None \<Rightarrow> [] | Some m \<Rightarrow> m) (key_count st) k))"
  using assms
  by (auto simp: buxton_key_create_def find_key_def Let_def hm_get_put split: if_splits option.splits)

text \<open>A process with its keys: numbers are given out in order.\<close>

definition keys_ok :: "library_state \<Rightarrow> bool" where
  "keys_ok st \<longleftrightarrow> (\<forall>m. key_hash st = Some m \<longrightarrow> hm_ok m \<and> (\<forall>(i, k) \<in> set m. i < key_count st))"

lemma keys_ok_fresh: "keys_ok st \<Longrightarrow> find_key (Some (key_count st)) st = None"
  by (auto simp: keys_ok_def find_key_def hm_get_None split: option.splits)

lemma keys_ok_created:
  assumes "keys_ok st" "buxton_key_create g n l t st = (Some i, st1)"
  shows "keys_ok st1"
proof -
  let ?m = "case key_hash st of None \<Rightarrow> [] | Some m \<Rightarrow> m"
  obtain k where k: "key_hash st1 = Some (snd (hm_put ?m (key_count st) k))" "key_count st1 = key_count st + 1"
    using created_key(1,2,5)[OF assms(2)] by auto
  have m: "hm_ok ?m" "\<forall>(j, x) \<in> set ?m. j < key_count st"
    using assms(1) by (cases "key_hash st"; force simp: keys_ok_def)+
  have "(j, x) \<in> set (snd (hm_put ?m (key_count st) k)) \<Longrightarrow> j < key_count st + 1" for j x
    using m(2) by (auto simp: hm_put_def less_Suc_eq split: option.splits if_splits)
  then show ?thesis using k hm_ok_put[OF m(1)] by (auto simp: keys_ok_def)
qed

text \<open>The life of a key: a key that was made for the arguments is what the calls find, and other keys
  stay; it can be freed once; freeing it again, or freeing any key after a connection was closed, frees
  freed memory, since closing any connection (or none) frees all keys of the process.\<close>

theorem key_lives_until_close:
  assumes "keys_ok st" "buxton_key_create g n l t st = (Some i, st1)"
  shows "find_key (Some i) st1 =
      Some \<lparr>key_group = packed g, key_name = packed n, key_layer = packed l, key_type = t\<rparr> \<and>
    (\<forall>j. j \<noteq> i \<longrightarrow> find_key (Some j) st1 = find_key (Some j) st) \<and> keys_ok st1 \<and>
    (\<exists>st2. buxton_key_free (Some i) st1 = Inr st2 \<and> keys_ok st2 \<and> buxton_key_free (Some i) st2 = Inl DoubleFree \<and>
      (\<forall>j. j \<noteq> i \<longrightarrow> find_key (Some j) st2 = find_key (Some j) st)) \<and>
    (\<forall>c j. buxton_key_free (Some j) (buxton_close c st1) = Inl DoubleFree)"
proof -
  note k = created_key[OF assms(2)]
  have f: "find_key (Some i) st = None" using keys_ok_fresh[OF assms(1)] k(1) by simp
  then have fi: "find_key (Some i) st1 \<noteq> None" using k(4)[of i] by simp
  have ok1: "keys_ok st1" by (rule keys_ok_created[OF assms])
  obtain m where m: "key_hash st1 = Some m" using fi by (auto simp: find_key_def split: option.splits)
  let ?st2 = "st1\<lparr>key_hash := Some (snd (hm_remove m i))\<rparr>"
  have "buxton_key_free (Some i) st1 = Inr ?st2" using fi m by (simp add: buxton_key_free_def)
  moreover have "find_key (Some j) ?st2 = (if j = i then None else find_key (Some j) st1)" for j
    using m by (simp add: find_key_def hm_get_remove)
  moreover have "keys_ok ?st2" using ok1 m by (auto simp: keys_ok_def hm_ok_remove, auto simp: hm_remove_def)
  moreover have "buxton_key_free (Some j) (buxton_close c st1) = Inl DoubleFree" for c j
    by (simp add: buxton_key_free_def find_key_def buxton_close_def)
  ultimately show ?thesis using k(4) f ok1 by (auto simp: buxton_key_free_def)
qed

definition fresh_process :: library_state where
  "fresh_process = \<lparr>ls_client = \<lparr>cs_msgid = 0, callbacks = None, notify_callbacks = None, written = [], ran = []\<rparr>,
     key_hash = None, key_count = 0\<rparr>"

theorem key_lives_until_close_witness:
  "\<exists>st1. buxton_key_create (Some ''g'') (Some ''k'') None 2 fresh_process = (Some 0, st1) \<and>
     buxton_key_free (Some 0) (buxton_close True st1) = Inl DoubleFree"
proof -
  have k: "keys_ok fresh_process" by (simp add: keys_ok_def fresh_process_def)
  obtain st1 where c: "buxton_key_create (Some ''g'') (Some ''k'') None 2 fresh_process = (Some 0, st1)"
    by (simp add: buxton_key_create_def fresh_process_def word_le_nat_alt)
  show ?thesis using key_lives_until_close[OF k c] c by auto
qed

text \<open>A process has one connection: while one is open, opening another fails and changes nothing. Closing
  drops all calls and registrations that wait without running their callbacks, and only then a connection can
  be opened again.\<close>

theorem one_connection:
  assumes "buxton_open True fd st = (fd, st1)" "fd \<noteq> - 1"
  shows "buxton_open True fd' st1 = (- 1, st1) \<and>
    (let st2 = buxton_close True st1; (r, st3) = buxton_open True fd' st2
     in callbacks (ls_client st2) = None \<and> notify_callbacks (ls_client st2) = None \<and>
        ran (ls_client st2) = ran (ls_client st1) \<and> r = fd' \<and>
        callbacks (ls_client st3) = Some [] \<and> notify_callbacks (ls_client st3) = Some [])"
  using assms
  by (auto simp: buxton_open_def setup_callbacks_def buxton_close_def cleanup_callbacks_def Let_def split: if_splits)

theorem one_connection_witness:
  "\<exists>st1. buxton_open True 3 fresh_process = (3, st1) \<and> buxton_open True 4 st1 = (- 1, st1)"
proof -
  obtain st1 where o: "buxton_open True 3 fresh_process = (3, st1)"
    by (simp add: buxton_open_def setup_callbacks_def fresh_process_def)
  show ?thesis using one_connection[OF o, of 4] o by simp
qed

end
