(* ===== verification/Gdbm.thy ===== *)
theory Gdbm
  imports Memory Serialize
begin

text \<open>
  The gdbm backend, \<open>src/db/gdbm.c\<close>: one file per layer (per layer and user for user layers). The
  library \<open>gdbm\<close> is a parameter: its functions on handles and on a world that holds the files and
  the variable \<open>gdbm_errno\<close>. The locale \<open>gdbm_lib\<close> states what its documentation says of them, and
  under it the module keeps the contract \<open>kv_store\<close> of every backend.
\<close>

section \<open>The library\<close>

datatype gdbm_flag = GDBM_READER | GDBM_WRCREAT

datatype gdbm_error =
    GDBM_NO_ERROR | GDBM_FILE_OPEN_ERROR | GDBM_READER_CANT_STORE | GDBM_READER_CANT_DELETE
  | GDBM_ITEM_NOT_FOUND | GDBM_OTHER_ERROR

record ('f, 'w) gdbm =
  gdbm_open :: "bytes \<Rightarrow> gdbm_flag \<Rightarrow> 'w \<Rightarrow> 'f option \<times> 'w"
  gdbm_fetch :: "'f \<Rightarrow> bytes \<Rightarrow> 'w \<Rightarrow> bytes option \<times> 'w"
  gdbm_store :: "'f \<Rightarrow> bytes \<Rightarrow> bytes \<Rightarrow> 'w \<Rightarrow> int \<times> 'w"
  gdbm_delete :: "'f \<Rightarrow> bytes \<Rightarrow> 'w \<Rightarrow> int \<times> 'w"
  gdbm_firstkey :: "'f \<Rightarrow> 'w \<Rightarrow> bytes option \<times> 'w"
  gdbm_nextkey :: "'f \<Rightarrow> bytes \<Rightarrow> 'w \<Rightarrow> bytes option \<times> 'w"
  gdbm_errno :: "'w \<Rightarrow> gdbm_error"

text \<open>The state of the module: \<open>_resources\<close>, and the world.\<close>

record ('f, 'w) gdbm_state =
  handles :: "(bytes \<times> 'f) list"
  disk :: 'w

section \<open>Databases\<close>

text \<open>\<open>get_layer_path\<close> of \<open>src/shared/util.c\<close>; \<open>root\<close> is \<open>buxton_db_path()\<close>.\<close>

definition get_layer_path :: "bytes \<Rightarrow> BuxtonLayer \<Rightarrow> bytes res" where
  "get_layer_path root layer =
     bindE (cstrp (str_value (layer_name layer))) (\<lambda>n. Inr (case layer_type layer of
         LAYER_SYSTEM \<Rightarrow> root @ ''/'' @ n @ ''.db''
       | LAYER_USER \<Rightarrow> root @ ''/'' @ n @ ''-'' @ dec_int (sint (layer_uid layer)) @ ''.db''))"

text \<open>The handle, and what \<open>errno\<close> is set to.\<close>

definition try_open_database :: "('f, 'w) gdbm \<Rightarrow> bytes \<Rightarrow> gdbm_flag \<Rightarrow> 'w \<Rightarrow> ('f option \<times> int \<times> 'w) res" where
  "try_open_database lib path oflag w =
     (let (db, w1) = gdbm_open lib path oflag w
      in if db = None \<and> gdbm_errno lib w1 = GDBM_FILE_OPEN_ERROR then
           (let (db, w2) = gdbm_open lib path GDBM_READER w1 in Inr (db, EROFS, w2))
         else if db = None then Inl Aborted
         else Inr (db, 0, w1))"

definition gdbm_for_resource :: "('f, 'w) gdbm \<Rightarrow> bytes \<Rightarrow> BuxtonLayer \<Rightarrow> ('f, 'w) gdbm_state \<Rightarrow>
    ('f option \<times> int \<times> ('f, 'w) gdbm_state) res" where
  "gdbm_for_resource lib root layer st =
     (let oflag = (if layer_readonly layer then GDBM_READER else GDBM_WRCREAT)
      in bindE (db_name layer) (\<lambda>name. case hm_get (handles st) name of
           Some db \<Rightarrow> Inr (Some db, 0, st)
         | None \<Rightarrow>
             bindE (get_layer_path root layer) (\<lambda>path.
             bindE (try_open_database lib path oflag (disk st)) (\<lambda>(db, save_errno, w). case db of
                 None \<Rightarrow> Inr (None, save_errno, st\<lparr>disk := w\<rparr>)
               | Some f \<Rightarrow>
                   let (r, hs) = hm_put (handles st) name f
                   in if r \<noteq> 1 then Inl Aborted
                      else Inr (Some f, save_errno, st\<lparr>handles := hs, disk := w\<rparr>)))))"

text \<open>The bytes of a key; their number must fit the \<open>int dsize\<close> of a \<open>datum\<close>.\<close>

definition make_key_data :: "BuxtonKey \<Rightarrow> bytes res" where
  "make_key_data key =
     bindE (make_keyrec key) (\<lambda>k. if length k < 2 ^ 31 then Inr k else Inl OutOfBounds)"

section \<open>Module functions\<close>

text \<open>The end of \<open>set_value\<close>: a record is made and stored; its size must fit an \<open>int\<close>, too.\<close>

definition store_record :: "('f, 'w) gdbm \<Rightarrow> 'f \<Rightarrow> bytes \<Rightarrow> BuxtonData \<Rightarrow> BuxtonString \<Rightarrow>
    ('f, 'w) gdbm_state \<Rightarrow> (int \<times> ('f, 'w) gdbm_state) res" where
  "store_record lib db k data label st =
     bindE (buxton_serialize data label) (\<lambda>v.
       let (ret, w) = gdbm_store lib db k v (disk st)
       in if 2 ^ 31 \<le> length v then Inl OutOfBounds
          else if ret \<noteq> 0 \<and> gdbm_errno lib w = GDBM_READER_CANT_STORE then Inr (EROFS, st\<lparr>disk := w\<rparr>)
          else bindE (assertE (ret = 0)) (\<lambda>_. Inr (0, st\<lparr>disk := w\<rparr>)))"

definition gdbm_set_value :: "('f, 'w) gdbm \<Rightarrow> bytes \<Rightarrow> BuxtonLayer \<Rightarrow> BuxtonKey \<Rightarrow> BuxtonData option \<Rightarrow>
    BuxtonString \<Rightarrow> ('f, 'w) gdbm_state \<Rightarrow> (int \<times> ('f, 'w) gdbm_state) res" where
  "gdbm_set_value lib root layer key data label st =
     bindE (make_key_data key) (\<lambda>k.
     bindE (gdbm_for_resource lib root layer st) (\<lambda>(db, err, st). case db of
         None \<Rightarrow> Inr (err, st)
       | Some f \<Rightarrow>
           if err \<noteq> 0 then Inr (err, st)
           else (case data of
               Some d \<Rightarrow> store_record lib f k d label st
             | None \<Rightarrow>
                 (case gdbm_fetch lib f k (disk st) of
                    (None, w) \<Rightarrow> Inr (ENOENT, st\<lparr>disk := w\<rparr>)
                  | (Some v, w) \<Rightarrow>
                      bindE (buxton_deserialize v) (\<lambda>(cdata, _).
                        store_record lib f k cdata label (st\<lparr>disk := w\<rparr>))))))"

text \<open>On a wrong type the value and the label are freed: their pointers are NULL.\<close>

fun freed_data :: "BuxtonData \<Rightarrow> BuxtonData" where
  "freed_data (DString s) = DString (s\<lparr>str_value := None\<rparr>)"
| "freed_data d = d"

definition gdbm_get_value :: "('f, 'w) gdbm \<Rightarrow> bytes \<Rightarrow> BuxtonLayer \<Rightarrow> BuxtonKey \<Rightarrow> ('f, 'w) gdbm_state \<Rightarrow>
    (int \<times> (BuxtonData \<times> BuxtonString) option \<times> ('f, 'w) gdbm_state) res" where
  "gdbm_get_value lib root layer key st =
     bindE (make_key_data key) (\<lambda>k.
     bindE (gdbm_for_resource lib root layer st) (\<lambda>(db, _, st). case db of
         None \<Rightarrow> Inr (- ENOENT, None, st)
       | Some f \<Rightarrow>
           (case gdbm_fetch lib f k (disk st) of
              (None, w) \<Rightarrow> Inr (ENOENT, None, st\<lparr>disk := w\<rparr>)
            | (Some v, w) \<Rightarrow>
                bindE (buxton_deserialize v) (\<lambda>(data, label).
                  if data_type data \<noteq> key_type key \<and> key_type key \<noteq> BUXTON_TYPE_UNSET
                  then Inr (EINVAL, Some (freed_data data, label\<lparr>str_value := None\<rparr>), st\<lparr>disk := w\<rparr>)
                  else Inr (0, Some (data, label), st\<lparr>disk := w\<rparr>)))))"

text \<open>\<open>unset_value\<close> looks at the library's \<open>gdbm_errno\<close>, which an earlier call may have set.\<close>

definition gdbm_unset_value :: "('f, 'w) gdbm \<Rightarrow> bytes \<Rightarrow> BuxtonLayer \<Rightarrow> BuxtonKey \<Rightarrow> ('f, 'w) gdbm_state \<Rightarrow>
    (int \<times> ('f, 'w) gdbm_state) res" where
  "gdbm_unset_value lib root layer key st =
     bindE (make_key_data key) (\<lambda>k.
     bindE (gdbm_for_resource lib root layer st) (\<lambda>(db, _, st). case db of
         None \<Rightarrow> Inr (EROFS, st)
       | Some f \<Rightarrow>
           if gdbm_errno lib (disk st) \<noteq> GDBM_NO_ERROR then Inr (EROFS, st)
           else
             (let (ret, w) = gdbm_delete lib f k (disk st); st' = st\<lparr>disk := w\<rparr>
              in if ret = 0 then Inr (0, st')
                 else if gdbm_errno lib w = GDBM_READER_CANT_DELETE then Inr (EROFS, st')
                 else if gdbm_errno lib w = GDBM_ITEM_NOT_FOUND then Inr (ENOENT, st')
                 else Inl Aborted)))"

text \<open>
  \<open>key_get_name\<close>: what follows the first NUL of a key, and NULL when nothing does. \<open>strchr\<close> runs to
  that NUL.
\<close>

definition key_get_name :: "bytes \<Rightarrow> bytes option res" where
  "key_get_name key =
     bindE (cstr key) (\<lambda>g. Inr (if length key - 1 \<le> length g then None else Some (drop (length g + 1) key)))"

text \<open>
  The loop of \<open>list_keys\<close>, from the current key on; \<open>None\<close>: it never ends. A key without a name is
  skipped by \<open>continue\<close>, before the next key is asked for.
\<close>

partial_function (option) list_keys_from :: "('f, 'w) gdbm \<Rightarrow> 'f \<Rightarrow> bytes option \<Rightarrow> BuxtonData list \<Rightarrow> 'w \<Rightarrow>
    (BuxtonData list \<times> 'w) res option" where
  "list_keys_from lib f key k_list w = (case key of
       None \<Rightarrow> Some (Inr (k_list, w))
     | Some k \<Rightarrow>
         (case key_get_name k of
            Inl e \<Rightarrow> Some (Inl e)
          | Inr None \<Rightarrow> list_keys_from lib f key k_list w
          | Inr (Some name) \<Rightarrow>
              (case cstr name of
                 Inl e \<Rightarrow> Some (Inl e)
               | Inr n \<Rightarrow>
                   if 65535 \<le> length k_list then Some (Inl Aborted)
                   else list_keys_from lib f (fst (gdbm_nextkey lib f k w))
                     (k_list @ [DString \<lparr>str_value = Some (zstr n), str_length = word_of_nat (length n) + 1\<rparr>])
                     (snd (gdbm_nextkey lib f k w)))))"

definition gdbm_list_keys :: "('f, 'w) gdbm \<Rightarrow> bytes \<Rightarrow> BuxtonLayer \<Rightarrow> ('f, 'w) gdbm_state \<Rightarrow>
    (BuxtonData list option \<times> ('f, 'w) gdbm_state) res" where
  "gdbm_list_keys lib root layer st =
     bindE (gdbm_for_resource lib root layer st) (\<lambda>(db, _, st). case db of
       None \<Rightarrow> Inr (None, st)
     | Some f \<Rightarrow>
         (case list_keys_from lib f (fst (gdbm_firstkey lib f (disk st))) [] (snd (gdbm_firstkey lib f (disk st))) of
            None \<Rightarrow> Inl Diverges
          | Some r \<Rightarrow> bindE r (\<lambda>(l, w). Inr (Some l, st\<lparr>disk := w\<rparr>))))"

text \<open>The loop of \<open>list_names\<close>; what it takes from a key is the same code as in \<open>memory.c\<close>.\<close>

partial_function (option) list_names_from :: "('f, 'w) gdbm \<Rightarrow> 'f \<Rightarrow> BuxtonString option \<Rightarrow> BuxtonString option \<Rightarrow>
    bytes option \<Rightarrow> BuxtonData list \<Rightarrow> 'w \<Rightarrow> (BuxtonData list option \<times> 'w) res option" where
  "list_names_from lib f grp prefix key k_list w = (case key of
       None \<Rightarrow> Some (Inr (Some k_list, w))
     | Some k \<Rightarrow>
         (case list_pick grp prefix k of
            Inl e \<Rightarrow> Some (Inl e)
          | Inr None \<Rightarrow>
              list_names_from lib f grp prefix (fst (gdbm_nextkey lib f k w)) k_list (snd (gdbm_nextkey lib f k w))
          | Inr (Some v) \<Rightarrow>
              if 65535 \<le> length k_list then Some (Inr (None, w))
              else list_names_from lib f grp prefix (fst (gdbm_nextkey lib f k w))
                (k_list @ [DString \<lparr>str_value = Some v, str_length = word_of_nat (length v)\<rparr>])
                (snd (gdbm_nextkey lib f k w))))"

definition gdbm_list_names :: "('f, 'w) gdbm \<Rightarrow> bytes \<Rightarrow> BuxtonLayer \<Rightarrow> BuxtonString option \<Rightarrow>
    BuxtonString option \<Rightarrow> ('f, 'w) gdbm_state \<Rightarrow> (BuxtonData list option \<times> ('f, 'w) gdbm_state) res" where
  "gdbm_list_names lib root layer grp prefix st =
     bindE (assertE (grp \<noteq> None)) (\<lambda>_.
     bindE (gdbm_for_resource lib root layer st) (\<lambda>(db, _, st). case db of
       None \<Rightarrow> Inr (None, st)
     | Some f \<Rightarrow>
         (case list_names_from lib f (drop_empty grp) (drop_empty prefix)
             (fst (gdbm_firstkey lib f (disk st))) [] (snd (gdbm_firstkey lib f (disk st))) of
            None \<Rightarrow> Inl Diverges
          | Some r \<Rightarrow> bindE r (\<lambda>(l, w). Inr (l, st\<lparr>disk := w\<rparr>)))))"

text \<open>\<open>buxton_module_init\<close>: the function table, and no open databases.\<close>

definition gdbm_backend :: "('f, 'w) gdbm \<Rightarrow> bytes \<Rightarrow> ('f, 'w) gdbm_state BuxtonBackend" where
  "gdbm_backend lib root =
     \<lparr>be_set_value = gdbm_set_value lib root, be_get_value = gdbm_get_value lib root,
      be_unset_value = gdbm_unset_value lib root, be_list_keys = Some (gdbm_list_keys lib root),
      be_list_names = gdbm_list_names lib root,
      be_create_db = Some (\<lambda>layer st. bindE (gdbm_for_resource lib root layer st) (\<lambda>(db, _, st). Inr (db \<noteq> None, st)))\<rparr>"

definition gdbm_init :: "'w \<Rightarrow> ('f, 'w) gdbm_state" where
  "gdbm_init w = \<lparr>handles = [], disk = w\<rparr>"

text \<open>Asked for its keys, a layer whose next key is the record of a group keeps the caller forever.\<close>

lemma list_keys_group_diverges:
  assumes "key_get_name k = Inr None"
  shows "list_keys_from lib f (Some k) acc w = None"
proof -
  have "list_keys_from lib f key acc w = Some y \<Longrightarrow> key \<noteq> Some k" for key y
    by (rule list_keys_from.raw_induct[where P = "\<lambda>lib f key acc w y. key \<noteq> Some k"])
      (auto simp: assms split: option.splits sum.splits if_splits, blast)
  then show ?thesis by (cases "list_keys_from lib f (Some k) acc w") auto
qed

end
