(* ===== verification/Gdbm_Laws.thy ===== *)
theory Gdbm_Laws
  imports Gdbm
begin

text \<open>
  What the gdbm module promises, given a library that keeps its own promises.
\<close>

section \<open>The library's contract\<close>

text \<open>A full walk over the keys: \<open>ks\<close> in this order, starting from what \<open>gdbm_firstkey\<close> returned.\<close>

fun walk :: "('f, 'w) gdbm \<Rightarrow> 'f \<Rightarrow> bytes list \<Rightarrow> bytes option \<times> 'w \<Rightarrow> 'w \<Rightarrow> bool" where
  "walk lib f [] kw w' \<longleftrightarrow> kw = (None, w')"
| "walk lib f (x # xs) kw w' \<longleftrightarrow> fst kw = Some x \<and> walk lib f xs (gdbm_nextkey lib f x (snd kw)) w'"

text \<open>
  \<open>content V w p\<close> is what lies in the file \<open>p\<close>; \<open>opened V w f\<close> says that \<open>f\<close> is open for writing. A call that
  succeeds leaves no error in \<open>gdbm_errno\<close>.
\<close>

record ('f, 'w) gdbm_view =
  good :: "'w \<Rightarrow> bool"
  content :: "'w \<Rightarrow> bytes \<Rightarrow> bytes \<Rightarrow> bytes option"
  path_of :: "'f \<Rightarrow> bytes"
  opened :: "'w \<Rightarrow> 'f \<Rightarrow> bool"
  usable :: "bytes \<Rightarrow> bool"

locale gdbm_lib =
  fixes lib :: "('f, 'w) gdbm" and V :: "('f, 'w) gdbm_view"
  assumes open_writer: "good V w \<Longrightarrow> usable V p \<Longrightarrow> \<forall>f. opened V w f \<longrightarrow> path_of V f \<noteq> p \<Longrightarrow>
      \<exists>f w'. gdbm_open lib p GDBM_WRCREAT w = (Some f, w') \<and> good V w' \<and> path_of V f = p \<and>
        (\<forall>f'. opened V w' f' \<longleftrightarrow> f' = f \<or> opened V w f') \<and> content V w' = content V w \<and> gdbm_errno lib w' = GDBM_NO_ERROR"
    and fetch: "good V w \<Longrightarrow> opened V w f \<Longrightarrow>
      \<exists>w'. gdbm_fetch lib f k w = (content V w (path_of V f) k, w') \<and> good V w' \<and> opened V w' = opened V w \<and>
        content V w' = content V w \<and> (content V w (path_of V f) k \<noteq> None \<longrightarrow> gdbm_errno lib w' = GDBM_NO_ERROR)"
    and store: "good V w \<Longrightarrow> opened V w f \<Longrightarrow>
      \<exists>w'. gdbm_store lib f k v w = (0, w') \<and> good V w' \<and> opened V w' = opened V w \<and>
        content V w' = (content V w)(path_of V f := (content V w (path_of V f))(k := Some v)) \<and> gdbm_errno lib w' = GDBM_NO_ERROR"
    and delete_present: "good V w \<Longrightarrow> opened V w f \<Longrightarrow> content V w (path_of V f) k \<noteq> None \<Longrightarrow>
      \<exists>w'. gdbm_delete lib f k w = (0, w') \<and> good V w' \<and> opened V w' = opened V w \<and>
        content V w' = (content V w)(path_of V f := (content V w (path_of V f))(k := None))"
    and delete_absent: "good V w \<Longrightarrow> opened V w f \<Longrightarrow> content V w (path_of V f) k = None \<Longrightarrow>
      \<exists>r w'. gdbm_delete lib f k w = (r, w') \<and> r \<noteq> 0 \<and> gdbm_errno lib w' = GDBM_ITEM_NOT_FOUND \<and>
        good V w' \<and> opened V w' = opened V w \<and> content V w' = content V w"
    and keys: "good V w \<Longrightarrow> opened V w f \<Longrightarrow>
      \<exists>ks w'. walk lib f ks (gdbm_firstkey lib f w) w' \<and> distinct ks \<and>
        set ks = {k. content V w (path_of V f) k \<noteq> None} \<and> good V w' \<and> opened V w' = opened V w \<and> content V w' = content V w"

section \<open>Records\<close>

definition storable_record :: "BuxtonData \<Rightarrow> BuxtonString \<Rightarrow> bool" where
  "storable_record d label \<longleftrightarrow> 2 \<le> unat (str_length label) + data_length d \<and>
     12 + unat (str_length label) + data_length d < 2 ^ 31"

definition kept_string :: "BuxtonString \<Rightarrow> BuxtonString" where
  "kept_string s = \<lparr>str_value = Some (str_bytes s), str_length = str_length s\<rparr>"

lemma kept_string_simps [simp]:
  "str_length (kept_string s) = str_length s" "str_ok s \<Longrightarrow> str_bytes (kept_string s) = str_bytes s"
  by (simp_all add: kept_string_def str_bytes_def split: option.split)

lemma stored_kept: "str_ok s \<Longrightarrow> stored_string (kept_string s)"
  by (simp add: stored_string_def kept_string_def length_str_bytes)

lemma stored_as_stored: "data_ok d \<Longrightarrow> stored_data (as_stored d)"
  by (cases d) (simp_all add: stored_kept[unfolded kept_string_def])

lemma kept_stored: "stored_string s \<Longrightarrow> str_ok s \<and> kept_string s = s"
  by (auto simp: stored_string_def str_ok_def kept_string_def str_bytes_def split: option.splits)

lemma stored_is_kept: "stored_data d \<Longrightarrow> data_ok d \<and> as_stored d = d"
  by (cases d) (use kept_stored in \<open>auto simp: kept_string_def\<close>)

lemma data_length_stored [simp]: "data_length (as_stored d) = data_length d"
  by (cases d) simp_all

lemma serialize_stored:
  assumes "data_ok d" "str_ok label"
  shows "buxton_serialize d label = buxton_serialize (as_stored d) (kept_string label)"
proof -
  have m: "memcpy_from (Some (str_bytes s)) (unat (str_length s)) = memcpy_from (str_value s) (unat (str_length s))"
    if "str_ok s" for s
    using memcpy_from_str[OF that] length_str_bytes[OF that] by (simp add: rd_def)
  have "data_image (as_stored d) = data_image d" using assms(1) m by (cases d) simp_all
  then show ?thesis
    using m[OF assms(2)] by (simp add: buxton_serialize_def kept_string_def)
qed

lemma data_image_length: "data_image d = Inr img \<Longrightarrow> length img = data_length d"
proof (cases d)
  case (DString s)
  then show "data_image d = Inr img \<Longrightarrow> length img = data_length d"
    by (cases "str_value s") (auto simp: res_simps split: if_splits)
qed auto

lemma serialize_length:
  assumes "buxton_serialize d label = Inr v"
  shows "length v = 12 + unat (str_length label) + data_length d"
proof -
  obtain l img where "memcpy_from (str_value label) (unat (str_length label)) = Inr l" "data_image d = Inr img"
    "v = w32_bytes (data_type d) @ w32_bytes (str_length label) @ le_bytes 4 (data_length d) @ l @ img"
    using assms by (auto simp: buxton_serialize_def res_simps Let_def)
  moreover from this have "length l = unat (str_length label)"
    by (cases "str_value label") (auto simp: res_simps split: if_splits)
  ultimately show ?thesis using data_image_length[of d img] by simp
qed

lemma record_stored:
  assumes "data_ok d" "str_ok label" "storable_record d label"
  obtains v where "buxton_serialize d label = Inr v" "length v < 2 ^ 31"
    "buxton_deserialize v = Inr (as_stored d, kept_string label)"
proof -
  obtain v where v: "buxton_serialize (as_stored d) (kept_string label) = Inr v"
    "\<And>post. buxton_deserialize (v @ post) = Inr (as_stored d, kept_string label)"
    by (rule db_roundtrip_lemma[OF stored_as_stored[OF assms(1)] stored_kept[OF assms(2)]])
      (use assms(3) in \<open>simp_all add: storable_record_def\<close>)
  show ?thesis
    using that[of v] v(1) v(2)[of "[]"] serialize_stored[OF assms(1,2)] serialize_length[OF v(1)] assms(3)
    by (simp add: storable_record_def)
qed

section \<open>States of the module\<close>

definition db_path :: "bytes \<Rightarrow> bytes \<Rightarrow> bytes" where
  "db_path root p = root @ ''/'' @ p @ ''.db''"

lemma db_path_inject [simp]: "db_path root p = db_path root q \<longleftrightarrow> p = q"
  by (simp add: db_path_def)

lemma layer_path_ok:
  assumes "layer_ok nm l"
  shows "get_layer_path root l = Inr (db_path root (mem_place l))"
  using layer_ok_cstr[OF assms]
  by (cases "layer_type l") (simp_all add: get_layer_path_def db_path_def mem_place_def db_name_def)

text \<open>Every open handle is that of its name, and every record under a key can be read.\<close>

definition gdbm_ok :: "('f, 'w) gdbm_view \<Rightarrow> bytes \<Rightarrow> ('f, 'w) gdbm_state \<Rightarrow> bool" where
  "gdbm_ok V root st \<longleftrightarrow> good V (disk st) \<and> hm_ok (handles st) \<and>
     (\<forall>n f. hm_get (handles st) n = Some f \<longrightarrow> opened V (disk st) f \<and> path_of V f = db_path root n) \<and>
     (\<forall>f. opened V (disk st) f \<longrightarrow> (\<exists>n. hm_get (handles st) n = Some f)) \<and>
     (\<forall>p g n v. key_text g n \<longrightarrow> content V (disk st) (db_path root p) (keybytes g n) = Some v \<longrightarrow>
        (\<exists>d lab. buxton_deserialize v = Inr (d, lab) \<and> stored_data d \<and> stored_string lab))"

definition gdbm_contents :: "('f, 'w) gdbm_view \<Rightarrow> bytes \<Rightarrow> ('f, 'w) gdbm_state \<Rightarrow> kv_contents" where
  "gdbm_contents V root st p g n =
     (if key_text g n then
        (case content V (disk st) (db_path root p) (keybytes g n) of
           None \<Rightarrow> None
         | Some v \<Rightarrow> (case buxton_deserialize v of Inl _ \<Rightarrow> None | Inr (d, lab) \<Rightarrow> Some (d, str_bytes lab)))
      else None)"

definition gdbm_serves :: "('f, 'w) gdbm_view \<Rightarrow> bytes \<Rightarrow> BuxtonLayer \<Rightarrow> bool" where
  "gdbm_serves V root l \<longleftrightarrow> named_layer l \<and> \<not> layer_readonly l \<and> usable V (db_path root (mem_place l))"

definition gdbm_ready :: "('f, 'w) gdbm \<Rightarrow> ('f, 'w) gdbm_state \<Rightarrow> bool" where
  "gdbm_ready lib st \<longleftrightarrow> gdbm_errno lib (disk st) = GDBM_NO_ERROR"

lemma key_data_ok:
  assumes "key_ok key g n"
  shows "make_key_data key = Inr (keybytes g n)"
proof -
  have "length (keybytes g n) < 2 ^ 31"
    using assms by (auto simp: key_ok_def keybytes_def zstr_def split: option.splits)
  then show ?thesis by (simp add: make_key_data_def make_keyrec_ok[OF assms])
qed

lemma gdbm_ok_disk:
  assumes "gdbm_ok V root st" "good V w" "opened V w = opened V (disk st)" "content V w = content V (disk st)"
  shows "gdbm_ok V root (st\<lparr>disk := w\<rparr>)" "gdbm_contents V root (st\<lparr>disk := w\<rparr>) = gdbm_contents V root st"
  using assms by (auto simp: gdbm_ok_def gdbm_contents_def fun_eq_iff)

lemma gdbm_ok_upd:
  assumes "gdbm_ok V root st" "good V w" "opened V w = opened V (disk st)" "key_text g n"
    "content V w = (content V (disk st))(db_path root p :=
       (content V (disk st) (db_path root p))(keybytes g n := x))"
    "\<And>v. x = Some v \<Longrightarrow> \<exists>d lab. buxton_deserialize v = Inr (d, lab) \<and> stored_data d \<and> stored_string lab"
  shows "gdbm_ok V root (st\<lparr>disk := w\<rparr>)"
    "gdbm_contents V root (st\<lparr>disk := w\<rparr>) = kv_upd (gdbm_contents V root st) p g n
       (case x of None \<Rightarrow> None | Some v \<Rightarrow>
          (case buxton_deserialize v of Inl _ \<Rightarrow> None | Inr (d, lab) \<Rightarrow> Some (d, str_bytes lab)))"
proof -
  have at: "content V w (db_path root q) (keybytes g' n') =
      (if q = p \<and> g' = g \<and> n' = n then x else content V (disk st) (db_path root q) (keybytes g' n'))"
    if "key_text g' n'" for q g' n'
    using assms(5) keybytes_inject[OF that assms(4)] by auto
  show "gdbm_ok V root (st\<lparr>disk := w\<rparr>)"
    unfolding gdbm_ok_def
  proof (intro conjI allI impI)
    fix q g' n' v
    assume k: "key_text g' n'" and c: "content V (disk (st\<lparr>disk := w\<rparr>)) (db_path root q) (keybytes g' n') = Some v"
    show "\<exists>d lab. buxton_deserialize v = Inr (d, lab) \<and> stored_data d \<and> stored_string lab"
    proof (cases "q = p \<and> g' = g \<and> n' = n")
      case True
      then show ?thesis using c at[OF k, of q] assms(6)[of v] by simp
    next
      case False
      then have "content V (disk st) (db_path root q) (keybytes g' n') = Some v" using c at[OF k, of q] by auto
      then show ?thesis using assms(1) k unfolding gdbm_ok_def by blast
    qed
  qed (use assms(1-3) in \<open>auto simp: gdbm_ok_def\<close>)
  show "gdbm_contents V root (st\<lparr>disk := w\<rparr>) = kv_upd (gdbm_contents V root st) p g n
       (case x of None \<Rightarrow> None | Some v \<Rightarrow>
          (case buxton_deserialize v of Inl _ \<Rightarrow> None | Inr (d, lab) \<Rightarrow> Some (d, str_bytes lab)))"
    using assms(4) by (auto simp: fun_eq_iff gdbm_contents_def at split: option.splits)
qed

context gdbm_lib
begin

lemma resource_ok:
  assumes "gdbm_ok V root st" "gdbm_serves V root l"
  obtains f st' where "gdbm_for_resource lib root l st = Inr (Some f, 0, st')" "gdbm_ok V root st'"
    "opened V (disk st') f" "path_of V f = db_path root (mem_place l)"
    "content V (disk st') = content V (disk st)" "gdbm_contents V root st' = gdbm_contents V root st"
    "gdbm_ready lib st \<longrightarrow> gdbm_ready lib st'"
proof -
  obtain nm where nm: "layer_ok nm l" using assms(2) by (auto simp: gdbm_serves_def named_layer_def)
  show ?thesis
  proof (cases "hm_get (handles st) (mem_place l)")
    case (Some f)
    then have "opened V (disk st) f" "path_of V f = db_path root (mem_place l)"
      using assms(1) by (auto simp: gdbm_ok_def)
    with Some assms(1) show ?thesis
      by (intro that[of f st]) (auto simp: gdbm_for_resource_def db_name_ok[OF nm])
  next
    case None
    have g: "good V (disk st)" using assms(1) by (simp add: gdbm_ok_def)
    have fresh: "\<forall>f. opened V (disk st) f \<longrightarrow> path_of V f \<noteq> db_path root (mem_place l)"
    proof (intro allI impI notI)
      fix f
      assume f: "opened V (disk st) f" "path_of V f = db_path root (mem_place l)"
      then obtain n where n: "hm_get (handles st) n = Some f" using assms(1) by (auto simp: gdbm_ok_def)
      then have "path_of V f = db_path root n" using assms(1) by (auto simp: gdbm_ok_def)
      then show False using n f(2) None by simp
    qed
    obtain f w where w: "gdbm_open lib (db_path root (mem_place l)) GDBM_WRCREAT (disk st) = (Some f, w)"
      "good V w" "path_of V f = db_path root (mem_place l)" "\<And>f'. opened V w f' \<longleftrightarrow> f' = f \<or> opened V (disk st) f'"
      "content V w = content V (disk st)" "gdbm_errno lib w = GDBM_NO_ERROR"
      using open_writer[OF g _ fresh] assms(2) by (auto simp: gdbm_serves_def)
    define st' where "st' = st\<lparr>handles := snd (hm_put (handles st) (mem_place l) f), disk := w\<rparr>"
    have r: "gdbm_for_resource lib root l st = Inr (Some f, 0, st')"
      using None w(1) assms(2)
      by (simp add: gdbm_for_resource_def db_name_ok[OF nm] layer_path_ok[OF nm] try_open_database_def
          gdbm_serves_def hm_put_def st'_def)
    have get: "hm_get (handles st') n = (if n = mem_place l then Some f else hm_get (handles st) n)" for n
      using None by (simp add: st'_def hm_get_put)
    have "gdbm_ok V root st'"
      unfolding gdbm_ok_def
    proof (intro conjI allI impI)
      show "hm_ok (handles st')" using assms(1) by (simp add: st'_def hm_ok_put gdbm_ok_def)
    next
      fix n h
      assume "hm_get (handles st') n = Some h"
      then have "n = mem_place l \<and> h = f \<or> hm_get (handles st) n = Some h" by (auto simp: get split: if_splits)
      then show "opened V (disk st') h" "path_of V h = db_path root n"
        using assms(1) w(3,4) by (auto simp: gdbm_ok_def st'_def)
    next
      fix h
      assume "opened V (disk st') h"
      then have "h = f \<or> opened V (disk st) h" using w(4) by (simp add: st'_def)
      then have "h = f \<or> (\<exists>n. hm_get (handles st) n = Some h)" using assms(1) unfolding gdbm_ok_def by blast
      then obtain n where "h = f \<or> hm_get (handles st) n = Some h" by blast
      then show "\<exists>n. hm_get (handles st') n = Some h"
      proof (cases "h = f")
        case True
        then show ?thesis using get[of "mem_place l"] by auto
      next
        case False
        with \<open>h = f \<or> hm_get (handles st) n = Some h\<close> have "hm_get (handles st) n = Some h" by simp
        then show ?thesis using get[of n] None by (intro exI[of _ n]) auto
      qed
    qed (use assms(1) w(2,5) in \<open>auto simp: gdbm_ok_def st'_def\<close>)
    moreover have "gdbm_contents V root st' = gdbm_contents V root st"
      by (simp add: fun_eq_iff gdbm_contents_def st'_def w(5))
    ultimately show ?thesis
      using r w by (intro that[of f st']) (simp_all add: st'_def gdbm_ready_def)
  qed
qed

lemma absent_text:
  assumes "gdbm_ok V root st" "key_text g n"
  shows "gdbm_contents V root st p g n = None \<longleftrightarrow> content V (disk st) (db_path root p) (keybytes g n) = None"
proof (cases "content V (disk st) (db_path root p) (keybytes g n)")
  case None
  then show ?thesis by (simp add: gdbm_contents_def)
next
  case (Some v)
  then obtain d lab where "buxton_deserialize v = Inr (d, lab)" using assms unfolding gdbm_ok_def by blast
  then show ?thesis using Some assms(2) by (simp add: gdbm_contents_def)
qed

lemmas absent_content = absent_text[OF _ key_ok_text]

lemma present_content:
  assumes "gdbm_ok V root st" "key_ok key g n" "gdbm_contents V root st p g n = Some (d, b)"
  obtains v lab where "content V (disk st) (db_path root p) (keybytes g n) = Some v"
    "buxton_deserialize v = Inr (d, lab)" "stored_data d" "stored_string lab" "str_bytes lab = b"
proof -
  have t: "key_text g n" by (rule key_ok_text[OF assms(2)])
  obtain v where v: "content V (disk st) (db_path root p) (keybytes g n) = Some v"
    using assms(3) absent_content[OF assms(1,2), of p] by (cases "content V (disk st) (db_path root p) (keybytes g n)") auto
  then obtain d' lab where "buxton_deserialize v = Inr (d', lab)" "stored_data d'" "stored_string lab"
    using assms(1) t unfolding gdbm_ok_def by blast
  with v t assms(3) show ?thesis by (intro that[of v lab]) (auto simp: gdbm_contents_def)
qed

lemma gdbm_get_ok:
  assumes "gdbm_ok V root st" "gdbm_serves V root l" "key_ok key g n"
  shows "\<exists>st'. gdbm_ok V root st' \<and> gdbm_contents V root st' = gdbm_contents V root st \<and>
    (case gdbm_contents V root st (mem_place l) g n of
       None \<Rightarrow> gdbm_get_value lib root l key st = Inr (ENOENT, None, st')
     | Some (d, b) \<Rightarrow> gdbm_ready lib st' \<and> (\<exists>lab. stored_string lab \<and> str_bytes lab = b \<and>
         gdbm_get_value lib root l key st =
           (if data_type d \<noteq> key_type key \<and> key_type key \<noteq> BUXTON_TYPE_UNSET
            then Inr (EINVAL, Some (freed_data d, lab\<lparr>str_value := None\<rparr>), st')
            else Inr (0, Some (d, lab), st'))))"
proof -
  obtain f st1 where r: "gdbm_for_resource lib root l st = Inr (Some f, 0, st1)" "gdbm_ok V root st1"
    "opened V (disk st1) f" "path_of V f = db_path root (mem_place l)"
    "gdbm_contents V root st1 = gdbm_contents V root st"
    by (rule resource_ok[OF assms(1,2)])
  let ?c = "content V (disk st1) (db_path root (mem_place l)) (keybytes g n)"
  have gd: "good V (disk st1)" using r(2) by (simp add: gdbm_ok_def)
  obtain w where w: "gdbm_fetch lib f (keybytes g n) (disk st1) = (?c, w)" "good V w"
    "opened V w = opened V (disk st1)" "content V w = content V (disk st1)"
    "?c \<noteq> None \<Longrightarrow> gdbm_errno lib w = GDBM_NO_ERROR"
    using fetch[OF gd r(3), of "keybytes g n"] r(4) by auto
  note st2 = gdbm_ok_disk[OF r(2) w(2-4)]
  show ?thesis
  proof (cases "gdbm_contents V root st (mem_place l) g n")
    case None
    then have "?c = None" using absent_content[OF r(2) assms(3)] r(5) by simp
    then show ?thesis
      using None st2 r w(1) key_data_ok[OF assms(3)]
      by (intro exI[of _ "st1\<lparr>disk := w\<rparr>"]) (simp add: gdbm_get_value_def)
  next
    case (Some x)
    obtain d b where x: "x = (d, b)" by (cases x)
    then have "gdbm_contents V root st1 (mem_place l) g n = Some (d, b)" using Some r(5) by simp
    then obtain v lab where v: "?c = Some v" "buxton_deserialize v = Inr (d, lab)" "stored_string lab" "str_bytes lab = b"
      by (rule present_content[OF r(2) assms(3)])
    then show ?thesis
      using Some x st2 r w key_data_ok[OF assms(3)]
      by (intro exI[of _ "st1\<lparr>disk := w\<rparr>"]) (auto simp: gdbm_get_value_def gdbm_ready_def intro!: exI[of _ lab])
  qed
qed

lemma store_record_ok:
  assumes "gdbm_ok V root st" "opened V (disk st) f" "path_of V f = db_path root p" "key_text g n"
    "data_ok d" "str_ok label" "storable_record d label"
  shows "\<exists>st'. store_record lib f (keybytes g n) d label st = Inr (0, st') \<and> gdbm_ok V root st' \<and>
    gdbm_ready lib st' \<and>
    gdbm_contents V root st' = kv_upd (gdbm_contents V root st) p g n (Some (as_stored d, str_bytes label))"
proof -
  obtain v where v: "buxton_serialize d label = Inr v" "length v < 2 ^ 31"
    "buxton_deserialize v = Inr (as_stored d, kept_string label)"
    by (rule record_stored[OF assms(5-7)])
  have gd: "good V (disk st)" using assms(1) by (simp add: gdbm_ok_def)
  obtain w where w: "gdbm_store lib f (keybytes g n) v (disk st) = (0, w)" "good V w"
    "opened V w = opened V (disk st)" "content V w = (content V (disk st))(db_path root p :=
       (content V (disk st) (db_path root p))(keybytes g n := Some v))" "gdbm_errno lib w = GDBM_NO_ERROR"
    using store[OF gd assms(2), of "keybytes g n" v] assms(3) by auto
  have ok: "\<exists>d lab. buxton_deserialize v' = Inr (d, lab) \<and> stored_data d \<and> stored_string lab" if "Some v = Some v'" for v'
    using that v(3) stored_as_stored[OF assms(5)] stored_kept[OF assms(6)] by auto
  note upd = gdbm_ok_upd[OF assms(1) w(2,3) assms(4) w(4) ok]
  show ?thesis
    using upd v w(1,5) assms(6)
    by (intro exI[of _ "st\<lparr>disk := w\<rparr>"]) (simp add: store_record_def gdbm_ready_def)
qed

lemma gdbm_set_ok:
  assumes "gdbm_ok V root st" "gdbm_serves V root l" "key_ok key g n" "data_ok d" "str_ok label" "storable_record d label"
    "data = Some d \<or> data = None \<and> (\<exists>b. gdbm_contents V root st (mem_place l) g n = Some (d, b))"
  shows "\<exists>st'. gdbm_set_value lib root l key data label st = Inr (0, st') \<and> gdbm_ok V root st' \<and>
    gdbm_ready lib st' \<and>
    gdbm_contents V root st' = kv_upd (gdbm_contents V root st) (mem_place l) g n (Some (as_stored d, str_bytes label))"
proof -
  obtain f st1 where r: "gdbm_for_resource lib root l st = Inr (Some f, 0, st1)" "gdbm_ok V root st1"
    "opened V (disk st1) f" "path_of V f = db_path root (mem_place l)"
    "gdbm_contents V root st1 = gdbm_contents V root st"
    by (rule resource_ok[OF assms(1,2)])
  have t: "key_text g n" by (rule key_ok_text[OF assms(3)])
  show ?thesis
  proof (cases data)
    case (Some d')
    then have "data = Some d" using assms(7) by simp
    then show ?thesis
      using store_record_ok[OF r(2-4) t assms(4-6)] r(1,5) key_data_ok[OF assms(3)]
      by (simp add: gdbm_set_value_def)
  next
    case None
    then obtain b where "gdbm_contents V root st1 (mem_place l) g n = Some (d, b)" using assms(7) r(5) by auto
    then obtain v lab where v: "content V (disk st1) (db_path root (mem_place l)) (keybytes g n) = Some v"
      "buxton_deserialize v = Inr (d, lab)"
      by (rule present_content[OF r(2) assms(3)])
    have gd: "good V (disk st1)" using r(2) by (simp add: gdbm_ok_def)
    obtain w where w: "gdbm_fetch lib f (keybytes g n) (disk st1) = (Some v, w)" "good V w"
      "opened V w = opened V (disk st1)" "content V w = content V (disk st1)"
      using fetch[OF gd r(3), of "keybytes g n"] r(4) v(1) by auto
    note st2 = gdbm_ok_disk[OF r(2) w(2-4)]
    have "opened V (disk (st1\<lparr>disk := w\<rparr>)) f" using w(3) r(3) by simp
    from store_record_ok[OF st2(1) this r(4) t assms(4-6)] show ?thesis
      using None r(1,5) w(1) v(2) st2(2) key_data_ok[OF assms(3)] by (simp add: gdbm_set_value_def)
  qed
qed

lemma gdbm_unset_ok:
  assumes "gdbm_ok V root st" "gdbm_ready lib st" "gdbm_serves V root l" "key_ok key g n"
  shows "\<exists>st'. gdbm_unset_value lib root l key st =
      Inr (if gdbm_contents V root st (mem_place l) g n = None then ENOENT else 0, st') \<and> gdbm_ok V root st' \<and>
    gdbm_contents V root st' = kv_upd (gdbm_contents V root st) (mem_place l) g n None"
proof -
  obtain f st1 where r: "gdbm_for_resource lib root l st = Inr (Some f, 0, st1)" "gdbm_ok V root st1"
    "opened V (disk st1) f" "path_of V f = db_path root (mem_place l)"
    "content V (disk st1) = content V (disk st)" "gdbm_contents V root st1 = gdbm_contents V root st"
    "gdbm_ready lib st \<longrightarrow> gdbm_ready lib st1"
    by (rule resource_ok[OF assms(1,3)])
  have t: "key_text g n" by (rule key_ok_text[OF assms(4)])
  have gd: "good V (disk st1)" using r(2) by (simp add: gdbm_ok_def)
  have e: "gdbm_errno lib (disk st1) = GDBM_NO_ERROR" using r(7) assms(2) by (simp add: gdbm_ready_def)
  let ?c = "content V (disk st1) (db_path root (mem_place l)) (keybytes g n)"
  show ?thesis
  proof (cases ?c)
    case None
    obtain ret w where w: "gdbm_delete lib f (keybytes g n) (disk st1) = (ret, w)" "ret \<noteq> 0"
      "gdbm_errno lib w = GDBM_ITEM_NOT_FOUND" "good V w" "opened V w = opened V (disk st1)"
      "content V w = content V (disk st1)"
      using delete_absent[OF gd r(3), of "keybytes g n"] r(4) None by auto
    have n: "gdbm_contents V root st (mem_place l) g n = None"
      using absent_content[OF r(2) assms(4), of "mem_place l"] None r(6) by simp
    have "gdbm_unset_value lib root l key st = Inr (ENOENT, st1\<lparr>disk := w\<rparr>)"
      using r(1) w(1-3) e key_data_ok[OF assms(4)] by (simp add: gdbm_unset_value_def)
    moreover have "kv_upd (gdbm_contents V root st) (mem_place l) g n None = gdbm_contents V root st"
      using n by (auto simp: fun_eq_iff)
    ultimately show ?thesis using n r(6) gdbm_ok_disk[OF r(2) w(4-6)] by simp
  next
    case (Some v)
    obtain w where w: "gdbm_delete lib f (keybytes g n) (disk st1) = (0, w)" "good V w"
      "opened V w = opened V (disk st1)" "content V w = (content V (disk st1))(db_path root (mem_place l) :=
       (content V (disk st1) (db_path root (mem_place l)))(keybytes g n := None))"
      using delete_present[OF gd r(3), of "keybytes g n"] r(4) Some by auto
    have n: "gdbm_contents V root st (mem_place l) g n \<noteq> None"
      using absent_content[OF r(2) assms(4), of "mem_place l"] Some r(6) by simp
    have "gdbm_unset_value lib root l key st = Inr (0, st1\<lparr>disk := w\<rparr>)"
      using r(1) w(1) e key_data_ok[OF assms(4)] by (simp add: gdbm_unset_value_def)
    moreover note gdbm_ok_upd[OF r(2) w(2,3) t w(4)]
    ultimately show ?thesis using n r(6) by auto
  qed
qed

text \<open>The contract of a backend.\<close>

lemma gdbm_store_contract:
  "kv_store (gdbm_backend lib root) (gdbm_ok V root) (gdbm_serves V root) mem_place (gdbm_contents V root)
     (gdbm_ready lib) storable_record False"
proof (unfold_locales, goal_cases)
  case (1 s l key g n d b)
  then show ?case
    using gdbm_get_ok[OF 1(1-3)] kept_stored
    by (auto simp: gdbm_backend_def stored_string_def split: if_splits option.splits)
next
  case (2 s l key g n d b)
  then show ?case using gdbm_get_ok[OF 2(1-3)] by (auto simp: gdbm_backend_def)
next
  case (3 s l key g n)
  then show ?case using gdbm_get_ok[OF 3(1-3)] by (auto simp: gdbm_backend_def)
next
  case (4 s l key g n d label)
  then show ?case
    using gdbm_set_ok[OF 4(1-3,4,5,7), of "Some d"] by (simp add: gdbm_backend_def)
next
  case (5 s l key g n label d b)
  obtain v lab where "stored_data d" by (rule present_content[OF 5(1,3,6)])
  then have "data_ok d" "as_stored d = d" using stored_is_kept by auto
  then show ?case
    using gdbm_set_ok[OF 5(1-3) _ 5(4,7), of None] 5(6) by (auto simp: gdbm_backend_def)
next
  case (6 s l key g n label)
  obtain f st1 where r: "gdbm_for_resource lib root l s = Inr (Some f, 0, st1)" "gdbm_ok V root st1"
    "opened V (disk st1) f" "path_of V f = db_path root (mem_place l)"
    "gdbm_contents V root st1 = gdbm_contents V root s"
    by (rule resource_ok[OF 6(1,2)])
  have gd: "good V (disk st1)" using r(2) by (simp add: gdbm_ok_def)
  have "content V (disk st1) (db_path root (mem_place l)) (keybytes g n) = None"
    using absent_content[OF r(2) 6(3), of "mem_place l"] 6(6) r(5) by simp
  then obtain w where w: "gdbm_fetch lib f (keybytes g n) (disk st1) = (None, w)" "good V w"
    "opened V w = opened V (disk st1)" "content V w = content V (disk st1)"
    using fetch[OF gd r(3), of "keybytes g n"] r(4) by auto
  then show ?case
    using r(1,5) gdbm_ok_disk[OF r(2) w(2-4)] key_data_ok[OF 6(3)]
    by (simp add: gdbm_backend_def gdbm_set_value_def)
next
  case (7 s l key g m)
  then show ?case using gdbm_unset_ok[OF 7(1-4)] by (simp add: gdbm_backend_def)
next
  case (8 s l key g)
  then show ?case using gdbm_unset_ok[OF 8(1-4)] by (auto simp: gdbm_backend_def fun_eq_iff)
qed

end

sublocale gdbm_lib \<subseteq> module: kv_store "gdbm_backend lib root" "gdbm_ok V root" "gdbm_serves V root" mem_place
    "gdbm_contents V root" "gdbm_ready lib" storable_record False for root
  by (rule gdbm_store_contract)

end
