(* ===== verification/Gdbm_Props.thy ===== *)
theory Gdbm_Props
  imports Gdbm_Laws
begin

text \<open>
  The properties of the gdbm module, and a library that keeps its contract: files are association
  lists.
\<close>

section \<open>A library\<close>

record disk_world =
  wfiles :: "(bytes \<times> (bytes \<times> bytes) list) list"
  wopen :: "(bytes \<times> gdbm_flag) list"
  werr :: gdbm_error

definition wfile :: "disk_world \<Rightarrow> bytes \<Rightarrow> (bytes \<times> bytes) list" where
  "wfile w p = (case hm_get (wfiles w) p of None \<Rightarrow> [] | Some db \<Rightarrow> db)"

definition wstore :: "disk_world \<Rightarrow> bytes \<Rightarrow> (bytes \<times> bytes) list \<Rightarrow> disk_world" where
  "wstore w p db = w\<lparr>wfiles := hm_set (wfiles w) p db, werr := GDBM_NO_ERROR\<rparr>"

fun key_after :: "bytes \<Rightarrow> bytes list \<Rightarrow> bytes option" where
  "key_after k (x # y # xs) = (if x = k then Some y else key_after k (y # xs))"
| "key_after k _ = None"

definition file_gdbm :: "(bytes \<times> gdbm_flag, disk_world) gdbm" where
  "file_gdbm = \<lparr>
     gdbm_open = (\<lambda>p flag w.
       if flag = GDBM_READER \<and> hm_get (wfiles w) p = None then (None, w\<lparr>werr := GDBM_FILE_OPEN_ERROR\<rparr>)
       else (Some (p, flag), w\<lparr>wfiles := snd (hm_put (wfiles w) p []), wopen := (p, flag) # wopen w,
              werr := GDBM_NO_ERROR\<rparr>)),
     gdbm_fetch = (\<lambda>f k w. case hm_get (wfile w (fst f)) k of
         None \<Rightarrow> (None, w\<lparr>werr := GDBM_ITEM_NOT_FOUND\<rparr>)
       | Some v \<Rightarrow> (Some v, w\<lparr>werr := GDBM_NO_ERROR\<rparr>)),
     gdbm_store = (\<lambda>f k v w.
       if snd f = GDBM_READER then (- 1, w\<lparr>werr := GDBM_READER_CANT_STORE\<rparr>)
       else (0, wstore w (fst f) (hm_set (snd (hm_put (wfile w (fst f)) k v)) k v))),
     gdbm_delete = (\<lambda>f k w.
       if snd f = GDBM_READER then (- 1, w\<lparr>werr := GDBM_READER_CANT_DELETE\<rparr>)
       else if hm_get (wfile w (fst f)) k = None then (- 1, w\<lparr>werr := GDBM_ITEM_NOT_FOUND\<rparr>)
       else (0, wstore w (fst f) (snd (hm_remove (wfile w (fst f)) k)))),
     gdbm_firstkey = (\<lambda>f w. (case wfile w (fst f) of [] \<Rightarrow> None | (k, _) # _ \<Rightarrow> Some k, w)),
     gdbm_nextkey = (\<lambda>f k w. (key_after k (map fst (wfile w (fst f))), w)),
     gdbm_errno = werr\<rparr>"

definition file_view :: "(bytes \<times> gdbm_flag, disk_world) gdbm_view" where
  "file_view = \<lparr>
     good = (\<lambda>w. hm_ok (wfiles w) \<and> (\<forall>p. hm_ok (wfile w p)) \<and>
       (\<forall>f \<in> set (wopen w). hm_get (wfiles w) (fst f) \<noteq> None)),
     content = (\<lambda>w p. hm_get (wfile w p)),
     path_of = fst,
     opened = (\<lambda>w f. f \<in> set (wopen w) \<and> snd f = GDBM_WRCREAT),
     usable = (\<lambda>_. True)\<rparr>"

lemma key_after_suffix:
  "distinct (pre @ x # y # xs) \<Longrightarrow> key_after x (pre @ x # y # xs) = Some y"
  "distinct (pre @ [x]) \<Longrightarrow> key_after x (pre @ [x]) = None"
proof (induction pre)
  case (Cons a pre)
  { case 1 then show ?case using Cons by (cases pre) auto next
    case 2 then show ?case using Cons by (cases pre) auto }
qed auto

lemma walk_files:
  assumes "map fst (wfile w (fst f)) = pre @ ks" "distinct (pre @ ks)"
  shows "walk file_gdbm f ks (case ks of [] \<Rightarrow> None | k # _ \<Rightarrow> Some k, w) w"
  using assms
proof (induction ks arbitrary: pre)
  case (Cons k ks)
  have "gdbm_nextkey file_gdbm f k w = (case ks of [] \<Rightarrow> None | k' # _ \<Rightarrow> Some k', w)"
    using Cons.prems key_after_suffix[of pre k]
    by (cases ks) (auto simp: file_gdbm_def)
  then show ?case using Cons.IH[of "pre @ [k]"] Cons.prems by simp
qed simp

lemma wfile_upd: "wfile (wstore w p db) q = (if q = p \<and> hm_get (wfiles w) p \<noteq> None then db else wfile w q)"
  by (auto simp: wfile_def wstore_def hm_get_set)

lemma wfile_none: "hm_get (wfiles w) p = None \<Longrightarrow> wfile w p = []"
  by (simp add: wfile_def)

lemma wfile_more [simp]: "wfile (w\<lparr>werr := e\<rparr>) p = wfile w p"
  by (simp add: wfile_def)

lemma wstore_fields [simp]: "wopen (wstore w p db) = wopen w" "werr (wstore w p db) = GDBM_NO_ERROR"
  by (simp_all add: wstore_def)

lemma good_wstore:
  assumes "good file_view w" "opened file_view w f" "hm_ok db"
  shows "good file_view (wstore w (fst f) db)"
    "content file_view (wstore w (fst f) db) = (content file_view w)(fst f := hm_get db)"
proof -
  have "hm_get (wfiles w) (fst f) \<noteq> None" using assms(1,2) by (auto simp: file_view_def)
  moreover have "hm_ok (wfiles (wstore w (fst f) db))" using assms(1) by (simp add: wstore_def file_view_def hm_ok_set)
  moreover have "hm_get (wfiles (wstore w (fst f) db)) p \<noteq> None \<longleftrightarrow> hm_get (wfiles w) p \<noteq> None" for p
    by (auto simp: wstore_def hm_get_set)
  ultimately show "good file_view (wstore w (fst f) db)"
    "content file_view (wstore w (fst f) db) = (content file_view w)(fst f := hm_get db)"
    using assms(1,3) by (auto simp: file_view_def wfile_upd fun_eq_iff)
qed

interpretation files: gdbm_lib file_gdbm file_view
proof (unfold_locales, goal_cases)
  case (1 w p)
  let ?w = "w\<lparr>wfiles := snd (hm_put (wfiles w) p []), wopen := (p, GDBM_WRCREAT) # wopen w, werr := GDBM_NO_ERROR\<rparr>"
  have "wfile ?w q = wfile w q" for q
    by (auto simp: wfile_def hm_get_put split: option.splits)
  then have "good file_view ?w" "content file_view ?w = content file_view w"
    using 1(1) by (auto simp: file_view_def hm_ok_put hm_get_put split: option.splits)
  then show ?case
    by (intro exI[of _ "(p, GDBM_WRCREAT)"] exI[of _ ?w]) (auto simp: file_gdbm_def file_view_def)
next
  case (2 w f k)
  then show ?case
    by (cases "hm_get (wfile w (fst f)) k") (auto simp: file_gdbm_def file_view_def)
next
  case (3 w f k v)
  let ?db = "hm_set (snd (hm_put (wfile w (fst f)) k v)) k v"
  have d: "hm_ok (wfile w (fst f))" using 3(1) by (simp add: file_view_def)
  have "hm_ok ?db" by (intro hm_ok_set hm_ok_put d)
  moreover have "hm_get ?db = (hm_get (wfile w (fst f)))(k := Some v)"
    by (auto simp: fun_eq_iff hm_get_set hm_get_put split: option.splits)
  ultimately show ?case
    using good_wstore[OF 3] 3(2) by (auto simp: file_gdbm_def file_view_def)
next
  case (4 w f k)
  let ?db = "snd (hm_remove (wfile w (fst f)) k)"
  have "hm_ok (wfile w (fst f))" using 4(1) by (simp add: file_view_def)
  then have "hm_ok ?db" by (rule hm_ok_remove)
  moreover have "hm_get ?db = (hm_get (wfile w (fst f)))(k := None)"
    by (auto simp: fun_eq_iff hm_get_remove)
  ultimately show ?case
    using good_wstore[OF 4(1,2)] 4(2,3) by (auto simp: file_gdbm_def file_view_def)
next
  case (5 w f k)
  then show ?case by (auto simp: file_gdbm_def file_view_def)
next
  case (6 w f)
  let ?ks = "map fst (wfile w (fst f))"
  have d: "hm_ok (wfile w (fst f))" using 6(1) by (simp add: file_view_def)
  have "gdbm_firstkey file_gdbm f w = (case ?ks of [] \<Rightarrow> None | k # _ \<Rightarrow> Some k, w)"
    by (cases "wfile w (fst f)") (auto simp: file_gdbm_def)
  moreover have "walk file_gdbm f ?ks (case ?ks of [] \<Rightarrow> None | k # _ \<Rightarrow> Some k, w) w"
    using d by (intro walk_files[of _ _ "[]"]) (simp_all add: hm_ok_def)
  moreover have "set ?ks = {k. hm_get (wfile w (fst f)) k \<noteq> None}"
    by (auto simp: hm_get_None)
  ultimately show ?case
    using 6 d by (intro exI[of _ ?ks] exI[of _ w]) (auto simp: file_view_def hm_ok_def)
qed

section \<open>Properties\<close>

definition base_layer :: BuxtonLayer where
  "base_layer = (user_layer ''base'' 0)\<lparr>layer_type := LAYER_SYSTEM\<rparr>"

lemma base_layer_ok: "layer_ok ''base'' base_layer"
  using user_layer_ok[of "''base''" 0] by (simp add: base_layer_def layer_ok_def)

lemma base_layer_names:
  "db_name base_layer = Inr ''base''" "mem_place base_layer = ''base''"
  "get_layer_path ''/db'' base_layer = Inr ''/db/base.db''" "\<not> layer_readonly base_layer"
proof -
  have c: "cstrp (str_value (layer_name base_layer)) = Inr ''base''" by (rule layer_ok_cstr[OF base_layer_ok])
  have t: "layer_type base_layer = LAYER_SYSTEM" by (simp add: base_layer_def)
  show "db_name base_layer = Inr ''base''" "mem_place base_layer = ''base''"
    "get_layer_path ''/db'' base_layer = Inr ''/db/base.db''" "\<not> layer_readonly base_layer"
    using c t by (simp_all add: db_name_def mem_place_def get_layer_path_def) (simp add: base_layer_def user_layer_def)
qed

text \<open>A disk with one database.\<close>

definition base_disk :: "(bytes \<times> bytes) list \<Rightarrow> disk_world" where
  "base_disk db = \<lparr>wfiles = [(''/db/base.db'', db)], wopen = [], werr = GDBM_NO_ERROR\<rparr>"

lemma base_disk_file: "wfile (base_disk db) p = (if p = ''/db/base.db'' then db else [])"
  by (simp add: base_disk_def wfile_def hm_get_single)

text \<open>C23. The gdbm module keeps the contract of a backend for every writable layer, whatever library it
  runs on, provided the library keeps its documentation: what is set is what is read, with its label,
  across all databases; labels change alone; an unset removes the entry. The three differences from the
  memory backend are in the contract: records need at least 2 bytes of text, \<open>unset_value\<close> works only while
  no error is pending in \<open>gdbm_errno\<close>, and a group is removed without its keys (\<open>recursive\<close> is \<open>False\<close>), which
  stay in the database. The command's manual page promises that they go.\<close>

theorem gdbm_keeps_contract:
  assumes "gdbm_lib lib V"
  shows "kv_store (gdbm_backend lib root) (gdbm_ok V root) (gdbm_serves V root) mem_place (gdbm_contents V root)
     (gdbm_ready lib) storable_record False"
  by (rule gdbm_lib.gdbm_store_contract[OF assms])

theorem gdbm_keeps_contract_witness:
  "gdbm_ok file_view ''/db'' (gdbm_init \<lparr>wfiles = [], wopen = [], werr = GDBM_NO_ERROR\<rparr>) \<and>
   gdbm_serves file_view ''/db'' base_layer \<and>
   kv_store (gdbm_backend file_gdbm ''/db'') (gdbm_ok file_view ''/db'') (gdbm_serves file_view ''/db'') mem_place
     (gdbm_contents file_view ''/db'') (gdbm_ready file_gdbm) storable_record False"
  using gdbm_keeps_contract[OF files.gdbm_lib_axioms, of "''/db''"] base_layer_ok base_layer_names(4)
  by (auto simp: gdbm_ok_def gdbm_init_def file_view_def wfile_def gdbm_serves_def named_layer_def)

text \<open>C25. Asked for all keys of a layer whose next key is the record of a group, \<open>list_keys\<close> never
  returns: a key without a name is skipped before the next key is asked for.\<close>

theorem list_keys_hangs:
  assumes "gdbm_for_resource lib root l st = Inr (Some f, e, st1)"
    "fst (gdbm_firstkey lib f (disk st1)) = Some (zstr g)" "NUL \<notin> set g"
  shows "gdbm_list_keys lib root l st = Inl Diverges"
proof -
  have "key_get_name (zstr g) = Inr None"
    using assms(3) by (simp add: key_get_name_def cstr_simps)
  then show ?thesis
    using assms(1,2) by (simp add: gdbm_list_keys_def list_keys_group_diverges)
qed

theorem list_keys_hangs_witness:
  "gdbm_list_keys file_gdbm ''/db'' base_layer (gdbm_init (base_disk [(zstr ''g'', [])])) =
     Inl Diverges"
proof -
  let ?w = "base_disk [(zstr ''g'', [])]"
  let ?f = "(''/db/base.db'', GDBM_WRCREAT)"
  have r: "gdbm_for_resource file_gdbm ''/db'' base_layer (gdbm_init ?w) =
      Inr (Some ?f, 0, \<lparr>handles = [(''base'', ?f)], disk = ?w\<lparr>wopen := [?f]\<rparr>\<rparr>)"
    by (simp add: gdbm_for_resource_def base_layer_names gdbm_init_def base_disk_def try_open_database_def
        file_gdbm_def hm_put_def hm_get_single)
  show ?thesis
    by (rule list_keys_hangs[OF r, where g = "''g''"])
      (simp_all add: file_gdbm_def base_disk_def wfile_def hm_get_single)
qed

lemma list_names_walk:
  assumes "walk lib f ks kw w'" "list_names_loop grp prefix (65535 - length acc) ks = Inr (Some l)"
    "length acc \<le> 65535"
  shows "list_names_from lib f grp prefix (fst kw) acc (snd kw) = Some (Inr (Some (acc @ l), w'))"
  using assms
proof (induction ks arbitrary: kw acc l)
  case Nil
  then show ?case by (simp add: list_names_from.simps[of lib f grp prefix None])
next
  case (Cons k ks)
  have k: "fst kw = Some k" "walk lib f ks (gdbm_nextkey lib f k (snd kw)) w'" using Cons.prems(1) by simp_all
  obtain c where c: "list_pick grp prefix k = Inr c" using Cons.prems(2) by (auto simp: res_simps)
  show ?case
  proof (cases c)
    case None
    then show ?thesis
      using Cons.IH[OF k(2), of acc l] Cons.prems(2,3) c k(1)
      by (simp add: list_names_from.simps[of lib f grp prefix "Some k"])
  next
    case (Some v)
    let ?d = "DString \<lparr>str_value = Some v, str_length = word_of_nat (length v)\<rparr>"
    obtain l1 where l1: "list_names_loop grp prefix (65535 - length acc - 1) ks = Inr (Some l1)" "l = ?d # l1"
      "length acc < 65535"
      using Cons.prems(2) c Some by (auto simp: res_simps split: if_splits)
    then show ?thesis
      using Cons.IH[OF k(2), of "acc @ [?d]" l1] c Some k(1)
      by (simp add: list_names_from.simps[of lib f grp prefix "Some k"])
  qed
qed

context gdbm_lib
begin

lemma gdbm_list_names_ok:
  assumes "gdbm_ok V root st" "gdbm_serves V root l"
    "\<forall>k. content V (disk st) (db_path root (mem_place l)) k \<noteq> None \<longrightarrow>
       (\<exists>g n. k = keybytes g n \<and> key_text g n \<and> length g + 1 < 2 ^ 32)"
    "str_holds gs g" "prefix_arg prefix p"
  shows "\<exists>parts. distinct parts \<and>
    set parts = {(g', n). gdbm_contents V root st (mem_place l) g' n \<noteq> None} \<and>
    (let names = [name_data m. (g', Some m) \<leftarrow> parts, g' = g \<and> starts_with p m]
     in length names \<le> 65535 \<longrightarrow>
      (\<exists>st'. gdbm_list_names lib root l (Some gs) prefix st = Inr (Some names, st') \<and>
       gdbm_ok V root st' \<and> gdbm_contents V root st' = gdbm_contents V root st))"
proof -
  obtain f st1 where r: "gdbm_for_resource lib root l st = Inr (Some f, 0, st1)" "gdbm_ok V root st1"
    "opened V (disk st1) f" "path_of V f = db_path root (mem_place l)"
    "content V (disk st1) = content V (disk st)" "gdbm_contents V root st1 = gdbm_contents V root st"
    using resource_ok[OF assms(1,2)] by metis
  have gd: "good V (disk st1)" using r(2) by (simp add: gdbm_ok_def)
  obtain ks w where k: "walk lib f ks (gdbm_firstkey lib f (disk st1)) w" "distinct ks"
    "set ks = {k. content V (disk st1) (db_path root (mem_place l)) k \<noteq> None}" "good V w"
    "opened V w = opened V (disk st1)" "content V w = content V (disk st1)"
    using keys[OF gd r(3)] r(4) by auto
  have "\<forall>k \<in> set ks. \<exists>gn. (\<lambda>(g, n). keybytes g n) gn = k \<and> (\<lambda>(g, n). key_text g n \<and> length g + 1 < 2 ^ 32) gn"
    using k(3) r(5) assms(3) by fastforce
  then obtain part where part: "\<forall>k \<in> set ks. (\<lambda>(g, n). keybytes g n) (part k) = k \<and>
      (\<lambda>(g, n). key_text g n \<and> length g + 1 < 2 ^ 32) (part k)"
    unfolding bchoice_iff by blast
  let ?parts = "map part ks"
  have ks: "map (\<lambda>(g, n). keybytes g n) ?parts = ks" using part unfolding map_map by (intro map_idI) simp
  have ok: "\<forall>(g', n) \<in> set ?parts. key_text g' n \<and> length g' + 1 < 2 ^ 32" using part by simp
  have d: "distinct ?parts" using k(2) ks by (metis (no_types) distinct_map)
  have s: "set ?parts = {(g', n). gdbm_contents V root st (mem_place l) g' n \<noteq> None}"
  proof (intro set_eqI iffI; clarify)
    fix g' n
    assume gn: "(g', n) \<in> set ?parts"
    then have "keybytes g' n \<in> (\<lambda>(g, n). keybytes g n) ` set ?parts" by force
    then have "keybytes g' n \<in> set ks" using ks by (metis set_map)
    then have "content V (disk st1) (db_path root (mem_place l)) (keybytes g' n) \<noteq> None" using k(3) by simp
    then have "gdbm_contents V root st1 (mem_place l) g' n \<noteq> None"
      using absent_text[OF r(2), of g' n "mem_place l"] ok gn by auto
    then show "\<exists>y. gdbm_contents V root st (mem_place l) g' n = Some y" using r(6) by simp
  next
    fix g' n y
    assume y: "gdbm_contents V root st (mem_place l) g' n = Some y"
    then have t: "key_text g' n" by (simp add: gdbm_contents_def split: if_splits)
    then have "content V (disk st1) (db_path root (mem_place l)) (keybytes g' n) \<noteq> None"
      using absent_text[OF r(2) t, of "mem_place l"] y r(6) by simp
    then have i: "keybytes g' n \<in> set ks" using k(3) by simp
    obtain g2 n2 where p2: "part (keybytes g' n) = (g2, n2)" by (cases "part (keybytes g' n)")
    then have "keybytes g2 n2 = keybytes g' n" "key_text g2 n2" using bspec[OF part i] by simp_all
    then have "part (keybytes g' n) = (g', n)" using keybytes_inject[OF _ t] p2 by simp
    then show "(g', n) \<in> set ?parts" using i by (metis image_eqI set_map)
  qed
  show ?thesis
    unfolding Let_def
  proof (intro exI[of _ ?parts] conjI impI d s)
    let ?l = "[name_data m. (g', Some m) \<leftarrow> ?parts, g' = g \<and> starts_with p m]"
    assume "length ?l \<le> 65535"
    then have "list_names_loop (drop_empty (Some gs)) (drop_empty prefix) (65535 - length []) ks = Inr (Some ?l)"
      using list_names_of_group[OF assms(4,5) ok, of 65535] unfolding ks fits_def by simp
    note run = list_names_walk[OF k(1) this]
    show "\<exists>st'. gdbm_list_names lib root l (Some gs) prefix st = Inr (Some ?l, st') \<and>
       gdbm_ok V root st' \<and> gdbm_contents V root st' = gdbm_contents V root st"
      using run r(1,6) gdbm_ok_disk[OF r(2) k(4-6)]
      by (intro exI[of _ "st1\<lparr>disk := w\<rparr>"]) (simp add: gdbm_list_names_def assertE_def)
  qed
qed

end

text \<open>C24. Listing the names of a group always ends, and gives each name of the group with the prefix once,
  in the order in which the library visits its keys, as long as they are at most 65535.\<close>

theorem gdbm_lists_names:
  assumes "gdbm_lib lib V" "gdbm_ok V root st" "gdbm_serves V root l"
    "\<forall>k. content V (disk st) (db_path root (mem_place l)) k \<noteq> None \<longrightarrow>
       (\<exists>g n. k = keybytes g n \<and> key_text g n \<and> length g + 1 < 2 ^ 32)"
    "str_holds gs g" "prefix_arg prefix p"
  shows "\<exists>parts. distinct parts \<and>
    set parts = {(g', n). gdbm_contents V root st (mem_place l) g' n \<noteq> None} \<and>
    (let names = [name_data m. (g', Some m) \<leftarrow> parts, g' = g \<and> starts_with p m]
     in length names \<le> 65535 \<longrightarrow>
      (\<exists>st'. gdbm_list_names lib root l (Some gs) prefix st = Inr (Some names, st') \<and>
       gdbm_ok V root st' \<and> gdbm_contents V root st' = gdbm_contents V root st))"
  by (rule gdbm_lib.gdbm_list_names_ok[OF assms])

lemma two_elements:
  assumes "distinct xs" "set xs = {a, b}" "a \<noteq> b"
  shows "xs = [a, b] \<or> xs = [b, a]"
proof -
  have "length xs = 2" using assms distinct_card[OF assms(1)] by simp
  then obtain x y where "xs = [x, y]" by (auto simp: length_Suc_conv numeral_2_eq_2)
  then show ?thesis using assms by auto
qed

theorem gdbm_lists_names_witness:
  "\<exists>v st'. gdbm_list_names file_gdbm ''/db'' base_layer (Some (buxton_string_pack ''g''))
     (Some (buxton_string_pack ''a''))
     (gdbm_init (base_disk [(keybytes ''g'' (Some ''ab''), v), (keybytes ''g'' None, v)])) =
   Inr (Some [name_data ''ab''], st')"
proof -
  have lab: "str_ok (buxton_string_pack ''_'')" by (simp add: buxton_string_pack_def str_ok_def zstr_def)
  obtain v where v: "buxton_deserialize v = Inr (DInt32 1, kept_string (buxton_string_pack ''_''))"
    by (rule record_stored[of "DInt32 1", OF _ lab])
      (simp_all add: storable_record_def buxton_string_pack_def)
  let ?a = "(''g'', Some ''ab'')" and ?b = "(''g'', None)"
  let ?st = "gdbm_init (base_disk [(keybytes ''g'' (Some ''ab''), v), (keybytes ''g'' None, v)])"
  have t: "key_text ''g'' (Some ''ab'')" "key_text ''g'' None" by (simp_all add: key_text_def)
  have ne: "keybytes ''g'' (Some ''ab'') \<noteq> keybytes ''g'' None" using keybytes_inject[OF t] by simp
  have c: "content file_view (disk ?st) p k =
      (if p = ''/db/base.db'' \<and> k \<in> {keybytes ''g'' (Some ''ab''), keybytes ''g'' None} then Some v else None)" for p k
    using ne by (auto simp: file_view_def gdbm_init_def base_disk_file hm_get_def)
  have ok: "gdbm_ok file_view ''/db'' ?st"
  proof -
    have "good file_view (disk ?st)"
      using ne by (simp add: file_view_def gdbm_init_def base_disk_file hm_ok_def) (simp add: base_disk_def)
    moreover have "\<not> opened file_view (disk ?st) f" for f
      by (simp add: file_view_def gdbm_init_def base_disk_def)
    moreover have "stored_data (DInt32 1) \<and> stored_string (kept_string (buxton_string_pack ''_''))"
      using stored_kept[OF lab] by simp
    ultimately show ?thesis
      using v by (auto simp: gdbm_ok_def c split: if_splits) (simp_all add: gdbm_init_def)
  qed
  have pth: "db_path ''/db'' (mem_place base_layer) = ''/db/base.db''"
    by (simp add: db_path_def base_layer_names)
  have contents: "{(g', n). gdbm_contents file_view ''/db'' ?st (mem_place base_layer) g' n \<noteq> None} = {?a, ?b}"
    using v keybytes_inject[OF _ t(1)] keybytes_inject[OF _ t(2)] t
    by (auto simp: gdbm_contents_def c pth split: if_splits)
  have s: "gdbm_serves file_view ''/db'' base_layer"
    using base_layer_ok base_layer_names(4) by (auto simp: gdbm_serves_def named_layer_def file_view_def)
  have w: "\<forall>k. content file_view (disk ?st) (db_path ''/db'' (mem_place base_layer)) k \<noteq> None \<longrightarrow>
       (\<exists>g n. k = keybytes g n \<and> key_text g n \<and> length g + 1 < 2 ^ 32)"
  proof (intro allI impI)
    fix k
    assume "content file_view (disk ?st) (db_path ''/db'' (mem_place base_layer)) k \<noteq> None"
    then consider "k = keybytes ''g'' (Some ''ab'')" | "k = keybytes ''g'' None" by (auto simp: c split: if_splits)
    then show "\<exists>g n. k = keybytes g n \<and> key_text g n \<and> length g + 1 < 2 ^ 32"
    proof cases
      case 1
      then show ?thesis using t(1) by (intro exI[of _ "''g''"] exI[of _ "Some ''ab''"]) simp
    next
      case 2
      then show ?thesis using t(2) by (intro exI[of _ "''g''"] exI[of _ "None"]) simp
    qed
  qed
  have h: "str_holds (buxton_string_pack ''g'') ''g''" "prefix_arg (Some (buxton_string_pack ''a'')) ''a''"
    by (auto simp: prefix_arg_def intro!: str_holds_pack)
  obtain parts where p: "distinct parts" "set parts = {?a, ?b}"
    "let names = [name_data m. (g', Some m) \<leftarrow> parts, g' = ''g'' \<and> starts_with ''a'' m]
     in length names \<le> 65535 \<longrightarrow>
      (\<exists>st'. gdbm_list_names file_gdbm ''/db'' base_layer (Some (buxton_string_pack ''g''))
          (Some (buxton_string_pack ''a'')) ?st = Inr (Some names, st') \<and>
       gdbm_ok file_view ''/db'' st' \<and>
       gdbm_contents file_view ''/db'' st' = gdbm_contents file_view ''/db'' ?st)"
    using gdbm_lists_names[OF files.gdbm_lib_axioms ok s w h] unfolding contents by blast
  have "[name_data m. (g', Some m) \<leftarrow> parts, g' = ''g'' \<and> starts_with ''a'' m] = [name_data ''ab'']"
    using two_elements[OF p(1,2)] by (auto simp: starts_with_def)
  then show ?thesis using p(3) by (auto simp: Let_def)
qed

end
