(* ===== verification/Links.thy ===== *)
theory Links
  imports Prelude
begin

text \<open>
  Doubly linked chains. The program links its items in two places by a pair of pointers in each
  item: the macros of \<open>src/shared/list.h\<close> (theory \<open>Intrusive\<close>) and the chains and the iteration
  list of \<open>src/shared/hashmap.c\<close> (theory \<open>Hashmap_Links\<close>). Both are described by \<open>dseg\<close>, over the
  two pointers as functions of the address; the lemmas say what the assignments of an insertion and
  of a removal make of a chain.
\<close>

type_synonym ptr = "nat option"

text \<open>
  \<open>dseg nx pv p b as q t\<close>: from \<open>p\<close>, whose predecessor is \<open>b\<close>, the items \<open>as\<close> follow, then \<open>q\<close>, whose
  predecessor is \<open>t\<close>.
\<close>

fun dseg :: "(nat \<Rightarrow> ptr) \<Rightarrow> (nat \<Rightarrow> ptr) \<Rightarrow> ptr \<Rightarrow> ptr \<Rightarrow> nat list \<Rightarrow> ptr \<Rightarrow> ptr \<Rightarrow> bool" where
  "dseg nx pv p b [] q t \<longleftrightarrow> p = q \<and> b = t"
| "dseg nx pv p b (a # as) q t \<longleftrightarrow> p = Some a \<and> pv a = b \<and> dseg nx pv (nx a) (Some a) as q t"

text \<open>A whole chain, known by its first and its last item.\<close>

definition chain :: "(nat \<Rightarrow> ptr) \<Rightarrow> (nat \<Rightarrow> ptr) \<Rightarrow> ptr \<Rightarrow> nat list \<Rightarrow> ptr \<Rightarrow> bool" where
  "chain nx pv p as t \<longleftrightarrow> dseg nx pv p None as None t \<and> distinct as"

named_theorems links \<open>what pointer assignments do to a chain\<close>

lemma dseg_append [links]:
  "dseg nx pv p b (as @ cs) q t \<longleftrightarrow> (\<exists>m s. dseg nx pv p b as m s \<and> dseg nx pv m s cs q t)"
  by (induction as arbitrary: p b) auto

lemma dseg_next [simp]: "x \<notin> set as \<Longrightarrow> dseg (nx(x := v)) pv p b as q t = dseg nx pv p b as q t"
  by (induction as arbitrary: p b) auto

lemma dseg_prev [simp]: "x \<notin> set as \<Longrightarrow> dseg nx (pv(x := v)) p b as q t = dseg nx pv p b as q t"
  by (induction as arbitrary: p b) auto

lemma dseg_cong:
  "(\<And>a. a \<in> set as \<Longrightarrow> nx' a = nx a \<and> pv' a = pv a) \<Longrightarrow> dseg nx' pv' p b as q t = dseg nx pv p b as q t"
  by (induction as arbitrary: p b) auto

lemma dseg_ends:
  "dseg nx pv p b as q t \<Longrightarrow> p = (if as = [] then q else Some (hd as)) \<and> t = (if as = [] then b else Some (last as))"
  by (induction as arbitrary: p b) auto

lemma chain_Nil [simp]: "chain nx pv p [] t \<longleftrightarrow> p = None \<and> t = None"
  by (auto simp: chain_def)

lemma chain_ends: "chain nx pv p as t \<Longrightarrow> (p = None \<longleftrightarrow> as = []) \<and> (t = None \<longleftrightarrow> as = [])"
  using dseg_ends[of nx pv p None as None t] by (auto simp: chain_def)

lemma chain_head: "chain nx pv p as t \<Longrightarrow> p = (case as of [] \<Rightarrow> None | a # _ \<Rightarrow> Some a)"
  by (cases as) (auto simp: chain_def)

lemma chain_tail: "chain nx pv p as t \<Longrightarrow> t = (if as = [] then None else Some (last as))"
  using dseg_ends[of nx pv p None as None t] by (auto simp: chain_def)

lemma chain_unique: "chain nx pv p as t \<Longrightarrow> chain nx pv p cs s \<Longrightarrow> as = cs"
proof -
  have "dseg nx pv p b as None t \<Longrightarrow> dseg nx pv p b cs None s \<Longrightarrow> as = cs" for b
  proof (induction as arbitrary: p b cs)
    case Nil
    then show ?case by (cases cs) auto
  next
    case (Cons a as)
    then show ?case by (cases cs) auto
  qed
  then show "chain nx pv p as t \<Longrightarrow> chain nx pv p cs s \<Longrightarrow> as = cs" by (auto simp: chain_def)
qed

lemma chain_cong:
  "(\<And>a. a \<in> set as \<Longrightarrow> nx' a = nx a \<and> pv' a = pv a) \<Longrightarrow> chain nx' pv' p as t = chain nx pv p as t"
  using dseg_cong[of as nx' nx pv' pv] by (simp add: chain_def)

text \<open>The neighbours of an item.\<close>

lemma chain_next:
  assumes "chain nx pv p (as @ x # cs) t"
  shows "nx x = (case cs of [] \<Rightarrow> None | c # _ \<Rightarrow> Some c)"
  using assms by (cases cs) (auto simp: chain_def links)

lemma chain_prev:
  assumes "chain nx pv p (as @ x # cs) t"
  shows "pv x = (if as = [] then None else Some (last as))"
  using assms dseg_ends by (fastforce simp: chain_def links)

text \<open>A new first item.\<close>

lemma chain_push:
  assumes "chain nx pv p as t" "x \<notin> set as"
  shows "chain (nx(x := p)) ((case p of None \<Rightarrow> pv | Some y \<Rightarrow> pv(y := Some x))(x := None)) (Some x) (x # as)
           (if p = None then Some x else t)"
  using assms by (cases as) (auto simp: chain_def)

text \<open>A new last item.\<close>

lemma chain_add:
  assumes "chain nx pv p as t" "x \<notin> set as"
  shows "chain ((case t of None \<Rightarrow> nx | Some y \<Rightarrow> nx(y := Some x))(x := None)) (pv(x := t))
           (if t = None then Some x else p) (as @ [x]) (Some x)"
  using assms by (cases as rule: rev_cases) (auto simp: chain_def links)

text \<open>A new item behind another one.\<close>

lemma chain_insert:
  assumes "chain nx pv p (as @ a # cs) t" "x \<notin> set (as @ a # cs)"
  shows "chain (nx(x := nx a, a := Some x)) ((case nx a of None \<Rightarrow> pv | Some y \<Rightarrow> pv(y := Some x))(x := Some a))
           p (as @ a # x # cs) (if nx a = None then Some x else t)"
  using assms by (cases cs) (auto simp: chain_def links)

text \<open>An item that is taken out.\<close>

lemma chain_unlink:
  assumes "chain nx pv p (as @ x # cs) t"
  shows "chain (case pv x of None \<Rightarrow> nx | Some y \<Rightarrow> nx(y := nx x)) (case nx x of None \<Rightarrow> pv | Some y \<Rightarrow> pv(y := pv x))
           (if pv x = None then nx x else p) (as @ cs) (if nx x = None then pv x else t)"
  using assms by (cases as rule: rev_cases; cases cs) (auto simp: chain_def links)

lemma remove1_middle: "x \<notin> set as \<Longrightarrow> remove1 x (as @ x # cs) = as @ cs"
  by (simp add: remove1_append)

lemma chain_remove1:
  assumes "chain nx pv p as t" "x \<in> set as"
  shows "chain (case pv x of None \<Rightarrow> nx | Some y \<Rightarrow> nx(y := nx x)) (case nx x of None \<Rightarrow> pv | Some y \<Rightarrow> pv(y := pv x))
           (if pv x = None then nx x else p) (remove1 x as) (if nx x = None then pv x else t)"
proof -
  obtain ys zs where as: "as = ys @ x # zs" "x \<notin> set ys"
    using split_list_first[OF assms(2)] by blast
  then show ?thesis using chain_unlink[of nx pv p ys x zs t] assms(1) remove1_middle[of x ys zs] by simp
qed

text \<open>The neighbours of an item are items of the chain.\<close>

lemma chain_near:
  assumes "chain nx pv p as t" "x \<in> set as"
  shows "nx x = Some y \<Longrightarrow> y \<in> set as \<and> y \<noteq> x" "pv x = Some y \<Longrightarrow> y \<in> set as \<and> y \<noteq> x"
proof -
  obtain ys zs where as: "as = ys @ x # zs" using split_list[OF assms(2)] by blast
  have d: "distinct (ys @ x # zs)" using assms(1) as by (simp add: chain_def)
  show "nx x = Some y \<Longrightarrow> y \<in> set as \<and> y \<noteq> x"
    using chain_next[of nx pv p ys x zs t] assms(1) d by (auto simp: as split: list.splits)
  show "pv x = Some y \<Longrightarrow> y \<in> set as \<and> y \<noteq> x"
    using chain_prev[of nx pv p ys x zs t] assms(1) d last_in_set[of ys] by (auto simp: as split: if_splits)
qed


section \<open>Families of chains\<close>

text \<open>The chains of a table of heads; no item is in two of them.\<close>

definition family :: "(nat \<Rightarrow> ptr) \<Rightarrow> (nat \<Rightarrow> ptr) \<Rightarrow> ptr list \<Rightarrow> nat list list \<Rightarrow> bool" where
  "family nx pv heads lss \<longleftrightarrow> length heads = length lss \<and> distinct (concat lss) \<and>
     (\<forall>i < length lss. \<exists>t. chain nx pv (heads ! i) (lss ! i) t)"

lemma nth_split: "i < length xs \<Longrightarrow> \<exists>ys zs. xs = ys @ xs ! i # zs \<and> length ys = i"
  by (metis id_take_nth_drop length_take min.absorb4)

lemma distinct_other:
  assumes "distinct (concat lss)" "i < length lss" "j < length lss" "i \<noteq> j" "x \<in> set (lss ! i)"
  shows "x \<notin> set (lss ! j)"
proof
  assume x: "x \<in> set (lss ! j)"
  obtain ys zs where s: "lss = ys @ lss ! i # zs" "length ys = i" using nth_split[OF assms(2)] by blast
  have "lss ! j \<in> set ys \<union> set zs"
  proof (cases "j < i")
    case True
    then have "lss ! j = ys ! j" by (subst s(1)) (simp add: nth_append s(2))
    then show ?thesis using True s(2) by simp
  next
    case False
    then obtain d where d: "j = Suc (i + d)" using assms(4) by (metis less_imp_Suc_add linorder_neqE_nat)
    have "length lss = Suc (i + length zs)" by (subst s(1)) (simp add: s(2))
    then have "d < length zs" using assms(3) d by simp
    moreover have "lss ! j = zs ! d" by (subst s(1)) (simp add: d nth_append s(2))
    ultimately show ?thesis by simp
  qed
  then have "x \<in> set (concat ys) \<union> set (concat zs)" using x by auto
  moreover have "distinct (concat (ys @ lss ! i # zs))" using assms(1) s(1) by simp
  ultimately show False using assms(5) by auto
qed

lemma concat_update:
  assumes "i < length lss"
  shows "distinct (concat (lss[i := l])) \<longleftrightarrow> distinct (concat (lss[i := []])) \<and> distinct l \<and>
     set l \<inter> set (concat (lss[i := []])) = {}"
    "set (concat (lss[i := l])) = set l \<union> set (concat (lss[i := []]))"
proof -
  obtain ys zs where s: "lss = ys @ lss ! i # zs" "length ys = i" using nth_split[OF assms] by blast
  have u: "lss[i := k] = ys @ k # zs" for k by (subst s(1)) (simp add: list_update_append s(2))
  show "distinct (concat (lss[i := l])) \<longleftrightarrow> distinct (concat (lss[i := []])) \<and> distinct l \<and>
     set l \<inter> set (concat (lss[i := []])) = {}"
    "set (concat (lss[i := l])) = set l \<union> set (concat (lss[i := []]))"
    unfolding u by auto
qed

lemma concat_same:
  assumes "i < length lss"
  shows "distinct (concat lss) \<longleftrightarrow> distinct (concat (lss[i := []])) \<and> distinct (lss ! i) \<and>
     set (lss ! i) \<inter> set (concat (lss[i := []])) = {}"
    "set (concat lss) = set (lss ! i) \<union> set (concat (lss[i := []]))"
  using concat_update[OF assms, of "lss ! i"] by simp_all

lemma family_cong:
  assumes "\<And>a. a \<in> set (concat lss) \<Longrightarrow> nx' a = nx a \<and> pv' a = pv a"
  shows "family nx' pv' heads lss = family nx pv heads lss"
proof -
  have "chain nx' pv' p (lss ! i) t = chain nx pv p (lss ! i) t" if "i < length lss" for i p t
    by (intro chain_cong assms) (use nth_mem[OF that] in auto)
  then show ?thesis by (auto simp: family_def)
qed

text \<open>Changing one chain and nothing of the others.\<close>

lemma family_change:
  assumes f: "family nx pv heads lss" and i: "i < length lss"
    and c: "chain nx' pv' p l t" and d: "distinct (concat (lss[i := l]))"
    and o: "\<And>a. a \<in> set (concat (lss[i := []])) \<Longrightarrow> nx' a = nx a \<and> pv' a = pv a"
  shows "family nx' pv' (heads[i := p]) (lss[i := l])"
proof -
  have "\<exists>t. chain nx' pv' (heads[i := p] ! j) (lss[i := l] ! j) t" if j: "j < length lss" for j
  proof (cases "j = i")
    case True
    then show ?thesis using c i f by (auto simp: family_def)
  next
    case False
    have "a \<in> set (concat (lss[i := []]))" if "a \<in> set (lss ! j)" for a
      using that j False nth_mem[of j "lss[i := []]"] by auto
    then have "chain nx' pv' (heads ! j) (lss ! j) t = chain nx pv (heads ! j) (lss ! j) t" for t
      by (intro chain_cong o)
    then show ?thesis using f j False by (auto simp: family_def)
  qed
  then show ?thesis using f d by (auto simp: family_def)
qed

lemma family_push:
  assumes f: "family nx pv heads lss" and i: "i < length lss" and x: "x \<notin> set (concat lss)"
  shows "family (nx(x := heads ! i)) ((case heads ! i of None \<Rightarrow> pv | Some y \<Rightarrow> pv(y := Some x))(x := None))
           (heads[i := Some x]) (lss[i := x # lss ! i])"
proof -
  obtain t where t: "chain nx pv (heads ! i) (lss ! i) t" using f i by (auto simp: family_def)
  have d: "distinct (concat lss)" using f by (simp add: family_def)
  have y: "y \<notin> set (concat (lss[i := []]))" if "heads ! i = Some y" for y
    using chain_head[OF t] that d concat_same[OF i] by (auto split: list.splits)
  show ?thesis
  proof (rule family_change[OF f i chain_push[OF t]])
    show "x \<notin> set (lss ! i)" using x i concat_same(2)[OF i] by blast
    show "distinct (concat (lss[i := x # lss ! i]))"
      using d x concat_same[OF i] concat_update(1)[OF i, of "x # lss ! i"] by auto
    show "a \<in> set (concat (lss[i := []])) \<Longrightarrow> (nx(x := heads ! i)) a = nx a \<and>
        ((case heads ! i of None \<Rightarrow> pv | Some y \<Rightarrow> pv(y := Some x))(x := None)) a = pv a" for a
      using x y concat_same(2)[OF i] by (cases "heads ! i") auto
  qed
qed

lemma family_remove:
  assumes f: "family nx pv heads lss" and i: "i < length lss" and x: "x \<in> set (lss ! i)"
  shows "family (case pv x of None \<Rightarrow> nx | Some y \<Rightarrow> nx(y := nx x)) (case nx x of None \<Rightarrow> pv | Some y \<Rightarrow> pv(y := pv x))
           (heads[i := if pv x = None then nx x else heads ! i]) (lss[i := remove1 x (lss ! i)])"
proof -
  obtain t where t: "chain nx pv (heads ! i) (lss ! i) t" using f i by (auto simp: family_def)
  have d: "distinct (concat lss)" using f by (simp add: family_def)
  have y: "y \<notin> set (concat (lss[i := []]))" if "nx x = Some y \<or> pv x = Some y" for y
    using that chain_near[OF t x, of y] d concat_same(1)[OF i] by blast
  show ?thesis
  proof (rule family_change[OF f i chain_remove1[OF t x]])
    show "distinct (concat (lss[i := remove1 x (lss ! i)]))"
      using d concat_same[OF i] concat_update(1)[OF i, of "remove1 x (lss ! i)"]
      by (auto dest: notin_set_remove1)
    show "a \<in> set (concat (lss[i := []])) \<Longrightarrow>
        (case pv x of None \<Rightarrow> nx | Some y \<Rightarrow> nx(y := nx x)) a = nx a \<and>
        (case nx x of None \<Rightarrow> pv | Some y \<Rightarrow> pv(y := pv x)) a = pv a" for a
      using y by (auto split: option.splits)
  qed
qed

lemma family_append:
  assumes "family nx pv (hs @ gs) (ls @ ms)" "length hs = length ls"
  shows "family nx pv hs ls \<and> family nx pv gs ms"
proof -
  have "\<exists>t. chain nx pv ((hs @ gs) ! i) ((ls @ ms) ! i) t" if "i < length ls + length ms" for i
    using assms that by (auto simp: family_def)
  from this this[of "length ls + _"] have "\<exists>t. chain nx pv (hs ! i) (ls ! i) t" if "i < length ls" for i
    using that assms(2) by (metis nth_append trans_less_add1)
  moreover have "\<exists>t. chain nx pv (gs ! i) (ms ! i) t" if "i < length ms" for i
    using \<open>\<And>i. i < length ls + length ms \<Longrightarrow> _\<close>[of "length ls + i"] that assms(2) by (auto simp: nth_append)
  ultimately show ?thesis using assms by (auto simp: family_def)
qed

lemma family_empty: "family nx pv hs ls \<Longrightarrow> family nx pv (hs @ replicate m None) (ls @ replicate m [])"
proof -
  assume f: "family nx pv hs ls"
  have "\<exists>t. chain nx pv ((hs @ replicate m None) ! i) ((ls @ replicate m []) ! i) t" if "i < length ls + m" for i
    using f that by (cases "i < length ls") (auto simp: family_def nth_append)
  moreover have "concat (ls @ replicate m []) = concat ls" by simp
  ultimately show ?thesis using f by (simp add: family_def)
qed

end
