(* ===== verification/Tiles.thy ===== *)
theory Tiles
  imports Links "HOL-Library.Word"
begin

text \<open>
  The tile allocator of \<open>src/shared/hashmap.c\<close>, from which hash tables and their entries come: pools
  of tiles of one size, each larger than the one before, and a chain of the tiles that were released,
  linked through their first bytes. Sizes are \<open>size_t\<close> and counts \<open>unsigned\<close>, as words. The page
  size is what \<open>sysconf\<close> says; \<open>malloc\<close> gives the next free stretch of addresses.
\<close>

unbundle bit_operations_syntax

section \<open>Rounding up\<close>

text \<open>The mask is cut to \<open>unsigned\<close> and widened again, so that the high half of the length gets lost.\<close>

definition ALIGN8 :: "64 word \<Rightarrow> 64 word" where
  "ALIGN8 l = (l + 7) AND ucast (NOT 7 :: 32 word)"

definition ALIGN_TO :: "64 word \<Rightarrow> 64 word \<Rightarrow> 64 word" where
  "ALIGN_TO l ali = (l + ali - 1) AND ucast (ucast (NOT (ali - 1)) :: 32 word)"

text \<open>\<open>page_size\<close> asks \<open>sysconf\<close> once and remembers the answer.\<close>

definition page_size :: "int \<Rightarrow> 64 word \<Rightarrow> (64 word \<times> 64 word) res" where
  "page_size sysconf pgsz =
     (if pgsz > 0 then Inr (pgsz, pgsz)
      else bindE (assertE (sysconf > 0)) (\<lambda>_. Inr (word_of_int sysconf, word_of_int sysconf)))"

section \<open>Pools\<close>

text \<open>\<open>pool_base\<close> is the address of the pool; the newest pool is the first of the list.\<close>

record pool =
  pool_base :: nat
  n_tiles :: "32 word"
  n_used :: "32 word"

record tiles =
  first_pool :: "pool list"
  first_tile :: ptr
  tile_link :: "nat \<Rightarrow> ptr"
  pgsz :: "64 word"
  heap_end :: nat

definition no_tiles :: "nat \<Rightarrow> tiles" where
  "no_tiles start = \<lparr>first_pool = [], first_tile = None, tile_link = (\<lambda>_. None), pgsz = 0, heap_end = start\<rparr>"

abbreviation (input) "POOL_HEADER \<equiv> ALIGN8 16"

text \<open>A new pool, when there is none or the first one is used up.\<close>

definition grow_pools :: "int \<Rightarrow> 64 word \<Rightarrow> tiles \<Rightarrow> tiles res" where
  "grow_pools sysconf tile_size ts =
     (if (case first_pool ts of [] \<Rightarrow> False | p # _ \<Rightarrow> n_used p < n_tiles p) then Inr ts
      else
       let n = (case first_pool ts of [] \<Rightarrow> 0 | p # _ \<Rightarrow> n_tiles p);
           n = max 512 (n * 2)
       in bindE (page_size sysconf (pgsz ts)) (\<lambda>(page, pgsz').
          let bytes = ALIGN_TO (POOL_HEADER + ucast n * tile_size) page;
              n = ucast ((bytes - POOL_HEADER) div tile_size)
          in Inr (ts\<lparr>first_pool := \<lparr>pool_base = heap_end ts, n_tiles = n, n_used = 0\<rparr> # first_pool ts,
                     pgsz := pgsz', heap_end := heap_end ts + unat bytes\<rparr>)))"

definition allocate_tile :: "int \<Rightarrow> 64 word \<Rightarrow> tiles \<Rightarrow> (nat \<times> tiles) res" where
  "allocate_tile sysconf tile_size ts =
     bindE (assertE (tile_size \<ge> 8)) (\<lambda>_.
     case first_tile ts of
       Some r \<Rightarrow> Inr (r, ts\<lparr>first_tile := tile_link ts r\<rparr>)
     | None \<Rightarrow>
         bindE (grow_pools sysconf tile_size ts) (\<lambda>ts. case first_pool ts of
            [] \<Rightarrow> Inl NullDeref
          | p # ps \<Rightarrow>
              let i = n_used p
              in Inr (pool_base p + unat (POOL_HEADER + ucast i * tile_size),
                      ts\<lparr>first_pool := p\<lparr>n_used := i + 1\<rparr> # ps\<rparr>)))"

definition deallocate_tile :: "nat \<Rightarrow> tiles \<Rightarrow> tiles" where
  "deallocate_tile p ts = ts\<lparr>tile_link := (tile_link ts)(p := first_tile ts), first_tile := Some p\<rparr>"

section \<open>Sizes\<close>

lemma unat_ALIGN8_16: "ALIGN8 16 = 16"
  by (simp add: ALIGN8_def)

text \<open>For a page size that is a power of two, and below 4 GiB, the length is rounded up as it should be.\<close>

lemma low_half: "x AND ucast (ucast (y :: 64 word) :: 32 word) = take_bit 32 x AND y"
  for x :: "64 word"
  by (rule bit_eqI) (auto simp: bit_simps)

lemma and_not_mask: "(x :: 64 word) AND NOT (2 ^ k - 1) = push_bit k (drop_bit k x)"
  by (rule bit_eqI) (auto simp: bit_simps simp flip: mask_eq_exp_minus_1)

lemma small_take_bit: "unat (x :: 64 word) < 2 ^ 32 \<Longrightarrow> take_bit 32 x = x"
  by (rule word_unat_eq_iff[THEN iffD2]) (simp add: unsigned_take_bit_eq take_bit_nat_eq_self)

lemma unat_ALIGN_TO:
  assumes "k < 32" "unat l + 2 ^ k \<le> 2 ^ 32"
  shows "unat (ALIGN_TO l (2 ^ k)) = (unat l + 2 ^ k - 1) div 2 ^ k * 2 ^ k"
proof -
  have k: "(2::nat) ^ k < 2 ^ 32" using assms(1) by (intro power_strict_increasing) auto
  have s: "unat (l + 2 ^ k - 1) = unat l + 2 ^ k - 1"
  proof -
    have "(l + 2 ^ k - 1 :: 64 word) = word_of_nat (unat l + 2 ^ k - 1)"
      by (subst of_nat_diff) (simp_all add: trans_le_add2)
    moreover have "unat l + 2 ^ k - 1 < 2 ^ 64" using assms(2) by simp
    ultimately show ?thesis by (simp add: unat_of_nat)
  qed
  have "ALIGN_TO l (2 ^ k) = push_bit k (drop_bit k (take_bit 32 (l + 2 ^ k - 1)))"
    by (simp add: ALIGN_TO_def low_half and_not_mask)
  also have "take_bit 32 (l + 2 ^ k - 1) = l + 2 ^ k - 1"
    by (rule small_take_bit) (use s assms(2) in simp)
  finally have e: "ALIGN_TO l (2 ^ k) = push_bit k (drop_bit k (l + 2 ^ k - 1))" .
  have "unat l + 2 ^ k - 1 < 2 ^ 64" using assms(2) by simp
  then have t: "take_bit 64 (unat l + 2 ^ k - 1) = unat l + 2 ^ k - 1" by (rule take_bit_nat_eq_self)
  have "unat (drop_bit k (l + 2 ^ k - 1)) = drop_bit k (take_bit 64 (unat (l + 2 ^ k - 1)))"
    by (rule trans[OF unsigned_drop_bit_eq]) simp
  also have "\<dots> = (unat l + 2 ^ k - 1) div 2 ^ k" by (simp only: s t drop_bit_eq_div)
  finally have d: "unat (drop_bit k (l + 2 ^ k - 1)) = (unat l + 2 ^ k - 1) div 2 ^ k" .
  have "(unat l + 2 ^ k - 1) div 2 ^ k * 2 ^ k \<le> unat l + 2 ^ k - 1" by simp
  then have "(unat l + 2 ^ k - 1) div 2 ^ k * 2 ^ k < 2 ^ 64"
    by (rule le_less_trans) fact
  then show ?thesis
    unfolding e unsigned_push_bit_eq d by (simp add: push_bit_eq_mult take_bit_nat_eq_self_iff)
qed


section \<open>No tile is handed out twice\<close>

text \<open>The room for \<open>m\<close> tiles of \<open>bytes\<close> bytes: sizes stay below 4 GiB.\<close>

definition tiles_fit :: "nat \<Rightarrow> nat \<Rightarrow> nat \<Rightarrow> bool" where
  "tiles_fit k bytes m \<longleftrightarrow> k < 32 \<and> 8 \<le> bytes \<and> 16 + max 512 (2 * m) * bytes + 2 ^ k \<le> 2 ^ 32"

definition tile_at :: "nat \<Rightarrow> pool \<Rightarrow> nat \<Rightarrow> nat" where
  "tile_at bytes p i = pool_base p + 16 + i * bytes"

text \<open>The tiles of the pools that were handed out at some time.\<close>

definition handed :: "nat \<Rightarrow> pool list \<Rightarrow> nat set" where
  "handed bytes ps = (\<Union>p \<in> set ps. tile_at bytes p ` {..<unat (n_used p)})"

text \<open>Each pool ends before the next newer one begins; all lie behind \<open>start\<close>.\<close>

fun stacked :: "nat \<Rightarrow> nat \<Rightarrow> pool list \<Rightarrow> nat \<Rightarrow> bool" where
  "stacked bytes start [] limit \<longleftrightarrow> start \<le> limit"
| "stacked bytes start (p # ps) limit \<longleftrightarrow> tile_at bytes p (unat (n_tiles p)) \<le> limit \<and> n_used p \<le> n_tiles p \<and>
     stacked bytes start ps (pool_base p)"

fun free_path :: "(nat \<Rightarrow> ptr) \<Rightarrow> ptr \<Rightarrow> nat list \<Rightarrow> bool" where
  "free_path link p [] \<longleftrightarrow> p = None"
| "free_path link p (a # as) \<longleftrightarrow> p = Some a \<and> free_path link (link a) as"

text \<open>\<open>live\<close> are the tiles in use, \<open>m\<close> bounds the number of tiles of the newest pool that are used.\<close>

definition tiles_inv :: "nat \<Rightarrow> nat \<Rightarrow> nat \<Rightarrow> nat \<Rightarrow> nat list \<Rightarrow> tiles \<Rightarrow> bool" where
  "tiles_inv k bytes start m live ts \<longleftrightarrow>
     (pgsz ts = 0 \<or> pgsz ts = 2 ^ k) \<and> stacked bytes start (first_pool ts) (heap_end ts) \<and>
     (case first_pool ts of [] \<Rightarrow> True | p # _ \<Rightarrow> unat (n_used p) \<le> m) \<and>
     (\<exists>fs. free_path (tile_link ts) (first_tile ts) fs \<and> distinct (live @ fs) \<and>
           set (live @ fs) \<subseteq> handed bytes (first_pool ts))"

lemma free_path_upd: "x \<notin> set as \<Longrightarrow> free_path (link(x := v)) p as = free_path link p as"
  by (induction as arbitrary: p) auto

lemma handed_Cons: "handed bytes (p # ps) = tile_at bytes p ` {..<unat (n_used p)} \<union> handed bytes ps"
  by (simp add: handed_def)

lemma tile_at_mono: "i < j \<Longrightarrow> tile_at bytes p i + bytes \<le> tile_at bytes p j"
proof -
  assume "i < j"
  then have "Suc i * bytes \<le> j * bytes" by (intro mult_right_mono) auto
  then show ?thesis by (simp add: tile_at_def)
qed

lemma stacked_limit: "stacked bytes start ps limit \<Longrightarrow> start \<le> limit"
proof (induction ps arbitrary: limit)
  case (Cons p ps)
  then have "start \<le> pool_base p" "pool_base p \<le> limit" by (auto simp: tile_at_def)
  then show ?case by simp
qed simp

lemma handed_below: "stacked bytes start ps limit \<Longrightarrow> a \<in> handed bytes ps \<Longrightarrow> start \<le> a \<and> a + bytes \<le> limit"
proof (induction ps arbitrary: limit)
  case (Cons p ps)
  have base: "start \<le> pool_base p" "pool_base p \<le> limit"
    using Cons.prems(1) stacked_limit[of bytes start ps] by (auto simp: tile_at_def)
  show ?case
  proof (cases "a \<in> handed bytes ps")
    case True
    then show ?thesis using Cons.IH[of "pool_base p"] Cons.prems(1) base by auto
  next
    case False
    then obtain i where i: "a = tile_at bytes p i" "i < unat (n_used p)"
      using Cons.prems(2) by (auto simp: handed_Cons)
    then have "i < unat (n_tiles p)" using Cons.prems(1) by (simp add: word_le_nat_alt)
    from tile_at_mono[OF this, of bytes p] show ?thesis
      using Cons.prems(1) i base by (auto simp: tile_at_def)
  qed
qed (simp add: handed_def)

text \<open>Two different tiles do not overlap.\<close>

lemma handed_apart:
  assumes "stacked bytes start ps limit" "a \<in> handed bytes ps" "b \<in> handed bytes ps" "a \<noteq> b"
  shows "a + bytes \<le> b \<or> b + bytes \<le> a"
  using assms
proof (induction ps arbitrary: limit)
  case (Cons p ps)
  have ps: "stacked bytes start ps (pool_base p)" using Cons.prems(1) by simp
  have old: "x + bytes \<le> y" if "x \<in> handed bytes ps" "y \<in> tile_at bytes p ` {..<unat (n_used p)}" for x y
    using handed_below[OF ps that(1)] that(2) by (auto simp: tile_at_def)
  have same: "x + bytes \<le> y \<or> y + bytes \<le> x"
    if "x \<noteq> y" "x \<in> tile_at bytes p ` A" "y \<in> tile_at bytes p ` A" for x y A
  proof -
    obtain i j where ij: "x = tile_at bytes p i" "y = tile_at bytes p j" using \<open>x \<in> _\<close> \<open>y \<in> _\<close> by blast
    then consider "i < j" | "j < i" using \<open>x \<noteq> y\<close> by (cases i j rule: linorder_cases) auto
    then show ?thesis using tile_at_mono[of i j bytes p] tile_at_mono[of j i bytes p] ij by cases auto
  qed
  show ?case using Cons.IH[OF ps] old same[of a b] Cons.prems(2-4) unfolding handed_Cons by blast
qed (simp add: handed_def)

lemma unat_tile_offset:
  fixes n :: "32 word" and bytes :: "64 word"
  assumes "16 + unat n * unat bytes < 2 ^ 64"
  shows "unat (16 + ucast n * bytes) = 16 + unat n * unat bytes"
proof -
  have u: "unat (ucast n :: 64 word) = unat n" 
    by (simp add: unsigned_ucast_eq take_bit_nat_eq_self unsigned_less[THEN less_trans])
  have m: "unat (ucast n * bytes) = unat n * unat bytes"
    using assms by (subst unat_mult_lem[THEN iffD1]) (simp_all add: u)
  show ?thesis using assms by (subst unat_add_lem[THEN iffD1]) (simp_all add: m)
qed


lemma new_pool_count:
  fixes n :: "32 word"
  assumes "unat n \<le> m" "tiles_fit k bytes m"
  shows "unat (max 512 (n * 2)) = max 512 (2 * unat n)"
proof -
  have "2 * m * 8 \<le> max 512 (2 * m) * bytes" using assms(2) by (intro mult_mono) (auto simp: tiles_fit_def)
  then have "2 * unat n < 2 ^ 32" using assms by (auto simp: tiles_fit_def)
  then have "unat (n * 2) = 2 * unat n" by (subst unat_mult_lem[THEN iffD1]) (simp_all add: mult.commute)
  then show ?thesis by (simp add: max_def word_le_nat_alt)
qed

lemma round_up:
  fixes x p :: nat
  assumes "0 < p"
  shows "x \<le> (x + p - 1) div p * p" "(x + p - 1) div p * p < x + p"
proof -
  have "(x + p - 1) div p * p = x + p - 1 - (x + p - 1) mod p" by (metis minus_mod_eq_div_mult)
  moreover have "(x + p - 1) mod p < p" using assms by simp
  ultimately show "x \<le> (x + p - 1) div p * p" "(x + p - 1) div p * p < x + p" using assms by linarith+
qed

text \<open>A new pool has room for at least 512 tiles, and all its tiles lie within the block that \<open>malloc\<close> gave.\<close>

lemma grow_pools_ok:
  assumes inv: "tiles_inv k (unat b) start m live ts" and fit: "tiles_fit k (unat b) m"
  shows "\<exists>ts' p ps. grow_pools (2 ^ k) b ts = Inr ts' \<and> tiles_inv k (unat b) start m live ts' \<and>
     first_pool ts' = p # ps \<and> n_used p < n_tiles p \<and> first_tile ts' = first_tile ts"
proof (cases "case first_pool ts of [] \<Rightarrow> False | p # _ \<Rightarrow> n_used p < n_tiles p")
  case True
  then show ?thesis using inv by (auto simp: grow_pools_def split: list.splits)
next
  case full: False
  define n where "n = (case first_pool ts of [] \<Rightarrow> 0 | p # _ \<Rightarrow> n_tiles p)"
  define n' where "n' = max 512 (n * 2)"
  define bytes where "bytes = ALIGN_TO (16 + ucast n' * b) (2 ^ k)"
  define n2 where "n2 = (ucast ((bytes - 16) div b) :: 32 word)"
  have k: "k < 32" and b: "8 \<le> unat b" and room: "16 + max 512 (2 * m) * unat b + 2 ^ k \<le> 2 ^ 32"
    using fit by (auto simp: tiles_fit_def)
  have "unat n \<le> m"
  proof (cases "first_pool ts")
    case (Cons p ps)
    then have "n_tiles p \<le> n_used p" using full by simp
    then show ?thesis using Cons inv by (auto simp: n_def tiles_inv_def word_le_nat_alt)
  qed (simp add: n_def)
  then have n': "unat n' = max 512 (2 * unat n)" unfolding n'_def by (rule new_pool_count[OF _ fit])
  have le: "unat n' * unat b \<le> max 512 (2 * m) * unat b"
    unfolding n' using \<open>unat n \<le> m\<close> by (intro mult_right_mono) auto
  have top: "16 + unat n' * unat b + 2 ^ k \<le> 2 ^ 32"
    by (rule order.trans[OF _ room]) (use le in simp)
  then have "16 + unat n' * unat b \<le> 2 ^ 32" by (rule add_leD1)
  then have off: "unat (16 + ucast n' * b) = 16 + unat n' * unat b"
    by (intro unat_tile_offset) simp
  have bytes: "unat bytes = (16 + unat n' * unat b + 2 ^ k - 1) div 2 ^ k * 2 ^ k"
    unfolding bytes_def by (subst unat_ALIGN_TO) (use off top k in auto)
  have up: "16 + unat n' * unat b \<le> unat bytes" "unat bytes < 16 + unat n' * unat b + 2 ^ k"
    unfolding bytes by (rule round_up, simp)+
  have d: "unat ((bytes - 16) div b) = (unat bytes - 16) div unat b"
  proof -
    have "unat (bytes - 16) = unat bytes - 16"
      using up(1) by (subst unat_sub) (auto simp: word_le_nat_alt)
    then show ?thesis by (simp add: unat_div_distrib)
  qed
  have "(unat bytes - 16) div unat b \<le> unat bytes" using div_le_dividend le_trans diff_le_self by metis
  then have n2: "unat n2 = (unat bytes - 16) div unat b"
    unfolding n2_def using up(2) top
    by (simp add: unsigned_ucast_eq d take_bit_nat_eq_self)
  have "512 \<le> (unat bytes - 16) div unat b"
  proof -
    have "512 * unat b \<le> unat n' * unat b" unfolding n' by (intro mult_right_mono) auto
    then have "512 * unat b \<le> unat bytes - 16" using up(1) by linarith
    then show ?thesis using b by (metis div_le_mono div_mult_self_is_m gr0I not_numeral_le_zero)
  qed
  then have pos: "0 < n2" using n2 by (simp add: word_less_nat_alt)
  have inside: "16 + unat n2 * unat b \<le> unat bytes"
    unfolding n2 using up(1) div_times_less_eq_dividend[of "unat bytes - 16" "unat b"] by linarith
  let ?p = "\<lparr>pool_base = heap_end ts, n_tiles = n2, n_used = 0\<rparr>"
  let ?ts = "ts\<lparr>first_pool := ?p # first_pool ts, pgsz := 2 ^ k, heap_end := heap_end ts + unat bytes\<rparr>"
  have w: "(2 ^ k :: 64 word) > 0" using k by (simp add: word_gt_0)
  have g: "grow_pools (2 ^ k) b ts = Inr ?ts"
  proof -
    have "page_size (2 ^ k) (pgsz ts) = Inr (2 ^ k, 2 ^ k)"
      using inv w by (auto simp: page_size_def tiles_inv_def)
    then show ?thesis
      using full unfolding grow_pools_def n_def[symmetric]
      by (simp add: unat_ALIGN8_16 Let_def flip: n'_def bytes_def n2_def)
  qed
  have "handed (unat b) (?p # first_pool ts) = handed (unat b) (first_pool ts)"
    by (simp add: handed_Cons)
  then have "tiles_inv k (unat b) start m live ?ts"
    using inv inside by (auto simp: tiles_inv_def tile_at_def)
  then show ?thesis using g pos by auto
qed

lemma allocate_tile_ok:
  assumes inv: "tiles_inv k (unat b) start m live ts" and fit: "tiles_fit k (unat b) m"
  shows "\<exists>a ts'. allocate_tile (2 ^ k) b ts = Inr (a, ts') \<and> tiles_inv k (unat b) start (Suc m) (a # live) ts'"
proof (cases "first_tile ts")
  case (Some r)
  obtain fs where fs: "free_path (tile_link ts) (Some r) fs" "distinct (live @ fs)"
    "set (live @ fs) \<subseteq> handed (unat b) (first_pool ts)"
    using inv Some by (auto simp: tiles_inv_def)
  then obtain gs where gs: "fs = r # gs" by (cases fs) auto
  have "tiles_inv k (unat b) start (Suc m) (r # live) (ts\<lparr>first_tile := tile_link ts r\<rparr>)"
    using inv fs unfolding tiles_inv_def gs by (auto split: list.splits intro!: exI[of _ gs])
  then show ?thesis using Some fit
    by (auto simp: allocate_tile_def tiles_fit_def word_le_nat_alt)
next
  case None
  obtain ts1 p ps where g: "grow_pools (2 ^ k) b ts = Inr ts1" "tiles_inv k (unat b) start m live ts1"
    "first_pool ts1 = p # ps" "n_used p < n_tiles p" "first_tile ts1 = None"
    using grow_pools_ok[OF inv fit] None by auto
  let ?p = "p\<lparr>n_used := n_used p + 1\<rparr>"
  let ?ts = "ts1\<lparr>first_pool := ?p # ps\<rparr>"
  have "unat (n_tiles p) < 2 ^ 32" by (rule order.strict_trans2[OF unsigned_less]) simp
  then have used: "unat (n_used p + 1) = Suc (unat (n_used p))" "n_used p + 1 \<le> n_tiles p"
    using g(4) by (simp_all add: word_less_nat_alt word_le_nat_alt unat_word_ariths)
  have st: "stacked (unat b) start (p # ps) (heap_end ts1)"
    and fs: "set live \<subseteq> handed (unat b) (p # ps)" "distinct live"
    using g(2,3,5) by (auto simp: tiles_inv_def elim: free_path.elims)
  define a where "a = tile_at (unat b) p (unat (n_used p))"
  have new: "a \<notin> handed (unat b) (p # ps)"
  proof
    assume "a \<in> handed (unat b) (p # ps)"
    then consider i where "i < unat (n_used p)" "a = tile_at (unat b) p i" | "a \<in> handed (unat b) ps"
      by (auto simp: handed_Cons)
    then show False
    proof cases
      case 1
      then show False using tile_at_mono[of i "unat (n_used p)" "unat b" p] fit
        by (auto simp: a_def tiles_fit_def)
    next
      case 2
      then have "a + unat b \<le> pool_base p" using handed_below[of "unat b" start ps] st by auto
      then show False by (simp add: a_def tile_at_def)
    qed
  qed
  have more: "handed (unat b) (?p # ps) = insert a (handed (unat b) (p # ps))"
    by (auto simp: handed_Cons used a_def tile_at_def lessThan_Suc)
  have inv': "tiles_inv k (unat b) start (Suc m) (a # live) ?ts"
    using g(2,3,5) fs new st more used by (auto simp: tiles_inv_def tile_at_def intro!: exI[of _ "[]"])
  have "16 + unat (n_used p) * unat b < 2 ^ 64"
  proof -
    have "unat (n_used p) * unat b \<le> max 512 (2 * m) * unat b"
      using g(2,3) by (intro mult_right_mono) (auto simp: tiles_inv_def)
    also have "\<dots> \<le> 2 ^ 32" using fit by (auto simp: tiles_fit_def dest: add_leD1)
    finally show ?thesis by simp
  qed
  from unat_tile_offset[OF this] have "pool_base p + unat (POOL_HEADER + ucast (n_used p) * b) = a"
    by (simp add: unat_ALIGN8_16 a_def tile_at_def)
  then have "allocate_tile (2 ^ k) b ts = Inr (a, ?ts)"
    using g None fit by (simp add: allocate_tile_def tiles_fit_def word_le_nat_alt Let_def)
  then show ?thesis using inv' by blast
qed

lemma deallocate_tile_ok:
  assumes "tiles_inv k bytes start m live ts" "a \<in> set live"
  shows "tiles_inv k bytes start m (remove1 a live) (deallocate_tile a ts)"
proof -
  obtain fs where fs: "free_path (tile_link ts) (first_tile ts) fs" "distinct (live @ fs)"
    "set (live @ fs) \<subseteq> handed bytes (first_pool ts)"
    using assms(1) by (auto simp: tiles_inv_def)
  then have "a \<notin> set fs" using assms(2) by auto
  then have "free_path ((tile_link ts)(a := first_tile ts)) (Some a) (a # fs)"
    using fs(1) by (simp add: free_path_upd)
  moreover have "distinct (remove1 a live @ a # fs)" using fs(2) assms(2) by (auto dest: notin_set_remove1)
  moreover have "set (remove1 a live @ a # fs) \<subseteq> handed bytes (first_pool ts)"
    using fs(3) assms(2) by (auto dest: notin_set_remove1)
  ultimately show ?thesis
    using assms(1) unfolding tiles_inv_def deallocate_tile_def by (auto intro!: exI[of _ "a # fs"])
qed


section \<open>What the allocator promises\<close>

text \<open>A user of the allocator: tiles are taken, and the one that was taken as the \<open>i\<close>-th newest of
  those in use is released. The tiles in use are listed with the newest first.\<close>

datatype tile_step = Take | Release nat

fun run_tile_steps :: "int \<Rightarrow> 64 word \<Rightarrow> tile_step list \<Rightarrow> nat list \<times> tiles \<Rightarrow> (nat list \<times> tiles) res" where
  "run_tile_steps sysconf b [] s = Inr s"
| "run_tile_steps sysconf b (Take # steps) (live, ts) =
     bindE (allocate_tile sysconf b ts) (\<lambda>(a, ts). run_tile_steps sysconf b steps (a # live, ts))"
| "run_tile_steps sysconf b (Release i # steps) (live, ts) =
     (if i < length live
      then run_tile_steps sysconf b steps (remove1 (live ! i) live, deallocate_tile (live ! i) ts)
      else run_tile_steps sysconf b steps (live, ts))"

lemma tiles_fit_mono: "tiles_fit k bytes m \<Longrightarrow> n \<le> m \<Longrightarrow> tiles_fit k bytes n"
proof -
  assume f: "tiles_fit k bytes m" and n: "n \<le> m"
  then have "max 512 (2 * n) * bytes \<le> max 512 (2 * m) * bytes" by (intro mult_right_mono) auto
  then show ?thesis using f unfolding tiles_fit_def by linarith
qed

lemma run_tiles_ok:
  assumes "tiles_inv k (unat b) start m live ts" "tiles_fit k (unat b) (m + length steps)"
  shows "\<exists>live' ts' m'. run_tile_steps (2 ^ k) b steps (live, ts) = Inr (live', ts') \<and> tiles_inv k (unat b) start m' live' ts'"
  using assms
proof (induction steps arbitrary: m live ts)
  case (Cons step steps)
  show ?case
  proof (cases step)
    case Take
    obtain a ts' where a: "allocate_tile (2 ^ k) b ts = Inr (a, ts')" "tiles_inv k (unat b) start (Suc m) (a # live) ts'"
      using allocate_tile_ok[OF Cons.prems(1) tiles_fit_mono[OF Cons.prems(2)]] by auto
    then show ?thesis using Cons.IH[OF a(2)] Cons.prems(2) Take by simp
  next
    case (Release i)
    have f: "tiles_fit k (unat b) (m + length steps)" by (rule tiles_fit_mono[OF Cons.prems(2)]) simp
    show ?thesis
    proof (cases "i < length live")
      case True
      then have "tiles_inv k (unat b) start m (remove1 (live ! i) live) (deallocate_tile (live ! i) ts)"
        using deallocate_tile_ok[OF Cons.prems(1)] by simp
      from Cons.IH[OF this f] True Release show ?thesis by simp
    next
      case False
      then show ?thesis using Cons.IH[OF Cons.prems(1) f] Release by simp
    qed
  qed
qed auto

lemma tiles_inv_new: "tiles_inv k bytes start 0 [] (no_tiles start)"
  by (auto simp: tiles_inv_def no_tiles_def intro!: exI[of _ "[]"])

text \<open>C13. Tiles in use never overlap, and they lie within the memory that \<open>malloc\<close> gave, however tiles are
  taken and released, as long as the pools stay below 4 GiB.\<close>

theorem tiles_apart:
  assumes "tiles_fit k (unat b) (length steps)"
  shows "\<exists>live ts. run_tile_steps (2 ^ k) b steps ([], no_tiles start) = Inr (live, ts) \<and> distinct live \<and>
     (\<forall>x \<in> set live. start \<le> x \<and> x + unat b \<le> heap_end ts \<and>
        (\<forall>y \<in> set live. x \<noteq> y \<longrightarrow> x + unat b \<le> y \<or> y + unat b \<le> x))"
proof -
  from run_tiles_ok[OF tiles_inv_new, of k b steps start] assms
  obtain live ts m where r: "run_tile_steps (2 ^ k) b steps ([], no_tiles start) = Inr (live, ts)"
    "tiles_inv k (unat b) start m live ts" by auto
  then have st: "stacked (unat b) start (first_pool ts) (heap_end ts)" and d: "distinct live"
    and l: "set live \<subseteq> handed (unat b) (first_pool ts)"
    by (auto simp: tiles_inv_def)
  have "start \<le> x \<and> x + unat b \<le> heap_end ts \<and> (\<forall>y \<in> set live. x \<noteq> y \<longrightarrow> x + unat b \<le> y \<or> y + unat b \<le> x)"
    if "x \<in> set live" for x
    using handed_below[OF st, of x] handed_apart[OF st, of x] l that by blast
  then show ?thesis using r(1) d by blast
qed

lemma reused_tile: "map_sum id fst (run_tile_steps 4096 48 [Take, Take, Release 1, Take] ([], no_tiles 4096)) = Inr [4112, 4160]"
  by (simp add: allocate_tile_def grow_pools_def page_size_def no_tiles_def deallocate_tile_def ALIGN_TO_def ALIGN8_def Let_def)

theorem tiles_apart_witness:
  "\<exists>ts. run_tile_steps (2 ^ 12) 48 [Take, Take, Release 1, Take] ([], no_tiles 4096) = Inr ([4112, 4160], ts) \<and>
     4160 + 48 \<le> heap_end ts"
proof -
  have f: "tiles_fit 12 (unat (48 :: 64 word)) (length [Take, Take, Release 1, Take])" by (simp add: tiles_fit_def)
  from tiles_apart[OF f, of 4096] reused_tile show ?thesis by auto
qed

text \<open>
  Beyond that the cut mask bites: for tiles of 48 bytes a pool with room for \<open>2 ^ 27\<close> tiles would
  need more than 4 GiB; the length that is asked for is cut to 2 GiB and one page, and the count is
  computed from it, so that the new pool is smaller than the one before.
\<close>

lemma aligned_length_cut: "ALIGN_TO (16 + 2 ^ 27 * 48) 4096 = 2147487744"
  by (simp add: ALIGN_TO_def)

end
