(* ===== verification/Hashmap_Links.thy ===== *)
theory Hashmap_Links
  imports Hashmap Tiles
begin

text \<open>
  The hash table of \<open>src/shared/hashmap.c\<close> with its pointers: entries linked twice, into the chain
  of their bucket and into the iteration list, and taken from the tile allocator. Theory \<open>Hashmap\<close>
  has the same operations on lists of addresses; here every assignment of the code to a pointer is
  written out, a pointer to no entry faults, and the operations are shown to do what those of
  \<open>Hashmap\<close> do. So no pointer of a table ever dangles, and the lists that \<open>Hashmap\<close> works on are the
  ones that the pointers run through.
\<close>

section \<open>Entries and tables\<close>

record ('k, 'v) hashmap_entry =
  e_key :: 'k
  e_value :: 'v
  bucket_next :: ptr
  bucket_previous :: ptr
  iterate_next :: ptr
  iterate_previous :: ptr

text \<open>\<open>cells\<close> are the entries that are allocated, \<open>entry_tiles\<close> is where they come from.\<close>

record ('k, 'v) table =
  t_hash :: "'k \<Rightarrow> 32 word"
  t_compare :: "'k \<Rightarrow> 'k \<Rightarrow> int"
  iterate_head :: ptr
  iterate_tail :: ptr
  bucket_heads :: "ptr list"
  t_buckets :: nat
  t_entries :: nat
  cells :: "nat \<Rightarrow> ('k, 'v) hashmap_entry option"
  entry_tiles :: tiles

definition entry_at :: "('k, 'v) table \<Rightarrow> ptr \<Rightarrow> ('k, 'v) hashmap_entry res" where
  "entry_at t p = (case p of
       None \<Rightarrow> Inl NullDeref
     | Some a \<Rightarrow> (case cells t a of None \<Rightarrow> Inl OutOfBounds | Some e \<Rightarrow> Inr e))"

definition set_entry_at :: "ptr \<Rightarrow> (('k, 'v) hashmap_entry \<Rightarrow> ('k, 'v) hashmap_entry) \<Rightarrow> ('k, 'v) table \<Rightarrow> ('k, 'v) table res" where
  "set_entry_at p f t = bindE (entry_at t p) (\<lambda>e. Inr (t\<lparr>cells := (cells t)(the p := Some (f e))\<rparr>))"

text \<open>\<open>if (p) p->... = ...;\<close>\<close>

definition set_if :: "ptr \<Rightarrow> (('k, 'v) hashmap_entry \<Rightarrow> ('k, 'v) hashmap_entry) \<Rightarrow> ('k, 'v) table \<Rightarrow> ('k, 'v) table res" where
  "set_if p f t = (if p = None then Inr t else set_entry_at p f t)"

definition head_at :: "ptr list \<Rightarrow> nat \<Rightarrow> ptr res" where
  "head_at heads i = (if i < length heads then Inr (heads ! i) else Inl OutOfBounds)"

text \<open>
  A table with its own pool of entry tiles, at the address \<open>start\<close>. In the source the pools are variables of the file
  and serve all tables of the process; a table never looks at the tiles of another, and tiles that are in use do
  not overlap whoever took them (\<open>tiles_apart\<close> in \<open>Tiles\<close>).
\<close>

definition table_new :: "('k \<Rightarrow> 32 word) \<Rightarrow> ('k \<Rightarrow> 'k \<Rightarrow> int) \<Rightarrow> nat \<Rightarrow> ('k, 'v) table" where
  "table_new hash cmp start =
     \<lparr>t_hash = hash, t_compare = cmp, iterate_head = None, iterate_tail = None,
      bucket_heads = replicate INITIAL_N_BUCKETS None, t_buckets = INITIAL_N_BUCKETS, t_entries = 0,
      cells = (\<lambda>_. None), entry_tiles = no_tiles start\<rparr>"

definition t_bucket_of :: "('k, 'v) table \<Rightarrow> 'k \<Rightarrow> nat" where
  "t_bucket_of t key = unat (t_hash t key) mod t_buckets t"

section \<open>Linking\<close>

definition link_pointers :: "('k, 'v) table \<Rightarrow> nat \<Rightarrow> nat \<Rightarrow> ('k, 'v) table res" where
  "link_pointers t e hash =
     bindE (head_at (bucket_heads t) hash) (\<lambda>b.
     bindE (set_entry_at (Some e) (\<lambda>n. n\<lparr>bucket_next := b, bucket_previous := None\<rparr>) t) (\<lambda>t.
     bindE (set_if b (\<lambda>n. n\<lparr>bucket_previous := Some e\<rparr>) t) (\<lambda>t.
     let t = t\<lparr>bucket_heads := (bucket_heads t)[hash := Some e]\<rparr> in
     bindE (set_entry_at (Some e) (\<lambda>n. n\<lparr>iterate_previous := iterate_tail t, iterate_next := None\<rparr>) t) (\<lambda>t.
     bindE (if iterate_tail t \<noteq> None
            then bindE (assertE (iterate_head t \<noteq> None)) (\<lambda>_.
                   set_entry_at (iterate_tail t) (\<lambda>n. n\<lparr>iterate_next := Some e\<rparr>) t)
            else bindE (assertE (iterate_head t = None)) (\<lambda>_. Inr (t\<lparr>iterate_head := Some e\<rparr>))) (\<lambda>t.
     let t = t\<lparr>iterate_tail := Some e, t_entries := u32 (t_entries t + 1)\<rparr> in
     bindE (assertE (t_entries t \<ge> 1)) (\<lambda>_. Inr t))))))"

text \<open>Taking an entry out of its bucket chain, whose head is the \<open>hash\<close>-th of \<open>heads\<close>.\<close>

definition drop_from_bucket :: "('k, 'v) table \<Rightarrow> nat \<Rightarrow> nat \<Rightarrow> ('k, 'v) table res" where
  "drop_from_bucket t e hash =
     bindE (entry_at t (Some e)) (\<lambda>n.
     bindE (set_if (bucket_next n) (\<lambda>m. m\<lparr>bucket_previous := bucket_previous n\<rparr>) t) (\<lambda>t.
     bindE (entry_at t (Some e)) (\<lambda>n.
     if bucket_previous n \<noteq> None
     then set_entry_at (bucket_previous n) (\<lambda>m. m\<lparr>bucket_next := bucket_next n\<rparr>) t
     else bindE (head_at (bucket_heads t) hash) (\<lambda>_.
            Inr (t\<lparr>bucket_heads := (bucket_heads t)[hash := bucket_next n]\<rparr>)))))"

definition drop_from_iteration :: "('k, 'v) table \<Rightarrow> nat \<Rightarrow> ('k, 'v) table res" where
  "drop_from_iteration t e =
     bindE (entry_at t (Some e)) (\<lambda>n.
     bindE (if iterate_next n \<noteq> None
            then set_entry_at (iterate_next n) (\<lambda>m. m\<lparr>iterate_previous := iterate_previous n\<rparr>) t
            else Inr (t\<lparr>iterate_tail := iterate_previous n\<rparr>)) (\<lambda>t.
     bindE (entry_at t (Some e)) (\<lambda>n.
     if iterate_previous n \<noteq> None
     then set_entry_at (iterate_previous n) (\<lambda>m. m\<lparr>iterate_next := iterate_next n\<rparr>) t
     else Inr (t\<lparr>iterate_head := iterate_next n\<rparr>))))"

definition unlink_pointers :: "('k, 'v) table \<Rightarrow> nat \<Rightarrow> nat \<Rightarrow> ('k, 'v) table res" where
  "unlink_pointers t e hash =
     bindE (drop_from_iteration t e) (\<lambda>t.
     bindE (drop_from_bucket t e hash) (\<lambda>t.
     bindE (assertE (t_entries t \<ge> 1)) (\<lambda>_. Inr (t\<lparr>t_entries := t_entries t - 1\<rparr>))))"

text \<open>The entry goes back to the allocator, which writes its chain over the key.\<close>

definition remove_linked :: "('k, 'v) table \<Rightarrow> nat \<Rightarrow> ('k, 'v) table res" where
  "remove_linked t e =
     bindE (entry_at t (Some e)) (\<lambda>n.
     bindE (unlink_pointers t e (t_bucket_of t (e_key n))) (\<lambda>t.
       Inr (t\<lparr>cells := (cells t)(e := None), entry_tiles := deallocate_tile e (entry_tiles t)\<rparr>)))"

section \<open>Scanning and growing\<close>

partial_function (option) scan_chain ::
  "('k, 'v) table \<Rightarrow> 'k \<Rightarrow> ptr \<Rightarrow> nat option res option" where
  [code]: "scan_chain t key p = (case p of
       None \<Rightarrow> Some (Inr None)
     | Some e \<Rightarrow> (case cells t e of
           None \<Rightarrow> Some (Inl OutOfBounds)
         | Some n \<Rightarrow> if t_compare t (e_key n) key = 0 then Some (Inr (Some e)) else scan_chain t key (bucket_next n)))"

definition scan_pointers :: "('k, 'v) table \<Rightarrow> nat \<Rightarrow> 'k \<Rightarrow> nat option res" where
  "scan_pointers t hash key =
     bindE (assertE (hash < t_buckets t)) (\<lambda>_.
     bindE (head_at (bucket_heads t) hash) (\<lambda>p.
       case scan_chain t key p of None \<Rightarrow> Inl Diverges | Some r \<Rightarrow> r))"

text \<open>One entry from its old chain to the front of its new one; \<open>n\<close> are the new heads.\<close>

definition rehash_entry :: "nat \<Rightarrow> nat \<Rightarrow> ptr list \<times> ('k, 'v) table \<Rightarrow> (ptr list \<times> ('k, 'v) table) res" where
  "rehash_entry m i s =
     (let (n, t) = s in
      bindE (entry_at t (Some i)) (\<lambda>ie.
      let hash = unat (t_hash t (e_key ie)) in
      bindE (drop_from_bucket t i (hash mod t_buckets t)) (\<lambda>t.
      let x = hash mod m in
      bindE (head_at n x) (\<lambda>b.
      bindE (set_entry_at (Some i) (\<lambda>e. e\<lparr>bucket_next := b, bucket_previous := None\<rparr>) t) (\<lambda>t.
      bindE (set_if b (\<lambda>e. e\<lparr>bucket_previous := Some i\<rparr>) t) (\<lambda>t. Inr (n[x := Some i], t)))))))"

partial_function (option) rehash_from ::
  "nat \<Rightarrow> ptr \<Rightarrow> ptr list \<times> ('k, 'v) table \<Rightarrow> (ptr list \<times> ('k, 'v) table) res option" where
  [code]: "rehash_from m p s = (case p of
       None \<Rightarrow> Some (Inr s)
     | Some i \<Rightarrow> (case rehash_entry m i s of
           Inl f \<Rightarrow> Some (Inl f)
         | Inr s' \<Rightarrow> (case cells (snd s') i of
               None \<Rightarrow> Some (Inl OutOfBounds)
             | Some n \<Rightarrow> rehash_from m (iterate_next n) s')))"

definition resize_pointers :: "('k, 'v) table \<Rightarrow> (bool \<times> ('k, 'v) table) res" where
  "resize_pointers t =
     (if u32 (t_entries t * 4) < u32 (t_buckets t * 3) then Inr (False, t)
      else
        let m = u32 ((t_entries t + 1) * 4 - 1)
        in bindE (case rehash_from m (iterate_head t) (replicate m None, t) of None \<Rightarrow> Inl Diverges | Some r \<Rightarrow> r)
             (\<lambda>(n, t). Inr (True, t\<lparr>bucket_heads := n, t_buckets := m\<rparr>)))"

section \<open>Operations\<close>

text \<open>An entry has six words; \<open>sysconf\<close> is the page size.\<close>

definition table_put :: "int \<Rightarrow> ('k, 'v) table \<Rightarrow> 'k \<Rightarrow> 'v \<Rightarrow> (int \<times> ('k, 'v) table) res" where
  "table_put sysconf t key v =
     bindE (scan_pointers t (t_bucket_of t key) key) (\<lambda>s. case s of
         Some e \<Rightarrow> bindE (entry_at t (Some e)) (\<lambda>n. Inr (if e_value n = v then 0 else - EEXIST, t))
       | None \<Rightarrow>
           bindE (resize_pointers t) (\<lambda>(_, t).
           bindE (allocate_tile sysconf 48 (entry_tiles t)) (\<lambda>(e, ts).
           let t = t\<lparr>entry_tiles := ts, cells := (cells t)(e := Some
                 \<lparr>e_key = key, e_value = v, bucket_next = None, bucket_previous = None,
                  iterate_next = None, iterate_previous = None\<rparr>)\<rparr>
           in bindE (link_pointers t e (t_bucket_of t key)) (\<lambda>t. Inr (1, t)))))"

definition table_update :: "('k, 'v) table \<Rightarrow> 'k \<Rightarrow> 'v \<Rightarrow> (int \<times> ('k, 'v) table) res" where
  "table_update t key v =
     bindE (scan_pointers t (t_bucket_of t key) key) (\<lambda>s. case s of
         None \<Rightarrow> Inr (- ENOENT, t)
       | Some e \<Rightarrow> bindE (set_entry_at (Some e) (\<lambda>n. n\<lparr>e_value := v\<rparr>) t) (\<lambda>t. Inr (0, t)))"

definition table_get :: "('k, 'v) table \<Rightarrow> 'k \<Rightarrow> 'v option res" where
  "table_get t key =
     bindE (scan_pointers t (t_bucket_of t key) key) (\<lambda>s. case s of
         None \<Rightarrow> Inr None
       | Some e \<Rightarrow> bindE (entry_at t (Some e)) (\<lambda>n. Inr (Some (e_value n))))"

definition table_remove :: "('k, 'v) table \<Rightarrow> 'k \<Rightarrow> ('v option \<times> ('k, 'v) table) res" where
  "table_remove t key =
     bindE (scan_pointers t (t_bucket_of t key) key) (\<lambda>s. case s of
         None \<Rightarrow> Inr (None, t)
       | Some e \<Rightarrow> bindE (entry_at t (Some e)) (\<lambda>n. bindE (remove_linked t e) (\<lambda>t. Inr (Some (e_value n), t))))"

text \<open>The iterator, as in \<open>Hashmap\<close>.\<close>

definition table_iterate ::
  "('k, 'v) table \<Rightarrow> nat option option \<Rightarrow> (('k \<times> 'v) option \<times> nat option option) res" where
  "table_iterate t i =
     (if i = Some None \<or> i = None \<and> iterate_head t = None then Inr (None, Some None)
      else bindE (entry_at t (case i of None \<Rightarrow> iterate_head t | Some e \<Rightarrow> e))
             (\<lambda>n. Inr (Some (e_key n, e_value n), Some (iterate_next n))))"


section \<open>The pointers as functions\<close>

type_synonym ('k, 'v) cells = "nat \<Rightarrow> ('k, 'v) hashmap_entry option"

definition bnext :: "('k, 'v) cells \<Rightarrow> nat \<Rightarrow> ptr" where
  "bnext c a = (case c a of None \<Rightarrow> None | Some n \<Rightarrow> bucket_next n)"

definition bprev :: "('k, 'v) cells \<Rightarrow> nat \<Rightarrow> ptr" where
  "bprev c a = (case c a of None \<Rightarrow> None | Some n \<Rightarrow> bucket_previous n)"

definition inext :: "('k, 'v) cells \<Rightarrow> nat \<Rightarrow> ptr" where
  "inext c a = (case c a of None \<Rightarrow> None | Some n \<Rightarrow> iterate_next n)"

definition iprev :: "('k, 'v) cells \<Rightarrow> nat \<Rightarrow> ptr" where
  "iprev c a = (case c a of None \<Rightarrow> None | Some n \<Rightarrow> iterate_previous n)"

definition contents :: "('k, 'v) cells \<Rightarrow> nat \<Rightarrow> ('k \<times> 'v) option" where
  "contents c a = map_option (\<lambda>n. (e_key n, e_value n)) (c a)"

lemmas view_defs = bnext_def bprev_def inext_def iprev_def contents_def

lemma entry_views_upd [links]:
  "bnext (c(a := Some n)) = (bnext c)(a := bucket_next n)"
  "bprev (c(a := Some n)) = (bprev c)(a := bucket_previous n)"
  "inext (c(a := Some n)) = (inext c)(a := iterate_next n)"
  "iprev (c(a := Some n)) = (iprev c)(a := iterate_previous n)"
  "contents (c(a := Some n)) = (contents c)(a := Some (e_key n, e_value n))"
  by (auto simp: view_defs fun_eq_iff)

lemma entry_views_at [links]:
  "c a = Some n \<Longrightarrow> bnext c a = bucket_next n" "c a = Some n \<Longrightarrow> bprev c a = bucket_previous n"
  "c a = Some n \<Longrightarrow> inext c a = iterate_next n" "c a = Some n \<Longrightarrow> iprev c a = iterate_previous n"
  "c a = Some n \<Longrightarrow> contents c a = Some (e_key n, e_value n)"
  by (auto simp: view_defs)

lemma entry_at_Some [simp]: "cells t a = Some n \<Longrightarrow> entry_at t (Some a) = Inr n"
  by (simp add: entry_at_def)

lemma set_entry_at_Some [simp]:
  "cells t a = Some n \<Longrightarrow> set_entry_at (Some a) f t = Inr (t\<lparr>cells := (cells t)(a := Some (f n))\<rparr>)"
  by (simp add: set_entry_at_def)

lemma set_if_simps [simp]: "set_if None f t = Inr t" "set_if (Some a) f t = set_entry_at (Some a) f t"
  by (simp_all add: set_if_def)

lemma head_at_ok [simp]: "i < length heads \<Longrightarrow> head_at heads i = Inr (heads ! i)"
  by (simp add: head_at_def)

text \<open>What \<open>drop_from_bucket\<close> assigns: the pointers of the two neighbours, or the head.\<close>

lemma drop_from_bucket_views:
  assumes n: "cells t e = Some n" and i: "hash < length (bucket_heads t)"
    and near: "\<And>y. bnext (cells t) e = Some y \<or> bprev (cells t) e = Some y \<Longrightarrow> cells t y \<noteq> None \<and> y \<noteq> e"
  shows "\<exists>c'. drop_from_bucket t e hash = Inr (t\<lparr>cells := c', bucket_heads := (bucket_heads t)[hash :=
         if bprev (cells t) e = None then bnext (cells t) e else bucket_heads t ! hash]\<rparr>) \<and>
     bnext c' = (case bprev (cells t) e of None \<Rightarrow> bnext (cells t) | Some y \<Rightarrow> (bnext (cells t))(y := bnext (cells t) e)) \<and>
     bprev c' = (case bnext (cells t) e of None \<Rightarrow> bprev (cells t) | Some y \<Rightarrow> (bprev (cells t))(y := bprev (cells t) e)) \<and>
     inext c' = inext (cells t) \<and> iprev c' = iprev (cells t) \<and> contents c' = contents (cells t)"
proof (cases "bucket_next n"; cases "bucket_previous n")
  assume "bucket_next n = None" "bucket_previous n = None"
  then show ?thesis using n i by (intro exI[of _ "cells t"]) (simp add: drop_from_bucket_def links)
next
  fix p assume c: "bucket_next n = None" "bucket_previous n = Some p"
  obtain m where m: "cells t p = Some m" "p \<noteq> e" using near[of p] n c by (auto simp: links)
  then show ?thesis using n c i
    by (intro exI[of _ "(cells t)(p := Some (m\<lparr>bucket_next := None\<rparr>))"])
      (auto simp: drop_from_bucket_def links fun_eq_iff)
next
  fix q assume c: "bucket_next n = Some q" "bucket_previous n = None"
  obtain k where k: "cells t q = Some k" "q \<noteq> e" using near[of q] n c by (auto simp: links)
  then show ?thesis using n c i
    by (intro exI[of _ "(cells t)(q := Some (k\<lparr>bucket_previous := None\<rparr>))"])
      (auto simp: drop_from_bucket_def links fun_eq_iff)
next
  fix q p assume c: "bucket_next n = Some q" "bucket_previous n = Some p"
  obtain k where k: "cells t q = Some k" "q \<noteq> e" using near[of q] n c by (auto simp: links)
  obtain m where m: "cells t p = Some m" "p \<noteq> e" using near[of p] n c by (auto simp: links)
  show ?thesis
  proof (cases "p = q")
    case True
    then show ?thesis using n c k i
      by (intro exI[of _ "(cells t)(q := Some (k\<lparr>bucket_previous := Some p, bucket_next := Some q\<rparr>))"])
        (auto simp: drop_from_bucket_def links fun_eq_iff)
  next
    case False
    then show ?thesis using n c k m i
      by (intro exI[of _ "(cells t)(q := Some (k\<lparr>bucket_previous := Some p\<rparr>), p := Some (m\<lparr>bucket_next := Some q\<rparr>))"])
        (auto simp: drop_from_bucket_def links fun_eq_iff)
  qed
qed

lemma drop_from_iteration_views:
  assumes n: "cells t e = Some n"
    and near: "\<And>y. inext (cells t) e = Some y \<or> iprev (cells t) e = Some y \<Longrightarrow> cells t y \<noteq> None \<and> y \<noteq> e"
  shows "\<exists>c'. drop_from_iteration t e = Inr (t\<lparr>cells := c',
         iterate_head := if iprev (cells t) e = None then inext (cells t) e else iterate_head t,
         iterate_tail := if inext (cells t) e = None then iprev (cells t) e else iterate_tail t\<rparr>) \<and>
     inext c' = (case iprev (cells t) e of None \<Rightarrow> inext (cells t) | Some y \<Rightarrow> (inext (cells t))(y := inext (cells t) e)) \<and>
     iprev c' = (case inext (cells t) e of None \<Rightarrow> iprev (cells t) | Some y \<Rightarrow> (iprev (cells t))(y := iprev (cells t) e)) \<and>
     bnext c' = bnext (cells t) \<and> bprev c' = bprev (cells t) \<and> contents c' = contents (cells t)"
proof (cases "iterate_next n"; cases "iterate_previous n")
  assume "iterate_next n = None" "iterate_previous n = None"
  then show ?thesis using n by (intro exI[of _ "cells t"]) (simp add: drop_from_iteration_def links)
next
  fix p assume c: "iterate_next n = None" "iterate_previous n = Some p"
  obtain m where m: "cells t p = Some m" "p \<noteq> e" using near[of p] n c by (auto simp: links)
  then show ?thesis using n c
    by (intro exI[of _ "(cells t)(p := Some (m\<lparr>iterate_next := None\<rparr>))"])
      (auto simp: drop_from_iteration_def links fun_eq_iff)
next
  fix q assume c: "iterate_next n = Some q" "iterate_previous n = None"
  obtain k where k: "cells t q = Some k" "q \<noteq> e" using near[of q] n c by (auto simp: links)
  then show ?thesis using n c
    by (intro exI[of _ "(cells t)(q := Some (k\<lparr>iterate_previous := None\<rparr>))"])
      (auto simp: drop_from_iteration_def links fun_eq_iff)
next
  fix q p assume c: "iterate_next n = Some q" "iterate_previous n = Some p"
  obtain k where k: "cells t q = Some k" "q \<noteq> e" using near[of q] n c by (auto simp: links)
  obtain m where m: "cells t p = Some m" "p \<noteq> e" using near[of p] n c by (auto simp: links)
  show ?thesis
  proof (cases "p = q")
    case True
    then show ?thesis using n c k
      by (intro exI[of _ "(cells t)(q := Some (k\<lparr>iterate_previous := Some p, iterate_next := Some q\<rparr>))"])
        (auto simp: drop_from_iteration_def links fun_eq_iff)
  next
    case False
    then show ?thesis using n c k m
      by (intro exI[of _ "(cells t)(q := Some (k\<lparr>iterate_previous := Some p\<rparr>), p := Some (m\<lparr>iterate_next := Some q\<rparr>))"])
        (auto simp: drop_from_iteration_def links fun_eq_iff)
  qed
qed

text \<open>The front of a bucket.\<close>

lemma push_views:
  assumes e: "cells t e = Some n" and b: "\<And>y. b = Some y \<Longrightarrow> cells t y \<noteq> None \<and> y \<noteq> e"
  shows "\<exists>c'. bindE (set_entry_at (Some e) (\<lambda>n. n\<lparr>bucket_next := b, bucket_previous := None\<rparr>) t)
       (set_if b (\<lambda>n. n\<lparr>bucket_previous := Some e\<rparr>)) = Inr (t\<lparr>cells := c'\<rparr>) \<and>
     bnext c' = (bnext (cells t))(e := b) \<and>
     bprev c' = (case b of None \<Rightarrow> bprev (cells t) | Some y \<Rightarrow> (bprev (cells t))(y := Some e))(e := None) \<and>
     inext c' = inext (cells t) \<and> iprev c' = iprev (cells t) \<and> contents c' = contents (cells t)"
proof (cases b)
  case None
  then show ?thesis using e
    by (intro exI[of _ "(cells t)(e := Some (n\<lparr>bucket_next := None, bucket_previous := None\<rparr>))"])
      (auto simp: links fun_eq_iff)
next
  case (Some y)
  then obtain m where "cells t y = Some m" "y \<noteq> e" using b[of y] by auto
  then show ?thesis using e Some
    by (intro exI[of _ "(cells t)(e := Some (n\<lparr>bucket_next := b, bucket_previous := None\<rparr>), y := Some (m\<lparr>bucket_previous := Some e\<rparr>))"])
      (auto simp: links fun_eq_iff)
qed


section \<open>What the operations do to the chains\<close>

definition allocated :: "('k, 'v) cells \<Rightarrow> nat list \<Rightarrow> bool" where
  "allocated c as \<longleftrightarrow> (\<forall>a \<in> set as. c a \<noteq> None)"

lemma contents_None: "contents c' = contents c \<Longrightarrow> c' a = None \<longleftrightarrow> c a = None"
  by (metis contents_def option.map_disc_iff)

lemma allocated_contents: "contents c' = contents c \<Longrightarrow> allocated c' as = allocated c as"
  using contents_None[of c' c] by (simp add: allocated_def)

lemma allocated_mono: "allocated c as \<Longrightarrow> contents c' = contents c \<Longrightarrow> set bs \<subseteq> set as \<Longrightarrow> allocated c' bs"
  using contents_None[of c' c] by (auto simp: allocated_def)

lemma family_near:
  assumes "family nx pv heads lss" "i < length lss" "x \<in> set (lss ! i)"
  shows "nx x = Some y \<or> pv x = Some y \<Longrightarrow> y \<in> set (concat lss) \<and> y \<noteq> x"
proof -
  obtain t where t: "chain nx pv (heads ! i) (lss ! i) t" using assms by (auto simp: family_def)
  show "nx x = Some y \<or> pv x = Some y \<Longrightarrow> y \<in> set (concat lss) \<and> y \<noteq> x"
    using chain_near[OF t assms(3), of y] concat_same(2)[OF assms(2)] by auto
qed

lemma drop_from_bucket_ok:
  assumes f: "family (bnext (cells t)) (bprev (cells t)) (bucket_heads t @ ns) lss" and a: "allocated (cells t) (concat lss)"
    and i: "i < length (bucket_heads t)" and e: "e \<in> set (lss ! i)"
  shows "\<exists>c' hs. drop_from_bucket t e i = Inr (t\<lparr>cells := c', bucket_heads := hs\<rparr>) \<and>
     length hs = length (bucket_heads t) \<and>
     family (bnext c') (bprev c') (hs @ ns) (lss[i := remove1 e (lss ! i)]) \<and>
     inext c' = inext (cells t) \<and> iprev c' = iprev (cells t) \<and> contents c' = contents (cells t)"
proof -
  have i': "i < length lss" using f i by (auto simp: family_def)
  have "e \<in> set (concat lss)" using concat_same(2)[OF i'] e by blast
  then obtain n where n: "cells t e = Some n" using a by (auto simp: allocated_def)
  have near: "cells t y \<noteq> None \<and> y \<noteq> e" if "bnext (cells t) e = Some y \<or> bprev (cells t) e = Some y" for y
    using family_near[OF f i' e that] a by (auto simp: allocated_def)
  from drop_from_bucket_views[OF n i near] obtain c' where c': "drop_from_bucket t e i = Inr (t\<lparr>cells := c', bucket_heads := (bucket_heads t)[i :=
         if bprev (cells t) e = None then bnext (cells t) e else bucket_heads t ! i]\<rparr>)"
     "bnext c' = (case bprev (cells t) e of None \<Rightarrow> bnext (cells t) | Some y \<Rightarrow> (bnext (cells t))(y := bnext (cells t) e))"
     "bprev c' = (case bnext (cells t) e of None \<Rightarrow> bprev (cells t) | Some y \<Rightarrow> (bprev (cells t))(y := bprev (cells t) e))"
     "inext c' = inext (cells t) \<and> iprev c' = iprev (cells t) \<and> contents c' = contents (cells t)"
    by blast
  have "(bucket_heads t @ ns)[i := v] = (bucket_heads t)[i := v] @ ns" "(bucket_heads t @ ns) ! i = bucket_heads t ! i" for v
    using i by (simp_all add: list_update_append1 nth_append)
  then have "family (bnext c') (bprev c') ((bucket_heads t)[i :=
      if bprev (cells t) e = None then bnext (cells t) e else bucket_heads t ! i] @ ns) (lss[i := remove1 e (lss ! i)])"
    using family_remove[OF f i' e] by (simp only: c'(2,3))
  then show ?thesis using c'(1,4) by (metis length_list_update)
qed

lemma push_ok:
  assumes f: "family (bnext (cells t)) (bprev (cells t)) heads lss" and a: "allocated (cells t) (concat lss)"
    and i: "i < length lss" and e: "e \<notin> set (concat lss)" "cells t e \<noteq> None"
  shows "\<exists>t0 c'. set_entry_at (Some e) (\<lambda>n. n\<lparr>bucket_next := heads ! i, bucket_previous := None\<rparr>) t = Inr t0 \<and>
     set_if (heads ! i) (\<lambda>n. n\<lparr>bucket_previous := Some e\<rparr>) t0 = Inr (t\<lparr>cells := c'\<rparr>) \<and>
     family (bnext c') (bprev c') (heads[i := Some e]) (lss[i := e # lss ! i]) \<and>
     inext c' = inext (cells t) \<and> iprev c' = iprev (cells t) \<and> contents c' = contents (cells t)"
proof -
  obtain n where n: "cells t e = Some n" using e by auto
  obtain s where s: "chain (bnext (cells t)) (bprev (cells t)) (heads ! i) (lss ! i) s"
    using f i by (auto simp: family_def)
  have b: "cells t y \<noteq> None \<and> y \<noteq> e" if "heads ! i = Some y" for y
  proof -
    have "y \<in> set (concat lss)" using chain_head[OF s] that concat_same(2)[OF i] by (auto split: list.splits)
    then show ?thesis using a e by (auto simp: allocated_def)
  qed
  from push_views[OF n b] obtain c' where c': "bindE (set_entry_at (Some e) (\<lambda>n. n\<lparr>bucket_next := heads ! i, bucket_previous := None\<rparr>) t)
       (set_if (heads ! i) (\<lambda>n. n\<lparr>bucket_previous := Some e\<rparr>)) = Inr (t\<lparr>cells := c'\<rparr>)"
     "bnext c' = (bnext (cells t))(e := heads ! i)"
     "bprev c' = (case heads ! i of None \<Rightarrow> bprev (cells t) | Some y \<Rightarrow> (bprev (cells t))(y := Some e))(e := None)"
     "inext c' = inext (cells t) \<and> iprev c' = iprev (cells t) \<and> contents c' = contents (cells t)"
    by blast
  from family_push[OF f i e(1)] c'(2-4) have
    "family (bnext c') (bprev c') (heads[i := Some e]) (lss[i := e # lss ! i])" by simp
  then show ?thesis using c'(1,4) by (auto simp: bindE_eq_Inr)
qed

section \<open>The table that the pointers represent\<close>

definition represents :: "('k, 'v) table \<Rightarrow> ('k, 'v) Hashmap \<Rightarrow> bool" where
  "represents t h \<longleftrightarrow> t_hash t = hash_func h \<and> t_compare t = compare_func h \<and> t_buckets t = n_buckets h \<and>
     t_entries t = n_entries h \<and> contents (cells t) = entries h \<and>
     chain (inext (cells t)) (iprev (cells t)) (iterate_head t) (iterate_list h) (iterate_tail t) \<and>
     family (bnext (cells t)) (bprev (cells t)) (bucket_heads t) (buckets h)"

text \<open>What the invariant of \<open>Hashmap\<close> says of the chains.\<close>

lemma inv_chains:
  assumes "table_inv hash cmp h"
  shows "i < n_buckets h \<Longrightarrow> set (buckets h ! i) = {e \<in> set (iterate_list h). bucket_of h (entry_key h e) = i}"
    "length (buckets h) = n_buckets h" "set (concat (buckets h)) = set (iterate_list h)"
proof -
  have c: "\<And>i. i < n_buckets h \<Longrightarrow> set (buckets h ! i) = {e \<in> set (iterate_list h). bucket_of h (entry_key h e) = i}"
    and n: "length (buckets h) = n_buckets h" "0 < n_buckets h"
    using assms by (auto simp: table_inv_def chains_ok_def)
  show "i < n_buckets h \<Longrightarrow> set (buckets h ! i) = {e \<in> set (iterate_list h). bucket_of h (entry_key h e) = i}"
    "length (buckets h) = n_buckets h" using c n by auto
  have "e \<in> set (concat (buckets h))" if "e \<in> set (iterate_list h)" for e
  proof -
    have b: "bucket_of h (entry_key h e) < n_buckets h" using n by (simp add: bucket_of_def)
    then have "e \<in> set (buckets h ! bucket_of h (entry_key h e))" using c that by auto
    then show ?thesis using concat_same(2) b n by (metis UnI1)
  qed
  moreover have "e \<in> set (iterate_list h)" if "e \<in> set (concat (buckets h))" for e
  proof -
    obtain l where "l \<in> set (buckets h)" "e \<in> set l" using \<open>e \<in> set (concat _)\<close> by auto
    then obtain i where "i < n_buckets h" "e \<in> set (buckets h ! i)" using n by (auto simp: in_set_conv_nth)
    then show ?thesis using c by auto
  qed
  ultimately show "set (concat (buckets h)) = set (iterate_list h)" by blast
qed

lemma represents_allocated:
  assumes "represents t h" "table_inv hash cmp h"
  shows "allocated (cells t) (iterate_list h)" "allocated (cells t) (concat (buckets h))"
proof -
  have "cells t a \<noteq> None" if "a \<in> set (iterate_list h)" for a
  proof
    assume "cells t a = None"
    moreover have "contents (cells t) a = entries h a" using assms(1) by (simp add: represents_def)
    ultimately have "entries h a = None" by (simp add: contents_def)
    then show False using assms(2) that by (auto simp: table_inv_def)
  qed
  then show "allocated (cells t) (iterate_list h)" by (simp add: allocated_def)
  then show "allocated (cells t) (concat (buckets h))" using inv_chains(3)[OF assms(2)] by (simp add: allocated_def)
qed

lemma represents_entry:
  assumes "represents t h" "table_inv hash cmp h" "e \<in> set (iterate_list h)"
  shows "\<exists>n. cells t e = Some n \<and> e_key n = entry_key h e \<and> e_value n = entry_value h e"
proof -
  obtain n where n: "cells t e = Some n" using represents_allocated(1)[OF assms(1,2)] assms(3) by (auto simp: allocated_def)
  have "contents (cells t) e = entries h e" using assms(1) by (simp add: represents_def)
  with n have "entries h e = Some (e_key n, e_value n)" by (simp add: contents_def)
  then show ?thesis using n by (simp add: entry_key_def entry_value_def)
qed

lemma represents_bucket: "represents t h \<Longrightarrow> t_bucket_of t key = bucket_of h key"
  by (simp add: represents_def t_bucket_of_def bucket_of_def)


section \<open>The operations on pointers do what those of the table do\<close>

lemma scan_chain_ok:
  assumes "dseg (bnext (cells t)) pv p b as None s" "allocated (cells t) as"
  shows "scan_chain t key p =
     Some (Inr (find (\<lambda>e. t_compare t (fst (the (contents (cells t) e))) key = 0) as))"
  using assms
proof (induction as arbitrary: p b)
  case Nil
  then show ?case by (simp add: scan_chain.simps)
next
  case (Cons a as)
  then obtain n where "cells t a = Some n" by (auto simp: allocated_def)
  then show ?case using Cons by (subst scan_chain.simps) (auto simp: links allocated_def)
qed

lemma scan_pointers_ok:
  assumes r: "represents t h" and inv: "table_inv hash cmp h" and i: "i < n_buckets h"
  shows "scan_pointers t i key = hash_scan h i key"
proof -
  have len: "length (buckets h) = n_buckets h" "length (bucket_heads t) = n_buckets h"
    using inv_chains(2)[OF inv] r by (auto simp: represents_def family_def)
  obtain s where s: "dseg (bnext (cells t)) (bprev (cells t)) (bucket_heads t ! i) None (buckets h ! i) None s"
    using r i len by (auto simp: represents_def family_def chain_def)
  have "allocated (cells t) (buckets h ! i)"
    using represents_allocated(2)[OF r inv] i len concat_same(2)[of i "buckets h"] by (auto simp: allocated_def)
  from scan_chain_ok[OF s this] show ?thesis
    using r i len by (simp add: scan_pointers_def hash_scan_def represents_def entry_key_def)
qed

lemma link_pointers_ok:
  assumes r: "represents t h" and a: "allocated (cells t) (iterate_list h)" "set (concat (buckets h)) = set (iterate_list h)"
    and e: "e \<notin> set (iterate_list h)" "cells t e \<noteq> None" and i: "i < length (buckets h)"
    and l: "link_entry h e i = Inr h'"
  shows "\<exists>t'. link_pointers t e i = Inr t' \<and> represents t' h' \<and> entry_tiles t' = entry_tiles t"
proof -
  have f: "family (bnext (cells t)) (bprev (cells t)) (bucket_heads t) (buckets h)"
    and c: "chain (inext (cells t)) (iprev (cells t)) (iterate_head t) (iterate_list h) (iterate_tail t)"
    using r by (auto simp: represents_def)
  have ac: "allocated (cells t) (concat (buckets h))" using a by (simp add: allocated_def)
  have ne: "e \<notin> set (concat (buckets h))" using a e by simp
  obtain t0 c' where p: "set_entry_at (Some e) (\<lambda>n. n\<lparr>bucket_next := bucket_heads t ! i, bucket_previous := None\<rparr>) t = Inr t0"
    "set_if (bucket_heads t ! i) (\<lambda>n. n\<lparr>bucket_previous := Some e\<rparr>) t0 = Inr (t\<lparr>cells := c'\<rparr>)"
    "family (bnext c') (bprev c') ((bucket_heads t)[i := Some e]) ((buckets h)[i := e # buckets h ! i])"
    "inext c' = inext (cells t)" "iprev c' = iprev (cells t)" "contents c' = contents (cells t)"
    using push_ok[OF f ac i ne e(2)] by blast
  have i': "i < length (bucket_heads t)" using f i by (simp add: family_def)
  obtain n where n: "c' e = Some n" using contents_None[OF p(6), of e] e(2) by auto
  let ?n = "n\<lparr>iterate_previous := iterate_tail t, iterate_next := None\<rparr>"
  let ?t1 = "t\<lparr>cells := c'(e := Some ?n), bucket_heads := (bucket_heads t)[i := Some e]\<rparr>"
  have pos: "1 \<le> u32 (n_entries h + 1)" using l by (auto simp: link_entry_def Let_def res_simps)
  have h': "h' = h\<lparr>buckets := (buckets h)[i := e # buckets h ! i], iterate_list := iterate_list h @ [e],
      n_entries := u32 (n_entries h + 1)\<rparr>"
    using l by (auto simp: link_entry_def Let_def res_simps)
  have ne: "t_entries t = n_entries h" using r by (simp add: represents_def)
  obtain c2 where c2: "link_pointers t e i = Inr (t\<lparr>cells := c2, bucket_heads := (bucket_heads t)[i := Some e],
      iterate_head := if iterate_tail t = None then Some e else iterate_head t, iterate_tail := Some e,
      t_entries := u32 (n_entries h + 1)\<rparr>)"
    "inext c2 = (case iterate_tail t of None \<Rightarrow> inext c' | Some y \<Rightarrow> (inext c')(y := Some e))(e := None)"
    "iprev c2 = (iprev c')(e := iterate_tail t)" "bnext c2 = bnext c'" "bprev c2 = bprev c'" "contents c2 = contents c'"
  proof (cases "iterate_tail t")
    case None
    then have "iterate_head t = None" using chain_ends[OF c] by simp
    then show thesis using None p(1,2) n i' pos
      by (intro that[of "c'(e := Some ?n)"], simp add: link_pointers_def Let_def ne) (auto simp: links fun_eq_iff)
  next
    case (Some y)
    then have y: "y \<in> set (iterate_list h)" "iterate_head t \<noteq> None"
      using chain_ends[OF c] chain_tail[OF c] by (auto split: if_splits)
    then have "cells t y \<noteq> None" "y \<noteq> e" using a(1) e by (auto simp: allocated_def)
    then obtain m where m: "c' y = Some m" "y \<noteq> e" using contents_None[OF p(6), of y] by auto
    then show thesis using Some p(1,2) n i' pos y
      by (intro that[of "c'(e := Some ?n, y := Some (m\<lparr>iterate_next := Some e\<rparr>))"], simp add: link_pointers_def Let_def ne)
        (auto simp: links fun_eq_iff)
  qed
  have "chain (inext c2) (iprev c2) (if iterate_tail t = None then Some e else iterate_head t) (iterate_list h @ [e]) (Some e)"
    using chain_add[OF c e(1)] by (simp only: c2 p)
  then show ?thesis using c2 p r by (simp add: represents_def h')
qed

lemma unlink_pointers_ok:
  assumes r: "represents t h" and inv: "table_inv hash cmp h" and e: "e \<in> set (iterate_list h)"
    and u: "unlink_entry h e (bucket_of h (entry_key h e)) = Inr h'"
  shows "\<exists>t'. unlink_pointers t e (bucket_of h (entry_key h e)) = Inr t' \<and> represents t' h' \<and> entry_tiles t' = entry_tiles t"
proof -
  define i where "i = bucket_of h (entry_key h e)"
  have f: "family (bnext (cells t)) (bprev (cells t)) (bucket_heads t) (buckets h)"
    and c: "chain (inext (cells t)) (iprev (cells t)) (iterate_head t) (iterate_list h) (iterate_tail t)"
    using r by (auto simp: represents_def)
  have i: "i < n_buckets h" using inv by (simp add: i_def bucket_of_def table_inv_def)
  have eb: "e \<in> set (buckets h ! i)" using inv_chains(1)[OF inv i] e by (simp add: i_def)
  obtain n where n: "cells t e = Some n" using represents_entry[OF r inv e] by blast
  have near: "cells t y \<noteq> None \<and> y \<noteq> e" if "inext (cells t) e = Some y \<or> iprev (cells t) e = Some y" for y
    using that chain_near[OF c e, of y] represents_allocated(1)[OF r inv] by (auto simp: allocated_def)
  obtain c1 where c1: "drop_from_iteration t e = Inr (t\<lparr>cells := c1,
         iterate_head := if iprev (cells t) e = None then inext (cells t) e else iterate_head t,
         iterate_tail := if inext (cells t) e = None then iprev (cells t) e else iterate_tail t\<rparr>)"
     "inext c1 = (case iprev (cells t) e of None \<Rightarrow> inext (cells t) | Some y \<Rightarrow> (inext (cells t))(y := inext (cells t) e))"
     "iprev c1 = (case inext (cells t) e of None \<Rightarrow> iprev (cells t) | Some y \<Rightarrow> (iprev (cells t))(y := iprev (cells t) e))"
     "bnext c1 = bnext (cells t)" "bprev c1 = bprev (cells t)" "contents c1 = contents (cells t)"
    using drop_from_iteration_views[OF n near] by blast
  define t1 where "t1 = t\<lparr>cells := c1,
         iterate_head := if iprev (cells t) e = None then inext (cells t) e else iterate_head t,
         iterate_tail := if inext (cells t) e = None then iprev (cells t) e else iterate_tail t\<rparr>"
  have len: "length (bucket_heads t) = n_buckets h" "length (buckets h) = n_buckets h"
    using f inv_chains(2)[OF inv] by (auto simp: family_def)
  have "allocated c1 (concat (buckets h))"
    using represents_allocated(2)[OF r inv] allocated_contents[OF c1(6)] by simp
  then obtain c2 hs where c2: "drop_from_bucket t1 e i = Inr (t1\<lparr>cells := c2, bucket_heads := hs\<rparr>)"
     "family (bnext c2) (bprev c2) hs ((buckets h)[i := remove1 e (buckets h ! i)])"
     "inext c2 = inext c1" "iprev c2 = iprev c1" "contents c2 = contents c1"
    using drop_from_bucket_ok[of t1 "[]" "buckets h" i e] f i eb len by (auto simp: t1_def c1)
  have pos: "1 \<le> n_entries h" using u by (auto simp: unlink_entry_def res_simps)
  have h': "h' = h\<lparr>iterate_list := remove1 e (iterate_list h),
      buckets := (buckets h)[i := remove1 e (buckets h ! i)], n_entries := n_entries h - 1\<rparr>"
    using u by (auto simp: unlink_entry_def res_simps i_def)
  let ?t2 = "t1\<lparr>cells := c2, bucket_heads := hs, t_entries := t_entries t - 1\<rparr>"
  have "unlink_pointers t e i = Inr ?t2"
    using r pos c1(1) c2(1) by (simp add: unlink_pointers_def represents_def flip: t1_def) (simp add: t1_def)
  moreover have "chain (inext c2) (iprev c2) (iterate_head t1) (remove1 e (iterate_list h)) (iterate_tail t1)"
    using chain_remove1[OF c e] by (simp add: c2 c1 t1_def)
  then have "represents ?t2 h'"
    using r c2 c1 by (simp add: represents_def h' t1_def)
  ultimately show ?thesis by (auto simp: i_def t1_def)
qed


text \<open>The key of an entry by its address, and the bucket it is sent to among \<open>m\<close>.\<close>

definition slot_of :: "('k, 'v) table \<Rightarrow> nat \<Rightarrow> nat \<Rightarrow> nat" where
  "slot_of t m e = unat (t_hash t (fst (the (contents (cells t) e)))) mod m"

lemma rehash_entry_ok:
  assumes f: "family (bnext (cells t)) (bprev (cells t)) (bucket_heads t @ ns) (olds @ news)"
    and a: "allocated (cells t) (concat (olds @ news))" and len: "length (bucket_heads t) = length olds"
    and e: "slot_of t (t_buckets t) e < length olds" "e \<in> set (olds ! slot_of t (t_buckets t) e)"
    and m: "slot_of t m e < length news"
  shows "\<exists>c' hs. rehash_entry m e (ns, t) = Inr (ns[slot_of t m e := Some e], t\<lparr>cells := c', bucket_heads := hs\<rparr>) \<and>
     length hs = length olds \<and>
     family (bnext c') (bprev c') (hs @ ns[slot_of t m e := Some e])
       (olds[slot_of t (t_buckets t) e := remove1 e (olds ! slot_of t (t_buckets t) e)] @
        news[slot_of t m e := e # news ! slot_of t m e]) \<and>
     inext c' = inext (cells t) \<and> iprev c' = iprev (cells t) \<and> contents c' = contents (cells t)"
proof -
  define i where "i = slot_of t (t_buckets t) e"
  define x where "x = slot_of t m e"
  have i: "i < length olds" "e \<in> set (olds ! i)" and x: "x < length news" using e m by (simp_all add: i_def x_def)
  have ns: "length ns = length news" using f len by (simp add: family_def)
  have i': "i < length (olds @ news)" using i by simp
  have lss: "(olds @ news) ! i = olds ! i" "(olds @ news)[i := l] = olds[i := l] @ news" for l
    using i by (simp_all add: nth_append list_update_append1)
  have "e \<in> set (concat (olds @ news))" using concat_same(2)[OF i'] i lss by auto
  then obtain n where n: "cells t e = Some n" using a by (auto simp: allocated_def)
  have key: "e_key n = fst (the (contents (cells t) e))" using n by (simp add: links)
  obtain c1 hs where c1: "drop_from_bucket t e i = Inr (t\<lparr>cells := c1, bucket_heads := hs\<rparr>)"
    "length hs = length olds" "family (bnext c1) (bprev c1) (hs @ ns) (olds[i := remove1 e (olds ! i)] @ news)"
    "inext c1 = inext (cells t)" "iprev c1 = iprev (cells t)" "contents c1 = contents (cells t)"
    using drop_from_bucket_ok[OF f a _ i(2)[folded lss]] i len lss by auto
  let ?olds = "olds[i := remove1 e (olds ! i)]"
  let ?t1 = "t\<lparr>cells := c1, bucket_heads := hs\<rparr>"
  have d: "distinct (concat (olds @ news))" using f by (simp add: family_def)
  have out: "e \<notin> set (concat (?olds @ news))" "set (concat (?olds @ news)) \<subseteq> set (concat (olds @ news))"
    using concat_update(2)[OF i', of "remove1 e (olds ! i)"] concat_same[OF i'] d i lss
    by (auto dest: notin_set_remove1)
  have a1: "allocated (cells ?t1) (concat (?olds @ news))"
    by (rule allocated_mono[OF a _ out(2)]) (simp add: c1(6))
  have f1: "family (bnext (cells ?t1)) (bprev (cells ?t1)) (hs @ ns) (?olds @ news)" using c1(3) by simp
  have x': "length olds + x < length (?olds @ news)" using x by simp
  have new: "(hs @ ns) ! (length olds + x) = ns ! x" "(hs @ ns)[length olds + x := p] = hs @ ns[x := p]"
    "(?olds @ news) ! (length olds + x) = news ! x" "(?olds @ news)[length olds + x := l] = ?olds @ news[x := l]" for p l
    using c1(2) by (simp_all add: nth_append list_update_append)
  have ec: "cells ?t1 e \<noteq> None" using contents_None[OF c1(6), of e] n by simp
  obtain t0 c' where c': "set_entry_at (Some e) (\<lambda>n. n\<lparr>bucket_next := ns ! x, bucket_previous := None\<rparr>) ?t1 = Inr t0"
    "set_if (ns ! x) (\<lambda>n. n\<lparr>bucket_previous := Some e\<rparr>) t0 = Inr (?t1\<lparr>cells := c'\<rparr>)"
    "family (bnext c') (bprev c') (hs @ ns[x := Some e]) (?olds @ news[x := e # news ! x])"
    "inext c' = inext c1" "iprev c' = iprev c1" "contents c' = contents c1"
    using push_ok[OF f1 a1 x' out(1) ec, unfolded new] by auto
  have "rehash_entry m e (ns, t) = Inr (ns[x := Some e], t\<lparr>cells := c', bucket_heads := hs\<rparr>)"
    using n c1(1) c'(1,2) ns x by (simp add: rehash_entry_def Let_def i_def x_def slot_of_def key)
  then show ?thesis using c1 c' by (auto simp: i_def x_def)
qed

lemma rehash_from_ok:
  assumes "family (bnext (cells t)) (bprev (cells t)) (bucket_heads t @ ns) (olds @ news)"
    "allocated (cells t) (concat (olds @ news))" "length (bucket_heads t) = length olds"
    "\<And>e. e \<in> set es \<Longrightarrow> slot_of t (t_buckets t) e < length olds \<and> e \<in> set (olds ! slot_of t (t_buckets t) e)"
    "\<And>e. e \<in> set es \<Longrightarrow> slot_of t m e < length news" "distinct es"
    "dseg (inext (cells t)) (iprev (cells t)) p b es None s"
  shows "\<exists>c' hs' ns' olds'. rehash_from m p (ns, t) = Some (Inr (ns', t\<lparr>cells := c', bucket_heads := hs'\<rparr>)) \<and>
     length hs' = length olds' \<and>
     family (bnext c') (bprev c') (hs' @ ns') (olds' @ fold (\<lambda>e n. n[slot_of t m e := e # n ! slot_of t m e]) es news) \<and>
     inext c' = inext (cells t) \<and> iprev c' = iprev (cells t) \<and> contents c' = contents (cells t)"
  using assms
proof (induction es arbitrary: t ns olds news p b)
  case Nil
  then show ?case
    by (intro exI[of _ "cells t"] exI[of _ "bucket_heads t"] exI[of _ ns] exI[of _ olds]) (simp add: rehash_from.simps)
next
  case (Cons e es)
  let ?i = "slot_of t (t_buckets t) e" and ?x = "slot_of t m e"
  have e: "?i < length olds" "e \<in> set (olds ! ?i)" "?x < length news" using Cons.prems(4,5)[of e] by auto
  obtain c1 hs where c1: "rehash_entry m e (ns, t) = Inr (ns[?x := Some e], t\<lparr>cells := c1, bucket_heads := hs\<rparr>)"
    "length hs = length olds"
    "family (bnext c1) (bprev c1) (hs @ ns[?x := Some e]) (olds[?i := remove1 e (olds ! ?i)] @ news[?x := e # news ! ?x])"
    "inext c1 = inext (cells t)" "iprev c1 = iprev (cells t)" "contents c1 = contents (cells t)"
    using rehash_entry_ok[OF Cons.prems(1-3) e] by blast
  let ?t1 = "t\<lparr>cells := c1, bucket_heads := hs\<rparr>" and ?ns = "ns[?x := Some e]"
    and ?olds = "olds[?i := remove1 e (olds ! ?i)]" and ?news = "news[?x := e # news ! ?x]"
  have slot: "slot_of ?t1 k = slot_of t k" for k by (simp add: slot_of_def c1 fun_eq_iff)
  have sub: "set (concat (?olds @ ?news)) \<subseteq> set (concat (olds @ news))"
  proof -
    have "e \<in> set (concat olds)" using concat_same(2)[OF e(1)] e(2) by blast
    moreover have "set (concat ?olds) \<subseteq> set (concat olds)"
      using concat_update(2)[OF e(1), of "remove1 e (olds ! ?i)"] concat_same(2)[OF e(1)] set_remove1_subset by fastforce
    moreover have "set (concat ?news) \<subseteq> insert e (set (concat news))"
      using concat_update(2)[OF e(3), of "e # news ! ?x"] concat_same(2)[OF e(3)] by auto
    ultimately show ?thesis by auto
  qed
  have "cells t e \<noteq> None" using Cons.prems(2) concat_same(2)[OF e(1)] e(2) by (auto simp: allocated_def)
  then obtain n where n: "c1 e = Some n" using contents_None[OF c1(6), of e] by auto
  have p: "p = Some e" "iterate_next n = inext (cells t) e" using Cons.prems(7) n c1(4) by (auto simp: inext_def fun_eq_iff dest: spec[of _ e])
  have step: "rehash_from m p (ns, t) = rehash_from m (inext (cells t) e) (?ns, ?t1)"
    using p n c1(1) by (subst rehash_from.simps) simp
  have "\<exists>c' hs' ns' olds'. rehash_from m (inext (cells t) e) (?ns, ?t1) = Some (Inr (ns', ?t1\<lparr>cells := c', bucket_heads := hs'\<rparr>)) \<and>
     length hs' = length olds' \<and>
     family (bnext c') (bprev c') (hs' @ ns') (olds' @ fold (\<lambda>e n. n[slot_of ?t1 m e := e # n ! slot_of ?t1 m e]) es ?news) \<and>
     inext c' = inext (cells ?t1) \<and> iprev c' = iprev (cells ?t1) \<and> contents c' = contents (cells ?t1)"
  proof (rule Cons.IH)
    show "family (bnext (cells ?t1)) (bprev (cells ?t1)) (bucket_heads ?t1 @ ?ns) (?olds @ ?news)" using c1(3) by simp
    show "allocated (cells ?t1) (concat (?olds @ ?news))"
      by (rule allocated_mono[OF Cons.prems(2) _ sub]) (simp add: c1(6))
    show "length (bucket_heads ?t1) = length ?olds" using c1(2) by simp
    show "slot_of ?t1 (t_buckets ?t1) x < length ?olds \<and> x \<in> set (?olds ! slot_of ?t1 (t_buckets ?t1) x)" if "x \<in> set es" for x
    proof -
      have "x \<noteq> e" using that Cons.prems(6) by auto
      then show ?thesis using Cons.prems(4)[of x] that unfolding slot
        by (cases "slot_of t (t_buckets t) x = ?i") auto
    qed
    show "slot_of ?t1 m x < length ?news" if "x \<in> set es" for x using Cons.prems(5)[of x] that slot by simp
    show "distinct es" using Cons.prems(6) by simp
    show "dseg (inext (cells ?t1)) (iprev (cells ?t1)) (inext (cells t) e) (Some e) es None s"
      using Cons.prems(7) c1 by simp
  qed
  then show ?case unfolding step using slot by (simp add: c1)
qed

lemma resize_pointers_ok:
  assumes r: "represents t h" and inv: "table_inv hash cmp h"
  shows "\<exists>t'. resize_pointers t = Inr (fst (resize_buckets h), t') \<and> represents t' (snd (resize_buckets h)) \<and>
     entry_tiles t' = entry_tiles t"
proof (cases "u32 (n_entries h * 4) < u32 (n_buckets h * 3)")
  case True
  then show ?thesis using r by (auto simp: resize_pointers_def resize_buckets_def represents_def)
next
  case False
  define m where "m = u32 ((n_entries h + 1) * 4 - 1)"
  have m: "0 < m" unfolding m_def by (rule u32_odd)
  have f: "family (bnext (cells t)) (bprev (cells t)) (bucket_heads t) (buckets h)"
    and c: "chain (inext (cells t)) (iprev (cells t)) (iterate_head t) (iterate_list h) (iterate_tail t)"
    and tb: "t_buckets t = n_buckets h" and kv: "contents (cells t) = entries h" and hf: "t_hash t = hash_func h"
    using r by (auto simp: represents_def)
  have nb: "0 < n_buckets h" using inv by (simp add: table_inv_def)
  have slot: "slot_of t k e = unat (hash_func h (entry_key h e)) mod k" for k e
    by (simp add: slot_of_def hf kv entry_key_def)
  have len: "length (bucket_heads t) = length (buckets h)" "length (buckets h) = n_buckets h"
    using f inv_chains(2)[OF inv] by (auto simp: family_def)
  have "\<exists>c' hs' ns' olds'. rehash_from m (iterate_head t) (replicate m None, t) =
        Some (Inr (ns', t\<lparr>cells := c', bucket_heads := hs'\<rparr>)) \<and>
     length hs' = length olds' \<and>
     family (bnext c') (bprev c') (hs' @ ns') (olds' @ fold (\<lambda>e n. n[slot_of t m e := e # n ! slot_of t m e])
        (iterate_list h) (replicate m [])) \<and>
     inext c' = inext (cells t) \<and> iprev c' = iprev (cells t) \<and> contents c' = contents (cells t)"
  proof (rule rehash_from_ok)
    show "family (bnext (cells t)) (bprev (cells t)) (bucket_heads t @ replicate m None) (buckets h @ replicate m [])"
      by (rule family_empty[OF f])
    show "allocated (cells t) (concat (buckets h @ replicate m []))"
      using represents_allocated(2)[OF r inv] by (simp add: allocated_def)
    show "slot_of t (t_buckets t) e < length (buckets h) \<and> e \<in> set (buckets h ! slot_of t (t_buckets t) e)"
      if "e \<in> set (iterate_list h)" for e
      using that inv_chains(1)[OF inv, of "slot_of t (n_buckets h) e"] nb len
      by (auto simp: tb slot bucket_of_def)
    show "dseg (inext (cells t)) (iprev (cells t)) (iterate_head t) None (iterate_list h) None (iterate_tail t)"
      "distinct (iterate_list h)" using c by (simp_all add: chain_def)
  qed (use len m in \<open>simp_all add: slot\<close>)
  then obtain c' hs' ns' olds' where l: "rehash_from m (iterate_head t) (replicate m None, t) =
        Some (Inr (ns', t\<lparr>cells := c', bucket_heads := hs'\<rparr>))" "length hs' = length olds'"
     "family (bnext c') (bprev c') (hs' @ ns') (olds' @ fold (\<lambda>e n. n[slot_of t m e := e # n ! slot_of t m e])
        (iterate_list h) (replicate m []))"
     "inext c' = inext (cells t)" "iprev c' = iprev (cells t)" "contents c' = contents (cells t)" by blast
  let ?t = "t\<lparr>cells := c', bucket_heads := ns', t_buckets := m\<rparr>"
  have "resize_pointers t = Inr (True, ?t)"
    using False r l(1) by (simp add: resize_pointers_def represents_def m_def Let_def)
  moreover have "resize_buckets h = (True, h\<lparr>buckets := fold (\<lambda>e n. n[slot_of t m e := e # n ! slot_of t m e])
        (iterate_list h) (replicate m []), n_buckets := m\<rparr>)"
    using False by (simp add: resize_buckets_def Let_def slot m_def)
  moreover have "family (bnext c') (bprev c') ns' (fold (\<lambda>e n. n[slot_of t m e := e # n ! slot_of t m e])
        (iterate_list h) (replicate m []))"
    using family_append[OF l(3) l(2)] by blast
  ultimately show ?thesis using r l(4-6) by (simp add: represents_def)
qed

lemma remove_linked_ok:
  assumes r: "represents t h" and inv: "table_inv hash cmp h" and e: "e \<in> set (iterate_list h)"
    and u: "remove_entry h e = Inr h'"
  shows "\<exists>t'. remove_linked t e = Inr t' \<and> represents t' h' \<and> entry_tiles t' = deallocate_tile e (entry_tiles t)"
proof -
  obtain h1 where h1: "unlink_entry h e (bucket_of h (entry_key h e)) = Inr h1" "h' = h1\<lparr>entries := (entries h1)(e := None)\<rparr>"
    using u by (auto simp: remove_entry_def res_simps)
  obtain t1 where t1: "unlink_pointers t e (bucket_of h (entry_key h e)) = Inr t1" "represents t1 h1" "entry_tiles t1 = entry_tiles t"
    using unlink_pointers_ok[OF r inv e h1(1)] by blast
  obtain n where n: "cells t e = Some n" "e_key n = entry_key h e" using represents_entry[OF r inv e] by blast
  have it: "iterate_list h1 = remove1 e (iterate_list h)"
    "buckets h1 = (buckets h)[bucket_of h (entry_key h e) := remove1 e (buckets h ! bucket_of h (entry_key h e))]"
    using h1(1) by (auto simp: unlink_entry_def res_simps)
  have "distinct (iterate_list h)" using inv by (simp add: table_inv_def)
  then have out: "e \<notin> set (iterate_list h1)" by (simp add: it)
  have "e \<notin> set (concat (buckets h1))"
  proof -
    have b: "bucket_of h (entry_key h e) < length (buckets h)"
      using inv by (simp add: table_inv_def bucket_of_def)
    have d: "distinct (concat (buckets h))" using r by (simp add: represents_def family_def)
    have "e \<in> set (buckets h ! bucket_of h (entry_key h e))"
      using inv_chains(1,2)[OF inv] b e by auto
    then have "e \<notin> set (remove1 e (buckets h ! bucket_of h (entry_key h e)))"
      "e \<notin> set (concat ((buckets h)[bucket_of h (entry_key h e) := []]))"
      using concat_same(1)[OF b] d by (simp, blast)
    then show ?thesis
      by (simp only: it concat_update(2)[OF b, of "remove1 e (buckets h ! bucket_of h (entry_key h e))"] Un_iff) blast
  qed
  then have "family (bnext ((cells t1)(e := None))) (bprev ((cells t1)(e := None))) (bucket_heads t1) (buckets h1) =
      family (bnext (cells t1)) (bprev (cells t1)) (bucket_heads t1) (buckets h1)"
    by (intro family_cong) (auto simp: view_defs)
  moreover have "chain (inext ((cells t1)(e := None))) (iprev ((cells t1)(e := None))) (iterate_head t1) (iterate_list h1) (iterate_tail t1) =
      chain (inext (cells t1)) (iprev (cells t1)) (iterate_head t1) (iterate_list h1) (iterate_tail t1)"
    using out by (intro chain_cong) (auto simp: view_defs)
  ultimately have fam: "family (bnext ((cells t1)(e := None))) (bprev ((cells t1)(e := None))) (bucket_heads t1) (buckets h1)"
    and ch: "chain (inext ((cells t1)(e := None))) (iprev ((cells t1)(e := None))) (iterate_head t1) (iterate_list h1) (iterate_tail t1)"
    using t1(2) by (simp_all add: represents_def)
  have kv: "contents ((cells t1)(e := None)) = (entries h1)(e := None)"
  proof -
    have "contents (cells t1) = entries h1" using t1(2) by (simp add: represents_def)
    then show ?thesis by (auto simp: contents_def fun_eq_iff)
  qed
  show ?thesis using n t1 fam ch kv represents_bucket[OF r]
    by (simp add: remove_linked_def represents_def h1(2))
qed


text \<open>The iterator walks the list of \<open>Hashmap\<close>.\<close>

lemma iterate_pointers_ok:
  assumes r: "represents t h" and inv: "table_inv hash cmp h"
    and i: "\<And>e. i = Some (Some e) \<Longrightarrow> e \<in> set (iterate_list h)"
  shows "table_iterate t i = Inr (hashmap_iterate h i)"
proof -
  have c: "chain (inext (cells t)) (iprev (cells t)) (iterate_head t) (iterate_list h) (iterate_tail t)"
    using r by (simp add: represents_def)
  have step: "\<exists>n. cells t e = Some n \<and> e_key n = entry_key h e \<and> e_value n = entry_value h e \<and>
      iterate_next n = next_after (iterate_list h) e" if e: "e \<in> set (iterate_list h)" for e
  proof -
    obtain n where n: "cells t e = Some n" "e_key n = entry_key h e" "e_value n = entry_value h e"
      using represents_entry[OF r inv e] by blast
    obtain as cs where s: "iterate_list h = as @ e # cs" "e \<notin> set as" using split_list_first[OF e] by blast
    have "iterate_next n = next_after (iterate_list h) e"
      using chain_next[OF c[unfolded s(1)]] n next_after_append[OF s(2), of cs] by (simp add: links s(1))
    then show ?thesis using n by blast
  qed
  show ?thesis
  proof (cases i)
    case None
    show ?thesis
    proof (cases "iterate_list h")
      case Nil
      then show ?thesis using None chain_head[OF c] by (simp add: table_iterate_def hashmap_iterate_def)
    next
      case (Cons e es)
      then obtain n where "cells t e = Some n" "e_key n = entry_key h e" "e_value n = entry_value h e"
        "iterate_next n = next_after (iterate_list h) e" using step[of e] by auto
      then show ?thesis using None chain_head[OF c] Cons by (simp add: table_iterate_def hashmap_iterate_def)
    qed
  next
    case (Some j)
    then show ?thesis using step i
      by (cases j) (force simp: table_iterate_def hashmap_iterate_def)+
  qed
qed

section \<open>Tables with their allocator\<close>

text \<open>The entries of the table are exactly the tiles in use; \<open>k\<close> is the logarithm of the page size.\<close>

definition pool_use :: "tiles \<Rightarrow> nat" where
  "pool_use ts = (case first_pool ts of [] \<Rightarrow> 0 | p # _ \<Rightarrow> unat (n_used p))"

definition linked :: "('k \<Rightarrow> 32 word) \<Rightarrow> ('k \<Rightarrow> 'k \<Rightarrow> int) \<Rightarrow> nat \<Rightarrow> nat \<Rightarrow> ('k, 'v) table \<Rightarrow> ('k, 'v) Hashmap \<Rightarrow> bool" where
  "linked hash cmp k start t h \<longleftrightarrow> table_inv hash cmp h \<and> represents t h \<and>
     (\<exists>live. set live = set (iterate_list h) \<and> tiles_inv k 48 start (pool_use (entry_tiles t)) live (entry_tiles t))"

lemma tiles_inv_use: "tiles_inv k b start m live ts \<Longrightarrow> tiles_inv k b start (pool_use ts) live ts \<and> pool_use ts \<le> m"
  by (auto simp: tiles_inv_def pool_use_def split: list.splits)

lemma linked_new: "hash_key cmp \<Longrightarrow> linked hash cmp k start (table_new hash cmp start) (hashmap_new hash cmp)"
  using hash_key.inv_new[of cmp hash] tiles_inv_new[of k 48 start]
  by (auto simp: linked_def represents_def table_new_def hashmap_new_def contents_def family_def pool_use_def no_tiles_def)

context hash_key begin

lemma table_scan:
  assumes "linked hash cmp k start t h"
  shows "scan_pointers t (t_bucket_of t key) key = Inr (find (\<lambda>e. entry_key h e = key) (iterate_list h))"
proof -
  have inv: "table_inv hash cmp h" and r: "represents t h" using assms by (auto simp: linked_def)
  show ?thesis
    using scan_pointers_ok[OF r inv bucket_of_less[OF inv]] scan[OF inv] by (simp add: represents_bucket[OF r])
qed

lemma table_get_ok: "linked hash cmp k start t h \<Longrightarrow> table_get t key = Inr (hm_get (table_alist h) key)"
proof (cases "find (\<lambda>e. entry_key h e = key) (iterate_list h)")
  case (Some e)
  assume l: "linked hash cmp k start t h"
  then obtain n where "cells t e = Some n" "e_value n = entry_value h e"
    using represents_entry[of t h hash cmp e] find_in_set[OF Some] by (auto simp: linked_def)
  then show ?thesis using Some l by (simp add: table_get_def table_scan hm_get_table)
qed (simp add: table_get_def table_scan hm_get_table)

lemma table_put_ok:
  assumes l: "linked hash cmp k start t h" and fit: "tiles_fit k 48 (pool_use (entry_tiles t))" and room: "table_room h"
  shows "\<exists>t' h'. table_put (2 ^ k) t key v = Inr (fst (hm_put (table_alist h) key v), t') \<and> linked hash cmp k start t' h' \<and>
     table_alist h' = snd (hm_put (table_alist h) key v) \<and> pool_use (entry_tiles t') \<le> Suc (pool_use (entry_tiles t))"
proof -
  have inv: "table_inv hash cmp h" and r: "represents t h" using l by (auto simp: linked_def)
  show ?thesis
  proof (cases "find (\<lambda>e. entry_key h e = key) (iterate_list h)")
    case (Some e)
    then obtain n where "cells t e = Some n" "e_value n = entry_value h e"
      using represents_entry[OF r inv, of e] find_in_set[OF Some] by auto
    then show ?thesis using Some l
      by (auto simp: table_put_def table_scan[OF l] hm_put_def hm_get_table)
  next
    case None
    define h1 where "h1 = snd (resize_buckets h)"
    have h1: "table_inv hash cmp h1" "iterate_list h1 = iterate_list h"
      using inv_resize[OF inv] by (simp_all add: h1_def)
    obtain b t1 where t1: "resize_pointers t = Inr (b, t1)" "represents t1 h1" "entry_tiles t1 = entry_tiles t"
      using resize_pointers_ok[OF r inv] by (auto simp: h1_def)
    obtain live where live: "set live = set (iterate_list h)" "tiles_inv k 48 start (pool_use (entry_tiles t)) live (entry_tiles t)"
      using l by (auto simp: linked_def)
    have u: "unat (48 :: 64 word) = 48" by simp
    obtain e ts where e: "allocate_tile (2 ^ k) 48 (entry_tiles t) = Inr (e, ts)"
      "tiles_inv k 48 start (Suc (pool_use (entry_tiles t))) (e # live) ts"
      using allocate_tile_ok[of k 48, unfolded u, OF live(2) fit] by blast
    have "distinct (e # live)" using e(2) unfolding tiles_inv_def by auto
    then have new: "e \<notin> set (iterate_list h)" using live(1) by simp
    obtain h' where h': "link_entry (h1\<lparr>entries := (entries h1)(e := Some (key, v))\<rparr>) e (bucket_of h1 key) = Inr h'"
      "table_inv hash cmp h'" "table_alist h' = table_alist h @ [(key, v)]"
      using put_fresh[OF inv room None h1_def new] by blast
    let ?n = "\<lparr>e_key = key, e_value = v, bucket_next = None, bucket_previous = None, iterate_next = None, iterate_previous = None\<rparr>"
    let ?t2 = "t1\<lparr>entry_tiles := ts, cells := (cells t1)(e := Some ?n)\<rparr>"
    let ?h2 = "h1\<lparr>entries := (entries h1)(e := Some (key, v))\<rparr>"
    have ib: "set (concat (buckets h1)) = set (iterate_list h)" using inv_chains(3)[OF h1(1)] h1(2) by simp
    have "family (bnext (cells ?t2)) (bprev (cells ?t2)) (bucket_heads t1) (buckets h1) =
        family (bnext (cells t1)) (bprev (cells t1)) (bucket_heads t1) (buckets h1)"
      using ib new by (intro family_cong) (auto simp: view_defs)
    moreover have "chain (inext (cells ?t2)) (iprev (cells ?t2)) (iterate_head t1) (iterate_list h1) (iterate_tail t1) =
        chain (inext (cells t1)) (iprev (cells t1)) (iterate_head t1) (iterate_list h1) (iterate_tail t1)"
      using h1 new by (intro chain_cong) (auto simp: view_defs)
    ultimately have r2: "represents ?t2 ?h2" using t1(2) by (simp add: represents_def entry_views_upd)
    have al: "allocated (cells ?t2) (iterate_list ?h2)"
      using represents_allocated(1)[OF t1(2) h1(1)] by (auto simp: allocated_def)
    have bo: "t_bucket_of ?t2 key = bucket_of h1 key" "bucket_of h1 key < length (buckets h1)"
      using represents_bucket[OF t1(2)] bucket_of_less[OF h1(1)] inv_chains(2)[OF h1(1)] by (simp_all add: t_bucket_of_def)
    obtain t3 where t3: "link_pointers ?t2 e (bucket_of h1 key) = Inr t3" "represents t3 h'" "entry_tiles t3 = ts"
      using link_pointers_ok[OF r2 al _ _ _ _ h'(1)] ib new h1(2) bo(2) by auto
    have "iterate_list h' = iterate_list h @ [e]" using h'(1) h1(2) by (auto simp: link_entry_def Let_def res_simps)
    then have "linked hash cmp k start t3 h'"
      using h'(2) t3 e(2) live(1) tiles_inv_use[OF e(2)] by (auto simp: linked_def intro!: exI[of _ "e # live"])
    moreover have "table_put (2 ^ k) t key v = Inr (1, t3)"
      by (simp add: table_put_def table_scan[OF l] None t1 e(1) t3(1) bo(1)[simplified] Let_def)
    moreover have "hm_put (table_alist h) key v = (1, table_alist h @ [(key, v)])"
      by (simp add: hm_put_def hm_get_table None)
    ultimately show ?thesis using h'(3) t3(3) tiles_inv_use[OF e(2)] by auto
  qed
qed

lemma table_update_ok:
  assumes l: "linked hash cmp k start t h"
  shows "\<exists>t' h'. table_update t key v = Inr (fst (hm_update (table_alist h) key v), t') \<and> linked hash cmp k start t' h' \<and>
     table_alist h' = snd (hm_update (table_alist h) key v) \<and> pool_use (entry_tiles t') = pool_use (entry_tiles t)"
proof -
  have inv: "table_inv hash cmp h" and r: "represents t h" using l by (auto simp: linked_def)
  show ?thesis
  proof (cases "find (\<lambda>e. entry_key h e = key) (iterate_list h)")
    case None
    then show ?thesis using l by (auto simp: table_update_def table_scan[OF l] hm_update_def hm_get_table)
  next
    case (Some e)
    have e: "e \<in> set (iterate_list h)" "entry_key h e = key" using find_in_set[OF Some] by auto
    obtain n where n: "cells t e = Some n" "e_key n = key" using represents_entry[OF r inv e(1)] e(2) by auto
    let ?t = "t\<lparr>cells := (cells t)(e := Some (n\<lparr>e_value := v\<rparr>))\<rparr>"
    let ?h = "h\<lparr>entries := (entries h)(e := Some (key, v))\<rparr>"
    have views: "bnext (cells ?t) = bnext (cells t)" "bprev (cells ?t) = bprev (cells t)"
      "inext (cells ?t) = inext (cells t)" "iprev (cells ?t) = iprev (cells t)"
      using n by (simp_all add: links fun_upd_idem)
    have "contents (cells ?t) = (contents (cells t))(e := Some (key, v))" using n by (simp add: links)
    then have "represents ?t ?h" using r unfolding represents_def views by simp
    moreover have "table_update t key v = Inr (0, ?t)"
      using n Some by (simp add: table_update_def table_scan[OF l])
    moreover have "hm_update (table_alist h) key v = (0, hm_set (table_alist h) key v)"
      using Some by (simp add: hm_update_def hm_get_table)
    moreover have "entry_tiles ?t = entry_tiles t" "iterate_list ?h = iterate_list h" by simp_all
    ultimately show ?thesis
      using set_entry[OF inv Some, of v] l unfolding linked_def by (metis fst_conv snd_conv)
  qed
qed

lemma table_remove_ok:
  assumes l: "linked hash cmp k start t h"
  shows "\<exists>t' h'. table_remove t key = Inr (hm_get (table_alist h) key, t') \<and> linked hash cmp k start t' h' \<and>
     table_alist h' = snd (hm_remove (table_alist h) key) \<and> pool_use (entry_tiles t') = pool_use (entry_tiles t)"
proof -
  have inv: "table_inv hash cmp h" and r: "represents t h" using l by (auto simp: linked_def)
  show ?thesis
  proof (cases "find (\<lambda>e. entry_key h e = key) (iterate_list h)")
    case None
    then have n: "hm_get (table_alist h) key = None" by (simp add: hm_get_table)
    then have "filter (\<lambda>e. fst e \<noteq> key) (table_alist h) = table_alist h"
      by (auto simp: hm_get_None filter_id_conv)
    then show ?thesis using None n l by (auto simp: table_remove_def table_scan[OF l] hm_remove_def)
  next
    case (Some e)
    have e: "e \<in> set (iterate_list h)" "entry_key h e = key" using find_in_set[OF Some] by auto
    obtain n where n: "cells t e = Some n" "e_value n = entry_value h e" using represents_entry[OF r inv e(1)] by auto
    obtain h' where h': "remove_entry h e = Inr h'" "table_inv hash cmp h'"
      "table_alist h' = filter (\<lambda>p. fst p \<noteq> key) (table_alist h)" "iterate_list h' = filter (\<lambda>x. x \<noteq> e) (iterate_list h)"
      using inv_remove_entry[OF inv e(1)] e(2) by blast
    obtain t' where t': "remove_linked t e = Inr t'" "represents t' h'" "entry_tiles t' = deallocate_tile e (entry_tiles t)"
      using remove_linked_ok[OF r inv e(1) h'(1)] by blast
    obtain live where live: "set live = set (iterate_list h)" "tiles_inv k 48 start (pool_use (entry_tiles t)) live (entry_tiles t)"
      using l by (auto simp: linked_def)
    have d: "distinct live" using live(2) by (auto simp: tiles_inv_def)
    have "tiles_inv k 48 start (pool_use (entry_tiles t)) (remove1 e live) (entry_tiles t')"
      using deallocate_tile_ok[OF live(2)] live(1) e(1) t'(3) by simp
    moreover have "pool_use (entry_tiles t') = pool_use (entry_tiles t)" by (simp add: t'(3) deallocate_tile_def pool_use_def)
    moreover have "set (remove1 e live) = set (iterate_list h')" using d live(1) h'(4) by auto
    ultimately have "linked hash cmp k start t' h'" "pool_use (entry_tiles t') = pool_use (entry_tiles t)"
      using h'(2) t'(2) by (auto simp: linked_def intro!: exI[of _ "remove1 e live"])
    moreover have "table_remove t key = Inr (Some (entry_value h e), t')"
      using Some n t'(1) by (simp add: table_remove_def table_scan[OF l])
    ultimately show ?thesis using h'(3) Some by (auto simp: hm_remove_def hm_get_table)
  qed
qed

end


section \<open>The contract of the table, for the pointers\<close>

text \<open>The entries in the order of the iteration list.\<close>

partial_function (option) walk_entries :: "('k, 'v) table \<Rightarrow> ptr \<Rightarrow> ('k \<times> 'v) list option" where
  [code]: "walk_entries t p = (case p of
       None \<Rightarrow> Some []
     | Some e \<Rightarrow> (case cells t e of
           None \<Rightarrow> None
         | Some n \<Rightarrow> Option.bind (walk_entries t (iterate_next n)) (\<lambda>es. Some ((e_key n, e_value n) # es))))"

definition table_list :: "('k, 'v) table \<Rightarrow> ('k \<times> 'v) list" where
  "table_list t = (case walk_entries t (iterate_head t) of None \<Rightarrow> [] | Some es \<Rightarrow> es)"

lemma walk_entries_ok:
  assumes "dseg (inext (cells t)) pv p b as None s" "allocated (cells t) as"
  shows "walk_entries t p = Some (map (\<lambda>e. the (contents (cells t) e)) as)"
  using assms
proof (induction as arbitrary: p b)
  case Nil
  then show ?case by (simp add: walk_entries.simps)
next
  case (Cons a as)
  then obtain n where "cells t a = Some n" by (auto simp: allocated_def)
  then show ?case using Cons by (subst walk_entries.simps) (auto simp: links allocated_def)
qed

lemma linked_list:
  assumes "linked hash cmp k start t h"
  shows "table_list t = table_alist h"
proof -
  have r: "represents t h" and inv: "table_inv hash cmp h" using assms by (auto simp: linked_def)
  have "dseg (inext (cells t)) (iprev (cells t)) (iterate_head t) None (iterate_list h) None (iterate_tail t)"
    "contents (cells t) = entries h"
    using r by (auto simp: represents_def chain_def)
  then show ?thesis
    using walk_entries_ok[OF _ represents_allocated(1)[OF r inv]]
    by (simp add: table_list_def table_alist_def entry_key_def entry_value_def)
qed

definition linked_inv :: "('k \<Rightarrow> 32 word) \<Rightarrow> ('k \<Rightarrow> 'k \<Rightarrow> int) \<Rightarrow> ('k, 'v) table \<Rightarrow> bool" where
  "linked_inv hash cmp t \<longleftrightarrow> (\<exists>start h. linked hash cmp 12 start t h)"

text \<open>Room for one more entry: in the counter, and in the memory that tiles may take.\<close>

definition linked_room :: "('k, 'v) table \<Rightarrow> bool" where
  "linked_room t \<longleftrightarrow> tiles_fit 12 48 (pool_use (entry_tiles t)) \<and> t_entries t + 1 < 2 ^ 32"

lemma linked_entries: "linked hash cmp k start t h \<Longrightarrow> t_entries t = n_entries h"
  by (simp add: linked_def represents_def)

context hash_key begin

lemma linked_inv_ok: "linked_inv hash cmp t \<Longrightarrow> hm_ok (table_list t)"
  unfolding linked_inv_def by (metis linked_list inv_alist linked_def)

lemma linked_get: "linked_inv hash cmp t \<Longrightarrow> table_get t key = Inr (hm_get (table_list t) key)"
  unfolding linked_inv_def by (metis linked_list table_get_ok)

lemma linked_put:
  assumes "linked_inv hash cmp t" "linked_room t"
  shows "\<exists>t'. table_put 4096 t key v = Inr (fst (hm_put (table_list t) key v), t') \<and> linked_inv hash cmp t' \<and>
     table_list t' = snd (hm_put (table_list t) key v)"
proof -
  obtain start h where l: "linked hash cmp 12 start t h" using assms by (auto simp: linked_inv_def)
  have "table_room h" "tiles_fit 12 48 (pool_use (entry_tiles t))"
    using assms(2) linked_entries[OF l] by (simp_all add: linked_room_def table_room_def)
  then obtain t' h' where "table_put 4096 t key v = Inr (fst (hm_put (table_alist h) key v), t')"
    "linked hash cmp 12 start t' h'" "table_alist h' = snd (hm_put (table_alist h) key v)"
    using table_put_ok[OF l, of key v] by auto
  then show ?thesis using linked_list l unfolding linked_inv_def by metis
qed

lemma linked_update:
  assumes "linked_inv hash cmp t"
  shows "\<exists>t'. table_update t key v = Inr (fst (hm_update (table_list t) key v), t') \<and> linked_inv hash cmp t' \<and>
     table_list t' = snd (hm_update (table_list t) key v)"
  using assms table_update_ok linked_list unfolding linked_inv_def by metis

lemma linked_remove:
  assumes "linked_inv hash cmp t"
  shows "\<exists>t'. table_remove t key = Inr (hm_get (table_list t) key, t') \<and> linked_inv hash cmp t' \<and>
     table_list t' = snd (hm_remove (table_list t) key)"
  using assms table_remove_ok linked_list unfolding linked_inv_def by metis

end

sublocale hash_key \<subseteq> lnk: ordered_map "linked_inv hash cmp" linked_room table_list
  table_get "table_put 4096" table_update table_remove
  by unfold_locales (simp_all only: linked_inv_ok linked_get linked_put linked_update linked_remove)

section \<open>Scripts\<close>

fun run_linked :: "int \<Rightarrow> ('k, 'v) hm_op list \<Rightarrow> ('k, 'v) table \<Rightarrow> ('v hm_ret list \<times> ('k, 'v) table) res" where
  "run_linked sysconf [] t = Inr ([], t)"
| "run_linked sysconf (OpPut k v # ops) t = bindE (table_put sysconf t k v) (\<lambda>(r, t).
     bindE (run_linked sysconf ops t) (\<lambda>(rs, t). Inr (RetInt r # rs, t)))"
| "run_linked sysconf (OpUpdate k v # ops) t = bindE (table_update t k v) (\<lambda>(r, t).
     bindE (run_linked sysconf ops t) (\<lambda>(rs, t). Inr (RetInt r # rs, t)))"
| "run_linked sysconf (OpRemove k # ops) t = bindE (table_remove t k) (\<lambda>(r, t).
     bindE (run_linked sysconf ops t) (\<lambda>(rs, t). Inr (RetValue r # rs, t)))"
| "run_linked sysconf (OpGet k # ops) t = bindE (table_get t k) (\<lambda>r.
     bindE (run_linked sysconf ops t) (\<lambda>(rs, t). Inr (RetValue r # rs, t)))"

text \<open>The list that a script leaves.\<close>

fun list_after :: "('k, 'v) hm_op list \<Rightarrow> ('k \<times> 'v) list \<Rightarrow> ('k \<times> 'v) list" where
  "list_after [] m = m"
| "list_after (OpPut k v # ops) m = list_after ops (snd (hm_put m k v))"
| "list_after (OpUpdate k v # ops) m = list_after ops (snd (hm_update m k v))"
| "list_after (OpRemove k # ops) m = list_after ops (snd (hm_remove m k))"
| "list_after (OpGet k # ops) m = list_after ops m"

lemma tiles_fit_count: "tiles_fit k bytes m \<Longrightarrow> m < 2 ^ 28"
proof -
  assume f: "tiles_fit k bytes m"
  have "2 * m * 8 \<le> max 512 (2 * m) * bytes" using f by (intro mult_mono) (auto simp: tiles_fit_def)
  then have "2 * m * 8 + 16 \<le> 2 ^ 32" using f unfolding tiles_fit_def by linarith
  then show ?thesis by simp
qed

context hash_key begin

lemma run_linked_ok:
  assumes "linked hash cmp k start t h" "tiles_fit k 48 (pool_use (entry_tiles t) + length ops)"
    "length (table_alist h) + length ops < 2 ^ 32"
  shows "\<exists>t' h'. run_linked (2 ^ k) ops t = Inr (run_alist ops (table_alist h), t') \<and>
     linked hash cmp k start t' h' \<and> table_alist h' = list_after ops (table_alist h)"
  using assms
proof (induction ops arbitrary: t h)
  case (Cons op ops)
  have fit: "tiles_fit k 48 (pool_use (entry_tiles t))" by (rule tiles_fit_mono[OF Cons.prems(2)]) simp
  have room: "table_room h"
    using Cons.prems by (simp add: table_room_def table_inv_def table_alist_def linked_def)
  have less: "tiles_fit k 48 (p + length ops)" if "p \<le> Suc (pool_use (entry_tiles t))" for p
    by (rule tiles_fit_mono[OF Cons.prems(2)]) (use that in simp)
  show ?case
  proof (cases op)
    case (OpPut key v)
    obtain t1 h1 where s: "table_put (2 ^ k) t key v = Inr (fst (hm_put (table_alist h) key v), t1)"
      "linked hash cmp k start t1 h1" "table_alist h1 = snd (hm_put (table_alist h) key v)"
      "pool_use (entry_tiles t1) \<le> Suc (pool_use (entry_tiles t))"
      using table_put_ok[OF Cons.prems(1) fit room] by blast
    have "length (table_alist h1) + length ops < 2 ^ 32"
      using Cons.prems(3) length_hm_ops(1)[of "table_alist h" key v] s(3) by simp
    from Cons.IH[OF s(2) less[OF s(4)] this] show ?thesis using OpPut s by auto
  next
    case (OpUpdate key v)
    obtain t1 h1 where s: "table_update t key v = Inr (fst (hm_update (table_alist h) key v), t1)"
      "linked hash cmp k start t1 h1" "table_alist h1 = snd (hm_update (table_alist h) key v)"
      "pool_use (entry_tiles t1) \<le> Suc (pool_use (entry_tiles t))"
      using table_update_ok[OF Cons.prems(1), of key v] by auto
    have "length (table_alist h1) + length ops < 2 ^ 32"
      using Cons.prems(3) length_hm_ops(2)[of "table_alist h" key v] s(3) by simp
    from Cons.IH[OF s(2) less[OF s(4)] this] show ?thesis using OpUpdate s by auto
  next
    case (OpRemove key)
    obtain t1 h1 where s: "table_remove t key = Inr (hm_get (table_alist h) key, t1)"
      "linked hash cmp k start t1 h1" "table_alist h1 = snd (hm_remove (table_alist h) key)"
      "pool_use (entry_tiles t1) \<le> Suc (pool_use (entry_tiles t))"
      using table_remove_ok[OF Cons.prems(1), of key] by auto
    have "length (table_alist h1) + length ops < 2 ^ 32"
      using Cons.prems(3) length_hm_ops(3)[of "table_alist h" key] s(3) by simp
    from Cons.IH[OF s(2) less[OF s(4)] this] show ?thesis using OpRemove s by (auto simp: fst_hm_remove)
  next
    case (OpGet key)
    have "length (table_alist h) + length ops < 2 ^ 32" using Cons.prems(3) by simp
    from Cons.IH[OF Cons.prems(1) less this] show ?thesis
      using OpGet table_get_ok[OF Cons.prems(1)] by auto
  qed
qed auto

end

text \<open>C12. Any script of puts, updates, removals and lookups on a new string keyed table, with every
  pointer of its entries written out and the entries taken from the tile allocator, runs without a
  fault: no NULL and no released entry is followed, no assertion fails, no loop runs forever. Every
  call returns what it returns on an association list, and the iteration list then runs through
  exactly the entries of that list, in the order of their insertion. The pages are those of
  \<open>sysconf\<close>, and the pools stay below 4 GiB.\<close>

theorem pointer_table_scripts:
  assumes "tiles_fit k 48 (length ops)"
  shows "\<exists>t. run_linked (2 ^ k) ops (table_new string_hash_func string_compare_func start) = Inr (run_alist ops [], t) \<and>
     table_list t = list_after ops [] \<and> t_entries t = length (list_after ops [])"
proof -
  have l: "linked string_hash_func string_compare_func k start (table_new string_hash_func string_compare_func start)
      (hashmap_new string_hash_func string_compare_func)"
    by (rule linked_new) (rule str.hash_key_axioms)
  have u: "pool_use (entry_tiles (table_new string_hash_func string_compare_func start)) = 0"
    by (simp add: table_new_def pool_use_def no_tiles_def)
  have a: "table_alist (hashmap_new string_hash_func string_compare_func) = []" using str.inv_new by blast
  obtain t h where t: "run_linked (2 ^ k) ops (table_new string_hash_func string_compare_func start) = Inr (run_alist ops [], t)"
    "linked string_hash_func string_compare_func k start t h" "table_alist h = list_after ops []"
    using str.run_linked_ok[OF l, of ops] assms tiles_fit_count[OF assms] by (auto simp: u a)
  have "t_entries t = length (table_alist h)"
    using t(2) by (simp add: linked_def represents_def table_inv_def table_alist_def)
  then show ?thesis using t linked_list[OF t(2)] by auto
qed

theorem pointer_table_scripts_witness:
  "\<exists>t. run_linked 4096 [OpPut ''daemon'' ''a'', OpPut ''core'' ''b'', OpPut ''daemon'' ''c'', OpRemove ''daemon'', OpPut ''gdbm'' ''d'', OpGet ''core'']
     (table_new string_hash_func string_compare_func 65536) =
   Inr ([RetInt 1, RetInt 1, RetInt (- EEXIST), RetValue (Some ''a''), RetInt 1, RetValue (Some ''b'')], t) \<and>
   table_list t = [(''core'', ''b''), (''gdbm'', ''d'')]"
  using pointer_table_scripts[of 12 "[OpPut ''daemon'' ''a'', OpPut ''core'' ''b'', OpPut ''daemon'' ''c'', OpRemove ''daemon'', OpPut ''gdbm'' ''d'', OpGet ''core'']" 65536]
  by (auto simp: tiles_fit_def hm_put_def hm_get_def hm_remove_def simp del: run_linked.simps)

end
