(* ===== verification/Hashmap_More.thy ===== *)
theory Hashmap_More
  imports Hashmap
begin

text \<open>
  The operations of \<open>src/shared/hashmap.c\<close> that the program has and does not call on its way:
  replacing and moving entries, the iterators that run backwards and that start at a key, stealing,
  and the functions that free what a table holds. As in theory \<open>Hashmap\<close> a table is lists of entry
  addresses. A value may be NULL, which \<open>null\<close> tells; what is given to \<open>free\<close> is returned in order.
\<close>

section \<open>Operations\<close>

definition hashmap_ensure_allocated ::
  "('k, 'v) Hashmap option \<Rightarrow> ('k \<Rightarrow> 32 word) \<Rightarrow> ('k \<Rightarrow> 'k \<Rightarrow> int) \<Rightarrow> int \<times> ('k, 'v) Hashmap option" where
  "hashmap_ensure_allocated h hash cmp = (case h of Some _ \<Rightarrow> (0, h) | None \<Rightarrow> (0, Some (hashmap_new hash cmp)))"

definition hashmap_remove_and_replace ::
  "('k, 'v) Hashmap option \<Rightarrow> 'k \<Rightarrow> 'k \<Rightarrow> 'v \<Rightarrow> (int \<times> ('k, 'v) Hashmap option) res" where
  "hashmap_remove_and_replace hp old_key new_key v = (case hp of
       None \<Rightarrow> Inr (- ENOENT, None)
     | Some h \<Rightarrow>
     (let old_hash = bucket_of h old_key; new_hash = bucket_of h new_key in
      bindE (hash_scan h old_hash old_key) (\<lambda>s. case s of
         None \<Rightarrow> Inr (- ENOENT, Some h)
       | Some e \<Rightarrow>
           bindE (hash_scan h new_hash new_key) (\<lambda>s'.
           bindE (case s' of Some k \<Rightarrow> if e \<noteq> k then remove_entry h k else Inr h | None \<Rightarrow> Inr h) (\<lambda>h.
           bindE (unlink_entry h e old_hash) (\<lambda>h.
           bindE (link_entry (h\<lparr>entries := (entries h)(e := Some (new_key, v))\<rparr>) e new_hash) (\<lambda>h.
             Inr (0, Some h))))))))"

definition hashmap_steal_first_key :: "('k, 'v) Hashmap option \<Rightarrow> ('k option \<times> ('k, 'v) Hashmap option) res" where
  "hashmap_steal_first_key hp = (case hp of
       None \<Rightarrow> Inr (None, None)
     | Some h \<Rightarrow> (case iterate_list h of
           [] \<Rightarrow> Inr (None, Some h)
         | e # _ \<Rightarrow> bindE (remove_entry h e) (\<lambda>h'. Inr (Some (entry_key h e), Some h'))))"

definition hashmap_buckets :: "('k, 'v) Hashmap option \<Rightarrow> nat" where
  "hashmap_buckets hp = (case hp of None \<Rightarrow> 0 | Some h \<Rightarrow> n_buckets h)"

text \<open>The cursor is read as in \<open>hashmap_iterate\<close>: \<open>None\<close> is \<open>ITERATOR_FIRST\<close>, \<open>Some None\<close> is \<open>ITERATOR_LAST\<close>.\<close>

definition hashmap_iterate_backwards ::
  "('k, 'v) Hashmap option \<Rightarrow> nat option option \<Rightarrow> ('k \<times> 'v) option \<times> nat option option" where
  "hashmap_iterate_backwards hp i = (case hp of
       None \<Rightarrow> (None, None)
     | Some h \<Rightarrow>
         if i = None \<or> i = Some None \<and> iterate_list h = [] then (None, None)
         else
           let e = (case i of Some (Some e) \<Rightarrow> e | _ \<Rightarrow> last (iterate_list h))
           in (Some (entry_key h e, entry_value h e), map_option Some (next_after (rev (iterate_list h)) e)))"

definition hashmap_iterate_skip ::
  "('k, 'v) Hashmap option \<Rightarrow> 'k \<Rightarrow> nat option option \<Rightarrow> ('v option \<times> nat option option) res" where
  "hashmap_iterate_skip hp key i = (case hp of
       None \<Rightarrow> Inr (None, i)
     | Some h \<Rightarrow> bindE (hash_scan h (bucket_of h key) key) (\<lambda>s. case s of
           None \<Rightarrow> Inr (None, i)
         | Some e \<Rightarrow> Inr (Some (entry_value h e), Some (Some e))))"

text \<open>
  Moving: the entry keeps its address, and goes with its key and value from the one table to the
  other. A moved entry does not make the table grow.
\<close>

definition move_entry :: "('k, 'v) Hashmap \<Rightarrow> ('k, 'v) Hashmap \<Rightarrow> nat \<Rightarrow> nat \<Rightarrow> nat \<Rightarrow>
    (('k, 'v) Hashmap \<times> ('k, 'v) Hashmap) res" where
  "move_entry h other e h_hash other_hash =
     bindE (unlink_entry other e other_hash) (\<lambda>other'.
     bindE (link_entry (h\<lparr>entries := (entries h)(e := entries other e)\<rparr>) e h_hash) (\<lambda>h'.
       Inr (h', other'\<lparr>entries := (entries other')(e := None)\<rparr>)))"

fun move_loop :: "nat list \<Rightarrow> ('k, 'v) Hashmap \<Rightarrow> ('k, 'v) Hashmap \<Rightarrow> (('k, 'v) Hashmap \<times> ('k, 'v) Hashmap) res" where
  "move_loop [] h other = Inr (h, other)"
| "move_loop (e # es) h other =
     (let key = entry_key other e; h_hash = bucket_of h key in
      bindE (hash_scan h h_hash key) (\<lambda>s. case s of
        Some _ \<Rightarrow> move_loop es h other
      | None \<Rightarrow> bindE (move_entry h other e h_hash (bucket_of other key)) (\<lambda>(h, other). move_loop es h other)))"

definition hashmap_move :: "('k, 'v) Hashmap \<Rightarrow> ('k, 'v) Hashmap option \<Rightarrow>
    (('k, 'v) Hashmap \<times> ('k, 'v) Hashmap option) res" where
  "hashmap_move h op = (case op of
       None \<Rightarrow> Inr (h, None)
     | Some other \<Rightarrow> bindE (move_loop (iterate_list other) h other) (\<lambda>(h, other). Inr (h, Some other)))"

definition hashmap_move_one :: "('k, 'v) Hashmap \<Rightarrow> ('k, 'v) Hashmap option \<Rightarrow> 'k \<Rightarrow>
    (int \<times> ('k, 'v) Hashmap \<times> ('k, 'v) Hashmap option) res" where
  "hashmap_move_one h op key = (case op of
       None \<Rightarrow> Inr (0, h, None)
     | Some other \<Rightarrow>
         bindE (hash_scan h (bucket_of h key) key) (\<lambda>s. case s of
           Some _ \<Rightarrow> Inr (- EEXIST, h, Some other)
         | None \<Rightarrow> bindE (hash_scan other (bucket_of other key) key) (\<lambda>s'. case s' of
               None \<Rightarrow> Inr (- ENOENT, h, Some other)
             | Some e \<Rightarrow> bindE (move_entry h other e (bucket_of h key) (bucket_of other key))
                           (\<lambda>(h, other). Inr (0, h, Some other)))))"

section \<open>Freeing\<close>

text \<open>
  \<open>hashmap_free\<close> empties the table; then its blocks go back. \<open>clear_free\<close> steals and frees values
  until it gets NULL: an empty table, or a value that is NULL.
\<close>

definition hashmap_free :: "('k, 'v) Hashmap option \<Rightarrow> unit res" where
  "hashmap_free hp = (case hp of None \<Rightarrow> Inr () | Some h \<Rightarrow> bindE (hashmap_clear h) (\<lambda>_. Inr ()))"

partial_function (option) clear_free_loop ::
  "('v \<Rightarrow> bool) \<Rightarrow> ('k, 'v) Hashmap \<Rightarrow> 'v list \<Rightarrow> ('v list \<times> ('k, 'v) Hashmap) res option" where
  [code]: "clear_free_loop null h fr = (case hashmap_steal_first h of
       Inl f \<Rightarrow> Some (Inl f)
     | Inr (None, h') \<Rightarrow> Some (Inr (fr, h'))
     | Inr (Some p, h') \<Rightarrow> if null p then Some (Inr (fr, h')) else clear_free_loop null h' (fr @ [p]))"

definition hashmap_clear_free :: "('v \<Rightarrow> bool) \<Rightarrow> ('k, 'v) Hashmap \<Rightarrow> ('v list \<times> ('k, 'v) Hashmap) res" where
  "hashmap_clear_free null h = (case clear_free_loop null h [] of None \<Rightarrow> Inl Diverges | Some r \<Rightarrow> r)"

text \<open>Here value and key are read before the entry goes back to the allocator.\<close>

partial_function (option) clear_free_free_loop ::
  "('k, 'v) Hashmap \<Rightarrow> ('v \<times> 'k) list \<Rightarrow> (('v \<times> 'k) list \<times> ('k, 'v) Hashmap) res option" where
  [code]: "clear_free_free_loop h fr = (case iterate_list h of
       [] \<Rightarrow> Some (Inr (fr, h))
     | e # _ \<Rightarrow> (case remove_entry h e of
           Inl f \<Rightarrow> Some (Inl f)
         | Inr h' \<Rightarrow> clear_free_free_loop h' (fr @ [(entry_value h e, entry_key h e)])))"

definition hashmap_clear_free_free :: "('k, 'v) Hashmap \<Rightarrow> (('v \<times> 'k) list \<times> ('k, 'v) Hashmap) res" where
  "hashmap_clear_free_free h = (case clear_free_free_loop h [] of None \<Rightarrow> Inl Diverges | Some r \<Rightarrow> r)"

definition hashmap_free_free :: "('v \<Rightarrow> bool) \<Rightarrow> ('k, 'v) Hashmap option \<Rightarrow> 'v list res" where
  "hashmap_free_free null hp = (case hp of
       None \<Rightarrow> Inr []
     | Some h \<Rightarrow> bindE (hashmap_clear_free null h) (\<lambda>(fr, h). bindE (hashmap_free (Some h)) (\<lambda>_. Inr fr)))"

definition hashmap_free_free_free :: "('k, 'v) Hashmap option \<Rightarrow> ('v \<times> 'k) list res" where
  "hashmap_free_free_free hp = (case hp of
       None \<Rightarrow> Inr []
     | Some h \<Rightarrow> bindE (hashmap_clear_free_free h) (\<lambda>(fr, h). bindE (hashmap_free (Some h)) (\<lambda>_. Inr fr)))"

text \<open>
  \<open>HASHMAP_FOREACH\<close> ends at the first NULL value. \<open>hashmap_get_strv\<close> collects the values in an array
  of one slot more than there are entries; no array of no slots can be had.
\<close>

fun strv_loop :: "nat \<Rightarrow> ('v \<Rightarrow> bool) \<Rightarrow> ('k, 'v) Hashmap \<Rightarrow> nat option option \<Rightarrow> nat \<Rightarrow> 'v list \<Rightarrow> 'v list res" where
  "strv_loop 0 null h i room sv = Inl Diverges"
| "strv_loop (Suc fuel) null h i room sv = (case hashmap_iterate h i of
       (Some (_, item), j) \<Rightarrow>
         if null item then (if length sv < room then Inr sv else Inl OutOfBounds)
         else if length sv < room then strv_loop fuel null h j room (sv @ [item]) else Inl OutOfBounds
     | (None, _) \<Rightarrow> if length sv < room then Inr sv else Inl OutOfBounds)"

definition hashmap_get_strv :: "('v \<Rightarrow> bool) \<Rightarrow> ('k, 'v) Hashmap \<Rightarrow> 'v list option res" where
  "hashmap_get_strv null h =
     (let room = u32 (n_entries h + 1)
      in if room = 0 then Inr None
         else bindE (strv_loop (Suc (length (iterate_list h))) null h None room []) (\<lambda>sv. Inr (Some sv)))"


section \<open>What they do\<close>

lemma alist_of_list: "table_alist h = map (\<lambda>e. (entry_key h e, entry_value h e)) (iterate_list h)"
  by (rule table_alist_def)

context hash_key begin

lemma bucket_of_same: "hash_func h' = hash_func h \<Longrightarrow> n_buckets h' = n_buckets h \<Longrightarrow> bucket_of h' = bucket_of h"
  by (simp add: bucket_of_def fun_eq_iff)

lemma inv_ensure_allocated: "\<exists>h. hashmap_ensure_allocated None hash cmp = (0, Some h) \<and> table_inv hash cmp h \<and> table_alist h = []"
  using inv_new by (simp add: hashmap_ensure_allocated_def)

lemma unlink_same:
  "unlink_entry h e i = Inr h' \<Longrightarrow> hash_func h' = hash_func h \<and> n_buckets h' = n_buckets h \<and> n_entries h' = n_entries h - 1 \<and> 1 \<le> n_entries h"
  by (auto simp: unlink_entry_def res_simps)

lemma remove_same:
  "remove_entry h e = Inr h' \<Longrightarrow> hash_func h' = hash_func h \<and> n_buckets h' = n_buckets h \<and> n_entries h' = n_entries h - 1 \<and> 1 \<le> n_entries h"
  by (auto simp: remove_entry_def res_simps dest: unlink_same)

text \<open>An entry gets another key and goes to the end.\<close>

lemma relink:
  assumes h: "table_inv hash cmp h" and e: "e \<in> set (iterate_list h)"
    and new: "\<And>x. x \<in> set (iterate_list h) \<Longrightarrow> x \<noteq> e \<Longrightarrow> entry_key h x \<noteq> new"
  shows "\<exists>h1 h2. unlink_entry h e (bucket_of h (entry_key h e)) = Inr h1 \<and>
     link_entry (h1\<lparr>entries := (entries h1)(e := Some (new, v))\<rparr>) e (bucket_of h new) = Inr h2 \<and>
     table_inv hash cmp h2 \<and> table_alist h2 = filter (\<lambda>p. fst p \<noteq> entry_key h e) (table_alist h) @ [(new, v)]"
proof -
  obtain h1 where h1: "unlink_entry h e (bucket_of h (entry_key h e)) = Inr h1" "table_inv hash cmp h1"
    "iterate_list h1 = filter (\<lambda>x. x \<noteq> e) (iterate_list h)" "entries h1 = entries h"
    using inv_unlink[OF h e] by blast
  have same: "hash_func h1 = hash_func h" "n_buckets h1 = n_buckets h" "n_entries h1 = n_entries h - 1" "1 \<le> n_entries h"
    using unlink_same[OF h1(1)] by auto
  have key: "entry_key h1 = entry_key h" "entry_value h1 = entry_value h"
    by (auto simp: entry_key_def entry_value_def h1 fun_eq_iff)
  have room: "table_room h1" using h same by (auto simp: table_room_def table_inv_def)
  have "e \<notin> set (iterate_list h1)" "new \<notin> entry_key h1 ` set (iterate_list h1)"
    using new by (auto simp: h1 key)
  then obtain h2 where h2: "link_entry (h1\<lparr>entries := (entries h1)(e := Some (new, v))\<rparr>) e (bucket_of h1 new) = Inr h2"
    "table_inv hash cmp h2" "iterate_list h2 = iterate_list h1 @ [e]" "entries h2 = (entries h1)(e := Some (new, v))"
    using link_fresh[OF h1(2) room, of e new v] by auto
  have inj: "entry_key h x = entry_key h e \<longleftrightarrow> x = e" if "x \<in> set (iterate_list h)" for x
    using h e that by (auto simp: table_inv_def inj_on_def)
  have "table_alist h2 = map (\<lambda>x. (entry_key h x, entry_value h x)) (iterate_list h1) @ [(new, v)]"
    by (auto simp: table_alist_def h2 h1 entry_key_def entry_value_def)
  also have "map (\<lambda>x. (entry_key h x, entry_value h x)) (iterate_list h1) = filter (\<lambda>p. fst p \<noteq> entry_key h e) (table_alist h)"
    by (simp add: table_alist_def filter_map comp_def h1 inj cong: filter_cong)
  finally show ?thesis using h1(1) h2(1,2) bucket_of_same[OF same(1,2)] by auto
qed

lemma find_key:
  assumes h: "table_inv hash cmp h" and e: "e \<in> set (iterate_list h)"
  shows "find (\<lambda>x. entry_key h x = entry_key h e) (iterate_list h) = Some e"
proof (cases "find (\<lambda>x. entry_key h x = entry_key h e) (iterate_list h)")
  case None
  then show ?thesis using e by (auto simp: find_None_iff)
next
  case (Some x)
  then have "x \<in> set (iterate_list h)" "entry_key h x = entry_key h e" using find_in_set[OF Some] by auto
  then show ?thesis using Some h e by (auto simp: table_inv_def inj_on_def)
qed

lemma inv_remove_and_put:
  assumes h: "table_inv hash cmp h"
  shows "\<exists>r h'. hashmap_remove_and_put h old new v = Inr (r, h') \<and> table_inv hash cmp h' \<and>
     (if hm_get (table_alist h) old = None then r = - ENOENT \<and> h' = h
      else if hm_get (table_alist h) new \<noteq> None then r = - EEXIST \<and> h' = h
      else r = 0 \<and> table_alist h' = filter (\<lambda>p. fst p \<noteq> old) (table_alist h) @ [(new, v)])"
proof (cases "find (\<lambda>x. entry_key h x = old) (iterate_list h)")
  case None
  then show ?thesis using h by (simp add: hashmap_remove_and_put_def scan hm_get_table)
next
  case (Some e)
  have e: "e \<in> set (iterate_list h)" "entry_key h e = old" using find_in_set[OF Some] by auto
  show ?thesis
  proof (cases "find (\<lambda>x. entry_key h x = new) (iterate_list h)")
    case None
    then obtain h1 h2 where "unlink_entry h e (bucket_of h old) = Inr h1"
      "link_entry (h1\<lparr>entries := (entries h1)(e := Some (new, v))\<rparr>) e (bucket_of h new) = Inr h2"
      "table_inv hash cmp h2" "table_alist h2 = filter (\<lambda>p. fst p \<noteq> old) (table_alist h) @ [(new, v)]"
      using relink[OF h e(1), of new v] e(2) by (auto simp: find_None_iff)
    then show ?thesis using Some None h by (simp add: hashmap_remove_and_put_def scan hm_get_table)
  qed (use Some h in \<open>simp add: hashmap_remove_and_put_def scan hm_get_table\<close>)
qed

text \<open>Replacing: an entry that has the new key makes room.\<close>

lemma inv_remove_and_replace:
  assumes h: "table_inv hash cmp h"
  shows "\<exists>r h'. hashmap_remove_and_replace (Some h) old new v = Inr (r, Some h') \<and> table_inv hash cmp h' \<and>
     (if hm_get (table_alist h) old = None then r = - ENOENT \<and> h' = h
      else r = 0 \<and> table_alist h' = filter (\<lambda>p. fst p \<noteq> old \<and> fst p \<noteq> new) (table_alist h) @ [(new, v)])"
proof (cases "find (\<lambda>x. entry_key h x = old) (iterate_list h)")
  case None
  then show ?thesis using h by (simp add: hashmap_remove_and_replace_def scan hm_get_table)
next
  case (Some e)
  have e: "e \<in> set (iterate_list h)" "entry_key h e = old" using find_in_set[OF Some] by auto
  define hk where "hk = (case find (\<lambda>x. entry_key h x = new) (iterate_list h) of
       Some k \<Rightarrow> if e \<noteq> k then remove_entry h k else Inr h | None \<Rightarrow> Inr h)"
  have inj: "x = y" if "entry_key h x = entry_key h y" "x \<in> set (iterate_list h)" "y \<in> set (iterate_list h)" for x y
    using h that by (auto simp: table_inv_def inj_on_def)
  have "\<exists>h1. hk = Inr h1 \<and> table_inv hash cmp h1 \<and> e \<in> set (iterate_list h1) \<and> entry_key h1 e = old \<and>
     hash_func h1 = hash_func h \<and> n_buckets h1 = n_buckets h \<and>
     (\<forall>x \<in> set (iterate_list h1). x \<noteq> e \<longrightarrow> entry_key h1 x \<noteq> new) \<and>
     filter (\<lambda>p. fst p \<noteq> old) (table_alist h1) = filter (\<lambda>p. fst p \<noteq> old \<and> fst p \<noteq> new) (table_alist h)"
  proof (cases "find (\<lambda>x. entry_key h x = new) (iterate_list h)")
    case None
    then have "\<And>x. x \<in> set (iterate_list h) \<Longrightarrow> entry_key h x \<noteq> new" by (auto simp: find_None_iff)
    moreover from this have "filter (\<lambda>p. fst p \<noteq> old) (table_alist h) = filter (\<lambda>p. fst p \<noteq> old \<and> fst p \<noteq> new) (table_alist h)"
      by (intro filter_cong) (force simp: table_alist_def)+
    ultimately show ?thesis using None h e by (auto simp: hk_def)
  next
    case (Some k)
    have k: "k \<in> set (iterate_list h)" "entry_key h k = new" using find_in_set[OF Some] by auto
    show ?thesis
    proof (cases "e = k")
      case True
      then have "\<forall>x \<in> set (iterate_list h). x \<noteq> e \<longrightarrow> entry_key h x \<noteq> new" using inj k e by auto
      moreover have "old = new" using True e k by simp
      ultimately show ?thesis using Some h e True by (simp add: hk_def)
    next
      case False
      obtain h1 where h1: "remove_entry h k = Inr h1" "table_inv hash cmp h1"
        "table_alist h1 = filter (\<lambda>p. fst p \<noteq> new) (table_alist h)"
        "iterate_list h1 = filter (\<lambda>x. x \<noteq> k) (iterate_list h)" "\<forall>x. x \<noteq> k \<longrightarrow> entries h1 x = entries h x"
        using inv_remove_entry[OF h k(1)] k(2) by auto
      then have "entry_key h1 x = entry_key h x" if "x \<noteq> k" for x using that by (simp add: entry_key_def)
      then show ?thesis using Some False h1 e k inj remove_same[OF h1(1)]
        by (auto simp: hk_def conj_commute intro: inj)
    qed
  qed
  then obtain h1 where h1: "hk = Inr h1" "table_inv hash cmp h1" "e \<in> set (iterate_list h1)" "entry_key h1 e = old"
    "hash_func h1 = hash_func h" "n_buckets h1 = n_buckets h"
    "\<And>x. x \<in> set (iterate_list h1) \<Longrightarrow> x \<noteq> e \<Longrightarrow> entry_key h1 x \<noteq> new"
    "filter (\<lambda>p. fst p \<noteq> old) (table_alist h1) = filter (\<lambda>p. fst p \<noteq> old \<and> fst p \<noteq> new) (table_alist h)" by blast
  have bo: "bucket_of h1 = bucket_of h" by (rule bucket_of_same) (use h1 in auto)
  obtain h2 h3 where "unlink_entry h1 e (bucket_of h1 old) = Inr h2"
    "link_entry (h2\<lparr>entries := (entries h2)(e := Some (new, v))\<rparr>) e (bucket_of h1 new) = Inr h3"
    "table_inv hash cmp h3" "table_alist h3 = filter (\<lambda>p. fst p \<noteq> old) (table_alist h1) @ [(new, v)]"
    using relink[OF h1(2,3,7), of v] h1(4) by blast
  then show ?thesis using Some h h1(1,8) unfolding hk_def
    by (simp add: hashmap_remove_and_replace_def scan hm_get_table bo Let_def)
qed

end


text \<open>A loop over \<open>hashmap_iterate_backwards\<close> visits the entries in the reverse order.\<close>

fun foreach_backwards :: "nat \<Rightarrow> ('k, 'v) Hashmap \<Rightarrow> nat option option \<Rightarrow> ('k \<times> 'v) list option" where
  "foreach_backwards 0 h i = None"
| "foreach_backwards (Suc fuel) h i = (case hashmap_iterate_backwards (Some h) i of
       (None, _) \<Rightarrow> Some []
     | (Some kv, j) \<Rightarrow> map_option (\<lambda>seen. kv # seen) (foreach_backwards fuel h j))"

lemma backwards_from:
  assumes "distinct (iterate_list h)" "rev (iterate_list h) = xs @ es" "length es < fuel"
  shows "foreach_backwards fuel h (case es of [] \<Rightarrow> None | e # _ \<Rightarrow> Some (Some e)) =
    Some (map (\<lambda>e. (entry_key h e, entry_value h e)) es)"
  using assms
proof (induction es arbitrary: xs fuel)
  case Nil
  then show ?case by (cases fuel) (auto simp: hashmap_iterate_backwards_def)
next
  case (Cons e es)
  then obtain f where f: "fuel = Suc f" "length es < f" by (cases fuel) auto
  have "e \<notin> set xs" using Cons.prems(1,2) by (metis distinct_append distinct_rev disjoint_iff list.set_intros(1))
  then have "next_after (rev (iterate_list h)) e = (case es of [] \<Rightarrow> None | y # _ \<Rightarrow> Some y)"
    by (simp add: Cons.prems(2) next_after_append)
  then have "map_option Some (next_after (rev (iterate_list h)) e) = (case es of [] \<Rightarrow> None | y # _ \<Rightarrow> Some (Some y))"
    by (simp split: list.splits)
  then show ?case using Cons.IH[of "xs @ [e]" f] Cons.prems f by (simp add: hashmap_iterate_backwards_def)
qed

lemma backwards_all:
  assumes "table_inv hash cmp h" "n_entries h < fuel"
  shows "foreach_backwards fuel h (Some None) = Some (rev (table_alist h))"
proof -
  obtain f where f: "fuel = Suc f" using assms(2) by (cases fuel) auto
  have d: "distinct (iterate_list h)" "length (iterate_list h) < fuel" using assms by (auto simp: table_inv_def)
  have "foreach_backwards fuel h (Some None) =
      foreach_backwards fuel h (case rev (iterate_list h) of [] \<Rightarrow> None | e # _ \<Rightarrow> Some (Some e))"
    by (cases "iterate_list h" rule: rev_cases) (simp_all add: f hashmap_iterate_backwards_def)
  then show ?thesis
    using backwards_from[OF d(1), of "[]" "rev (iterate_list h)" fuel] d(2) by (simp add: table_alist_def rev_map)
qed

context hash_key begin

text \<open>\<open>hashmap_iterate_skip\<close> leaves the cursor on the entry itself, so that the next step gives it again.\<close>

lemma skip_gives_again:
  assumes h: "table_inv hash cmp h" and k: "hm_get (table_alist h) key = Some v"
  shows "\<exists>j. hashmap_iterate_skip (Some h) key i = Inr (Some v, j) \<and> fst (hashmap_iterate h j) = Some (key, v)"
proof -
  obtain e where e: "find (\<lambda>x. entry_key h x = key) (iterate_list h) = Some e" "entry_value h e = v"
    using k by (auto simp: hm_get_table)
  then show ?thesis using find_in_set[OF e(1)]
    by (auto simp: hashmap_iterate_skip_def scan[OF h] hashmap_iterate_def)
qed

lemma steal_first_ok:
  assumes h: "table_inv hash cmp h" and c: "iterate_list h = e # es"
  shows "\<exists>h'. remove_entry h e = Inr h' \<and> table_inv hash cmp h' \<and> iterate_list h' = es \<and>
     table_alist h = (entry_key h e, entry_value h e) # table_alist h'"
proof -
  obtain h' where h': "remove_entry h e = Inr h'" "table_inv hash cmp h'"
    "iterate_list h' = filter (\<lambda>x. x \<noteq> e) (iterate_list h)" "\<forall>x. x \<noteq> e \<longrightarrow> entries h' x = entries h x"
    using inv_remove_entry[OF h, of e] c by auto
  have d: "e \<notin> set es" using h c by (auto simp: table_inv_def)
  then have es: "iterate_list h' = es" using h'(3) c by (auto simp: filter_id_conv)
  have "map (\<lambda>x. (entry_key h x, entry_value h x)) es = table_alist h'"
    unfolding table_alist_def es using h'(4) d by (intro map_cong) (auto simp: entry_key_def entry_value_def)
  then show ?thesis using h' es c by (auto simp: alist_of_list[of h])
qed

lemma steal_key_ok:
  assumes "table_inv hash cmp h"
  shows "\<exists>h'. hashmap_steal_first_key (Some h) = Inr (case table_alist h of [] \<Rightarrow> None | p # _ \<Rightarrow> Some (fst p), Some h') \<and>
     table_inv hash cmp h' \<and> table_alist h' = drop 1 (table_alist h)"
proof (cases "iterate_list h")
  case Nil
  then show ?thesis using assms by (simp add: hashmap_steal_first_key_def table_alist_def)
next
  case (Cons e es)
  then show ?thesis using steal_first_ok[OF assms Cons] by (auto simp: hashmap_steal_first_key_def)
qed

text \<open>
  What \<open>clear_free\<close> frees: the values up to the first NULL. That entry goes, its successors stay.
\<close>

lemma clear_free_from:
  assumes "table_inv hash cmp h"
  shows "\<exists>h'. clear_free_loop null h fr = Some (Inr (fr @ takeWhile (\<lambda>v. \<not> null v) (map snd (table_alist h)), h')) \<and>
     table_inv hash cmp h' \<and> table_alist h' = drop 1 (dropWhile (\<lambda>p. \<not> null (snd p)) (table_alist h))"
  using assms
proof (induction "iterate_list h" arbitrary: h fr)
  case Nil
  then have "hashmap_steal_first h = Inr (None, h)" "table_alist h = []"
    by (simp_all add: hashmap_steal_first_def table_alist_def flip: Nil(1))
  then show ?case using Nil.prems by (subst clear_free_loop.simps) simp
next
  case (Cons e es)
  obtain h1 where h1: "remove_entry h e = Inr h1" "table_inv hash cmp h1" "iterate_list h1 = es"
    "table_alist h = (entry_key h e, entry_value h e) # table_alist h1"
    using steal_first_ok[OF Cons.prems, of e es] Cons.hyps(2) by auto
  have s: "hashmap_steal_first h = Inr (Some (entry_value h e), h1)"
    using h1(1) by (simp add: hashmap_steal_first_def flip: Cons.hyps(2))
  show ?case
  proof (cases "null (entry_value h e)")
    case True
    then show ?thesis using s h1 by (subst clear_free_loop.simps) simp
  next
    case False
    have "clear_free_loop null h fr = clear_free_loop null h1 (fr @ [entry_value h e])"
      using s False by (subst clear_free_loop.simps) simp
    then show ?thesis using Cons.hyps(1)[OF h1(3)[symmetric] h1(2), of "fr @ [entry_value h e]"] h1(4) False by simp
  qed
qed

lemma inv_clear_free:
  assumes "table_inv hash cmp h"
  shows "\<exists>h'. hashmap_clear_free null h = Inr (takeWhile (\<lambda>v. \<not> null v) (map snd (table_alist h)), h') \<and>
     table_inv hash cmp h' \<and> table_alist h' = drop 1 (dropWhile (\<lambda>p. \<not> null (snd p)) (table_alist h))"
  using clear_free_from[OF assms, of null "[]"] by (auto simp: hashmap_clear_free_def)

lemma free_runs: "table_inv hash cmp h \<Longrightarrow> hashmap_free (Some h) = Inr ()"
  using inv_clear[of h] by (auto simp: hashmap_free_def)

text \<open>\<open>hashmap_free_free\<close> frees every value exactly when none of them is NULL.\<close>

lemma free_free_ok:
  assumes "table_inv hash cmp h"
  shows "hashmap_free_free null (Some h) = Inr (takeWhile (\<lambda>v. \<not> null v) (map snd (table_alist h)))"
  using inv_clear_free[OF assms, of null] by (auto simp: hashmap_free_free_def free_runs)

lemma clear_free_free_from:
  assumes "table_inv hash cmp h"
  shows "\<exists>h'. clear_free_free_loop h fr = Some (Inr (fr @ map prod.swap (table_alist h), h')) \<and>
     table_inv hash cmp h' \<and> table_alist h' = []"
  using assms
proof (induction "iterate_list h" arbitrary: h fr)
  case Nil
  then have "iterate_list h = []" by simp
  then show ?case using Nil.prems by (subst clear_free_free_loop.simps) (simp add: table_alist_def)
next
  case (Cons e es)
  obtain h1 where h1: "remove_entry h e = Inr h1" "table_inv hash cmp h1" "iterate_list h1 = es"
    "table_alist h = (entry_key h e, entry_value h e) # table_alist h1"
    using steal_first_ok[OF Cons.prems, of e es] Cons.hyps(2) by auto
  have "clear_free_free_loop h fr = clear_free_free_loop h1 (fr @ [(entry_value h e, entry_key h e)])"
    using h1(1) by (subst clear_free_free_loop.simps) (simp flip: Cons.hyps(2))
  then show ?case using Cons.hyps(1)[OF h1(3)[symmetric] h1(2), of "fr @ [(entry_value h e, entry_key h e)]"] h1(4) by simp
qed

lemma free_free_free_ok:
  assumes "table_inv hash cmp h"
  shows "hashmap_free_free_free (Some h) = Inr (map prod.swap (table_alist h))"
  using clear_free_free_from[OF assms, of "[]"]
  by (auto simp: hashmap_free_free_free_def hashmap_clear_free_free_def free_runs)

end

lemma strv_from:
  assumes "distinct (iterate_list h)" "iterate_list h = xs @ es" "length es < fuel" "length sv + length es < room"
  shows "strv_loop fuel null h (Some (case es of [] \<Rightarrow> None | e # _ \<Rightarrow> Some e)) room sv =
    Inr (sv @ takeWhile (\<lambda>v. \<not> null v) (map (entry_value h) es))"
  using assms
proof (induction es arbitrary: xs fuel sv)
  case Nil
  then show ?case by (cases fuel) (auto simp: hashmap_iterate_def)
next
  case (Cons e es)
  then obtain f where f: "fuel = Suc f" "length es < f" by (cases fuel) auto
  have "e \<notin> set xs" using Cons.prems(1,2) by auto
  note it = iterate_at[OF Cons.prems(2) this]
  show ?case using Cons.IH[of "xs @ [e]" f "sv @ [entry_value h e]"] Cons.prems f by (auto simp: it)
qed

text \<open>The array that \<open>hashmap_get_strv\<close> gives: the values in order, up to the first NULL.\<close>

lemma get_strv_ok:
  assumes "table_inv hash cmp h" "table_room h"
  shows "hashmap_get_strv null h = Inr (Some (takeWhile (\<lambda>v. \<not> null v) (map snd (table_alist h))))"
proof -
  let ?room = "u32 (n_entries h + 1)" and ?f = "length (iterate_list h)"
  have room: "?room = Suc (length (iterate_list h))" and d: "distinct (iterate_list h)"
    using assms by (auto simp: table_inv_def table_room_def u32_def)
  have "hashmap_iterate h None = hashmap_iterate h (Some (case iterate_list h of [] \<Rightarrow> None | e # _ \<Rightarrow> Some e))"
    by (auto simp: hashmap_iterate_def split: list.splits)
  then have "strv_loop (Suc ?f) null h None ?room [] =
      strv_loop (Suc ?f) null h (Some (case iterate_list h of [] \<Rightarrow> None | e # _ \<Rightarrow> Some e)) ?room []"
    by (simp only: strv_loop.simps)
  also have "\<dots> = Inr (takeWhile (\<lambda>v. \<not> null v) (map (entry_value h) (iterate_list h)))"
    using strv_from[OF d, of "[]" "iterate_list h" "Suc ?f" "[]" ?room null] room by (simp del: strv_loop.simps)
  finally show ?thesis using room
    by (simp add: hashmap_get_strv_def Let_def alist_of_list comp_def del: strv_loop.simps)
qed


section \<open>Moving entries\<close>

context hash_key begin

lemma link_entries: "link_entry h e i = Inr h' \<Longrightarrow> n_entries h' = u32 (n_entries h + 1)"
  by (auto simp: link_entry_def Let_def res_simps)

lemma move_entry_ok:
  assumes h: "table_inv hash cmp h" and ot: "table_inv hash cmp other" and e: "e \<in> set (iterate_list other)"
    and new: "e \<notin> set (iterate_list h)" "entry_key other e \<notin> entry_key h ` set (iterate_list h)" and room: "table_room h"
  shows "\<exists>h' other'. move_entry h other e (bucket_of h (entry_key other e)) (bucket_of other (entry_key other e)) = Inr (h', other') \<and>
     table_inv hash cmp h' \<and> table_inv hash cmp other' \<and>
     iterate_list h' = iterate_list h @ [e] \<and> table_alist h' = table_alist h @ [(entry_key other e, entry_value other e)] \<and>
     iterate_list other' = filter (\<lambda>x. x \<noteq> e) (iterate_list other) \<and> (\<forall>x. x \<noteq> e \<longrightarrow> entries other' x = entries other x)"
proof -
  have "entries other e \<noteq> None" using ot e by (simp add: table_inv_def)
  then have kv: "entries other e = Some (entry_key other e, entry_value other e)"
    by (auto simp: entry_key_def entry_value_def)
  obtain o1 where o1: "remove_entry other e = Inr o1" "table_inv hash cmp o1"
    "iterate_list o1 = filter (\<lambda>x. x \<noteq> e) (iterate_list other)" "\<forall>x. x \<noteq> e \<longrightarrow> entries o1 x = entries other x"
    using inv_remove_entry[OF ot e] by blast
  then obtain o2 where o2: "unlink_entry other e (bucket_of other (entry_key other e)) = Inr o2"
    "o1 = o2\<lparr>entries := (entries o2)(e := None)\<rparr>" by (auto simp: remove_entry_def res_simps)
  obtain h' where h': "link_entry (h\<lparr>entries := (entries h)(e := Some (entry_key other e, entry_value other e))\<rparr>) e
      (bucket_of h (entry_key other e)) = Inr h'" "table_inv hash cmp h'" "iterate_list h' = iterate_list h @ [e]"
    "entries h' = (entries h)(e := Some (entry_key other e, entry_value other e))"
    using link_fresh[OF h room new] by blast
  have "table_alist h' = table_alist h @ [(entry_key other e, entry_value other e)]"
    using new(1) by (auto simp: table_alist_def h' entry_key_def entry_value_def)
  then show ?thesis using o1 o2 h' by (simp add: move_entry_def kv)
qed

lemma has_key: "table_inv hash cmp h \<Longrightarrow>
    find (\<lambda>e. entry_key h e = k) (iterate_list h) = None \<longleftrightarrow> k \<notin> entry_key h ` set (iterate_list h)"
  by (auto simp: find_None_iff)

lemma has_key_alist: "hm_get (table_alist h) k = None \<longleftrightarrow> k \<notin> entry_key h ` set (iterate_list h)"
  by (simp add: hm_get_None table_alist_def image_image)

lemma move_loop_ok:
  assumes "table_inv hash cmp h" "table_inv hash cmp other" "iterate_list other = xs @ es"
    "set (iterate_list h) \<inter> set es = {}" "n_entries h + length es < 2 ^ 32"
  shows "\<exists>h' other'. move_loop es h other = Inr (h', other') \<and> table_inv hash cmp h' \<and> table_inv hash cmp other' \<and>
     table_alist h' = table_alist h @ filter (\<lambda>p. hm_get (table_alist h) (fst p) = None) (map (\<lambda>e. (entry_key other e, entry_value other e)) es) \<and>
     table_alist other' = map (\<lambda>e. (entry_key other e, entry_value other e)) xs @
       filter (\<lambda>p. hm_get (table_alist h) (fst p) \<noteq> None) (map (\<lambda>e. (entry_key other e, entry_value other e)) es)"
  using assms
proof (induction es arbitrary: h other xs)
  case Nil
  then show ?case by (simp add: table_alist_def)
next
  case (Cons e es)
  let ?k = "entry_key other e"
  have e: "e \<in> set (iterate_list other)" "e \<notin> set (iterate_list h)" using Cons.prems(3,4) by auto
  show ?case
  proof (cases "find (\<lambda>x. entry_key h x = ?k) (iterate_list h)")
    case (Some y)
    then have "hm_get (table_alist h) ?k \<noteq> None" by (simp add: hm_get_table)
    then show ?thesis
      using Cons.IH[OF Cons.prems(1,2), of "xs @ [e]"] Cons.prems(3-5) Some by (auto simp: scan[OF Cons.prems(1)])
  next
    case None
    then have nk: "?k \<notin> entry_key h ` set (iterate_list h)" using has_key[OF Cons.prems(1)] by simp
    have room: "table_room h" using Cons.prems(5) by (simp add: table_room_def)
    obtain h1 o1 where s: "move_entry h other e (bucket_of h ?k) (bucket_of other ?k) = Inr (h1, o1)"
      "table_inv hash cmp h1" "table_inv hash cmp o1" "iterate_list h1 = iterate_list h @ [e]"
      "table_alist h1 = table_alist h @ [(?k, entry_value other e)]"
      "iterate_list o1 = filter (\<lambda>x. x \<noteq> e) (iterate_list other)" "\<And>x. x \<noteq> e \<Longrightarrow> entries o1 x = entries other x"
      using move_entry_ok[OF Cons.prems(1,2) e nk room] by blast
    have d: "distinct (xs @ e # es)" using Cons.prems(2,3) by (auto simp: table_inv_def)
    have it: "iterate_list o1 = xs @ es"
    proof -
      have "filter (\<lambda>x. x \<noteq> e) xs = xs" "filter (\<lambda>x. x \<noteq> e) es = es" using d by (auto simp: filter_id_conv)
      then show ?thesis by (simp add: s(6) Cons.prems(3))
    qed
    have same: "entry_key o1 x = entry_key other x \<and> entry_value o1 x = entry_value other x" if "x \<noteq> e" for x
      using s(7)[OF that] by (simp add: entry_key_def entry_value_def)
    have inj: "entry_key other x \<noteq> ?k" if "x \<in> set es" for x
    proof
      assume "entry_key other x = ?k"
      then have "x = e" using Cons.prems(2,3) that by (auto simp: table_inv_def inj_on_def)
      then show False using d that by simp
    qed
    have n: "n_entries h1 + length es < 2 ^ 32"
      using Cons.prems(1,5) s(2,4) by (simp add: table_inv_def)
    obtain h' o' where r: "move_loop es h1 o1 = Inr (h', o')" "table_inv hash cmp h'" "table_inv hash cmp o'"
      "table_alist h' = table_alist h1 @ filter (\<lambda>p. hm_get (table_alist h1) (fst p) = None) (map (\<lambda>e. (entry_key o1 e, entry_value o1 e)) es)"
      "table_alist o' = map (\<lambda>e. (entry_key o1 e, entry_value o1 e)) xs @
       filter (\<lambda>p. hm_get (table_alist h1) (fst p) \<noteq> None) (map (\<lambda>e. (entry_key o1 e, entry_value o1 e)) es)"
      using Cons.IH[OF s(2,3) it _ n] Cons.prems(4) d by (auto simp: s(4))
    have maps: "map (\<lambda>e. (entry_key o1 e, entry_value o1 e)) l = map (\<lambda>e. (entry_key other e, entry_value other e)) l"
      if "e \<notin> set l" for l
    proof -
      have "x \<noteq> e" if "x \<in> set l" for x using that \<open>e \<notin> set l\<close> by auto
      then show ?thesis using same by (intro map_cong) auto
    qed
    have g: "hm_get (table_alist h1) (fst p) = hm_get (table_alist h) (fst p)"
      if "p \<in> set (map (\<lambda>e. (entry_key other e, entry_value other e)) es)" for p
      using that inj by (auto simp: s(5) hm_get_append hm_get_single split: option.splits)
    have f: "filter (\<lambda>p. Q (hm_get (table_alist h1) (fst p))) (map (\<lambda>e. (entry_key other e, entry_value other e)) es) =
        filter (\<lambda>p. Q (hm_get (table_alist h) (fst p))) (map (\<lambda>e. (entry_key other e, entry_value other e)) es)" for Q
      using g by (intro filter_cong) auto
    have nk': "hm_get (table_alist h) ?k = None" using None by (simp add: hm_get_table)
    have e': "e \<notin> set xs" "e \<notin> set es" using d by auto
    show ?thesis
      using r f[of "\<lambda>r. r = None"] f[of "\<lambda>r. r \<noteq> None"] s(1,5) nk' None
      by (simp add: scan[OF Cons.prems(1)] maps[OF e'(1)] maps[OF e'(2)] Let_def)
  qed
qed

text \<open>
  \<open>hashmap_move\<close> takes over exactly the entries whose keys are new, in their order, and leaves the
  others; it always succeeds, as its comment says. The tables share no entry.
\<close>

lemma move_ok:
  assumes "table_inv hash cmp h" "table_inv hash cmp other" "set (iterate_list h) \<inter> set (iterate_list other) = {}"
    "n_entries h + n_entries other < 2 ^ 32"
  shows "\<exists>h' other'. hashmap_move h (Some other) = Inr (h', Some other') \<and> table_inv hash cmp h' \<and> table_inv hash cmp other' \<and>
     table_alist h' = table_alist h @ filter (\<lambda>p. hm_get (table_alist h) (fst p) = None) (table_alist other) \<and>
     table_alist other' = filter (\<lambda>p. hm_get (table_alist h) (fst p) \<noteq> None) (table_alist other)"
proof -
  have "n_entries h + length (iterate_list other) < 2 ^ 32" using assms(2,4) by (simp add: table_inv_def)
  from move_loop_ok[OF assms(1,2) _ assms(3) this, of "[]"] show ?thesis
    by (auto simp: hashmap_move_def alist_of_list[of other])
qed

lemma move_one_ok:
  assumes h: "table_inv hash cmp h" and ot: "table_inv hash cmp other"
    and d: "set (iterate_list h) \<inter> set (iterate_list other) = {}" and room: "table_room h"
  shows "\<exists>r h' other'. hashmap_move_one h (Some other) key = Inr (r, h', Some other') \<and> table_inv hash cmp h' \<and> table_inv hash cmp other' \<and>
     (case (hm_get (table_alist h) key, hm_get (table_alist other) key) of
        (Some _, _) \<Rightarrow> r = - EEXIST \<and> h' = h \<and> other' = other
      | (None, None) \<Rightarrow> r = - ENOENT \<and> h' = h \<and> other' = other
      | (None, Some v) \<Rightarrow> r = 0 \<and> table_alist h' = table_alist h @ [(key, v)] \<and> hm_get (table_alist other') key = None)"
proof (cases "find (\<lambda>e. entry_key h e = key) (iterate_list h)")
  case (Some y)
  then show ?thesis using h ot by (simp add: hashmap_move_one_def scan hm_get_table)
next
  case None
  show ?thesis
  proof (cases "find (\<lambda>e. entry_key other e = key) (iterate_list other)")
    case N: None
    then show ?thesis using h ot None by (simp add: hashmap_move_one_def scan hm_get_table)
  next
    case (Some e)
    have e: "e \<in> set (iterate_list other)" "entry_key other e = key" using find_in_set[OF Some] by auto
    then have new: "e \<notin> set (iterate_list h)" using d by auto
    have nk: "entry_key other e \<notin> entry_key h ` set (iterate_list h)" using has_key[OF h] None e(2) by simp
    obtain h1 o1 where s: "move_entry h other e (bucket_of h key) (bucket_of other key) = Inr (h1, o1)"
      "table_inv hash cmp h1" "table_inv hash cmp o1" "table_alist h1 = table_alist h @ [(key, entry_value other e)]"
      "iterate_list o1 = filter (\<lambda>x. x \<noteq> e) (iterate_list other)" "\<And>x. x \<noteq> e \<Longrightarrow> entries o1 x = entries other x"
      using move_entry_ok[OF h ot e(1) new nk room] e(2) by auto
    have "key \<notin> entry_key o1 ` set (iterate_list o1)"
    proof
      assume "key \<in> entry_key o1 ` set (iterate_list o1)"
      then obtain x where x: "x \<in> set (iterate_list other)" "x \<noteq> e" "entry_key o1 x = key" by (auto simp: s(5))
      then have "entry_key other x = key" using s(6)[of x] by (simp add: entry_key_def)
      then show False using ot x e by (auto simp: table_inv_def inj_on_def)
    qed
    then have "hm_get (table_alist o1) key = None" by (simp add: has_key_alist)
    then show ?thesis using h ot None Some s by (simp add: hashmap_move_one_def scan hm_get_table)
  qed
qed

end

end
