(* ===== verification/Intrusive.thy ===== *)
theory Intrusive
  imports Links
begin

text \<open>
  The macros of \<open>src/shared/list.h\<close>: doubly linked lists whose pointers are members of the items.
  The daemon keeps its clients in such a list (\<open>LIST_HEAD_INIT\<close>, \<open>LIST_INIT\<close>, \<open>LIST_PREPEND\<close> and
  \<open>LIST_FOREACH\<close> in \<open>src/core/main.c\<close>, \<open>LIST_REMOVE\<close> in \<open>src/core/daemon.c\<close>). The items live on a
  heap; what is not a pointer of the list is the body of an item. A NULL or dangling item faults, an
  \<open>assert\<close> that fails too. The theorem says that the macros do to the heap what the model of the
  daemon does to its list of clients.
\<close>

section \<open>Items\<close>

record 'a list_item =
  item_next :: ptr
  item_prev :: ptr
  item_body :: 'a

type_synonym 'a items = "nat \<Rightarrow> 'a list_item option"

definition load_item :: "'a items \<Rightarrow> ptr \<Rightarrow> 'a list_item res" where
  "load_item h p = (case p of
       None \<Rightarrow> Inl NullDeref
     | Some a \<Rightarrow> (case h a of None \<Rightarrow> Inl OutOfBounds | Some n \<Rightarrow> Inr n))"

definition store_item :: "ptr \<Rightarrow> ('a list_item \<Rightarrow> 'a list_item) \<Rightarrow> 'a items \<Rightarrow> 'a items res" where
  "store_item p f h = bindE (load_item h p) (\<lambda>n. Inr (h(the p := Some (f n))))"

section \<open>The macros\<close>

definition LIST_HEAD_INIT :: ptr where
  "LIST_HEAD_INIT = None"

definition LIST_INIT :: "ptr \<Rightarrow> 'a items \<Rightarrow> 'a items res" where
  "LIST_INIT item h =
     bindE (assertE (item \<noteq> None)) (\<lambda>_. store_item item (\<lambda>n. n\<lparr>item_next := None, item_prev := None\<rparr>) h)"

definition LIST_PREPEND :: "ptr \<Rightarrow> ptr \<Rightarrow> 'a items \<Rightarrow> (ptr \<times> 'a items) res" where
  "LIST_PREPEND head item h =
     bindE (assertE (item \<noteq> None)) (\<lambda>_.
     bindE (store_item item (\<lambda>n. n\<lparr>item_next := head\<rparr>) h) (\<lambda>h.
     bindE (if head \<noteq> None then store_item head (\<lambda>n. n\<lparr>item_prev := item\<rparr>) h else Inr h) (\<lambda>h.
     bindE (store_item item (\<lambda>n. n\<lparr>item_prev := None\<rparr>) h) (\<lambda>h. Inr (item, h)))))"

definition LIST_REMOVE :: "ptr \<Rightarrow> ptr \<Rightarrow> 'a items \<Rightarrow> (ptr \<times> 'a items) res" where
  "LIST_REMOVE head item h =
     bindE (assertE (item \<noteq> None)) (\<lambda>_.
     bindE (load_item h item) (\<lambda>n.
     bindE (if item_next n \<noteq> None then store_item (item_next n) (\<lambda>m. m\<lparr>item_prev := item_prev n\<rparr>) h else Inr h) (\<lambda>h.
     bindE (load_item h item) (\<lambda>n.
     bindE (if item_prev n \<noteq> None
            then bindE (store_item (item_prev n) (\<lambda>m. m\<lparr>item_next := item_next n\<rparr>) h) (\<lambda>h. Inr (head, h))
            else bindE (assertE (head = item)) (\<lambda>_. Inr (item_next n, h))) (\<lambda>(head, h).
     bindE (store_item item (\<lambda>n. n\<lparr>item_next := None, item_prev := None\<rparr>) h) (\<lambda>h. Inr (head, h)))))))"

definition LIST_INSERT_AFTER :: "ptr \<Rightarrow> ptr \<Rightarrow> ptr \<Rightarrow> 'a items \<Rightarrow> (ptr \<times> 'a items) res" where
  "LIST_INSERT_AFTER head a b h =
     bindE (assertE (b \<noteq> None)) (\<lambda>_.
     if a = None then
       bindE (store_item b (\<lambda>n. n\<lparr>item_next := head\<rparr>) h) (\<lambda>h.
       bindE (if head \<noteq> None then store_item head (\<lambda>n. n\<lparr>item_prev := b\<rparr>) h else Inr h) (\<lambda>h.
       bindE (store_item b (\<lambda>n. n\<lparr>item_prev := None\<rparr>) h) (\<lambda>h. Inr (b, h))))
     else
       bindE (load_item h a) (\<lambda>an.
       bindE (store_item b (\<lambda>n. n\<lparr>item_next := item_next an\<rparr>) h) (\<lambda>h.
       bindE (if item_next an \<noteq> None then store_item (item_next an) (\<lambda>n. n\<lparr>item_prev := b\<rparr>) h else Inr h) (\<lambda>h.
       bindE (store_item b (\<lambda>n. n\<lparr>item_prev := a\<rparr>) h) (\<lambda>h.
       bindE (store_item a (\<lambda>n. n\<lparr>item_next := b\<rparr>) h) (\<lambda>h. Inr (head, h)))))))"

definition LIST_JUST_US :: "ptr \<Rightarrow> 'a items \<Rightarrow> bool res" where
  "LIST_JUST_US item h = bindE (load_item h item) (\<lambda>n. Inr (item_prev n = None \<and> item_next n = None))"

text \<open>
  The loops. A loop that comes back to where it was does not end. \<open>walk step p\<close> visits the items
  from \<open>p\<close> on until \<open>step\<close> gives NULL; \<open>walk_end\<close> stops at the last of them.
\<close>

partial_function (option) walk :: "('a list_item \<Rightarrow> ptr) \<Rightarrow> ptr \<Rightarrow> 'a items \<Rightarrow> nat list res option" where
  [code]: "walk step p h =
     (case p of
        None \<Rightarrow> Some (Inr [])
      | Some a \<Rightarrow> (case h a of
            None \<Rightarrow> Some (Inl OutOfBounds)
          | Some n \<Rightarrow> Option.bind (walk step (step n) h) (\<lambda>r. Some (bindE r (\<lambda>as. Inr (a # as))))))"

partial_function (option) walk_end :: "('a list_item \<Rightarrow> ptr) \<Rightarrow> ptr \<Rightarrow> 'a items \<Rightarrow> ptr res option" where
  [code]: "walk_end step p h = (case load_item h p of
        Inl e \<Rightarrow> Some (Inl e)
      | Inr n \<Rightarrow> if step n \<noteq> None then walk_end step (step n) h else Some (Inr p))"

definition result_of :: "'b res option \<Rightarrow> 'b res" where
  "result_of r = (case r of None \<Rightarrow> Inl Diverges | Some x \<Rightarrow> x)"

definition LIST_FIND_HEAD :: "ptr \<Rightarrow> 'a items \<Rightarrow> ptr res" where
  "LIST_FIND_HEAD item h = bindE (assertE (item \<noteq> None)) (\<lambda>_. result_of (walk_end item_prev item h))"

definition LIST_FIND_TAIL :: "ptr \<Rightarrow> 'a items \<Rightarrow> ptr res" where
  "LIST_FIND_TAIL item h = bindE (assertE (item \<noteq> None)) (\<lambda>_. result_of (walk_end item_next item h))"

text \<open>\<open>LIST_FOREACH\<close>, with the items it visits when its body leaves the list alone.\<close>

definition LIST_FOREACH :: "ptr \<Rightarrow> 'a items \<Rightarrow> nat list res" where
  "LIST_FOREACH head h = result_of (walk item_next head h)"

definition LIST_FOREACH_BEFORE :: "ptr \<Rightarrow> 'a items \<Rightarrow> nat list res" where
  "LIST_FOREACH_BEFORE p h = bindE (load_item h p) (\<lambda>n. result_of (walk item_prev (item_prev n) h))"

definition LIST_FOREACH_AFTER :: "ptr \<Rightarrow> 'a items \<Rightarrow> nat list res" where
  "LIST_FOREACH_AFTER p h = bindE (load_item h p) (\<lambda>n. result_of (walk item_next (item_next n) h))"

text \<open>
  \<open>LIST_FOREACH_SAFE\<close> reads the next pointer before the body runs; the body gets the address and
  may free the item.
\<close>

partial_function (option) foreach_safe ::
  "(nat \<Rightarrow> 'a items \<Rightarrow> 'a items res) \<Rightarrow> ptr \<Rightarrow> 'a items \<Rightarrow> 'a items res option" where
  [code]: "foreach_safe body p h =
     (case p of
        None \<Rightarrow> Some (Inr h)
      | Some a \<Rightarrow> (case h a of
            None \<Rightarrow> Some (Inl OutOfBounds)
          | Some n \<Rightarrow> (case body a h of
                Inl e \<Rightarrow> Some (Inl e)
              | Inr h' \<Rightarrow> foreach_safe body (item_next n) h')))"

definition LIST_FOREACH_SAFE :: "(nat \<Rightarrow> 'a items \<Rightarrow> 'a items res) \<Rightarrow> ptr \<Rightarrow> 'a items \<Rightarrow> 'a items res" where
  "LIST_FOREACH_SAFE body head h = result_of (foreach_safe body head h)"

text \<open>\<open>LIST_LOOP_BUT_ONE\<close>: from the item behind \<open>p\<close> around the list to the one before it.\<close>

partial_function (option) loop_until :: "ptr \<Rightarrow> ptr \<Rightarrow> ptr \<Rightarrow> 'a items \<Rightarrow> nat list res option" where
  [code]: "loop_until head p i h =
     (if i = p then Some (Inr [])
      else case i of
        None \<Rightarrow> Some (Inl NullDeref)
      | Some a \<Rightarrow> (case h a of
            None \<Rightarrow> Some (Inl OutOfBounds)
          | Some n \<Rightarrow> Option.bind (loop_until head p (if item_next n \<noteq> None then item_next n else head) h)
                       (\<lambda>r. Some (bindE r (\<lambda>as. Inr (a # as))))))"

definition LIST_LOOP_BUT_ONE :: "ptr \<Rightarrow> ptr \<Rightarrow> 'a items \<Rightarrow> nat list res" where
  "LIST_LOOP_BUT_ONE head p h =
     bindE (load_item h p) (\<lambda>n. result_of (loop_until head p (if item_next n \<noteq> None then item_next n else head) h))"


section \<open>What the macros do\<close>

definition next_of :: "'a items \<Rightarrow> nat \<Rightarrow> ptr" where
  "next_of h a = (case h a of None \<Rightarrow> None | Some n \<Rightarrow> item_next n)"

definition prev_of :: "'a items \<Rightarrow> nat \<Rightarrow> ptr" where
  "prev_of h a = (case h a of None \<Rightarrow> None | Some n \<Rightarrow> item_prev n)"

definition body_of :: "'a items \<Rightarrow> nat \<Rightarrow> 'a option" where
  "body_of h a = map_option item_body (h a)"

text \<open>\<open>head\<close> is the head of a list of the items \<open>as\<close>.\<close>

definition items_at :: "'a items \<Rightarrow> ptr \<Rightarrow> nat list \<Rightarrow> bool" where
  "items_at h head as \<longleftrightarrow> (\<exists>t. chain (next_of h) (prev_of h) head as t) \<and> (\<forall>a \<in> set as. h a \<noteq> None)"

lemma views_upd [links]:
  "next_of (h(a := Some n)) = (next_of h)(a := item_next n)"
  "prev_of (h(a := Some n)) = (prev_of h)(a := item_prev n)"
  "body_of (h(a := Some n)) = (body_of h)(a := Some (item_body n))"
  by (auto simp: next_of_def prev_of_def body_of_def fun_eq_iff)

lemma views_at [links]:
  "h a = Some n \<Longrightarrow> next_of h a = item_next n" "h a = Some n \<Longrightarrow> prev_of h a = item_prev n"
  "h a = Some n \<Longrightarrow> body_of h a = Some (item_body n)"
  by (auto simp: next_of_def prev_of_def body_of_def)

lemma load_item_Some [simp]: "h a = Some n \<Longrightarrow> load_item h (Some a) = Inr n"
  by (simp add: load_item_def)

lemma store_item_Some [simp]: "h a = Some n \<Longrightarrow> store_item (Some a) f h = Inr (h(a := Some (f n)))"
  by (simp add: store_item_def)

lemma items_at_Nil [simp]: "items_at h head [] \<longleftrightarrow> head = None"
  by (simp add: items_at_def)

lemma items_at_item: "items_at h head as \<Longrightarrow> a \<in> set as \<Longrightarrow> \<exists>n. h a = Some n"
  by (auto simp: items_at_def)

lemma items_at_head: "items_at h head as \<Longrightarrow> head = (case as of [] \<Rightarrow> None | a # _ \<Rightarrow> Some a)"
  by (auto simp: items_at_def dest: chain_head)

lemma items_at_upd: "x \<notin> set as \<Longrightarrow> items_at (h(x := Some n)) head as = items_at h head as"
proof -
  assume x: "x \<notin> set as"
  then have "chain (next_of (h(x := Some n))) (prev_of (h(x := Some n))) head as t =
      chain (next_of h) (prev_of h) head as t" for t
    by (intro chain_cong) (auto simp: links)
  then show ?thesis using x by (auto simp: items_at_def)
qed

lemma init_ok:
  assumes "items_at h head as" "h x = Some n" "x \<notin> set as"
  shows "\<exists>h'. LIST_INIT (Some x) h = Inr h' \<and> items_at h' head as \<and> body_of h' = body_of h"
proof -
  have "LIST_INIT (Some x) h = Inr (h(x := Some (n\<lparr>item_next := None, item_prev := None\<rparr>)))"
    using assms(2) by (simp add: LIST_INIT_def)
  moreover have "body_of (h(x := Some (n\<lparr>item_next := None, item_prev := None\<rparr>))) = body_of h"
    using assms(2) by (simp add: links fun_upd_idem)
  ultimately show ?thesis using assms by (simp add: items_at_upd)
qed

text \<open>
  A heap whose pointers changed as a lemma of theory \<open>Links\<close> says; the bodies and the allocated
  items stay.
\<close>

lemma items_atI:
  assumes "chain nx pv head as t" "next_of h' = nx" "prev_of h' = pv" "body_of h' = body_of h"
    "\<And>a. a \<in> set as \<Longrightarrow> h a \<noteq> None"
  shows "items_at h' head as"
proof -
  have "h' a \<noteq> None" if "a \<in> set as" for a
    using fun_cong[OF assms(4), of a] assms(5)[OF that] by (auto simp: body_of_def)
  then show ?thesis using assms by (auto simp: items_at_def)
qed

lemma list_prepend_ok:
  assumes l: "items_at h head as" and x: "h x = Some n" "x \<notin> set as"
  shows "\<exists>h'. LIST_PREPEND head (Some x) h = Inr (Some x, h') \<and> items_at h' (Some x) (x # as) \<and> body_of h' = body_of h"
proof -
  obtain t where t: "chain (next_of h) (prev_of h) head as t" using l by (auto simp: items_at_def)
  obtain h' where h': "LIST_PREPEND head (Some x) h = Inr (Some x, h')"
    "next_of h' = (next_of h)(x := head)" "body_of h' = body_of h"
    "prev_of h' = (case head of None \<Rightarrow> prev_of h | Some y \<Rightarrow> (prev_of h)(y := Some x))(x := None)"
  proof (cases head)
    case None
    then show thesis using x by (intro that, simp add: LIST_PREPEND_def) (auto simp: links fun_eq_iff)
  next
    case (Some y)
    then obtain m where m: "h y = Some m" "y \<noteq> x"
      using l x items_at_head[OF l] by (auto simp: items_at_def split: list.splits)
    with Some x x show thesis
      by (intro that, simp add: LIST_PREPEND_def) (auto simp: links fun_eq_iff)
  qed
  have "items_at h' (Some x) (x # as)"
    by (rule items_atI[OF chain_push[OF t x(2)] h'(2,4,3)]) (use l x in \<open>auto simp: items_at_def\<close>)
  then show ?thesis using h' by auto
qed


lemma insert_after_ok:
  assumes l: "items_at h head (as @ a # cs)" and x: "h x = Some n" "x \<notin> set (as @ a # cs)"
  shows "\<exists>h'. LIST_INSERT_AFTER head (Some a) (Some x) h = Inr (head, h') \<and> items_at h' head (as @ a # x # cs) \<and>
    body_of h' = body_of h"
proof -
  obtain t where t: "chain (next_of h) (prev_of h) head (as @ a # cs) t" using l by (auto simp: items_at_def)
  obtain m where m: "h a = Some m" "a \<noteq> x" using l x by (auto simp: items_at_def)
  obtain h' where h': "LIST_INSERT_AFTER head (Some a) (Some x) h = Inr (head, h')"
    "next_of h' = (next_of h)(x := next_of h a, a := Some x)" "body_of h' = body_of h"
    "prev_of h' = (case next_of h a of None \<Rightarrow> prev_of h | Some y \<Rightarrow> (prev_of h)(y := Some x))(x := Some a)"
  proof (cases "item_next m")
    case None
    then show thesis using x m
      by (intro that, simp add: LIST_INSERT_AFTER_def) (auto simp: links fun_eq_iff)
  next
    case (Some y)
    then have "y \<in> set (as @ a # cs)" "y \<noteq> a"
      using chain_near(1)[OF t, of a y] m by (auto simp: links)
    then obtain k where "h y = Some k" "y \<noteq> x" "y \<noteq> a" using l x by (auto simp: items_at_def)
    with Some x m show thesis
      by (intro that, simp add: LIST_INSERT_AFTER_def) (auto simp: links fun_eq_iff)
  qed
  have "items_at h' head (as @ a # x # cs)"
    by (rule items_atI[OF chain_insert[OF t x(2)] h'(2,4,3)]) (use l x in \<open>auto simp: items_at_def\<close>)
  then show ?thesis using h' by auto
qed

lemma remove_item_ok:
  assumes l: "items_at h head as" and x: "x \<in> set as"
  shows "\<exists>head' h'. LIST_REMOVE head (Some x) h = Inr (head', h') \<and> items_at h' head' (remove1 x as) \<and>
    body_of h' = body_of h \<and> LIST_JUST_US (Some x) h' = Inr True"
proof -
  obtain t where t: "chain (next_of h) (prev_of h) head as t" using l by (auto simp: items_at_def)
  obtain n where n: "h x = Some n" using items_at_item[OF l x] by blast
  have near: "\<exists>m. h y = Some m \<and> y \<noteq> x" if "item_next n = Some y \<or> item_prev n = Some y" for y
    using that chain_near[OF t x, of y] items_at_item[OF l, of y] n by (auto simp: links)
  have first: "head = Some x" if "item_prev n = None"
  proof -
    obtain ys zs where as: "as = ys @ x # zs" using split_list[OF x] by blast
    then have "ys = []" using chain_prev[of "next_of h" "prev_of h" head ys x zs t] t that n
      by (auto simp: links split: if_splits)
    then show ?thesis using items_at_head[OF l] as by simp
  qed
  obtain head' h' where h': "LIST_REMOVE head (Some x) h = Inr (head', h')"
    "head' = (if prev_of h x = None then next_of h x else head)" "body_of h' = body_of h"
    "next_of h' = (case prev_of h x of None \<Rightarrow> next_of h | Some y \<Rightarrow> (next_of h)(y := next_of h x))(x := None)"
    "prev_of h' = (case next_of h x of None \<Rightarrow> prev_of h | Some y \<Rightarrow> (prev_of h)(y := prev_of h x))(x := None)"
  proof (cases "item_next n"; cases "item_prev n")
    assume c: "item_next n = None" "item_prev n = None"
    then show thesis using n first
      by (intro that, simp add: LIST_REMOVE_def) (auto simp: links fun_eq_iff)
  next
    fix p assume c: "item_next n = None" "item_prev n = Some p"
    obtain m where "h p = Some m" "p \<noteq> x" using near[of p] c by auto
    then show thesis using n c
      by (intro that, simp add: LIST_REMOVE_def) (auto simp: links fun_eq_iff)
  next
    fix q assume c: "item_next n = Some q" "item_prev n = None"
    obtain k where "h q = Some k" "q \<noteq> x" using near[of q] c by auto
    then show thesis using n first c
      by (intro that, simp add: LIST_REMOVE_def) (auto simp: links fun_eq_iff)
  next
    fix q p assume c: "item_next n = Some q" "item_prev n = Some p"
    obtain k where k: "h q = Some k" "q \<noteq> x" using near[of q] c by auto
    obtain m where m: "h p = Some m" "p \<noteq> x" using near[of p] c by auto
    show thesis
    proof (cases "p = q")
      case True
      then show thesis using n c k by (intro that, simp add: LIST_REMOVE_def) (auto simp: links fun_eq_iff)
    next
      case False
      then show thesis using n c k m by (intro that, simp add: LIST_REMOVE_def) (auto simp: links fun_eq_iff)
    qed
  qed
  have x': "x \<notin> set (remove1 x as)" using t by (simp add: chain_def)
  have "items_at h' head' (remove1 x as)"
    unfolding h'(2)
  proof (rule items_atI[OF _ h'(4,5,3)])
    show "chain ((case prev_of h x of None \<Rightarrow> next_of h | Some y \<Rightarrow> (next_of h)(y := next_of h x))(x := None))
        ((case next_of h x of None \<Rightarrow> prev_of h | Some y \<Rightarrow> (prev_of h)(y := prev_of h x))(x := None))
        (if prev_of h x = None then next_of h x else head) (remove1 x as) (if next_of h x = None then prev_of h x else t)"
      using chain_remove1[OF t x] x' by (simp add: chain_def)
    show "a \<in> set (remove1 x as) \<Longrightarrow> h a \<noteq> None" for a
      using l by (auto simp: items_at_def dest: notin_set_remove1)
  qed
  moreover have "LIST_JUST_US (Some x) h' = Inr True"
  proof -
    obtain m where m: "h' x = Some m" using fun_cong[OF h'(3), of x] n by (auto simp: body_of_def)
    then have "item_next m = None" "item_prev m = None"
      using fun_cong[OF h'(4), of x] fun_cong[OF h'(5), of x] by (simp_all add: links)
    then show ?thesis using m by (simp add: LIST_JUST_US_def)
  qed
  ultimately show ?thesis using h' by auto
qed


section \<open>The loops\<close>

fun path :: "('a list_item \<Rightarrow> ptr) \<Rightarrow> 'a items \<Rightarrow> ptr \<Rightarrow> nat list \<Rightarrow> bool" where
  "path step h p [] \<longleftrightarrow> p = None"
| "path step h p (a # as) \<longleftrightarrow> p = Some a \<and> (\<exists>n. h a = Some n \<and> path step h (step n) as)"

lemma walk_path: "path step h p as \<Longrightarrow> walk step p h = Some (Inr as)"
proof (induction as arbitrary: p)
  case Nil
  then show ?case by (simp add: walk.simps)
next
  case (Cons a as)
  then show ?case by (subst walk.simps) auto
qed

lemma walk_end_path: "path step h (Some a) (a # as) \<Longrightarrow> walk_end step (Some a) h = Some (Inr (Some (last (a # as))))"
proof (induction as arbitrary: a)
  case Nil
  then show ?case by (subst walk_end.simps) auto
next
  case (Cons b as)
  then show ?case by (subst walk_end.simps) auto
qed

lemma path_forward:
  assumes "dseg (next_of h) pv p b as None t" "\<And>a. a \<in> set as \<Longrightarrow> h a \<noteq> None"
  shows "path item_next h p as"
  using assms
proof (induction as arbitrary: p b)
  case (Cons a as)
  obtain n where "h a = Some n" using Cons.prems(2)[of a] by auto
  then show ?case using Cons by (auto simp: links)
qed simp

lemma path_backward:
  assumes "dseg nx (prev_of h) p None as q t" "\<And>a. a \<in> set as \<Longrightarrow> h a \<noteq> None"
  shows "path item_prev h t (rev as)"
  using assms
proof (induction as arbitrary: q t rule: rev_induct)
  case (snoc a as)
  obtain m s where s: "dseg nx (prev_of h) p None as m s" "dseg nx (prev_of h) m s [a] q t"
    using snoc.prems(1) by (auto simp: dseg_append)
  obtain n where n: "h a = Some n" using snoc.prems(2)[of a] by auto
  have "path item_prev h s (rev as)" using snoc.IH[OF s(1)] snoc.prems(2) by auto
  then show ?case using s(2) n by (auto simp: links)
qed simp

lemma items_at_paths:
  assumes "items_at h head (as @ x # cs)"
  shows "path item_next h (Some x) (x # cs)" "path item_prev h (Some x) (x # rev as)"
proof -
  obtain t where "dseg (next_of h) (prev_of h) head None (as @ x # cs) None t"
    using assms by (auto simp: items_at_def chain_def)
  then obtain m s where m: "dseg (next_of h) (prev_of h) head None as m s"
    "dseg (next_of h) (prev_of h) m s (x # cs) None t" by (auto simp: dseg_append)
  have a: "\<And>a. a \<in> set (as @ x # cs) \<Longrightarrow> h a \<noteq> None" using assms by (auto simp: items_at_def)
  from m(2) have "m = Some x" by simp
  with m(2) show "path item_next h (Some x) (x # cs)" by (intro path_forward) (use a in auto)
  obtain n where n: "h x = Some n" using a[of x] by auto
  have "path item_prev h s (rev as)" by (rule path_backward[OF m(1)]) (use a in auto)
  then show "path item_prev h (Some x) (x # rev as)" using m(2) n by (auto simp: links)
qed

lemma foreach_items: "items_at h head as \<Longrightarrow> LIST_FOREACH head h = Inr as"
proof (cases as)
  case (Cons a bs)
  assume l: "items_at h head as"
  then have "walk item_next head h = Some (Inr as)"
    using items_at_paths(1)[of h head "[]" a bs] items_at_head[OF l] l Cons by (intro walk_path) simp
  then show ?thesis by (simp add: LIST_FOREACH_def result_of_def)
qed (simp add: LIST_FOREACH_def result_of_def walk.simps)

text \<open>What the remaining loops visit, seen from the item \<open>x\<close> of a list.\<close>

lemma find_ends:
  assumes "items_at h head (as @ x # cs)"
  shows "LIST_FIND_HEAD (Some x) h = Inr head" "LIST_FIND_TAIL (Some x) h = Inr (Some (last (x # cs)))"
proof -
  have "last (x # rev as) = hd (as @ x # cs)" by (cases as) auto
  moreover have "head = Some (hd (as @ x # cs))" using items_at_head[OF assms] by (cases as) auto
  ultimately show "LIST_FIND_HEAD (Some x) h = Inr head"
    using walk_end_path[OF items_at_paths(2)[OF assms]] by (simp add: LIST_FIND_HEAD_def result_of_def)
  show "LIST_FIND_TAIL (Some x) h = Inr (Some (last (x # cs)))"
    using walk_end_path[OF items_at_paths(1)[OF assms]] by (simp add: LIST_FIND_TAIL_def result_of_def)
qed

lemma foreach_sides:
  assumes "items_at h head (as @ x # cs)"
  shows "LIST_FOREACH_BEFORE (Some x) h = Inr (rev as)" "LIST_FOREACH_AFTER (Some x) h = Inr cs"
  using items_at_paths[OF assms]
  by (auto simp: LIST_FOREACH_BEFORE_def LIST_FOREACH_AFTER_def result_of_def dest!: walk_path)

lemma loop_until_end:
  assumes "path item_next h p (as @ bs)" "item \<notin> Some ` set as"
    "\<And>q. path item_next h q bs \<Longrightarrow> loop_until head item (if bs = [] then head else q) h = Some (Inr r)"
    "as \<noteq> []"
  shows "loop_until head item p h = Some (Inr (as @ r))"
  using assms
proof (induction as arbitrary: p)
  case (Cons a as)
  then obtain n where n: "p = Some a" "h a = Some n" "path item_next h (item_next n) (as @ bs)" by auto
  have "loop_until head item (if item_next n \<noteq> None then item_next n else head) h = Some (Inr (as @ r))"
  proof (cases "as = []")
    case True
    with Cons.prems(3)[of "item_next n"] n show ?thesis by (cases bs) auto
  next
    case False
    then have "item_next n \<noteq> None" using n(3) by (cases as) auto
    then show ?thesis using Cons.IH[OF n(3)] Cons.prems False by auto
  qed
  then show ?case using n Cons.prems(2) by (subst loop_until.simps) auto
qed simp

lemma loop_but_one:
  assumes "items_at h head (as @ x # cs)"
  shows "LIST_LOOP_BUT_ONE head (Some x) h = Inr (cs @ as)"
proof -
  have d: "distinct (as @ x # cs)" using assms by (auto simp: items_at_def chain_def)
  have stop: "loop_until head (Some x) (Some x) h = Some (Inr [])" by (subst loop_until.simps) simp
  obtain n where n: "h x = Some n" "path item_next h (item_next n) cs" using items_at_paths(1)[OF assms] by auto
  have first: "loop_until head (Some x) head h = Some (Inr as)"
  proof (cases as)
    case Nil
    then show ?thesis using stop items_at_head[OF assms] by simp
  next
    case (Cons a bs)
    have "path item_next h head (as @ x # cs)"
      using items_at_paths(1)[of h head "[]" a "bs @ x # cs"] assms items_at_head[OF assms] Cons by simp
    from loop_until_end[OF this, of "Some x" head "[]"] show ?thesis using d stop Cons by auto
  qed
  have "loop_until head (Some x) (if item_next n \<noteq> None then item_next n else head) h = Some (Inr (cs @ as))"
  proof (cases cs)
    case Nil
    then show ?thesis using n first by simp
  next
    case (Cons c ds)
    have "path item_next h (item_next n) (cs @ [])" using n by simp
    from loop_until_end[OF this, of "Some x" head as] show ?thesis using d first n Cons by auto
  qed
  then show ?thesis using n by (simp add: LIST_LOOP_BUT_ONE_def result_of_def)
qed


text \<open>Freeing the items of a list one after the other, as the daemon does at its end.\<close>

definition free_item :: "nat \<Rightarrow> 'a items \<Rightarrow> 'a items res" where
  "free_item a h = (if h a = None then Inl DoubleFree else Inr (h(a := None)))"

lemma path_free: "a \<notin> set as \<Longrightarrow> path step (h(a := None)) p as = path step h p as"
  by (induction as arbitrary: p) auto

lemma free_all_items:
  assumes "items_at h head as"
  shows "LIST_FOREACH_SAFE free_item head h = Inr (\<lambda>a. if a \<in> set as then None else h a)"
proof -
  have "path item_next h p as \<Longrightarrow> distinct as \<Longrightarrow>
      foreach_safe free_item p h = Some (Inr (\<lambda>a. if a \<in> set as then None else h a))" for p
  proof (induction as arbitrary: p h)
    case Nil
    then show ?case by (simp add: foreach_safe.simps)
  next
    case (Cons a as)
    then obtain n where n: "p = Some a" "h a = Some n" "path item_next (h(a := None)) (item_next n) as"
      by (auto simp: path_free)
    have "foreach_safe free_item p h = foreach_safe free_item (item_next n) (h(a := None))"
      using n by (subst foreach_safe.simps) (simp add: free_item_def)
    moreover have "(\<lambda>x. if x \<in> set as then None else (h(a := None)) x) =
        (\<lambda>x. if x \<in> set (a # as) then None else h x)" by (auto simp: fun_eq_iff)
    ultimately show ?case using Cons.IH[OF n(3)] Cons.prems by (simp only: distinct.simps)
  qed
  moreover have "path item_next h head as" "distinct as"
    using assms by (auto simp: items_at_def chain_def intro: path_forward)
  ultimately show ?thesis by (simp add: LIST_FOREACH_SAFE_def result_of_def)
qed

section \<open>The clients of the daemon\<close>

text \<open>
  What the daemon does with its list: a client that is accepted gets a zeroed block (at an address
  that is free) and is put in front; a client that leaves is taken out and its block freed.
\<close>

datatype 'a client_step = Accept nat 'a | Leave nat

definition accept_item :: "nat \<Rightarrow> 'a \<Rightarrow> ptr \<times> 'a items \<Rightarrow> (ptr \<times> 'a items) res" where
  "accept_item cl x s =
     (let (head, h) = s; h = h(cl := Some \<lparr>item_next = None, item_prev = None, item_body = x\<rparr>)
      in bindE (LIST_INIT (Some cl) h) (\<lambda>h. LIST_PREPEND head (Some cl) h))"

definition leave_item :: "nat \<Rightarrow> ptr \<times> 'a items \<Rightarrow> (ptr \<times> 'a items) res" where
  "leave_item cl s =
     bindE (LIST_REMOVE (fst s) (Some cl) (snd s)) (\<lambda>(head, h).
     bindE (free_item cl h) (\<lambda>h. Inr (head, h)))"

fun run_clients :: "'a client_step list \<Rightarrow> ptr \<times> 'a items \<Rightarrow> (ptr \<times> 'a items) res" where
  "run_clients [] s = Inr s"
| "run_clients (Accept cl x # steps) s = bindE (accept_item cl x s) (run_clients steps)"
| "run_clients (Leave cl # steps) s = bindE (leave_item cl s) (run_clients steps)"

text \<open>The same on a list of addresses and bodies, the newest client first, as in \<open>Connections\<close>.\<close>

fun seq_clients :: "'a client_step list \<Rightarrow> (nat \<times> 'a) list \<Rightarrow> (nat \<times> 'a) list" where
  "seq_clients [] xs = xs"
| "seq_clients (Accept cl x # steps) xs = seq_clients steps ((cl, x) # xs)"
| "seq_clients (Leave cl # steps) xs = seq_clients steps (filter (\<lambda>c. fst c \<noteq> cl) xs)"

text \<open>\<open>malloc\<close> gives a block that is not in use, and only a client that is there leaves.\<close>

fun steps_ok :: "'a client_step list \<Rightarrow> nat list \<Rightarrow> bool" where
  "steps_ok [] used \<longleftrightarrow> True"
| "steps_ok (Accept cl x # steps) used \<longleftrightarrow> cl \<notin> set used \<and> steps_ok steps (cl # used)"
| "steps_ok (Leave cl # steps) used \<longleftrightarrow> cl \<in> set used \<and> steps_ok steps (remove1 cl used)"

definition clients_at :: "ptr \<times> 'a items \<Rightarrow> (nat \<times> 'a) list \<Rightarrow> bool" where
  "clients_at s xs \<longleftrightarrow> items_at (snd s) (fst s) (map fst xs) \<and>
     (\<forall>a. body_of (snd s) a = map_of xs a)"

lemma map_of_filter_ne: "map_of (filter (\<lambda>c. fst c \<noteq> k) xs) = (map_of xs)(k := None)"
  by (induction xs) (auto simp: fun_eq_iff)

lemma accept_item_ok:
  assumes s: "clients_at s xs" and new: "cl \<notin> set (map fst xs)"
  shows "\<exists>s'. accept_item cl x s = Inr s' \<and> clients_at s' ((cl, x) # xs)"
proof -
  obtain head h where hs: "s = (head, h)" by (cases s)
  let ?n = "\<lparr>item_next = None, item_prev = None, item_body = x\<rparr>"
  let ?h = "h(cl := Some ?n)"
  have l: "items_at ?h head (map fst xs)"
    using s new by (simp add: clients_at_def hs items_at_upd)
  obtain h1 where h1: "LIST_INIT (Some cl) ?h = Inr h1" "items_at h1 head (map fst xs)" "body_of h1 = body_of ?h"
    using init_ok[OF l _ new, of ?n] by auto
  obtain m where m: "h1 cl = Some m" using fun_cong[OF h1(3), of cl] by (auto simp: body_of_def)
  obtain h2 where h2: "LIST_PREPEND head (Some cl) h1 = Inr (Some cl, h2)" "items_at h2 (Some cl) (cl # map fst xs)"
    "body_of h2 = body_of h1"
    using list_prepend_ok[OF h1(2) m new] by blast
  have "body_of h2 a = map_of ((cl, x) # xs) a" for a
    using s by (simp add: h1 h2 links clients_at_def hs)
  then show ?thesis using h1 h2 by (simp add: accept_item_def hs Let_def clients_at_def)
qed

lemma leave_item_ok:
  assumes s: "clients_at s xs" and old: "cl \<in> set (map fst xs)"
  shows "\<exists>s'. leave_item cl s = Inr s' \<and> clients_at s' (filter (\<lambda>c. fst c \<noteq> cl) xs)"
proof -
  obtain head h where hs: "s = (head, h)" by (cases s)
  have l: "items_at h head (map fst xs)" and d: "distinct (map fst xs)"
    using s by (auto simp: clients_at_def hs items_at_def chain_def)
  obtain head' h' where r: "LIST_REMOVE head (Some cl) h = Inr (head', h')"
    "items_at h' head' (remove1 cl (map fst xs))" "body_of h' = body_of h"
    using remove_item_ok[OF l old] by blast
  have rest: "remove1 cl (map fst xs) = map fst (filter (\<lambda>c. fst c \<noteq> cl) xs)"
    using d by (simp add: distinct_remove1_removeAll removeAll_filter_not_eq filter_map comp_def eq_commute)
  have "items_at (h'(cl := None)) head' (map fst (filter (\<lambda>c. fst c \<noteq> cl) xs))"
  proof -
    have "chain (next_of (h'(cl := None))) (prev_of (h'(cl := None))) head' (remove1 cl (map fst xs)) t =
        chain (next_of h') (prev_of h') head' (remove1 cl (map fst xs)) t" for t
      by (rule chain_cong) (use d in \<open>auto simp: next_of_def prev_of_def\<close>)
    then show ?thesis using r(2) rest d by (auto simp: items_at_def)
  qed
  moreover have "body_of (h'(cl := None)) a = map_of (filter (\<lambda>c. fst c \<noteq> cl) xs) a" for a
    using s fun_cong[OF r(3), of a] by (auto simp: clients_at_def hs body_of_def map_of_filter_ne)
  moreover obtain n where "h cl = Some n" using items_at_item[OF l old] by blast
  then have "h' cl \<noteq> None" using fun_cong[OF r(3), of cl] by (auto simp: body_of_def)
  ultimately show ?thesis using r(1) by (simp add: leave_item_def hs free_item_def clients_at_def)
qed

lemma run_clients_ok:
  assumes "clients_at s xs" "steps_ok steps (map fst xs)"
  shows "\<exists>s'. run_clients steps s = Inr s' \<and> clients_at s' (seq_clients steps xs)"
  using assms
proof (induction steps arbitrary: s xs)
  case (Cons step steps)
  show ?case
  proof (cases step)
    case (Accept cl x)
    then obtain s' where "accept_item cl x s = Inr s'" "clients_at s' ((cl, x) # xs)"
      using accept_item_ok[OF Cons.prems(1), of cl x] Cons.prems(2) by auto
    then show ?thesis using Cons.IH[of s' "(cl, x) # xs"] Cons.prems(2) Accept by simp
  next
    case (Leave cl)
    then obtain s' where s': "leave_item cl s = Inr s'" "clients_at s' (filter (\<lambda>c. fst c \<noteq> cl) xs)"
      using leave_item_ok[OF Cons.prems(1), of cl] Cons.prems(2) by auto
    have "distinct (map fst xs)" using Cons.prems(1) by (auto simp: clients_at_def items_at_def chain_def)
    then have "remove1 cl (map fst xs) = map fst (filter (\<lambda>c. fst c \<noteq> cl) xs)"
      by (simp add: distinct_remove1_removeAll removeAll_filter_not_eq filter_map comp_def eq_commute)
    then show ?thesis using Cons.IH[OF s'(2)] Cons.prems(2) Leave s'(1) by simp
  qed
qed simp

text \<open>C35. However clients come and go, the pointers of the list macros run through exactly the
  clients that are there, the newest first: the loop over the list visits them in that order with
  their contents in place, no pointer is followed to a block that was freed, and freeing the
  list at the end leaves no client behind.\<close>

theorem client_list_scripts:
  assumes "steps_ok steps []"
  shows "\<exists>head h. run_clients steps (LIST_HEAD_INIT, \<lambda>_. None) = Inr (head, h) \<and>
     LIST_FOREACH head h = Inr (map fst (seq_clients steps [])) \<and>
     (\<forall>a. map_option item_body (h a) = map_of (seq_clients steps []) a) \<and>
     LIST_FOREACH_SAFE free_item head h = Inr (\<lambda>_. None)"
proof -
  have "clients_at (LIST_HEAD_INIT, \<lambda>_. None) ([] :: (nat \<times> 'a) list)"
    by (simp add: clients_at_def LIST_HEAD_INIT_def body_of_def)
  from run_clients_ok[OF this] assms obtain head h where
    r: "run_clients steps (LIST_HEAD_INIT, \<lambda>_. None) = Inr (head, h)" "clients_at (head, h) (seq_clients steps [])"
    by (metis (no_types, lifting) list.map(1) surj_pair)
  then have l: "items_at h head (map fst (seq_clients steps []))"
    and b: "\<And>a. map_option item_body (h a) = map_of (seq_clients steps []) a"
    by (auto simp: clients_at_def body_of_def)
  have "h a = None" if "a \<notin> set (map fst (seq_clients steps []))" for a
    using b[of a] that by (metis map_of_eq_None_iff list.set_map option.map_disc_iff)
  then have "(\<lambda>a. if a \<in> set (map fst (seq_clients steps [])) then None else h a) = (\<lambda>_. None)"
    by (auto simp: fun_eq_iff)
  with free_all_items[OF l] have "LIST_FOREACH_SAFE free_item head h = Inr (\<lambda>_. None)" by simp
  then show ?thesis using r(1) foreach_items[OF l] b by blast
qed

theorem client_list_scripts_witness:
  "\<exists>head h. run_clients [Accept 8 ''a'', Accept 16 ''b'', Accept 24 ''c'', Leave 16, Accept 16 ''d''] (LIST_HEAD_INIT, \<lambda>_. None) =
       Inr (head, h) \<and>
     LIST_FOREACH head h = Inr [16, 24, 8] \<and> map_option item_body (h 16) = Some ''d'' \<and>
     LIST_FOREACH_SAFE free_item head h = Inr (\<lambda>_. None)"
  using client_list_scripts[of "[Accept 8 ''a'', Accept 16 ''b'', Accept 24 ''c'', Leave 16, Accept 16 ''d'']"]
  by (auto split: if_splits)

end
