(* ===== verification/Dictionary.thy ===== *)
theory Dictionary
  imports Hashmap
begin

text \<open>
  The dictionary of the configuration parser, \<open>src/shared/dictionary.c\<close>: three parallel arrays of keys,
  values and hashes, with empty slots, that double when they are full. Strings are their bytes without
  the NUL; \<open>None\<close> is a NULL pointer. The result of a lookup is \<open>None\<close> where the code returns \<open>def\<close>.
\<close>

unbundle bit_operations_syntax

section \<open>The arrays\<close>

record dictionary =
  dict_n :: nat
  dict_size :: nat
  dict_vals :: "bytes option list"
  dict_keys :: "bytes option list"
  dict_hashes :: "32 word list"

abbreviation (input) "DICTMINSZ \<equiv> 128 :: nat"

definition slot :: "'a list \<Rightarrow> nat \<Rightarrow> 'a res" where
  "slot xs i = (if i < length xs then Inr (xs ! i) else Inl OutOfBounds)"

definition put_slot :: "'a list \<Rightarrow> nat \<Rightarrow> 'a \<Rightarrow> 'a list res" where
  "put_slot xs i x = (if i < length xs then Inr (xs[i := x]) else Inl OutOfBounds)"

text \<open>Twice the room for an array of \<open>n\<close> elements; \<open>z\<close> is an element of zero bytes.\<close>

definition mem_double :: "'a \<Rightarrow> nat \<Rightarrow> 'a list \<Rightarrow> 'a list res" where
  "mem_double z n xs = (if length xs < n then Inl OutOfBounds else Inr (take n xs @ replicate n z))"

definition dictionary_hash :: "bytes \<Rightarrow> 32 word" where
  "dictionary_hash key =
     (let hash = fold (\<lambda>c hash.
            let hash = hash + signed_char c; hash = hash + push_bit 10 hash
            in hash XOR drop_bit 6 hash) key 0;
          hash = hash + push_bit 3 hash;
          hash = hash XOR drop_bit 11 hash
      in hash + push_bit 15 hash)"

definition dictionary_new :: "nat \<Rightarrow> dictionary" where
  "dictionary_new sz =
     (let sz = (if sz < DICTMINSZ then DICTMINSZ else sz)
      in \<lparr>dict_n = 0, dict_size = sz, dict_vals = replicate sz None, dict_keys = replicate sz None,
          dict_hashes = replicate sz 0\<rparr>)"

section \<open>Operations\<close>

text \<open>
  The loop over the slots that every operation starts with: \<open>n\<close> slots from \<open>i\<close> on. The index is a natural
  number; the \<open>int i\<close> of the source counts the same up to 2147483648 slots, which no configuration file reaches.
\<close>

fun find_from :: "dictionary \<Rightarrow> bytes \<Rightarrow> 32 word \<Rightarrow> nat \<Rightarrow> nat \<Rightarrow> nat option res" where
  "find_from d key hash 0 i = Inr None"
| "find_from d key hash (Suc n) i =
     bindE (slot (dict_keys d) i) (\<lambda>k. case k of
         None \<Rightarrow> find_from d key hash n (Suc i)
       | Some s \<Rightarrow> bindE (slot (dict_hashes d) i) (\<lambda>h.
           if h = hash \<and> s = key then Inr (Some i) else find_from d key hash n (Suc i)))"

definition find_slot :: "dictionary \<Rightarrow> bytes \<Rightarrow> nat option res" where
  "find_slot d key = find_from d key (dictionary_hash key) (dict_size d) 0"

definition dictionary_get :: "dictionary \<Rightarrow> bytes \<Rightarrow> bytes option option res" where
  "dictionary_get d key = bindE (find_slot d key) (\<lambda>r. case r of
       None \<Rightarrow> Inr None
     | Some i \<Rightarrow> bindE (slot (dict_vals d) i) (\<lambda>v. Inr (Some v)))"

text \<open>The search for an empty slot, which goes round at the end of the arrays.\<close>

partial_function (option) free_slot :: "bytes option list \<Rightarrow> nat \<Rightarrow> nat \<Rightarrow> nat res option" where
  [code]: "free_slot keys sz i =
     (if length keys \<le> i then Some (Inl OutOfBounds)
      else if keys ! i = None then Some (Inr i)
      else free_slot keys sz (if Suc i = sz then 0 else Suc i))"

definition grow :: "dictionary \<Rightarrow> dictionary res" where
  "grow d =
     bindE (mem_double None (dict_size d) (dict_vals d)) (\<lambda>vals.
     bindE (mem_double None (dict_size d) (dict_keys d)) (\<lambda>keys.
     bindE (mem_double 0 (dict_size d) (dict_hashes d)) (\<lambda>hashes.
       Inr (d\<lparr>dict_size := dict_size d * 2, dict_vals := vals, dict_keys := keys, dict_hashes := hashes\<rparr>))))"

definition fill_slot :: "dictionary \<Rightarrow> nat \<Rightarrow> bytes \<Rightarrow> bytes option \<Rightarrow> dictionary res" where
  "fill_slot d i key val =
     bindE (put_slot (dict_keys d) i (Some key)) (\<lambda>keys.
     bindE (put_slot (dict_vals d) i val) (\<lambda>vals.
     bindE (put_slot (dict_hashes d) i (dictionary_hash key)) (\<lambda>hashes.
       Inr (d\<lparr>dict_keys := keys, dict_vals := vals, dict_hashes := hashes, dict_n := dict_n d + 1\<rparr>))))"

definition dict_set :: "dictionary \<Rightarrow> bytes \<Rightarrow> bytes option \<Rightarrow> (int \<times> dictionary) res" where
  "dict_set d key val =
     bindE (if 0 < dict_n d then find_slot d key else Inr None) (\<lambda>r. case r of
         Some i \<Rightarrow> bindE (put_slot (dict_vals d) i val) (\<lambda>vals. Inr (0, d\<lparr>dict_vals := vals\<rparr>))
       | None \<Rightarrow>
           bindE (if dict_n d = dict_size d then grow d else Inr d) (\<lambda>d1.
             case free_slot (dict_keys d1) (dict_size d1) (dict_n d1) of
               None \<Rightarrow> Inl Diverges
             | Some f \<Rightarrow> bindE f (\<lambda>i. bindE (fill_slot d1 i key val) (\<lambda>d2. Inr (0, d2)))))"

definition dictionary_set :: "dictionary option \<Rightarrow> bytes \<Rightarrow> bytes option \<Rightarrow> (int \<times> dictionary option) res" where
  "dictionary_set d key val = (case d of
       None \<Rightarrow> Inr (- 1, None)
     | Some d \<Rightarrow> bindE (dict_set d key val) (\<lambda>(r, d'). Inr (r, Some d')))"

definition dict_unset :: "dictionary \<Rightarrow> bytes \<Rightarrow> dictionary res" where
  "dict_unset d key = bindE (find_slot d key) (\<lambda>r. case r of
       None \<Rightarrow> Inr d
     | Some i \<Rightarrow>
         bindE (put_slot (dict_keys d) i None) (\<lambda>keys.
         bindE (put_slot (dict_vals d) i None) (\<lambda>vals.
         bindE (put_slot (dict_hashes d) i 0) (\<lambda>hashes.
           Inr (d\<lparr>dict_keys := keys, dict_vals := vals, dict_hashes := hashes, dict_n := dict_n d - 1\<rparr>)))))"

definition dictionary_unset :: "dictionary option \<Rightarrow> bytes \<Rightarrow> dictionary option res" where
  "dictionary_unset d key = (case d of
       None \<Rightarrow> Inr None | Some d \<Rightarrow> bindE (dict_unset d key) (\<lambda>d'. Inr (Some d')))"

text \<open>The used slots in their order.\<close>

definition used_slots :: "bytes option list \<Rightarrow> 'v list \<Rightarrow> (bytes \<times> 'v) list" where
  "used_slots ks vs = List.map_filter (\<lambda>(k, v). map_option (\<lambda>s. (s, v)) k) (zip ks vs)"

definition dict_entries :: "dictionary \<Rightarrow> (bytes \<times> bytes option) list" where
  "dict_entries d = used_slots (dict_keys d) (dict_vals d)"

text \<open>What \<open>dictionary_dump\<close> prints: keys are right-aligned in 20 columns.\<close>

definition dump_line :: "bytes \<Rightarrow> bytes option \<Rightarrow> bytes" where
  "dump_line k v = replicate (20 - length k) CHR '' '' @ k @ [CHR 0x09, CHR ''[''] @
     (case v of None \<Rightarrow> ''UNDEF'' | Some s \<Rightarrow> s) @ [CHR '']'', CHR 0x0A]"

definition dictionary_dump :: "dictionary option \<Rightarrow> bytes" where
  "dictionary_dump d = (case d of
       None \<Rightarrow> []
     | Some d \<Rightarrow> if dict_n d < 1 then ''empty dictionary'' @ [CHR 0x0A]
                 else concat (map (\<lambda>(k, v). dump_line k v) (dict_entries d)))"

section \<open>Used slots\<close>

lemma used_slots_simps [simp]:
  "used_slots [] vs = []"
  "used_slots (None # ks) (v # vs) = used_slots ks vs"
  "used_slots (Some k # ks) (v # vs) = (k, v) # used_slots ks vs"
  by (simp_all add: used_slots_def map_filter_simps)

lemma used_slots_append:
  "length ks = length vs \<Longrightarrow> used_slots (ks @ ks') (vs @ vs') = used_slots ks vs @ used_slots ks' vs'"
  by (induction ks vs rule: list_induct2) (auto simp: used_slots_def map_filter_simps split: option.splits)

lemma used_slots_none: "used_slots (replicate n None) vs = []"
  by (induction n arbitrary: vs) (simp_all add: used_slots_def map_filter_simps zip_Cons1 split: list.splits)

text \<open>The slot \<open>i\<close> between the ones before it and the ones behind it.\<close>

lemma used_slots_at:
  assumes "length ks = length vs" "i < length ks"
  shows "used_slots ks vs = used_slots (take i ks) (take i vs) @
      (case ks ! i of None \<Rightarrow> [] | Some k \<Rightarrow> [(k, vs ! i)]) @ used_slots (drop (Suc i) ks) (drop (Suc i) vs)"
proof -
  have "ks = take i ks @ ks ! i # drop (Suc i) ks" "vs = take i vs @ vs ! i # drop (Suc i) vs"
    using assms by (simp_all add: id_take_nth_drop)
  then have "used_slots ks vs = used_slots (take i ks @ ks ! i # drop (Suc i) ks) (take i vs @ vs ! i # drop (Suc i) vs)"
    by simp
  also have "\<dots> = used_slots (take i ks) (take i vs) @ used_slots (ks ! i # drop (Suc i) ks) (vs ! i # drop (Suc i) vs)"
    by (rule used_slots_append) (simp add: assms(1))
  finally show ?thesis by (cases "ks ! i") simp_all
qed

lemma used_slots_update:
  assumes "length ks = length vs" "i < length ks"
  shows "used_slots (ks[i := a]) (vs[i := b]) = used_slots (take i ks) (take i vs) @
      (case a of None \<Rightarrow> [] | Some k \<Rightarrow> [(k, b)]) @ used_slots (drop (Suc i) ks) (drop (Suc i) vs)"
  using used_slots_at[of "ks[i := a]" "vs[i := b]" i] assms by (cases a) simp_all

lemma used_slots_nth:
  assumes "length ks = length vs"
  shows "(k, v) \<in> set (used_slots ks vs) \<longleftrightarrow> (\<exists>i<length ks. ks ! i = Some k \<and> vs ! i = v)"
proof -
  have "(k, v) \<in> set (used_slots ks vs) \<longleftrightarrow> (Some k, v) \<in> set (zip ks vs)"
    using assms by (induction ks vs rule: list_induct2) (auto simp: used_slots_def map_filter_simps split: option.splits)
  then show ?thesis using assms by (auto simp: set_zip)
qed

lemma length_used_slots: "length ks = length vs \<Longrightarrow> length (used_slots ks vs) \<le> length ks"
  by (induction ks vs rule: list_induct2) (auto simp: used_slots_def map_filter_simps split: option.splits)

lemma used_slots_full:
  "length ks = length vs \<Longrightarrow> None \<notin> set ks \<Longrightarrow> length (used_slots ks vs) = length ks"
  by (induction ks vs rule: list_induct2) (auto simp: used_slots_def map_filter_simps split: option.splits, metis not_None_eq)

lemma hm_set_absent: "k \<notin> fst ` set m \<Longrightarrow> hm_set m k v = m"
  by (induction m) (auto simp: hm_set_def)

section \<open>The invariant\<close>

definition dict_ok :: "dictionary \<Rightarrow> bool" where
  "dict_ok d \<longleftrightarrow> 0 < dict_size d \<and> length (dict_keys d) = dict_size d \<and> length (dict_vals d) = dict_size d \<and>
     length (dict_hashes d) = dict_size d \<and> dict_n d = length (dict_entries d) \<and> hm_ok (dict_entries d) \<and>
     (\<forall>i<dict_size d. \<forall>k. dict_keys d ! i = Some k \<longrightarrow> dict_hashes d ! i = dictionary_hash k)"

lemma dict_ok_new: "dict_ok (dictionary_new sz)" "dict_entries (dictionary_new sz) = []"
  by (simp_all add: dict_ok_def dictionary_new_def dict_entries_def used_slots_none hm_ok_def Let_def)

lemma dict_entries_iff:
  "dict_ok d \<Longrightarrow> (k, v) \<in> set (dict_entries d) \<longleftrightarrow> (\<exists>i<dict_size d. dict_keys d ! i = Some k \<and> dict_vals d ! i = v)"
  by (simp add: dict_ok_def dict_entries_def used_slots_nth)

text \<open>The search finds the slot of the key, if there is one.\<close>

lemma find_from_ok:
  assumes "dict_ok d" "i + n = dict_size d"
  shows "find_from d key (dictionary_hash key) n i =
    Inr (if \<exists>j\<ge>i. j < dict_size d \<and> dict_keys d ! j = Some key
         then Some (LEAST j. i \<le> j \<and> dict_keys d ! j = Some key) else None)"
  using assms(2)
proof (induction n arbitrary: i)
  case 0
  then show ?case by auto
next
  case (Suc n)
  have i: "i < dict_size d" using Suc.prems by simp
  have l: "slot (dict_keys d) i = Inr (dict_keys d ! i)" "slot (dict_hashes d) i = Inr (dict_hashes d ! i)"
    using assms(1) i by (simp_all add: slot_def dict_ok_def)
  show ?case
  proof (cases "dict_keys d ! i = Some key")
    case True
    then have "dict_hashes d ! i = dictionary_hash key" using assms(1) i by (simp add: dict_ok_def)
    moreover have "(LEAST j. i \<le> j \<and> dict_keys d ! j = Some key) = i"
      using True by (intro Least_equality) auto
    ultimately show ?thesis using True i l by auto
  next
    case False
    then have "find_from d key (dictionary_hash key) (Suc n) i = find_from d key (dictionary_hash key) n (Suc i)"
      using l by (cases "dict_keys d ! i") auto
    moreover have "i \<le> j \<and> dict_keys d ! j = Some key \<longleftrightarrow> Suc i \<le> j \<and> dict_keys d ! j = Some key" for j
      using False by (metis Suc_leD Suc_leI le_neq_implies_less)
    ultimately show ?thesis using Suc.IH[of "Suc i"] Suc.prems by auto
  qed
qed

lemma find_slot_cases:
  assumes "dict_ok d"
  obtains i where "find_slot d key = Inr (Some i)" "i < dict_size d" "dict_keys d ! i = Some key"
      "hm_get (dict_entries d) key = Some (dict_vals d ! i)"
  | "find_slot d key = Inr None" "hm_get (dict_entries d) key = None"
proof (cases "\<exists>j<dict_size d. dict_keys d ! j = Some key")
  case True
  define i where "i = (LEAST j. dict_keys d ! j = Some key)"
  obtain j where j: "j < dict_size d" "dict_keys d ! j = Some key" using True by blast
  have i: "dict_keys d ! i = Some key" "i \<le> j" unfolding i_def using j(2) by (rule LeastI, rule Least_le)
  moreover have "find_slot d key = Inr (Some i)"
    using find_from_ok[OF assms, of 0 "dict_size d" key] True by (simp add: find_slot_def i_def)
  moreover have "(key, dict_vals d ! i) \<in> set (dict_entries d)"
    using i j(1) by (intro dict_entries_iff[OF assms, THEN iffD2] exI[of _ i]) simp
  then have "hm_get (dict_entries d) key = Some (dict_vals d ! i)"
    using assms by (simp add: hm_get_in_set dict_ok_def)
  ultimately show ?thesis using that(1) j(1) by simp
next
  case False
  then have "find_slot d key = Inr None"
    using find_from_ok[OF assms, of 0 "dict_size d" key] by (simp add: find_slot_def)
  moreover have "hm_get (dict_entries d) key = None"
    using False dict_entries_iff[OF assms, of key] by (force simp: hm_get_None)
  ultimately show ?thesis using that(2) by simp
qed

lemma dictionary_get_ok: "dict_ok d \<Longrightarrow> dictionary_get d key = Inr (hm_get (dict_entries d) key)"
proof -
  assume d: "dict_ok d"
  then have "length (dict_vals d) = dict_size d" by (simp add: dict_ok_def)
  then show "dictionary_get d key = Inr (hm_get (dict_entries d) key)"
    by (cases rule: find_slot_cases[OF d, of key]) (simp_all add: dictionary_get_def slot_def)
qed

text \<open>There is an empty slot in a dictionary that is not full, and the search for it ends.\<close>

lemma free_slot_ends:
  assumes "length keys = sz" "i < sz" "j < sz" "keys ! j = None"
  shows "\<exists>f. free_slot keys sz i = Some (Inr f) \<and> f < sz \<and> keys ! f = None"
  using assms(2)
proof (induction "(j + sz - i) mod sz" arbitrary: i rule: less_induct)
  case less
  show ?case
  proof (cases "keys ! i = None")
    case True
    then show ?thesis using less.prems assms(1) by (subst free_slot.simps) auto
  next
    case False
    let ?i = "if Suc i = sz then 0 else Suc i"
    have ij: "i \<noteq> j" using False assms(4) by auto
    have m: "(j + sz - i) mod sz = (if i \<le> j then j - i else j + sz - i)" if "i < sz" for i
    proof (cases "i \<le> j")
      case True
      then have "j + sz - i = (j - i) + sz" "j - i < sz" using assms(3) by simp_all
      then show ?thesis using True by (metis mod_add_self2 mod_less)
    qed (use that assms(3) in auto)
    have i': "?i < sz" using less.prems by auto
    have "(j + sz - ?i) mod sz < (j + sz - i) mod sz"
      unfolding m[OF i'] m[OF less.prems] using ij less.prems assms(3) by auto
    from less.hyps[OF this i'] show ?thesis
      using False less.prems assms(1) by (subst free_slot.simps) auto
  qed
qed

section \<open>The operations keep the invariant\<close>

lemma replace_value:
  assumes "dict_ok d" "i < dict_size d" "dict_keys d ! i = Some key"
  shows "dict_ok (d\<lparr>dict_vals := (dict_vals d)[i := val]\<rparr>)"
    "dict_entries (d\<lparr>dict_vals := (dict_vals d)[i := val]\<rparr>) = hm_set (dict_entries d) key val"
proof -
  have l: "length (dict_keys d) = length (dict_vals d)" "i < length (dict_keys d)"
    using assms by (simp_all add: dict_ok_def)
  let ?A = "used_slots (take i (dict_keys d)) (take i (dict_vals d))"
  let ?B = "used_slots (drop (Suc i) (dict_keys d)) (drop (Suc i) (dict_vals d))"
  have e: "dict_entries d = ?A @ [(key, dict_vals d ! i)] @ ?B"
    using used_slots_at[OF l] assms(3) by (simp add: dict_entries_def)
  have "(dict_keys d)[i := Some key] = dict_keys d" using assms(3) by (simp add: list_update_same_conv l(2))
  then have e': "dict_entries (d\<lparr>dict_vals := (dict_vals d)[i := val]\<rparr>) = ?A @ [(key, val)] @ ?B"
    using used_slots_update[OF l, of "Some key" val] by (simp add: dict_entries_def)
  have "key \<notin> fst ` set ?A" "key \<notin> fst ` set ?B"
    using assms(1) unfolding dict_ok_def e hm_ok_def by auto
  then have "hm_set ?A key val = ?A" "hm_set ?B key val = ?B"
    by (simp_all add: hm_set_absent)
  then show h: "dict_entries (d\<lparr>dict_vals := (dict_vals d)[i := val]\<rparr>) = hm_set (dict_entries d) key val"
    unfolding e' e by (simp add: hm_set_def)
  have "length (hm_set m key val) = length m" for m :: "(bytes \<times> bytes option) list" by (simp add: hm_set_def)
  then show "dict_ok (d\<lparr>dict_vals := (dict_vals d)[i := val]\<rparr>)"
    using assms(1) hm_ok_set[of "dict_entries d" key val] by (simp add: dict_ok_def h)
qed

lemma grow_ok:
  assumes "dict_ok d"
  obtains d1 where "grow d = Inr d1" "dict_ok d1" "dict_entries d1 = dict_entries d" "dict_n d1 = dict_n d"
    "dict_size d1 = 2 * dict_size d" "take (dict_size d) (dict_keys d1) = dict_keys d"
    "drop (dict_size d) (dict_keys d1) = replicate (dict_size d) None"
proof -
  let ?z = "dict_size d"
  let ?d1 = "d\<lparr>dict_size := ?z * 2, dict_vals := dict_vals d @ replicate ?z None, dict_keys := dict_keys d @ replicate ?z None,
    dict_hashes := dict_hashes d @ replicate ?z 0\<rparr>"
  have l: "length (dict_keys d) = ?z" "length (dict_vals d) = ?z" "length (dict_hashes d) = ?z"
    using assms by (simp_all add: dict_ok_def)
  then have g: "grow d = Inr ?d1" by (simp add: grow_def mem_double_def)
  have e: "dict_entries ?d1 = dict_entries d"
    using l by (simp add: dict_entries_def used_slots_append used_slots_none)
  have "\<forall>i<?z * 2. \<forall>k. (dict_keys d @ replicate ?z None) ! i = Some k \<longrightarrow> (dict_hashes d @ replicate ?z 0) ! i = dictionary_hash k"
    using assms l by (auto simp: nth_append dict_ok_def)
  then have "dict_ok ?d1" using assms l e by (simp add: dict_ok_def)
  then show ?thesis using that[OF g] e l by simp
qed

lemma fill_slot_ok:
  assumes "dict_ok d" "i < dict_size d" "dict_keys d ! i = None" "hm_get (dict_entries d) key = None"
  obtains d2 where "fill_slot d i key val = Inr d2" "dict_ok d2" "dict_keys d2 = (dict_keys d)[i := Some key]"
    "dict_n d2 = dict_n d + 1" "dict_size d2 = dict_size d"
    "map_of (dict_entries d2) = (map_of (dict_entries d))(key \<mapsto> val)"
    "drop (Suc i) (dict_keys d) = replicate (dict_size d - Suc i) None \<Longrightarrow> dict_entries d2 = dict_entries d @ [(key, val)]"
proof -
  have l: "length (dict_keys d) = length (dict_vals d)" "i < length (dict_keys d)"
    using assms by (simp_all add: dict_ok_def)
  let ?A = "used_slots (take i (dict_keys d)) (take i (dict_vals d))"
  let ?B = "used_slots (drop (Suc i) (dict_keys d)) (drop (Suc i) (dict_vals d))"
  let ?d2 = "d\<lparr>dict_keys := (dict_keys d)[i := Some key], dict_vals := (dict_vals d)[i := val],
    dict_hashes := (dict_hashes d)[i := dictionary_hash key], dict_n := dict_n d + 1\<rparr>"
  have f: "fill_slot d i key val = Inr ?d2"
    using assms(1,2) by (simp add: fill_slot_def put_slot_def dict_ok_def)
  have e: "dict_entries d = ?A @ ?B" using used_slots_at[OF l] assms(3) by (simp add: dict_entries_def)
  have e2: "dict_entries ?d2 = ?A @ (key, val) # ?B"
    using used_slots_update[OF l, of "Some key" val] by (simp add: dict_entries_def)
  have k: "key \<notin> fst ` set ?A" "key \<notin> fst ` set ?B" using assms(4) unfolding e hm_get_None by auto
  have "map_of ?A key = None" "map_of ?B key = None" using k by (simp_all add: map_of_eq_None_iff)
  then have m: "map_of (dict_entries ?d2) = (map_of (dict_entries d))(key \<mapsto> val)"
    unfolding e e2 by (auto simp: map_add_def fun_eq_iff split: option.splits)
  have "hm_ok (dict_entries ?d2)" using assms(1) k unfolding dict_ok_def e e2 hm_ok_def by auto
  moreover have "length (dict_entries ?d2) = length (dict_entries d) + 1" unfolding e e2 by simp
  moreover have "(dict_hashes d)[i := dictionary_hash key] ! j = dictionary_hash k"
    if "j < dict_size d" "(dict_keys d)[i := Some key] ! j = Some k" for j k
    using that assms(1,2) by (cases "j = i") (auto simp: dict_ok_def)
  ultimately have ok: "dict_ok ?d2" using assms(1) by (simp add: dict_ok_def)
  show ?thesis
  proof (rule that[OF f ok])
    assume "drop (Suc i) (dict_keys d) = replicate (dict_size d - Suc i) None"
    then have "?B = []" by (simp add: used_slots_none)
    then show "dict_entries ?d2 = dict_entries d @ [(key, val)]" unfolding e e2 by simp
  qed (use m in simp_all)
qed

text \<open>No slot was ever freed: the used slots are the first ones.\<close>

definition compact :: "dictionary \<Rightarrow> bool" where
  "compact d \<longleftrightarrow> drop (dict_n d) (dict_keys d) = replicate (dict_size d - dict_n d) None"

lemma compact_new: "compact (dictionary_new sz)"
  by (simp add: compact_def dictionary_new_def Let_def)

lemma dict_set_ok:
  assumes "dict_ok d"
  obtains d' where "dict_set d key val = Inr (0, d')" "dict_ok d'"
    "map_of (dict_entries d') = (map_of (dict_entries d))(key \<mapsto> val)"
    "compact d \<Longrightarrow> compact d' \<and> dict_entries d' =
       (if hm_get (dict_entries d) key = None then dict_entries d @ [(key, val)] else hm_set (dict_entries d) key val)"
proof -
  have found: "\<exists>d'. dict_set d key val = Inr (0, d') \<and> dict_ok d' \<and> dict_keys d' = dict_keys d \<and> dict_n d' = dict_n d \<and>
      dict_size d' = dict_size d \<and> dict_entries d' = hm_set (dict_entries d) key val"
    if i: "find_slot d key = Inr (Some i)" "i < dict_size d" "dict_keys d ! i = Some key"
      "hm_get (dict_entries d) key = Some (dict_vals d ! i)" for i
  proof -
    have "dict_entries d \<noteq> []" using i(4) by auto
    then have "0 < dict_n d" using assms by (simp add: dict_ok_def)
    then have "dict_set d key val = Inr (0, d\<lparr>dict_vals := (dict_vals d)[i := val]\<rparr>)"
      using i assms by (simp add: dict_set_def put_slot_def dict_ok_def)
    then show ?thesis using replace_value[OF assms i(2,3), of val] by auto
  qed
  show ?thesis
  proof (cases rule: find_slot_cases[OF assms, of key])
    case (1 i)
    obtain d' where d': "dict_set d key val = Inr (0, d')" "dict_ok d'" "dict_keys d' = dict_keys d" "dict_n d' = dict_n d"
      "dict_size d' = dict_size d" "dict_entries d' = hm_set (dict_entries d) key val" using found[OF 1] by blast
    have "map_of (dict_entries d') = (map_of (dict_entries d))(key \<mapsto> val)"
      using hm_get_set[of "dict_entries d" key val] 1(4) by (auto simp: d'(6) hm_get_def fun_eq_iff)
    then show ?thesis using that[OF d'(1,2)] d' 1(4) by (simp add: compact_def)
  next
    case 2
    have "\<exists>d1. (if dict_n d = dict_size d then grow d else Inr d) = Inr d1 \<and> dict_ok d1 \<and> dict_entries d1 = dict_entries d \<and>
        dict_n d1 < dict_size d1 \<and> (compact d \<longrightarrow> compact d1)"
    proof (cases "dict_n d = dict_size d")
      case True
      obtain d1 where g: "grow d = Inr d1" "dict_ok d1" "dict_entries d1 = dict_entries d" "dict_n d1 = dict_n d"
        "dict_size d1 = 2 * dict_size d" "drop (dict_size d) (dict_keys d1) = replicate (dict_size d) None"
        by (rule grow_ok[OF assms])
      have "0 < dict_size d" using assms by (simp add: dict_ok_def)
      then show ?thesis using g True by (simp add: compact_def)
    next
      case False
      have "length (dict_entries d) \<le> dict_size d"
        using length_used_slots[of "dict_keys d" "dict_vals d"] assms by (simp add: dict_entries_def dict_ok_def)
      then show ?thesis using False assms by (simp add: dict_ok_def)
    qed
    then obtain d1 where d1: "(if dict_n d = dict_size d then grow d else Inr d) = Inr d1" "dict_ok d1"
      "dict_entries d1 = dict_entries d" "dict_n d1 < dict_size d1" "compact d \<Longrightarrow> compact d1" by blast
    have len: "length (dict_keys d1) = dict_size d1" "length (dict_vals d1) = dict_size d1"
      using d1(2) by (simp_all add: dict_ok_def)
    have "\<exists>j<dict_size d1. dict_keys d1 ! j = None"
    proof (rule ccontr)
      assume "\<not> ?thesis"
      then have "None \<notin> set (dict_keys d1)" using len by (auto simp: in_set_conv_nth)
      then have "length (dict_entries d1) = dict_size d1"
        using used_slots_full[of "dict_keys d1" "dict_vals d1"] len by (simp add: dict_entries_def)
      then show False using d1(2,4) by (simp add: dict_ok_def)
    qed
    then obtain j where "j < dict_size d1" "dict_keys d1 ! j = None" by blast
    from free_slot_ends[OF len(1) d1(4) this] obtain f where
      f: "free_slot (dict_keys d1) (dict_size d1) (dict_n d1) = Some (Inr f)" "f < dict_size d1" "dict_keys d1 ! f = None" by blast
    have none: "hm_get (dict_entries d1) key = None" using 2(2) d1(3) by simp
    obtain d2 where d2: "fill_slot d1 f key val = Inr d2" "dict_ok d2" "dict_keys d2 = (dict_keys d1)[f := Some key]"
      "dict_n d2 = dict_n d1 + 1" "dict_size d2 = dict_size d1"
      "map_of (dict_entries d2) = (map_of (dict_entries d1))(key \<mapsto> val)"
      "drop (Suc f) (dict_keys d1) = replicate (dict_size d1 - Suc f) None \<Longrightarrow> dict_entries d2 = dict_entries d1 @ [(key, val)]"
      using fill_slot_ok[OF d1(2) f(2,3) none] by blast
    have "(if 0 < dict_n d then find_slot d key else Inr None) = Inr None" using 2(1) by simp
    then have run: "dict_set d key val = Inr (0, d2)"
      by (simp only: dict_set_def bindE_Inr option.case d1(1) f(1) d2(1))
    show ?thesis
    proof (rule that[OF run d2(2)])
      assume "compact d"
      then have c: "compact d1" by (rule d1(5))
      have "dict_keys d1 ! dict_n d1 = drop (dict_n d1) (dict_keys d1) ! 0" using d1(4) len by simp
      also have "\<dots> = None" using c d1(4) unfolding compact_def by simp
      finally have "free_slot (dict_keys d1) (dict_size d1) (dict_n d1) = Some (Inr (dict_n d1))"
        using d1(4) len by (subst free_slot.simps) simp
      then have fn: "f = dict_n d1" using f(1) by simp
      have "drop (Suc f) (dict_keys d1) = drop 1 (drop f (dict_keys d1))" by simp
      also have "\<dots> = replicate (dict_size d1 - Suc f) None"
        using c unfolding compact_def fn by (simp del: drop_drop)
      finally have dr: "drop (Suc f) (dict_keys d1) = replicate (dict_size d1 - Suc f) None" .
      have "drop (Suc f) (dict_keys d2) = replicate (dict_size d1 - Suc f) None"
        unfolding d2(3) using dr by simp
      then show "compact d2 \<and> dict_entries d2 = (if hm_get (dict_entries d) key = None
          then dict_entries d @ [(key, val)] else hm_set (dict_entries d) key val)"
        using d2(7)[OF dr] d1(3) 2(2) d2(4,5) fn by (simp add: compact_def)
    qed (use d2(6) d1(3) in simp)
  qed
qed

lemma dict_unset_ok:
  assumes "dict_ok d"
  obtains d' where "dict_unset d key = Inr d'" "dict_ok d'" "dict_entries d' = filter (\<lambda>e. fst e \<noteq> key) (dict_entries d)"
proof (cases rule: find_slot_cases[OF assms, of key])
  case (1 i)
  have l: "length (dict_keys d) = length (dict_vals d)" "i < length (dict_keys d)"
    using assms 1(2) by (simp_all add: dict_ok_def)
  let ?A = "used_slots (take i (dict_keys d)) (take i (dict_vals d))"
  let ?B = "used_slots (drop (Suc i) (dict_keys d)) (drop (Suc i) (dict_vals d))"
  let ?d = "d\<lparr>dict_keys := (dict_keys d)[i := None], dict_vals := (dict_vals d)[i := None],
    dict_hashes := (dict_hashes d)[i := 0], dict_n := dict_n d - 1\<rparr>"
  have e: "dict_entries d = ?A @ (key, dict_vals d ! i) # ?B"
    using used_slots_at[OF l] 1(3) by (simp add: dict_entries_def)
  have e': "dict_entries ?d = ?A @ ?B" using used_slots_update[OF l, of None None] by (simp add: dict_entries_def)
  have k: "key \<notin> fst ` set ?A" "key \<notin> fst ` set ?B" using assms unfolding dict_ok_def e hm_ok_def by auto
  then have "filter (\<lambda>e. fst e \<noteq> key) ?A = ?A" "filter (\<lambda>e. fst e \<noteq> key) ?B = ?B"
    by (auto simp: filter_id_conv)
  then have f: "dict_entries ?d = filter (\<lambda>e. fst e \<noteq> key) (dict_entries d)" unfolding e e' by simp
  have "hm_ok (dict_entries ?d)" using assms unfolding dict_ok_def e e' hm_ok_def by auto
  moreover have "dict_n d - 1 = length (dict_entries ?d)"
    using assms unfolding dict_ok_def e' by (simp add: e)
  moreover have "(dict_hashes d)[i := 0] ! j = dictionary_hash k"
    if "j < dict_size d" "(dict_keys d)[i := None] ! j = Some k" for j k
    using that assms l by (cases "j = i") (auto simp: dict_ok_def)
  ultimately have "dict_ok ?d" using assms by (simp add: dict_ok_def)
  moreover have "dict_unset d key = Inr ?d" using 1(1,2) assms by (simp add: dict_unset_def put_slot_def dict_ok_def)
  ultimately show ?thesis using that f by blast
next
  case 2
  have "filter (\<lambda>e. fst e \<noteq> key) (dict_entries d) = dict_entries d"
    using 2(2) by (force simp: hm_get_None filter_id_conv)
  then show ?thesis using that[of d] 2(1) assms by (simp add: dict_unset_def)
qed

section \<open>The contract\<close>

text \<open>
  What the parser relies on: \<open>ents\<close> are the entries in the order of their slots, and \<open>fresh\<close> says that
  no entry was ever removed, so that a new entry comes last.
\<close>

definition assign :: "('k \<times> 'v) list \<Rightarrow> 'k \<Rightarrow> 'v \<Rightarrow> ('k \<times> 'v) list" where
  "assign m k v = (if hm_get m k = None then m @ [(k, v)] else hm_set m k v)"

datatype dict_op = DGet bytes | DSet bytes "bytes option" | DUnset bytes

datatype dict_result = DGot "bytes option option" | DReturned int | DVoid

fun run_strings :: "('d \<Rightarrow> bytes \<Rightarrow> bytes option option res) \<Rightarrow> ('d \<Rightarrow> bytes \<Rightarrow> bytes option \<Rightarrow> (int \<times> 'd) res) \<Rightarrow>
    ('d \<Rightarrow> bytes \<Rightarrow> 'd res) \<Rightarrow> dict_op list \<Rightarrow> 'd \<Rightarrow> dict_result list res" where
  "run_strings get put del [] d = Inr []"
| "run_strings get put del (DGet k # ops) d =
     bindE (get d k) (\<lambda>r. bindE (run_strings get put del ops d) (\<lambda>rs. Inr (DGot r # rs)))"
| "run_strings get put del (DSet k v # ops) d =
     bindE (put d k v) (\<lambda>(r, d'). bindE (run_strings get put del ops d') (\<lambda>rs. Inr (DReturned r # rs)))"
| "run_strings get put del (DUnset k # ops) d =
     bindE (del d k) (\<lambda>d'. bindE (run_strings get put del ops d') (\<lambda>rs. Inr (DVoid # rs)))"

text \<open>The same script on a finite map.\<close>

fun run_map :: "dict_op list \<Rightarrow> (bytes \<Rightarrow> bytes option option) \<Rightarrow> dict_result list" where
  "run_map [] m = []"
| "run_map (DGet k # ops) m = DGot (m k) # run_map ops m"
| "run_map (DSet k v # ops) m = DReturned 0 # run_map ops (m(k \<mapsto> v))"
| "run_map (DUnset k # ops) m = DVoid # run_map ops (m(k := None))"

locale string_table =
  fixes inv :: "'d \<Rightarrow> bool"
    and fresh :: "'d \<Rightarrow> bool"
    and ents :: "'d \<Rightarrow> (bytes \<times> bytes option) list"
    and get :: "'d \<Rightarrow> bytes \<Rightarrow> bytes option option res"
    and put :: "'d \<Rightarrow> bytes \<Rightarrow> bytes option \<Rightarrow> (int \<times> 'd) res"
    and del :: "'d \<Rightarrow> bytes \<Rightarrow> 'd res"
  assumes ents_ok: "inv d \<Longrightarrow> hm_ok (ents d)"
    and get_ents: "inv d \<Longrightarrow> get d k = Inr (map_of (ents d) k)"
    and put_ents: "inv d \<Longrightarrow> \<exists>d'. put d k v = Inr (0, d') \<and> inv d' \<and>
      map_of (ents d') = (map_of (ents d))(k \<mapsto> v) \<and> (fresh d \<longrightarrow> fresh d' \<and> ents d' = assign (ents d) k v)"
    and del_ents: "inv d \<Longrightarrow> \<exists>d'. del d k = Inr d' \<and> inv d' \<and> map_of (ents d') = (map_of (ents d))(k := None)"
begin

lemma run_strings_map:
  "inv d \<Longrightarrow> run_strings get put del ops d = Inr (run_map ops (map_of (ents d)))"
proof (induction ops arbitrary: d)
  case (Cons op ops)
  show ?case
  proof (cases op)
    case (DGet k)
    then show ?thesis using Cons by (simp add: get_ents)
  next
    case (DSet k v)
    obtain d' where d': "put d k v = Inr (0, d')" "inv d'" "map_of (ents d') = (map_of (ents d))(k \<mapsto> v)"
      using put_ents[OF Cons.prems] by blast
    show ?thesis using Cons.IH[OF d'(2)] by (simp del: fun_upd_apply add: DSet d'(1,3))
  next
    case (DUnset k)
    obtain d' where d': "del d k = Inr d'" "inv d'" "map_of (ents d') = (map_of (ents d))(k := None)"
      using del_ents[OF Cons.prems] by blast
    show ?thesis using Cons.IH[OF d'(2)] by (simp del: fun_upd_apply add: DUnset d'(1,3))
  qed
qed simp

text \<open>A table filled entry by entry.\<close>

fun put_all :: "'d \<Rightarrow> (bytes \<times> bytes option) list \<Rightarrow> 'd res" where
  "put_all d [] = Inr d"
| "put_all d (e # es) = bindE (put d (fst e) (snd e)) (\<lambda>(r, d'). put_all d' es)"

lemma put_all_ok:
  assumes "inv d" "fresh d" "distinct (map fst (ents d @ es))"
  shows "\<exists>d'. put_all d es = Inr d' \<and> inv d' \<and> fresh d' \<and> ents d' = ents d @ es"
  using assms
proof (induction es arbitrary: d)
  case (Cons e es)
  obtain d1 where d1: "put d (fst e) (snd e) = Inr (0, d1)" "inv d1" "fresh d1" "ents d1 = assign (ents d) (fst e) (snd e)"
    using put_ents[OF Cons.prems(1), of "fst e" "snd e"] Cons.prems(2) by blast
  have "hm_get (ents d) (fst e) = None" using Cons.prems(3) by (auto simp: hm_get_None)
  then have "ents d1 = ents d @ [e]" using d1(4) by (simp add: assign_def)
  then show ?case using Cons.IH[OF d1(2,3)] Cons.prems(3) d1(1) by simp
qed simp

end

interpretation dt: string_table dict_ok compact dict_entries dictionary_get dict_set dict_unset
proof unfold_locales
  fix d k v
  assume ok: "dict_ok d"
  show "hm_ok (dict_entries d)" using ok by (simp add: dict_ok_def)
  show "dictionary_get d k = Inr (map_of (dict_entries d) k)"
    using dictionary_get_ok[OF ok, of k] by (simp add: hm_get_def)
  show "\<exists>d'. dict_set d k v = Inr (0, d') \<and> dict_ok d' \<and> map_of (dict_entries d') = (map_of (dict_entries d))(k \<mapsto> v) \<and>
      (compact d \<longrightarrow> compact d' \<and> dict_entries d' = assign (dict_entries d) k v)"
    using dict_set_ok[OF ok, of k v] unfolding assign_def by metis
  show "\<exists>d'. dict_unset d k = Inr d' \<and> dict_ok d' \<and> map_of (dict_entries d') = (map_of (dict_entries d))(k := None)"
  proof -
    obtain d' where d': "dict_unset d k = Inr d'" "dict_ok d'" "dict_entries d' = filter (\<lambda>e. fst e \<noteq> k) (dict_entries d)"
      by (rule dict_unset_ok[OF ok])
    have "map_of (filter (\<lambda>e. fst e \<noteq> k) m) = (map_of m)(k := None)" for m :: "(bytes \<times> bytes option) list"
      by (induction m) (auto simp: fun_eq_iff)
    then show ?thesis using d' by auto
  qed
qed

text \<open>C31. Every script of \<open>dictionary_get\<close>, \<open>dictionary_set\<close> and \<open>dictionary_unset\<close> on a new dictionary runs
  without a fault and to its end (the search for an empty slot stops), and every call returns what it returns
  on a finite map: slots that are freed and used again, the doubling of the arrays and equal hashes of
  different keys cannot be seen.\<close>

theorem dictionary_scripts:
  "run_strings dictionary_get dict_set dict_unset ops (dictionary_new sz) = Inr (run_map ops Map.empty)"
  using dt.run_strings_map[OF dict_ok_new(1), of ops sz] by (simp add: dict_ok_new)

end
