(* ===== verification/Iniparser.thy ===== *)
theory Iniparser
  imports Dictionary
begin

text \<open>
  The parser of the configuration file, \<open>src/shared/iniparser.c\<close>, over the dictionary of theory
  \<open>Dictionary\<close>. A file is its bytes; the stack buffers of \<open>ASCIILINESZ + 1\<close> bytes appear as the
  bounds that the copies into them must keep. Characters are classified as in the C locale.
\<close>

section \<open>Characters and strings\<close>

abbreviation (input) "ASCIILINESZ \<equiv> 1024 :: nat"

abbreviation NL :: byte where "NL \<equiv> CHR 0x0A"

definition isspace :: "byte \<Rightarrow> bool" where
  "isspace c \<longleftrightarrow> c = CHR 0x20 \<or> c = CHR 0x09 \<or> c = CHR 0x0A \<or> c = CHR 0x0B \<or> c = CHR 0x0C \<or> c = CHR 0x0D"

definition tolower :: "byte \<Rightarrow> byte" where
  "tolower c = (let n = (of_char c :: nat) in if 65 \<le> n \<and> n \<le> 90 then char_of (n + 32) else c)"

definition strlwc :: "bytes \<Rightarrow> bytes" where
  "strlwc s = map tolower (take ASCIILINESZ s)"

text \<open>The blanks at the end of a string, and at both ends.\<close>

definition rstrip :: "bytes \<Rightarrow> bytes" where
  "rstrip s = rev (dropWhile isspace (rev s))"

definition strstrip :: "bytes \<Rightarrow> bytes res" where
  "strstrip s =
     (let s = dropWhile isspace s
      in if ASCIILINESZ < length s then Inl OutOfBounds else Inr (rstrip s))"

text \<open>\<open>sprintf\<close> of \<open>"%s:"\<close> or \<open>"%s:%s"\<close> into a buffer of \<open>ASCIILINESZ + 1\<close> bytes.\<close>

definition sprint_line :: "bytes \<Rightarrow> bytes res" where
  "sprint_line s = (if ASCIILINESZ < length s then Inl OutOfBounds else Inr s)"

section \<open>Sections and keys of a dictionary\<close>

definition section_names :: "dictionary \<Rightarrow> bytes list" where
  "section_names d = filter (\<lambda>k. CHR '':'' \<notin> set k) (map fst (dict_entries d))"

definition iniparser_getnsec :: "dictionary option \<Rightarrow> int" where
  "iniparser_getnsec d = (case d of None \<Rightarrow> - 1 | Some d \<Rightarrow> int (length (section_names d)))"

definition iniparser_getsecname :: "dictionary option \<Rightarrow> int \<Rightarrow> bytes option" where
  "iniparser_getsecname d n = (case d of
       None \<Rightarrow> None
     | Some d \<Rightarrow> if n < 0 then None
         else if int (length (section_names d)) \<le> n then None else Some (section_names d ! nat n))"

text \<open>\<open>None\<close> is the argument \<open>def\<close> of the caller, \<open>Some v\<close> the pointer in the dictionary.\<close>

definition iniparser_getstring :: "dictionary option \<Rightarrow> bytes option \<Rightarrow> bytes option option res" where
  "iniparser_getstring d key = (case (d, key) of
       (Some d, Some key) \<Rightarrow> dictionary_get d (strlwc key)
     | _ \<Rightarrow> Inr None)"

definition iniparser_find_entry :: "dictionary option \<Rightarrow> bytes option \<Rightarrow> bool res" where
  "iniparser_find_entry ini entry = bindE (iniparser_getstring ini entry) (\<lambda>s. Inr (s \<noteq> None))"

definition iniparser_set :: "dictionary option \<Rightarrow> bytes option \<Rightarrow> bytes option \<Rightarrow> (int \<times> dictionary option) res" where
  "iniparser_set ini entry val = (case entry of
       None \<Rightarrow> Inl AssertFailed | Some entry \<Rightarrow> dictionary_set ini (strlwc entry) val)"

definition iniparser_unset :: "dictionary option \<Rightarrow> bytes option \<Rightarrow> dictionary option res" where
  "iniparser_unset ini entry = (case entry of
       None \<Rightarrow> Inl AssertFailed | Some entry \<Rightarrow> dictionary_unset ini (strlwc entry))"

text \<open>The entries whose key starts with the section and a colon.\<close>

definition section_entries :: "dictionary \<Rightarrow> bytes \<Rightarrow> (bytes \<times> bytes option) list" where
  "section_entries d s =
     filter (\<lambda>e. take (length s + 1) (fst e) = s @ '':'') (dict_entries d)"

definition iniparser_getsecnkeys :: "dictionary option \<Rightarrow> bytes \<Rightarrow> nat res" where
  "iniparser_getsecnkeys d s = (case d of
       None \<Rightarrow> Inr 0
     | Some d0 \<Rightarrow> bindE (iniparser_find_entry d (Some s)) (\<lambda>found.
         if \<not> found then Inr 0
         else bindE (sprint_line (s @ '':'')) (\<lambda>keym. Inr (length (section_entries d0 s)))))"

text \<open>The array has as many slots as \<open>iniparser_getsecnkeys\<close> says.\<close>

definition iniparser_getseckeys :: "dictionary option \<Rightarrow> bytes \<Rightarrow> bytes list option res" where
  "iniparser_getseckeys d s = (case d of
       None \<Rightarrow> Inr None
     | Some d0 \<Rightarrow> bindE (iniparser_find_entry d (Some s)) (\<lambda>found.
         if \<not> found then Inr None
         else bindE (iniparser_getsecnkeys d s) (\<lambda>nkeys.
           bindE (sprint_line (s @ '':'')) (\<lambda>keym.
             let keys = map fst (section_entries d0 s)
             in if nkeys < length keys then Inl OutOfBounds else Inr (Some keys)))))"

section \<open>Conversions\<close>

definition digit_value :: "byte \<Rightarrow> nat" where
  "digit_value c = (let n = (of_char c :: nat) in
     if 48 \<le> n \<and> n \<le> 57 then n - 48
     else if 65 \<le> n \<and> n \<le> 90 then n - 55
     else if 97 \<le> n \<and> n \<le> 122 then n - 87 else 36)"

definition digits :: "nat \<Rightarrow> bytes \<Rightarrow> bytes" where
  "digits base s = takeWhile (\<lambda>c. digit_value c < base) s"

definition digits_value :: "nat \<Rightarrow> bytes \<Rightarrow> int" where
  "digits_value base s = foldl (\<lambda>a c. a * int base + int (digit_value c)) 0 s"

text \<open>\<open>strtol\<close> with base 0: blanks, a sign, and the prefix that chooses the base; the value is cut to
  the range of a 64-bit \<open>long\<close>.\<close>

definition strtol :: "bytes \<Rightarrow> int" where
  "strtol s =
     (let s = dropWhile isspace s;
          (neg, s) = (case s of [] \<Rightarrow> (False, [])
             | c # r \<Rightarrow> if c = CHR ''-'' then (True, r) else if c = CHR ''+'' then (False, r) else (False, c # r));
          v = (if (take 2 s = ''0x'' \<or> take 2 s = ''0X'') \<and> digits 16 (drop 2 s) \<noteq> [] then digits_value 16 (digits 16 (drop 2 s))
               else if take 1 s = ''0'' then digits_value 8 (digits 8 s)
               else digits_value 10 (digits 10 s));
          v = (if neg then - v else v)
      in max (- (2 ^ 63)) (min (2 ^ 63 - 1) v))"

text \<open>The cast to \<open>int\<close>.\<close>

definition iniparser_getint :: "dictionary option \<Rightarrow> bytes option \<Rightarrow> int \<Rightarrow> int res" where
  "iniparser_getint d key notfound = bindE (iniparser_getstring d key) (\<lambda>str. case str of
       None \<Rightarrow> Inr notfound
     | Some None \<Rightarrow> Inl NullDeref
     | Some (Some s) \<Rightarrow> Inr (sint (word_of_int (strtol s) :: 32 word)))"

definition iniparser_getboolean :: "dictionary option \<Rightarrow> bytes option \<Rightarrow> int \<Rightarrow> int res" where
  "iniparser_getboolean d key notfound = bindE (iniparser_getstring d key) (\<lambda>c. case c of
       None \<Rightarrow> Inr notfound
     | Some None \<Rightarrow> Inl NullDeref
     | Some (Some s) \<Rightarrow> Inr (case s of [] \<Rightarrow> notfound
         | a # _ \<Rightarrow> if a \<in> set ''yY1tT'' then 1 else if a \<in> set ''nN0fF'' then 0 else notfound))"

section \<open>Printing\<close>

definition iniparser_dump :: "dictionary option \<Rightarrow> bytes" where
  "iniparser_dump d = (case d of
       None \<Rightarrow> []
     | Some d \<Rightarrow> concat (map (\<lambda>(k, v). case v of
           Some v \<Rightarrow> ''['' @ k @ '']=['' @ v @ '']'' @ [NL]
         | None \<Rightarrow> ''['' @ k @ '']=UNDEF'' @ [NL]) (dict_entries d)))"

definition key_line :: "bytes \<Rightarrow> bytes option \<Rightarrow> bytes" where
  "key_line k v = k @ replicate (30 - length k) CHR '' '' @ '' = '' @ (case v of None \<Rightarrow> [] | Some v \<Rightarrow> v)"

definition iniparser_dumpsection_ini :: "dictionary option \<Rightarrow> bytes \<Rightarrow> bytes res" where
  "iniparser_dumpsection_ini d s = (case d of
       None \<Rightarrow> Inr []
     | Some d0 \<Rightarrow> bindE (iniparser_find_entry d (Some s)) (\<lambda>found.
         if \<not> found then Inr []
         else bindE (sprint_line (s @ '':'')) (\<lambda>keym.
           Inr ([NL] @ ''['' @ s @ '']'' @ [NL] @
                concat (map (\<lambda>(k, v). key_line (drop (length s + 1) k) v @ [NL]) (section_entries d0 s)) @ [NL]))))"

text \<open>Without a section every key is printed as it is, and \<open>%s\<close> of a NULL value reads it.\<close>

fun dump_plain :: "(bytes \<times> bytes option) list \<Rightarrow> bytes res" where
  "dump_plain [] = Inr []"
| "dump_plain ((k, v) # es) = (case v of
       None \<Rightarrow> Inl NullDeref
     | Some v \<Rightarrow> bindE (dump_plain es) (\<lambda>r. Inr (k @ '' = '' @ v @ [NL] @ r)))"

fun dump_sections :: "dictionary option \<Rightarrow> bytes list \<Rightarrow> bytes res" where
  "dump_sections d [] = Inr []"
| "dump_sections d (s # ss) =
     bindE (iniparser_dumpsection_ini d s) (\<lambda>a. bindE (dump_sections d ss) (\<lambda>b. Inr (a @ b)))"

definition iniparser_dump_ini :: "dictionary option \<Rightarrow> bytes res" where
  "iniparser_dump_ini d = (case d of
       None \<Rightarrow> Inr []
     | Some d0 \<Rightarrow> if iniparser_getnsec d < 1 then dump_plain (dict_entries d0)
         else bindE (dump_sections d (section_names d0)) (\<lambda>r. Inr (r @ [NL])))"

section \<open>A line\<close>

datatype line_status = LINE_UNPROCESSED | LINE_ERROR | LINE_EMPTY | LINE_COMMENT | LINE_SECTION | LINE_VALUE

text \<open>
  The formats of \<open>sscanf\<close>: \<open>"%[^=] = "\<close> gives the key and what follows the blanks behind the equal sign,
  if there is one; \<open>quoted\<close> is the rest of the format \<open>"\"%[^\"]\""\<close>, \<open>unquoted\<close> is \<open>"%[^;#]"\<close>.
\<close>

definition scan_key :: "bytes \<Rightarrow> (bytes \<times> bytes) option" where
  "scan_key line =
     (let k = takeWhile (\<lambda>c. c \<noteq> CHR ''='') line
      in if k = [] then None
         else case dropWhile (\<lambda>c. c \<noteq> CHR ''='') line of
             [] \<Rightarrow> None | _ # rest \<Rightarrow> Some (k, dropWhile isspace rest))"

definition quoted :: "byte \<Rightarrow> bytes \<Rightarrow> bytes option" where
  "quoted q rest = (case rest of
       [] \<Rightarrow> None
     | c # r \<Rightarrow> if c = q \<and> takeWhile (\<lambda>x. x \<noteq> q) r \<noteq> [] then Some (takeWhile (\<lambda>x. x \<noteq> q) r) else None)"

definition unquoted :: "bytes \<Rightarrow> bytes option" where
  "unquoted rest =
     (let v = takeWhile (\<lambda>c. c \<noteq> CHR '';'' \<and> c \<noteq> CHR ''#'') rest in if v = [] then None else Some v)"

definition scan_value :: "bytes \<Rightarrow> bytes option" where
  "scan_value rest = (case quoted (CHR 0x22) rest of
       Some v \<Rightarrow> Some v
     | None \<Rightarrow> (case quoted (CHR 0x27) rest of Some v \<Rightarrow> Some v | None \<Rightarrow> unquoted rest))"

text \<open>\<open>"[%[^]]"\<close> stores nothing when the name is empty: the section before stays.\<close>

definition scan_section :: "bytes \<Rightarrow> bytes \<Rightarrow> bytes" where
  "scan_section line section =
     (let s = takeWhile (\<lambda>c. c \<noteq> CHR '']'') (tl line) in if s = [] then section else s)"

text \<open>
  The status and the buffers \<open>section\<close>, \<open>key\<close> and \<open>value\<close>. The caller looks at \<open>key\<close> and \<open>value\<close> after
  \<open>LINE_VALUE\<close> only; for the other statuses they are given as empty. When there is a key and an equal
  sign and no value, the rest is empty or a comment, which the two special formats take.
\<close>

definition iniparser_line :: "bytes \<Rightarrow> bytes \<Rightarrow> (line_status \<times> bytes \<times> bytes \<times> bytes) res" where
  "iniparser_line input_line section =
     bindE (strstrip input_line) (\<lambda>line.
       if line = [] then Inr (LINE_EMPTY, section, [], [])
       else if hd line = CHR ''#'' \<or> hd line = CHR '';'' then Inr (LINE_COMMENT, section, [], [])
       else if hd line = CHR ''['' \<and> last line = CHR '']'' then
         bindE (strstrip (scan_section line section)) (\<lambda>s. Inr (LINE_SECTION, strlwc s, [], []))
       else case scan_key line of
           None \<Rightarrow> Inr (LINE_ERROR, section, [], [])
         | Some (k, rest) \<Rightarrow>
             bindE (strstrip k) (\<lambda>key. case scan_value rest of
                 Some v \<Rightarrow> bindE (strstrip v) (\<lambda>v.
                   Inr (LINE_VALUE, section, strlwc key,
                        if v = [CHR 0x22, CHR 0x22] \<or> v = [CHR 0x27, CHR 0x27] then [] else v))
               | None \<Rightarrow> Inr (LINE_VALUE, section, strlwc key, [])))"

section \<open>Loading a file\<close>

text \<open>\<open>fgets\<close> of at most \<open>n - 1\<close> bytes: what it read, what is left, and whether it met the end of the file.\<close>

definition fgets :: "nat \<Rightarrow> bytes \<Rightarrow> (bytes \<times> bytes \<times> bool) option" where
  "fgets n rest =
     (if rest = [] then None
      else
        let l = takeWhile (\<lambda>c. c \<noteq> NL) rest @ take 1 (dropWhile (\<lambda>c. c \<noteq> NL) rest);
            chunk = take (n - 1) l
        in Some (chunk, drop (length chunk) rest, NL \<notin> set chunk \<and> length chunk < n - 1))"

text \<open>The switch on the status of a line: the section, the dictionary and \<open>errs\<close> after it.\<close>

definition load_line :: "bytes \<Rightarrow> bytes \<Rightarrow> dictionary \<Rightarrow> int \<Rightarrow> (bytes \<times> dictionary \<times> int) res" where
  "load_line line section dict errs =
     bindE (iniparser_line line section) (\<lambda>(sta, section, key, val). case sta of
         LINE_SECTION \<Rightarrow> bindE (dict_set dict section None) (\<lambda>(r, dict). Inr (section, dict, r))
       | LINE_VALUE \<Rightarrow> bindE (sprint_line (section @ '':'' @ key)) (\<lambda>tmp.
           bindE (dict_set dict tmp (Some val)) (\<lambda>(r, dict). Inr (section, dict, r)))
       | LINE_ERROR \<Rightarrow> Inr (section, dict, errs + 1)
       | _ \<Rightarrow> Inr (section, dict, errs))"

text \<open>
  \<open>kept\<close> are the first \<open>last\<close> bytes of the buffer \<open>line\<close>. The loop reads at least one byte in every
  round, so the length of the file is enough \<open>fuel\<close>.
\<close>

fun load_loop :: "nat \<Rightarrow> bytes \<Rightarrow> bytes \<Rightarrow> bytes \<Rightarrow> dictionary \<Rightarrow> int \<Rightarrow> dictionary option res" where
  "load_loop 0 rest kept section dict errs = Inl Diverges"
| "load_loop (Suc fuel) rest kept section dict errs =
     (case fgets (ASCIILINESZ - length kept) rest of
        None \<Rightarrow> Inr (if errs \<noteq> 0 then None else Some dict)
      | Some (chunk, rest, eof) \<Rightarrow>
          let line = kept @ takeWhile (\<lambda>c. c \<noteq> NUL) chunk
          in if length line = 1 then load_loop fuel rest kept section dict errs
             else if line = [] then Inl OutOfBounds
             else if last line \<noteq> NL \<and> \<not> eof then Inr None
             else
               let line = rstrip line
               in if line = [] then Inl OutOfBounds
                  else if last line = CHR 0x5C then load_loop fuel rest (butlast line) section dict errs
                  else bindE (load_line line section dict errs) (\<lambda>(section, dict, errs).
                    if errs < 0 then Inr None
                    else load_loop fuel rest [] section dict errs))"

definition iniparser_load :: "bytes option \<Rightarrow> dictionary option res" where
  "iniparser_load contents = (case contents of
       None \<Rightarrow> Inr None
     | Some text \<Rightarrow> load_loop (length text + 1) text [] [] (dictionary_new 0) 0)"

section \<open>Stripping\<close>

definition stripped :: "bytes \<Rightarrow> bool" where
  "stripped s \<longleftrightarrow> s = [] \<or> \<not> isspace (hd s) \<and> \<not> isspace (last s)"

lemma isspace_NL [simp]: "isspace NL" and isspace_blank [simp]: "isspace CHR '' ''"
  by (simp_all add: isspace_def)

lemma rstrip_blanks: "\<forall>c \<in> set w. isspace c \<Longrightarrow> rstrip (s @ w) = rstrip s"
  by (simp add: rstrip_def dropWhile_append)

lemma rstrip_id: "s = [] \<or> \<not> isspace (last s) \<Longrightarrow> rstrip s = s"
  by (cases s rule: rev_cases) (auto simp: rstrip_def)

lemma rstrip_all: "\<forall>c \<in> set w. isspace c \<Longrightarrow> rstrip w = []"
  using rstrip_blanks[of w "[]"] by (simp add: rstrip_def)

lemma last_rstrip: "rstrip s \<noteq> [] \<Longrightarrow> \<not> isspace (last (rstrip s))"
  unfolding rstrip_def using hd_dropWhile[of isspace "rev s"] by (auto simp: last_rev)

lemma length_rstrip: "length (rstrip s) \<le> length s"
  using length_dropWhile_le[of isspace "rev s"] by (simp add: rstrip_def)

lemma rstrip_prefix: "\<exists>w. s = rstrip s @ w \<and> (\<forall>c \<in> set w. isspace c)"
proof -
  have "rev s = takeWhile isspace (rev s) @ dropWhile isspace (rev s)" by simp
  then have "s = rstrip s @ rev (takeWhile isspace (rev s))"
    unfolding rstrip_def by (metis rev_append rev_rev_ident)
  then show ?thesis by (metis set_takeWhileD set_rev)
qed

lemma strstrip_stripped: "stripped s \<Longrightarrow> length s \<le> ASCIILINESZ \<Longrightarrow> strstrip s = Inr s"
  by (cases s) (auto simp: stripped_def strstrip_def rstrip_id)

lemma strstrip_blanks:
  "stripped s \<Longrightarrow> \<forall>c \<in> set w. isspace c \<Longrightarrow> length (s @ w) \<le> ASCIILINESZ \<Longrightarrow> strstrip (s @ w) = Inr s"
proof (cases s)
  case Nil
  assume "\<forall>c \<in> set w. isspace c"
  then have "dropWhile isspace w = []" by (simp add: dropWhile_eq_Nil_conv)
  then show ?thesis unfolding Nil append_Nil strstrip_def Let_def by (simp only: rstrip_def) simp
next
  case (Cons a r)
  assume "stripped s" "\<forall>c \<in> set w. isspace c" "length (s @ w) \<le> ASCIILINESZ"
  then show ?thesis using Cons rstrip_blanks[of w s] by (auto simp: strstrip_def stripped_def rstrip_id)
qed

lemma strstrip_cases:
  assumes "strstrip s = Inr t"
  shows "stripped t \<and> length t \<le> length s \<and> length t \<le> ASCIILINESZ"
proof -
  let ?u = "dropWhile isspace s"
  have t: "t = rstrip ?u" "length ?u \<le> ASCIILINESZ" using assms by (auto simp: strstrip_def Let_def split: if_splits)
  obtain w where w: "?u = t @ w" using rstrip_prefix[of ?u] t(1) by metis
  have "stripped t"
  proof (cases "t = []")
    case False
    have "hd ?u = hd t" using w False by simp
    moreover have "\<not> isspace (hd ?u)" using w False by (intro hd_dropWhile) auto
    ultimately show ?thesis using False last_rstrip[of ?u] t(1) by (simp add: stripped_def)
  qed (simp add: stripped_def)
  moreover have "length t \<le> length ?u" using w by simp
  ultimately show ?thesis using t(2) length_dropWhile_le[of isspace s] by simp
qed

section \<open>Lines that a file consists of\<close>

text \<open>A line without its newline that the loop handles in one round.\<close>

definition plain_line :: "bytes \<Rightarrow> bool" where
  "plain_line l \<longleftrightarrow> NL \<notin> set l \<and> NUL \<notin> set l \<and> length l + 1 < ASCIILINESZ \<and>
     (l = [] \<or> rstrip l \<noteq> [] \<and> last (rstrip l) \<noteq> CHR 0x5C)"

definition text_of :: "bytes list \<Rightarrow> bytes" where
  "text_of ls = concat (map (\<lambda>l. l @ [NL]) ls)"

fun run_lines :: "bytes list \<Rightarrow> bytes \<Rightarrow> dictionary \<Rightarrow> int \<Rightarrow> dictionary option res" where
  "run_lines [] section dict errs = Inr (if errs \<noteq> 0 then None else Some dict)"
| "run_lines (l # ls) section dict errs =
     (if l = [] then run_lines ls section dict errs
      else bindE (load_line (rstrip l) section dict errs) (\<lambda>(section, dict, errs).
        if errs < 0 then Inr None else run_lines ls section dict errs))"

lemma fgets_line:
  assumes "NL \<notin> set l" "length l + 1 < n"
  shows "fgets n (l @ NL # r) = Some (l @ [NL], r, False)"
proof -
  have "takeWhile (\<lambda>c. c \<noteq> NL) (l @ NL # r) = l" "dropWhile (\<lambda>c. c \<noteq> NL) (l @ NL # r) = NL # r"
    using assms(1) by (auto simp: takeWhile_append dropWhile_append)
  moreover have "take (n - 1) (l @ [NL]) = l @ [NL]" using assms(2) by simp
  moreover have "drop (length (l @ [NL])) (l @ NL # r) = r" by simp
  moreover have "length (l @ [NL]) < n" using assms(2) by simp
  ultimately show ?thesis by (simp only: fgets_def Let_def) simp
qed

lemma load_loop_lines:
  assumes "\<forall>l \<in> set ls. plain_line l" "length (text_of ls) < fuel"
  shows "load_loop fuel (text_of ls) [] sec dict errs = run_lines ls sec dict errs"
  using assms
proof (induction ls arbitrary: fuel sec dict errs)
  case Nil
  then show ?case by (cases fuel) (simp_all add: text_of_def fgets_def)
next
  case (Cons l ls)
  obtain f where f: "fuel = Suc f" using Cons.prems(2) by (cases fuel) auto
  have pl: "NL \<notin> set l" "NUL \<notin> set l" "length l + 1 < ASCIILINESZ"
    "l = [] \<or> rstrip l \<noteq> [] \<and> last (rstrip l) \<noteq> CHR 0x5C"
    using Cons.prems(1) by (simp_all add: plain_line_def)
  have t: "text_of (l # ls) = l @ NL # text_of ls" by (simp add: text_of_def)
  have nul: "takeWhile (\<lambda>c. c \<noteq> NUL) (l @ [NL]) = l @ [NL]"
    using pl(2) by (intro takeWhile_no_NUL) auto
  have IH: "load_loop f (text_of ls) [] sec d e = run_lines ls sec d e" for sec d e
    using Cons.IH[of f] Cons.prems t f by simp
  have rs: "rstrip (l @ [NL]) = rstrip l" by (intro rstrip_blanks) simp
  have fg: "fgets (ASCIILINESZ - length ([] :: bytes)) (l @ NL # text_of ls) = Some (l @ [NL], text_of ls, False)"
    using fgets_line[OF pl(1)] pl(3) by simp
  show ?case
  proof (cases "l = []")
    case True
    then show ?thesis unfolding f t load_loop.simps fg using nul IH by simp
  next
    case False
    then show ?thesis unfolding f t load_loop.simps fg option.case prod.case append_Nil nul Let_def rs
      using pl(4) by (simp add: case_prod_unfold IH cong: if_cong)
  qed
qed

lemma load_lines:
  "\<forall>l \<in> set ls. plain_line l \<Longrightarrow> iniparser_load (Some (text_of ls)) = run_lines ls [] (dictionary_new 0) 0"
  by (simp add: iniparser_load_def load_loop_lines del: load_loop.simps)

lemma text_of_append: "text_of (a @ b) = text_of a @ text_of b"
  by (simp add: text_of_def)

section \<open>What a section and a value line do\<close>

definition plain :: "bytes \<Rightarrow> bool" where
  "plain s \<longleftrightarrow> stripped s \<and> NL \<notin> set s \<and> NUL \<notin> set s"

definition secname_ok :: "bytes \<Rightarrow> bool" where
  "secname_ok s \<longleftrightarrow> plain s \<and> s \<noteq> [] \<and> CHR '']'' \<notin> set s \<and> CHR '':'' \<notin> set s \<and> length s \<le> 1020"

definition keyname_ok :: "bytes \<Rightarrow> bool" where
  "keyname_ok k \<longleftrightarrow> plain k \<and> k \<noteq> [] \<and> hd k \<notin> set ''[#;'' \<and> CHR ''='' \<notin> set k"

definition text_ok :: "bytes \<Rightarrow> bool" where
  "text_ok v \<longleftrightarrow> plain v \<and> CHR '';'' \<notin> set v \<and> CHR ''#'' \<notin> set v \<and>
     (v = [] \<or> hd v \<noteq> CHR 0x22 \<and> hd v \<noteq> CHR 0x27 \<and> last v \<noteq> CHR 0x5C)"

lemma plain_section: "secname_ok s \<Longrightarrow> plain_line (''['' @ s @ '']'')"
  by (simp add: plain_line_def secname_ok_def plain_def rstrip_id isspace_def)

lemma strlwc_short: "length s \<le> ASCIILINESZ \<Longrightarrow> strlwc s = map tolower s"
  by (simp add: strlwc_def)

lemma load_section_line:
  assumes "secname_ok s"
  shows "load_line (rstrip (''['' @ s @ '']'')) sec dict errs =
    bindE (dict_set dict (map tolower s) None) (\<lambda>(r, dict). Inr (map tolower s, dict, r))"
proof -
  have s: "stripped s" "s \<noteq> []" "CHR '']'' \<notin> set s" "length s \<le> 1020"
    using assms by (simp_all add: secname_ok_def plain_def)
  have r: "rstrip (''['' @ s @ '']'') = ''['' @ s @ '']''" by (simp add: rstrip_id isspace_def)
  have l: "strstrip (''['' @ s @ '']'') = Inr (''['' @ s @ '']'')"
    by (rule strstrip_stripped) (use s(4) in \<open>simp_all add: stripped_def isspace_def\<close>)
  have "takeWhile (\<lambda>c. c \<noteq> CHR '']'') (s @ '']'') = s" using s(3) by (auto simp: takeWhile_append)
  then have "scan_section (''['' @ s @ '']'') sec = s" using s(2) by (simp add: scan_section_def)
  moreover have "strstrip s = Inr s" using s by (intro strstrip_stripped) simp_all
  ultimately have "iniparser_line (''['' @ s @ '']'') sec = Inr (LINE_SECTION, map tolower s, [], [])"
    unfolding iniparser_line_def l bindE_Inr using s(4) by (simp add: strlwc_short)
  then show ?thesis unfolding r load_line_def by simp
qed

text \<open>A key, an equal sign and a value, with blanks around the equal sign.\<close>

lemma load_value_line:
  assumes "keyname_ok k" "text_ok v" "w = replicate n CHR '' ''" "w' = replicate m CHR '' ''"
    and len: "length (k @ w @ ''='' @ w' @ v) \<le> 1022"
  shows "plain_line (k @ w @ ''='' @ w' @ v)"
    and "load_line (rstrip (k @ w @ ''='' @ w' @ v)) sec dict errs =
      bindE (sprint_line (sec @ '':'' @ map tolower k)) (\<lambda>tmp.
        bindE (dict_set dict tmp (Some v)) (\<lambda>(r, dict). Inr (sec, dict, r)))"
proof -
  have k: "stripped k" "NL \<notin> set k" "NUL \<notin> set k" "k \<noteq> []" "hd k \<noteq> CHR ''[''" "hd k \<noteq> CHR ''#''" "hd k \<noteq> CHR '';''"
      "CHR ''='' \<notin> set k"
    using assms(1) by (simp_all add: keyname_ok_def plain_def)
  have v: "stripped v" "NL \<notin> set v" "NUL \<notin> set v" "CHR '';'' \<notin> set v" "CHR ''#'' \<notin> set v"
    using assms(2) by (simp_all add: text_ok_def plain_def)
  let ?l = "k @ w @ ''='' @ w' @ v"
  define r where "r = (if v = [] then [] else w' @ v)"
  define L where "L = k @ w @ ''='' @ r"
  have rs: "rstrip ?l = L"
  proof (cases "v = []")
    case True
    have "rstrip ((k @ w @ ''='') @ w') = rstrip (k @ w @ ''='')"
      using assms(4) by (intro rstrip_blanks) (auto simp: isspace_def)
    also have "\<dots> = k @ w @ ''=''" by (rule rstrip_id) (simp add: isspace_def)
    finally show ?thesis using True by (simp add: L_def r_def)
  next
    case False
    then have "\<not> isspace (last ?l)" using v(1) by (simp add: stripped_def)
    then have "rstrip ?l = ?l" by (intro rstrip_id) simp
    then show ?thesis using False by (simp add: L_def r_def)
  qed
  have Lne: "L \<noteq> []" "hd L = hd k" using k(4) by (simp_all add: L_def)
  have lastL: "\<not> isspace (last L)" "last L \<noteq> CHR 0x5C"
    using v(1) assms(2) by (cases "v = []"; simp add: L_def r_def stripped_def text_ok_def isspace_def)+
  show "plain_line ?l"
  proof -
    have "NL \<notin> set w \<and> NUL \<notin> set w \<and> NL \<notin> set w' \<and> NUL \<notin> set w'" using assms(3,4) by simp
    then have "NL \<notin> set ?l \<and> NUL \<notin> set ?l" using k(2,3) v(2,3) by simp
    then show ?thesis unfolding plain_line_def rs using len lastL(2) Lne(1) by simp
  qed
  have "length L \<le> 1022" using len by (auto simp: L_def r_def)
  moreover have "stripped L" using lastL(1) Lne k(1,4) by (simp add: stripped_def)
  ultimately have st: "strstrip L = Inr L" by (intro strstrip_stripped) simp_all
  have "takeWhile (\<lambda>c. c \<noteq> CHR ''='') L = k @ w" "dropWhile (\<lambda>c. c \<noteq> CHR ''='') L = ''='' @ r"
    unfolding L_def using k(8) assms(3) by (auto simp: takeWhile_append dropWhile_append)
  moreover have "dropWhile isspace r = v"
  proof (cases v)
    case (Cons a b)
    then have "\<not> isspace a" using v(1) by (simp add: stripped_def)
    then show ?thesis using Cons assms(4) by (auto simp: r_def dropWhile_append isspace_def)
  qed (simp add: r_def)
  ultimately have sk: "scan_key L = Some (k @ w, v)" using k(4) by (simp add: scan_key_def)
  have kw: "strstrip (k @ w) = Inr k"
    using k(1) assms(3) len by (intro strstrip_blanks) (auto simp: isspace_def)
  have vv: "strstrip v = Inr v" using v(1) len by (intro strstrip_stripped) simp_all
  have q: "quoted q v = None" if "q = CHR 0x22 \<or> q = CHR 0x27" for q
    using assms(2) that by (cases v) (auto simp: quoted_def text_ok_def)
  have "takeWhile (\<lambda>c. c \<noteq> CHR '';'' \<and> c \<noteq> CHR ''#'') v = v" using v(4,5) by (auto simp: takeWhile_eq_all_conv)
  then have "unquoted v = (if v = [] then None else Some v)" unfolding unquoted_def Let_def by (rule arg_cong)
  then have sv: "scan_value v = (if v = [] then None else Some v)" by (simp add: scan_value_def q)
  have qq: "v \<noteq> [CHR 0x22, CHR 0x22]" "v \<noteq> [CHR 0x27, CHR 0x27]" using assms(2) by (auto simp: text_ok_def)
  have lk: "strlwc k = map tolower k" using len by (simp add: strlwc_short)
  have "iniparser_line L sec = Inr (LINE_VALUE, sec, map tolower k, v)"
    unfolding iniparser_line_def st bindE_Inr sk using Lne k(5-7) by (simp add: kw sv vv qq lk)
  then show "load_line (rstrip ?l) sec dict errs = bindE (sprint_line (sec @ '':'' @ map tolower k)) (\<lambda>tmp.
      bindE (dict_set dict tmp (Some v)) (\<lambda>(r, dict). Inr (sec, dict, r)))"
    unfolding rs load_line_def by simp
qed

section \<open>Files made of sections, values, comments and empty lines\<close>

datatype ini_item = ISection bytes | IPair bytes nat nat bytes | IEmpty | IComment bytes

fun item_line :: "ini_item \<Rightarrow> bytes" where
  "item_line (ISection s) = ''['' @ s @ '']''"
| "item_line (IPair k n m v) = k @ replicate n CHR '' '' @ ''='' @ replicate m CHR '' '' @ v"
| "item_line IEmpty = []"
| "item_line (IComment c) = ''#'' @ c"

text \<open>What the items put into the dictionary, from a given section on.\<close>

fun item_puts :: "bytes \<Rightarrow> ini_item list \<Rightarrow> (bytes \<times> bytes option) list" where
  "item_puts sec [] = []"
| "item_puts sec (ISection s # is) = (map tolower s, None) # item_puts (map tolower s) is"
| "item_puts sec (IPair k n m v # is) = (sec @ '':'' @ map tolower k, Some v) # item_puts sec is"
| "item_puts sec (_ # is) = item_puts sec is"

fun items_ok :: "bytes \<Rightarrow> ini_item list \<Rightarrow> bool" where
  "items_ok sec [] = True"
| "items_ok sec (ISection s # is) = (secname_ok s \<and> items_ok (map tolower s) is)"
| "items_ok sec (IPair k n m v # is) = (keyname_ok k \<and> text_ok v \<and> length (item_line (IPair k n m v)) \<le> 1022 \<and>
     length (sec @ '':'' @ k) \<le> ASCIILINESZ \<and> items_ok sec is)"
| "items_ok sec (IEmpty # is) = items_ok sec is"
| "items_ok sec (IComment c # is) = (plain_line (''#'' @ c) \<and> items_ok sec is)"

lemma items_plain: "items_ok sec is \<Longrightarrow> l \<in> set (map item_line is) \<Longrightarrow> plain_line l"
proof (induction sec "is" rule: items_ok.induct)
  case (2 sec s "is")
  then show ?case using plain_section[of s] by auto
next
  case (3 sec k n m v "is")
  then show ?case using load_value_line(1)[of k v _ n _ m, OF _ _ refl refl] by auto
qed (auto simp: plain_line_def)

lemma load_comment_line:
  assumes "plain_line (''#'' @ c)"
  shows "load_line (rstrip (''#'' @ c)) sec dict errs = Inr (sec, dict, errs)"
proof -
  let ?l = "''#'' @ c"
  obtain w where w: "?l = rstrip ?l @ w" using rstrip_prefix by blast
  have ne: "rstrip ?l \<noteq> []" using assms by (simp add: plain_line_def)
  then have hd: "hd (rstrip ?l) = CHR ''#''" using w by (metis hd_append2 list.sel(1) append_Cons)
  have "stripped (rstrip ?l)" using ne hd last_rstrip[OF ne] by (simp add: stripped_def isspace_def)
  moreover have "length (rstrip ?l) \<le> ASCIILINESZ" using length_rstrip[of ?l] assms by (simp add: plain_line_def)
  ultimately have "strstrip (rstrip ?l) = Inr (rstrip ?l)" by (rule strstrip_stripped)
  then show ?thesis using ne hd by (simp add: load_line_def iniparser_line_def)
qed

lemma run_items:
  assumes "items_ok sec is" "dict_ok d"
  shows "run_lines (map item_line is) sec d 0 = bindE (dt.put_all d (item_puts sec is)) (\<lambda>d. Inr (Some d))"
  using assms
proof (induction sec "is" arbitrary: d rule: items_ok.induct)
  case (2 sec s "is")
  obtain d' where d': "dict_set d (map tolower s) None = Inr (0, d')" "dict_ok d'"
    using dt.put_ents[OF "2.prems"(2)] by blast
  have "load_line (rstrip (''['' @ s @ '']'')) sec d 0 = Inr (map tolower s, d', 0)"
    using "2.prems"(1) d'(1) by (simp only: load_section_line items_ok.simps) simp
  then show ?case using "2.IH"[OF _ d'(2)] "2.prems" d'(1) by simp
next
  case (3 sec k n m v "is")
  have k: "keyname_ok k" "text_ok v" "length (k @ replicate n CHR '' '' @ ''='' @ replicate m CHR '' '' @ v) \<le> 1022"
    using "3.prems"(1) by simp_all
  have "length (sec @ '':'' @ map tolower k) \<le> ASCIILINESZ" using "3.prems"(1) by simp
  then have sp: "sprint_line (sec @ '':'' @ map tolower k) = Inr (sec @ '':'' @ map tolower k)"
    unfolding sprint_line_def by simp
  obtain d' where d': "dict_set d (sec @ '':'' @ map tolower k) (Some v) = Inr (0, d')" "dict_ok d'"
    using dt.put_ents[OF "3.prems"(2)] by blast
  have "load_line (rstrip (item_line (IPair k n m v))) sec d 0 = Inr (sec, d', 0)"
    unfolding item_line.simps load_value_line(2)[OF k(1,2) refl refl k(3)] sp bindE_Inr d'(1) by simp
  moreover have "item_line (IPair k n m v) \<noteq> []" by simp
  ultimately show ?case using "3.IH"[OF _ d'(2)] "3.prems"(1) d'(1) by (simp del: item_line.simps)
next
  case (5 sec c "is")
  then show ?case using load_comment_line[of c sec d 0] by simp
qed simp_all

text \<open>A file without repeated names: its entries in the order of the lines.\<close>

lemma load_items:
  assumes "items_ok [] is" "distinct (map fst (item_puts [] is))"
  obtains d where "iniparser_load (Some (text_of (map item_line is))) = Inr (Some d)" "dict_ok d" "compact d"
    "dict_entries d = item_puts [] is"
proof -
  have "distinct (map fst (dict_entries (dictionary_new 0) @ item_puts [] is))"
    using assms(2) by (simp add: dict_ok_new)
  from dt.put_all_ok[OF dict_ok_new(1) compact_new this] obtain d where
    d: "dt.put_all (dictionary_new 0) (item_puts [] is) = Inr d" "dict_ok d" "compact d" "dict_entries d = item_puts [] is"
    by (auto simp: dict_ok_new)
  have "iniparser_load (Some (text_of (map item_line is))) = Inr (Some d)"
    using load_lines[of "map item_line is"] items_plain[OF assms(1)] run_items[OF assms(1) dict_ok_new(1)] d(1) by simp
  then show ?thesis using that d by blast
qed

section \<open>Saving and loading\<close>

text \<open>
  The dictionaries that the format can hold: names in lower case, every key in a section of the dictionary,
  values of one line without comment characters, quotes at the front or a backslash at the end.
\<close>

definition lower :: "bytes \<Rightarrow> bool" where
  "lower s \<longleftrightarrow> map tolower s = s"

definition key_section :: "bytes \<Rightarrow> bytes" where
  "key_section k = takeWhile (\<lambda>c. c \<noteq> CHR '':'') k"

definition entry_ok :: "dictionary \<Rightarrow> bytes \<times> bytes option \<Rightarrow> bool" where
  "entry_ok d e \<longleftrightarrow> lower (fst e) \<and>
     (if CHR '':'' \<notin> set (fst e) then secname_ok (fst e) \<and> snd e = None
      else key_section (fst e) \<in> set (section_names d) \<and> length (fst e) \<le> ASCIILINESZ \<and>
        keyname_ok (drop (Suc (length (key_section (fst e)))) (fst e)) \<and>
        length (key_line (drop (Suc (length (key_section (fst e)))) (fst e)) (snd e)) \<le> 1022 \<and>
        (case snd e of None \<Rightarrow> False | Some v \<Rightarrow> text_ok v))"

definition ini_dict :: "dictionary \<Rightarrow> bool" where
  "ini_dict d \<longleftrightarrow> dict_ok d \<and> list_all (entry_ok d) (dict_entries d)"

definition pair_item :: "bytes \<Rightarrow> bytes \<times> bytes option \<Rightarrow> ini_item" where
  "pair_item s e = (let k = drop (length s + 1) (fst e) in IPair k (Suc (30 - length k)) 1 (the (snd e)))"

definition section_items :: "dictionary \<Rightarrow> bytes \<Rightarrow> ini_item list" where
  "section_items d s = [IEmpty, ISection s] @ map (pair_item s) (section_entries d s) @ [IEmpty]"

lemma key_section_split: "CHR '':'' \<in> set k \<Longrightarrow> k = key_section k @ '':'' @ drop (Suc (length (key_section k))) k"
proof -
  assume "CHR '':'' \<in> set k"
  then have "dropWhile (\<lambda>c. c \<noteq> CHR '':'') k \<noteq> []" by (auto simp: dropWhile_eq_Nil_conv)
  then obtain r where r: "dropWhile (\<lambda>c. c \<noteq> CHR '':'') k = CHR '':'' # r"
    using hd_dropWhile[of "\<lambda>c. c \<noteq> CHR '':''" k] by (cases "dropWhile (\<lambda>c. c \<noteq> CHR '':'') k") auto
  then have k: "k = key_section k @ CHR '':'' # r"
    using takeWhile_dropWhile_id[of "\<lambda>c. c \<noteq> CHR '':''" k] by (simp add: key_section_def)
  have "drop (Suc (length (key_section k))) (key_section k @ CHR '':'' # r) = r" by simp
  then show ?thesis using k by simp
qed

lemma key_section_app: "CHR '':'' \<notin> set s \<Longrightarrow> key_section (s @ '':'' @ n) = s"
  by (auto simp: key_section_def takeWhile_append)

lemma section_names_iff: "s \<in> set (section_names d) \<longleftrightarrow> CHR '':'' \<notin> set s \<and> s \<in> fst ` set (dict_entries d)"
  by (auto simp: section_names_def)

text \<open>The entries of a section are those whose key begins with its name up to the first colon.\<close>

lemma section_entries_iff:
  assumes "CHR '':'' \<notin> set s"
  shows "e \<in> set (section_entries d s) \<longleftrightarrow> e \<in> set (dict_entries d) \<and> CHR '':'' \<in> set (fst e) \<and> key_section (fst e) = s"
proof -
  have "take (length s + 1) k = s @ '':'' \<longleftrightarrow> CHR '':'' \<in> set k \<and> key_section k = s" for k
  proof
    assume "take (length s + 1) k = s @ '':''"
    then have "k = s @ '':'' @ drop (length s + 1) k" by (metis append_assoc append_take_drop_id)
    then show "CHR '':'' \<in> set k \<and> key_section k = s"
      using key_section_app[OF assms, of "drop (length s + 1) k"] by (metis append_Cons in_set_conv_decomp)
  next
    assume a: "CHR '':'' \<in> set k \<and> key_section k = s"
    then have "k = s @ '':'' @ drop (Suc (length s)) k" using key_section_split by auto
    moreover have "take (length s + 1) (s @ '':'' @ r) = s @ '':''" for r by simp
    ultimately show "take (length s + 1) k = s @ '':''" by metis
  qed
  then show ?thesis by (auto simp: section_entries_def)
qed

lemma key_line_item: "key_line k (Some v) = item_line (IPair k (Suc (30 - length k)) 1 v)"
  by (simp add: key_line_def replicate_append_same[symmetric])

lemma ini_entry: "ini_dict d \<Longrightarrow> e \<in> set (dict_entries d) \<Longrightarrow> entry_ok d e"
  by (simp add: ini_dict_def list_all_iff)

lemma ini_section: "ini_dict d \<Longrightarrow> s \<in> set (section_names d) \<Longrightarrow>
    secname_ok s \<and> lower s \<and> (s, None) \<in> set (dict_entries d)"
  using ini_entry[of d "(s, _)"] by (fastforce simp: section_names_iff entry_ok_def dest: ini_entry)

lemma ini_pair:
  assumes "ini_dict d" "s \<in> set (section_names d)" "e \<in> set (section_entries d s)"
  obtains n v where "e = (s @ '':'' @ n, Some v)" "lower n" "keyname_ok n" "text_ok v" "length (s @ '':'' @ n) \<le> ASCIILINESZ"
    "length (key_line n (Some v)) \<le> 1022" "pair_item s e = IPair n (Suc (30 - length n)) 1 v"
proof -
  have c: "CHR '':'' \<notin> set s" using assms(2) by (simp add: section_names_iff)
  have e: "e \<in> set (dict_entries d)" "CHR '':'' \<in> set (fst e)" "key_section (fst e) = s"
    using assms(3) by (simp_all add: section_entries_iff[OF c])
  define n where "n = drop (Suc (length s)) (fst e)"
  have k: "fst e = s @ '':'' @ n" using key_section_split[OF e(2)] e(3) by (simp add: n_def)
  obtain v where v: "snd e = Some v" using ini_entry[OF assms(1) e(1)] e(2) by (auto simp: entry_ok_def split: option.splits)
  have "e = (s @ '':'' @ n, Some v)" using k v by (metis prod.collapse)
  moreover have "lower (fst e)" using ini_entry[OF assms(1) e(1)] by (simp add: entry_ok_def)
  ultimately show ?thesis
    using that[of n v] ini_entry[OF assms(1) e(1)] e k v by (simp add: entry_ok_def lower_def pair_item_def Let_def n_def[symmetric])
qed

lemma section_items_sound:
  assumes "ini_dict d" "s \<in> set (section_names d)"
  shows "items_ok sec (section_items d s @ r) = items_ok s r"
    and "item_puts sec (section_items d s @ r) = (s, None) # section_entries d s @ item_puts s r"
    and "iniparser_dumpsection_ini (Some d) s = Inr (text_of (map item_line (section_items d s)))"
proof -
  have s: "secname_ok s" "map tolower s = s" "(s, None) \<in> set (dict_entries d)" "length s \<le> 1020"
    using ini_section[OF assms] by (simp_all add: lower_def secname_ok_def)
  have pairs: "items_ok s (map (pair_item s) es @ r') = items_ok s r' \<and>
      item_puts s (map (pair_item s) es @ r') = es @ item_puts s r' \<and>
      concat (map (\<lambda>(k, v). key_line (drop (length s + 1) k) v @ [NL]) es) = text_of (map item_line (map (pair_item s) es))"
    if "set es \<subseteq> set (section_entries d s)" for es r'
    using that
  proof (induction es)
    case (Cons e es)
    obtain n v where e: "e = (s @ '':'' @ n, Some v)" "lower n" "keyname_ok n" "text_ok v" "length (s @ '':'' @ n) \<le> ASCIILINESZ"
      "length (key_line n (Some v)) \<le> 1022" "pair_item s e = IPair n (Suc (30 - length n)) 1 v"
      using ini_pair[OF assms, of e] Cons.prems by auto
    have "drop (length s + 1) (s @ '':'' @ n) = n" by simp
    then show ?case
      using Cons e(2-6) unfolding map_append list.map append_Cons e(7) items_ok.simps item_puts.simps key_line_item
      by (simp add: e(1) lower_def text_of_def key_line_item)
  qed (simp add: text_of_def)
  show "items_ok sec (section_items d s @ r) = items_ok s r"
    using pairs[of "section_entries d s" "IEmpty # r"] s by (simp add: section_items_def)
  show "item_puts sec (section_items d s @ r) = (s, None) # section_entries d s @ item_puts s r"
    using pairs[of "section_entries d s" "IEmpty # r"] s by (simp add: section_items_def)
  have "dictionary_get d (strlwc s) = Inr (Some None)"
    using assms(1) s dt.get_ents[of d s] hm_get_in_set[of "dict_entries d" s None]
    by (simp add: strlwc_short ini_dict_def dict_ok_def hm_get_def)
  then show "iniparser_dumpsection_ini (Some d) s = Inr (text_of (map item_line (section_items d s)))"
    using pairs[of "section_entries d s" "[]"] s(4)
    by (simp add: iniparser_dumpsection_ini_def iniparser_find_entry_def iniparser_getstring_def sprint_line_def
        section_items_def text_of_def)
qed

lemma dump_items:
  assumes "ini_dict d" "set ss \<subseteq> set (section_names d)"
  shows "items_ok sec (concat (map (section_items d) ss) @ [IEmpty]) \<and>
    item_puts sec (concat (map (section_items d) ss) @ [IEmpty]) = concat (map (\<lambda>s. (s, None) # section_entries d s) ss) \<and>
    dump_sections (Some d) ss = Inr (text_of (map item_line (concat (map (section_items d) ss))))"
  using assms(2)
proof (induction ss arbitrary: sec)
  case (Cons s ss)
  have s: "s \<in> set (section_names d)" using Cons.prems by simp
  show ?case using Cons.IH[of s] section_items_sound[OF assms(1) s] Cons.prems by (simp add: text_of_append)
qed (simp add: text_of_def)

lemma ini_no_section: "ini_dict d \<Longrightarrow> section_names d = [] \<Longrightarrow> dict_entries d = []"
proof (rule ccontr)
  assume a: "ini_dict d" "section_names d = []" "dict_entries d \<noteq> []"
  then obtain e where e: "e \<in> set (dict_entries d)" using last_in_set by blast
  have "fst e \<notin> set (section_names d)" "key_section (fst e) \<notin> set (section_names d)" using a(2) by simp_all
  then show False using ini_entry[OF a(1) e] e by (auto simp: entry_ok_def section_names_iff)
qed

lemma distinct_groups:
  assumes "distinct ss" "\<forall>s \<in> set ss. distinct (map fst (f s)) \<and> (\<forall>e \<in> set (f s). g (fst e) = s)"
  shows "distinct (map fst (concat (map f ss)))"
  using assms by (induction ss) (auto, metis fst_conv)

lemma map_of_same:
  assumes "hm_ok a" "hm_ok b" "set a = set b"
  shows "map_of a = map_of b"
proof
  fix k
  have "map_of a k = Some v \<longleftrightarrow> map_of b k = Some v" for v
    using assms by (simp add: hm_ok_def)
  then show "map_of a k = map_of b k" by (metis option.exhaust)
qed

text \<open>The entries by section are the entries.\<close>

lemma grouped_entries:
  assumes "ini_dict d"
  defines "es \<equiv> concat (map (\<lambda>s. (s, None) # section_entries d s) (section_names d))"
  shows "distinct (map fst es)" "map_of es = map_of (dict_entries d)"
proof -
  have ok: "hm_ok (dict_entries d)" using assms(1) by (simp add: ini_dict_def dict_ok_def)
  have names: "distinct (section_names d)" using ok by (simp add: section_names_def hm_ok_def)
  have group: "distinct (map fst ((s, None) # section_entries d s)) \<and>
      (\<forall>e \<in> set ((s, None) # section_entries d s). key_section (fst e) = s)" if s: "s \<in> set (section_names d)" for s
  proof -
    have c: "CHR '':'' \<notin> set s" using s by (simp add: section_names_iff)
    have "distinct (map fst (section_entries d s))"
      using ok by (simp add: section_entries_def hm_ok_def distinct_map_filter)
    moreover have "key_section s = s" using c unfolding key_section_def by (auto simp: takeWhile_eq_all_conv)
    ultimately show ?thesis using c section_entries_iff[OF c] by auto
  qed
  show dist: "distinct (map fst es)"
    unfolding es_def by (rule distinct_groups[OF names, where g = key_section]) (use group in blast)
  have "e \<in> set es \<longleftrightarrow> e \<in> set (dict_entries d)" for e
  proof
    assume "e \<in> set es"
    then obtain s where s: "s \<in> set (section_names d)" "e = (s, None) \<or> e \<in> set (section_entries d s)"
      by (auto simp: es_def)
    then show "e \<in> set (dict_entries d)" using ini_section[OF assms(1) s(1)] by (auto simp: section_entries_def)
  next
    assume e: "e \<in> set (dict_entries d)"
    show "e \<in> set es"
    proof (cases "CHR '':'' \<in> set (fst e)")
      case True
      then have k: "key_section (fst e) \<in> set (section_names d)"
        using ini_entry[OF assms(1) e] by (simp add: entry_ok_def)
      then have "e \<in> set (section_entries d (key_section (fst e)))"
        using section_entries_iff[of "key_section (fst e)"] e True by (simp add: section_names_iff)
      then show ?thesis using k by (auto simp: es_def)
    next
      case False
      then have "fst e \<in> set (section_names d)" "e = (fst e, None)"
        using ini_entry[OF assms(1) e] e by (auto simp: entry_ok_def section_names_iff prod_eq_iff)
      then show ?thesis by (force simp: es_def)
    qed
  qed
  then show "map_of es = map_of (dict_entries d)"
    using dist ok by (intro map_of_same) (auto simp: hm_ok_def)
qed


definition small_dictionary :: dictionary where
  "small_dictionary = \<lparr>dict_n = 3, dict_size = 4, dict_vals = [Some ''gdbm'', None, None, Some []],
     dict_keys = [Some ''base:backend'', None, Some ''base'', Some ''base:note''],
     dict_hashes = [dictionary_hash ''base:backend'', 0, dictionary_hash ''base'', dictionary_hash ''base:note'']\<rparr>"

lemma small_dictionary_ok: "ini_dict small_dictionary"
proof -
  have "dict_hashes small_dictionary ! i = dictionary_hash k" if "i < 4" "dict_keys small_dictionary ! i = Some k" for i k
  proof -
    have "i = 0 \<or> i = 1 \<or> i = 2 \<or> i = 3" using that(1) by linarith
    then show ?thesis using that(2) by (elim disjE) (simp_all add: small_dictionary_def)
  qed
  moreover have "dict_entries small_dictionary = [(''base:backend'', Some ''gdbm''), (''base'', None), (''base:note'', Some [])]"
    by (simp add: dict_entries_def small_dictionary_def)
  moreover have "dict_size small_dictionary = 4" "dict_n small_dictionary = 3" "length (dict_keys small_dictionary) = 4"
    "length (dict_vals small_dictionary) = 4" "length (dict_hashes small_dictionary) = 4"
    by (simp_all add: small_dictionary_def)
  ultimately have "dict_ok small_dictionary"
    by (simp add: dict_ok_def hm_ok_def)
  moreover have "list_all (entry_ok small_dictionary) (dict_entries small_dictionary)" by code_simp
  ultimately show ?thesis by (simp add: ini_dict_def)
qed


text \<open>A line of blanks (at least one and the newline) at the start of a file makes \<open>iniparser_load\<close> look for
  a backslash in front of its buffer: the loop that cuts the blanks off stops at -1, and \<open>line[-1]\<close> is read.\<close>

theorem blank_line_underreads:
  assumes "w \<noteq> []" "\<forall>c \<in> set w. isspace c \<and> c \<noteq> NL" "length w \<le> 1022"
  shows "iniparser_load (Some (w @ NL # rest)) = Inl OutOfBounds"
proof -
  have "\<not> isspace NUL" by (simp add: isspace_def)
  then have n: "NL \<notin> set w" "NUL \<notin> set w" using assms(2) by blast+
  have fg: "fgets (ASCIILINESZ - length ([] :: bytes)) (w @ NL # rest) = Some (w @ [NL], rest, False)"
    using fgets_line[OF n(1)] assms(3) by simp
  have tw: "takeWhile (\<lambda>c. c \<noteq> NUL) (w @ [NL]) = w @ [NL]" using n(2) by (intro takeWhile_no_NUL) auto
  have "rstrip (w @ [NL]) = []" using assms(2) isspace_NL by (intro rstrip_all) simp
  then show ?thesis
    unfolding iniparser_load_def option.case Suc_eq_plus1[symmetric] load_loop.simps fg prod.case append_Nil tw Let_def
    using assms(1) by simp
qed

theorem blank_line_underreads_witness:
  "iniparser_load (Some (''  '' @ NL # ''[base]'')) = Inl OutOfBounds"
  by (rule blank_line_underreads) (simp_all add: isspace_def)

lemma load_error_line:
  assumes "stripped l" "length l \<le> ASCIILINESZ" "l \<noteq> []" "hd l \<notin> set ''[#;''" "CHR ''='' \<notin> set l"
  shows "load_line (rstrip l) sec dict errs = Inr (sec, dict, errs + 1)"
proof -
  have r: "rstrip l = l" using assms(1) by (intro rstrip_id) (auto simp: stripped_def)
  have "dropWhile (\<lambda>c. c \<noteq> CHR ''='') l = []" using assms(5) by (auto simp: dropWhile_eq_Nil_conv)
  note dw = this
  have "scan_key l = None" unfolding scan_key_def Let_def dw by simp
  then show ?thesis
    using assms(3,4) unfolding r load_line_def iniparser_line_def strstrip_stripped[OF assms(1,2)] bindE_Inr by simp
qed

text \<open>A line without an equal sign is a syntax error that makes \<open>iniparser_load\<close> give up a file, but only when
  no section and no value comes after it: \<open>errs\<close> is overwritten by the result of the next \<open>dictionary_set\<close>, and
  the file loads as if the line were not there.\<close>

theorem syntax_error_forgotten:
  assumes "plain_line l" "stripped l" "l \<noteq> []" "hd l \<notin> set ''[#;''" "CHR ''='' \<notin> set l"
    and "items_ok [] (ISection s # is)"
  shows "iniparser_load (Some (text_of [l])) = Inr None \<and>
    iniparser_load (Some (text_of (l # map item_line (ISection s # is)))) =
    iniparser_load (Some (text_of (map item_line (ISection s # is))))"
proof -
  have len: "length l \<le> ASCIILINESZ" using assms(1) by (simp add: plain_line_def)
  note err = load_error_line[OF assms(2) len assms(3-5)]
  have s: "secname_ok s" using assms(6) by simp
  have lines: "\<forall>x \<in> set (map item_line (ISection s # is)). plain_line x" using items_plain[OF assms(6)] by blast
  have "iniparser_load (Some (text_of [l])) = Inr None"
    using load_lines[of "[l]"] assms(1,3) err by simp
  moreover have "run_lines (l # map item_line (ISection s # is)) [] d 0 = run_lines (map item_line (ISection s # is)) [] d 0" for d
    using assms(3) err load_section_line[OF s] by simp
  ultimately show ?thesis
    using load_lines[OF lines] load_lines[of "l # map item_line (ISection s # is)"] lines assms(1) by simp
qed

theorem syntax_error_forgotten_witness:
  "iniparser_load (Some (text_of [''backend''])) = Inr None \<and>
    iniparser_load (Some (text_of (''backend'' # map item_line [ISection ''base'']))) =
    iniparser_load (Some (text_of (map item_line [ISection ''base''])))"
  by (rule syntax_error_forgotten)
    (simp_all add: plain_line_def stripped_def isspace_def rstrip_def secname_ok_def plain_def)

section \<open>Loading ends\<close>

lemma fgets_progress:
  assumes "fgets n rest = Some (chunk, rest', eof)" "2 \<le> n"
  shows "length rest' < length rest \<and> length chunk \<le> n - 1"
proof -
  have ne: "rest \<noteq> []" using assms(1) by (auto simp: fgets_def)
  let ?l = "takeWhile (\<lambda>c. c \<noteq> NL) rest @ take 1 (dropWhile (\<lambda>c. c \<noteq> NL) rest)"
  have c: "chunk = take (n - 1) ?l" "rest' = drop (length chunk) rest"
    using assms(1) ne unfolding fgets_def Let_def by (simp_all only: if_False option.inject prod.inject, blast+)
  have "?l \<noteq> []" using ne by (cases rest) auto
  then have "0 < length chunk" using c(1) assms(2) by simp
  then show ?thesis using c ne by simp
qed

lemma strstrip_Inl: "strstrip s = Inl e \<Longrightarrow> e = OutOfBounds"
  by (auto simp: strstrip_def Let_def split: if_splits)

lemma iniparser_line_Inl: "iniparser_line l sec = Inl e \<Longrightarrow> e = OutOfBounds"
  by (auto simp: iniparser_line_def res_simps split: if_splits option.splits) (blast intro: strstrip_Inl)+

definition load_result_ok :: "dictionary option res \<Rightarrow> bool" where
  "load_result_ok r = (case r of Inl e \<Rightarrow> e = OutOfBounds | Inr None \<Rightarrow> True | Inr (Some d) \<Rightarrow> dict_ok d \<and> compact d)"

lemma load_line_cases:
  assumes "dict_ok d" "compact d"
  shows "case load_line l sec d errs of Inl e \<Rightarrow> e = OutOfBounds | Inr (_, d', _) \<Rightarrow> dict_ok d' \<and> compact d'"
proof (cases "iniparser_line l sec")
  case (Inl e)
  then show ?thesis using iniparser_line_Inl[OF Inl] by (simp add: load_line_def)
next
  case (Inr r)
  obtain sta s k v where r: "r = (sta, s, k, v)" by (cases r)
  have put: "\<exists>d'. dict_set d key val = Inr (0, d') \<and> dict_ok d' \<and> compact d'" for key val
    using dt.put_ents[OF assms(1)] assms(2) by blast
  show ?thesis
  proof (cases sta)
    case LINE_SECTION
    then show ?thesis using put[of s None] Inr r by (auto simp: load_line_def)
  next
    case LINE_VALUE
    then show ?thesis using put[of "s @ '':'' @ k" "Some v"] Inr r by (auto simp: load_line_def sprint_line_def)
  qed (simp_all add: load_line_def Inr r assms)
qed

lemma load_loop_ends:
  assumes "length rest < fuel" "length kept \<le> 1022" "dict_ok d" "compact d"
  shows "load_result_ok (load_loop fuel rest kept sec d errs)"
  using assms
proof (induction fuel arbitrary: rest kept sec d errs)
  case (Suc fuel)
  show ?case
  proof (cases "fgets (ASCIILINESZ - length kept) rest")
    case None
    then show ?thesis using Suc.prems by (simp add: load_result_ok_def)
  next
    case (Some r)
    obtain chunk rest' eof where r: "r = (chunk, rest', eof)" by (cases r)
    have p: "length rest' < length rest" "length chunk \<le> 1023 - length kept"
      using fgets_progress[OF Some[unfolded r]] Suc.prems(2) by auto
    define line where "line = kept @ takeWhile (\<lambda>c. c \<noteq> NUL) chunk"
    have ll: "length line \<le> 1023"
      using p(2) Suc.prems(2) length_takeWhile_le[of "\<lambda>c. c \<noteq> NUL" chunk] by (simp add: line_def)
    have IH: "load_result_ok (load_loop fuel rest' k' s' d' e')" if "length k' \<le> 1022" "dict_ok d'" "compact d'" for k' s' d' e'
      using Suc.IH[of rest' k' d' s' e'] Suc.prems(1) p(1) that by simp
    have line: "load_result_ok (bindE (load_line (rstrip line) sec d errs) (\<lambda>(s, d, e). if e < 0 then Inr None else load_loop fuel rest' [] s d e))"
      using load_line_cases[OF Suc.prems(3,4), of "rstrip line" sec errs]
      by (cases "load_line (rstrip line) sec d errs") (auto simp: load_result_ok_def[of "Inl _"] load_result_ok_def[of "Inr None"] intro!: IH)
    have b: "length (butlast (rstrip line)) \<le> 1022" using length_rstrip[of line] ll by simp
    show ?thesis
      unfolding load_loop.simps Some r option.case prod.case line_def[symmetric] Let_def
      using line IH[OF Suc.prems(2-4)] IH[OF b Suc.prems(3,4)]
      by (auto simp: load_result_ok_def[of "Inl _"] load_result_ok_def[of "Inr None"])
  qed
qed simp

lemma load_sound: "load_result_ok (iniparser_load contents)"
  by (cases contents) (simp_all add: load_result_ok_def[of "Inr None"] iniparser_load_def load_loop_ends dict_ok_new compact_new
      del: load_loop.simps)

lemma load_dict_ok: "iniparser_load contents = Inr (Some d) \<Longrightarrow> dict_ok d \<and> compact d"
  using load_sound[of contents] by (simp add: load_result_ok_def)

text \<open>\<open>iniparser_load\<close> ends for every file, also for ones with NULs, without a newline at the end, with lines
  that are too long or that are continued: it returns NULL or a well-formed dictionary in the order of the
  file, or it has left the bounds of a buffer; the search for an empty slot of the dictionary never hangs.\<close>

theorem load_ends:
  "case iniparser_load contents of Inl e \<Rightarrow> e = OutOfBounds | Inr None \<Rightarrow> True | Inr (Some d) \<Rightarrow> dict_ok d \<and> compact d"
  using load_sound[of contents] by (simp only: load_result_ok_def)

end
