(* ===== verification/Configurator.thy ===== *)
theory Configurator
  imports Iniparser Backend
begin

text \<open>
  The configuration of the daemon, \<open>src/shared/configurator.c\<close>: five settings, each from the command line,
  the environment, the configuration file or the defaults of the build, and the layers that the sections
  of the file describe. The environment, the file system and the defaults are a parameter. The process
  has one \<open>conf\<close>, which the functions take and return.
\<close>

section \<open>State\<close>

abbreviation (input) "CONFIG_MIN \<equiv> 0 :: nat"
abbreviation (input) "CONFIG_CONF_FILE \<equiv> 1 :: nat"
abbreviation (input) "CONFIG_MODULE_DIR \<equiv> 2 :: nat"
abbreviation (input) "CONFIG_DB_PATH \<equiv> 3 :: nat"
abbreviation (input) "CONFIG_SMACK_LOAD_FILE \<equiv> 4 :: nat"
abbreviation (input) "CONFIG_BUXTON_SOCKET \<equiv> 5 :: nat"
abbreviation (input) "CONFIG_MAX \<equiv> 6 :: nat"
abbreviation (input) "PATH_MAX \<equiv> 4096 :: nat"

record conf_state =
  conf_initialized :: bool
  conf_keys :: "bytes option list"
  conf_ini :: "dictionary option"

text \<open>\<open>secure_getenv\<close>, the contents of the files, and \<open>COMPILE_DEFAULT\<close>.\<close>

record conf_world =
  getenv :: "bytes \<Rightarrow> bytes option"
  contents_of :: "bytes \<Rightarrow> bytes option"
  compile_default :: "nat \<Rightarrow> bytes"

definition initial_conf :: conf_state where
  "initial_conf = \<lparr>conf_initialized = False, conf_keys = replicate CONFIG_MAX None, conf_ini = None\<rparr>"

definition KS :: "bytes list" where
  "KS = [[], ''BUXTON_CONF_FILE'', ''BUXTON_MODULE_DIR'', ''BUXTON_DB_PATH'', ''BUXTON_SMACK_LOAD_FILE'',
         ''BUXTON_BUXTON_SOCKET'']"

definition config_keys :: "bytes option list" where
  "config_keys = [None, None, Some ''ModuleDirectory'', Some ''DatabasePath'', Some ''SmackLoadFile'', Some ''SocketPath'']"

abbreviation (input) "CONFIG_SECTION \<equiv> ''Configuration''"

section \<open>Settings\<close>

text \<open>The pointer a lookup with the default \<open>def\<close> returns.\<close>

definition ini_pointer :: "bytes option \<Rightarrow> bytes option option \<Rightarrow> bytes option" where
  "ini_pointer def r = (case r of None \<Rightarrow> def | Some v \<Rightarrow> v)"

text \<open>One round of the loop of \<open>initialize\<close>.\<close>

definition init_key :: "conf_world \<Rightarrow> nat \<Rightarrow> conf_state \<Rightarrow> conf_state res" where
  "init_key w i conf =
     (let k = (case conf_keys conf ! i of None \<Rightarrow> getenv w (KS ! i) | Some v \<Rightarrow> Some v)
      in bindE
           (case (k, conf_ini conf) of
              (None, Some ini) \<Rightarrow> (case config_keys ! i of
                  None \<Rightarrow> Inl NullDeref
                | Some name \<Rightarrow> bindE (iniparser_getstring (Some ini) (Some (CONFIG_SECTION @ '':'' @ name)))
                    (\<lambda>r. Inr (ini_pointer None r)))
            | _ \<Rightarrow> Inr k)
           (\<lambda>k.
             let path = (case k of None \<Rightarrow> compile_default w i | Some v \<Rightarrow> v);
                 conf = conf\<lparr>conf_keys := (conf_keys conf)[i := Some path]\<rparr>
             in if i = CONFIG_CONF_FILE
                then bindE (iniparser_load (contents_of w path)) (\<lambda>ini. Inr (conf\<lparr>conf_ini := ini\<rparr>))
                else Inr conf))"

fun init_keys :: "conf_world \<Rightarrow> nat list \<Rightarrow> conf_state \<Rightarrow> conf_state res" where
  "init_keys w [] conf = Inr conf"
| "init_keys w (i # is) conf = bindE (init_key w i conf) (\<lambda>conf. init_keys w is conf)"

definition initialize :: "conf_world \<Rightarrow> conf_state \<Rightarrow> conf_state res" where
  "initialize w conf =
     (if conf_initialized conf then Inr conf
      else bindE (init_keys w [CONFIG_MIN + 1..<CONFIG_MAX] conf) (\<lambda>conf. Inr (conf\<lparr>conf_initialized := True\<rparr>)))"

definition buxton_add_cmd_line :: "nat \<Rightarrow> bytes option \<Rightarrow> conf_state \<Rightarrow> conf_state" where
  "buxton_add_cmd_line confkey data conf =
     (if CONFIG_MAX \<le> confkey \<or> confkey \<le> CONFIG_MIN then conf
      else case data of None \<Rightarrow> conf
        | Some s \<Rightarrow> conf\<lparr>conf_keys := (conf_keys conf)[confkey := Some s]\<rparr>)"

definition buxton_module_dir :: "conf_world \<Rightarrow> conf_state \<Rightarrow> (bytes option \<times> conf_state) res" where
  "buxton_module_dir w conf = bindE (initialize w conf) (\<lambda>conf. Inr (conf_keys conf ! CONFIG_MODULE_DIR, conf))"

definition buxton_conf_file :: "conf_world \<Rightarrow> conf_state \<Rightarrow> (bytes option \<times> conf_state) res" where
  "buxton_conf_file w conf = bindE (initialize w conf) (\<lambda>conf. Inr (conf_keys conf ! CONFIG_CONF_FILE, conf))"

definition buxton_db_path :: "conf_world \<Rightarrow> conf_state \<Rightarrow> (bytes option \<times> conf_state) res" where
  "buxton_db_path w conf = bindE (initialize w conf) (\<lambda>conf. Inr (conf_keys conf ! CONFIG_DB_PATH, conf))"

definition buxton_smack_load_file :: "conf_world \<Rightarrow> conf_state \<Rightarrow> (bytes option \<times> conf_state) res" where
  "buxton_smack_load_file w conf = bindE (initialize w conf) (\<lambda>conf. Inr (conf_keys conf ! CONFIG_SMACK_LOAD_FILE, conf))"

definition buxton_socket :: "conf_world \<Rightarrow> conf_state \<Rightarrow> (bytes option \<times> conf_state) res" where
  "buxton_socket w conf = bindE (initialize w conf) (\<lambda>conf. Inr (conf_keys conf ! CONFIG_BUXTON_SOCKET, conf))"

section \<open>Layers\<close>

definition get_ini_string :: "dictionary option \<Rightarrow> bytes \<Rightarrow> bytes \<Rightarrow> bool \<Rightarrow> bytes option \<Rightarrow> bytes option res" where
  "get_ini_string ini section name required def =
     bindE (assertE (ini \<noteq> None)) (\<lambda>_.
     bindE (iniparser_getstring ini (Some (take (PATH_MAX - 1) (section @ '':'' @ name)))) (\<lambda>r.
       let s = ini_pointer def r in if s = None \<and> required then Inl Aborted else Inr s))"

definition get_ini_int :: "dictionary option \<Rightarrow> bytes \<Rightarrow> bytes \<Rightarrow> bool \<Rightarrow> int \<Rightarrow> int res" where
  "get_ini_int ini section name required def =
     bindE (assertE (ini \<noteq> None)) (\<lambda>_.
       let buf = take (PATH_MAX - 1) (section @ '':'' @ name)
       in bindE (iniparser_find_entry ini (Some buf)) (\<lambda>found.
            if \<not> found \<and> required then Inl Aborted else iniparser_getint ini (Some buf) def))"

text \<open>
  A layer of the section \<open>section_name\<close>. The strings that are required are not NULL. \<open>access\<close> is NULL
  when the entry has no value; the only reader, \<open>is_read_only\<close>, gives it to \<open>strcmp\<close> at once.
\<close>

definition section_layer :: "dictionary option \<Rightarrow> bytes \<Rightarrow> ConfigLayer res" where
  "section_layer ini section_name =
     bindE (get_ini_string ini section_name ''Description'' True None) (\<lambda>description.
     bindE (get_ini_string ini section_name ''Backend'' True None) (\<lambda>backend.
     bindE (get_ini_string ini section_name ''Type'' True None) (\<lambda>type.
     bindE (get_ini_int ini section_name ''Priority'' True 0) (\<lambda>priority.
     bindE (get_ini_string ini section_name ''Access'' False (Some ''read-write'')) (\<lambda>access.
       case access of
         None \<Rightarrow> Inl NullDeref
       | Some a \<Rightarrow> Inr \<lparr>conf_name = section_name, conf_type = the type, conf_backend = the backend,
           conf_description = description, conf_access = a, conf_priority = priority\<rparr>)))))"

fun layers_from :: "dictionary option \<Rightarrow> int list \<Rightarrow> ConfigLayer list res" where
  "layers_from ini [] = Inr []"
| "layers_from ini (i # is) = (case iniparser_getsecname ini i of
       None \<Rightarrow> Inl Aborted
     | Some section_name \<Rightarrow>
         if map tolower section_name = map tolower CONFIG_SECTION then layers_from ini is
         else bindE (section_layer ini section_name) (\<lambda>l. bindE (layers_from ini is) (\<lambda>ls. Inr (l # ls))))"

definition buxton_key_get_layers :: "conf_world \<Rightarrow> conf_state \<Rightarrow> (ConfigLayer list \<times> conf_state) res" where
  "buxton_key_get_layers w conf =
     bindE (initialize w conf) (\<lambda>conf.
       if conf_ini conf = None then Inl Aborted
       else bindE (layers_from (conf_ini conf) [0..iniparser_getnsec (conf_ini conf) - 1]) (\<lambda>ls. Inr (ls, conf)))"

section \<open>Where a setting comes from\<close>

definition first_some :: "'a option \<Rightarrow> 'a option \<Rightarrow> 'a option" where
  "first_some a b = (case a of None \<Rightarrow> b | Some v \<Rightarrow> Some v)"

text \<open>The value of setting \<open>i\<close>: command line, environment, file, default.\<close>

definition setting :: "conf_world \<Rightarrow> conf_state \<Rightarrow> dictionary option \<Rightarrow> nat \<Rightarrow> bytes" where
  "setting w conf ini i =
     (case first_some (first_some (conf_keys conf ! i) (getenv w (KS ! i)))
             (case (ini, config_keys ! i) of
                (Some d, Some name) \<Rightarrow> ini_pointer None (map_of (dict_entries d) (strlwc (CONFIG_SECTION @ '':'' @ name)))
              | _ \<Rightarrow> None) of
        None \<Rightarrow> compile_default w i | Some v \<Rightarrow> v)"

lemma init_key_file:
  assumes "conf_ini conf = None" "iniparser_load (contents_of w (setting w conf None 1)) = Inr ini"
  shows "init_key w 1 conf = Inr (conf\<lparr>conf_keys := (conf_keys conf)[1 := Some (setting w conf None 1)], conf_ini := ini\<rparr>)"
  using assms unfolding init_key_def setting_def first_some_def Let_def
  by (cases "conf_keys conf ! 1"; cases "getenv w (KS ! 1)") simp_all

lemma init_key_other:
  assumes "i \<in> {2, 3, 4, 5}" "\<forall>d. conf_ini conf = Some d \<longrightarrow> dict_ok d"
  shows "init_key w i conf = Inr (conf\<lparr>conf_keys := (conf_keys conf)[i := Some (setting w conf (conf_ini conf) i)]\<rparr>)"
proof -
  obtain name where n: "config_keys ! i = Some name" "i \<noteq> 1" using assms(1) by (auto simp: config_keys_def)
  show ?thesis
  proof (cases "conf_ini conf")
    case None
    then show ?thesis using n unfolding init_key_def setting_def first_some_def Let_def
      by (cases "conf_keys conf ! i"; cases "getenv w (KS ! i)") simp_all
  next
    case (Some d)
    then have "iniparser_getstring (Some d) (Some k) = Inr (map_of (dict_entries d) (strlwc k))" for k
      using assms(2) dt.get_ents[of d "strlwc k"] by (simp add: iniparser_getstring_def)
    then show ?thesis using n Some unfolding init_key_def setting_def first_some_def Let_def
      by (cases "conf_keys conf ! i"; cases "getenv w (KS ! i)") simp_all
  qed
qed

lemma initialize_settings:
  assumes "\<not> conf_initialized conf" "conf_ini conf = None" "length (conf_keys conf) = CONFIG_MAX"
    and "iniparser_load (contents_of w (setting w conf None CONFIG_CONF_FILE)) = Inr ini"
  shows "\<exists>conf'. initialize w conf = Inr conf' \<and> initialize w conf' = Inr conf' \<and> conf_ini conf' = ini \<and>
    conf_keys conf' = [conf_keys conf ! CONFIG_MIN, Some (setting w conf None CONFIG_CONF_FILE),
      Some (setting w conf ini CONFIG_MODULE_DIR), Some (setting w conf ini CONFIG_DB_PATH),
      Some (setting w conf ini CONFIG_SMACK_LOAD_FILE), Some (setting w conf ini CONFIG_BUXTON_SOCKET)]"
proof -
  obtain a b c d e f where k: "conf_keys conf = [a, b, c, d, e, f]"
    using assms(3) by (auto simp: length_Suc_conv numeral_eq_Suc)
  have ini: "\<forall>x. ini = Some x \<longrightarrow> dict_ok x"
    using load_dict_ok assms(4) by blast
  have idx: "[CONFIG_MIN + 1..<CONFIG_MAX] = [1, 2, 3, 4, 5]" by (simp add: upt_rec)
  have step: "init_key w i (conf\<lparr>conf_keys := ks, conf_ini := ini\<rparr>) =
      Inr (conf\<lparr>conf_keys := ks[i := Some (setting w conf ini i)], conf_ini := ini\<rparr>)"
    if "i \<in> {2, 3, 4, 5}" "ks ! i = conf_keys conf ! i" for i ks
  proof -
    have "setting w (conf\<lparr>conf_keys := ks, conf_ini := ini\<rparr>) ini i = setting w conf ini i"
      using that(2) by (simp add: setting_def)
    then show ?thesis using init_key_other[OF that(1), of "conf\<lparr>conf_keys := ks, conf_ini := ini\<rparr>" w] ini by simp
  qed
  define C where "C = conf\<lparr>conf_keys := [a, Some (setting w conf None 1), Some (setting w conf ini 2),
      Some (setting w conf ini 3), Some (setting w conf ini 4), Some (setting w conf ini 5)], conf_ini := ini\<rparr>"
  have "init_keys w [1, 2, 3, 4, 5] conf = Inr C"
    unfolding init_keys.simps init_key_file[OF assms(2,4)] bindE_Inr by (simp add: k step C_def)
  then have "initialize w conf = Inr (C\<lparr>conf_initialized := True\<rparr>)"
    unfolding initialize_def idx using assms(1) by simp
  moreover have "initialize w (C\<lparr>conf_initialized := True\<rparr>) = Inr (C\<lparr>conf_initialized := True\<rparr>)"
    by (simp add: initialize_def)
  ultimately show ?thesis by (intro exI[of _ "C\<lparr>conf_initialized := True\<rparr>"] conjI) (simp_all add: C_def k)
qed

text \<open>C34. Every setting is taken from the command line if it was given there, else from the environment, else from
  the configuration file, else from the defaults of the build; which file is read is decided in the same way,
  without the file. The decision is taken once: later calls find the settings as they are.\<close>

theorem settings_by_priority:
  assumes "\<not> conf_initialized conf" "conf_ini conf = None" "length (conf_keys conf) = CONFIG_MAX"
    and "iniparser_load (contents_of w (setting w conf None CONFIG_CONF_FILE)) = Inr ini"
  shows "\<exists>conf'. initialize w conf = Inr conf' \<and> initialize w conf' = Inr conf' \<and> conf_ini conf' = ini \<and>
    conf_keys conf' = [conf_keys conf ! CONFIG_MIN, Some (setting w conf None CONFIG_CONF_FILE),
      Some (setting w conf ini CONFIG_MODULE_DIR), Some (setting w conf ini CONFIG_DB_PATH),
      Some (setting w conf ini CONFIG_SMACK_LOAD_FILE), Some (setting w conf ini CONFIG_BUXTON_SOCKET)]"
  by (rule initialize_settings[OF assms])

definition sample_world :: conf_world where
  "sample_world = \<lparr>getenv = (\<lambda>k. if k = ''BUXTON_DB_PATH'' then Some ''/tmp/db'' else None),
     contents_of = (\<lambda>p. if p = ''/etc/buxton.conf'' then Some (''[configuration]'' @ NL # ''socketpath=/tmp/s'' @ [NL]) else None),
     compile_default = (\<lambda>i. ''/etc/buxton.conf'')\<rparr>"

lemma sample_world_loads:
  "\<exists>d. iniparser_load (contents_of sample_world ''/etc/buxton.conf'') = Inr (Some d)"
proof -
  let ?is = "[ISection ''configuration'', IPair ''socketpath'' 0 0 ''/tmp/s'']"
  have "items_ok [] ?is" "distinct (map fst (item_puts [] ?is))" by code_simp+
  from load_items[OF this] obtain d where "iniparser_load (Some (text_of (map item_line ?is))) = Inr (Some d)" by blast
  then show ?thesis by (simp add: sample_world_def text_of_def)
qed

theorem settings_by_priority_witness:
  "\<exists>ini conf'. initialize sample_world initial_conf = Inr conf' \<and> initialize sample_world conf' = Inr conf' \<and>
    conf_ini conf' = ini \<and> conf_keys conf' = [None, Some ''/etc/buxton.conf'',
      Some (setting sample_world initial_conf ini CONFIG_MODULE_DIR), Some ''/tmp/db'',
      Some (setting sample_world initial_conf ini CONFIG_SMACK_LOAD_FILE), Some (setting sample_world initial_conf ini CONFIG_BUXTON_SOCKET)]"
proof -
  obtain d where d: "iniparser_load (contents_of sample_world ''/etc/buxton.conf'') = Inr (Some d)"
    using sample_world_loads by blast
  have p: "setting sample_world initial_conf None 1 = ''/etc/buxton.conf''"
    "setting sample_world initial_conf x 3 = ''/tmp/db''" for x
    by (simp_all add: setting_def first_some_def initial_conf_def sample_world_def KS_def nth_Cons' split: option.splits)
  have c: "\<not> conf_initialized initial_conf" "conf_ini initial_conf = None" "length (conf_keys initial_conf) = CONFIG_MAX"
    "conf_keys initial_conf ! 0 = None"
    by (simp_all add: initial_conf_def)
  have "iniparser_load (contents_of sample_world (setting sample_world initial_conf None CONFIG_CONF_FILE)) = Inr (Some d)"
    unfolding p(1) by (rule d)
  from settings_by_priority[OF c(1-3) this] show ?thesis unfolding p c(4) by blast
qed
section \<open>The layers of a file\<close>

text \<open>A file as its sections, each with its pairs; names in lower case, as the parser stores them.\<close>

fun section_pairs :: "ini_item list \<Rightarrow> (bytes \<times> bytes) list" where
  "section_pairs [] = []"
| "section_pairs (ISection s # is) = []"
| "section_pairs (IPair k n m v # is) = (map tolower k, v) # section_pairs is"
| "section_pairs (_ # is) = section_pairs is"

fun file_sections :: "ini_item list \<Rightarrow> (bytes \<times> (bytes \<times> bytes) list) list" where
  "file_sections [] = []"
| "file_sections (ISection s # is) = (map tolower s, section_pairs is) # file_sections is"
| "file_sections (_ # is) = file_sections is"

text \<open>The layer that a section describes, if it has all that is required.\<close>

definition file_layer :: "bytes \<times> (bytes \<times> bytes) list \<Rightarrow> ConfigLayer option" where
  "file_layer sec = (let get = map_of (snd sec) in
     case (get ''description'', get ''backend'', get ''type'', get ''priority'') of
       (Some d, Some b, Some t, Some p) \<Rightarrow> Some
         \<lparr>conf_name = fst sec, conf_type = t, conf_backend = b, conf_description = Some d,
          conf_access = (case get ''access'' of None \<Rightarrow> ''read-write'' | Some a \<Rightarrow> a),
          conf_priority = sint (word_of_int (strtol p) :: 32 word)\<rparr>
     | _ \<Rightarrow> None)"

definition section_puts :: "bytes \<times> (bytes \<times> bytes) list \<Rightarrow> (bytes \<times> bytes option) list" where
  "section_puts sec = map (\<lambda>(k, v). (fst sec @ '':'' @ k, Some v)) (snd sec)"

lemma item_puts_sections:
  "item_puts s is = section_puts (s, section_pairs is) @
     concat (map (\<lambda>sec. (fst sec, None) # section_puts sec) (file_sections is))"
  by (induction s "is" rule: item_puts.induct) (simp_all add: section_puts_def)

lemma tolower_cases:
  obtains "tolower c = c" "\<not> (65 \<le> (of_char c :: nat) \<and> (of_char c :: nat) \<le> 90)"
    | "(of_char (tolower c) :: nat) = of_char c + 32" "65 \<le> (of_char c :: nat)" "(of_char c :: nat) \<le> 90"
proof (cases "65 \<le> (of_char c :: nat) \<and> (of_char c :: nat) \<le> 90")
  case True
  then show ?thesis using that(2) by (simp add: tolower_def Let_def of_char_of)
next
  case False
  then have "tolower c = c" unfolding tolower_def Let_def by (rule if_not_P)
  then show ?thesis using that(1) False by blast
qed

lemma tolower_tolower [simp]: "tolower (tolower c) = tolower c"
proof (cases c rule: tolower_cases)
  case 2
  then show ?thesis by (cases "tolower c" rule: tolower_cases) simp_all
qed simp

lemma tolower_colon: "tolower c = CHR '':'' \<longleftrightarrow> c = CHR '':''"
proof (cases c rule: tolower_cases)
  case 2
  have "c \<noteq> CHR '':''" using 2(2) by auto
  moreover have "tolower c \<noteq> CHR '':''"
  proof
    assume "tolower c = CHR '':''"
    then show False using 2(1,2) by simp
  qed
  ultimately show ?thesis by simp
qed simp

lemma colon_map_tolower: "CHR '':'' \<in> set (map tolower s) \<longleftrightarrow> CHR '':'' \<in> set s"
proof -
  have "CHR '':'' \<in> set (map tolower s) \<longleftrightarrow> (\<exists>c \<in> set s. tolower c = CHR '':'')" by force
  then show ?thesis by (simp add: tolower_colon)
qed

lemma file_section_names:
  assumes "items_ok sec is" "(s, kvs) \<in> set (file_sections is)"
  shows "s \<noteq> [] \<and> CHR '':'' \<notin> set s \<and> map tolower s = s"
  using assms
  by (induction sec "is" rule: items_ok.induct)
    (auto simp: secname_ok_def colon_map_tolower simp del: set_map)

lemma file_section_list:
  assumes "items_ok [] is"
  shows "filter (\<lambda>k. CHR '':'' \<notin> set k) (map fst (item_puts [] is)) = map fst (file_sections is)"
proof -
  have none: "filter (\<lambda>k. CHR '':'' \<notin> set k) (map fst (section_puts sec)) = []" for sec
    by (auto simp: section_puts_def filter_empty_conv)
  have "filter (\<lambda>k. CHR '':'' \<notin> set k) (map fst (concat (map (\<lambda>sec. (fst sec, None) # section_puts sec) secs))) = map fst secs"
    if "\<forall>sec \<in> set secs. CHR '':'' \<notin> set (fst sec)" for secs
    using that by (induction secs) (simp_all add: none)
  then show ?thesis
    using file_section_names[OF assms] by (fastforce simp: item_puts_sections[of "[]"] none)
qed

text \<open>What a lookup finds in a section.\<close>

lemma file_lookup:
  assumes ok: "items_ok [] is" and d: "distinct (map fst (item_puts [] is))" and s: "(s, kvs) \<in> set (file_sections is)"
  shows "map_of (item_puts [] is) (s @ '':'' @ k) = map_option Some (map_of kvs k)"
proof -
  let ?P = "item_puts [] is"
  have sc: "s \<noteq> []" "CHR '':'' \<notin> set s" using file_section_names[OF ok s] by auto
  have sub: "(s, None) # section_puts (s, kvs) \<in> set (map (\<lambda>sec. (fst sec, None) # section_puts sec) (file_sections is))"
    using s by force
  have names: "distinct (map fst (file_sections is))"
    unfolding file_section_list[OF ok, symmetric] using d by simp
  have keys: "distinct (map fst kvs)"
  proof -
    obtain A B where "file_sections is = A @ (s, kvs) # B" using split_list[OF s] by blast
    then have "distinct (map fst (section_puts (s, kvs)))" using d by (simp add: item_puts_sections[of "[]"])
    then have "distinct (map (\<lambda>k. s @ '':'' @ k) (map fst kvs))" by (simp add: section_puts_def case_prod_unfold comp_def)
    then show ?thesis by (rule distinct_map[THEN iffD1, THEN conjunct1])
  qed
  have "(s @ '':'' @ k, x) \<in> set ?P \<longleftrightarrow> (\<exists>v. x = Some v \<and> (k, v) \<in> set kvs)" for x
  proof
    assume "(s @ '':'' @ k, x) \<in> set ?P"
    then consider "(s @ '':'' @ k, x) \<in> set (section_puts ([], section_pairs is))"
      | s' kvs' where "(s', kvs') \<in> set (file_sections is)" "(s @ '':'' @ k, x) = (s', None)"
      | s' kvs' where "(s', kvs') \<in> set (file_sections is)" "(s @ '':'' @ k, x) \<in> set (section_puts (s', kvs'))"
      unfolding item_puts_sections[of "[]"] by auto
    then show "\<exists>v. x = Some v \<and> (k, v) \<in> set kvs"
    proof cases
      case 1
      then obtain k' where "s @ '':'' @ k = [] @ '':'' @ k'" by (auto simp: section_puts_def)
      then have "s = []" using key_section_app[OF sc(2), of k] key_section_app[of "[]" k'] by simp
      then show ?thesis using sc(1) by simp
    next
      case (2 s' kvs')
      then have "CHR '':'' \<in> set s'" by auto
      then show ?thesis using file_section_names[OF ok 2(1)] by simp
    next
      case (3 s' kvs')
      then obtain k' v where v: "s @ '':'' @ k = s' @ '':'' @ k'" "x = Some v" "(k', v) \<in> set kvs'"
        by (auto simp: section_puts_def)
      have "CHR '':'' \<notin> set s'" using file_section_names[OF ok 3(1)] by simp
      then have "s = s'" using key_section_app[OF sc(2), of k] key_section_app[of s' k'] v(1) by simp
      moreover from this have "kvs = kvs'" using names s 3(1) by (metis eq_key_imp_eq_value)
      ultimately show ?thesis using v by simp
    qed
  next
    assume "\<exists>v. x = Some v \<and> (k, v) \<in> set kvs"
    then have "(s @ '':'' @ k, x) \<in> set (section_puts (s, kvs))" by (force simp: section_puts_def)
    then show "(s @ '':'' @ k, x) \<in> set ?P" using s unfolding item_puts_sections[of "[]"] by fastforce
  qed
  then have iff: "map_of ?P (s @ '':'' @ k) = Some x \<longleftrightarrow> (\<exists>v. x = Some v \<and> map_of kvs k = Some v)" for x
    using d keys by simp
  show ?thesis
  proof (cases "map_of kvs k")
    case None
    then show ?thesis using iff by (cases "map_of ?P (s @ '':'' @ k)") auto
  next
    case (Some v)
    then show ?thesis using iff[of "Some v"] by simp
  qed
qed

lemma file_getstring:
  assumes ok: "items_ok [] is" and d: "distinct (map fst (item_puts [] is))" and s: "(s, kvs) \<in> set (file_sections is)"
    and D: "dict_ok d" "dict_entries d = item_puts [] is" and len: "length s \<le> 1000" "length n \<le> 20"
  shows "iniparser_getstring (Some d) (Some (take (PATH_MAX - 1) (s @ '':'' @ n))) = Inr (map_option Some (map_of kvs (map tolower n)))"
proof -
  have "take (PATH_MAX - 1) (s @ '':'' @ n) = s @ '':'' @ n" using len by simp
  moreover have "strlwc (s @ '':'' @ n) = s @ '':'' @ map tolower n"
    using len file_section_names[OF ok s] by (simp add: strlwc_short tolower_def)
  ultimately show ?thesis
    using dt.get_ents[OF D(1)] file_lookup[OF ok d s] by (simp add: iniparser_getstring_def D(2))
qed

lemma file_section_layer:
  assumes "items_ok [] is" "distinct (map fst (item_puts [] is))" "(s, kvs) \<in> set (file_sections is)"
    and "dict_ok d" "dict_entries d = item_puts [] is" "length s \<le> 1000"
  shows "section_layer (Some d) s = (case file_layer (s, kvs) of None \<Rightarrow> Inl Aborted | Some l \<Rightarrow> Inr l)"
proof -
  note g = file_getstring[OF assms]
  have low: "map tolower ''Description'' = ''description''" "map tolower ''Backend'' = ''backend''"
    "map tolower ''Type'' = ''type''" "map tolower ''Priority'' = ''priority''" "map tolower ''Access'' = ''access''"
    by code_simp+
  have str: "get_ini_string (Some d) s n req def =
      (case map_of kvs (map tolower n) of None \<Rightarrow> if def = None \<and> req then Inl Aborted else Inr def | Some v \<Rightarrow> Inr (Some v))"
    if "length n \<le> 20" for n req def
    using g[OF that] by (simp add: get_ini_string_def ini_pointer_def split: option.splits)
  have num: "get_ini_int (Some d) s n True 0 =
      (case map_of kvs (map tolower n) of None \<Rightarrow> Inl Aborted | Some v \<Rightarrow> Inr (sint (word_of_int (strtol v) :: 32 word)))"
    if "length n \<le> 20" for n
    using g[OF that] by (simp add: get_ini_int_def iniparser_find_entry_def iniparser_getint_def Let_def split: option.splits)
  have l: "length ''Description'' \<le> 20" "length ''Backend'' \<le> 20" "length ''Type'' \<le> 20" "length ''Priority'' \<le> 20"
    "length ''Access'' \<le> 20" by simp_all
  show ?thesis
    unfolding section_layer_def str[OF l(1)] str[OF l(2)] str[OF l(3)] num[OF l(4)] str[OF l(5)] low file_layer_def Let_def
    by (simp split: option.splits)
qed

text \<open>The loop over the sections by their number visits them in their order.\<close>

fun named_layers :: "dictionary option \<Rightarrow> bytes list \<Rightarrow> ConfigLayer list res" where
  "named_layers ini [] = Inr []"
| "named_layers ini (s # ss) =
     (if map tolower s = map tolower CONFIG_SECTION then named_layers ini ss
      else bindE (section_layer ini s) (\<lambda>l. bindE (named_layers ini ss) (\<lambda>ls. Inr (l # ls))))"

lemma layers_from_names:
  "layers_from (Some d) [0..iniparser_getnsec (Some d) - 1] = named_layers (Some d) (section_names d)"
proof -
  let ?n = "int (length (section_names d))"
  have "layers_from (Some d) js = named_layers (Some d) (map (\<lambda>j. section_names d ! nat j) js)"
    if "\<forall>j \<in> set js. 0 \<le> j \<and> j < ?n" for js
    using that by (induction js) (simp_all add: iniparser_getsecname_def)
  moreover have "map (\<lambda>j. section_names d ! nat j) [0..?n - 1] = section_names d"
    by (rule nth_equalityI) simp_all
  ultimately show ?thesis by (simp add: iniparser_getnsec_def)
qed

definition describes_layer :: "bytes \<times> (bytes \<times> bytes) list \<Rightarrow> bool" where
  "describes_layer sec \<longleftrightarrow> fst sec \<noteq> ''configuration''"

fun those_layers :: "(bytes \<times> (bytes \<times> bytes) list) list \<Rightarrow> ConfigLayer list option" where
  "those_layers [] = Some []"
| "those_layers (sec # secs) = (if \<not> describes_layer sec then those_layers secs
     else case (file_layer sec, those_layers secs) of (Some l, Some ls) \<Rightarrow> Some (l # ls) | _ \<Rightarrow> None)"

lemma named_layers_file:
  assumes "items_ok [] is" "distinct (map fst (item_puts [] is))" "dict_ok d" "dict_entries d = item_puts [] is"
    and "\<forall>sec \<in> set (file_sections is). length (fst sec) \<le> 1000"
  shows "named_layers (Some d) (section_names d) =
    (case those_layers (file_sections is) of None \<Rightarrow> Inl Aborted | Some ls \<Rightarrow> Inr ls)"
proof -
  have "named_layers (Some d) (map fst secs) = (case those_layers secs of None \<Rightarrow> Inl Aborted | Some ls \<Rightarrow> Inr ls)"
    if "set secs \<subseteq> set (file_sections is)" for secs
    using that
  proof (induction secs)
    case (Cons sec secs)
    obtain s kvs where sec: "sec = (s, kvs)" by (cases sec)
    have m: "(s, kvs) \<in> set (file_sections is)" "length s \<le> 1000" using Cons.prems assms(5) sec by auto
    have low: "map tolower s = s" using file_section_names[OF assms(1) m(1)] by simp
    have c: "map tolower CONFIG_SECTION = ''configuration''" by code_simp
    have "map fst (sec # secs) = s # map fst secs" by (simp add: sec)
    then have n: "named_layers (Some d) (map fst (sec # secs)) = (if s = ''configuration'' then named_layers (Some d) (map fst secs)
        else bindE (section_layer (Some d) s) (\<lambda>l. bindE (named_layers (Some d) (map fst secs)) (\<lambda>ls. Inr (l # ls))))"
      by (simp only: named_layers.simps low c)
    show ?case
      using Cons file_section_layer[OF assms(1,2) m(1) assms(3,4) m(2)] unfolding n
      by (simp add: sec describes_layer_def split: option.splits)
  qed simp
  then show ?thesis using file_section_list[OF assms(1)] by (simp add: section_names_def assms(4))
qed

lemma file_layers:
  assumes "\<not> conf_initialized conf" "conf_ini conf = None" "length (conf_keys conf) = CONFIG_MAX"
    and "contents_of w (setting w conf None CONFIG_CONF_FILE) = Some (text_of (map item_line is))"
    and "items_ok [] is" "distinct (map fst (item_puts [] is))"
    and "\<forall>sec \<in> set (file_sections is). length (fst sec) \<le> 1000"
  shows "case those_layers (file_sections is) of
      None \<Rightarrow> buxton_key_get_layers w conf = Inl Aborted
    | Some ls \<Rightarrow> \<exists>conf'. buxton_key_get_layers w conf = Inr (ls, conf')"
proof -
  obtain d where d: "iniparser_load (Some (text_of (map item_line is))) = Inr (Some d)" "dict_ok d"
    "dict_entries d = item_puts [] is"
    using load_items[OF assms(5,6)] by blast
  then have "iniparser_load (contents_of w (setting w conf None CONFIG_CONF_FILE)) = Inr (Some d)"
    using assms(4) by simp
  from initialize_settings[OF assms(1-3) this] obtain conf' where
    i: "initialize w conf = Inr conf'" "conf_ini conf' = Some d" by blast
  show ?thesis
    using named_layers_file[OF assms(5,6) d(2,3) assms(7)]
    by (simp add: buxton_key_get_layers_def i layers_from_names split: option.splits)
qed

text \<open>C33. A configuration file of sections, pairs, comments and empty lines, without repeated names, gives exactly
  the layers that its sections describe, in their order and without the section \<open>Configuration\<close>: names of
  sections and keys count in lower case, values as they are written, the access is read-write if none is
  given. A section that lacks a type, a backend, a description or a priority aborts the daemon.\<close>

theorem layers_of_file:
  assumes "\<not> conf_initialized conf" "conf_ini conf = None" "length (conf_keys conf) = CONFIG_MAX"
    and "contents_of w (setting w conf None CONFIG_CONF_FILE) = Some (text_of (map item_line is))"
    and "items_ok [] is" "distinct (map fst (item_puts [] is))"
    and "\<forall>sec \<in> set (file_sections is). length (fst sec) \<le> 1000"
  shows "case those_layers (file_sections is) of
      None \<Rightarrow> buxton_key_get_layers w conf = Inl Aborted
    | Some ls \<Rightarrow> \<exists>conf'. buxton_key_get_layers w conf = Inr (ls, conf')"
  by (rule file_layers[OF assms])

text \<open>The file that the repository ships, \<open>data/buxton.conf\<close>.\<close>

definition shipped_conf :: "ini_item list" where
  "shipped_conf =
    [IComment [], IComment '' Default buxton config file'', IComment [], IEmpty,
     ISection ''Configuration'', IComment ''ModuleDirectory=${libdir}/buxton'',
     IComment ''DatabasePath=${localstatedir}/lib/buxton'',
     IComment ''SmackLoadFile=/sys/fs/smackfs/load2'', IComment ''SocketPath=/run/buxton-0'', IEmpty,
     ISection ''base'', IPair ''Type'' 0 0 ''System'', IPair ''Backend'' 0 0 ''gdbm'',
     IPair ''Description'' 0 0 ''Operating System configuration layer'', IPair ''Priority'' 0 0 ''0'',
     IComment '' This will end up being a file at @@DB_PATH@@/base.db'', IEmpty, ISection ''isp'',
     IPair ''Type'' 0 0 ''System'', IPair ''Backend'' 0 0 ''gdbm'',
     IPair ''Description'' 0 0 ''ISP specific settings'', IPair ''Priority'' 0 0 ''1'',
     IComment '' This will end up being a file at @@DB_PATH@@/isp.db'', IEmpty, ISection ''temp'',
     IPair ''Type'' 0 0 ''System'', IPair ''Backend'' 0 0 ''memory'', IPair ''Priority'' 0 0 ''99'',
     IPair ''Description'' 0 0 ''A temporary layer for scratch settings and data'',
     IComment '' This will not end up in any file'', IEmpty, ISection ''user'',
     IPair ''Type'' 0 0 ''User'', IPair ''Backend'' 0 0 ''gdbm'', IPair ''Priority'' 0 0 ''1000'',
     IPair ''Description'' 0 0 ''Per-user settings'',
     IComment '' This will end up in @@DB_PATH@@/user-<uid>.db'']"

definition shipped_world :: conf_world where
  "shipped_world = \<lparr>getenv = (\<lambda>k. None),
     contents_of = (\<lambda>p. if p = ''/etc/buxton.conf'' then Some (text_of (map item_line shipped_conf)) else None),
     compile_default = (\<lambda>i. ''/etc/buxton.conf'')\<rparr>"

lemma shipped_conf_ok: "items_ok [] shipped_conf" "distinct (map fst (item_puts [] shipped_conf))"
    "list_all (\<lambda>sec. length (fst sec) \<le> 1000) (file_sections shipped_conf)"
  by code_simp+

lemma shipped_layers: "those_layers (file_sections shipped_conf) = Some
    [\<lparr>conf_name = ''base'', conf_type = ''System'', conf_backend = ''gdbm'',
      conf_description = Some ''Operating System configuration layer'', conf_access = ''read-write'', conf_priority = 0\<rparr>,
     \<lparr>conf_name = ''isp'', conf_type = ''System'', conf_backend = ''gdbm'',
      conf_description = Some ''ISP specific settings'', conf_access = ''read-write'', conf_priority = 1\<rparr>,
     \<lparr>conf_name = ''temp'', conf_type = ''System'', conf_backend = ''memory'',
      conf_description = Some ''A temporary layer for scratch settings and data'', conf_access = ''read-write'', conf_priority = 99\<rparr>,
     \<lparr>conf_name = ''user'', conf_type = ''User'', conf_backend = ''gdbm'',
      conf_description = Some ''Per-user settings'', conf_access = ''read-write'', conf_priority = 1000\<rparr>]"
  by code_simp

theorem layers_of_file_witness:
  "\<exists>conf'. buxton_key_get_layers shipped_world initial_conf = Inr
    ([\<lparr>conf_name = ''base'', conf_type = ''System'', conf_backend = ''gdbm'',
      conf_description = Some ''Operating System configuration layer'', conf_access = ''read-write'', conf_priority = 0\<rparr>,
     \<lparr>conf_name = ''isp'', conf_type = ''System'', conf_backend = ''gdbm'',
      conf_description = Some ''ISP specific settings'', conf_access = ''read-write'', conf_priority = 1\<rparr>,
     \<lparr>conf_name = ''temp'', conf_type = ''System'', conf_backend = ''memory'',
      conf_description = Some ''A temporary layer for scratch settings and data'', conf_access = ''read-write'', conf_priority = 99\<rparr>,
     \<lparr>conf_name = ''user'', conf_type = ''User'', conf_backend = ''gdbm'',
      conf_description = Some ''Per-user settings'', conf_access = ''read-write'', conf_priority = 1000\<rparr>], conf')"
proof -
  have c: "\<not> conf_initialized initial_conf" "conf_ini initial_conf = None" "length (conf_keys initial_conf) = CONFIG_MAX"
    by (simp_all add: initial_conf_def)
  have "setting shipped_world initial_conf None CONFIG_CONF_FILE = ''/etc/buxton.conf''"
    by (simp add: setting_def first_some_def initial_conf_def shipped_world_def)
  then have "contents_of shipped_world (setting shipped_world initial_conf None CONFIG_CONF_FILE) =
      Some (text_of (map item_line shipped_conf))" by (simp add: shipped_world_def)
  from layers_of_file[OF c this shipped_conf_ok(1,2)] show ?thesis
    using shipped_conf_ok(3) by (simp add: shipped_layers list_all_iff)
qed

end
