(* ===== verification/Startup.thy ===== *)
theory Startup
  imports Main_Loop Configurator Gdbm
begin

text \<open>
  How the daemon starts and stops (\<open>main\<close> of \<open>src/core/main.c\<close>): its options, the Smack rules and the
  descriptor that watches them, the layers of the configuration, the signals, its sockets; at the end
  the connections, the clients, the registrations and the layers are given back. What the kernel says
  of a peer (\<open>identify_client\<close> and \<open>handle_smack_label\<close> of \<open>src/core/daemon.c\<close>) is here, too. Each
  system call is an argument: what it answers. The loop in between is theory \<open>Connections\<close>.
\<close>

unbundle bit_operations_syntax

section \<open>Who the client is\<close>

abbreviation (input) "SOL_SOCKET \<equiv> 1 :: int"
abbreviation (input) "SCM_CREDENTIALS \<equiv> 2 :: int"
abbreviation (input) "CMSG_LEN_UCRED \<equiv> 28 :: nat"
abbreviation (input) "ERANGE \<equiv> 34 :: int"
abbreviation (input) "ENOPROTOOPT \<equiv> 92 :: int"

text \<open>Whether \<open>recvmsg\<close> got something, the first control header with its length, level and type, and
  what \<open>SO_PEERCRED\<close> gives.\<close>

record cred_answer =
  cr_received :: bool
  cr_header :: "(nat \<times> int \<times> int) option"
  cr_peercred :: "(32 word \<times> 32 word) option"

definition identify_client :: "cred_answer \<Rightarrow> (32 word \<times> 32 word) option res" where
  "identify_client a =
     (if \<not> cr_received a then Inr None
      else case cr_header a of
        None \<Rightarrow> Inl Aborted
      | Some (len, level, type) \<Rightarrow>
          if len \<noteq> CMSG_LEN_UCRED then Inl Aborted
          else if level \<noteq> SOL_SOCKET \<or> type \<noteq> SCM_CREDENTIALS then Inl Aborted
          else case cr_peercred a of None \<Rightarrow> Inl Aborted | Some c \<Rightarrow> Inr (Some c))"

text \<open>The error of the first call (if any), the length it leaves, and what the second call writes.\<close>

record label_answer =
  lb_error :: "int option"
  lb_length :: "32 word"
  lb_label :: "bytes option"

text \<open>The end of the process by \<open>exit\<close> is \<open>Aborted\<close>; a write behind the buffer faults.\<close>

definition handle_smack_label :: "label_answer \<Rightarrow> BuxtonString option res" where
  "handle_smack_label a =
     (if lb_error a = Some ENOPROTOOPT then Inr None
      else if lb_error a \<noteq> None \<and> lb_error a \<noteq> Some ERANGE then Inl Aborted
      else
        let buf = replicate (unat (lb_length a) + 1) NUL
        in case lb_label a of
             None \<Rightarrow> Inl Aborted
           | Some l \<Rightarrow>
               if unat (lb_length a) < length l then Inl OutOfBounds
               else Inr (Some \<lparr>str_value = Some (l @ drop (length l) buf), str_length = word_of_nat (length l)\<rparr>))"

text \<open>The two answers as the loop takes them.\<close>

definition peer_of :: "cred_answer \<Rightarrow> label_answer \<Rightarrow> peer" where
  "peer_of c l = \<lparr>peer_cred = identify_client c, peer_label = handle_smack_label l\<rparr>"

text \<open>The block of a label has a byte more than the label, and ends with a NUL.\<close>

lemma label_terminated:
  assumes "handle_smack_label a = Inr (Some s)" "lb_label a = Some l"
  shows "\<exists>b. str_value s = Some (b @ [NUL]) \<and> unat (lb_length a) = length b \<and> take (length l) b = l \<and>
    unat (str_length s) = length l"
proof -
  have len: "length l \<le> unat (lb_length a)" and s: "str_value s = Some (l @ replicate (unat (lb_length a) + 1 - length l) NUL)"
    "str_length s = word_of_nat (length l)"
    using assms by (auto simp: handle_smack_label_def Let_def simp del: replicate_Suc split: if_splits)
  have "unat (lb_length a) < 2 ^ 32" by (rule order.strict_trans2[OF unsigned_less]) simp
  then have "length l < 2 ^ 32" using len by simp
  then have "unat (str_length s) = length l" by (simp add: s(2) unat_of_nat take_bit_nat_eq_self)
  moreover have "replicate (unat (lb_length a) + 1 - length l) NUL = replicate (unat (lb_length a) - length l) NUL @ [NUL]"
    using len by (simp add: Suc_diff_le replicate_append_same)
  ultimately show ?thesis using len s
    by (intro exI[of _ "l @ replicate (unat (lb_length a) - length l) NUL"]) simp
qed

section \<open>The options\<close>

datatype daemon_arg = ConfigFile bytes | Help | OtherArg

abbreviation (input) "S_IFDIR \<equiv> 16384 :: 32 word"

text \<open>\<open>getopt_long\<close> gives the options; \<open>stat\<close> the mode of a file. \<open>None\<close> is the exit with a failure.\<close>

fun daemon_options :: "(bytes \<Rightarrow> 32 word option) \<Rightarrow> daemon_arg list \<Rightarrow> bool \<times> conf_state \<Rightarrow> (bool \<times> conf_state) option" where
  "daemon_options stat [] s = Some s"
| "daemon_options stat (ConfigFile f # args) (help, conf) = (case stat f of
       None \<Rightarrow> None
     | Some mode \<Rightarrow> if mode AND S_IFDIR \<noteq> 0 then None
                    else daemon_options stat args (help, buxton_add_cmd_line CONFIG_CONF_FILE (Some f) conf))"
| "daemon_options stat (Help # args) (help, conf) = daemon_options stat args (True, conf)"
| "daemon_options stat (OtherArg # args) s = daemon_options stat args s"

text \<open>The bit that is tested is set in the mode of sockets (0140644) and of block devices (060644), too.\<close>

lemma not_only_directories: "(49572 :: 32 word) AND S_IFDIR \<noteq> 0 \<and> (24996 :: 32 word) AND S_IFDIR \<noteq> 0 \<and> (33188 :: 32 word) AND S_IFDIR = 0"
  by simp

section \<open>The start\<close>

text \<open>
  The answers of the system: files and modes; whether smackfs is mounted, and the load file; the
  descriptor of \<open>inotify_init1\<close> or an error, and the error of \<open>inotify_add_watch\<close> for a path; whether the signals could be set up, and their descriptor; the
  descriptors of \<open>systemd\<close> by their kinds (\<open>None\<close> for an error); and the own socket.
\<close>

record boot =
  bt_stat :: "bytes \<Rightarrow> 32 word option"
  bt_world :: conf_world
  bt_smackfs :: bool
  bt_load_file :: "bytes option \<Rightarrow> SmackFs"
  bt_inotify :: "int + int"
  bt_watch :: "bytes option \<Rightarrow> int option"
  bt_signals :: bool
  bt_signalfd :: int
  bt_uid :: "32 word"
  bt_listen_fds :: "fd_kind list option"
  bt_socket :: int
  bt_unlink :: "bytes \<Rightarrow> int option"
  bt_bind :: "bytes \<Rightarrow> bool"
  bt_listen :: bool

abbreviation (input) "SD_LISTEN_FDS_START \<equiv> 3 :: int"
abbreviation (input) "SUN_PATH_LEN \<equiv> 108 :: nat"

definition initial_smack :: SmackState where
  "initial_smack = \<lparr>have_smack = True, smackrules = None\<rparr>"

text \<open>The descriptor or -1, and \<open>errno\<close>.\<close>

definition buxton_watch_smack_rules ::
  "int + int \<Rightarrow> (bytes option \<Rightarrow> int option) \<Rightarrow> conf_world \<Rightarrow> conf_state \<Rightarrow> SmackState \<Rightarrow> (int \<times> int \<times> conf_state) res" where
  "buxton_watch_smack_rules inotify_init1 inotify_add_watch w conf st =
     (if \<not> have_smack st then Inr (- 1, 0, conf)
      else case inotify_init1 of
        Inl e \<Rightarrow> Inr (- 1, e, conf)
      | Inr fd \<Rightarrow> bindE (buxton_smack_load_file w conf) (\<lambda>(path, conf).
          Inr (case inotify_add_watch path of Some e \<Rightarrow> (- 1, e, conf) | None \<Rightarrow> (fd, 0, conf))))"

text \<open>The own socket: made, its old name removed, bound and listening; \<open>None\<close> is the exit.\<close>

definition own_socket :: "boot \<Rightarrow> bytes \<Rightarrow> (int \<times> fd_kind) list option" where
  "own_socket b path =
     (let sun_path = take (SUN_PATH_LEN - 1) path in
      if bt_socket b < 0 then None
      else if bt_unlink b sun_path \<notin> {None, Some ENOENT} then None
      else if \<not> bt_bind b sun_path then None
      else if \<not> bt_listen b then None
      else Some [(bt_socket b, UnixStream)])"

datatype 's start_end = UsageShown | StartFailed | Started bool int conf_state "'s BuxtonDaemon"

definition daemon_boot :: "'s \<Rightarrow> boot \<Rightarrow> daemon_arg list \<Rightarrow> 's start_end res" where
  "daemon_boot mods b args = (case daemon_options (bt_stat b) args (False, initial_conf) of
       None \<Rightarrow> Inr StartFailed
     | Some (True, _) \<Rightarrow> Inr UsageShown
     | Some (False, conf) \<Rightarrow>
       bindE (if bt_smackfs b
              then bindE (buxton_smack_load_file (bt_world b) conf) (\<lambda>(path, conf).
                   bindE (buxton_cache_smack_rules (bt_load_file b path) initial_smack) (\<lambda>(ok, st). Inr (ok, st, conf)))
              else bindE (buxton_cache_smack_rules FsNotMounted initial_smack) (\<lambda>(ok, st). Inr (ok, st, conf)))
         (\<lambda>(ok, st, conf).
       if \<not> ok then Inr StartFailed
       else
         bindE (buxton_watch_smack_rules (bt_inotify b) (bt_watch b) (bt_world b) conf st) (\<lambda>(smackfd, errno, conf).
         if smackfd < 0 \<and> errno \<noteq> 0 then Inr StartFailed
         else
           bindE (buxton_key_get_layers (bt_world b) conf) (\<lambda>(confs, conf).
           bindE (buxton_direct_open confs mods st) (\<lambda>ctl.
           if \<not> bt_signals b \<or> bt_signalfd b = - 1 then Inr StartFailed
           else case bt_listen_fds b of
               None \<Rightarrow> Inr StartFailed
             | Some ks \<Rightarrow>
                 bindE (if ks = [] then bindE (buxton_socket (bt_world b) conf) (\<lambda>(path, conf). case path of
                            None \<Rightarrow> Inl NullDeref | Some p \<Rightarrow> Inr (own_socket b p, conf))
                        else Inr (Some (zip (map int [nat SD_LISTEN_FDS_START..<nat SD_LISTEN_FDS_START + length ks]) ks), conf))
                   (\<lambda>(fds, conf). case fds of
                      None \<Rightarrow> Inr StartFailed
                    | Some fds \<Rightarrow>
                        bindE (daemon_start (ctl\<lparr>client_uid := bt_uid b\<rparr>) (bt_signalfd b) fds smackfd)
                          (\<lambda>d. Inr (Started (ks = []) smackfd conf d))))))))"


section \<open>A daemon that starts\<close>

lemma add_pollfd_buxton: "add_pollfd d fd ev a = Inr d' \<Longrightarrow> buxton d' = buxton d"
  by (auto simp: add_pollfd_def Let_def res_simps split: prod.splits if_splits)

lemma add_listeners_buxton: "add_listeners fds d = Inr d' \<Longrightarrow> buxton d' = buxton d"
proof (induction fds arbitrary: d)
  case (Cons x fds)
  obtain fd k where x: "x = (fd, k)" by (cases x)
  then obtain d1 where d1: "(case k of
         Fifo \<Rightarrow> add_pollfd d fd POLLIN False
       | UnixStream \<Rightarrow> add_pollfd d fd (POLLIN + POLLPRI) True
       | OtherSocket \<Rightarrow> add_pollfd d fd (POLLIN + POLLPRI) True
       | NoSocket \<Rightarrow> Inr d) = Inr d1" "add_listeners fds d1 = Inr d'"
    using Cons.prems by (auto simp: bindE_eq_Inr)
  then have "buxton d1 = buxton d" by (cases k) (auto dest: add_pollfd_buxton)
  then show ?case using Cons.IH[OF d1(2)] by simp
qed simp

lemma daemon_start_buxton: "daemon_start ctl sigfd fds smackfd = Inr d \<Longrightarrow> buxton d = ctl"
  by (auto simp: daemon_start_def bindE_eq_Inr dest!: add_pollfd_buxton add_listeners_buxton split: if_splits)

text \<open>The options only name a file; the last one counts.\<close>

fun last_file :: "daemon_arg list \<Rightarrow> bytes option \<Rightarrow> bytes option" where
  "last_file [] f = f"
| "last_file (ConfigFile g # args) f = last_file args (Some g)"
| "last_file (_ # args) f = last_file args f"

lemma daemon_options_conf:
  assumes "daemon_options stat args (hlp, conf) = Some (hlp', conf')" "length (conf_keys conf) = CONFIG_MAX"
  shows "conf' = conf\<lparr>conf_keys := (conf_keys conf)[CONFIG_CONF_FILE := last_file args (conf_keys conf ! CONFIG_CONF_FILE)]\<rparr>"
  using assms
proof (induction args arbitrary: hlp conf)
  case (Cons arg args)
  show ?case
  proof (cases arg)
    case (ConfigFile f)
    then show ?thesis using Cons.IH[of hlp "buxton_add_cmd_line CONFIG_CONF_FILE (Some f) conf"] Cons.prems
      by (auto simp: buxton_add_cmd_line_def split: option.splits if_splits)
  qed (use Cons in auto)
qed simp

text \<open>A system on which everything that the daemon asks for is there, and no descriptor is given twice: its own
  socket can be bound at the configured path.\<close>

definition listen_ok :: "boot \<Rightarrow> conf_state \<Rightarrow> bool" where
  "listen_ok b conf = (case bt_listen_fds b of
       None \<Rightarrow> False
     | Some ks \<Rightarrow>
         if ks = [] then 0 \<le> bt_socket b \<and> bt_listen b \<and>
           (\<exists>p c. buxton_socket (bt_world b) conf = Inr (Some p, c) \<and>
              (let path = take (SUN_PATH_LEN - 1) p in bt_bind b path \<and> bt_unlink b path \<in> {None, Some ENOENT}))
         else Fifo \<notin> set ks)"

definition listen_set :: "boot \<Rightarrow> int set" where
  "listen_set b = (case bt_listen_fds b of
       None \<Rightarrow> {}
     | Some ks \<Rightarrow> if ks = [] then {bt_socket b} else {SD_LISTEN_FDS_START..<SD_LISTEN_FDS_START + int (length ks)})"

definition good_boot :: "boot \<Rightarrow> conf_state \<Rightarrow> bool" where
  "good_boot b conf \<longleftrightarrow> bt_signals b \<and> 0 \<le> bt_signalfd b \<and> listen_ok b conf \<and> bt_signalfd b \<notin> listen_set b \<and>
     (\<exists>w. bt_inotify b = Inr w \<and> 0 \<le> w \<and> w \<noteq> bt_signalfd b \<and> w \<notin> listen_set b) \<and>
     (\<exists>p c. buxton_smack_load_file (bt_world b) conf = Inr (p, c) \<and> bt_watch b p = None \<and>
        (\<exists>st. buxton_cache_smack_rules (bt_load_file b p) initial_smack = Inr (True, st)))"

text \<open>The sockets on which the daemon accepts clients: its own, or those of systemd that are sockets.\<close>

definition served_sockets :: "boot \<Rightarrow> int list" where
  "served_sockets b = (case bt_listen_fds b of
       None \<Rightarrow> []
     | Some ks \<Rightarrow> if ks = [] then [bt_socket b]
                  else map fst (filter (\<lambda>(_, k). k \<noteq> NoSocket) (zip (map int [3..<3 + length ks]) ks)))"

text \<open>The poll set of a daemon that starts.\<close>

lemma add_pollfd_slots:
  "add_pollfd d fd ev a = Inr d' \<Longrightarrow> map pfd (pollfds d') = map pfd (pollfds d) @ [fd] \<and> accepting d' = accepting d @ [a]"
  by (auto simp: add_pollfd_def Let_def res_simps split: if_splits)

lemma add_listeners_slots:
  assumes "add_listeners fds d = Inr d'" "Fifo \<notin> snd ` set fds"
  shows "map pfd (pollfds d') = map pfd (pollfds d) @ map fst (filter (\<lambda>(_, k). k \<noteq> NoSocket) fds) \<and>
    accepting d' = accepting d @ map (\<lambda>_. True) (filter (\<lambda>(_, k). k \<noteq> NoSocket) fds)"
  using assms
proof (induction fds arbitrary: d)
  case (Cons x fds)
  obtain fd k where x: "x = (fd, k)" by (cases x)
  then obtain d1 where d1: "(case k of
         Fifo \<Rightarrow> add_pollfd d fd POLLIN False
       | UnixStream \<Rightarrow> add_pollfd d fd (POLLIN + POLLPRI) True
       | OtherSocket \<Rightarrow> add_pollfd d fd (POLLIN + POLLPRI) True
       | NoSocket \<Rightarrow> Inr d) = Inr d1" "add_listeners fds d1 = Inr d'"
    using Cons.prems by (auto simp: bindE_eq_Inr)
  then show ?case using Cons.IH[OF d1(2)] Cons.prems(2) x by (cases k) (auto dest!: add_pollfd_slots)
qed simp

lemma daemon_start_slots:
  assumes "daemon_start ctl sigfd fds smackfd = Inr d" "Fifo \<notin> snd ` set fds"
  shows "map pfd (pollfds d) = sigfd # map fst (filter (\<lambda>(_, k). k \<noteq> NoSocket) fds) @ (if 0 \<le> smackfd then [smackfd] else [])"
    "accepting d = False # map (\<lambda>_. True) (filter (\<lambda>(_, k). k \<noteq> NoSocket) fds) @ (if 0 \<le> smackfd then [False] else [])"
  using assms
  by (auto simp: daemon_start_def bindE_eq_Inr dest!: add_pollfd_slots add_listeners_slots split: if_splits)

lemma key_layers_again:
  "initialize w conf = Inr conf1 \<Longrightarrow> initialize w conf1 = Inr conf1 \<Longrightarrow>
   buxton_key_get_layers w conf1 = buxton_key_get_layers w conf"
  by (simp add: buxton_key_get_layers_def)

lemma key_layers_conf:
  "buxton_key_get_layers w conf = Inr (ls, conf') \<Longrightarrow> initialize w conf = Inr conf'"
  by (auto simp: buxton_key_get_layers_def bindE_eq_Inr split: if_splits)

lemma fst_zip_fds:
  assumes "ks \<noteq> []"
  shows "map fst (zip (map int [3..<3 + length ks]) ks) = map int [3..<3 + length ks]"
    "set (map int [3..<3 + length ks]) = {3..<3 + int (length ks)}"
proof -
  show "map fst (zip (map int [3..<3 + length ks]) ks) = map int [3..<3 + length ks]" by simp
  have "x \<in> set (map int [3..<3 + length ks])" if "3 \<le> x" "x < 3 + int (length ks)" for x
  proof -
    have "nat x \<in> set [3..<3 + length ks]" "x = int (nat x)" using that by auto
    then show ?thesis by (metis image_eqI list.set_map)
  qed
  then show "set (map int [3..<3 + length ks]) = {3..<3 + int (length ks)}" by auto
qed

lemma listen_fds:
  assumes good: "good_boot b conf" and ks: "bt_listen_fds b = Some ks"
    and c1: "initialize (bt_world b) conf = Inr conf1" "initialize (bt_world b) conf1 = Inr conf1"
    and w: "smackfd \<noteq> bt_signalfd b" "smackfd \<notin> listen_set b"
  obtains fds where "plain_fds (bt_signalfd b) fds smackfd"
    "map fst (filter (\<lambda>(_, k). k \<noteq> NoSocket) fds) = served_sockets b"
    "(if ks = [] then bindE (buxton_socket (bt_world b) conf1) (\<lambda>(path, conf). case path of
          None \<Rightarrow> Inl NullDeref | Some p \<Rightarrow> Inr (own_socket b p, conf))
      else Inr (Some (zip (map int [nat SD_LISTEN_FDS_START..<nat SD_LISTEN_FDS_START + length ks]) ks), conf1)) = Inr (Some fds, conf1)"
proof (cases "ks = []")
  case True
  obtain p where p: "conf_keys conf1 ! CONFIG_BUXTON_SOCKET = Some p"
    and g: "0 \<le> bt_signalfd b" "0 \<le> bt_socket b" "bt_listen b" "bt_bind b (take 107 p)" "bt_unlink b (take 107 p) \<in> {None, Some ENOENT}"
      "bt_signalfd b \<noteq> bt_socket b" "smackfd \<noteq> bt_socket b"
    using good ks True w c1(1) by (auto simp: good_boot_def listen_ok_def listen_set_def buxton_socket_def Let_def)
  then have "own_socket b p = Some [(bt_socket b, UnixStream)]" by (simp add: own_socket_def Let_def)
  moreover have "plain_fds (bt_signalfd b) [(bt_socket b, UnixStream)] smackfd"
    using g w by (auto simp: plain_fds_def)
  ultimately show thesis
    using that[of "[(bt_socket b, UnixStream)]"] True p ks by (simp add: buxton_socket_def c1(2) served_sockets_def)
next
  case False
  have g: "0 \<le> bt_signalfd b" "Fifo \<notin> set ks" "bt_signalfd b \<notin> {3..<3 + int (length ks)}" "smackfd \<notin> {3..<3 + int (length ks)}"
    using good ks False w by (auto simp: good_boot_def listen_ok_def listen_set_def)
  let ?z = "zip (map int [3..<3 + length ks]) ks"
  have "k \<noteq> Fifo \<and> 0 \<le> fd" if "(fd, k) \<in> set ?z" for fd k
    using set_zip_leftD[OF that] set_zip_rightD[OF that] g(2) by auto
  moreover have "distinct (map fst ?z)" by (simp add: fst_zip_fds(1)[OF False] distinct_map)
  moreover have "fst ` set ?z = {3..<3 + int (length ks)}"
    using fst_zip_fds[OF False] by (metis list.set_map)
  ultimately have "plain_fds (bt_signalfd b) ?z smackfd"
    using g w unfolding plain_fds_def by auto
  then show thesis using that[of ?z] False ks by (simp add: served_sockets_def)
qed

text \<open>What the daemon is when the loop begins.\<close>

definition booted :: "boot \<Rightarrow> 's \<Rightarrow> BuxtonConfig \<Rightarrow> conf_state \<Rightarrow> int \<Rightarrow> 's BuxtonDaemon \<Rightarrow> bool" where
  "booted b mods cfg conf smackfd d \<longleftrightarrow>
     config (buxton d) = cfg \<and> client_uid (buxton d) = bt_uid b \<and> modules (buxton d) = mods \<and>
     buxton_cache_smack_rules
       (if bt_smackfs b then bt_load_file b (conf_keys conf ! CONFIG_SMACK_LOAD_FILE) else FsNotMounted) initial_smack =
         Inr (True, rules (buxton d)) \<and>
     (if have_smack (rules (buxton d)) then bt_inotify b = Inr smackfd else smackfd = - 1) \<and>
     map pfd (pollfds d) = bt_signalfd b # served_sockets b @ (if 0 \<le> smackfd then [smackfd] else []) \<and>
     accepting d = False # map (\<lambda>_. True) (served_sockets b) @ (if 0 \<le> smackfd then [False] else [])"

lemma boot_layers:
  assumes good: "good_boot b conf" and args: "daemon_options (bt_stat b) args (False, initial_conf) = Some (False, conf)"
    and cont: "contents_of (bt_world b) (setting (bt_world b) conf None CONFIG_CONF_FILE) = Some (text_of (map item_line is))"
    and its: "items_ok [] is" "distinct (map fst (item_puts [] is))" "\<forall>sec \<in> set (file_sections is). length (fst sec) \<le> 1000"
  shows "case those_layers (file_sections is) of
      None \<Rightarrow> daemon_boot mods b args = Inl Aborted
    | Some confs \<Rightarrow> (case buxton_init_layers confs empty_config of
          Inl f \<Rightarrow> daemon_boot mods b args = Inl f
        | Inr cfg \<Rightarrow> \<exists>smackfd conf' d.
            daemon_boot mods b args = Inr (Started (bt_listen_fds b = Some []) smackfd conf' d) \<and>
            initialize (bt_world b) conf = Inr conf' \<and> booted b mods cfg conf' smackfd d \<and> reachable env smackfd d)"
proof -
  let ?w = "bt_world b"
  have conf: "\<not> conf_initialized conf" "conf_ini conf = None" "length (conf_keys conf) = CONFIG_MAX"
    using daemon_options_conf[OF args] by (auto simp: initial_conf_def)
  obtain d0 where d0: "iniparser_load (contents_of ?w (setting ?w conf None CONFIG_CONF_FILE)) = Inr (Some d0)"
    using load_items[OF its(1,2)] cont by auto
  obtain conf1 where c1: "initialize ?w conf = Inr conf1" "initialize ?w conf1 = Inr conf1"
    using initialize_settings[OF conf d0] by auto
  have ls: "case those_layers (file_sections is) of
      None \<Rightarrow> buxton_key_get_layers ?w conf = Inl Aborted
    | Some ls \<Rightarrow> \<exists>conf'. buxton_key_get_layers ?w conf = Inr (ls, conf')"
    by (rule file_layers[OF conf cont its])
  let ?p = "conf_keys conf1 ! CONFIG_SMACK_LOAD_FILE"
  let ?fs = "if bt_smackfs b then bt_load_file b ?p else FsNotMounted"
  define S where "S = (if bt_smackfs b
              then bindE (buxton_smack_load_file ?w conf) (\<lambda>(path, conf).
                   bindE (buxton_cache_smack_rules (bt_load_file b path) initial_smack) (\<lambda>(ok, st). Inr (ok, st, conf)))
              else bindE (buxton_cache_smack_rules FsNotMounted initial_smack) (\<lambda>(ok, st). Inr (ok, st, conf)))"
  have p: "bt_watch b ?p = None" "\<exists>st. buxton_cache_smack_rules (bt_load_file b ?p) initial_smack = Inr (True, st)"
    using good c1(1) by (auto simp: good_boot_def buxton_smack_load_file_def)
  obtain st conf2 where S: "S = Inr (True, st, conf2)" "conf2 \<in> {conf, conf1}"
    and st: "buxton_cache_smack_rules ?fs initial_smack = Inr (True, st)"
    using p(2) c1(1) by (cases "bt_smackfs b")
      (auto simp: S_def buxton_smack_load_file_def buxton_cache_smack_rules_def initial_smack_def)
  have c2: "initialize ?w conf2 = Inr conf1" using S(2) c1 by auto
  obtain smackfd conf4 where w: "buxton_watch_smack_rules (bt_inotify b) (bt_watch b) ?w conf2 st = Inr (smackfd, 0, conf4)"
    "smackfd \<noteq> bt_signalfd b" "smackfd \<notin> listen_set b" "conf4 \<in> {conf, conf1}"
    "if have_smack st then bt_inotify b = Inr smackfd else smackfd = - 1"
  proof (cases "have_smack st")
    case True
    then show thesis using good that c2 p(1)
      by (auto simp: good_boot_def buxton_watch_smack_rules_def buxton_smack_load_file_def)
  next
    case False
    have "- 1 \<notin> listen_set b" "bt_signalfd b \<noteq> - 1"
      using good by (auto simp: good_boot_def listen_ok_def listen_set_def split: option.splits if_splits)
    then show thesis using that[of "- 1" conf2] S(2) False by (simp add: buxton_watch_smack_rules_def)
  qed
  have k4: "buxton_key_get_layers ?w conf4 = buxton_key_get_layers ?w conf"
    using w(4) key_layers_again[OF c1] by auto
  have boot: "daemon_boot mods b args = bindE (buxton_key_get_layers ?w conf) (\<lambda>(confs, conf).
           bindE (buxton_direct_open confs mods st) (\<lambda>ctl.
           if \<not> bt_signals b \<or> bt_signalfd b = - 1 then Inr StartFailed
           else case bt_listen_fds b of
               None \<Rightarrow> Inr StartFailed
             | Some ks \<Rightarrow>
                 bindE (if ks = [] then bindE (buxton_socket ?w conf) (\<lambda>(path, conf). case path of
                            None \<Rightarrow> Inl NullDeref | Some p \<Rightarrow> Inr (own_socket b p, conf))
                        else Inr (Some (zip (map int [nat SD_LISTEN_FDS_START..<nat SD_LISTEN_FDS_START + length ks]) ks), conf))
                   (\<lambda>(fds, conf). case fds of
                      None \<Rightarrow> Inr StartFailed
                    | Some fds \<Rightarrow>
                        bindE (daemon_start (ctl\<lparr>client_uid := bt_uid b\<rparr>) (bt_signalfd b) fds smackfd)
                          (\<lambda>d. Inr (Started (ks = []) smackfd conf d)))))"
    using S(1) w(1) k4 unfolding daemon_boot_def args S_def by (simp cong: if_cong)
  show ?thesis
  proof (cases "those_layers (file_sections is)")
    case None
    then show ?thesis using ls by (simp add: boot)
  next
    case (Some confs)
    obtain conf3 where k: "buxton_key_get_layers ?w conf = Inr (confs, conf3)" using ls Some by auto
    have c3: "conf3 = conf1" using key_layers_conf[OF k] c1(1) by simp
    show ?thesis
    proof (cases "buxton_init_layers confs empty_config")
      case (Inl f)
      then show ?thesis using Some k by (simp add: boot buxton_direct_open_def)
    next
      case (Inr cfg)
      define ctl where "ctl = \<lparr>client_uid = bt_uid b, config = cfg, modules = mods, rules = st\<rparr>"
      obtain ks where ks: "bt_listen_fds b = Some ks" using good by (auto simp: good_boot_def listen_ok_def split: option.splits)
      obtain fds where fds: "plain_fds (bt_signalfd b) fds smackfd"
        "map fst (filter (\<lambda>(_, k). k \<noteq> NoSocket) fds) = served_sockets b"
        "(if ks = [] then bindE (buxton_socket ?w conf1) (\<lambda>(path, conf). case path of
                            None \<Rightarrow> Inl NullDeref | Some p \<Rightarrow> Inr (own_socket b p, conf))
          else Inr (Some (zip (map int [nat SD_LISTEN_FDS_START..<nat SD_LISTEN_FDS_START + length ks]) ks), conf1)) = Inr (Some fds, conf1)"
        by (rule listen_fds[OF good ks c1 w(2,3)])
      have nf: "Fifo \<notin> snd ` set fds" using fds(1) by (auto simp: plain_fds_def)
      obtain d where d: "daemon_start ctl (bt_signalfd b) fds smackfd = Inr d"
        using daemon_start_ok[OF fds(1)] by blast
      have s: "bt_signals b" "bt_signalfd b \<noteq> - 1" using good by (auto simp: good_boot_def)
      have "daemon_boot mods b args = Inr (Started (ks = []) smackfd conf1 d)"
        unfolding boot k c3 bindE_Inr prod.case using Inr ks s fds(3) d
        by (simp add: buxton_direct_open_def ctl_def cong: if_cong)
      moreover have "reachable env smackfd d" by (rule reachable.start[OF fds(1) d])
      moreover have "booted b mods cfg conf1 smackfd d"
        using daemon_start_slots[OF d nf] daemon_start_buxton[OF d] st w(5)
        by (simp add: booted_def ctl_def fds(2)[symmetric] comp_def)
      ultimately show ?thesis using Some Inr ks c1(1) by auto
    qed
  qed
qed


section \<open>The end of a backend\<close>

text \<open>
  \<open>buxton_module_destroy\<close> of \<open>src/db/memory.c\<close> and \<open>src/db/gdbm.c\<close>: the loops go through the table as
  it was and remove the entry they are at (\<open>Hashmap\<close>: \<open>foreach_visits_in_order\<close>). The result is what
  was freed or closed and what is left of the tables.
\<close>

datatype mem_release = FreeValrec valrec | FreeKeyrec keyrec | FreeMap | FreeKlayer bytes

fun destroy_db :: "(keyrec \<times> valrec) list \<Rightarrow> MemDb \<Rightarrow> mem_release list \<times> MemDb" where
  "destroy_db [] db = ([], db)"
| "destroy_db ((k, v) # es) db = (let (rs, db) = destroy_db es (snd (hm_remove db k)) in (FreeValrec v # FreeKeyrec k # rs, db))"

fun destroy_dbs :: "(bytes \<times> MemDb) list \<Rightarrow> Resources \<Rightarrow> mem_release list \<times> Resources" where
  "destroy_dbs [] res = ([], res)"
| "destroy_dbs ((klayer, db) # dbs) res =
     (let (rs, _) = destroy_db db db; (rs', res) = destroy_dbs dbs (snd (hm_remove res klayer))
      in (rs @ [FreeMap, FreeKlayer klayer] @ rs', res))"

definition mem_module_destroy :: "Resources \<Rightarrow> mem_release list \<times> Resources" where
  "mem_module_destroy res = destroy_dbs res res"

text \<open>\<open>gdbm_close\<close> of the library takes a handle; the result lists the handles closed.\<close>

fun close_handles :: "('f \<Rightarrow> 'w \<Rightarrow> 'w) \<Rightarrow> (bytes \<times> 'f) list \<Rightarrow> ('f, 'w) gdbm_state \<Rightarrow> 'f list \<times> ('f, 'w) gdbm_state" where
  "close_handles gdbm_close [] st = ([], st)"
| "close_handles gdbm_close ((key, db) # hs) st =
     (let (cs, st) = close_handles gdbm_close hs
            (st\<lparr>handles := snd (hm_remove (handles st) key), disk := gdbm_close db (disk st)\<rparr>)
      in (db # cs, st))"

definition gdbm_module_destroy :: "('f \<Rightarrow> 'w \<Rightarrow> 'w) \<Rightarrow> ('f, 'w) gdbm_state \<Rightarrow> 'f list \<times> ('f, 'w) gdbm_state" where
  "gdbm_module_destroy gdbm_close st = close_handles gdbm_close (handles st) st"

lemma remove_head: "hm_ok ((k, v) # m) \<Longrightarrow> snd (hm_remove ((k, v) # m) k) = m"
  by (auto simp: hm_ok_def hm_remove_def filter_id_conv)

lemma destroyed_db: "hm_ok db \<Longrightarrow> destroy_db db db = (concat (map (\<lambda>(k, v). [FreeValrec v, FreeKeyrec k]) db), [])"
proof (induction db)
  case (Cons e db)
  obtain k v where e: "e = (k, v)" by (cases e)
  have "hm_ok db" using Cons.prems by (simp add: hm_ok_def)
  then show ?case using Cons.IH remove_head[of k v db] Cons.prems by (simp add: e)
qed simp

lemma mem_module_destroyed:
  assumes "hm_ok res" "\<forall>db \<in> snd ` set res. hm_ok db"
  shows "mem_module_destroy res =
    (concat (map (\<lambda>(n, db). concat (map (\<lambda>(k, v). [FreeValrec v, FreeKeyrec k]) db) @ [FreeMap, FreeKlayer n]) res), [])"
  unfolding mem_module_destroy_def using assms
proof (induction res)
  case (Cons e res)
  obtain n db where e: "e = (n, db)" by (cases e)
  have "hm_ok res" using Cons.prems by (simp add: hm_ok_def)
  then show ?case using Cons.IH remove_head[of n db res] Cons.prems destroyed_db[of db] by (simp add: e)
qed simp

lemma handles_closed:
  assumes "hm_ok hs" "handles st = hs"
  shows "\<exists>st'. close_handles gdbm_close hs st = (map snd hs, st') \<and> handles st' = [] \<and>
    disk st' = fold gdbm_close (map snd hs) (disk st)"
  using assms
proof (induction hs arbitrary: st)
  case (Cons e hs)
  obtain k db where e: "e = (k, db)" by (cases e)
  let ?st = "st\<lparr>handles := hs, disk := gdbm_close db (disk st)\<rparr>"
  have ok: "hm_ok hs" using Cons.prems by (simp add: hm_ok_def)
  obtain st' where "close_handles gdbm_close hs ?st = (map snd hs, st')" "handles st' = []"
    "disk st' = fold gdbm_close (map snd hs) (gdbm_close db (disk st))"
    using Cons.IH[of ?st] ok by auto
  then show ?case using remove_head[of k db hs] Cons.prems by (simp add: e)
qed simp

lemma gdbm_module_destroyed:
  "hm_ok (handles st) \<Longrightarrow> \<exists>st'. gdbm_module_destroy gdbm_close st = (map snd (handles st), st') \<and> handles st' = [] \<and>
    disk st' = fold gdbm_close (map snd (handles st)) (disk st)"
  unfolding gdbm_module_destroy_def by (rule handles_closed) simp_all

section \<open>The end\<close>

text \<open>
  What \<open>main\<close> gives back when a signal has ended the loop, in order. A loop over a table that removes
  the entry it is at visits every entry (\<open>Hashmap\<close>: \<open>foreach_visits_in_order\<close>), and the items of the
  list of clients are freed as in \<open>Intrusive\<close>.
\<close>

datatype release =
    UnlinkSocket bytes
  | CloseFd int
  | FreeClient nat
  | FreeOldData BuxtonData
  | FreeName bytes
  | FreeNotification nat "32 word"
  | FreeRegistered bytes
  | FreeClientFd int
  | DestroyBackend BuxtonBackendType
  | FreeLayer bytes

text \<open>The list of a name: first the old values, then the name, then the nodes with their notifications.\<close>

definition release_notifications :: "bytes \<times> BuxtonNotification list \<Rightarrow> release list" where
  "release_notifications e =
     concat (map (\<lambda>n. case old_data n of None \<Rightarrow> [] | Some x \<Rightarrow> [FreeOldData x]) (snd e)) @
     FreeName (fst e) # map (\<lambda>n. FreeNotification (n_client n) (n_msgid n)) (snd e)"

definition release_client_keys :: "int \<times> bytes list \<Rightarrow> release list" where
  "release_client_keys e = map FreeRegistered (snd e) @ [FreeClientFd (fst e)]"

text \<open>\<open>destroy\<close> is the function of the module, which closes its databases.\<close>

definition destroy_backend :: "(BuxtonBackendType \<Rightarrow> 's \<Rightarrow> 's) \<Rightarrow> BuxtonBackendType \<Rightarrow> 's \<Rightarrow> release list \<times> 's" where
  "destroy_backend destroy backend mods = ([DestroyBackend backend], destroy backend mods)"

fun destroy_backends :: "(BuxtonBackendType \<Rightarrow> 's \<Rightarrow> 's) \<Rightarrow> (bytes \<times> BuxtonBackendType) list \<Rightarrow> 's \<Rightarrow> release list \<times> 's" where
  "destroy_backends destroy [] mods = ([], mods)"
| "destroy_backends destroy ((_, b) # bs) mods =
     (let (rs, mods) = destroy_backend destroy b mods; (rs', mods) = destroy_backends destroy bs mods
      in (rs @ rs', mods))"

text \<open>\<open>HASHMAP_FOREACH_KEY\<close> with \<open>hashmap_remove\<close> of the entry it is at; \<open>rel\<close> is what the body releases.\<close>

fun remove_each :: "('k \<times> 'v \<Rightarrow> release list) \<Rightarrow> ('k \<times> 'v) list \<Rightarrow> ('k \<times> 'v) list \<Rightarrow> release list \<times> ('k \<times> 'v) list" where
  "remove_each rel [] m = ([], m)"
| "remove_each rel (e # es) m = (let (rs, m) = remove_each rel es (snd (hm_remove m (fst e))) in (rel e @ rs, m))"

definition buxton_direct_close :: "(BuxtonBackendType \<Rightarrow> 's \<Rightarrow> 's) \<Rightarrow> 's BuxtonControl \<Rightarrow> release list \<times> 's BuxtonControl" where
  "buxton_direct_close destroy ctl =
     (let bs = (case backends (config ctl) of None \<Rightarrow> [] | Some m \<Rightarrow> m);
          (rs, mods) = destroy_backends destroy bs (modules ctl);
          (rs', ls) = remove_each (\<lambda>(n, _). [FreeLayer n]) (layers (config ctl)) (layers (config ctl))
      in (rs @ rs', ctl\<lparr>config := \<lparr>databases = None, layers = ls, backends = None\<rparr>, modules := mods\<rparr>))"

definition daemon_stop :: "(BuxtonBackendType \<Rightarrow> 's \<Rightarrow> 's) \<Rightarrow> bool \<Rightarrow> conf_world \<Rightarrow> conf_state \<Rightarrow> 's BuxtonDaemon \<Rightarrow>
    (release list \<times> 's BuxtonDaemon) res" where
  "daemon_stop destroy manual w conf d =
     bindE (if manual then bindE (buxton_socket w conf) (\<lambda>(p, _). case p of None \<Rightarrow> Inl NullDeref | Some p \<Rightarrow> Inr [UnlinkSocket p])
            else Inr [])
       (\<lambda>unlinked.
        let closed = map (CloseFd \<circ> pfd) (pollfds d);
            clients = map (FreeClient \<circ> cl_id) (client_list d);
            (notes, nm) = remove_each release_notifications (notify_mapping d) (notify_mapping d);
            (names, ckm) = remove_each release_client_keys (client_key_mapping d) (client_key_mapping d);
            (rs, ctl) = buxton_direct_close destroy (buxton d)
        in Inr (unlinked @ closed @ clients @ notes @ names @ rs,
                d\<lparr>client_list := [], notify_mapping := nm, client_key_mapping := ckm, buxton := ctl\<rparr>))"

lemma remove_each_is:
  "remove_each rel es m = (concat (map rel es), filter (\<lambda>e. fst e \<notin> fst ` set es) m)"
  by (induction es arbitrary: m) (auto simp: hm_remove_def intro!: filter_cong)

lemma remove_each_all: "remove_each rel m m = (concat (map rel m), [])"
  unfolding remove_each_is by (auto simp: filter_empty_conv)

text \<open>The releases of one kind.\<close>

fun closed_fd :: "release \<Rightarrow> int option" where
  "closed_fd (CloseFd fd) = Some fd" | "closed_fd _ = None"

fun freed_client :: "release \<Rightarrow> nat option" where
  "freed_client (FreeClient c) = Some c" | "freed_client _ = None"

fun freed_name :: "release \<Rightarrow> bytes option" where
  "freed_name (FreeName n) = Some n" | "freed_name _ = None"

fun freed_note :: "release \<Rightarrow> (nat \<times> 32 word) option" where
  "freed_note (FreeNotification c m) = Some (c, m)" | "freed_note _ = None"

definition released :: "(release \<Rightarrow> 'a option) \<Rightarrow> release list \<Rightarrow> 'a list" where
  "released f rs = List.map_filter f rs"

lemma released_append [simp]: "released f (rs @ rs') = released f rs @ released f rs'"
  by (simp add: released_def map_filter_def)

lemma released_Nil [simp]: "released f [] = []"
  by (simp add: released_def)

lemma released_Cons [simp]: "released f (r # rs) = (case f r of None \<Rightarrow> [] | Some x \<Rightarrow> [x]) @ released f rs"
  by (simp add: released_def map_filter_simps split: option.splits)

lemma released_concat: "released f (concat xs) = concat (map (released f) xs)"
  by (induction xs) auto

lemma released_map: "released f (map g xs) = List.map_filter (f \<circ> g) xs"
  by (simp add: released_def map_filter_def filter_map comp_def)

lemma destroyed_backends:
  "fst (destroy_backends destroy bs mods) = map (DestroyBackend \<circ> snd) bs"
proof (induction bs arbitrary: mods)
  case (Cons e bs)
  show ?case using Cons[of "destroy (snd e) mods"]
    by (cases e) (auto simp: destroy_backend_def Let_def split: prod.splits)
qed simp


fun freed_registered :: "release \<Rightarrow> bytes option" where
  "freed_registered (FreeRegistered n) = Some n" | "freed_registered _ = None"

text \<open>The names under the descriptors and the notifications under the names are the same pairs.\<close>

lemma length_held:
  assumes "finite S" "n_client ` set ns \<subseteq> S"
  shows "(\<Sum>c\<in>S. held c ns) = length ns"
  using assms(2)
proof (induction ns)
  case (Cons n ns)
  have "(\<Sum>c\<in>S. held c (n # ns)) = (\<Sum>c\<in>S. held c ns + (if c = n_client n then 1 else 0))"
    by (rule sum.cong) (auto simp: held_def)
  also have "\<dots> = length ns + 1" using Cons assms(1) by (simp add: sum.distrib)
  finally show ?case by simp
qed (simp add: held_def)

lemma count_concat: "count_list (concat xss) x = (\<Sum>xs\<leftarrow>xss. count_list xs x)"
  by (induction xss) simp_all

lemma registered_pairs:
  assumes "registry_ok d"
  shows "count_list (concat (map snd (client_key_mapping d))) k = length (entries (notify_mapping d) k)"
proof -
  let ?m = "client_key_mapping d" and ?nm = "entries (notify_mapping d)" and ?ck = "entries (client_key_mapping d)"
  have ok: "distinct (map fst ?m)" "\<forall>fd. hm_get ?m fd \<noteq> Some []" and
    mt: "distinct (map cl_id (client_list d))" "distinct (map cl_fd (client_list d))"
    "\<forall>cl \<in> set (client_list d). \<forall>k. held (cl_id cl) (?nm k) = count_list (?ck (cl_fd cl)) k"
    "n_client ` set (?nm k) \<subseteq> cl_id ` set (client_list d)"
    "\<forall>fd. ?ck fd \<noteq> [] \<longrightarrow> fd \<in> cl_fd ` set (client_list d)"
    using assms by (auto simp: registry_ok_def matched_def listed_def hm_ok_def)
  have get: "(fd, ks) \<in> set ?m \<Longrightarrow> ?ck fd = ks" for fd ks
    using ok(1) by (simp add: entries_def hm_get_def)
  have sub: "fst ` set ?m \<subseteq> cl_fd ` set (client_list d)"
  proof
    fix fd assume "fd \<in> fst ` set ?m"
    then obtain ks where e: "(fd, ks) \<in> set ?m" by auto
    then have "hm_get ?m fd = Some ks" using ok(1) by (simp add: hm_get_def)
    then have "?ck fd \<noteq> []" using ok(2) get[OF e] by auto
    then show "fd \<in> cl_fd ` set (client_list d)" using mt(5) by blast
  qed
  have none: "count_list (?ck fd) k = 0" if "fd \<notin> fst ` set ?m" for fd
    using that map_of_eq_None_iff[of ?m fd] by (simp add: entries_def hm_get_def)
  have "count_list (concat (map snd ?m)) k = (\<Sum>e\<leftarrow>?m. count_list (?ck (fst e)) k)"
    unfolding count_concat map_map
    by (rule arg_cong[of _ _ sum_list], rule map_cong) (auto simp: get)
  also have "\<dots> = sum_list (map (\<lambda>fd. count_list (?ck fd) k) (map fst ?m))" by (simp add: comp_def)
  also have "\<dots> = (\<Sum>fd\<in>fst ` set ?m. count_list (?ck fd) k)"
    using sum_list_distinct_conv_sum_set[OF ok(1), of "\<lambda>fd. count_list (?ck fd) k"] by simp
  also have "\<dots> = (\<Sum>fd\<in>cl_fd ` set (client_list d). count_list (?ck fd) k)"
  proof (rule sum.mono_neutral_left)
    show "\<forall>fd\<in>cl_fd ` set (client_list d) - fst ` set ?m. count_list (?ck fd) k = 0"
      by (intro ballI none) simp
  qed (use sub in auto)
  also have "\<dots> = (\<Sum>c\<in>set (client_list d). held (cl_id c) (?nm k))"
    using mt(2,3) by (simp add: sum.reindex distinct_map)
  also have "\<dots> = (\<Sum>i\<in>cl_id ` set (client_list d). held i (?nm k))"
    using mt(1) by (simp add: sum.reindex distinct_map)
  also have "\<dots> = length (?nm k)" by (rule length_held) (use mt(4) in auto)
  finally show ?thesis .
qed


section \<open>Properties\<close>

text \<open>C16. On a system that answers everything the daemon asks, with options that name a configuration file of
  sections, pairs and comments, the daemon starts: its layers are those that the file describes, its user is the
  effective one, the Smack rules are those of the configured load file, and in the poll set are, in this order
  and each once, the descriptor of the signals, the sockets on which it accepts clients (its own, bound at the
  configured path, exactly if systemd gave it none), and the descriptor that watches the rules, if Smack is
  there. The state is one from which all reachable ones come. A section that lacks a type, a backend, a
  description or a priority ends the daemon, and so does a priority or a type that makes no layer.\<close>

theorem boot_serves:
  assumes "good_boot b conf" "daemon_options (bt_stat b) args (False, initial_conf) = Some (False, conf)"
    and "contents_of (bt_world b) (setting (bt_world b) conf None CONFIG_CONF_FILE) = Some (text_of (map item_line is))"
    and "items_ok [] is" "distinct (map fst (item_puts [] is))" "\<forall>sec \<in> set (file_sections is). length (fst sec) \<le> 1000"
  shows "case those_layers (file_sections is) of
      None \<Rightarrow> daemon_boot mods b args = Inl Aborted
    | Some confs \<Rightarrow> (case buxton_init_layers confs empty_config of
          Inl f \<Rightarrow> daemon_boot mods b args = Inl f
        | Inr cfg \<Rightarrow> \<exists>smackfd conf' d.
            daemon_boot mods b args = Inr (Started (bt_listen_fds b = Some []) smackfd conf' d) \<and>
            initialize (bt_world b) conf = Inr conf' \<and> booted b mods cfg conf' smackfd d \<and> reachable env smackfd d)"
  by (rule boot_layers[OF assms])

text \<open>A start by hand with the file that the repository ships.\<close>

definition shipped_boot :: boot where
  "shipped_boot = \<lparr>bt_stat = (\<lambda>_. Some 33188), bt_world = shipped_world, bt_smackfs = True,
     bt_load_file = (\<lambda>_. FsFile [] False), bt_inotify = Inr 3, bt_watch = (\<lambda>_. None), bt_signals = True,
     bt_signalfd = 4, bt_uid = 0, bt_listen_fds = Some [], bt_socket = 5, bt_unlink = (\<lambda>_. Some ENOENT),
     bt_bind = (\<lambda>_. True), bt_listen = True\<rparr>"

lemma shipped_boot_good:
  assumes "initialize shipped_world conf = Inr c" "conf_keys c ! CONFIG_BUXTON_SOCKET \<noteq> None"
  shows "good_boot shipped_boot conf"
  using assms
  by (auto simp: good_boot_def shipped_boot_def listen_ok_def listen_set_def buxton_cache_smack_rules_def
      initial_smack_def Smack.fields_def buxton_smack_load_file_def buxton_socket_def)

lemma shipped_init_layers: "case buxton_init_layers (the (those_layers (file_sections shipped_conf))) empty_config of
    Inl f \<Rightarrow> False | Inr cfg \<Rightarrow> map fst (layers cfg) = [''base'', ''isp'', ''temp'', ''user'']"
  by code_simp

theorem boot_serves_witness:
  "\<exists>conf' d. daemon_boot (modules sample_ctl) shipped_boot [ConfigFile ''/etc/buxton.conf''] = Inr (Started True 3 conf' d) \<and>
     map fst (layers (config (buxton d))) = [''base'', ''isp'', ''temp'', ''user''] \<and> map pfd (pollfds d) = [4, 5, 3] \<and>
     accepting d = [False, True, False] \<and> reachable memory_env 3 d"
proof -
  let ?c = "buxton_add_cmd_line CONFIG_CONF_FILE (Some ''/etc/buxton.conf'') initial_conf"
  have o: "daemon_options (bt_stat shipped_boot) [ConfigFile ''/etc/buxton.conf''] (False, initial_conf) = Some (False, ?c)"
    by (simp add: shipped_boot_def)
  have w: "bt_world shipped_boot = shipped_world" by (simp add: shipped_boot_def)
  have c: "contents_of shipped_world (setting shipped_world ?c None CONFIG_CONF_FILE) = Some (text_of (map item_line shipped_conf))"
    by (simp add: setting_def first_some_def initial_conf_def shipped_world_def buxton_add_cmd_line_def)
  have i: "\<not> conf_initialized ?c" "conf_ini ?c = None" "length (conf_keys ?c) = CONFIG_MAX"
    by (simp_all add: initial_conf_def buxton_add_cmd_line_def)
  obtain d0 where d0: "iniparser_load (contents_of shipped_world (setting shipped_world ?c None CONFIG_CONF_FILE)) = Inr (Some d0)"
    using load_items[OF shipped_conf_ok(1,2)] c by auto
  obtain c' where "initialize shipped_world ?c = Inr c'" "conf_keys c' ! CONFIG_BUXTON_SOCKET \<noteq> None"
    using initialize_settings[OF i d0] by (auto simp: nth_Cons')
  then have good: "good_boot shipped_boot ?c" by (rule shipped_boot_good)
  obtain cfg where cfg: "buxton_init_layers (the (those_layers (file_sections shipped_conf))) empty_config = Inr cfg"
    "map fst (layers cfg) = [''base'', ''isp'', ''temp'', ''user'']" using shipped_init_layers by (auto split: sum.splits)
  have s: "\<forall>sec \<in> set (file_sections shipped_conf). length (fst sec) \<le> 1000"
    using shipped_conf_ok(3) by (simp add: list_all_iff)
  obtain smackfd conf' d where d: "daemon_boot (modules sample_ctl) shipped_boot [ConfigFile ''/etc/buxton.conf''] =
      Inr (Started (bt_listen_fds shipped_boot = Some []) smackfd conf' d)"
    "booted shipped_boot (modules sample_ctl) cfg conf' smackfd d" "reachable memory_env smackfd d"
    using boot_serves[OF good o c[folded w] shipped_conf_ok(1,2) s, of "modules sample_ctl" memory_env] cfg(1)
    by (auto simp: shipped_layers)
  have r: "rules (buxton d) = \<lparr>have_smack = True, smackrules = Some []\<rparr>"
    using d(2) by (simp add: booted_def shipped_boot_def buxton_cache_smack_rules_def initial_smack_def Smack.fields_def)
  have i: "bt_inotify shipped_boot = Inr 3" "served_sockets shipped_boot = [5]" "bt_signalfd shipped_boot = 4"
    by (simp_all add: shipped_boot_def served_sockets_def)
  have "smackfd = 3" using d(2) by (simp add: booted_def r i)
  then have "map pfd (pollfds d) = [4, 5, 3]" "accepting d = [False, True, False]" "config (buxton d) = cfg"
    using d(2) by (simp_all add: booted_def i)
  then show ?thesis using d(1,3) cfg(2) \<open>smackfd = 3\<close> by (auto simp: shipped_boot_def)
qed

text \<open>What is released, kind by kind.\<close>

definition note_pairs :: "BuxtonNotification list \<Rightarrow> (nat \<times> 32 word) list" where
  "note_pairs ns = map (\<lambda>n. (n_client n, n_msgid n)) ns"

lemma no_old_releases:
  assumes "\<And>x. f (FreeOldData x) = None"
  shows "released f (concat (map (\<lambda>n. case old_data n of None \<Rightarrow> [] | Some x \<Rightarrow> [FreeOldData x]) ns)) = []"
  using assms by (induction ns) (auto split: option.splits)

lemma released_notifications:
  "released closed_fd (release_notifications e) = []" "released freed_client (release_notifications e) = []"
  "released freed_name (release_notifications e) = [fst e]"
  "released freed_note (release_notifications e) = note_pairs (snd e)"
  "released freed_registered (release_notifications e) = []"
  by (simp_all add: release_notifications_def no_old_releases released_map note_pairs_def map_filter_def comp_def)

lemma released_client_keys:
  "released closed_fd (release_client_keys e) = []" "released freed_client (release_client_keys e) = []"
  "released freed_name (release_client_keys e) = []" "released freed_note (release_client_keys e) = []"
  "released freed_registered (release_client_keys e) = snd e"
  by (simp_all add: release_client_keys_def released_map map_filter_def comp_def)

lemma freed_layers: "concat (map (\<lambda>(n, _). [FreeLayer n]) ls) = map (FreeLayer \<circ> fst) ls"
  by (induction ls) auto

lemma direct_close_parts:
  assumes "buxton_direct_close destroy ctl = (rs, ctl')"
  shows "rs = map (DestroyBackend \<circ> snd) (case backends (config ctl) of None \<Rightarrow> [] | Some m \<Rightarrow> m) @
    map (FreeLayer \<circ> fst) (layers (config ctl))"
  using assms destroyed_backends[of destroy "case backends (config ctl) of None \<Rightarrow> [] | Some m \<Rightarrow> m" "modules ctl"]
  by (auto simp: buxton_direct_close_def Let_def remove_each_all freed_layers split: prod.splits)

lemma released_direct_close:
  assumes "buxton_direct_close destroy ctl = (rs, ctl')"
  shows "released closed_fd rs = []" "released freed_client rs = []" "released freed_name rs = []"
    "released freed_note rs = []" "released freed_registered rs = []"
  unfolding direct_close_parts[OF assms] by (simp_all add: released_map map_filter_def comp_def)

lemmas released_parts = released_notifications released_client_keys released_concat comp_def

lemma stop_releases:
  assumes "manual \<Longrightarrow> buxton_socket w conf = Inr (Some p, conf')"
  shows "\<exists>rs d'. daemon_stop destroy manual w conf d = Inr (rs, d') \<and>
     released closed_fd rs = map pfd (pollfds d) \<and>
     released freed_client rs = map cl_id (client_list d) \<and>
     released freed_name rs = map fst (notify_mapping d) \<and>
     released freed_note rs = concat (map (note_pairs \<circ> snd) (notify_mapping d)) \<and>
     released freed_registered rs = concat (map snd (client_key_mapping d)) \<and>
     client_list d' = [] \<and> notify_mapping d' = [] \<and> client_key_mapping d' = []"
proof -
  obtain rs ctl where c: "buxton_direct_close destroy (buxton d) = (rs, ctl)" by (meson surj_pair)
  let ?u = "if manual then [UnlinkSocket p] else []"
  let ?rs = "?u @ map (CloseFd \<circ> pfd) (pollfds d) @ map (FreeClient \<circ> cl_id) (client_list d) @
                concat (map release_notifications (notify_mapping d)) @
                concat (map release_client_keys (client_key_mapping d)) @ rs"
  let ?d = "d\<lparr>client_list := [], notify_mapping := [], client_key_mapping := [], buxton := ctl\<rparr>"
  have "daemon_stop destroy manual w conf d = Inr (?rs, ?d)"
    using assms by (cases manual) (simp_all add: daemon_stop_def c remove_each_all)
  moreover have "released closed_fd ?u = []" "released freed_client ?u = []" "released freed_name ?u = []"
    "released freed_note ?u = []" "released freed_registered ?u = []" by simp_all
  ultimately show ?thesis using released_direct_close[OF c]
    by (simp add: released_parts released_map map_filter_def)
qed


lemma listed_names:
  assumes "listed m"
  shows "distinct (map fst m)" "fst ` set m = {k. entries m k \<noteq> []}"
proof -
  show d: "distinct (map fst m)" using assms by (simp add: listed_def hm_ok_def)
  have ne: "\<forall>k. map_of m k \<noteq> Some []" using assms by (simp add: listed_def hm_get_def)
  show "fst ` set m = {k. entries m k \<noteq> []}"
  proof (intro set_eqI iffI)
    fix k assume "k \<in> fst ` set m"
    then obtain xs where "map_of m k = Some xs" using d by force
    then show "k \<in> {k. entries m k \<noteq> []}" using ne by (auto simp: entries_def hm_get_def)
  qed (auto simp: entries_def hm_get_def dest!: map_of_SomeD split: option.splits intro: image_eqI[where x = "(_, _)"])
qed

lemma reachable_registry:
  assumes "reachable env smackfd d"
  shows "registry_ok d" "distinct (map cl_id (client_list d))" "distinct (map fst (notify_mapping d))"
    "fst ` set (notify_mapping d) = {k. entries (notify_mapping d) k \<noteq> []}"
    "fst ` set (concat (map (note_pairs \<circ> snd) (notify_mapping d))) \<subseteq> cl_id ` set (client_list d)"
proof -
  show r: "registry_ok d" using reachable_ok[OF assms] by (simp add: daemon_ok_def)
  then have l: "listed (notify_mapping d)" and m: "\<forall>k. n_client ` set (entries (notify_mapping d) k) \<subseteq> cl_id ` set (client_list d)"
    by (simp_all add: registry_ok_def matched_def)
  show "distinct (map cl_id (client_list d))" using r by (simp add: registry_ok_def matched_def)
  show n: "distinct (map fst (notify_mapping d))" "fst ` set (notify_mapping d) = {k. entries (notify_mapping d) k \<noteq> []}"
    by (rule listed_names[OF l])+
  have "n_client ` set ns \<subseteq> cl_id ` set (client_list d)" if "(k, ns) \<in> set (notify_mapping d)" for k ns
    using m[rule_format, of k] that n(1) by (simp add: entries_def hm_get_def)
  then show "fst ` set (concat (map (note_pairs \<circ> snd) (notify_mapping d))) \<subseteq> cl_id ` set (client_list d)"
    by (force simp: note_pairs_def)
qed

lemma reachable_poll:
  assumes "reachable env smackfd d"
  shows "distinct (map pfd (pollfds d))" "cl_fd ` set (client_list d) \<subseteq> pfd ` set (pollfds d)"
    "0 \<le> smackfd \<longrightarrow> smackfd \<in> pfd ` set (pollfds d)"
proof -
  have p: "poll_ok smackfd d" using reachable_ok[OF assms] by (simp add: daemon_ok_def)
  then have l: "length (accepting d) = length (pollfds d)" and
    e: "cl_fd ` set (client_list d) = {fd. (fd, False) \<in> set (tl (slots d)) \<and> fd \<noteq> smackfd}"
    "0 \<le> smackfd \<longrightarrow> (smackfd, False) \<in> set (tl (slots d))" by (simp_all add: poll_ok_def)
  have "fd \<in> pfd ` set (pollfds d)" if "(fd, b) \<in> set (tl (slots d))" for fd b
  proof -
    have "(fd, b) \<in> set (slots d)" using that by (cases "slots d") auto
    then have "fd \<in> set (map fst (slots d))" by force
    then show ?thesis by (simp add: slots_fst[OF l])
  qed
  then show "cl_fd ` set (client_list d) \<subseteq> pfd ` set (pollfds d)" "0 \<le> smackfd \<longrightarrow> smackfd \<in> pfd ` set (pollfds d)"
    using e by auto
  show "distinct (map pfd (pollfds d))" using p by (simp add: poll_ok_def)
qed

lemma shipped_socket: "\<exists>p conf'. buxton_socket shipped_world initial_conf = Inr (Some p, conf')"
proof -
  let ?c = initial_conf
  have conf: "\<not> conf_initialized ?c" "conf_ini ?c = None" "length (conf_keys ?c) = CONFIG_MAX"
    by (simp_all add: initial_conf_def)
  have "setting shipped_world ?c None CONFIG_CONF_FILE = ''/etc/buxton.conf''"
    by (simp add: setting_def first_some_def initial_conf_def shipped_world_def)
  then obtain d0 where d0: "iniparser_load (contents_of shipped_world (setting shipped_world ?c None CONFIG_CONF_FILE)) = Inr (Some d0)"
    using load_items[OF shipped_conf_ok(1,2)] by (auto simp: shipped_world_def)
  show ?thesis using initialize_settings[OF conf d0] by (auto simp: nth_Cons' buxton_socket_def)
qed

text \<open>C17. A daemon that ends, in whichever reachable state, gives back what it holds and nothing twice: every
  descriptor of the poll set is closed once, those of the clients, of the watch and of the listening sockets
  among them; every client is freed once and every notified name once; each notification that is freed is
  one of a client that was connected; and of the names that the clients registered as many copies are freed
  as there are notifications under the name. No list is left.\<close>

theorem stop_releases_once:
  assumes "reachable env smackfd d" "buxton_socket w conf = Inr (Some p, conf')"
  shows "\<exists>rs d'. daemon_stop destroy manual w conf d = Inr (rs, d') \<and>
     distinct (released closed_fd rs) \<and> set (released closed_fd rs) = pfd ` set (pollfds d) \<and>
     cl_fd ` set (client_list d) \<subseteq> set (released closed_fd rs) \<and> (0 \<le> smackfd \<longrightarrow> smackfd \<in> set (released closed_fd rs)) \<and>
     distinct (released freed_client rs) \<and> set (released freed_client rs) = cl_id ` set (client_list d) \<and>
     distinct (released freed_name rs) \<and> set (released freed_name rs) = {k. entries (notify_mapping d) k \<noteq> []} \<and>
     fst ` set (released freed_note rs) \<subseteq> set (released freed_client rs) \<and>
     (\<forall>k. count_list (released freed_registered rs) k = length (entries (notify_mapping d) k)) \<and>
     client_list d' = [] \<and> notify_mapping d' = [] \<and> client_key_mapping d' = []"
proof -
  obtain rs d' where s: "daemon_stop destroy manual w conf d = Inr (rs, d')"
    "released closed_fd rs = map pfd (pollfds d)" "released freed_client rs = map cl_id (client_list d)"
    "released freed_name rs = map fst (notify_mapping d)"
    "released freed_note rs = concat (map (note_pairs \<circ> snd) (notify_mapping d))"
    "released freed_registered rs = concat (map snd (client_key_mapping d))"
    "client_list d' = []" "notify_mapping d' = []" "client_key_mapping d' = []"
    using stop_releases[OF assms(2)] by blast
  note reg = reachable_registry[OF assms(1)] and poll = reachable_poll[OF assms(1)]
  show ?thesis
    using s reg poll by (intro exI[of _ rs] exI[of _ d']) (simp add: registered_pairs)
qed

theorem stop_releases_once_witness:
  "\<exists>rs d'. daemon_stop (\<lambda>_ s. s) True shipped_world initial_conf sample_daemon = Inr (rs, d') \<and>
     distinct (released closed_fd rs) \<and> set (released closed_fd rs) = {2, 3, 5, 6} \<and> set (released freed_client rs) = {1}"
proof -
  obtain p conf' where "buxton_socket shipped_world initial_conf = Inr (Some p, conf')"
    using shipped_socket by blast
  from stop_releases_once[OF sample_reachable this, of "\<lambda>_ s. s" True] show ?thesis
    by (auto simp: sample_daemon_def)
qed

end
