(* ===== verification/Writing.thy ===== *)
theory Writing
  imports Connections
begin

text \<open>
  The loop of \<open>_write\<close> ends when the peer makes progress again and again, and then the peer has got all
  of the message, or, after an error, a part from its front.
\<close>

definition progress :: "write_result \<Rightarrow> bool" where
  "progress r \<longleftrightarrow> (case r of WriteError \<Rightarrow> True | WriteAgain \<Rightarrow> False | Wrote k \<Rightarrow> 0 < k)"

definition write_done :: "(nat \<Rightarrow> write_result) \<Rightarrow> bytes \<Rightarrow> (bool \<times> bytes) option \<Rightarrow> bool" where
  "write_done w buf r \<longleftrightarrow> (case r of
       None \<Rightarrow> False
     | Some (True, out) \<Rightarrow> out = buf
     | Some (False, out) \<Rightarrow> (\<exists>m<length buf. out = take m buf) \<and> (\<exists>j. w j = WriteError))"

lemma write_loop_ends:
  assumes "\<And>i. \<exists>j\<ge>i. progress (w j)" "n \<le> length buf" "part = take n buf"
  shows "write_done w buf (write_loop w i buf n part)"
  using assms(2,3)
proof (induction "length buf - n" arbitrary: n i part rule: less_induct)
  case less
  show ?case
  proof (cases "n = length buf")
    case True
    then show ?thesis using less.prems by (subst write_loop.simps) (simp add: write_done_def)
  next
    case False
    then have n: "n < length buf" using less.prems(1) by simp
    have go: "write_done w buf (write_loop w l buf n part)" if "progress (w l)" for l
    proof (cases "w l")
      case WriteError
      then show ?thesis using n less.prems(2) by (subst write_loop.simps) (auto simp: write_done_def)
    next
      case WriteAgain
      then show ?thesis using that by (simp add: progress_def)
    next
      case (Wrote k)
      let ?b = "min k (length buf - n)"
      have "0 < k" using that Wrote by (simp add: progress_def)
      then have l: "length buf - (n + ?b) < length buf - n" "n + ?b \<le> length buf" using n by auto
      have "part @ take ?b (drop n buf) = take (n + ?b) buf" unfolding less.prems(2) by (simp add: take_add)
      moreover have "write_loop w l buf n part = write_loop w (Suc l) buf (n + ?b) (part @ take ?b (drop n buf))"
        using Wrote n by (subst write_loop.simps) (simp add: Let_def)
      ultimately show ?thesis using less.hyps[OF l, of "take (n + ?b) buf"] by simp
    qed
    obtain j where j: "i \<le> j" "progress (w j)" using assms(1) by blast
    from j(1) show ?thesis
    proof (induction rule: inc_induct)
      case base
      then show ?case using go j(2) by blast
    next
      case (step l)
      show ?case
      proof (cases "progress (w l)")
        case True
        then show ?thesis by (rule go)
      next
        case no: False
        then have "write_loop w l buf n part = write_loop w (Suc l) buf n part"
          using n by (subst write_loop.simps) (auto simp: progress_def split: write_result.splits)
        then show ?thesis using step.IH by simp
      qed
    qed
  qed
qed

text \<open>C30. \<open>_write\<close> returns whenever the peer takes some bytes, or fails, again and again; it then says
  whether the peer got the whole message, and after a failure the peer got a proper part from its front. If the
  peer never reads, it never returns, and the daemon with it.\<close>

theorem write_returns:
  "((\<forall>i. \<exists>j\<ge>i. progress (w j)) \<longrightarrow> write_done w buf (write_all w buf)) \<and>
   (buf \<noteq> [] \<longrightarrow> write_all (\<lambda>_. WriteAgain) buf = None)"
proof -
  have "w' = (\<lambda>_. WriteAgain) \<longrightarrow> n = length b" if "write_loop w' i b n p = Some r" for w' i b n p r
    using that
    by (rule write_loop.raw_induct[where P = "\<lambda>w i b n p r. w = (\<lambda>_. WriteAgain) \<longrightarrow> n = length b", rotated])
      (auto split: if_splits)
  then have "write_loop (\<lambda>_. WriteAgain) 0 buf 0 [] = None" if "buf \<noteq> []"
    using that by (cases "write_loop (\<lambda>_. WriteAgain) 0 buf 0 []") fastforce+
  then show ?thesis using write_loop_ends[of w 0 buf "[]" 0] by (auto simp: write_all_def)
qed

theorem write_returns_witness:
  "write_done (\<lambda>i. if even i then Wrote 3 else WriteAgain) ''message'' (write_all (\<lambda>i. if even i then Wrote 3 else WriteAgain) ''message'') \<and>
   write_all (\<lambda>_. WriteAgain) ''message'' = None"
proof -
  have "\<exists>j\<ge>i. progress (if even j then Wrote 3 else WriteAgain)" for i :: nat
    by (rule exI[of _ "2 * i"]) (simp add: progress_def)
  then show ?thesis using write_returns[of "\<lambda>i. if even i then Wrote 3 else WriteAgain" "''message''"] by simp
qed

end
