(* ===== verification/Lists.thy ===== *)
theory Lists
  imports Ordered_Map
begin

text \<open>
  The containers of the program: the linked list of \<open>src/shared/buxtonlist.c\<close>, whose head knows its tail and
  its size, on a heap of nodes, and the growing array of \<open>src/shared/buxtonarray.c\<close>.
\<close>

section \<open>Nodes\<close>

text \<open>\<open>None\<close> is NULL. The data of a node are pointers of the caller, known by values of \<open>'a\<close>.\<close>

record 'a BuxtonList =
  node_data :: "'a option"
  node_next :: "nat option"
  node_tail :: "nat option"
  node_size :: "64 word"

text \<open>\<open>cells\<close> are the nodes that are allocated, \<open>fresh_cell\<close> the next one, \<open>freed\<close> the data that \<open>free\<close> got.\<close>

record 'a list_heap =
  cells :: "nat \<Rightarrow> 'a BuxtonList option"
  fresh_cell :: nat
  freed :: "'a list"

definition empty_heap :: "'a list_heap" where
  "empty_heap = \<lparr>cells = (\<lambda>_. None), fresh_cell = 0, freed = []\<rparr>"

definition node_at :: "'a list_heap \<Rightarrow> nat option \<Rightarrow> 'a BuxtonList res" where
  "node_at h p = (case p of
       None \<Rightarrow> Inl NullDeref
     | Some a \<Rightarrow> (case cells h a of None \<Rightarrow> Inl OutOfBounds | Some n \<Rightarrow> Inr n))"

definition update_node :: "nat option \<Rightarrow> ('a BuxtonList \<Rightarrow> 'a BuxtonList) \<Rightarrow> 'a list_heap \<Rightarrow> 'a list_heap res" where
  "update_node p f h = bindE (node_at h p) (\<lambda>n. Inr (h\<lparr>cells := (cells h)(the p := Some (f n))\<rparr>))"

definition calloc_node :: "'a list_heap \<Rightarrow> nat \<times> 'a list_heap" where
  "calloc_node h = (fresh_cell h, h\<lparr>fresh_cell := fresh_cell h + 1,
     cells := (cells h)(fresh_cell h := Some \<lparr>node_data = None, node_next = None, node_tail = None, node_size = 0\<rparr>)\<rparr>)"

definition free_node :: "nat \<Rightarrow> 'a list_heap \<Rightarrow> 'a list_heap res" where
  "free_node a h = (if cells h a = None then Inl DoubleFree else Inr (h\<lparr>cells := (cells h)(a := None)\<rparr>))"

definition free_data :: "'a option \<Rightarrow> 'a list_heap \<Rightarrow> 'a list_heap res" where
  "free_data d h = (case d of
       None \<Rightarrow> Inr h
     | Some x \<Rightarrow> if x \<in> set (freed h) then Inl DoubleFree else Inr (h\<lparr>freed := freed h @ [x]\<rparr>))"

section \<open>Operations of the list\<close>

text \<open>A list of one node; the first branch of append and prepend.\<close>

definition single :: "'a option \<Rightarrow> 'a list_heap \<Rightarrow> (nat option \<times> 'a list_heap) res" where
  "single data h =
     (let (head, h) = calloc_node h
      in bindE (update_node (Some head)
           (\<lambda>n. n\<lparr>node_size := 1, node_tail := Some head, node_next := None, node_data := data\<rparr>) h)
         (\<lambda>h. Inr (Some head, h)))"

definition buxton_list_append :: "nat option \<Rightarrow> 'a option \<Rightarrow> 'a list_heap \<Rightarrow> (bool \<times> nat option \<times> 'a list_heap) res" where
  "buxton_list_append list data h =
     (if list = None then bindE (single data h) (\<lambda>(list, h). Inr (True, list, h))
      else
       let head = list; (next, h) = calloc_node h
       in bindE (update_node head (\<lambda>n. n\<lparr>node_size := node_size n + 1\<rparr>) h) (\<lambda>h.
          bindE (node_at h head) (\<lambda>hd.
          bindE (update_node (node_tail hd) (\<lambda>n. n\<lparr>node_next := Some next\<rparr>) h) (\<lambda>h.
          bindE (update_node head (\<lambda>n. n\<lparr>node_tail := Some next\<rparr>) h) (\<lambda>h.
          bindE (update_node (Some next) (\<lambda>n. n\<lparr>node_next := None, node_data := data\<rparr>) h) (\<lambda>h.
            Inr (True, list, h)))))))"

definition buxton_list_prepend :: "nat option \<Rightarrow> 'a option \<Rightarrow> 'a list_heap \<Rightarrow> (bool \<times> nat option \<times> 'a list_heap) res" where
  "buxton_list_prepend list data h =
     (if list = None then bindE (single data h) (\<lambda>(list, h). Inr (True, list, h))
      else
       let head = list; (prev, h) = calloc_node h
       in bindE (node_at h head) (\<lambda>hd.
          bindE (update_node (Some prev) (\<lambda>n. n\<lparr>node_size := node_size hd + 1\<rparr>) h) (\<lambda>h.
          bindE (update_node head (\<lambda>n. n\<lparr>node_size := 0\<rparr>) h) (\<lambda>h.
          bindE (update_node (Some prev) (\<lambda>n. n\<lparr>node_next := head, node_tail := node_tail hd\<rparr>) h) (\<lambda>h.
          bindE (update_node head (\<lambda>n. n\<lparr>node_tail := None\<rparr>) h) (\<lambda>h.
          bindE (update_node (Some prev) (\<lambda>n. n\<lparr>node_data := data\<rparr>) h) (\<lambda>h.
            Inr (True, Some prev, h))))))))"

text \<open>The search for the node with the data, and the node in front of it.\<close>

partial_function (option) find_node ::
  "'a list_heap \<Rightarrow> 'a option \<Rightarrow> nat option \<Rightarrow> nat option \<Rightarrow> (nat option \<times> nat option) res option" where
  [code]: "find_node h data prev current =
     (case current of
        None \<Rightarrow> Some (Inr (prev, None))
      | Some a \<Rightarrow> (case cells h a of
            None \<Rightarrow> Some (Inl OutOfBounds)
          | Some n \<Rightarrow> if node_data n = data then Some (Inr (prev, current))
                      else find_node h data current (node_next n)))"

text \<open>Taking the node \<open>current\<close>, whose contents are \<open>cn\<close>, out of the list.\<close>

definition unlink_node :: "nat option \<Rightarrow> nat option \<Rightarrow> nat option \<Rightarrow> 'a BuxtonList \<Rightarrow> 'a list_heap \<Rightarrow>
    (nat option \<times> 'a list_heap) res" where
  "unlink_node list prev current cn h =
     bindE (if current = list then
              bindE (if node_next cn \<noteq> None then
                       update_node (node_next cn) (\<lambda>n. n\<lparr>node_size := node_size cn - 1, node_tail := node_tail cn\<rparr>) h
                     else Inr h) (\<lambda>h. Inr (node_next cn, h))
            else
              bindE (update_node prev (\<lambda>n. n\<lparr>node_next := node_next cn\<rparr>) h) (\<lambda>h.
              bindE (update_node list (\<lambda>n. n\<lparr>node_size := node_size n - 1\<rparr>) h) (\<lambda>h. Inr (list, h))))
       (\<lambda>(head, h).
          if head = None then Inr (head, h)
          else bindE (node_at h head) (\<lambda>hn.
            if node_tail hn = current
            then bindE (update_node head (\<lambda>n. n\<lparr>node_tail := prev\<rparr>) h) (\<lambda>h. Inr (head, h)) else Inr (head, h)))"

definition buxton_list_remove :: "nat option \<Rightarrow> 'a option \<Rightarrow> bool \<Rightarrow> 'a list_heap \<Rightarrow> (bool \<times> nat option \<times> 'a list_heap) res" where
  "buxton_list_remove list data do_free h =
     (case find_node h data list list of
        None \<Rightarrow> Inl Diverges
      | Some r \<Rightarrow> bindE r (\<lambda>(prev, current). case current of
            None \<Rightarrow> Inr (False, list, h)
          | Some cur \<Rightarrow>
             bindE (node_at h current) (\<lambda>cn.
             bindE (unlink_node list prev current cn h) (\<lambda>(head, h).
             bindE (if do_free then bindE (node_at h current) (\<lambda>cn. free_data (node_data cn) h) else Inr h) (\<lambda>h.
             bindE (free_node cur h) (\<lambda>h. Inr (True, head, h)))))))"

text \<open>\<open>BUXTON_LIST_FOREACH\<close>: the data in the order of the list.\<close>

partial_function (option) foreach_data :: "'a list_heap \<Rightarrow> nat option \<Rightarrow> 'a option list res option" where
  [code]: "foreach_data h p =
     (case p of
        None \<Rightarrow> Some (Inr [])
      | Some a \<Rightarrow> (case cells h a of
            None \<Rightarrow> Some (Inl OutOfBounds)
          | Some n \<Rightarrow> Option.bind (foreach_data h (node_next n)) (\<lambda>r. Some (bindE r (\<lambda>xs. Inr (node_data n # xs))))))"

text \<open>\<open>buxton_list_free\<close>, and \<open>buxton_list_free_all\<close>, which frees the data too.\<close>

partial_function (option) free_nodes :: "bool \<Rightarrow> nat option \<Rightarrow> 'a list_heap \<Rightarrow> 'a list_heap res option" where
  [code]: "free_nodes all elem h =
     (case elem of
        None \<Rightarrow> Some (Inr h)
      | Some a \<Rightarrow> (case cells h a of
            None \<Rightarrow> Some (Inl OutOfBounds)
          | Some n \<Rightarrow> (case bindE (if all then free_data (node_data n) h else Inr h) (free_node a) of
                Inl e \<Rightarrow> Some (Inl e)
              | Inr h \<Rightarrow> free_nodes all (node_next n) h)))"

definition buxton_list_free :: "nat option \<Rightarrow> 'a list_heap \<Rightarrow> 'a list_heap res" where
  "buxton_list_free list h = (case free_nodes False list h of None \<Rightarrow> Inl Diverges | Some r \<Rightarrow> r)"

definition buxton_list_free_all :: "nat option \<Rightarrow> 'a list_heap \<Rightarrow> 'a list_heap res" where
  "buxton_list_free_all list h = (case free_nodes True list h of None \<Rightarrow> Inl Diverges | Some r \<Rightarrow> r)"

section \<open>Lists in the heap\<close>

text \<open>Data and successor of every node; a segment runs from \<open>p\<close> through the nodes \<open>ns\<close> to \<open>q\<close>.\<close>

type_synonym 'a links = "nat \<Rightarrow> ('a option \<times> nat option) option"

definition links :: "'a list_heap \<Rightarrow> 'a links" where
  "links h a = map_option (\<lambda>n. (node_data n, node_next n)) (cells h a)"

fun lseg :: "'a links \<Rightarrow> nat option \<Rightarrow> nat list \<Rightarrow> nat option \<Rightarrow> 'a option list \<Rightarrow> bool" where
  "lseg L p [] q xs \<longleftrightarrow> p = q \<and> xs = []"
| "lseg L p (a # ns) q xs \<longleftrightarrow> p = Some a \<and> (\<exists>x r ys. L a = Some (x, r) \<and> xs = x # ys \<and> lseg L r ns q ys)"

definition head_ok :: "'a list_heap \<Rightarrow> nat list \<Rightarrow> bool" where
  "head_ok h ns \<longleftrightarrow> (case ns of [] \<Rightarrow> True
     | a # _ \<Rightarrow> (case cells h a of None \<Rightarrow> False
         | Some n \<Rightarrow> node_tail n = Some (last ns) \<and> node_size n = word_of_nat (length ns)))"

text \<open>\<open>list\<close> points to a list with the data \<open>xs\<close> in a heap that has no other nodes.\<close>

definition list_at :: "nat option \<Rightarrow> 'a list_heap \<Rightarrow> nat list \<Rightarrow> 'a option list \<Rightarrow> bool" where
  "list_at p h ns xs \<longleftrightarrow> lseg (links h) p ns None xs \<and> distinct ns \<and> head_ok h ns \<and>
     dom (cells h) = set ns \<and> (\<forall>a \<in> set ns. a < fresh_cell h)"

lemma links_upd [simp]: "links (h\<lparr>cells := c\<rparr>) = (\<lambda>a. map_option (\<lambda>n. (node_data n, node_next n)) (c a))"
  by (simp add: links_def fun_eq_iff)

lemma lseg_append: "lseg L p (as @ bs) q xs \<longleftrightarrow> (\<exists>m ys zs. xs = ys @ zs \<and> lseg L p as m ys \<and> lseg L m bs q zs)"
  by (induction as arbitrary: p xs) (auto, metis append_Cons, blast)

lemma lseg_length: "lseg L p ns q xs \<Longrightarrow> length xs = length ns"
  by (induction ns arbitrary: p xs) auto

lemma lseg_cong: "(\<And>a. a \<in> set ns \<Longrightarrow> L' a = L a) \<Longrightarrow> lseg L' p ns q xs = lseg L p ns q xs"
  by (induction ns arbitrary: p xs) auto

text \<open>Another successor for the last node of a segment.\<close>

lemma lseg_last:
  assumes "lseg L p ns q xs" "ns \<noteq> []" "distinct ns" "L (last ns) = Some (d, q')" "L' (last ns) = Some (d, r)"
    "\<And>a. a \<in> set (butlast ns) \<Longrightarrow> L' a = L a"
  shows "lseg L' p ns r xs"
proof -
  obtain as t where ns: "ns = as @ [t]" using assms(2) by (cases ns rule: rev_cases) auto
  obtain m ys zs where "xs = ys @ zs" "lseg L p as m ys" "lseg L m [t] q zs" using assms(1) unfolding ns lseg_append by blast
  moreover have "lseg L' p as m ys = lseg L p as m ys" using assms(6) ns by (intro lseg_cong) simp
  ultimately show ?thesis using assms(4,5) unfolding ns lseg_append by auto
qed

lemma lseg_links: "lseg L p ns q xs \<Longrightarrow> a \<in> set ns \<Longrightarrow> \<exists>x r. L a = Some (x, r)"
  by (induction ns arbitrary: p xs) auto

lemma not_last: "distinct ns \<Longrightarrow> x \<in> set (butlast ns) \<Longrightarrow> x \<noteq> last ns"
  by (cases ns rule: rev_cases) auto

text \<open>The node at an address of the list.\<close>

lemma list_at_node: "list_at p h ns xs \<Longrightarrow> a \<in> set ns \<Longrightarrow> \<exists>n. cells h a = Some n"
  unfolding list_at_def by blast

lemma list_at_head:
  assumes "list_at p h (a # ns) xs"
  shows "p = Some a" "\<exists>n. cells h a = Some n \<and> node_tail n = Some (last (a # ns)) \<and> node_size n = word_of_nat (length (a # ns))"
  using assms by (auto simp: list_at_def head_ok_def split: option.splits)

lemma list_at_fresh: "list_at p h ns xs \<Longrightarrow> cells h (fresh_cell h) = None \<and> fresh_cell h \<notin> set ns"
  unfolding list_at_def by blast

lemma list_at_empty: "list_at None h [] xs \<longleftrightarrow> xs = [] \<and> cells h = (\<lambda>_. None)"
  by (auto simp: list_at_def head_ok_def)

lemma single_ok:
  assumes "list_at None h [] xs"
  shows "\<exists>h'. single d h = Inr (Some (fresh_cell h), h') \<and> list_at (Some (fresh_cell h)) h' [fresh_cell h] [d] \<and>
    freed h' = freed h"
  using assms by (auto simp: single_def calloc_node_def Let_def update_node_def node_at_def list_at_empty)
    (auto simp: list_at_def links_def head_ok_def)

lemma append_ok:
  assumes "list_at p h ns xs"
  shows "\<exists>p' h'. buxton_list_append p d h = Inr (True, p', h') \<and> list_at p' h' (ns @ [fresh_cell h]) (xs @ [d]) \<and> freed h' = freed h"
proof (cases ns)
  case Nil
  then have "p = None" "xs = []" using assms by (simp_all add: list_at_def)
  then show ?thesis using single_ok[of h xs d] assms Nil by (auto simp: buxton_list_append_def)
next
  case (Cons a ms)
  define c where "c = fresh_cell h"
  define t where "t = last ns"
  obtain n0 where n0: "p = Some a" "cells h a = Some n0" "node_tail n0 = Some t" "node_size n0 = word_of_nat (length ns)"
    using list_at_head[of p h a ms xs] assms Cons by (auto simp: t_def)
  have tin: "t \<in> set ns" "a \<in> set ns" using Cons by (simp_all add: t_def)
  obtain nt where nt: "cells h t = Some nt" using list_at_node[OF assms tin(1)] by blast
  have fr: "cells h c = None" "c \<noteq> a" "c \<noteq> t" "c \<notin> set ns" using list_at_fresh[OF assms] tin n0(2) nt by (auto simp: c_def)
  define na where "na = (if a = t then n0\<lparr>node_size := node_size n0 + 1, node_next := Some c\<rparr>
      else n0\<lparr>node_size := node_size n0 + 1\<rparr>)\<lparr>node_tail := Some c\<rparr>"
  define h' where "h' = h\<lparr>fresh_cell := c + 1, cells := (cells h)(t := Some (nt\<lparr>node_next := Some c\<rparr>), a := Some na,
      c := Some \<lparr>node_data = d, node_next = None, node_tail = None, node_size = 0\<rparr>)\<rparr>"
  have run: "buxton_list_append p d h = Inr (True, p, h')"
    using n0 nt fr by (cases "a = t")
      (auto simp: buxton_list_append_def calloc_node_def Let_def update_node_def node_at_def c_def[symmetric] h'_def na_def fun_upd_twist)
  have links': "links h' = (links h)(t := Some (node_data nt, Some c), c := Some (d, None))"
    using n0(2) nt fr by (auto simp: h'_def links_def na_def fun_eq_iff)
  have seg: "lseg (links h) p ns None xs" "distinct ns" "dom (cells h) = set ns" "\<forall>x \<in> set ns. x < c"
    using assms by (auto simp: list_at_def c_def)
  have "lseg (links h') p ns (Some c) xs"
  proof (rule lseg_last[OF seg(1) _ seg(2)])
    show "ns \<noteq> []" by (simp add: Cons)
    show "links h (last ns) = Some (node_data nt, node_next nt)" using nt by (simp add: links_def t_def)
    show "links h' (last ns) = Some (node_data nt, Some c)" using fr by (simp add: links' t_def)
    show "links h' x = links h x" if "x \<in> set (butlast ns)" for x
    proof -
      have "x \<noteq> t" using not_last[OF seg(2) that] by (simp add: t_def)
      moreover have "x \<noteq> c" using that fr(4) in_set_butlastD by fastforce
      ultimately show ?thesis by (simp add: links')
    qed
  qed
  moreover have "lseg (links h') (Some c) [c] None [d]" by (simp add: links')
  ultimately have "lseg (links h') p (ns @ [c]) None (xs @ [d])" unfolding lseg_append by blast
  moreover have "head_ok h' (ns @ [c])"
    using n0(4) fr(2) Cons by (simp add: head_ok_def h'_def na_def)
  moreover have "dom (cells h') = set (ns @ [c])" using seg(3) tin by (auto simp: h'_def)
  moreover have "\<forall>x \<in> set (ns @ [c]). x < fresh_cell h'" using seg(4) by (auto simp: h'_def)
  ultimately have "list_at p h' (ns @ [c]) (xs @ [d])" using seg(2) fr(4) by (simp add: list_at_def)
  moreover have "freed h' = freed h" by (simp add: h'_def)
  ultimately show ?thesis using run by (auto simp: c_def)
qed

lemma prepend_ok:
  assumes "list_at p h ns xs"
  shows "\<exists>p' h'. buxton_list_prepend p d h = Inr (True, p', h') \<and> list_at p' h' (fresh_cell h # ns) (d # xs) \<and> freed h' = freed h"
proof (cases ns)
  case Nil
  then have "p = None" "xs = []" using assms by (simp_all add: list_at_def)
  then show ?thesis using single_ok[of h xs d] assms Nil by (auto simp: buxton_list_prepend_def)
next
  case (Cons a ms)
  define c where "c = fresh_cell h"
  obtain n0 where n0: "p = Some a" "cells h a = Some n0" "node_tail n0 = Some (last ns)" "node_size n0 = word_of_nat (length ns)"
    using list_at_head[of p h a ms xs] assms Cons by auto
  have fr: "cells h c = None" "c \<noteq> a" "c \<notin> set ns" using list_at_fresh[OF assms] n0(2) by (auto simp: c_def)
  define h' where "h' = h\<lparr>fresh_cell := c + 1, cells := (cells h)(a := Some (n0\<lparr>node_size := 0, node_tail := None\<rparr>),
      c := Some \<lparr>node_data = d, node_next = p, node_tail = Some (last ns), node_size = node_size n0 + 1\<rparr>)\<rparr>"
  have run: "buxton_list_prepend p d h = Inr (True, Some c, h')"
    using n0 fr by (auto simp: buxton_list_prepend_def calloc_node_def Let_def update_node_def node_at_def c_def[symmetric] h'_def fun_upd_twist)
  have links': "links h' = (links h)(c := Some (d, p))"
    using n0(2) fr by (auto simp: h'_def links_def fun_eq_iff)
  have seg: "lseg (links h) p ns None xs" "distinct ns" "dom (cells h) = set ns" "\<forall>x \<in> set ns. x < c"
    using assms by (auto simp: list_at_def c_def)
  have "lseg (links h') p ns None xs = lseg (links h) p ns None xs"
    using fr(3) by (intro lseg_cong) (auto simp: links')
  then have "lseg (links h') (Some c) (c # ns) None (d # xs)" using seg(1) by (simp add: links')
  moreover have "head_ok h' (c # ns)" using n0(4) Cons by (simp add: head_ok_def h'_def)
  moreover have "dom (cells h') = set (c # ns)" using seg(3) Cons by (auto simp: h'_def)
  moreover have "\<forall>x \<in> set (c # ns). x < fresh_cell h'" using seg(4) by (auto simp: h'_def)
  ultimately have "list_at (Some c) h' (c # ns) (d # xs)" using seg(2) fr(3) by (simp add: list_at_def)
  moreover have "freed h' = freed h" by (simp add: h'_def)
  ultimately show ?thesis using run by (auto simp: c_def)
qed

lemma lseg_node:
  assumes "lseg (links h) p (a # ns) q xs"
  obtains n ys where "p = Some a" "cells h a = Some n" "xs = node_data n # ys" "lseg (links h) (node_next n) ns q ys"
proof -
  obtain x r ys where x: "p = Some a" "links h a = Some (x, r)" "xs = x # ys" "lseg (links h) r ns q ys"
    using assms by auto
  then obtain n where "cells h a = Some n" "x = node_data n" "r = node_next n" by (auto simp: links_def[of h a])
  then show ?thesis using that x by blast
qed

text \<open>The search finds the first node with the data, and knows the one before.\<close>

lemma find_absent:
  assumes "lseg (links h) p ns None xs" "d \<notin> set xs"
  shows "\<exists>q. find_node h d prev p = Some (Inr (q, None))"
  using assms
proof (induction ns arbitrary: p xs prev)
  case Nil
  then show ?case by (simp add: find_node.simps)
next
  case (Cons a ns)
  obtain n ys where n: "p = Some a" "cells h a = Some n" "xs = node_data n # ys" "lseg (links h) (node_next n) ns None ys"
    by (rule lseg_node[OF Cons.prems(1)])
  then have "node_data n \<noteq> d" using Cons.prems(2) by auto
  then have "find_node h d prev p = find_node h d p (node_next n)" using n by (subst find_node.simps) simp
  then show ?case using Cons.IH[OF n(4)] Cons.prems(2) n(3) by simp
qed

lemma find_present:
  assumes "lseg (links h) p as (Some b) ys" "d \<notin> set ys" "cells h b = Some n" "node_data n = d"
  shows "find_node h d prev p = Some (Inr (if as = [] then prev else Some (last as), Some b))"
  using assms(1,2)
proof (induction as arbitrary: p ys prev)
  case Nil
  then show ?case using assms(3,4) by (subst find_node.simps) simp
next
  case (Cons a as)
  obtain m zs where m: "p = Some a" "cells h a = Some m" "ys = node_data m # zs" "lseg (links h) (node_next m) as (Some b) zs"
    by (rule lseg_node[OF Cons.prems(1)])
  then have "node_data m \<noteq> d" using Cons.prems(2) by auto
  then have "find_node h d prev p = find_node h d p (node_next m)" using m by (subst find_node.simps) simp
  then show ?case using Cons.IH[OF m(4), of p] Cons.prems(2) m(1,3) by simp
qed

text \<open>A list taken apart at the first node with the data.\<close>

lemma list_split:
  assumes "list_at p h ns xs" "d \<in> set xs"
  obtains as b bs ys zs n where "ns = as @ b # bs" "xs = ys @ d # zs" "d \<notin> set ys" "length ys = length as"
    "lseg (links h) p as (Some b) ys" "cells h b = Some n" "node_data n = d" "lseg (links h) (node_next n) bs None zs"
proof -
  obtain ys zs where x: "xs = ys @ d # zs" "d \<notin> set ys" using split_list_first[OF assms(2)] by blast
  have l: "length xs = length ns" "lseg (links h) p ns None xs" using assms(1) lseg_length by (auto simp: list_at_def)
  define as where "as = take (length ys) ns"
  have "length ys < length ns" using l(1) x(1) by simp
  then have ns: "ns = as @ ns ! length ys # drop (Suc (length ys)) ns" by (simp add: as_def id_take_nth_drop)
  define b where "b = ns ! length ys"
  define bs where "bs = drop (Suc (length ys)) ns"
  have ns': "ns = as @ b # bs" using ns by (simp add: b_def bs_def)
  obtain m ys' zs' where s: "xs = ys' @ zs'" "lseg (links h) p as m ys'" "lseg (links h) m (b # bs) None zs'"
    using l(2) unfolding ns' lseg_append by blast
  have "length ys' = length as" using s(2) by (rule lseg_length)
  moreover have "length as = length ys" using \<open>length ys < length ns\<close> by (simp add: as_def)
  ultimately have "ys' = ys" "zs' = d # zs" using s(1) x(1) by (metis append_eq_append_conv)+
  have m: "m = Some b" "lseg (links h) (Some b) (b # bs) None (d # zs)" using s(3) \<open>zs' = d # zs\<close> by auto
  obtain n where "cells h b = Some n" "d = node_data n" "lseg (links h) (node_next n) bs None zs"
    by (rule lseg_node[OF m(2)]) auto
  then show ?thesis using s(2) m(1) that[OF ns' x] \<open>length as = length ys\<close> \<open>ys' = ys\<close> by auto
qed

text \<open>After the unlinking, the list without the node, and the node still there.\<close>

definition without :: "nat \<Rightarrow> 'a list_heap \<Rightarrow> 'a list_heap" where
  "without b h = h\<lparr>cells := (cells h)(b := None)\<rparr>"

lemma unlink_head:
  assumes l: "list_at p h (b # bs) (d # zs)" and n: "cells h b = Some n" "lseg (links h) (node_next n) bs None zs"
  shows "\<exists>p' h'. unlink_node p p p n h = Inr (p', h') \<and> cells h' b = Some n \<and> freed h' = freed h \<and>
    list_at p' (without b h') bs zs"
proof -
  have a: "p = Some b" "distinct (b # bs)" "dom (cells h) = set (b # bs)" "\<forall>x \<in> set (b # bs). x < fresh_cell h"
    using list_at_head(1)[OF l] l by (auto simp: list_at_def)
  have hd: "node_tail n = Some (last (b # bs))" "node_size n = word_of_nat (length (b # bs))"
    using list_at_head(2)[OF l] n(1) by auto
  show ?thesis
  proof (cases bs)
    case Nil
    have "node_next n = None" "zs = []" using n(2) Nil by simp_all
    moreover have "dom ((cells h)(b := None)) = {}" using a(3) Nil by auto
    ultimately show ?thesis using a n(1) Nil
      by (auto simp: unlink_node_def without_def list_at_def head_ok_def)
  next
    case (Cons c cs)
    obtain m ms where m: "node_next n = Some c" "cells h c = Some m" "zs = node_data m # ms" "lseg (links h) (node_next m) cs None ms"
      using n(2) unfolding Cons by (rule lseg_node) auto
    define h' where "h' = h\<lparr>cells := (cells h)(c := Some (m\<lparr>node_size := node_size n - 1, node_tail := node_tail n\<rparr>))\<rparr>"
    have bc: "b \<noteq> c" "b \<noteq> last bs" "b \<notin> set bs" using a(2) Cons by auto
    have run: "unlink_node p p p n h = Inr (Some c, h')"
      using a(1) m bc hd(1) Cons by (simp add: unlink_node_def update_node_def node_at_def h'_def)
    have "lseg (links (without b h')) (Some c) bs None zs = lseg (links h) (Some c) bs None zs"
      using bc(3) m(2) by (intro lseg_cong) (auto simp: links_def without_def h'_def)
    then have "lseg (links (without b h')) (Some c) bs None zs" using n(2) m(1) by simp
    moreover have "head_ok (without b h') bs"
      using hd bc Cons by (simp add: head_ok_def without_def h'_def)
    moreover have "dom (cells (without b h')) = set bs" using a(3) bc m(2) Cons by (auto simp: without_def h'_def)
    moreover have "\<forall>x \<in> set bs. x < fresh_cell (without b h')" using a(4) by (simp add: without_def h'_def)
    ultimately have "list_at (Some c) (without b h') bs zs" using a(2) by (simp add: list_at_def)
    moreover have "cells h' b = Some n" "freed h' = freed h" using n(1) bc(1) by (simp_all add: h'_def)
    ultimately show ?thesis using run by blast
  qed
qed

lemma unlink_later:
  assumes l: "list_at p h (as @ b # bs) (ys @ d # zs)" and as: "as \<noteq> []" and y: "lseg (links h) p as (Some b) ys"
    and n: "cells h b = Some n" "lseg (links h) (node_next n) bs None zs"
  shows "\<exists>h'. unlink_node p (Some (last as)) (Some b) n h = Inr (p, h') \<and> cells h' b = Some n \<and> freed h' = freed h \<and>
    list_at p (without b h') (as @ bs) (ys @ zs)"
proof -
  obtain a ms where a: "as = a # ms" using as by (cases as) auto
  have g: "p = Some a" "distinct (as @ b # bs)" "dom (cells h) = set (as @ b # bs)" "\<forall>x \<in> set (as @ b # bs). x < fresh_cell h"
    using list_at_head(1)[of p h a "ms @ b # bs"] l a by (auto simp: list_at_def)
  obtain n0 where n0: "cells h a = Some n0" "node_tail n0 = Some (last (as @ b # bs))" "node_size n0 = word_of_nat (length (as @ b # bs))"
    using list_at_head(2)[of p h a "ms @ b # bs"] l a by auto
  define t where "t = last as"
  have tin: "t \<in> set as" using as by (simp add: t_def)
  obtain nt where nt: "cells h t = Some nt" using g(3) tin by (metis UnI1 domD set_append)
  have ne: "b \<noteq> a" "b \<noteq> t" "b \<notin> set as" "b \<notin> set bs" using g(2) tin a by auto
  define tl where "tl = (if bs = [] then Some t else Some (last bs))"
  define na where "na = (if a = t then n0\<lparr>node_next := node_next n\<rparr> else n0)\<lparr>node_size := node_size n0 - 1, node_tail := tl\<rparr>"
  define h' where "h' = h\<lparr>cells := (cells h)(t := Some (nt\<lparr>node_next := node_next n\<rparr>), a := Some na)\<rparr>"
  have last: "(last (as @ b # bs) = b) = (bs = [])" "bs \<noteq> [] \<Longrightarrow> last (as @ b # bs) = last bs" using ne(4) by auto
  have run: "unlink_node p (Some t) (Some b) n h = Inr (p, h')"
  proof (cases "a = t")
    case True
    then have "nt = n0" using n0(1) nt by simp
    then show ?thesis using g(1) n0 ne last True
      by (cases "bs = []"; cases n0) (simp_all add: unlink_node_def update_node_def node_at_def h'_def na_def tl_def)
  next
    case False
    then show ?thesis using g(1) n0 nt ne last
      by (cases "bs = []"; cases n0) (simp_all add: unlink_node_def update_node_def node_at_def h'_def na_def tl_def fun_upd_twist)
  qed
  let ?L = "links (without b h')"
  have L: "?L x = (if x = b then None else if x = t then Some (node_data nt, node_next n) else links h x)" for x
    using n0(1) nt ne by (auto simp: links_def without_def h'_def na_def)
  have "lseg ?L p as (node_next n) ys"
  proof (rule lseg_last[OF y as])
    show "distinct as" using g(2) by simp
    then show "?L x = links h x" if "x \<in> set (butlast as)" for x
      using not_last[OF _ that] in_set_butlastD[OF that] ne(3) by (auto simp: L t_def)
    show "links h (last as) = Some (node_data nt, node_next nt)" using nt by (simp add: links_def t_def)
    show "?L (last as) = Some (node_data nt, node_next n)" using ne(2) by (simp add: L t_def[symmetric])
  qed
  moreover have "lseg ?L (node_next n) bs None zs = lseg (links h) (node_next n) bs None zs"
    using ne(4) tin g(2) by (intro lseg_cong) (auto simp: L)
  ultimately have "lseg ?L p (as @ bs) None (ys @ zs)" using n(2) unfolding lseg_append by blast
  moreover have "head_ok (without b h') (as @ bs)"
    using n0(3) ne(1) a by (auto simp: head_ok_def without_def h'_def na_def tl_def t_def)
  moreover have "dom (cells (without b h')) = set (as @ bs)" using g(3) ne tin a by (auto simp: without_def h'_def)
  moreover have "\<forall>x \<in> set (as @ bs). x < fresh_cell (without b h')" using g(4) by (auto simp: without_def h'_def)
  ultimately have "list_at p (without b h') (as @ bs) (ys @ zs)" using g(2) by (simp add: list_at_def)
  moreover have "cells h' b = Some n" "freed h' = freed h" using n(1) ne by (simp_all add: h'_def)
  ultimately show ?thesis using run by (auto simp: t_def)
qed

text \<open>What a removal does to the data and to what was freed.\<close>

definition removed :: "'a option \<Rightarrow> bool \<Rightarrow> 'a option list \<Rightarrow> 'a list \<Rightarrow> (bool \<times> 'a option list \<times> 'a list) res" where
  "removed d do_free xs fr =
     (if d \<notin> set xs then Inr (False, xs, fr)
      else if \<not> do_free then Inr (True, remove1 d xs, fr)
      else case d of
          None \<Rightarrow> Inr (True, remove1 d xs, fr)
        | Some x \<Rightarrow> if x \<in> set fr then Inl DoubleFree else Inr (True, remove1 d xs, fr @ [x]))"

lemma free_data_without:
  "free_data d h = (case d of None \<Rightarrow> Inr h | Some x \<Rightarrow> if x \<in> set (freed h) then Inl DoubleFree else Inr (h\<lparr>freed := freed h @ [x]\<rparr>))"
  by (simp add: free_data_def)

lemma list_at_cong: "cells h' = cells h \<Longrightarrow> fresh_cell h' = fresh_cell h \<Longrightarrow> list_at p h' ns xs = list_at p h ns xs"
proof -
  assume a: "cells h' = cells h" "fresh_cell h' = fresh_cell h"
  then have l: "links h' = links h" by (simp add: links_def fun_eq_iff)
  show ?thesis unfolding list_at_def head_ok_def a l by (rule refl)
qed

lemma remove_ok:
  assumes l: "list_at p h ns xs"
  shows "case removed d do_free xs (freed h) of
      Inl e \<Rightarrow> buxton_list_remove p d do_free h = Inl e
    | Inr (r, xs', fr) \<Rightarrow> \<exists>p' h' ns'. buxton_list_remove p d do_free h = Inr (r, p', h') \<and> list_at p' h' ns' xs' \<and> freed h' = fr"
proof (cases "d \<in> set xs")
  case False
  then have "buxton_list_remove p d do_free h = Inr (False, p, h)"
    using find_absent[of h p ns xs d p] l by (auto simp: buxton_list_remove_def list_at_def)
  then show ?thesis using l False by (auto simp: removed_def)
next
  case True
  obtain as b bs ys zs n where s: "ns = as @ b # bs" "xs = ys @ d # zs" "d \<notin> set ys" "length ys = length as"
    "lseg (links h) p as (Some b) ys" "cells h b = Some n" "node_data n = d" "lseg (links h) (node_next n) bs None zs"
    by (rule list_split[OF l True])
  have f: "find_node h d p p = Some (Inr (if as = [] then p else Some (last as), Some b))"
    by (rule find_present[OF s(5,3,6,7)])
  have "\<exists>p' h1. unlink_node p (if as = [] then p else Some (last as)) (Some b) n h = Inr (p', h1) \<and> cells h1 b = Some n \<and>
      freed h1 = freed h \<and> list_at p' (without b h1) (as @ bs) (ys @ zs)"
  proof (cases "as = []")
    case True
    then have "p = Some b" "ys = []" using s(4,5) by auto
    then show ?thesis using unlink_head[of p h b bs d zs n] l s(1,2,6,8) True by simp
  next
    case False
    then show ?thesis using unlink_later[of p h as b bs ys d zs n] l s by auto
  qed
  then obtain p' h1 where u: "unlink_node p (if as = [] then p else Some (last as)) (Some b) n h = Inr (p', h1)"
    "cells h1 b = Some n" "freed h1 = freed h" "list_at p' (without b h1) (as @ bs) (ys @ zs)" by blast
  have rest: "remove1 d xs = ys @ zs" using s(2,3) by (simp add: remove1_append)
  have run: "buxton_list_remove p d do_free h =
      bindE (if do_free then free_data d h1 else Inr h1) (\<lambda>h. bindE (free_node b h) (\<lambda>h. Inr (True, p', h)))"
    unfolding buxton_list_remove_def f option.case bindE_Inr prod.case using u(1,2) s(6,7) by (simp add: node_at_def)
  have fr: "free_node b (h1\<lparr>freed := g\<rparr>) = Inr (without b (h1\<lparr>freed := g\<rparr>))" "free_node b h1 = Inr (without b h1)" for g
    using u(2) by (simp_all add: free_node_def without_def)
  have l': "list_at p' (without b (h1\<lparr>freed := g\<rparr>)) (as @ bs) (ys @ zs)" "freed (without b (h1\<lparr>freed := g\<rparr>)) = g" for g
    using u(4) list_at_cong[of "without b (h1\<lparr>freed := g\<rparr>)" "without b h1"] by (simp_all add: without_def)
  have spec: "removed d do_free xs (freed h) = (if \<not> do_free then Inr (True, ys @ zs, freed h)
      else case d of None \<Rightarrow> Inr (True, ys @ zs, freed h)
        | Some x \<Rightarrow> if x \<in> set (freed h) then Inl DoubleFree else Inr (True, ys @ zs, freed h @ [x]))"
    unfolding removed_def rest using True by simp
  have keep: "freed (without b h1) = freed h" using u(3) by (simp add: without_def)
  show ?thesis
  proof (cases "do_free \<and> d \<noteq> None")
    case True
    then obtain x where "d = Some x" by blast
    then show ?thesis using True l'[of "freed h @ [x]"] unfolding run spec by (auto simp: free_data_without u(3) fr)
  next
    case False
    then have "buxton_list_remove p d do_free h = Inr (True, p', without b h1)"
      "removed d do_free xs (freed h) = Inr (True, ys @ zs, freed h)"
      unfolding run spec by (auto simp: free_data_without fr split: option.splits)
    then show ?thesis using u(4) keep by auto
  qed
qed

lemma foreach_ok: "lseg (links h) p ns None xs \<Longrightarrow> foreach_data h p = Some (Inr xs)"
proof (induction ns arbitrary: p xs)
  case Nil
  then show ?case by (simp add: foreach_data.simps)
next
  case (Cons a ns)
  obtain n ys where n: "p = Some a" "cells h a = Some n" "xs = node_data n # ys" "lseg (links h) (node_next n) ns None ys"
    by (rule lseg_node[OF Cons.prems])
  then show ?case using Cons.IH[OF n(4)] by (subst foreach_data.simps) simp
qed

text \<open>Freeing the list leaves no node behind and frees none twice.\<close>

lemma free_nodes_ok:
  assumes "lseg (links h) p ns None xs" "distinct ns"
  shows "free_nodes False p h = Some (Inr (h\<lparr>cells := (\<lambda>a. if a \<in> set ns then None else cells h a)\<rparr>))"
  using assms
proof (induction ns arbitrary: p xs h)
  case Nil
  then show ?case by (simp add: free_nodes.simps)
next
  case (Cons a ns)
  obtain n ys where n: "p = Some a" "cells h a = Some n" "xs = node_data n # ys" "lseg (links h) (node_next n) ns None ys"
    by (rule lseg_node[OF Cons.prems(1)])
  have "lseg (links (without a h)) (node_next n) ns None ys = lseg (links h) (node_next n) ns None ys"
    using Cons.prems(2) by (intro lseg_cong) (auto simp: links_def without_def)
  then have "free_nodes False (node_next n) (without a h) = Some (Inr ((without a h)\<lparr>cells := (\<lambda>x. if x \<in> set ns then None else cells (without a h) x)\<rparr>))"
    using Cons.IH[of "without a h"] Cons.prems(2) n(4) by simp
  moreover have "free_nodes False p h = free_nodes False (node_next n) (without a h)"
    using n by (subst free_nodes.simps) (simp add: free_node_def without_def)
  moreover have "(\<lambda>x. if x \<in> set ns then None else cells (without a h) x) = (\<lambda>x. if x \<in> set (a # ns) then None else cells h x)"
    by (auto simp: without_def)
  ultimately show ?case by (simp add: without_def)
qed

section \<open>The contract\<close>

datatype 'a list_op = Append "'a option" | Prepend "'a option" | Remove "'a option" bool

text \<open>A script of operations, and the same script on a list.\<close>

fun run_list_ops :: "('a option \<Rightarrow> 's \<Rightarrow> (bool \<times> 's) res) \<Rightarrow> ('a option \<Rightarrow> 's \<Rightarrow> (bool \<times> 's) res) \<Rightarrow>
    ('a option \<Rightarrow> bool \<Rightarrow> 's \<Rightarrow> (bool \<times> 's) res) \<Rightarrow> 'a list_op list \<Rightarrow> 's \<Rightarrow> (bool list \<times> 's) res" where
  "run_list_ops app pre rem [] s = Inr ([], s)"
| "run_list_ops app pre rem (op # ops) s =
     bindE (case op of Append d \<Rightarrow> app d s | Prepend d \<Rightarrow> pre d s | Remove d f \<Rightarrow> rem d f s) (\<lambda>(r, s).
       bindE (run_list_ops app pre rem ops s) (\<lambda>(rs, s). Inr (r # rs, s)))"

fun run_seq :: "'a list_op list \<Rightarrow> 'a option list \<Rightarrow> 'a list \<Rightarrow> (bool list \<times> 'a option list \<times> 'a list) res" where
  "run_seq [] xs fr = Inr ([], xs, fr)"
| "run_seq (op # ops) xs fr =
     bindE (case op of Append d \<Rightarrow> Inr (True, xs @ [d], fr) | Prepend d \<Rightarrow> Inr (True, d # xs, fr) | Remove d f \<Rightarrow> removed d f xs fr)
       (\<lambda>(r, xs, fr). bindE (run_seq ops xs fr) (\<lambda>(rs, xs, fr). Inr (r # rs, xs, fr)))"

text \<open>A list of pointers: \<open>holds s xs fr\<close> says that \<open>s\<close> is the list \<open>xs\<close> and that the data \<open>fr\<close> were freed.\<close>

locale pointer_list =
  fixes holds :: "'s \<Rightarrow> 'a option list \<Rightarrow> 'a list \<Rightarrow> bool"
    and append :: "'a option \<Rightarrow> 's \<Rightarrow> (bool \<times> 's) res"
    and prepend :: "'a option \<Rightarrow> 's \<Rightarrow> (bool \<times> 's) res"
    and remove :: "'a option \<Rightarrow> bool \<Rightarrow> 's \<Rightarrow> (bool \<times> 's) res"
    and contents :: "'s \<Rightarrow> 'a option list res"
  assumes append_holds: "holds s xs fr \<Longrightarrow> \<exists>s'. append d s = Inr (True, s') \<and> holds s' (xs @ [d]) fr"
    and prepend_holds: "holds s xs fr \<Longrightarrow> \<exists>s'. prepend d s = Inr (True, s') \<and> holds s' (d # xs) fr"
    and remove_holds: "holds s xs fr \<Longrightarrow> case removed d f xs fr of
        Inl e \<Rightarrow> remove d f s = Inl e
      | Inr (r, xs', fr') \<Rightarrow> \<exists>s'. remove d f s = Inr (r, s') \<and> holds s' xs' fr'"
    and contents_holds: "holds s xs fr \<Longrightarrow> contents s = Inr xs"
begin

lemma step_holds:
  assumes "holds s xs fr"
  shows "case (case op of Append d \<Rightarrow> Inr (True, xs @ [d], fr) | Prepend d \<Rightarrow> Inr (True, d # xs, fr) | Remove d f \<Rightarrow> removed d f xs fr) of
      Inl e \<Rightarrow> (case op of Append d \<Rightarrow> append d s | Prepend d \<Rightarrow> prepend d s | Remove d f \<Rightarrow> remove d f s) = Inl e
    | Inr (r, xs', fr') \<Rightarrow> \<exists>s'. (case op of Append d \<Rightarrow> append d s | Prepend d \<Rightarrow> prepend d s | Remove d f \<Rightarrow> remove d f s) = Inr (r, s') \<and>
        holds s' xs' fr'"
proof (cases op)
  case (Append d)
  then show ?thesis using append_holds[OF assms, of d] unfolding Append list_op.case by simp
next
  case (Prepend d)
  then show ?thesis using prepend_holds[OF assms, of d] unfolding Prepend list_op.case by simp
next
  case (Remove d f)
  then show ?thesis using remove_holds[OF assms, of d f] unfolding Remove list_op.case by simp
qed

lemma run_ops_seq:
  "holds s xs fr \<Longrightarrow> case run_seq ops xs fr of
      Inl e \<Rightarrow> run_list_ops append prepend remove ops s = Inl e
    | Inr (rs, xs', fr') \<Rightarrow> \<exists>s'. run_list_ops append prepend remove ops s = Inr (rs, s') \<and> holds s' xs' fr'"
proof (induction ops arbitrary: s xs fr)
  case (Cons op ops)
  let ?S = "case op of Append d \<Rightarrow> Inr (True, xs @ [d], fr) | Prepend d \<Rightarrow> Inr (True, d # xs, fr) | Remove d f \<Rightarrow> removed d f xs fr"
  show ?case
  proof (cases ?S)
    case (Inl e)
    then show ?thesis using step_holds[OF Cons.prems, of op] by simp
  next
    case (Inr x)
    obtain r xs1 fr1 where x: "x = (r, xs1, fr1)" by (cases x)
    obtain s1 where s1: "(case op of Append d \<Rightarrow> append d s | Prepend d \<Rightarrow> prepend d s | Remove d f \<Rightarrow> remove d f s) = Inr (r, s1)"
      "holds s1 xs1 fr1" using step_holds[OF Cons.prems, of op] Inr x by auto
    show ?thesis
      using Cons.IH[OF s1(2)] by (cases "run_seq ops xs1 fr1") (auto simp: Inr x s1(1))
  qed
qed simp

end

text \<open>The list of the code, with its head pointer as part of the state.\<close>

definition at_head :: "(nat option \<Rightarrow> 'a list_heap \<Rightarrow> (bool \<times> nat option \<times> 'a list_heap) res) \<Rightarrow>
    nat option \<times> 'a list_heap \<Rightarrow> (bool \<times> (nat option \<times> 'a list_heap)) res" where
  "at_head f s = bindE (f (fst s) (snd s)) (\<lambda>(r, p, h). Inr (r, (p, h)))"

definition heap_list :: "nat option \<times> 'a list_heap \<Rightarrow> 'a option list \<Rightarrow> 'a list \<Rightarrow> bool" where
  "heap_list s xs fr \<longleftrightarrow> (\<exists>ns. list_at (fst s) (snd s) ns xs) \<and> freed (snd s) = fr"

definition list_contents :: "nat option \<times> 'a list_heap \<Rightarrow> 'a option list res" where
  "list_contents s = (case foreach_data (snd s) (fst s) of None \<Rightarrow> Inl Diverges | Some r \<Rightarrow> r)"

interpretation bl: pointer_list heap_list "\<lambda>d. at_head (\<lambda>p. buxton_list_append p d)" "\<lambda>d. at_head (\<lambda>p. buxton_list_prepend p d)"
  "\<lambda>d f. at_head (\<lambda>p. buxton_list_remove p d f)" list_contents
proof unfold_locales
  fix s :: "nat option \<times> 'a list_heap" and xs fr d f
  assume h: "heap_list s xs fr"
  obtain p m where s: "s = (p, m)" by (cases s)
  obtain ns where l: "list_at p m ns xs" "freed m = fr" using h by (auto simp: heap_list_def s)
  show "\<exists>s'. at_head (\<lambda>p. buxton_list_append p d) s = Inr (True, s') \<and> heap_list s' (xs @ [d]) fr"
    using append_ok[OF l(1), of d] l(2) by (auto simp: at_head_def heap_list_def s)
  show "\<exists>s'. at_head (\<lambda>p. buxton_list_prepend p d) s = Inr (True, s') \<and> heap_list s' (d # xs) fr"
    using prepend_ok[OF l(1), of d] l(2) by (auto simp: at_head_def heap_list_def s)
  show "case removed d f xs fr of Inl e \<Rightarrow> at_head (\<lambda>p. buxton_list_remove p d f) s = Inl e
    | Inr (r, xs', fr') \<Rightarrow> \<exists>s'. at_head (\<lambda>p. buxton_list_remove p d f) s = Inr (r, s') \<and> heap_list s' xs' fr'"
    using remove_ok[OF l(1), of d f] l(2) by (auto simp: at_head_def heap_list_def s split: sum.splits)
  show "list_contents s = Inr xs" using foreach_ok[of m p ns xs] l(1) by (simp add: list_contents_def s list_at_def)
qed

definition run_heap_ops :: "'a list_op list \<Rightarrow> nat option \<times> 'a list_heap \<Rightarrow> (bool list \<times> (nat option \<times> 'a list_heap)) res" where
  "run_heap_ops = run_list_ops (\<lambda>d. at_head (\<lambda>p. buxton_list_append p d)) (\<lambda>d. at_head (\<lambda>p. buxton_list_prepend p d))
     (\<lambda>d f. at_head (\<lambda>p. buxton_list_remove p d f))"

text \<open>Of the nodes of a list, the last one, and no other, has no successor.\<close>

lemma lseg_end:
  assumes "lseg L p ns None xs" "ns \<noteq> []"
  shows "{b \<in> set ns. \<exists>x. L b = Some (x, None)} = {last ns} \<and> (\<exists>x. L (last ns) = Some (x, None) \<and> last xs = x)"
  using assms
proof (induction ns arbitrary: p xs)
  case Nil
  then show ?case by simp
next
  case (Cons a ns)
  obtain x r ys where a: "L a = Some (x, r)" "xs = x # ys" "lseg L r ns None ys" using Cons.prems(1) by auto
  show ?case
  proof (cases ns)
    case Nil
    then show ?thesis using a by auto
  next
    case (Cons b ms)
    then have ih: "{b \<in> set ns. \<exists>x. L b = Some (x, None)} = {last ns}" "\<exists>x. L (last ns) = Some (x, None) \<and> last ys = x"
      using Cons.IH[OF a(3)] by auto
    have "r \<noteq> None" "ys \<noteq> []" using a(3) Cons by auto
    then have "{b \<in> set (a # ns). \<exists>x. L b = Some (x, None)} = {b \<in> set ns. \<exists>x. L b = Some (x, None)}" using a(1) by auto
    then show ?thesis using ih \<open>ys \<noteq> []\<close> a(2) Cons by simp
  qed
qed

lemma head_knows:
  assumes "list_at p h ns xs"
  shows "case p of None \<Rightarrow> xs = [] | Some a \<Rightarrow> (case cells h a of None \<Rightarrow> False
    | Some n \<Rightarrow> node_size n = word_of_nat (length xs) \<and>
        (\<exists>t nt. node_tail n = Some t \<and> cells h t = Some nt \<and> node_data nt = last xs \<and>
           {b. \<exists>m. cells h b = Some m \<and> node_next m = None} = {t}))"
proof (cases ns)
  case Nil
  then show ?thesis using assms by (auto simp: list_at_def)
next
  case (Cons a ms)
  have seg: "lseg (links h) p ns None xs" "dom (cells h) = set ns" using assms by (auto simp: list_at_def)
  obtain n where n: "p = Some a" "cells h a = Some n" "node_tail n = Some (last ns)" "node_size n = word_of_nat (length xs)"
    using list_at_head[of p h a ms xs] assms Cons lseg_length[OF seg(1)] by auto
  have e: "{b \<in> set ns. \<exists>x. links h b = Some (x, None)} = {last ns}" "\<exists>x. links h (last ns) = Some (x, None) \<and> last xs = x"
    using lseg_end[OF seg(1)] Cons by auto
  have "{b. \<exists>m. cells h b = Some m \<and> node_next m = None} = {b \<in> set ns. \<exists>x. links h b = Some (x, None)}"
    using seg(2) by (auto simp: links_def)
  then show ?thesis using n e by (auto simp: links_def)
qed

text \<open>C36. Every script of appends, prepends and removals (with or without freeing the data), starting with no list,
  gives what it gives on a list: the results, the data in order, and the data that were freed. The head's
  size is the number of nodes, modulo the 64 bits it is kept in, and its tail pointer points to the one node that has no successor, which
  holds the last data. It faults only where the script frees the same data twice. Freeing
  the list at the end frees every node once and leaves none.\<close>

theorem list_scripts:
  "case run_seq ops [] [] of
      Inl e \<Rightarrow> run_heap_ops ops (None, empty_heap) = Inl e
    | Inr (rs, xs, fr) \<Rightarrow> \<exists>p h. run_heap_ops ops (None, empty_heap) = Inr (rs, (p, h)) \<and> list_contents (p, h) = Inr xs \<and>
        freed h = fr \<and> (\<exists>h'. buxton_list_free p h = Inr h' \<and> cells h' = (\<lambda>_. None)) \<and>
        (case p of None \<Rightarrow> xs = [] | Some a \<Rightarrow> (case cells h a of None \<Rightarrow> False
          | Some n \<Rightarrow> node_size n = word_of_nat (length xs) \<and>
              (\<exists>t nt. node_tail n = Some t \<and> cells h t = Some nt \<and> node_data nt = last xs \<and>
                 {b. \<exists>m. cells h b = Some m \<and> node_next m = None} = {t})))"
proof -
  have "heap_list (None, empty_heap) [] []"
    by (auto simp: heap_list_def list_at_def head_ok_def empty_heap_def intro!: exI[of _ "[]"])
  note run = bl.run_ops_seq[OF this, of ops, folded run_heap_ops_def]
  show ?thesis
  proof (cases "run_seq ops [] []")
    case (Inl e)
    then show ?thesis using run by simp
  next
    case (Inr r)
    obtain rs xs fr where r: "r = (rs, xs, fr)" by (cases r)
    obtain p h where ph: "run_heap_ops ops (None, empty_heap) = Inr (rs, (p, h))" "heap_list (p, h) xs fr"
      using run Inr r by auto
    obtain ns where l: "list_at p h ns xs" "freed h = fr" using ph(2) by (auto simp: heap_list_def)
    have "buxton_list_free p h = Inr (h\<lparr>cells := (\<lambda>a. if a \<in> set ns then None else cells h a)\<rparr>)"
      using free_nodes_ok[of h p ns xs] l(1) by (simp add: buxton_list_free_def list_at_def)
    moreover have "(\<lambda>a. if a \<in> set ns then None else cells h a) = (\<lambda>_. None)"
      using l(1) unfolding list_at_def by (auto simp: fun_eq_iff)
    moreover have "list_contents (p, h) = Inr xs" using bl.contents_holds[OF ph(2)] by simp
    ultimately show ?thesis using ph(1) l(2) Inr r head_knows[OF l(1)] by simp
  qed
qed

section \<open>The array\<close>

text \<open>\<open>array_block\<close> are the slots of the block that \<open>data\<close> points to; a slot that was never written is \<open>None\<close>.\<close>

record 'a BuxtonArray =
  array_block :: "'a option list option"
  array_len :: "16 word"

definition buxton_array_new :: "'a BuxtonArray" where
  "buxton_array_new = \<lparr>array_block = None, array_len = 0\<rparr>"

text \<open>The block after \<open>realloc\<close>, with room for so many slots.\<close>

definition grow_block :: "nat \<Rightarrow> 'a option list \<Rightarrow> 'a option list" where
  "grow_block slots b = take slots b @ replicate (slots - length b) None"

definition buxton_array_add :: "'a BuxtonArray option \<Rightarrow> 'a option \<Rightarrow> (bool \<times> 'a BuxtonArray option) res" where
  "buxton_array_add array data = (case (array, data) of
       (Some a, Some d) \<Rightarrow>
         (let block = (case array_block a of None \<Rightarrow> [None] | Some b \<Rightarrow> b);
              a = a\<lparr>array_block := Some block\<rparr>;
              new_len = array_len a + 1
          in if new_len = 0 then Inr (False, Some a)
             else
              let curr = unat (array_len a) * 8;
                  block = (if array_len a \<le> new_len
                           then (let sz = greedy_realloc curr (curr + 8) in if sz = curr then block else grow_block (sz div 8) block)
                           else block);
                  i = unat (new_len - 1)
              in if length block \<le> i then Inl OutOfBounds
                 else Inr (True, Some \<lparr>array_block = Some (block[i := Some d]), array_len = new_len\<rparr>))
     | _ \<Rightarrow> Inr (False, array))"

text \<open>The item, or NULL; a slot that was not written is an indeterminate pointer.\<close>

definition buxton_array_get :: "'a BuxtonArray option \<Rightarrow> 16 word \<Rightarrow> 'a option res" where
  "buxton_array_get array index = (case array of
       None \<Rightarrow> Inr None
     | Some a \<Rightarrow>
         if array_len a \<le> index then Inr None
         else (case array_block a of
             None \<Rightarrow> Inl NullDeref
           | Some b \<Rightarrow> if length b \<le> unat index then Inl OutOfBounds
               else (case b ! unat index of None \<Rightarrow> Inl Indeterminate | Some d \<Rightarrow> Inr (Some d))))"

text \<open>The items that the free method is called on, in order.\<close>

definition buxton_array_free :: "'a BuxtonArray option \<Rightarrow> 'a option list \<times> 'a BuxtonArray option" where
  "buxton_array_free array = (case array of
       None \<Rightarrow> ([], None)
     | Some a \<Rightarrow> (take (unat (array_len a)) (case array_block a of None \<Rightarrow> [] | Some b \<Rightarrow> b), None))"

fun array_adds :: "'a list \<Rightarrow> 'a BuxtonArray \<Rightarrow> (bool list \<times> 'a BuxtonArray) res" where
  "array_adds [] a = Inr ([], a)"
| "array_adds (d # ds) a = bindE (buxton_array_add (Some a) (Some d)) (\<lambda>(r, a').
     case a' of None \<Rightarrow> Inl NullDeref
       | Some a' \<Rightarrow> bindE (array_adds ds a') (\<lambda>(rs, a''). Inr (r # rs, a'')))"

definition array_holds :: "'a BuxtonArray \<Rightarrow> 'a list \<Rightarrow> bool" where
  "array_holds a xs \<longleftrightarrow> length xs < 65536 \<and> array_len a = word_of_nat (length xs) \<and>
     (case array_block a of None \<Rightarrow> xs = [] | Some b \<Rightarrow> length xs \<le> length b \<and> take (length xs) b = map Some xs)"

lemma unat16_of_nat: "n < 65536 \<Longrightarrow> unat (word_of_nat n :: 16 word) = n"
  by (simp add: unat_of_nat take_bit_nat_eq_self)

lemma array_add_ok:
  assumes "array_holds a xs"
  shows "\<exists>a'. buxton_array_add (Some a) (Some d) = Inr (length xs < 65535, Some a') \<and>
    array_holds a' (if length xs < 65535 then xs @ [d] else xs)"
proof -
  define b where "b = (case array_block a of None \<Rightarrow> [None] | Some b \<Rightarrow> b)"
  have n: "length xs < 65536" "array_len a = word_of_nat (length xs)" using assms by (simp_all add: array_holds_def)
  have b: "length xs \<le> length b" "take (length xs) b = map Some xs"
    using assms by (auto simp: array_holds_def b_def split: option.splits)
  have u: "unat (array_len a) = length xs" using n by (simp add: unat16_of_nat)
  show ?thesis
  proof (cases "length xs < 65535")
    case True
    have nl: "unat (array_len a + 1) = length xs + 1" using True n by (simp add: unat_word_ariths unat16_of_nat)
    then have ne: "array_len a + 1 \<noteq> 0" by auto
    have le: "array_len a \<le> array_len a + 1" using nl u by (simp add: word_le_nat_alt)
    define m where "m = max 64 ((length xs * 8 + 8) * 2) div 8"
    have m: "length xs < m" by (simp add: m_def)
    have mne: "max 64 (16 * length xs + 16) \<noteq> length xs * 8" by (simp add: max_def)
    define b' where "b' = grow_block m b"
    have lb: "m \<le> length b'" by (simp add: b'_def grow_block_def)
    have tb: "take (length xs) b' = map Some xs" using b m by (simp add: b'_def grow_block_def min_def)
    have "buxton_array_add (Some a) (Some d) = Inr (True, Some \<lparr>array_block = Some (b'[length xs := Some d]), array_len = array_len a + 1\<rparr>)"
      using ne le m lb u mne unfolding buxton_array_add_def b_def[symmetric] Let_def
      by (simp add: greedy_realloc_def b'_def m_def b_def)
    moreover have "take (length xs + 1) (b'[length xs := Some d]) = map Some (xs @ [d])"
      using tb m lb by (simp add: take_Suc_conv_app_nth)
    ultimately show ?thesis
      using True n m lb by (simp add: array_holds_def)
  next
    case False
    then have "length xs = 65535" using n(1) by simp
    then have z: "array_len a + 1 = 0" using n(2) by simp
    have "buxton_array_add (Some a) (Some d) = Inr (False, Some (a\<lparr>array_block := Some b\<rparr>))"
      using z by (simp add: buxton_array_add_def b_def[symmetric] Let_def)
    then show ?thesis using False n b by (simp add: array_holds_def)
  qed
qed

lemma array_adds_ok:
  assumes "array_holds a xs"
  shows "\<exists>a'. array_adds ds a = Inr (map (\<lambda>i. length xs + i < 65535) [0..<length ds], a') \<and> array_holds a' (take 65535 (xs @ ds))"
  using assms
proof (induction ds arbitrary: a xs)
  case Nil
  then show ?case by (simp add: array_holds_def)
next
  case (Cons d ds)
  obtain a1 where a1: "buxton_array_add (Some a) (Some d) = Inr (length xs < 65535, Some a1)"
    "array_holds a1 (if length xs < 65535 then xs @ [d] else xs)" using array_add_ok[OF Cons.prems] by blast
  have up: "[0..<length (d # ds)] = 0 # map Suc [0..<length ds]" by (simp add: upt_conv_Cons map_Suc_upt del: upt_Suc)
  show ?case
  proof (cases "length xs < 65535")
    case True
    then show ?thesis using Cons.IH[of a1 "xs @ [d]"] a1 unfolding up by auto
  next
    case False
    then have "take 65535 (xs @ ds) = take 65535 xs" "take 65535 (xs @ d # ds) = take 65535 xs" by simp_all
    then show ?thesis using Cons.IH[of a1 xs] a1 False unfolding up by auto
  qed
qed

text \<open>An array takes 65535 items: those are stored in order, in slots that the reallocation made room for,
  and \<open>buxton_array_get\<close> finds each of them; every further add is refused and changes nothing, although the
  length has only 16 bits. An index behind the end gives NULL.\<close>

theorem array_keeps_items:
  "\<exists>a. array_adds ds buxton_array_new = Inr (map (\<lambda>i. i < 65535) [0..<length ds], a) \<and>
    unat (array_len a) = min 65535 (length ds) \<and>
    (\<forall>i. buxton_array_get (Some a) i = Inr (if unat i < min 65535 (length ds) then Some (ds ! unat i) else None))"
proof -
  have "array_holds (buxton_array_new :: 'a BuxtonArray) []" by (simp add: array_holds_def buxton_array_new_def)
  from array_adds_ok[OF this, of ds] obtain a where
    a: "array_adds ds buxton_array_new = Inr (map (\<lambda>i. i < 65535) [0..<length ds], a)" "array_holds a (take 65535 ds)" by auto
  let ?xs = "take 65535 ds"
  have len: "unat (array_len a) = length ?xs" using a(2) by (simp add: array_holds_def unat16_of_nat)
  have "buxton_array_get (Some a) i = Inr (if unat i < min 65535 (length ds) then Some (ds ! unat i) else None)" for i
  proof (cases "unat i < length ?xs")
    case True
    then obtain b where b: "array_block a = Some b" "length ?xs \<le> length b" "take (length ?xs) b = map Some ?xs"
      using a(2) by (auto simp: array_holds_def split: option.splits)
    have "b ! unat i = take (length ?xs) b ! unat i" using True by simp
    also have "\<dots> = Some (ds ! unat i)" unfolding b(3) using True by simp
    finally have "b ! unat i = Some (ds ! unat i)" .
    moreover have "\<not> array_len a \<le> i" unfolding word_le_nat_alt using True len by linarith
    moreover have "\<not> length b \<le> unat i" using True b(2) by linarith
    ultimately show ?thesis using True b(1) by (simp add: buxton_array_get_def)
  next
    case False
    then have "array_len a \<le> i" unfolding word_le_nat_alt using len by linarith
    then show ?thesis using False by (auto simp: buxton_array_get_def)
  qed
  then show ?thesis using a(1) len by auto
qed

end
