(* ===== verification/Simple.thy ===== *)
theory Simple
  imports Lbuxton
begin

text \<open>
  The simple client library, \<open>src/libbuxtonsimple/lbuxtonsimple.c\<close> and
  \<open>src/shared/buxtonsimple-internals.c\<close>: every function opens a connection, makes one synchronous call of
  the client library, and reports through \<open>errno\<close>. The callbacks write to a variable on the stack of
  the function; such a variable is known by a number, and a callback that is run for one of an earlier call
  writes to a dead stack frame. \<open>buxton_debug\<close> prints only in debug builds, where it is not modelled.
\<close>

abbreviation (input) "EACCES \<equiv> 13 :: int"
abbreviation (input) "EBADMSG \<equiv> 74 :: int"
abbreviation (input) "ENOTCONN \<equiv> 107 :: int"
abbreviation (input) "MAX_LG_LEN \<equiv> 256 :: nat"

section \<open>State\<close>

text \<open>\<open>None\<close> is a member that was never written.\<close>

record vstatus =
  vs_status :: "int option"
  vs_type :: BuxtonDataType
  vs_val :: "BuxtonData option"

record simple_state =
  ss_lib :: library_state
  ss_client :: bool
  ss_layer :: bytes
  ss_group :: bytes
  ss_errno :: int
  ss_saved_errno :: int
  ss_frames :: nat

text \<open>Whether the daemon can be reached, the descriptor, and what a call of the client library is given.\<close>

record simple_env =
  se_connected :: bool
  se_fd :: int
  se_call :: call_env

definition client_connection :: "simple_env \<Rightarrow> simple_state \<Rightarrow> int \<times> simple_state" where
  "client_connection e s =
     (if ss_client s then (1, s)
      else (let (r, lib) = buxton_open (se_connected e) (se_fd e) (ss_lib s)
            in if r < 0 then (0, s\<lparr>ss_lib := lib\<rparr>) else (1, s\<lparr>ss_lib := lib, ss_client := True\<rparr>)))"

definition client_disconnect :: "simple_state \<Rightarrow> simple_state" where
  "client_disconnect s =
     (if ss_client s then s\<lparr>ss_lib := buxton_close True (ss_lib s), ss_client := False\<rparr> else s)"

section \<open>Callbacks\<close>

text \<open>The debug print asks for the key of the response and frees it.\<close>

definition bs_print :: "allocator \<Rightarrow> BuxtonResponse \<Rightarrow> unit res" where
  "bs_print slack response = bindE (buxton_response_key slack (Some response)) (\<lambda>k. Inr ())"

definition bs_cb :: "allocator \<Rightarrow> BuxtonResponse \<Rightarrow> vstatus \<Rightarrow> vstatus res" where
  "bs_cb slack response ret =
     bindE (buxton_response_status (Some response)) (\<lambda>st.
       if st \<noteq> 0 then Inr (ret\<lparr>vs_status := Some 0\<rparr>)
       else bindE (bs_print slack response) (\<lambda>_. Inr (ret\<lparr>vs_status := Some 1\<rparr>)))"

text \<open>The block that \<open>buxton_response_value\<close> returns.\<close>

definition value_block :: "BuxtonData \<Rightarrow> bytes" where
  "value_block d = (case d of
       DString s \<Rightarrow> (case str_value s of None \<Rightarrow> [] | Some b \<Rightarrow> b)
     | _ \<Rightarrow> scalar_bytes d)"

definition bg_cb :: "BuxtonResponse \<Rightarrow> vstatus \<Rightarrow> vstatus res" where
  "bg_cb response ret =
     bindE (buxton_response_status (Some response)) (\<lambda>st.
       if st \<noteq> 0 then Inr (ret\<lparr>vs_status := Some 0\<rparr>)
       else bindE (buxton_response_value (Some response)) (\<lambda>p. case p of
           None \<Rightarrow> Inr (ret\<lparr>vs_status := Some 0\<rparr>)
         | Some d \<Rightarrow> bindE (value_behind (vs_type ret) (value_block d)) (\<lambda>v.
             Inr (ret\<lparr>vs_val := Some v, vs_status := Some 1\<rparr>))))"

text \<open>The callbacks of groups write to an \<open>int\<close>.\<close>

definition cg_cb :: "BuxtonResponse \<Rightarrow> int option \<Rightarrow> int option res" where
  "cg_cb response status =
     bindE (buxton_response_status (Some response)) (\<lambda>st. Inr (Some (if st \<noteq> 0 then 0 else 1)))"

definition rg_cb :: "BuxtonResponse \<Rightarrow> int option \<Rightarrow> int option res" where
  "rg_cb response ret =
     bindE (buxton_response_status (Some response)) (\<lambda>st. Inr (Some (if st \<noteq> 0 then 0 else 1)))"

fun run_callbacks :: "(BuxtonResponse \<Rightarrow> 'r \<Rightarrow> 'r res) \<Rightarrow> nat \<Rightarrow> (nat \<times> nat \<times> BuxtonResponse) list \<Rightarrow> 'r \<Rightarrow> 'r res" where
  "run_callbacks cb frame [] r = Inr r"
| "run_callbacks cb frame ((_, data, response) # evs) r =
     (if data \<noteq> frame then Inl OutOfBounds else bindE (cb response r) (run_callbacks cb frame evs))"

section \<open>Calls\<close>

text \<open>
  A synchronous call with the callback \<open>cb\<close>, which writes to \<open>r\<close>: the result of the call, and \<open>r\<close> after the
  callbacks that ran during it.
\<close>

definition sync_call :: "simple_env \<Rightarrow> (call_env \<Rightarrow> client_state \<Rightarrow> (int \<times> client_state) res) \<Rightarrow>
    (BuxtonResponse \<Rightarrow> 'r \<Rightarrow> 'r res) \<Rightarrow> 'r \<Rightarrow> simple_state \<Rightarrow> (int \<times> 'r \<times> simple_state) res" where
  "sync_call e call cb r s =
     (let c = ls_client (ss_lib s)
      in bindE (call ((se_call e)\<lparr>rq_callback := Some 0, rq_data := ss_frames s, ce_sync := True\<rparr>) c) (\<lambda>(ret, c').
         bindE (run_callbacks cb (ss_frames s) (drop (length (ran c)) (ran c')) r) (\<lambda>r'.
           Inr (ret, r', s\<lparr>ss_lib := (ss_lib s)\<lparr>ls_client := c'\<rparr>, ss_frames := ss_frames s + 1\<rparr>))))"

text \<open>The end of the functions: \<open>errno\<close> from the status, and the connection is closed.\<close>

definition report_status :: "int option \<Rightarrow> simple_state \<Rightarrow> simple_state res" where
  "report_status status s = (case status of
       None \<Rightarrow> Inl Indeterminate
     | Some v \<Rightarrow> Inr (client_disconnect (s\<lparr>ss_errno := (if v = 0 then EACCES else ss_saved_errno s)\<rparr>)))"

text \<open>
  What the functions for the types have in common: the connection (\<open>None\<close> when there is none), the key, and
  the call. \<open>v\<close> is the block that the pointer to the value refers to.
\<close>

definition set_value_call :: "simple_env \<Rightarrow> BuxtonDataType \<Rightarrow> bytes option \<Rightarrow> bytes option \<Rightarrow> simple_state \<Rightarrow>
    ((int \<times> vstatus) option \<times> simple_state) res" where
  "set_value_call e type key v s =
     (let (ok, s) = client_connection e s
      in if ok = 0 then Inr (None, s\<lparr>ss_errno := ENOTCONN\<rparr>)
         else
          let (k, lib) = buxton_key_create (Some (ss_group s)) key (Some (ss_layer s)) type (ss_lib s);
              ret = \<lparr>vs_status = None, vs_type = type, vs_val = None\<rparr>;
              s = s\<lparr>ss_lib := lib, ss_saved_errno := ss_errno s\<rparr>
          in bindE (sync_call e (\<lambda>ce. buxton_set_value ce (find_key k lib) v) (bs_cb (rq_slack (se_call e))) ret s)
               (\<lambda>(r, ret, s). Inr (Some (r, ret), s)))"

definition simple_set :: "simple_env \<Rightarrow> BuxtonDataType \<Rightarrow> bytes option \<Rightarrow> bytes option \<Rightarrow> simple_state \<Rightarrow> simple_state res" where
  "simple_set e type key v s =
     bindE (set_value_call e type key v s) (\<lambda>(c, s). case c of
         None \<Rightarrow> Inr s
       | Some (r, ret) \<Rightarrow> report_status (vs_status ret) s)"

text \<open>The result of a get is \<open>None\<close> when the member that is returned was never written.\<close>

definition simple_get :: "simple_env \<Rightarrow> BuxtonDataType \<Rightarrow> BuxtonData \<Rightarrow> bytes option \<Rightarrow> simple_state \<Rightarrow>
    (BuxtonData option \<times> simple_state) res" where
  "simple_get e type none key s =
     (let (ok, s) = client_connection e s
      in if ok = 0 then Inr (Some none, s\<lparr>ss_errno := ENOTCONN\<rparr>)
         else
          let (k, lib) = buxton_key_create (Some (ss_group s)) key (Some (ss_layer s)) type (ss_lib s);
              ret = \<lparr>vs_status = None, vs_type = type, vs_val = None\<rparr>;
              s = s\<lparr>ss_lib := lib, ss_saved_errno := ss_errno s\<rparr>
          in bindE (sync_call e (\<lambda>ce. buxton_get_value ce (find_key k lib)) bg_cb ret s)
               (\<lambda>(r, ret, s). bindE (report_status (vs_status ret) s) (\<lambda>s. Inr (vs_val ret, s))))"

section \<open>The functions of the library\<close>

text \<open>\<open>sbuxton_set_int32\<close> returns at once when the call fails.\<close>

definition sbuxton_set_int32 :: "simple_env \<Rightarrow> bytes option \<Rightarrow> 32 word \<Rightarrow> simple_state \<Rightarrow> simple_state res" where
  "sbuxton_set_int32 e key v s =
     bindE (set_value_call e BUXTON_TYPE_INT32 key (Some (w32_bytes v)) s) (\<lambda>(c, s). case c of
         None \<Rightarrow> Inr s
       | Some (r, ret) \<Rightarrow> if r \<noteq> 0 then Inr s else report_status (vs_status ret) s)"

definition sbuxton_set_string :: "simple_env \<Rightarrow> bytes option \<Rightarrow> bytes option \<Rightarrow> simple_state \<Rightarrow> simple_state res" where
  "sbuxton_set_string e key v s = simple_set e BUXTON_TYPE_STRING key (map_option zstr v) s"

definition sbuxton_set_uint32 :: "simple_env \<Rightarrow> bytes option \<Rightarrow> 32 word \<Rightarrow> simple_state \<Rightarrow> simple_state res" where
  "sbuxton_set_uint32 e key v s = simple_set e BUXTON_TYPE_UINT32 key (Some (w32_bytes v)) s"

definition sbuxton_set_int64 :: "simple_env \<Rightarrow> bytes option \<Rightarrow> 64 word \<Rightarrow> simple_state \<Rightarrow> simple_state res" where
  "sbuxton_set_int64 e key v s = simple_set e BUXTON_TYPE_INT64 key (Some (w64_bytes v)) s"

definition sbuxton_set_uint64 :: "simple_env \<Rightarrow> bytes option \<Rightarrow> 64 word \<Rightarrow> simple_state \<Rightarrow> simple_state res" where
  "sbuxton_set_uint64 e key v s = simple_set e BUXTON_TYPE_UINT64 key (Some (w64_bytes v)) s"

definition sbuxton_set_float :: "simple_env \<Rightarrow> bytes option \<Rightarrow> 32 word \<Rightarrow> simple_state \<Rightarrow> simple_state res" where
  "sbuxton_set_float e key v s = simple_set e BUXTON_TYPE_FLOAT key (Some (w32_bytes v)) s"

definition sbuxton_set_double :: "simple_env \<Rightarrow> bytes option \<Rightarrow> 64 word \<Rightarrow> simple_state \<Rightarrow> simple_state res" where
  "sbuxton_set_double e key v s = simple_set e BUXTON_TYPE_DOUBLE key (Some (w64_bytes v)) s"

definition sbuxton_set_bool :: "simple_env \<Rightarrow> bytes option \<Rightarrow> byte \<Rightarrow> simple_state \<Rightarrow> simple_state res" where
  "sbuxton_set_bool e key v s = simple_set e BUXTON_TYPE_BOOLEAN key (Some [v]) s"

text \<open>The second argument of \<open>simple_get\<close> is what is returned without a connection; floating point as bits.\<close>

definition sbuxton_get_int32 :: "simple_env \<Rightarrow> bytes option \<Rightarrow> simple_state \<Rightarrow> (BuxtonData option \<times> simple_state) res" where
  "sbuxton_get_int32 e key s = simple_get e BUXTON_TYPE_INT32 (DInt32 (- 1)) key s"

definition sbuxton_get_string :: "simple_env \<Rightarrow> bytes option \<Rightarrow> simple_state \<Rightarrow> (BuxtonData option \<times> simple_state) res" where
  "sbuxton_get_string e key s = simple_get e BUXTON_TYPE_STRING (DString null_string) key s"

definition sbuxton_get_uint32 :: "simple_env \<Rightarrow> bytes option \<Rightarrow> simple_state \<Rightarrow> (BuxtonData option \<times> simple_state) res" where
  "sbuxton_get_uint32 e key s = simple_get e BUXTON_TYPE_UINT32 (DUInt32 0) key s"

definition sbuxton_get_int64 :: "simple_env \<Rightarrow> bytes option \<Rightarrow> simple_state \<Rightarrow> (BuxtonData option \<times> simple_state) res" where
  "sbuxton_get_int64 e key s = simple_get e BUXTON_TYPE_INT64 (DInt64 (- 1)) key s"

definition sbuxton_get_uint64 :: "simple_env \<Rightarrow> bytes option \<Rightarrow> simple_state \<Rightarrow> (BuxtonData option \<times> simple_state) res" where
  "sbuxton_get_uint64 e key s = simple_get e BUXTON_TYPE_UINT64 (DUInt64 0) key s"

definition sbuxton_get_float :: "simple_env \<Rightarrow> bytes option \<Rightarrow> simple_state \<Rightarrow> (BuxtonData option \<times> simple_state) res" where
  "sbuxton_get_float e key s = simple_get e BUXTON_TYPE_FLOAT (DFloat 0xBF800000) key s"

definition sbuxton_get_double :: "simple_env \<Rightarrow> bytes option \<Rightarrow> simple_state \<Rightarrow> (BuxtonData option \<times> simple_state) res" where
  "sbuxton_get_double e key s = simple_get e BUXTON_TYPE_DOUBLE (DDouble 0xBFF0000000000000) key s"

definition sbuxton_get_bool :: "simple_env \<Rightarrow> bytes option \<Rightarrow> simple_state \<Rightarrow> (BuxtonData option \<times> simple_state) res" where
  "sbuxton_get_bool e key s = simple_get e BUXTON_TYPE_BOOLEAN (DBoolean NUL) key s"

text \<open>\<open>strncpy\<close> into the 256 bytes of \<open>_layer\<close> and \<open>_group\<close>.\<close>

definition copied_name :: "bytes option \<Rightarrow> bytes res" where
  "copied_name s = (case s of None \<Rightarrow> Inl NullDeref | Some t \<Rightarrow> Inr (take (MAX_LG_LEN - 1) t))"

definition sbuxton_set_group :: "simple_env \<Rightarrow> bytes option \<Rightarrow> bytes option \<Rightarrow> simple_state \<Rightarrow> simple_state res" where
  "sbuxton_set_group e grp layer s =
     (let (ok, s) = client_connection e s
      in if ok = 0 then Inr (s\<lparr>ss_errno := ENOTCONN\<rparr>)
         else
          let s = s\<lparr>ss_saved_errno := ss_errno s\<rparr>
          in bindE (copied_name layer) (\<lambda>l. bindE (copied_name grp) (\<lambda>g.
               let s = s\<lparr>ss_layer := l, ss_group := g\<rparr>;
                   (k, lib) = buxton_key_create (Some g) None (Some l) BUXTON_TYPE_STRING (ss_lib s);
                   s = s\<lparr>ss_lib := lib\<rparr>
               in bindE (sync_call e (\<lambda>ce. buxton_create_group ce (find_key k lib)) cg_cb (Some 0) s) (\<lambda>(r, status, s).
                    Inr (client_disconnect (s\<lparr>ss_errno := (if r \<noteq> 0 \<or> status = Some 0 then EBADMSG else ss_saved_errno s)\<rparr>))))))"

definition buxton_group_create :: "bytes option \<Rightarrow> bytes option \<Rightarrow> library_state \<Rightarrow> nat option \<times> library_state" where
  "buxton_group_create name layer lib = buxton_key_create name None layer BUXTON_TYPE_STRING lib"

definition sbuxton_remove_group :: "simple_env \<Rightarrow> bytes option \<Rightarrow> bytes option \<Rightarrow> simple_state \<Rightarrow> simple_state res" where
  "sbuxton_remove_group e group_name layer s =
     (let (ok, s) = client_connection e s
      in if ok = 0 then Inr (s\<lparr>ss_errno := ENOTCONN\<rparr>)
         else
          let s = s\<lparr>ss_saved_errno := ss_errno s\<rparr>;
              (k, lib) = buxton_group_create group_name layer (ss_lib s);
              s = s\<lparr>ss_lib := lib\<rparr>
          in bindE (sync_call e (\<lambda>ce. buxton_remove_group ce (find_key k lib)) rg_cb None s) (\<lambda>(r, status, s).
               report_status status s))"

end
