(* ===== verification/Simple_Props.thy ===== *)
theory Simple_Props
  imports Simple Client_Props
begin

text \<open>
  What the simple client library does with the replies of the daemon, and without them.
\<close>

section \<open>A synchronous call that is answered\<close>

text \<open>The key that is kept with a call can be copied again, as the debug print does.\<close>

lemma copy_member_again: "copy_member slack s = Inr c \<Longrightarrow> \<exists>c'. copy_member slack' c = Inr c'"
  using buxton_string_copy_bytes[of slack s c] buxton_string_copy_ok[of c slack']
  by (auto simp: copy_member_def null_string_def split: option.splits)

lemma key_copy_again: "buxton_key_copy slack k = Inr k' \<Longrightarrow> \<exists>k''. buxton_key_copy slack' k' = Inr k''"
  using copy_member_again[of slack "key_group k"] copy_member_again[of slack "key_name k"] copy_member_again[of slack "key_layer k"]
  by (auto simp: buxton_key_copy_def res_simps) (metis (no_types))

text \<open>The surroundings in which the daemon answers a call by \<open>reply\<close>.\<close>

definition daemon_answers :: "call_env \<Rightarrow> bytes \<Rightarrow> bool" where
  "daemon_answers ce reply \<longleftrightarrow> rq_writes ce = (\<lambda>_. True) \<and> 0 < fst (ce_polled ce) \<and>
     ce_now ce \<le> rq_now ce + TIMEOUT \<and> length reply \<le> BUXTON_MESSAGE_MAX_LENGTH \<and>
     (\<exists>bs. ce_sock ce = map Bytes bs \<and> [] \<notin> set bs \<and> concat bs = reply)"

definition answering :: "simple_env \<Rightarrow> bytes \<Rightarrow> bool" where
  "answering e reply \<longleftrightarrow> se_connected e \<and> 0 \<le> se_fd e \<and> daemon_answers (se_call e) reply"

text \<open>A reply to a call without a callback.\<close>

lemma unheard_reply:
  assumes "table_get (callbacks st) i = Some nv" "nv_cb nv = None" "nv_type nv \<noteq> CONTROL_NOTIFY" "nv_type nv \<noteq> CONTROL_UNNOTIFY"
  shows "handle_callback_response CONTROL_STATUS i ps st = Inr (st\<lparr>callbacks := table_remove (callbacks st) i\<rparr>)"
  using assms by (simp add: handle_callback_response_def run_callback_def Let_def)

lemma answered_call:
  assumes "daemon_answers ce0 reply" "sendable C" "callbacks c = Some []"
    "call_type C \<noteq> CONTROL_NOTIFY" "call_type C \<noteq> CONTROL_UNNOTIFY" "call_key C = Some k"
    "serialize_reply (cs_msgid c) (DInt32 w # xs) = Inr reply" "list_all wire_ok xs" "length xs < 4096"
    and ce_def: "ce = ce0\<lparr>rq_callback := cb, rq_data := frame, ce_sync := True\<rparr>"
  obtains c' r msg ps k' where "finish_call ce (send_call (request_env.truncate ce) C c) = Inr (0, c')"
    "ran c' = ran c @ (case cb of None \<Rightarrow> [] | Some f \<Rightarrow> [(f, frame, r)])" "r_type r = call_type C" "r_data r = DInt32 w # xs" "r_key r = Some k'"
    "buxton_key_copy (rq_slack ce0) k = Inr k'"
    "written c' = written c @ [msg]" "buxton_deserialize_message msg (length msg) = Inr (Some (call_type C, cs_msgid c, ps))"
    "parse_list (call_type C) ps = meant C"
proof -
  let ?rq = "request_env.truncate ce"
  have rq: "rq_callback ?rq = cb" "rq_data ?rq = frame" "rq_now ?rq = rq_now ce0" "rq_slack ?rq = rq_slack ce0"
    "rq_writes ?rq = rq_writes ce0"
    by (simp_all add: ce_def request_env.truncate_def)
  have ce: "ce_sync ce" "ce_junk ce = ce_junk ce0" "ce_now ce = ce_now ce0" "ce_polled ce = ce_polled ce0"
    "ce_sock ce = ce_sock ce0" by (simp_all add: ce_def)
  have free: "callbacks (reap_callbacks (rq_now ?rq) c) = Some []" "hm_get ([] :: callback_table) (cs_msgid c) = None"
    using assms(3) by (simp_all add: reap_callbacks_def)
  obtain msg where m: "buxton_serialize_message (control_code (call_type C)) (cs_msgid c) (call_params C) = Inr (Some msg)"
    by (rule call_encoded[OF assms(2)])
  obtain nv where "send_call ?rq C c = Inr (rq_writes ?rq (written c @ [msg]),
      (reap_callbacks (rq_now ?rq) c)\<lparr>cs_msgid := cs_msgid c + 1, callbacks := Some ([] @ [(cs_msgid c, nv)]), written := written c @ [msg]\<rparr>)"
    by (rule call_sends[OF assms(2) free m])
  then obtain c1 where c1: "send_call ?rq C c = Inr (True, c1)" using assms(1) rq(5) by (auto simp: daemon_answers_def)
  obtain msg nv ps where s: "written c1 = written c @ [msg]" "waits ?rq C nv" "table_get (callbacks c1) (cs_msgid c) = Some nv"
    "ran c1 = ran c" "buxton_deserialize_message msg (length msg) = Inr (Some (call_type C, cs_msgid c, ps))"
    "parse_list (call_type C) ps = meant C"
    by (rule call_sent[OF assms(2) free c1]) blast
  obtain bs where bs: "ce_sock ce0 = map Bytes bs" "[] \<notin> set bs" "concat bs = reply"
    using assms(1) by (auto simp: daemon_answers_def)
  have nv: "nv_cb nv = cb" "nv_data nv = frame" "nv_type nv = call_type C" "nv_time nv = rq_now ce0"
    using s(2) rq by (simp_all add: waits_def)
  obtain k' where k': "nv_key nv = Some k'" "buxton_key_copy (rq_slack ce0) k = Inr k'"
    using s(2) rq(4) assms(6) by (auto simp: waits_def)
  have g: "table_get (callbacks (reap_callbacks (ce_now ce) c1)) (cs_msgid c) = Some nv"
    using reaped_get[OF s(3)] assms(1) nv(4) ce(3) by (simp add: daemon_answers_def)
  let ?r = "\<lparr>r_type = call_type C, r_data = DInt32 w # xs, r_key = Some k'\<rparr>"
  define c' where "c' = (reap_callbacks (ce_now ce) c1)\<lparr>callbacks := table_remove (callbacks (reap_callbacks (ce_now ce) c1)) (cs_msgid c),
      ran := ran c1 @ (case cb of None \<Rightarrow> [] | Some f \<Rightarrow> [(f, frame, ?r)])\<rparr>"
  have "handle_callback_response CONTROL_STATUS (cs_msgid c) (DInt32 w # xs) (reap_callbacks (ce_now ce) c1) = Inr c'"
    using plain_reply[OF g, of _ "DInt32 w # xs"] unheard_reply[OF g, of "DInt32 w # xs"] nv k'(1) assms(4,5,9)
    by (cases cb) (simp_all add: c'_def)
  then have "buxton_wire_handle_response (ce_junk ce) (ce_now ce) (map Bytes bs) c1 = Inr (1, c')"
    using reply_handled[OF assms(7-9) _ bs(2,3)] assms(1) by (simp add: daemon_answers_def)
  then have "finish_call ce (send_call ?rq C c) = Inr (0, c')"
    using assms(1) c1 ce bs(1) by (auto simp: finish_call_def buxton_wire_get_response_def daemon_answers_def split: prod.splits)
  then show ?thesis
    using that[of c' ?r k' msg ps] s k' by (simp add: c'_def)
qed

section \<open>Setting and getting\<close>

text \<open>The functions by the type of their value.\<close>

fun sbuxton_set :: "simple_env \<Rightarrow> bytes option \<Rightarrow> BuxtonData \<Rightarrow> simple_state \<Rightarrow> simple_state res" where
  "sbuxton_set e key (DInt32 v) s = sbuxton_set_int32 e key v s"
| "sbuxton_set e key (DUInt32 v) s = sbuxton_set_uint32 e key v s"
| "sbuxton_set e key (DInt64 v) s = sbuxton_set_int64 e key v s"
| "sbuxton_set e key (DUInt64 v) s = sbuxton_set_uint64 e key v s"
| "sbuxton_set e key (DFloat v) s = sbuxton_set_float e key v s"
| "sbuxton_set e key (DDouble v) s = sbuxton_set_double e key v s"
| "sbuxton_set e key (DBoolean v) s = sbuxton_set_bool e key v s"
| "sbuxton_set e key (DString v) s = sbuxton_set_string e key (map_option butlast (str_value v)) s"
| "sbuxton_set e key DZero s = Inr s"

definition sbuxton_get :: "simple_env \<Rightarrow> bytes option \<Rightarrow> BuxtonDataType \<Rightarrow> simple_state \<Rightarrow> (BuxtonData option \<times> simple_state) res" where
  "sbuxton_get e key t s =
     (if t = BUXTON_TYPE_INT32 then sbuxton_get_int32 e key s
      else if t = BUXTON_TYPE_UINT32 then sbuxton_get_uint32 e key s
      else if t = BUXTON_TYPE_INT64 then sbuxton_get_int64 e key s
      else if t = BUXTON_TYPE_UINT64 then sbuxton_get_uint64 e key s
      else if t = BUXTON_TYPE_FLOAT then sbuxton_get_float e key s
      else if t = BUXTON_TYPE_DOUBLE then sbuxton_get_double e key s
      else if t = BUXTON_TYPE_BOOLEAN then sbuxton_get_bool e key s
      else sbuxton_get_string e key s)"

text \<open>Values that a program can pass: a string is text without a NUL.\<close>

fun plain_value :: "BuxtonData \<Rightarrow> bool" where
  "plain_value DZero = False"
| "plain_value (DString s) \<longleftrightarrow> (\<exists>t. s = buxton_string_pack t \<and> NUL \<notin> set t \<and> length t + 1 < 2 ^ 32)"
| "plain_value _ = True"

text \<open>A process between two calls: no connection is open.\<close>

definition between_calls :: "simple_state \<Rightarrow> bool" where
  "between_calls s \<longleftrightarrow> \<not> ss_client s \<and> callbacks (ls_client (ss_lib s)) = None \<and> notify_callbacks (ls_client (ss_lib s)) = None \<and>
     keys_ok (ss_lib s) \<and> length (ss_group s) < MAX_LG_LEN \<and> length (ss_layer s) < MAX_LG_LEN"

definition simple_key :: "simple_state \<Rightarrow> bytes \<Rightarrow> BuxtonDataType \<Rightarrow> BuxtonKey" where
  "simple_key s name t = \<lparr>key_group = buxton_string_pack (ss_group s), key_name = buxton_string_pack name,
     key_layer = buxton_string_pack (ss_layer s), key_type = t\<rparr>"

lemma value_block_back:
  assumes "plain_value d"
  shows "value_behind (data_type d) (value_block d) = Inr d" "wire_ok d"
proof -
  have z: "value_behind BUXTON_TYPE_STRING (zstr t) = Inr (DString (buxton_string_pack t))" if "NUL \<notin> set t" for t
    using cstr_zstr'[OF that] by (simp add: value_behind_def buxton_string_pack_def)
  show "value_behind (data_type d) (value_block d) = Inr d"
  proof (cases d)
    case (DString s)
    then show ?thesis using assms z by (auto simp: value_block_def buxton_string_pack_def)
  qed (use assms in \<open>simp_all add: value_block_def value_behind_def read_scalar_def rd_def\<close>)
  show "wire_ok d" using assms pack_wire by (cases d) auto
qed

lemma simple_key_wire: "between_calls s \<Longrightarrow> length name + 1 < 2 ^ 32 \<Longrightarrow> wire_key (simple_key s name t)"
  by (simp add: wire_key_def simple_key_def between_calls_def pack_wire)

text \<open>The connection is made and the key is created.\<close>

lemma opened_call:
  assumes "between_calls s" "se_connected e" "0 \<le> se_fd e" "plain_value d"
  defines "t \<equiv> data_type d"
  obtains s1 i lib where "client_connection e s = (1, s1)"
    "buxton_key_create (Some (ss_group s1)) (Some name) (Some (ss_layer s1)) t (ss_lib s1) = (Some i, lib)"
    "find_key (Some i) lib = Some (simple_key s name t)" "ls_client lib = (ls_client (ss_lib s))\<lparr>callbacks := Some [], notify_callbacks := Some []\<rparr>"
    "s1 = s\<lparr>ss_lib := ss_lib s1, ss_client := True\<rparr>"
proof -
  define c1 where "c1 = (ls_client (ss_lib s))\<lparr>callbacks := Some [], notify_callbacks := Some []\<rparr>"
  define s1 where "s1 = s\<lparr>ss_lib := (ss_lib s)\<lparr>ls_client := c1\<rparr>, ss_client := True\<rparr>"
  have o: "client_connection e s = (1, s1)"
    using assms(1-3) by (simp add: client_connection_def between_calls_def buxton_open_def setup_callbacks_def s1_def c1_def)
  have ty: "\<not> (t \<le> BUXTON_TYPE_MIN \<or> BUXTON_TYPE_MAX \<le> t)"
    using assms(4) by (cases d) (simp_all add: t_def word_le_nat_alt)
  obtain i lib where k: "buxton_key_create (Some (ss_group s1)) (Some name) (Some (ss_layer s1)) t (ss_lib s1) = (Some i, lib)"
    using ty by (auto simp: buxton_key_create_def Let_def)
  have "keys_ok (ss_lib s1)" using assms(1) by (simp add: s1_def between_calls_def keys_ok_def)
  from keys_ok_fresh[OF this] have "find_key (Some i) lib = Some \<lparr>key_group = packed (Some (ss_group s1)),
      key_name = packed (Some name), key_layer = packed (Some (ss_layer s1)), key_type = t\<rparr>"
    using created_key(1,4)[OF k] by simp
  then have "find_key (Some i) lib = Some (simple_key s name t)" by (simp add: simple_key_def packed_def s1_def)
  then show ?thesis using that[OF o k] created_key(3)[OF k] by (simp add: s1_def c1_def)
qed
text \<open>The callbacks on a reply.\<close>

lemma set_callback:
  assumes "r_type r = CONTROL_SET" "r_data r = DInt32 w # xs" "r_key r = Some k'" "buxton_key_copy slack k = Inr k'"
  shows "bs_cb slack r ret = Inr (ret\<lparr>vs_status := Some (if w = 0 then 1 else 0)\<rparr>)"
proof -
  obtain k'' where "buxton_key_copy slack k' = Inr k''" using key_copy_again[OF assms(4)] by blast
  moreover have "sint w = 0 \<longleftrightarrow> w = 0" using sint_0 signed_word_eqI[of w 0] by auto
  ultimately show ?thesis
    using assms(1-3) by (simp add: bs_cb_def bs_print_def buxton_response_status_def buxton_response_key_def item_def union_bytes_def)
qed

lemma get_callback:
  assumes "r_type r = CONTROL_GET" "r_data r = DInt32 w # (if w = 0 then [d] else [])" "plain_value d" "vs_type ret = data_type d"
  shows "bg_cb r ret = Inr (if w = 0 then ret\<lparr>vs_val := Some d, vs_status := Some 1\<rparr> else ret\<lparr>vs_status := Some 0\<rparr>)"
proof -
  have st: "buxton_response_status (Some r) = Inr (sint w)"
    using assms(1,2) by (simp add: buxton_response_status_def item_def union_bytes_def)
  show ?thesis
  proof (cases "w = 0")
    case True
    have "buxton_response_value (Some r) = Inr (Some d)"
    proof (cases d)
      case (DString s)
      then obtain t where "s = buxton_string_pack t" "NUL \<notin> set t" using assms(3) by auto
      then show ?thesis using assms(1,2) True DString cstr_zstr'[of t]
        by (simp add: buxton_response_value_def value_item_def item_def buxton_string_pack_def)
    qed (use assms(1-3) True in \<open>simp_all add: buxton_response_value_def value_item_def item_def\<close>)
    then show ?thesis using True st value_block_back(1)[OF assms(3)] assms(4) by (simp add: bg_cb_def)
  next
    case False
    moreover have "sint w = 0 \<longleftrightarrow> w = 0" using sint_0 signed_word_eqI[of w 0] by auto
    ultimately show ?thesis using st by (simp add: bg_cb_def)
  qed
qed

text \<open>The call of a set function up to its report.\<close>

lemma set_value_answered:
  assumes "between_calls s" "answering e reply" "plain_value d" "length name + 1 < 2 ^ 32"
    "serialize_reply (cs_msgid (ls_client (ss_lib s))) (DInt32 w # xs) = Inr reply" "list_all wire_ok xs" "length xs < 4096"
  obtains ret s1 msg ps where "set_value_call e (data_type d) (Some name) (Some (value_block d)) s = Inr (Some (0, ret), s1)"
    "vs_status ret = Some (if w = 0 then 1 else 0)" "ss_saved_errno s1 = ss_errno s" "ss_client s1"
    "ss_group s1 = ss_group s" "ss_layer s1 = ss_layer s"
    "written (ls_client (ss_lib s1)) = written (ls_client (ss_lib s)) @ [msg]"
    "buxton_deserialize_message msg (length msg) = Inr (Some (CONTROL_SET, cs_msgid (ls_client (ss_lib s)), ps))"
    "parse_list CONTROL_SET ps = Some (simple_key s name (data_type d), Some d)"
proof -
  let ?t = "data_type d" and ?k = "simple_key s name (data_type d)" and ?C = "SetValue (simple_key s name (data_type d)) (value_block d)"
  obtain s0 i lib where o: "client_connection e s = (1, s0)"
    "buxton_key_create (Some (ss_group s0)) (Some name) (Some (ss_layer s0)) ?t (ss_lib s0) = (Some i, lib)"
    "find_key (Some i) lib = Some ?k" "ls_client lib = (ls_client (ss_lib s))\<lparr>callbacks := Some [], notify_callbacks := Some []\<rparr>"
    "s0 = s\<lparr>ss_lib := ss_lib s0, ss_client := True\<rparr>"
    using opened_call[OF assms(1) _ _ assms(3), of e name] assms(2) by (auto simp: answering_def daemon_answers_def)
  have tk: "key_type ?k = ?t" "str_value (key_group ?k) \<noteq> None" "str_value (key_name ?k) \<noteq> None" "str_value (key_layer ?k) \<noteq> None"
    by (simp_all add: simple_key_def buxton_string_pack_def)
  have ty: "\<not> type_out_of_range ?t" "?t \<noteq> BUXTON_TYPE_UNSET"
    using assms(3) by (cases d; simp add: type_out_of_range_def word_le_nat_alt)+
  have send: "sendable ?C"
    using simple_key_wire[OF assms(1,4)] value_block_back[OF assms(3)] tk(1) by simp
  define ce where "ce = (se_call e)\<lparr>rq_callback := Some 0, rq_data := ss_frames s, ce_sync := True\<rparr>"
  have ans: "daemon_answers (se_call e) reply" using assms(2) by (simp add: answering_def)
  have ser: "serialize_reply (cs_msgid (ls_client lib)) (DInt32 w # xs) = Inr reply" "callbacks (ls_client lib) = Some []"
    "written (ls_client lib) = written (ls_client (ss_lib s))" "cs_msgid (ls_client lib) = cs_msgid (ls_client (ss_lib s))"
    using assms(5) o(4) by simp_all
  have t: "call_type ?C \<noteq> CONTROL_NOTIFY" "call_type ?C \<noteq> CONTROL_UNNOTIFY" "call_key ?C = Some ?k" by simp_all
  obtain c' r msg ps k' where a: "finish_call ce (send_call (request_env.truncate ce) ?C (ls_client lib)) = Inr (0, c')"
    "ran c' = ran (ls_client lib) @ [(0, ss_frames s, r)]" "r_type r = CONTROL_SET" "r_data r = DInt32 w # xs" "r_key r = Some k'"
    "buxton_key_copy (rq_slack (se_call e)) ?k = Inr k'"
    "written c' = written (ls_client lib) @ [msg]" "buxton_deserialize_message msg (length msg) = Inr (Some (CONTROL_SET, cs_msgid (ls_client lib), ps))"
    "parse_list CONTROL_SET ps = meant ?C"
    by (rule answered_call[OF ans send ser(2) t ser(1) assms(6,7) ce_def, unfolded call_type.simps option.case]) blast
  have call: "buxton_set_value ce (find_key (Some i) lib) (Some (value_block d)) (ls_client lib) = Inr (0, c')"
    using a(1) tk ty o(3) by (simp add: buxton_set_value_def)
  let ?ret = "\<lparr>vs_status = None, vs_type = ?t, vs_val = None\<rparr>"
  define s1 where "s1 = s0\<lparr>ss_lib := lib\<lparr>ls_client := c'\<rparr>, ss_saved_errno := ss_errno s0, ss_frames := ss_frames s0 + 1\<rparr>"
  have fr: "ss_frames s0 = ss_frames s" "ss_errno s0 = ss_errno s" "ss_client s0" "ss_group s0 = ss_group s" "ss_layer s0 = ss_layer s" by (subst o(5), simp)+
  have "set_value_call e ?t (Some name) (Some (value_block d)) s =
      Inr (Some (0, ?ret\<lparr>vs_status := Some (if w = 0 then 1 else 0)\<rparr>), s1)"
    unfolding set_value_call_def o(1) Let_def prod.case o(2) sync_call_def
    using call a(2) set_callback[OF a(3-6), of ?ret] fr by (simp add: ce_def s1_def)
  then show ?thesis
    using that[of "?ret\<lparr>vs_status := Some (if w = 0 then 1 else 0)\<rparr>" s1 msg ps] a(7-9) ser fr value_block_back(1)[OF assms(3)] tk(1)
    by (simp add: s1_def)
qed

lemma report_closes:
  assumes "ss_client s1" "length (ss_group s1) < MAX_LG_LEN" "length (ss_layer s1) < MAX_LG_LEN"
  shows "\<exists>s'. report_status (Some v) s1 = Inr s' \<and> ss_errno s' = (if v = 0 then EACCES else ss_saved_errno s1) \<and>
    between_calls s' \<and> written (ls_client (ss_lib s')) = written (ls_client (ss_lib s1))"
  using assms
  by (simp add: report_status_def client_disconnect_def between_calls_def buxton_close_def cleanup_callbacks_def keys_ok_def)

lemma simple_state_commutes:
  "s\<lparr>ss_saved_errno := x, ss_lib := l, ss_frames := n\<rparr> = s\<lparr>ss_lib := l, ss_saved_errno := x, ss_frames := n\<rparr>"
  by (cases s) simp

lemma set_by_type:
  assumes "plain_value d"
  shows "sbuxton_set e key d s = bindE (set_value_call e (data_type d) key (Some (value_block d)) s) (\<lambda>(c, s). case c of
      None \<Rightarrow> Inr s
    | Some (r, ret) \<Rightarrow> if data_type d = BUXTON_TYPE_INT32 \<and> r \<noteq> 0 then Inr s else report_status (vs_status ret) s)"
proof (cases d)
  case (DString v)
  then obtain t where "v = buxton_string_pack t" using assms by auto
  moreover have "(BUXTON_TYPE_STRING = BUXTON_TYPE_INT32 \<and> r \<noteq> 0) = False" for r :: int by simp
  ultimately show ?thesis unfolding DString data_type.simps
    by (simp add: sbuxton_set_string_def simple_set_def value_block_def buxton_string_pack_def zstr_def cong: option.case_cong)
qed (use assms in \<open>simp_all add: value_block_def sbuxton_set_int32_def sbuxton_set_uint32_def sbuxton_set_int64_def
    sbuxton_set_uint64_def sbuxton_set_float_def sbuxton_set_double_def sbuxton_set_bool_def simple_set_def
    cong: option.case_cong\<close>)

text \<open>C37. A set function of the simple library, called with the daemon there to answer: it sends one message, which the
  daemon reads as a set of exactly that value under the key of the current group and layer; it leaves
  \<open>errno\<close> alone when the status of the reply is 0 and sets it to EACCES otherwise, however the reply is cut into
  pieces; and it closes the connection, so that the next call can be made. This holds for all eight types.\<close>

theorem simple_set_reports:
  assumes "between_calls s" "answering e reply" "plain_value d" "length name + 1 < 2 ^ 32"
    "serialize_reply (cs_msgid (ls_client (ss_lib s))) [DInt32 w] = Inr reply"
  shows "\<exists>s' msg ps. sbuxton_set e (Some name) d s = Inr s' \<and> ss_errno s' = (if w = 0 then ss_errno s else EACCES) \<and>
    between_calls s' \<and> written (ls_client (ss_lib s')) = written (ls_client (ss_lib s)) @ [msg] \<and>
    buxton_deserialize_message msg (length msg) = Inr (Some (CONTROL_SET, cs_msgid (ls_client (ss_lib s)), ps)) \<and>
    parse_list CONTROL_SET ps = Some (simple_key s name (data_type d), Some d)"
proof -
  obtain ret s1 msg ps where a: "set_value_call e (data_type d) (Some name) (Some (value_block d)) s = Inr (Some (0, ret), s1)"
    "vs_status ret = Some (if w = 0 then 1 else 0)" "ss_saved_errno s1 = ss_errno s" "ss_client s1"
    "ss_group s1 = ss_group s" "ss_layer s1 = ss_layer s"
    "written (ls_client (ss_lib s1)) = written (ls_client (ss_lib s)) @ [msg]"
    "buxton_deserialize_message msg (length msg) = Inr (Some (CONTROL_SET, cs_msgid (ls_client (ss_lib s)), ps))"
    "parse_list CONTROL_SET ps = Some (simple_key s name (data_type d), Some d)"
    by (rule set_value_answered[OF assms(1-4), of w "[]"]) (use assms(5) in simp_all)
  have g: "length (ss_group s1) < MAX_LG_LEN" "length (ss_layer s1) < MAX_LG_LEN"
    using assms(1) a(5,6) by (simp_all add: between_calls_def)
  obtain s' where "report_status (vs_status ret) s1 = Inr s'"
    "ss_errno s' = (if w = 0 then ss_errno s else EACCES)" "between_calls s'"
    "written (ls_client (ss_lib s')) = written (ls_client (ss_lib s1))"
    using report_closes[OF a(4) g, of "if w = 0 then 1 else 0"] a(2,3) by (auto split: if_splits)
  then show ?thesis using a set_by_type[OF assms(3), of e "Some name" s] by simp
qed

lemma get_by_type:
  assumes "plain_value d"
  shows "\<exists>none. sbuxton_get e key (data_type d) s = simple_get e (data_type d) none key s"
  using assms
  by (cases d) (auto simp: sbuxton_get_def sbuxton_get_int32_def sbuxton_get_uint32_def sbuxton_get_int64_def
      sbuxton_get_uint64_def sbuxton_get_float_def sbuxton_get_double_def sbuxton_get_bool_def sbuxton_get_string_def)

text \<open>C38. A get function of the simple library, called with the daemon there to answer: it asks for the key of the current
  group and layer with the type of the function. When the status of the reply is 0 it returns the value of the
  reply, for each of the eight types, and leaves \<open>errno\<close> alone; otherwise it sets \<open>errno\<close> to EACCES, and what
  it returns was never written (\<open>None\<close>). The connection is closed.\<close>

theorem simple_get_returns:
  assumes "between_calls s" "answering e reply" "plain_value d" "length name + 1 < 2 ^ 32"
    "serialize_reply (cs_msgid (ls_client (ss_lib s))) (DInt32 w # (if w = 0 then [d] else [])) = Inr reply"
  shows "\<exists>s' msg ps. sbuxton_get e (Some name) (data_type d) s = Inr (if w = 0 then Some d else None, s') \<and>
    ss_errno s' = (if w = 0 then ss_errno s else EACCES) \<and> between_calls s' \<and>
    written (ls_client (ss_lib s')) = written (ls_client (ss_lib s)) @ [msg] \<and>
    buxton_deserialize_message msg (length msg) = Inr (Some (CONTROL_GET, cs_msgid (ls_client (ss_lib s)), ps)) \<and>
    parse_list CONTROL_GET ps = Some (simple_key s name (data_type d), None)"
proof -
  let ?t = "data_type d" and ?k = "simple_key s name (data_type d)" and ?C = "GetValue (simple_key s name (data_type d))"
  obtain s0 i lib where o: "client_connection e s = (1, s0)"
    "buxton_key_create (Some (ss_group s0)) (Some name) (Some (ss_layer s0)) ?t (ss_lib s0) = (Some i, lib)"
    "find_key (Some i) lib = Some ?k" "ls_client lib = (ls_client (ss_lib s))\<lparr>callbacks := Some [], notify_callbacks := Some []\<rparr>"
    "s0 = s\<lparr>ss_lib := ss_lib s0, ss_client := True\<rparr>"
    using opened_call[OF assms(1) _ _ assms(3), of e name] assms(2) by (auto simp: answering_def daemon_answers_def)
  have tk: "key_type ?k = ?t" "str_value (key_group ?k) \<noteq> None" "str_value (key_name ?k) \<noteq> None"
    by (simp_all add: simple_key_def buxton_string_pack_def)
  have ty: "\<not> type_out_of_range ?t"
    using assms(3) by (cases d; simp add: type_out_of_range_def word_le_nat_alt)
  have send: "sendable ?C" using simple_key_wire[OF assms(1,4)] by simp
  define ce where "ce = (se_call e)\<lparr>rq_callback := Some 0, rq_data := ss_frames s, ce_sync := True\<rparr>"
  let ?xs = "if w = 0 then [d] else []"
  have ans: "daemon_answers (se_call e) reply" using assms(2) by (simp add: answering_def)
  have ser: "serialize_reply (cs_msgid (ls_client lib)) (DInt32 w # ?xs) = Inr reply" "callbacks (ls_client lib) = Some []"
    "written (ls_client lib) = written (ls_client (ss_lib s))" "cs_msgid (ls_client lib) = cs_msgid (ls_client (ss_lib s))"
    using assms(5) o(4) by simp_all
  have xs: "list_all wire_ok ?xs" "length ?xs < 4096" using value_block_back(2)[OF assms(3)] by simp_all
  have t: "call_type ?C \<noteq> CONTROL_NOTIFY" "call_type ?C \<noteq> CONTROL_UNNOTIFY" "call_key ?C = Some ?k" by simp_all
  obtain c' r msg ps where a: "finish_call ce (send_call (request_env.truncate ce) ?C (ls_client lib)) = Inr (0, c')"
    "ran c' = ran (ls_client lib) @ [(0, ss_frames s, r)]" "r_type r = CONTROL_GET" "r_data r = DInt32 w # ?xs"
    "written c' = written (ls_client lib) @ [msg]" "buxton_deserialize_message msg (length msg) = Inr (Some (CONTROL_GET, cs_msgid (ls_client lib), ps))"
    "parse_list CONTROL_GET ps = meant ?C"
    by (rule answered_call[OF ans send ser(2) t ser(1) xs ce_def, unfolded call_type.simps option.case]) blast
  have call: "buxton_get_value ce (find_key (Some i) lib) (ls_client lib) = Inr (0, c')"
    using a(1) tk ty o(3) by (simp add: buxton_get_value_def)
  let ?ret = "\<lparr>vs_status = None, vs_type = ?t, vs_val = None\<rparr>"
  let ?ret' = "if w = 0 then ?ret\<lparr>vs_val := Some d, vs_status := Some 1\<rparr> else ?ret\<lparr>vs_status := Some 0\<rparr>"
  define s1 where "s1 = s0\<lparr>ss_lib := lib\<lparr>ls_client := c'\<rparr>, ss_saved_errno := ss_errno s0, ss_frames := ss_frames s0 + 1\<rparr>"
  have fr: "ss_frames s0 = ss_frames s" "ss_errno s0 = ss_errno s" "ss_client s0" "ss_group s0 = ss_group s" "ss_layer s0 = ss_layer s"
    by (subst o(5), simp)+
  have run: "simple_get e ?t none (Some name) s =
      bindE (report_status (vs_status ?ret') s1) (\<lambda>s. Inr (vs_val ?ret', s))" for none
    unfolding simple_get_def o(1) Let_def prod.case o(2) sync_call_def
    using call a(2) get_callback[OF a(3,4) assms(3), of ?ret] fr
    by (simp add: ce_def s1_def simple_state_commutes)
  have "ss_client s1" "length (ss_group s1) < MAX_LG_LEN" "length (ss_layer s1) < MAX_LG_LEN"
    using assms(1) fr by (simp_all add: between_calls_def s1_def)
  from report_closes[OF this, of "if w = 0 then 1 else 0"] obtain s' where
    s': "report_status (vs_status ?ret') s1 = Inr s'" "ss_errno s' = (if w = 0 then ss_errno s else EACCES)" "between_calls s'"
    "written (ls_client (ss_lib s')) = written (ls_client (ss_lib s1))"
    using fr by (auto simp: s1_def split: if_splits)
  obtain none where "sbuxton_get e (Some name) ?t s = simple_get e ?t none (Some name) s"
    using get_by_type[OF assms(3)] by blast
  then have "sbuxton_get e (Some name) ?t s = Inr (if w = 0 then Some d else None, s')" using run[of none] s'(1) by simp
  then show ?thesis using s' a(5-7) ser by (simp add: s1_def)
qed


section \<open>A call that is not answered\<close>

text \<open>When the daemon does not answer in time, or cannot be written to, the call fails and no callback runs.\<close>

lemma unanswered_call:
  assumes "sendable C" "callbacks c = Some []" "fst (ce_polled ce) \<le> 0" "ce_sync ce" "0 \<le> snd (ce_polled ce)"
  shows "\<exists>c'. finish_call ce (send_call (request_env.truncate ce) C c) = Inr (- 1, c') \<and> ran c' = ran c"
proof -
  let ?rq = "request_env.truncate ce"
  have free: "callbacks (reap_callbacks (rq_now ?rq) c) = Some []" "hm_get ([] :: callback_table) (cs_msgid c) = None"
    using assms(2) by (simp_all add: reap_callbacks_def)
  obtain msg where m: "buxton_serialize_message (control_code (call_type C)) (cs_msgid c) (call_params C) = Inr (Some msg)"
    by (rule call_encoded[OF assms(1)])
  obtain nv where s: "send_call ?rq C c = Inr (rq_writes ?rq (written c @ [msg]),
      (reap_callbacks (rq_now ?rq) c)\<lparr>cs_msgid := cs_msgid c + 1, callbacks := Some ([] @ [(cs_msgid c, nv)]), written := written c @ [msg]\<rparr>)"
    by (rule call_sends[OF assms(1) free m])
  have "ran (reap_callbacks t c) = ran c" for t by (simp add: reap_callbacks_def split: option.splits)
  then show ?thesis unfolding s using assms(3-5)
    by (cases "ce_polled ce") (simp add: finish_call_def buxton_wire_get_response_def ETIME_def)
qed

text \<open>A process that is between two calls, and the daemon that is there but silent.\<close>

definition silent :: "simple_env \<Rightarrow> bool" where
  "silent e \<longleftrightarrow> se_connected e \<and> 0 \<le> se_fd e \<and> fst (ce_polled (se_call e)) \<le> 0 \<and> 0 \<le> snd (ce_polled (se_call e))"

lemma set_value_unanswered:
  assumes "between_calls s" "silent e" "plain_value d" "length name + 1 < 2 ^ 32"
  obtains s1 where "set_value_call e (data_type d) (Some name) (Some (value_block d)) s =
      Inr (Some (- 1, \<lparr>vs_status = None, vs_type = data_type d, vs_val = None\<rparr>), s1)" "ss_errno s1 = ss_errno s" "ss_client s1"
proof -
  let ?t = "data_type d" and ?k = "simple_key s name (data_type d)" and ?C = "SetValue (simple_key s name (data_type d)) (value_block d)"
  obtain s0 i lib where o: "client_connection e s = (1, s0)"
    "buxton_key_create (Some (ss_group s0)) (Some name) (Some (ss_layer s0)) ?t (ss_lib s0) = (Some i, lib)"
    "find_key (Some i) lib = Some ?k" "ls_client lib = (ls_client (ss_lib s))\<lparr>callbacks := Some [], notify_callbacks := Some []\<rparr>"
    "s0 = s\<lparr>ss_lib := ss_lib s0, ss_client := True\<rparr>"
    using opened_call[OF assms(1) _ _ assms(3), of e name] assms(2) by (auto simp: silent_def)
  have tk: "key_type ?k = ?t" "str_value (key_group ?k) \<noteq> None" "str_value (key_name ?k) \<noteq> None" "str_value (key_layer ?k) \<noteq> None"
    by (simp_all add: simple_key_def buxton_string_pack_def)
  have ty: "\<not> type_out_of_range ?t" "?t \<noteq> BUXTON_TYPE_UNSET"
    using assms(3) by (cases d; simp add: type_out_of_range_def word_le_nat_alt)+
  have send: "sendable ?C"
    using simple_key_wire[OF assms(1,4)] value_block_back[OF assms(3)] tk(1) by simp
  define ce where "ce = (se_call e)\<lparr>rq_callback := Some 0, rq_data := ss_frames s, ce_sync := True\<rparr>"
  have "fst (ce_polled ce) \<le> 0" "ce_sync ce" "0 \<le> snd (ce_polled ce)" "callbacks (ls_client lib) = Some []"
    using assms(2) o(4) by (simp_all add: silent_def ce_def)
  then obtain c' where a: "finish_call ce (send_call (request_env.truncate ce) ?C (ls_client lib)) = Inr (- 1, c')" "ran c' = ran (ls_client lib)"
    using unanswered_call[OF send, of "ls_client lib" ce] by blast
  have call: "buxton_set_value ce (find_key (Some i) lib) (Some (value_block d)) (ls_client lib) = Inr (- 1, c')"
    using a(1) tk ty o(3) by (simp add: buxton_set_value_def)
  have fr: "ss_frames s0 = ss_frames s" "ss_errno s0 = ss_errno s" "ss_client s0" by (subst o(5), simp)+
  show ?thesis
    by (rule that[of "s0\<lparr>ss_lib := lib\<lparr>ls_client := c'\<rparr>, ss_saved_errno := ss_errno s0, ss_frames := ss_frames s0 + 1\<rparr>"])
      (use call a(2) fr in \<open>simp_all add: set_value_call_def o(1,2) sync_call_def ce_def\<close>)
qed


lemma get_unanswered:
  assumes "between_calls s" "silent e" "plain_value d" "length name + 1 < 2 ^ 32"
  shows "simple_get e (data_type d) none (Some name) s = Inl Indeterminate"
proof -
  let ?t = "data_type d" and ?C = "GetValue (simple_key s name (data_type d))"
  obtain s0 i lib where o: "client_connection e s = (1, s0)"
    "buxton_key_create (Some (ss_group s0)) (Some name) (Some (ss_layer s0)) ?t (ss_lib s0) = (Some i, lib)"
    "find_key (Some i) lib = Some (simple_key s name ?t)" "ls_client lib = (ls_client (ss_lib s))\<lparr>callbacks := Some [], notify_callbacks := Some []\<rparr>"
    "s0 = s\<lparr>ss_lib := ss_lib s0, ss_client := True\<rparr>"
    using opened_call[OF assms(1) _ _ assms(3), of e name] assms(2) by (auto simp: silent_def)
  have tk: "key_type (simple_key s name ?t) = ?t" "str_value (key_group (simple_key s name ?t)) \<noteq> None"
    "str_value (key_name (simple_key s name ?t)) \<noteq> None" "\<not> type_out_of_range ?t"
    using assms(3) by (simp_all add: simple_key_def buxton_string_pack_def) (cases d; simp add: type_out_of_range_def word_le_nat_alt)
  have send: "sendable ?C" using simple_key_wire[OF assms(1,4)] by simp
  define ce where "ce = (se_call e)\<lparr>rq_callback := Some 0, rq_data := ss_frames s, ce_sync := True\<rparr>"
  have "fst (ce_polled ce) \<le> 0" "ce_sync ce" "0 \<le> snd (ce_polled ce)" "callbacks (ls_client lib) = Some []"
    using assms(2) o(4) by (simp_all add: silent_def ce_def)
  then obtain c' where a: "finish_call ce (send_call (request_env.truncate ce) ?C (ls_client lib)) = Inr (- 1, c')" "ran c' = ran (ls_client lib)"
    using unanswered_call[OF send, of "ls_client lib" ce] by blast
  have call: "buxton_get_value ce (find_key (Some i) lib) (ls_client lib) = Inr (- 1, c')"
    using a(1) tk o(3) by (simp add: buxton_get_value_def)
  have fr: "ss_frames s0 = ss_frames s" by (subst o(5), simp)
  show ?thesis unfolding simple_get_def o(1) Let_def prod.case o(2) sync_call_def
    using call a(2) fr by (simp add: ce_def report_status_def)
qed

text \<open>The calls for groups.\<close>

definition simple_group :: "bytes \<Rightarrow> bytes \<Rightarrow> BuxtonKey" where
  "simple_group g l = \<lparr>key_group = buxton_string_pack g, key_name = null_string, key_layer = buxton_string_pack l,
     key_type = BUXTON_TYPE_STRING\<rparr>"

lemma opened_silent:
  assumes "between_calls s" "silent e"
  obtains s1 where "client_connection e s = (1, s1)" "s1 = s\<lparr>ss_lib := ss_lib s1, ss_client := True\<rparr>"
    "\<And>g l. \<exists>i lib. buxton_key_create (Some g) None (Some l) BUXTON_TYPE_STRING (ss_lib s1) = (Some i, lib) \<and>
       find_key (Some i) lib = Some (simple_group g l) \<and> callbacks (ls_client lib) = Some []"
proof -
  define c1 where "c1 = (ls_client (ss_lib s))\<lparr>callbacks := Some [], notify_callbacks := Some []\<rparr>"
  define s1 where "s1 = s\<lparr>ss_lib := (ss_lib s)\<lparr>ls_client := c1\<rparr>, ss_client := True\<rparr>"
  have o: "client_connection e s = (1, s1)"
    using assms by (simp add: client_connection_def between_calls_def silent_def buxton_open_def setup_callbacks_def s1_def c1_def)
  have "keys_ok (ss_lib s1)" using assms(1) by (simp add: s1_def between_calls_def keys_ok_def)
  note fresh = keys_ok_fresh[OF this]
  have "\<exists>i lib. buxton_key_create (Some g) None (Some l) BUXTON_TYPE_STRING (ss_lib s1) = (Some i, lib) \<and>
       find_key (Some i) lib = Some (simple_group g l) \<and> callbacks (ls_client lib) = Some []" for g l
  proof -
    have "\<not> (BUXTON_TYPE_STRING \<le> BUXTON_TYPE_MIN \<or> BUXTON_TYPE_MAX \<le> BUXTON_TYPE_STRING)"
      by (simp add: word_le_nat_alt)
    then obtain i lib where k: "buxton_key_create (Some g) None (Some l) BUXTON_TYPE_STRING (ss_lib s1) = (Some i, lib)"
      by (auto simp: buxton_key_create_def Let_def)
    have "find_key (Some i) lib = Some (simple_group g l)"
      using fresh created_key(1,4)[OF k] by (simp add: simple_group_def packed_def)
    then show ?thesis using k created_key(3)[OF k] by (simp add: s1_def c1_def)
  qed
  then show ?thesis using that[OF o] by (simp add: s1_def)
qed

lemma group_calls_unanswered:
  assumes "find_key (Some i) lib = Some (simple_group g l)" "callbacks (ls_client lib) = Some []" "silent e"
    "length g + 1 < 2 ^ 32" "length l + 1 < 2 ^ 32"
    "call = buxton_create_group \<or> call = buxton_remove_group"
  shows "\<exists>c'. call ((se_call e)\<lparr>rq_callback := Some 0, rq_data := frame, ce_sync := True\<rparr>) (find_key (Some i) lib) (ls_client lib) =
    Inr (- 1, c') \<and> ran c' = ran (ls_client lib)"
proof -
  let ?ce = "(se_call e)\<lparr>rq_callback := Some 0, rq_data := frame, ce_sync := True\<rparr>"
  let ?k = "simple_group g l"
  have ce: "fst (ce_polled ?ce) \<le> 0" "ce_sync ?ce" "0 \<le> snd (ce_polled ?ce)" using assms(3) by (simp_all add: silent_def)
  have "wire_key ?k" using assms(4,5) 
    by (simp add: wire_key_def simple_group_def pack_wire) (simp add: wire_string_def str_exact_def null_string_def)
  then have w: "sendable (CreateGroup ?k)" "sendable (RemoveGroup ?k)" by simp_all
  have k: "str_value (key_group ?k) \<noteq> None" "str_value (key_name ?k) = None" "str_value (key_layer ?k) \<noteq> None"
    by (simp_all add: simple_group_def buxton_string_pack_def null_string_def)
  show ?thesis
    using assms(6) unanswered_call[OF w(1) assms(2) ce] unanswered_call[OF w(2) assms(2) ce] k
    by (auto simp: buxton_create_group_def buxton_remove_group_def assms(1))
qed

lemma remove_group_unanswered:
  assumes "between_calls s" "silent e" "length g + 1 < 2 ^ 32" "length l + 1 < 2 ^ 32"
  shows "sbuxton_remove_group e (Some g) (Some l) s = Inl Indeterminate"
proof -
  obtain s1 where s1: "client_connection e s = (1, s1)" and k: "\<And>g l. \<exists>i lib.
       buxton_key_create (Some g) None (Some l) BUXTON_TYPE_STRING (ss_lib s1) = (Some i, lib) \<and>
       find_key (Some i) lib = Some (simple_group g l) \<and> callbacks (ls_client lib) = Some []"
    by (rule opened_silent[OF assms(1,2)]) blast
  obtain i lib where il: "buxton_key_create (Some g) None (Some l) BUXTON_TYPE_STRING (ss_lib s1) = (Some i, lib)"
    "find_key (Some i) lib = Some (simple_group g l)" "callbacks (ls_client lib) = Some []" using k by blast
  obtain c' where "buxton_remove_group ((se_call e)\<lparr>rq_callback := Some 0, rq_data := ss_frames s1, ce_sync := True\<rparr>)
      (find_key (Some i) lib) (ls_client lib) = Inr (- 1, c')" "ran c' = ran (ls_client lib)"
    using group_calls_unanswered[OF il(2,3) assms(2-4), of buxton_remove_group] by blast
  then show ?thesis
    by (simp add: sbuxton_remove_group_def s1 buxton_group_create_def il(1) sync_call_def report_status_def)
qed

lemma set_group_unanswered:
  assumes "between_calls s" "silent e"
  shows "\<exists>s'. sbuxton_set_group e (Some g) (Some l) s = Inr s' \<and> ss_errno s' = EBADMSG \<and> \<not> ss_client s' \<and>
    ss_group s' = take 255 g \<and> ss_layer s' = take 255 l"
proof -
  obtain s1 where s1: "client_connection e s = (1, s1)" "s1 = s\<lparr>ss_lib := ss_lib s1, ss_client := True\<rparr>" and k: "\<And>g l. \<exists>i lib.
       buxton_key_create (Some g) None (Some l) BUXTON_TYPE_STRING (ss_lib s1) = (Some i, lib) \<and>
       find_key (Some i) lib = Some (simple_group g l) \<and> callbacks (ls_client lib) = Some []"
    by (rule opened_silent[OF assms]) blast
  obtain i lib where il: "buxton_key_create (Some (take 255 g)) None (Some (take 255 l)) BUXTON_TYPE_STRING (ss_lib s1) = (Some i, lib)"
    "find_key (Some i) lib = Some (simple_group (take 255 g) (take 255 l))" "callbacks (ls_client lib) = Some []" using k by blast
  have short: "length (take 255 xs) + 1 < 2 ^ 32" for xs :: bytes by (simp add: min_def)
  obtain c' where "buxton_create_group ((se_call e)\<lparr>rq_callback := Some 0, rq_data := ss_frames s1, ce_sync := True\<rparr>)
      (find_key (Some i) lib) (ls_client lib) = Inr (- 1, c')" "ran c' = ran (ls_client lib)"
    using group_calls_unanswered[OF il(2,3) assms(2) short short, of buxton_create_group] by blast
  moreover have "ss_client s1" by (subst s1(2), simp)
  ultimately show ?thesis
    by (simp add: sbuxton_set_group_def s1(1) copied_name_def il(1) sync_call_def client_disconnect_def)
qed

text \<open>C39. When the daemon takes the call and does not answer within the time limit, the variable that holds the status
  was never written, and still decides what \<open>errno\<close> becomes, in the get functions of all eight types,
  the set functions of seven, and \<open>sbuxton_remove_group\<close>. Two functions return: \<open>sbuxton_set_int32\<close>,
  with \<open>errno\<close> as it was, so that the caller takes the value for set, and with the connection left open;
  and \<open>sbuxton_set_group\<close>, which looks at the result of its call first (and starts from a status of 0), with \<open>EBADMSG\<close> and the connection closed, but
  with the group and the layer switched (cut to 255 bytes).\<close>

theorem silent_daemon:
  assumes "between_calls s" "silent e" "plain_value d" "length name + 1 < 2 ^ 32"
    "length g + 1 < 2 ^ 32" "length l + 1 < 2 ^ 32"
  shows "(\<exists>s'. sbuxton_set e (Some name) d s = (if data_type d = BUXTON_TYPE_INT32 then Inr s' else Inl Indeterminate) \<and>
      ss_errno s' = ss_errno s \<and> ss_client s') \<and>
    sbuxton_get e (Some name) (data_type d) s = Inl Indeterminate \<and>
    sbuxton_remove_group e (Some g) (Some l) s = Inl Indeterminate \<and>
    (\<exists>s'. sbuxton_set_group e (Some g) (Some l) s = Inr s' \<and> ss_errno s' = EBADMSG \<and> \<not> ss_client s' \<and>
      ss_group s' = take 255 g \<and> ss_layer s' = take 255 l)"
proof -
  obtain s1 where s1: "set_value_call e (data_type d) (Some name) (Some (value_block d)) s =
      Inr (Some (- 1, \<lparr>vs_status = None, vs_type = data_type d, vs_val = None\<rparr>), s1)" "ss_errno s1 = ss_errno s" "ss_client s1"
    by (rule set_value_unanswered[OF assms(1-4)])
  obtain none where g: "sbuxton_get e (Some name) (data_type d) s = simple_get e (data_type d) none (Some name) s"
    using get_by_type[OF assms(3)] by blast
  have "\<exists>s'. sbuxton_set e (Some name) d s = (if data_type d = BUXTON_TYPE_INT32 then Inr s' else Inl Indeterminate) \<and>
      ss_errno s' = ss_errno s \<and> ss_client s'"
    using s1 set_by_type[OF assms(3), of e "Some name" s] by (auto simp: report_status_def)
  moreover have "sbuxton_get e (Some name) (data_type d) s = Inl Indeterminate"
    using g get_unanswered[OF assms(1-4), of none] by simp
  ultimately show ?thesis
    using remove_group_unanswered[OF assms(1,2,5,6)] set_group_unanswered[OF assms(1,2), of g l] by blast
qed

section \<open>Witnesses\<close>

definition sample_process :: simple_state where
  "sample_process = \<lparr>ss_lib = fresh_process, ss_client = False, ss_layer = ''user'', ss_group = ''g'', ss_errno = 0,
     ss_saved_errno = 0, ss_frames = 0\<rparr>"

definition sample_surroundings :: "int \<Rightarrow> bytes \<Rightarrow> simple_env" where
  "sample_surroundings polled reply = \<lparr>se_connected = True, se_fd = 3, se_call =
     \<lparr>rq_slack = (\<lambda>_. []), rq_writes = (\<lambda>_. True), rq_now = 0, rq_callback = None, rq_data = 0,
      ce_sync = True, ce_junk = (\<lambda>_. NUL), ce_polled = (polled, 0), ce_sock = map Bytes (map (\<lambda>c. [c]) reply), ce_now = 1\<rparr>\<rparr>"

lemma sample_between: "between_calls sample_process"
  by (simp add: between_calls_def sample_process_def fresh_process_def keys_ok_def)

lemma sample_ids: "cs_msgid (ls_client (ss_lib sample_process)) = 0" "ss_errno sample_process = 0"
  by (simp_all add: sample_process_def fresh_process_def)

lemma sample_answers: "length reply \<le> BUXTON_MESSAGE_MAX_LENGTH \<Longrightarrow> answering (sample_surroundings 1 reply) reply"
  unfolding answering_def daemon_answers_def
  by (auto simp: sample_surroundings_def TIMEOUT_def intro!: exI[of _ "map (\<lambda>c. [c]) reply"] arg_cong[where f = "map Bytes"])

lemma sample_string: "plain_value (DString (buxton_string_pack ''v''))"
  by (auto intro!: exI[of _ "''v''"])

theorem simple_set_reports_witness:
  "\<exists>reply s'. serialize_reply 0 [DInt32 (- 1)] = Inr reply \<and>
    sbuxton_set_string (sample_surroundings 1 reply) (Some ''k'') (Some ''v'') sample_process = Inr s' \<and> ss_errno s' = EACCES"
proof -
  obtain reply where r: "serialize_reply 0 [DInt32 (- 1)] = Inr reply"
    unfolding serialize_reply_def by (rule message_roundtrip_lemma[of "[DInt32 (- 1)]" CONTROL_STATUS 0]) auto
  have a: "answering (sample_surroundings 1 reply) reply" using reply_length(1)[OF r] by (intro sample_answers) simp
  show ?thesis
    using simple_set_reports[OF sample_between a sample_string, of "''k''" "- 1"] r sample_ids
    by (auto simp: buxton_string_pack_def zstr_def)
qed

theorem simple_get_returns_witness:
  "\<exists>reply s'. serialize_reply 0 [DInt32 0, DUInt32 7] = Inr reply \<and>
    sbuxton_get_uint32 (sample_surroundings 1 reply) (Some ''k'') sample_process = Inr (Some (DUInt32 7), s') \<and> ss_errno s' = 0"
proof -
  obtain reply where r: "serialize_reply 0 [DInt32 0, DUInt32 7] = Inr reply"
    unfolding serialize_reply_def by (rule message_roundtrip_lemma[of "[DInt32 0, DUInt32 7]" CONTROL_STATUS 0]) auto
  have a: "answering (sample_surroundings 1 reply) reply" using reply_length(2)[OF r] by (intro sample_answers) simp
  show ?thesis
    using simple_get_returns[OF sample_between a, of "DUInt32 7" "''k''" 0] r sample_ids
    by (auto simp: sbuxton_get_def)
qed

theorem silent_daemon_witness:
  "(\<exists>s'. sbuxton_set_int32 (sample_surroundings 0 []) (Some ''k'') 7 sample_process = Inr s' \<and> ss_errno s' = 0 \<and> ss_client s') \<and>
    sbuxton_get_int32 (sample_surroundings 0 []) (Some ''k'') sample_process = Inl Indeterminate \<and>
    (\<exists>s'. sbuxton_set_group (sample_surroundings 0 []) (Some ''h'') (Some ''user'') sample_process = Inr s' \<and>
       ss_errno s' = EBADMSG \<and> ss_group s' = ''h'')"
proof -
  have "silent (sample_surroundings 0 [])" by (simp add: silent_def sample_surroundings_def)
  from silent_daemon[OF sample_between this, of "DInt32 7" "''k''" "''h''" "''user''"] show ?thesis
    using sample_ids by (auto simp: sbuxton_get_def)
qed

end
