(* ===== verification/Cli.thy ===== *)
theory Cli
  imports Simple Direct Configurator "HOL-Library.List_Lexorder" "HOL-Library.Char_ord"
begin

text \<open>
  The command line tool \<open>buxtonctl\<close>, \<open>src/cli/client.c\<close> and \<open>src/cli/main.c\<close>: its commands, run on the
  databases directly or through the daemon, what they print, and the exit code. A process makes one call of the
  client library, so that the callbacks that run are those of its own command. \<open>%s\<close> of a NULL pointer is a fault.
\<close>

section \<open>State\<close>

record 's cli_state =
  cl_control :: "'s BuxtonControl"
  cl_direct :: bool
  cl_lib :: library_state
  cl_out :: bytes

text \<open>
  What surrounds a command: what the direct operations and the calls of the client library are given. Floating point
  values are bit patterns; \<open>strtof\<close>, \<open>strtod\<close> (with whether they set \<open>errno\<close>) and \<open>%f\<close> are parameters.
\<close>

record 's cli_env =
  ci_env :: "'s env"
  ci_call :: call_env
  ci_strtof :: "bytes \<Rightarrow> 32 word \<times> bool"
  ci_strtod :: "bytes \<Rightarrow> 64 word \<times> bool"
  ci_float_text :: "32 word \<Rightarrow> bytes"
  ci_double_text :: "64 word \<Rightarrow> bytes"

definition out :: "bytes \<Rightarrow> 's cli_state \<Rightarrow> 's cli_state" where
  "out t s = s\<lparr>cl_out := cl_out s @ t @ [CHR 0x0A]\<rparr>"

definition quote :: "bytes \<Rightarrow> bytes" where
  "quote t = CHR 0x27 # t @ [CHR 0x27]"

text \<open>\<open>%s\<close> of \<open>nv(s)\<close>, where \<open>s\<close> is a block or NULL.\<close>

definition nv :: "bytes option \<Rightarrow> bytes res" where
  "nv s = (case s of None \<Rightarrow> Inr ''(null)'' | Some b \<Rightarrow> cstr b)"

text \<open>The members of a key as the messages show them.\<close>

definition nv_group :: "BuxtonKey \<Rightarrow> bytes res" where
  "nv_group key = bindE (get_group key) nv"

definition nv_name :: "BuxtonKey \<Rightarrow> bytes res" where
  "nv_name key = bindE (get_name key) nv"

definition nv_layer :: "BuxtonKey \<Rightarrow> bytes res" where
  "nv_layer key = bindE (get_layer key) nv"

text \<open>An argument of \<open>%s\<close>, \<open>strlen\<close> or \<open>strtol\<close>.\<close>

definition arg :: "bytes option \<Rightarrow> bytes res" where
  "arg s = (case s of None \<Rightarrow> Inl NullDeref | Some t \<Rightarrow> Inr t)"

text \<open>The key behind the pointer that \<open>buxton_key_create\<close> returned.\<close>

definition key_at :: "nat \<Rightarrow> 's cli_state \<Rightarrow> BuxtonKey res" where
  "key_at i s = (case find_key (Some i) (cl_lib s) of None \<Rightarrow> Inl NullDeref | Some k \<Rightarrow> Inr k)"

definition create_key :: "bytes option \<Rightarrow> bytes option \<Rightarrow> bytes option \<Rightarrow> BuxtonDataType \<Rightarrow> 's cli_state \<Rightarrow>
    nat option \<times> 's cli_state" where
  "create_key grp name layer type s =
     (let (k, lib) = buxton_key_create grp name layer type (cl_lib s) in (k, s\<lparr>cl_lib := lib\<rparr>))"

definition free_key :: "nat \<Rightarrow> 's cli_state \<Rightarrow> 's cli_state res" where
  "free_key i s = bindE (buxton_key_free (Some i) (cl_lib s)) (\<lambda>lib. Inr (s\<lparr>cl_lib := lib\<rparr>))"

section \<open>Calls\<close>

text \<open>A synchronous call, with or without a callback, and the responses that the callback was run on.\<close>

definition cli_call :: "'s cli_env \<Rightarrow> bool \<Rightarrow> (call_env \<Rightarrow> client_state \<Rightarrow> (int \<times> client_state) res) \<Rightarrow>
    's cli_state \<Rightarrow> (int \<times> BuxtonResponse list \<times> 's cli_state) res" where
  "cli_call e callback call s =
     (let c = ls_client (cl_lib s)
      in bindE (call ((ci_call e)\<lparr>rq_callback := (if callback then Some 0 else None), rq_data := 0, ce_sync := True\<rparr>) c)
           (\<lambda>(ret, c'). Inr (ret, map (snd \<circ> snd) (drop (length (ran c)) (ran c')),
              s\<lparr>cl_lib := (cl_lib s)\<lparr>ls_client := c'\<rparr>\<rparr>)))"

fun run_each :: "(BuxtonResponse \<Rightarrow> 'r \<Rightarrow> 'r res) \<Rightarrow> BuxtonResponse list \<Rightarrow> 'r \<Rightarrow> 'r res" where
  "run_each cb [] r = Inr r"
| "run_each cb (response # rs) r = bindE (cb response r) (run_each cb rs)"

text \<open>A call without a callback succeeds when it returns 0; a direct operation when it returns true.\<close>

definition call_ok :: "'s cli_env \<Rightarrow> (call_env \<Rightarrow> client_state \<Rightarrow> (int \<times> client_state) res) \<Rightarrow> 's cli_state \<Rightarrow>
    (bool \<times> 's cli_state) res" where
  "call_ok e call s = bindE (cli_call e False call s) (\<lambda>(r, _, s). Inr (r = 0, s))"

definition direct_ok :: "('s BuxtonControl \<Rightarrow> (bool \<times> 's BuxtonControl) res) \<Rightarrow> 's cli_state \<Rightarrow> (bool \<times> 's cli_state) res" where
  "direct_ok f s = bindE (f (cl_control s)) (\<lambda>(r, ctl). Inr (r, s\<lparr>cl_control := ctl\<rparr>))"

section \<open>Commands\<close>

definition cli_check_availability :: "'s cli_state \<Rightarrow> (bool \<times> 's cli_state) res" where
  "cli_check_availability s = Inr (True, out ''Buxton is available'' s)"

definition cli_create_db :: "'s cli_env \<Rightarrow> bytes option \<Rightarrow> 's cli_state \<Rightarrow> (bool \<times> 's cli_state) res" where
  "cli_create_db e one s =
     (let s = (if cl_direct s then s else out ''Unable to create db in non direct mode'' s)
      in bindE (arg one) (\<lambda>one. direct_ok (buxton_direct_init_db (ci_env e) (buxton_string_pack one)) s))"

definition cli_set_label :: "'s cli_env \<Rightarrow> BuxtonDataType \<Rightarrow> bytes option \<Rightarrow> bytes option \<Rightarrow> bytes option \<Rightarrow>
    bytes option \<Rightarrow> 's cli_state \<Rightarrow> (bool \<times> 's cli_state) res" where
  "cli_set_label e type one two three four s =
     (let (key, s) = create_key two (if four \<noteq> None then three else None) one type s
      in case key of
           None \<Rightarrow> Inr (False, s)
         | Some i \<Rightarrow>
             bindE (arg (if four \<noteq> None then four else three)) (\<lambda>label.
             bindE (key_at i s) (\<lambda>key.
             bindE (if cl_direct s then direct_ok (buxton_direct_set_label (ci_env e) key (buxton_string_pack label)) s
                    else call_ok e (\<lambda>ce. buxton_set_label ce (Some key) (Some label)) s) (\<lambda>(ret, s).
             bindE (if ret then Inr s
                    else bindE (nv_name key) (\<lambda>name. bindE (arg two) (\<lambda>two. bindE (arg one) (\<lambda>one.
                      Inr (out (''Failed to update key '' @ quote (two @ '':'' @ name) @ '' label in layer '' @ quote one) s)))))
               (\<lambda>s. bindE (free_key i s) (\<lambda>s. Inr (ret, s)))))))"

text \<open>Creating and removing a group differ in the operation and the word in the message.\<close>

definition group_command :: "bytes \<Rightarrow> (BuxtonKey \<Rightarrow> 's BuxtonControl \<Rightarrow> (bool \<times> 's BuxtonControl) res) \<Rightarrow>
    (BuxtonKey \<Rightarrow> call_env \<Rightarrow> client_state \<Rightarrow> (int \<times> client_state) res) \<Rightarrow> 's cli_env \<Rightarrow> BuxtonDataType \<Rightarrow>
    bytes option \<Rightarrow> bytes option \<Rightarrow> 's cli_state \<Rightarrow> (bool \<times> 's cli_state) res" where
  "group_command word direct call e type one two s =
     (let (key, s) = create_key two None one type s
      in case key of
           None \<Rightarrow> Inr (False, s)
         | Some i \<Rightarrow>
             bindE (key_at i s) (\<lambda>key.
             bindE (if cl_direct s then direct_ok (direct key) s else call_ok e (call key) s) (\<lambda>(ret, s).
             bindE (if ret then Inr s
                    else bindE (nv_group key) (\<lambda>grp. bindE (arg one) (\<lambda>one.
                      Inr (out (''Failed to '' @ word @ '' group '' @ quote grp @ '' in layer '' @ quote one) s))))
               (\<lambda>s. bindE (free_key i s) (\<lambda>s. Inr (ret, s))))))"

definition cli_create_group :: "'s cli_env \<Rightarrow> BuxtonDataType \<Rightarrow> bytes option \<Rightarrow> bytes option \<Rightarrow> 's cli_state \<Rightarrow>
    (bool \<times> 's cli_state) res" where
  "cli_create_group e = group_command ''create'' (\<lambda>key. buxton_direct_create_group (ci_env e) key None)
     (\<lambda>key ce. buxton_create_group ce (Some key)) e"

definition cli_remove_group :: "'s cli_env \<Rightarrow> BuxtonDataType \<Rightarrow> bytes option \<Rightarrow> bytes option \<Rightarrow> 's cli_state \<Rightarrow>
    (bool \<times> 's cli_state) res" where
  "cli_remove_group e = group_command ''remove'' (\<lambda>key. buxton_direct_remove_group (ci_env e) key None)
     (\<lambda>key ce. buxton_remove_group ce (Some key)) e"

definition get_label_callback :: "BuxtonResponse \<Rightarrow> bytes option \<Rightarrow> bytes option res" where
  "get_label_callback response r =
     bindE (buxton_response_status (Some response)) (\<lambda>st.
       if st \<noteq> 0 then Inr None
       else if buxton_response_value_type (Some response) \<noteq> Some BUXTON_TYPE_STRING then Inr None
       else bindE (buxton_response_value (Some response)) (\<lambda>p. case p of
           Some (DString s) \<Rightarrow> Inr (str_value s)
         | _ \<Rightarrow> Inr None))"

definition cli_get_label :: "'s cli_env \<Rightarrow> BuxtonDataType \<Rightarrow> bytes option \<Rightarrow> bytes option \<Rightarrow> bytes option \<Rightarrow>
    's cli_state \<Rightarrow> (bool \<times> 's cli_state) res" where
  "cli_get_label e type layer grp name s =
     (case (layer, grp) of
        (Some ly, Some g) \<Rightarrow>
          (let (key, s) = create_key grp name layer type s
           in case key of
                None \<Rightarrow> Inr (False, s)
              | Some i \<Rightarrow>
                  bindE (key_at i s) (\<lambda>key.
                  bindE (if cl_direct s
                         then bindE (buxton_direct_get_value_for_layer (ci_env e) key None (cl_control s)) (\<lambda>(r, got, ctl).
                                Inr (r, str_value (out_label got), s\<lparr>cl_control := ctl\<rparr>))
                         else bindE (cli_call e True (\<lambda>ce. buxton_get_label ce (Some key)) s) (\<lambda>(r, rs, s).
                              bindE (run_each get_label_callback rs None) (\<lambda>label. Inr (r, label, s)))) (\<lambda>(ret, label, s).
                  bindE (arg name) (\<lambda>name.
                    if ret \<noteq> 0
                    then Inr (False, out (''Requested key not found in layer '' @ quote ly @ '': '' @ g @ '':'' @ name) s)
                    else bindE (cstrp label) (\<lambda>label.
                      Inr (True, out (''['' @ ly @ ''] '' @ g @ '':'' @ name @ '' - '' @ label) s))))))
      | _ \<Rightarrow> Inr (False, s))"


section \<open>Numbers\<close>

text \<open>What the conversions with base 10 read: blanks, a sign, and the digits; no digits are 0.\<close>

definition dec_prefix :: "bytes \<Rightarrow> bool \<times> int" where
  "dec_prefix s =
     (let s = dropWhile isspace s;
          (neg, s) = (case s of [] \<Rightarrow> (False, [])
             | c # r \<Rightarrow> if c = CHR ''-'' then (True, r) else if c = CHR ''+'' then (False, r) else (False, c # r))
      in (neg, digits_value 10 (digits 10 s)))"

text \<open>\<open>strtol\<close> and \<open>strtoll\<close>: the value, and whether \<open>errno\<close> becomes ERANGE. Without digits \<open>errno\<close> stays 0.\<close>

definition strtol_dec :: "bytes \<Rightarrow> int \<times> bool" where
  "strtol_dec s =
     (let (neg, v) = dec_prefix s; v = (if neg then - v else v)
      in if v < - (2 ^ 63) then (- (2 ^ 63), True) else if 2 ^ 63 - 1 < v then (2 ^ 63 - 1, True) else (v, False))"

text \<open>\<open>strtoull\<close> negates what it read as an unsigned number.\<close>

definition strtoull_dec :: "bytes \<Rightarrow> 64 word \<times> bool" where
  "strtoull_dec s =
     (let (neg, v) = dec_prefix s
      in if 2 ^ 64 - 1 < v then (- 1, True) else (word_of_int (if neg then - v else v), False))"

text \<open>\<open>strcaseeq\<close>.\<close>

definition strcaseeq :: "bytes \<Rightarrow> bytes \<Rightarrow> bool" where
  "strcaseeq a b \<longleftrightarrow> map tolower a = map tolower b"

definition bool_text :: "bytes \<Rightarrow> byte option" where
  "bool_text t =
     (if list_ex (strcaseeq t) [''true'', ''on'', ''enable'', ''yes'', ''y'', ''t'', ''1''] then Some (CHR 0x01)
      else if list_ex (strcaseeq t) [''false'', ''off'', ''disable'', ''no'', ''n'', ''f'', ''0''] then Some NUL
      else None)"

definition checked :: "bytes \<Rightarrow> 'a \<times> bool \<Rightarrow> ('a \<Rightarrow> BuxtonData) \<Rightarrow> bytes + BuxtonData" where
  "checked what v f = (if snd v then Inl (''Invalid '' @ what @ '' value'') else Inr (f (fst v)))"

text \<open>The value that a set command stores, or its complaint; \<open>None\<close> for a type that is not in the switch.\<close>

definition parse_value :: "'s cli_env \<Rightarrow> BuxtonDataType \<Rightarrow> bytes \<Rightarrow> (bytes + BuxtonData) option" where
  "parse_value e type t =
     (if type = BUXTON_TYPE_STRING then Some (Inr (DString (buxton_string_pack t)))
      else if type = BUXTON_TYPE_INT32 then Some (checked ''int32_t'' (strtol_dec t) (\<lambda>v. DInt32 (word_of_int v)))
      else if type = BUXTON_TYPE_UINT32 then Some (checked ''uint32_t'' (strtol_dec t) (\<lambda>v. DUInt32 (word_of_int v)))
      else if type = BUXTON_TYPE_INT64 then Some (checked ''int64_t'' (strtol_dec t) (\<lambda>v. DInt64 (word_of_int v)))
      else if type = BUXTON_TYPE_UINT64 then Some (checked ''uint64_t'' (strtoull_dec t) DUInt64)
      else if type = BUXTON_TYPE_FLOAT then Some (checked ''float'' (ci_strtof e t) DFloat)
      else if type = BUXTON_TYPE_DOUBLE then Some (checked ''double'' (ci_strtod e t) DDouble)
      else if type = BUXTON_TYPE_BOOLEAN then
        Some (case bool_text t of None \<Rightarrow> Inl ''Invalid bool value'' | Some b \<Rightarrow> Inr (DBoolean b))
      else None)"

text \<open>The end of \<open>cli_set_value\<close>: the message for a value that was not stored.\<close>

definition report_set :: "BuxtonKey \<Rightarrow> bool \<times> 's cli_state \<Rightarrow> (bool \<times> 's cli_state) res" where
  "report_set key = (\<lambda>(ret, s).
     if ret then Inr (True, s)
     else bindE (nv_group key) (\<lambda>g. bindE (nv_name key) (\<lambda>n. bindE (nv_layer key) (\<lambda>l.
       Inr (False, out (''Failed to update key '' @ quote (g @ '':'' @ n) @ '' in layer '' @ quote l) s)))))"

definition cli_set_value :: "'s cli_env \<Rightarrow> BuxtonDataType \<Rightarrow> bytes option \<Rightarrow> bytes option \<Rightarrow> bytes option \<Rightarrow>
    bytes option \<Rightarrow> 's cli_state \<Rightarrow> (bool \<times> 's cli_state) res" where
  "cli_set_value e type one two three four s =
     (let (key, s) = create_key two three one type s
      in case key of
           None \<Rightarrow> Inr (False, s)
         | Some i \<Rightarrow>
             bindE (arg four) (\<lambda>four.
             bindE (key_at i s) (\<lambda>key.
               case parse_value e type four of
                 None \<Rightarrow> report_set key (False, s)
               | Some (Inl complaint) \<Rightarrow> Inr (False, out complaint s)
               | Some (Inr d) \<Rightarrow>
                   bindE (if cl_direct s then direct_ok (buxton_direct_set_value (ci_env e) key d None) s
                          else call_ok e (\<lambda>ce. buxton_set_value ce (Some key) (Some (value_block d))) s)
                     (report_set key))))"

text \<open>The variable that a get command fills: \<open>None\<close> is the type UNSET, and \<open>DZero\<close> the type 0.\<close>

definition get_value_callback :: "BuxtonResponse \<Rightarrow> BuxtonData option \<Rightarrow> BuxtonData option res" where
  "get_value_callback response r =
     bindE (buxton_response_status (Some response)) (\<lambda>st.
       if st \<noteq> 0 then Inr None
       else bindE (buxton_response_value (Some response)) (\<lambda>p. case p of
           None \<Rightarrow> Inr None
         | Some d \<Rightarrow> (case buxton_response_value_type (Some response) of
               None \<Rightarrow> Inr None
             | Some t \<Rightarrow> bindE (value_behind t (value_block d)) (\<lambda>v. Inr (if v = DZero then None else Some v)))))"

text \<open>The name of the type and the text of a value.\<close>

fun shown :: "'s cli_env \<Rightarrow> BuxtonData \<Rightarrow> (bytes \<times> bytes) res" where
  "shown e (DString v) = bindE (nv (str_value v)) (\<lambda>t. Inr (''string'', t))"
| "shown e (DInt32 w) = Inr (''int32'', dec_int (sint w))"
| "shown e (DUInt32 w) = Inr (''uint32'', dec_int (uint w))"
| "shown e (DInt64 w) = Inr (''int64'', dec_int (sint w))"
| "shown e (DUInt64 w) = Inr (''uint64'', dec_int (uint w))"
| "shown e (DFloat w) = Inr (''float'', ci_float_text e w)"
| "shown e (DDouble w) = Inr (''double'', ci_double_text e w)"
| "shown e (DBoolean b) = Inr (''bool'', if b = CHR 0x01 then ''true'' else ''false'')"
| "shown e DZero = Inr ([], [])"

definition print_value :: "'s cli_env \<Rightarrow> bytes \<Rightarrow> BuxtonKey \<Rightarrow> BuxtonData option \<Rightarrow> 's cli_state \<Rightarrow> (bool \<times> 's cli_state) res" where
  "print_value e prefix key get s =
     bindE (nv_group key) (\<lambda>g. bindE (nv_name key) (\<lambda>n.
       case get of
         None \<Rightarrow> Inr (False, out ''unknown type'' s)
       | Some d \<Rightarrow>
           if d = DZero then Inr (False, out (''Requested key was not found: '' @ g @ '':'' @ n) s)
           else bindE (shown e d) (\<lambda>(tname, value).
             Inr (True, out (prefix @ g @ '':'' @ n @ '' = '' @ tname @ '': '' @ value) s))))"

text \<open>A direct get: the code it returns, and the variable, which is zeroed before.\<close>

definition direct_get :: "('s BuxtonControl \<Rightarrow> (int \<times> (BuxtonData \<times> BuxtonString) option \<times> 's BuxtonControl) res) \<Rightarrow>
    's cli_state \<Rightarrow> (int \<times> BuxtonData option \<times> 's cli_state) res" where
  "direct_get f s = bindE (f (cl_control s)) (\<lambda>(r, got, ctl).
     Inr (r, Some (case got of None \<Rightarrow> DZero | Some (d, _) \<Rightarrow> d), s\<lparr>cl_control := ctl\<rparr>))"

text \<open>With three arguments the first is the layer. A direct get without a layer counts as failed when it returns 0.\<close>

definition cli_get_value :: "'s cli_env \<Rightarrow> BuxtonDataType \<Rightarrow> bytes option \<Rightarrow> bytes option \<Rightarrow> bytes option \<Rightarrow>
    's cli_state \<Rightarrow> (bool \<times> 's cli_state) res" where
  "cli_get_value e type one two three s =
     (let (key, s) = (if three \<noteq> None then create_key two three one type s else create_key one two None type s)
      in bindE (if three \<noteq> None then bindE (arg one) (\<lambda>one. Inr (''['' @ one @ ''] '')) else Inr '' '') (\<lambda>prefix.
         case key of
           None \<Rightarrow> Inr (False, s)
         | Some i \<Rightarrow>
             bindE (key_at i s) (\<lambda>key.
             bindE (if cl_direct s then
                      (if three \<noteq> None
                       then bindE (direct_get (buxton_direct_get_value_for_layer (ci_env e) key None) s) (\<lambda>(r, get, s).
                              Inr (r \<noteq> 0, get, s))
                       else bindE (direct_get (buxton_direct_get_value (ci_env e) key None) s) (\<lambda>(r, get, s).
                              Inr (r = 0, get, s)))
                    else bindE (cli_call e True (\<lambda>ce. buxton_get_value ce (Some key)) s) (\<lambda>(r, rs, s).
                         bindE (run_each get_value_callback rs (Some DZero)) (\<lambda>get. Inr (r \<noteq> 0, get, s)))) (\<lambda>(failed, get, s).
               if failed then
                 bindE (nv_group key) (\<lambda>g. bindE (nv_name key) (\<lambda>n.
                   Inr (False, out (if three \<noteq> None
                     then ''Requested key was not found in layer '' @ quote (the one) @ '': '' @ g @ '':'' @ n
                     else ''Requested key was not found: '' @ g @ '':'' @ n) s)))
               else print_value e prefix key get s))))"

definition cli_list_keys :: "'s cli_state \<Rightarrow> (bool \<times> 's cli_state) res" where
  "cli_list_keys s = Inr (False, s)"

definition unset_value_callback :: "allocator \<Rightarrow> BuxtonResponse \<Rightarrow> 's cli_state \<Rightarrow> 's cli_state res" where
  "unset_value_callback slack response s =
     bindE (buxton_response_key slack (Some response)) (\<lambda>key. case key of
       None \<Rightarrow> Inr s
     | Some k \<Rightarrow> bindE (nv_group k) (\<lambda>g. bindE (nv_name k) (\<lambda>n.
         Inr (out (''unset key '' @ g @ '':'' @ n) s))))"

definition cli_unset_value :: "'s cli_env \<Rightarrow> BuxtonDataType \<Rightarrow> bytes option \<Rightarrow> bytes option \<Rightarrow> bytes option \<Rightarrow>
    's cli_state \<Rightarrow> (bool \<times> 's cli_state) res" where
  "cli_unset_value e type one two three s =
     (let (key, s) = create_key two three one type s
      in case key of
           None \<Rightarrow> Inr (False, s)
         | Some i \<Rightarrow>
             bindE (key_at i s) (\<lambda>key.
               if cl_direct s then direct_ok (buxton_direct_unset_value (ci_env e) key None) s
               else bindE (cli_call e True (\<lambda>ce. buxton_unset_value ce (Some key)) s) (\<lambda>(r, rs, s).
                    bindE (run_each (unset_value_callback (rq_slack (ci_call e))) rs s) (\<lambda>s. Inr (r = 0, s)))))"


section \<open>Listing names\<close>

text \<open>\<open>None\<close> is a status that was never written. A name is NULL when the item of the reply is not a string.\<close>

record nameslist =
  nl_status :: "int option"
  nl_names :: "bytes option list"

fun name_items :: "BuxtonResponse \<Rightarrow> nat list \<Rightarrow> bytes option list res" where
  "name_items response [] = Inr []"
| "name_items response (index # is) =
     bindE (buxton_response_list_names_item (Some response) (word_of_nat index)) (\<lambda>n.
     bindE (name_items response is) (\<lambda>ns. Inr (n # ns)))"

definition list_names_callback :: "BuxtonResponse \<Rightarrow> nameslist \<Rightarrow> nameslist res" where
  "list_names_callback response list =
     bindE (buxton_response_status (Some response)) (\<lambda>st.
       if st \<noteq> 0 then Inr (list\<lparr>nl_status := Some st\<rparr>)
       else bindE (name_items response [0..<buxton_response_list_names_count (Some response)]) (\<lambda>names.
         Inr (list\<lparr>nl_status := Some 0, nl_names := names\<rparr>)))"

text \<open>\<open>qsort\<close> with \<open>cmpstringp\<close>: \<open>strcmp\<close> of two names, and so by their bytes.\<close>

definition sort_names :: "bytes option list \<Rightarrow> bytes option list res" where
  "sort_names names =
     (if 1 < length names \<and> None \<in> set names then Inl NullDeref
      else if length names \<le> 1 then Inr names
      else Inr (map Some (sort (map the names))))"

text \<open>The strings of the array of a direct list; every item has to be a string.\<close>

fun item_names :: "BuxtonData list \<Rightarrow> bytes option list res" where
  "item_names [] = Inr []"
| "item_names (d # ds) =
     bindE (case d of
         DString v \<Rightarrow> (case str_value v of None \<Rightarrow> Inr None | Some b \<Rightarrow> bindE (cstr b) (\<lambda>t. Inr (Some t)))
       | _ \<Rightarrow> Inr None) (\<lambda>n.
     bindE (item_names ds) (\<lambda>ns. Inr (n # ns)))"

text \<open>\<open>None\<close> for the result false.\<close>

definition get_list_names :: "'s cli_env \<Rightarrow> bytes option \<Rightarrow> bytes option \<Rightarrow> bytes option \<Rightarrow> 's cli_state \<Rightarrow>
    (bytes option list option \<times> 's cli_state) res" where
  "get_list_names e layer grp prefix s =
     (if \<not> cl_direct s then
        bindE (cli_call e True (\<lambda>ce. buxton_list_names ce layer grp prefix) s) (\<lambda>(r, rs, s).
        bindE (run_each list_names_callback rs \<lparr>nl_status = None, nl_names = []\<rparr>) (\<lambda>list.
          if r \<noteq> 0 then Inr (None, s)
          else (case nl_status list of
              None \<Rightarrow> Inl Indeterminate
            | Some st \<Rightarrow> if st \<noteq> 0 then Inr (None, s)
                else bindE (sort_names (nl_names list)) (\<lambda>names. Inr (Some names, s)))))
      else
        bindE (arg layer) (\<lambda>ly.
        bindE (buxton_direct_list_names (ci_env e) (buxton_string_pack ly) (Some (packed grp)) (Some (packed prefix)) (cl_control s))
          (\<lambda>(array, ctl). let s = s\<lparr>cl_control := ctl\<rparr> in case array of
            None \<Rightarrow> Inr (None, s)
          | Some items \<Rightarrow>
              if list_ex (\<lambda>d. data_type d \<noteq> BUXTON_TYPE_STRING) items then Inr (None, s)
              else bindE (item_names items) (\<lambda>names. bindE (sort_names names) (\<lambda>names. Inr (Some names, s))))))"

fun print_names :: "bytes \<Rightarrow> bytes option list \<Rightarrow> 's cli_state \<Rightarrow> 's cli_state res" where
  "print_names what [] s = Inr s"
| "print_names what (n # ns) s = bindE (arg n) (\<lambda>n. print_names what ns (out (''found '' @ what @ '' '' @ n) s))"

definition cli_list_names :: "'s cli_env \<Rightarrow> BuxtonDataType \<Rightarrow> bytes option \<Rightarrow> bytes option \<Rightarrow> bytes option \<Rightarrow>
    's cli_state \<Rightarrow> (bool \<times> 's cli_state) res" where
  "cli_list_names e type layer grp prefix s =
     (let (what, grp, prefix) = (if type = 0 then (''group'', None, grp) else (''key'', grp, prefix))
      in bindE (get_list_names e layer grp prefix s) (\<lambda>(names, s). case names of
           None \<Rightarrow> Inr (False, s)
         | Some names \<Rightarrow> bindE (print_names what names s) (\<lambda>s. Inr (True, s))))"


section \<open>The program\<close>

datatype command_method = Check | Get | Set | GetLabel | SetLabel | CreateGroup | RemoveGroup | UnsetValue | CreateDb | ListNames

record Command =
  cmd_name :: bytes
  cmd_description :: bytes
  min_arguments :: nat
  max_arguments :: nat
  cmd_usage :: bytes
  cmd_method :: command_method
  cmd_type :: BuxtonDataType

definition get_command :: "bytes \<Rightarrow> bytes \<Rightarrow> BuxtonDataType \<Rightarrow> Command" where
  "get_command name description type = \<lparr>cmd_name = name, cmd_description = description, min_arguments = 2, max_arguments = 3,
     cmd_usage = ''[layer] group name'', cmd_method = Get, cmd_type = type\<rparr>"

definition set_command :: "bytes \<Rightarrow> bytes \<Rightarrow> BuxtonDataType \<Rightarrow> Command" where
  "set_command name description type = \<lparr>cmd_name = name, cmd_description = description, min_arguments = 4, max_arguments = 4,
     cmd_usage = ''layer group name value'', cmd_method = Set, cmd_type = type\<rparr>"

text \<open>The table of commands, in the order in which they are put into it.\<close>

definition commands :: "Command list" where
  "commands =
    [\<lparr>cmd_name = ''check'', cmd_description = ''Check the availability of Buxton'', min_arguments = 0, max_arguments = 0,
      cmd_usage = [], cmd_method = Check, cmd_type = BUXTON_TYPE_UNSET\<rparr>,
     get_command ''get'' ''Get a value by key'' BUXTON_TYPE_UNSET,
     get_command ''get-string'' ''Get a string value by key'' BUXTON_TYPE_STRING,
     set_command ''set-string'' ''Set a key with a string value'' BUXTON_TYPE_STRING,
     get_command ''get-int32'' ''Get an int32_t value by key'' BUXTON_TYPE_INT32,
     set_command ''set-int32'' ''Set a key with an int32_t value'' BUXTON_TYPE_INT32,
     get_command ''get-uint32'' ''Get an uint32_t value by key'' BUXTON_TYPE_UINT32,
     set_command ''set-uint32'' ''Set a key with an uint32_t value'' BUXTON_TYPE_UINT32,
     get_command ''get-int64'' ''Get an int64_t value by key'' BUXTON_TYPE_INT64,
     set_command ''set-int64'' ''Set a key with an int64_t value'' BUXTON_TYPE_INT64,
     get_command ''get-uint64'' ''Get an uint64_t value by key'' BUXTON_TYPE_UINT64,
     set_command ''set-uint64'' ''Set a key with an uint64_t value'' BUXTON_TYPE_UINT64,
     get_command ''get-float'' ''Get a float point value by key'' BUXTON_TYPE_FLOAT,
     set_command ''set-float'' ''Set a key with a floating point value'' BUXTON_TYPE_FLOAT,
     get_command ''get-double'' ''Get a double precision value by key'' BUXTON_TYPE_DOUBLE,
     set_command ''set-double'' ''Set a key with a double precision value'' BUXTON_TYPE_DOUBLE,
     get_command ''get-bool'' ''Get a boolean value by key'' BUXTON_TYPE_BOOLEAN,
     set_command ''set-bool'' ''Set a key with a boolean value'' BUXTON_TYPE_BOOLEAN,
     \<lparr>cmd_name = ''get-label'', cmd_description = ''Get a value'' @ [CHR 0x27] @ ''s label'', min_arguments = 2, max_arguments = 3,
      cmd_usage = ''layer group [name]'', cmd_method = GetLabel, cmd_type = BUXTON_TYPE_UNSET\<rparr>,
     \<lparr>cmd_name = ''set-label'', cmd_description = ''Set a value'' @ [CHR 0x27] @ ''s label'', min_arguments = 3, max_arguments = 4,
      cmd_usage = ''layer group [name] label'', cmd_method = SetLabel, cmd_type = BUXTON_TYPE_UNSET\<rparr>,
     \<lparr>cmd_name = ''create-group'', cmd_description = ''Create a group in a layer'', min_arguments = 2, max_arguments = 2,
      cmd_usage = ''layer group'', cmd_method = CreateGroup, cmd_type = BUXTON_TYPE_STRING\<rparr>,
     \<lparr>cmd_name = ''remove-group'', cmd_description = ''Remove a group from a layer'', min_arguments = 2, max_arguments = 2,
      cmd_usage = ''layer group'', cmd_method = RemoveGroup, cmd_type = BUXTON_TYPE_STRING\<rparr>,
     \<lparr>cmd_name = ''unset-value'', cmd_description = ''Unset a value by key'', min_arguments = 3, max_arguments = 3,
      cmd_usage = ''layer group name'', cmd_method = UnsetValue, cmd_type = BUXTON_TYPE_UNSET\<rparr>,
     \<lparr>cmd_name = ''create-db'', cmd_description = ''Create the database file for a layer'', min_arguments = 1, max_arguments = 1,
      cmd_usage = ''layer'', cmd_method = CreateDb, cmd_type = BUXTON_TYPE_STRING\<rparr>,
     \<lparr>cmd_name = ''list-groups'', cmd_description = ''List the groups for a layer'', min_arguments = 1, max_arguments = 2,
      cmd_usage = ''layer [prefix-filter]'', cmd_method = ListNames, cmd_type = 0\<rparr>,
     \<lparr>cmd_name = ''list-keys'', cmd_description = ''List the keys for a layer'', min_arguments = 2, max_arguments = 3,
      cmd_usage = ''layer group [prefix-filter]'', cmd_method = ListNames, cmd_type = 1\<rparr>]"

text \<open>\<open>hashmap_get(commands, name)\<close>.\<close>

definition find_command :: "bytes \<Rightarrow> Command option" where
  "find_command name = find (\<lambda>c. cmd_name c = name) commands"

definition run_method :: "'s cli_env \<Rightarrow> Command \<Rightarrow> (nat \<Rightarrow> bytes option) \<Rightarrow> 's cli_state \<Rightarrow> (bool \<times> 's cli_state) res" where
  "run_method e c a = (case cmd_method c of
       Check \<Rightarrow> cli_check_availability
     | Get \<Rightarrow> cli_get_value e (cmd_type c) (a 0) (a 1) (a 2)
     | Set \<Rightarrow> cli_set_value e (cmd_type c) (a 0) (a 1) (a 2) (a 3)
     | GetLabel \<Rightarrow> cli_get_label e (cmd_type c) (a 0) (a 1) (a 2)
     | SetLabel \<Rightarrow> cli_set_label e (cmd_type c) (a 0) (a 1) (a 2) (a 3)
     | CreateGroup \<Rightarrow> cli_create_group e (cmd_type c) (a 0) (a 1)
     | RemoveGroup \<Rightarrow> cli_remove_group e (cmd_type c) (a 0) (a 1)
     | UnsetValue \<Rightarrow> cli_unset_value e (cmd_type c) (a 0) (a 1) (a 2)
     | CreateDb \<Rightarrow> cli_create_db e (a 0)
     | ListNames \<Rightarrow> cli_list_names e (cmd_type c) (a 0) (a 1) (a 2))"


text \<open>
  What surrounds the program: the configuration, \<open>stat\<close> (the mode, \<open>None\<close> when it fails), \<open>connect\<close> with the
  descriptor it gives, the user, the version of the package and the state of the backend modules.
\<close>

record 's main_world =
  mw_conf :: conf_world
  mw_stat :: "bytes \<Rightarrow> 32 word option"
  mw_connect :: "bytes \<Rightarrow> int option"
  mw_euid :: "32 word"
  mw_version :: bytes
  mw_modules :: 's
  mw_env :: "'s cli_env"

definition print_version :: "bytes \<Rightarrow> 's cli_state \<Rightarrow> 's cli_state" where
  "print_version version s =
     out ''of the License, or (at your option) any later version.''
       (out ''published by the Free Software Foundation; either version 2.1''
         (out ''it under the terms of the GNU Lesser General Public License as''
           (out ''buxton is free software; you can redistribute it and/or modify''
             (out ''Copyright (C) 2013-2014 Intel Corporation''
               (out (''buxtonctl '' @ version) s)))))"

text \<open>\<open>%12s\<close>.\<close>

definition padded :: "nat \<Rightarrow> bytes \<Rightarrow> bytes" where
  "padded n t = replicate (n - length t) (CHR 0x20) @ t"

definition print_help :: "'s cli_state \<Rightarrow> 's cli_state" where
  "print_help s =
     fold (\<lambda>c. out (CHR 0x09 # padded 12 (cmd_name c) @ '' - '' @ cmd_description c)) commands
       (out [] (out ''buxtonctl: Usage'' s))"

definition print_usage :: "Command \<Rightarrow> 's cli_state \<Rightarrow> 's cli_state" where
  "print_usage c =
     out (cmd_name c @ (if min_arguments c = max_arguments c then '' takes '' else '' takes at least '') @
       dec_nat (min_arguments c) @ '' arguments - '' @ cmd_usage c)"

text \<open>The options, in the order in which \<open>getopt_long\<close> finds them, each with its argument.\<close>

record cli_options =
  op_conf :: "bytes option"
  op_direct :: bool
  op_server :: bool
  op_help :: bool
  op_version :: bool

definition read_option :: "byte \<times> bytes option \<Rightarrow> cli_options \<Rightarrow> cli_options" where
  "read_option = (\<lambda>(c, optarg) opt.
     if c = CHR ''c'' then opt\<lparr>op_conf := optarg\<rparr>
     else if c = CHR ''d'' then opt\<lparr>op_direct := True\<rparr>
     else if c = CHR ''s'' then opt\<lparr>op_server := True\<rparr>
     else if c = CHR ''v'' then opt\<lparr>op_version := True\<rparr>
     else if c = CHR ''h'' then opt\<lparr>op_help := True\<rparr>
     else opt)"

definition read_options :: "(byte \<times> bytes option) list \<Rightarrow> cli_options" where
  "read_options opts = fold read_option opts
     \<lparr>op_conf = None, op_direct = False, op_server = False, op_help = False, op_version = False\<rparr>"

definition is_directory :: "32 word \<Rightarrow> bool" where
  "is_directory mode \<longleftrightarrow> and mode 0x4000 \<noteq> 0"

definition buxton_set_conf_file :: "'s main_world \<Rightarrow> bytes \<Rightarrow> conf_state \<Rightarrow> bool \<times> conf_state" where
  "buxton_set_conf_file w path conf = (case mw_stat w path of
       None \<Rightarrow> (False, conf)
     | Some mode \<Rightarrow>
         if is_directory mode then (False, conf)
         else (True, buxton_add_cmd_line CONFIG_CONF_FILE (Some path) conf))"

text \<open>The path of the socket has to fit into the 108 bytes of \<open>sun_path\<close>.\<close>

definition try_service :: "'s main_world \<Rightarrow> bytes option \<Rightarrow> 's cli_state \<Rightarrow> conf_state \<Rightarrow>
    (bool \<times> 's cli_state \<times> conf_state) res" where
  "try_service w conf_path s conf =
     (let (s, conf) = (case conf_path of
            None \<Rightarrow> (s, conf)
          | Some p \<Rightarrow> (let (ok, conf) = buxton_set_conf_file w p conf
                       in (if ok then s else out ''Failed to set configuration file path'' s, conf)))
      in bindE (buxton_socket (mw_conf w) conf) (\<lambda>(path, conf). bindE (arg path) (\<lambda>path.
           let fd = (if 108 \<le> length path + 1 then None else mw_connect w path);
               (r, lib) = buxton_open (fd \<noteq> None) (case fd of None \<Rightarrow> - 1 | Some n \<Rightarrow> n) (cl_lib s)
           in Inr (0 \<le> r, s\<lparr>cl_lib := lib\<rparr>, conf))))"

text \<open>\<open>None\<close> for the paths that cannot be configuration files.\<close>

definition try_direct :: "'s main_world \<Rightarrow> bytes option \<Rightarrow> 's cli_state \<Rightarrow> conf_state \<Rightarrow> (bool option \<times> 's cli_state) res" where
  "try_direct w conf_path s conf =
     (let open_db = (\<lambda>conf. bindE (buxton_key_get_layers (mw_conf w) conf) (\<lambda>(confs, conf).
            bindE (buxton_direct_open confs (modules (cl_control s)) (rules (cl_control s))) (\<lambda>ctl.
              Inr (Some True, s\<lparr>cl_direct := True, cl_control := ctl\<lparr>client_uid := mw_euid w\<rparr>\<rparr>))))
      in case conf_path of
           None \<Rightarrow> open_db conf
         | Some p \<Rightarrow> (case mw_stat w p of
               None \<Rightarrow> Inr (None, out ''Invalid configuration file path'' s)
             | Some mode \<Rightarrow>
                 if is_directory mode then Inr (None, out ''Configuration file given is a directory'' s)
                 else open_db (buxton_add_cmd_line CONFIG_CONF_FILE (Some p) conf)))"

definition open_failure :: "bool \<Rightarrow> bool \<Rightarrow> bytes" where
  "open_failure direct server =
     (if direct \<and> server then ''Failed to contact the buxton service or directly open the database(s)''
      else if server then ''Failed to contact the Buxton service''
      else ''Failed to use Buxton directly'')"

text \<open>The state that a process starts with.\<close>

definition fresh_cli :: "'s main_world \<Rightarrow> 's cli_state" where
  "fresh_cli w = \<lparr>cl_control = \<lparr>client_uid = mw_euid w, config = empty_config, modules = mw_modules w,
       rules = \<lparr>have_smack = True, smackrules = None\<rparr>\<rparr>, cl_direct = False,
     cl_lib = \<lparr>ls_client = \<lparr>cs_msgid = 0, callbacks = None, notify_callbacks = None, written = [], ran = []\<rparr>,
       key_hash = None, key_count = 0\<rparr>, cl_out = []\<rparr>"

abbreviation (input) "EXIT_SUCCESS \<equiv> 0 :: int"
abbreviation (input) "EXIT_FAILURE \<equiv> 1 :: int"

text \<open>\<open>main\<close>: the options, and the words that are left; the exit code and the state at the end.\<close>

definition buxtonctl :: "'s main_world \<Rightarrow> (byte \<times> bytes option) list \<Rightarrow> bytes list \<Rightarrow> (int \<times> 's cli_state) res" where
  "buxtonctl w opts words =
     (let opt = read_options opts; s = fresh_cli w
      in if op_version opt then Inr (EXIT_FAILURE, print_version (mw_version w) s)
         else case words of
           [] \<Rightarrow> Inr (EXIT_FAILURE, print_help s)
         | name # args \<Rightarrow> (case find_command name of
             None \<Rightarrow> Inr (EXIT_FAILURE, out (''Unknown command: '' @ name) s)
           | Some c \<Rightarrow>
               if op_help opt then Inr (EXIT_FAILURE, print_usage c s)
               else if length args < min_arguments c \<or> max_arguments c < length args
               then Inr (EXIT_FAILURE, print_help (print_usage c s))
               else
                let direct = (op_direct opt \<or> \<not> op_server opt); server = (op_server opt \<or> \<not> op_direct opt)
                in bindE (if server then try_service w (op_conf opt) s initial_conf else Inr (False, s, initial_conf)) (\<lambda>(opened, s, conf).
                   bindE (if opened then Inr (Some True, s) else if direct then try_direct w (op_conf opt) s conf
                          else Inr (Some False, s)) (\<lambda>(opened, s). case opened of
                     None \<Rightarrow> Inr (EXIT_FAILURE, s)
                   | Some opened \<Rightarrow>
                       if \<not> opened then Inr (EXIT_FAILURE, out (open_failure direct server) s)
                       else bindE (run_method (mw_env w) c (\<lambda>i. if i < length args then Some (args ! i) else None) s) (\<lambda>(ret, s).
                         Inr (if ret then EXIT_SUCCESS else EXIT_FAILURE,
                              if cl_direct s then s else s\<lparr>cl_lib := buxton_close True (cl_lib s)\<rparr>))))))"

end
