(* ===== verification/Cli_Props.thy ===== *)
theory Cli_Props
  imports Cli Simple_Props Direct_Props
begin

text \<open>
  What the commands of \<open>buxtonctl\<close> do: the numbers they read and print, sets and gets on the databases, and a
  value that goes from one run of the tool through the daemon to another.
\<close>

section \<open>Numbers\<close>

lemma digit_value_dec: "d < 10 \<Longrightarrow> digit_value (dec_digit d) = d"
  by (simp add: digit_value_def of_char_dec_digit Let_def)

lemma dec_nat_digit_values: "c \<in> set (dec_nat n) \<Longrightarrow> digit_value c < 10"
  using dec_nat_digits[of c n] by (auto simp: digit_value_def Let_def)

lemma digits_dec_nat: "digits 10 (dec_nat n) = dec_nat n"
  unfolding digits_def using dec_nat_digit_values by (auto intro: takeWhile_eq_all_conv[THEN iffD2])

lemma digits_value_dec_nat: "digits_value 10 (dec_nat n) = int n"
proof (induction n rule: dec_nat.induct)
  case (1 n)
  show ?case
  proof (cases "n < 10")
    case True
    then show ?thesis by (simp add: dec_nat.simps[of n] digits_value_def digit_value_dec)
  next
    case False
    have "digits_value 10 (dec_nat n) = digits_value 10 (dec_nat (n div 10)) * 10 + int (n mod 10)"
      using False by (simp add: dec_nat.simps[of n] digits_value_def digit_value_dec)
    then show ?thesis using "1.IH"[OF False] by (simp flip: of_nat_mult of_nat_add) (metis of_nat_add of_nat_mult of_nat_numeral div_mult_mod_eq)
  qed
qed

lemma dec_nat_first: "\<exists>c r. dec_nat n = c # r \<and> 48 \<le> (of_char c :: nat) \<and> (of_char c :: nat) < 58"
proof -
  have "dec_nat n \<noteq> []" by (subst dec_nat.simps) simp
  then obtain c r where "dec_nat n = c # r" by (cases "dec_nat n") auto
  then show ?thesis using dec_nat_digits[of c n] by auto
qed

lemma dec_prefix_int: "dec_prefix (dec_int i) = (i < 0, \<bar>i\<bar>)"
proof -
  have sp: "\<not> isspace c \<and> c \<noteq> CHR ''-'' \<and> c \<noteq> CHR ''+''" if "48 \<le> (of_char c :: nat)" for c
    using that by (auto simp: isspace_def)
  obtain c r where c: "dec_nat (nat i) = c # r" "48 \<le> (of_char c :: nat)" using dec_nat_first by blast
  have m: "\<not> isspace (CHR ''-'')" by (simp add: isspace_def)
  show ?thesis
  proof (cases "i < 0")
    case True
    then show ?thesis using m
      by (simp add: dec_prefix_def dec_int_def digits_dec_nat digits_value_dec_nat)
  next
    case False
    have "digits_value 10 (digits 10 (c # r)) = i"
      using digits_dec_nat[of "nat i"] digits_value_dec_nat[of "nat i"] c(1) False by simp
    then show ?thesis using False sp[OF c(2)] c(1) by (simp add: dec_prefix_def dec_int_def)
  qed
qed

lemma strtol_dec_int:
  "strtol_dec (dec_int i) = (if i < - (2 ^ 63) then (- (2 ^ 63), True) else if 2 ^ 63 - 1 < i then (2 ^ 63 - 1, True) else (i, False))"
  by (auto simp: strtol_dec_def dec_prefix_int)

section \<open>Sets and gets on the databases\<close>

text \<open>The key of a command.\<close>

lemma command_key:
  assumes "keys_ok (cl_lib s)" "\<not> type_out_of_range t"
  obtains i lib where "create_key (Some g) (Some n) ly t s = (Some i, s\<lparr>cl_lib := lib\<rparr>)" "keys_ok lib"
    "find_key (Some i) lib = Some \<lparr>key_group = buxton_string_pack g, key_name = buxton_string_pack n, key_layer = packed ly, key_type = t\<rparr>"
    "ls_client lib = ls_client (cl_lib s)"
proof -
  obtain i lib where k: "buxton_key_create (Some g) (Some n) ly t (cl_lib s) = (Some i, lib)"
    using assms(2) by (auto simp: buxton_key_create_def type_out_of_range_def Let_def)
  note c = created_key[OF k] keys_ok_created[OF assms(1) k]
  have "find_key (Some i) lib = Some \<lparr>key_group = buxton_string_pack g, key_name = buxton_string_pack n, key_layer = packed ly, key_type = t\<rparr>"
    using c(1) c(4)[of i] keys_ok_fresh[OF assms(1)] by (simp add: packed_def)
  then show ?thesis using that[of i lib] k c(3) keys_ok_created[OF assms(1) k] by (simp add: create_key_def)
qed

text \<open>The words of a command: no NUL, and short enough for a key.\<close>

definition words_ok :: "bytes \<Rightarrow> bytes \<Rightarrow> bool" where
  "words_ok g n \<longleftrightarrow> NUL \<notin> set g \<and> NUL \<notin> set n \<and> length g + 2 + length n < 2 ^ 31"

definition layer_word :: "bytes \<Rightarrow> bool" where
  "layer_word ly \<longleftrightarrow> NUL \<notin> set ly \<and> length ly + 1 < 2 ^ 32"

lemma command_key_is:
  "\<lparr>key_group = buxton_string_pack g, key_name = buxton_string_pack n, key_layer = packed (Some ly), key_type = t\<rparr> = layer_key ly g (Some n) t"
  "\<lparr>key_group = buxton_string_pack g, key_name = buxton_string_pack n, key_layer = packed None, key_type = t\<rparr> = plain_key g (Some n) t"
  by (simp_all add: layer_key_def plain_key_def packed_def)

lemma words_key:
  assumes "words_ok g n"
  shows "key_ok (layer_key ly g (Some n) t) g (Some n)" "key_ok (plain_key g (Some n) t) g (Some n)"
  using layer_key_ok[of g "Some n"] plain_key_ok[of g "Some n"] assms by (simp_all add: words_ok_def key_text_def)

lemma words_shown:
  assumes "words_ok g n"
  shows "nv_group (layer_key ly g (Some n) t) = Inr g" "nv_name (layer_key ly g (Some n) t) = Inr n"
    "nv_group (plain_key g (Some n) t) = Inr g" "nv_name (plain_key g (Some n) t) = Inr n"
    "layer_word ly \<Longrightarrow> nv_layer (layer_key ly g (Some n) t) = Inr ly"
  using assms by (simp_all add: words_ok_def layer_word_def nv_group_def nv_name_def nv_layer_def get_group_def get_name_def get_layer_def
      dup_member_def layer_key_def plain_key_def buxton_string_pack_def cstr_zstr' nv_def)

lemma layer_word_arg: "layer_word ly \<Longrightarrow> layer_arg slack (key_layer (layer_key ly g n t)) ly"
  by (simp add: layer_word_def layer_key_arg)

text \<open>A process that works on the databases, with the key table of the library.\<close>

definition on_databases :: "(Resources \<times> 'g) cli_state \<Rightarrow> bool" where
  "on_databases s \<longleftrightarrow> cl_direct s \<and> system_ok (cl_control s) \<and> keys_ok (cl_lib s)"

lemma set_on_databases:
  assumes "on_databases s" "words_ok g n" "layer_word ly" "the_layer (cl_control s) ly = Some l" "ci_env e = system_env slack root gdbm"
    "\<not> type_out_of_range t" "parse_value e t v = Some (Inr d)" "data_ok d"
  shows "let c = group_contents (cl_control s) l g;
             ok = (write_allowed (rules (cl_control s)) None c (Some n) \<and> \<not> layer_readonly l)
    in \<exists>s'. cli_set_value e t (Some ly) (Some g) (Some n) (Some v) s = Inr (ok, s') \<and> on_databases s' \<and>
      buxton_direct_set_value (system_env slack root gdbm) (layer_key ly g (Some n) t) d None (cl_control s) = Inr (ok, cl_control s') \<and>
      all_contents (cl_control s') = (if ok then kv_upd (all_contents (cl_control s)) (mem_place l) g (Some n)
             (Some (as_stored d, label_after None (c (Some n)))) else all_contents (cl_control s)) \<and>
      cl_out s' = cl_out s @ (if ok then [] else ''Failed to update key '' @ quote (g @ '':'' @ n) @ '' in layer '' @ quote ly @ [CHR 0x0A])"
proof -
  let ?ok = "write_allowed (rules (cl_control s)) None (group_contents (cl_control s) l g) (Some n) \<and> \<not> layer_readonly l"
  have ctl: "cl_direct s" "system_ok (cl_control s)" "keys_ok (cl_lib s)" using assms(1) by (simp_all add: on_databases_def)
  obtain i lib where k: "create_key (Some g) (Some n) (Some ly) t s = (Some i, s\<lparr>cl_lib := lib\<rparr>)" "keys_ok lib"
    "find_key (Some i) lib = Some (layer_key ly g (Some n) t)"
    by (rule command_key[OF ctl(3) assms(6), of g n "Some ly", unfolded command_key_is])
  have cl: "client_as None None" by (simp add: client_as_def)
  have la: "layer_arg slack (key_layer (layer_key ly g (Some n) t)) ly" by (rule layer_word_arg[OF assms(3)])
  have ko: "key_ok (layer_key ly g (Some n) t) g (Some n)" by (rule words_key[OF assms(2)])
  obtain ctl' where c: "buxton_direct_set_value (system_env slack root gdbm) (layer_key ly g (Some n) t) d None (cl_control s) = Inr (?ok, ctl')"
    "system_ok ctl'" "all_contents ctl' = (if ?ok then kv_upd (all_contents (cl_control s)) (mem_place l) g (Some n)
             (Some (as_stored d, label_after None (group_contents (cl_control s) l g (Some n)))) else all_contents (cl_control s))"
    using sys.set_value_ok[unfolded sys_ctl_ok system_env_slack, OF ctl(2) ko la assms(4) cl assms(8), of root gdbm]
    unfolding group_contents_def all_contents_def by blast
  show ?thesis unfolding Let_def
    using k(1,3) c ctl(1) assms(5,7) k(2) words_shown[OF assms(2)] assms(3)
    by (auto simp: cli_set_value_def arg_def key_at_def direct_ok_def report_set_def out_def on_databases_def)
qed


text \<open>What \<open>set-int32\<close> stores for a number: its low 32 bits, for every number that fits into 64 bits (so
  4294967303 is stored as 7); only beyond that the tool complains, and changes nothing. The same numbers are told
  apart by \<open>set-int64\<close>.\<close>

theorem set_int32_cuts:
  assumes "on_databases s" "words_ok g n" "layer_word ly" "the_layer (cl_control s) ly = Some l" "ci_env e = system_env slack root gdbm"
    "write_allowed (rules (cl_control s)) None (group_contents (cl_control s) l g) (Some n)" "layer_readonly l = False"
  shows "let fits = (- (2 ^ 63) \<le> i \<and> i < 2 ^ 63) in
    \<exists>s'. cli_set_value e BUXTON_TYPE_INT32 (Some ly) (Some g) (Some n) (Some (dec_int i)) s = Inr (fits, s') \<and> on_databases s' \<and>
      map_option fst (group_contents (cl_control s') l g (Some n)) =
        (if fits then Some (DInt32 (word_of_int i)) else map_option fst (group_contents (cl_control s) l g (Some n))) \<and>
      cl_out s' = cl_out s @ (if fits then [] else ''Invalid int32_t value'' @ [CHR 0x0A])"
proof (cases "- (2 ^ 63) \<le> i \<and> i < 2 ^ 63")
  case True
  then have "parse_value e BUXTON_TYPE_INT32 (dec_int i) = Some (Inr (DInt32 (word_of_int i)))"
    by (auto simp: parse_value_def checked_def strtol_dec_int)
  from set_on_databases[OF assms(1-5) _ this] True assms(6,7) show ?thesis
    by (auto simp: Let_def type_out_of_range_def word_le_nat_alt group_contents_def all_contents_def kv_upd_def fun_eq_iff)
next
  case False
  then have p: "parse_value e BUXTON_TYPE_INT32 (dec_int i) = Some (Inl ''Invalid int32_t value'')"
    by (auto simp: parse_value_def checked_def strtol_dec_int)
  have t: "\<not> type_out_of_range BUXTON_TYPE_INT32" by (simp add: type_out_of_range_def word_le_nat_alt)
  have ko: "keys_ok (cl_lib s)" using assms(1) by (simp add: on_databases_def)
  obtain k lib where k: "create_key (Some g) (Some n) (Some ly) BUXTON_TYPE_INT32 s = (Some k, s\<lparr>cl_lib := lib\<rparr>)" "keys_ok lib"
    "find_key (Some k) lib = Some (layer_key ly g (Some n) BUXTON_TYPE_INT32)"
    by (rule command_key[OF ko t, of g n "Some ly", unfolded command_key_is])
  have "cli_set_value e BUXTON_TYPE_INT32 (Some ly) (Some g) (Some n) (Some (dec_int i)) s =
      Inr (False, out ''Invalid int32_t value'' (s\<lparr>cl_lib := lib\<rparr>))"
    using k p by (simp add: cli_set_value_def arg_def key_at_def)
  then show ?thesis using assms(1) k(2) unfolding Let_def if_not_P[OF False] eq_False[THEN iffD2, OF False]
    by (simp add: out_def on_databases_def)
qed


text \<open>On the databases a get command that names no layer never shows a value: the tool takes the result 0 of
  \<open>buxton_direct_get_value\<close>, which is its success, for a failure, so that it tells that the key was not found
  whether it is there or not, and exits with a failure. (The allocator leaves a zero byte behind each block, since
  the names of layers are copied without their NUL.)\<close>

theorem layerless_get_never_shown:
  assumes "on_databases s" "words_ok g n" "ci_env e = system_env slack root gdbm" "\<not> type_out_of_range t"
    "\<forall>i. \<exists>r. slack i = NUL # r" "\<forall>nm \<in> fst ` set (layers (config (cl_control s))). length nm < 2 ^ 32"
  shows "\<exists>s'. cli_get_value e t (Some g) (Some n) None s = Inr (False, s') \<and>
    all_contents (cl_control s') = all_contents (cl_control s) \<and>
    cl_out s' = cl_out s @ ''Requested key was not found: '' @ g @ '':'' @ n @ [CHR 0x0A]"
proof -
  have ctl: "cl_direct s" "system_ok (cl_control s)" "keys_ok (cl_lib s)" using assms(1) by (simp_all add: on_databases_def)
  obtain i lib where k: "create_key (Some g) (Some n) None t s = (Some i, s\<lparr>cl_lib := lib\<rparr>)"
    "find_key (Some i) lib = Some (plain_key g (Some n) t)"
    by (rule command_key[OF ctl(3) assms(4), of g n None, unfolded command_key_is])
  have cl: "client_as None None" by (simp add: client_as_def)
  have nl: "str_value (key_layer (plain_key g (Some n) t)) = None" by (simp add: plain_key_def null_string_def)
  note get = sys.get_value_ok[unfolded sys_ctl_ok system_env_slack, OF ctl(2) words_key(2)[OF assms(2)] cl nl assms(5,6), of root gdbm]
  obtain ret got ctl' where r: "buxton_direct_get_value (system_env slack root gdbm) (plain_key g (Some n) t) None (cl_control s) = Inr (ret, got, ctl')"
    "all_contents ctl' = all_contents (cl_control s)" "ret = 0 \<or> ret = ENOENT \<and> got = None"
    using get unfolding Let_def sys.keeps_def all_contents_def by (metis (no_types, lifting))
  then show ?thesis
    using k ctl(1) assms(3) words_shown[OF assms(2)]
    by (auto simp: cli_get_value_def arg_def key_at_def direct_get_def print_value_def out_def)
qed

section \<open>Commands for the daemon\<close>

text \<open>A call without a callback that is answered succeeds, whatever the answer is.\<close>

lemma quiet_call:
  assumes "daemon_answers (ci_call e) reply" "sendable C" "callbacks (ls_client (cl_lib s)) = Some []"
    "call_type C \<noteq> CONTROL_NOTIFY" "call_type C \<noteq> CONTROL_UNNOTIFY" "call_key C = Some k"
    "serialize_reply (cs_msgid (ls_client (cl_lib s))) [DInt32 w] = Inr reply"
    "\<And>ce c. call ce c = finish_call ce (send_call (request_env.truncate ce) C c)"
  obtains c' msg ps where "call_ok e call s = Inr (True, s\<lparr>cl_lib := (cl_lib s)\<lparr>ls_client := c'\<rparr>\<rparr>)"
    "written c' = written (ls_client (cl_lib s)) @ [msg]"
    "buxton_deserialize_message msg (length msg) = Inr (Some (call_type C, cs_msgid (ls_client (cl_lib s)), ps))"
    "parse_list (call_type C) ps = meant C"
proof -
  define ce where "ce = (ci_call e)\<lparr>rq_callback := None, rq_data := 0, ce_sync := True\<rparr>"
  have x: "list_all wire_ok ([] :: BuxtonData list)" "length ([] :: BuxtonData list) < 4096" by simp_all
  obtain c' msg ps where a: "finish_call ce (send_call (request_env.truncate ce) C (ls_client (cl_lib s))) = Inr (0, c')"
    "written c' = written (ls_client (cl_lib s)) @ [msg]"
    "buxton_deserialize_message msg (length msg) = Inr (Some (call_type C, cs_msgid (ls_client (cl_lib s)), ps))"
    "parse_list (call_type C) ps = meant C"
    by (rule answered_call[OF assms(1-7) x ce_def]) blast
  have "call_ok e call s = Inr (True, s\<lparr>cl_lib := (cl_lib s)\<lparr>ls_client := c'\<rparr>\<rparr>)"
    using a(1) by (simp add: call_ok_def cli_call_def assms(8) ce_def)
  then show ?thesis using that a(2-4) by blast
qed

text \<open>A process that is connected to the daemon.\<close>

definition on_service :: "'s cli_state \<Rightarrow> bool" where
  "on_service s \<longleftrightarrow> \<not> cl_direct s \<and> callbacks (ls_client (cl_lib s)) = Some [] \<and> keys_ok (cl_lib s)"

text \<open>A set command that goes through the daemon is believed to have worked whatever the daemon answers: the tool
  passes no callback, so that the status of the reply is not looked at; it prints nothing and succeeds, also when
  the daemon has refused the value. What it sends is read by the daemon as a set of the value under the layer, the
  group and the name.\<close>

theorem set_believes_any_answer:
  assumes "on_service s" "words_ok g n" "layer_word ly" "daemon_answers (ci_call e) reply" "\<not> type_out_of_range t"
    "parse_value e t v = Some (Inr d)" "plain_value d" "data_type d = t"
    "serialize_reply (cs_msgid (ls_client (cl_lib s))) [DInt32 w] = Inr reply"
  shows "\<exists>s' msg ps. cli_set_value e t (Some ly) (Some g) (Some n) (Some v) s = Inr (True, s') \<and> cl_out s' = cl_out s \<and>
    written (ls_client (cl_lib s')) = written (ls_client (cl_lib s)) @ [msg] \<and>
    buxton_deserialize_message msg (length msg) = Inr (Some (CONTROL_SET, cs_msgid (ls_client (cl_lib s)), ps)) \<and>
    parse_list CONTROL_SET ps = Some (layer_key ly g (Some n) t, Some d)"
proof -
  have c: "\<not> cl_direct s" "callbacks (ls_client (cl_lib s)) = Some []" "keys_ok (cl_lib s)" using assms(1) by (simp_all add: on_service_def)
  let ?k = "layer_key ly g (Some n) t"
  obtain i lib where k: "create_key (Some g) (Some n) (Some ly) t s = (Some i, s\<lparr>cl_lib := lib\<rparr>)" "keys_ok lib"
    "find_key (Some i) lib = Some ?k" "ls_client lib = ls_client (cl_lib s)"
    by (rule command_key[OF c(3) assms(5), of g n "Some ly", unfolded command_key_is])
  have tk: "key_type ?k = t" "str_value (key_group ?k) \<noteq> None" "str_value (key_name ?k) \<noteq> None" "str_value (key_layer ?k) \<noteq> None"
    by (simp_all add: layer_key_def plain_key_def buxton_string_pack_def)
  have un: "t \<noteq> BUXTON_TYPE_UNSET" using assms(7,8) by (cases d) auto
  have "wire_key ?k" using assms(2,3) by (simp add: wire_key_def layer_key_def plain_key_def words_ok_def layer_word_def pack_wire)
  then have send: "sendable (SetValue ?k (value_block d))"
    using value_block_back[OF assms(7)] assms(8) tk(1) by simp
  let ?s = "s\<lparr>cl_lib := lib\<rparr>" and ?call = "\<lambda>ce. buxton_set_value ce (Some ?k) (Some (value_block d))"
  have call: "?call ce c = finish_call ce (send_call (request_env.truncate ce) (SetValue ?k (value_block d)) c)" for ce c
    using tk un assms(5) by (auto simp: buxton_set_value_def)
  have q: "callbacks (ls_client (cl_lib ?s)) = Some []" "call_type (SetValue ?k (value_block d)) \<noteq> CONTROL_NOTIFY"
    "call_type (SetValue ?k (value_block d)) \<noteq> CONTROL_UNNOTIFY" "call_key (SetValue ?k (value_block d)) = Some ?k"
    "serialize_reply (cs_msgid (ls_client (cl_lib ?s))) [DInt32 w] = Inr reply" using c(2) k(4) assms(9) by simp_all
  obtain c' msg ps where a: "call_ok e ?call ?s = Inr (True, ?s\<lparr>cl_lib := (cl_lib ?s)\<lparr>ls_client := c'\<rparr>\<rparr>)"
    "written c' = written (ls_client (cl_lib ?s)) @ [msg]"
    "buxton_deserialize_message msg (length msg) = Inr (Some (CONTROL_SET, cs_msgid (ls_client (cl_lib ?s)), ps))"
    "parse_list CONTROL_SET ps = meant (SetValue ?k (value_block d))"
    by (rule quiet_call[OF assms(4) send q(1-5) call, unfolded call_type.simps]) blast
  have "meant (SetValue ?k (value_block d)) = Some (?k, Some d)" using value_block_back(1)[OF assms(7)] assms(8) tk(1) by simp
  then show ?thesis
    using k a c(1) assms(6) by (simp add: cli_set_value_def arg_def key_at_def report_set_def)
qed


section \<open>A value through the daemon\<close>

text \<open>
  How a word \<open>v\<close> of a set command of the type \<open>ty\<close> looks when the value is printed: numbers are cut to the
  width of their type, of all types that \<open>strtol\<close> and its relatives read as 64 bits.
\<close>

definition prints_as :: "BuxtonDataType \<Rightarrow> bytes \<Rightarrow> bytes \<Rightarrow> bool" where
  "prints_as ty v t \<longleftrightarrow>
     ty = BUXTON_TYPE_STRING \<and> t = v \<and> NUL \<notin> set v \<and> length v + 1 < 2 ^ 32 \<or>
     ty = BUXTON_TYPE_BOOLEAN \<and> t = ''true'' \<and> map tolower v \<in> {''true'', ''on'', ''enable'', ''yes'', ''y'', ''t'', ''1''} \<or>
     ty = BUXTON_TYPE_BOOLEAN \<and> t = ''false'' \<and> map tolower v \<in> {''false'', ''off'', ''disable'', ''no'', ''n'', ''f'', ''0''} \<or>
     (\<exists>i. v = dec_int i \<and>
       (ty = BUXTON_TYPE_INT32 \<and> - (2 ^ 63) \<le> i \<and> i < 2 ^ 63 \<and> t = dec_int ((i + 2 ^ 31) mod 2 ^ 32 - 2 ^ 31) \<or>
        ty = BUXTON_TYPE_UINT32 \<and> - (2 ^ 63) \<le> i \<and> i < 2 ^ 63 \<and> t = dec_int (i mod 2 ^ 32) \<or>
        ty = BUXTON_TYPE_INT64 \<and> - (2 ^ 63) \<le> i \<and> i < 2 ^ 63 \<and> t = v \<or>
        ty = BUXTON_TYPE_UINT64 \<and> - (2 ^ 64) < i \<and> i < 2 ^ 64 \<and> t = dec_int (i mod 2 ^ 64)))"

definition type_word :: "BuxtonDataType \<Rightarrow> bytes" where
  "type_word ty =
     (if ty = BUXTON_TYPE_STRING then ''string'' else if ty = BUXTON_TYPE_BOOLEAN then ''bool''
      else if ty = BUXTON_TYPE_INT32 then ''int32'' else if ty = BUXTON_TYPE_UINT32 then ''uint32''
      else if ty = BUXTON_TYPE_INT64 then ''int64'' else ''uint64'')"

lemma sint_cut32: "sint (word_of_int i :: 32 word) = (i + 2 ^ 31) mod 2 ^ 32 - 2 ^ 31"
  by (simp add: sint_sbintrunc' signed_take_bit_eq_take_bit_shift take_bit_eq_mod)

lemma sint_fits64:
  assumes "- (2 ^ 63) \<le> i" "i < 2 ^ 63"
  shows "sint (word_of_int i :: 64 word) = i"
proof -
  have "sint (word_of_int i :: 64 word) = (i + 2 ^ 63) mod 2 ^ 64 - 2 ^ 63"
    by (simp add: sint_sbintrunc' signed_take_bit_eq_take_bit_shift take_bit_eq_mod)
  also have "(i + 2 ^ 63) mod 2 ^ 64 = i + 2 ^ 63" using assms by (intro mod_pos_pos_trivial) auto
  finally show ?thesis by simp
qed

lemma strtoull_dec_signed: "- (2 ^ 64) < i \<Longrightarrow> i < 2 ^ 64 \<Longrightarrow> strtoull_dec (dec_int i) = (word_of_int i, False)"
  by (auto simp: strtoull_dec_def dec_prefix_int)

lemma bool_words:
  "map tolower v \<in> {''true'', ''on'', ''enable'', ''yes'', ''y'', ''t'', ''1''} \<Longrightarrow> bool_text v = Some (CHR 0x01)"
  "map tolower v \<in> {''false'', ''off'', ''disable'', ''no'', ''n'', ''f'', ''0''} \<Longrightarrow> bool_text v = Some NUL"
proof -
  have yes: "map (map tolower) [''true'', ''on'', ''enable'', ''yes'', ''y'', ''t'', ''1''] = [''true'', ''on'', ''enable'', ''yes'', ''y'', ''t'', ''1'']"
    and no: "map (map tolower) [''false'', ''off'', ''disable'', ''no'', ''n'', ''f'', ''0''] = [''false'', ''off'', ''disable'', ''no'', ''n'', ''f'', ''0'']"
    by code_simp+
  have m: "list_ex (strcaseeq v) ws \<longleftrightarrow> map tolower v \<in> set (map (map tolower) ws)" for ws
    by (auto simp: list_ex_iff strcaseeq_def)
  show "bool_text v = Some (CHR 0x01)" if "map tolower v \<in> {''true'', ''on'', ''enable'', ''yes'', ''y'', ''t'', ''1''}"
    using that unfolding bool_text_def m yes by simp
  show "bool_text v = Some NUL" if "map tolower v \<in> {''false'', ''off'', ''disable'', ''no'', ''n'', ''f'', ''0''}"
    using that unfolding bool_text_def m yes no by auto
qed

lemma printed_value:
  assumes "prints_as ty v t"
  obtains d where "\<And>e :: 's cli_env. parse_value e ty v = Some (Inr d)" "data_type d = ty" "plain_value d"
    "\<And>e :: 't cli_env. shown e d = Inr (type_word ty, t)"
proof -
  consider (string) "ty = BUXTON_TYPE_STRING" "t = v" "NUL \<notin> set v" "length v + 1 < 2 ^ 32"
    | (yes) "ty = BUXTON_TYPE_BOOLEAN" "t = ''true''" "map tolower v \<in> {''true'', ''on'', ''enable'', ''yes'', ''y'', ''t'', ''1''}"
    | (no) "ty = BUXTON_TYPE_BOOLEAN" "t = ''false''" "map tolower v \<in> {''false'', ''off'', ''disable'', ''no'', ''n'', ''f'', ''0''}"
    | (int32) i where "v = dec_int i" "ty = BUXTON_TYPE_INT32" "- (2 ^ 63) \<le> i" "i < 2 ^ 63" "t = dec_int ((i + 2 ^ 31) mod 2 ^ 32 - 2 ^ 31)"
    | (uint32) i where "v = dec_int i" "ty = BUXTON_TYPE_UINT32" "- (2 ^ 63) \<le> i" "i < 2 ^ 63" "t = dec_int (i mod 2 ^ 32)"
    | (int64) i where "v = dec_int i" "ty = BUXTON_TYPE_INT64" "- (2 ^ 63) \<le> i" "i < 2 ^ 63" "t = v"
    | (uint64) i where "v = dec_int i" "ty = BUXTON_TYPE_UINT64" "- (2 ^ 64) < i" "i < 2 ^ 64" "t = dec_int (i mod 2 ^ 64)"
    using assms unfolding prints_as_def by (elim disjE exE conjE) blast+
  then show ?thesis
  proof cases
    case string
    then show ?thesis
      using that[of "DString (buxton_string_pack v)"] cstr_zstr'[OF string(3)]
      by (auto simp: parse_value_def nv_def type_word_def buxton_string_pack_def)
  next
    case yes
    note b = bool_words(1)[OF yes(3)]
    from yes(1,2) b show ?thesis using that[of "DBoolean (CHR 0x01)"] by (simp add: parse_value_def type_word_def)
  next
    case no
    note b = bool_words(2)[OF no(3)]
    from no(1,2) b show ?thesis using that[of "DBoolean NUL"] by (simp add: parse_value_def type_word_def)
  next
    case int32
    then show ?thesis
      using that[of "DInt32 (word_of_int i)"] sint_cut32[of i]
      by (simp add: parse_value_def checked_def strtol_dec_int type_word_def)
  next
    case uint32
    then show ?thesis
      using that[of "DUInt32 (word_of_int i)"]
      by (simp add: parse_value_def checked_def strtol_dec_int type_word_def uint_word_of_int)
  next
    case int64
    then show ?thesis
      using that[of "DInt64 (word_of_int i)"] sint_fits64[of i]
      by (simp add: parse_value_def checked_def strtol_dec_int type_word_def)
  next
    case uint64
    then show ?thesis
      using that[of "DUInt64 (word_of_int i)"] strtoull_dec_signed[of i]
      by (simp add: parse_value_def checked_def type_word_def uint_word_of_int)
  qed
qed

text \<open>A get command through the daemon, whose reply holds the value \<open>d\<close>.\<close>

lemma get_answered:
  assumes "on_service s" "words_ok g n" "layer_word ly" "\<not> type_out_of_range ask" "plain_value d" "shown e d = Inr (tn, t)"
    "serialize_reply (cs_msgid (ls_client (cl_lib s))) [DInt32 0, d] = Inr reply" "daemon_answers (ci_call e) reply"
  shows "\<exists>s' msg ps. cli_get_value e ask (Some ly) (Some g) (Some n) s = Inr (True, s') \<and>
    written (ls_client (cl_lib s')) = written (ls_client (cl_lib s)) @ [msg] \<and>
    buxton_deserialize_message msg (length msg) = Inr (Some (CONTROL_GET, cs_msgid (ls_client (cl_lib s)), ps)) \<and>
    parse_list CONTROL_GET ps = Some (layer_key ly g (Some n) ask, None) \<and>
    cl_out s' = cl_out s @ ''['' @ ly @ ''] '' @ g @ '':'' @ n @ '' = '' @ tn @ '': '' @ t @ [CHR 0x0A]"
proof -
  have c: "\<not> cl_direct s" "callbacks (ls_client (cl_lib s)) = Some []" "keys_ok (cl_lib s)" using assms(1) by (simp_all add: on_service_def)
  let ?k = "layer_key ly g (Some n) ask"
  obtain i lib where k: "create_key (Some g) (Some n) (Some ly) ask s = (Some i, s\<lparr>cl_lib := lib\<rparr>)" "keys_ok lib"
    "find_key (Some i) lib = Some ?k" "ls_client lib = ls_client (cl_lib s)"
    by (rule command_key[OF c(3) assms(4), of g n "Some ly", unfolded command_key_is])
  have tk: "key_type ?k = ask" "str_value (key_group ?k) \<noteq> None" "str_value (key_name ?k) \<noteq> None"
    by (simp_all add: layer_key_def plain_key_def buxton_string_pack_def)
  have "wire_key ?k" using assms(2,3) by (simp add: wire_key_def layer_key_def plain_key_def words_ok_def layer_word_def pack_wire)
  then have send: "sendable (GetValue ?k)" by simp
  define ce where "ce = (ci_call e)\<lparr>rq_callback := Some 0, rq_data := 0, ce_sync := True\<rparr>"
  have x: "callbacks (ls_client lib) = Some []" "call_type (GetValue ?k) \<noteq> CONTROL_NOTIFY" "call_type (GetValue ?k) \<noteq> CONTROL_UNNOTIFY"
    "call_key (GetValue ?k) = Some ?k" "serialize_reply (cs_msgid (ls_client lib)) [DInt32 0, d] = Inr reply"
    "list_all wire_ok [d]" "length [d] < 4096"
    using c(2) k(4) assms(7) value_block_back(2)[OF assms(5)] by simp_all
  obtain c' r msg ps where a: "finish_call ce (send_call (request_env.truncate ce) (GetValue ?k) (ls_client lib)) = Inr (0, c')"
    "ran c' = ran (ls_client lib) @ [(0, 0, r)]" "r_type r = CONTROL_GET" "r_data r = DInt32 0 # [d]"
    "written c' = written (ls_client lib) @ [msg]" "buxton_deserialize_message msg (length msg) = Inr (Some (CONTROL_GET, cs_msgid (ls_client lib), ps))"
    "parse_list CONTROL_GET ps = meant (GetValue ?k)"
    by (rule answered_call[OF assms(8) send x ce_def, unfolded call_type.simps option.case]) blast
  have call: "buxton_get_value ce (Some ?k) (ls_client lib) = Inr (0, c')"
    using a(1) tk assms(4) by (simp add: buxton_get_value_def)
  have st: "buxton_response_status (Some r) = Inr 0"
    using a(3,4) by (simp add: buxton_response_status_def item_def union_bytes_def)
  have val: "buxton_response_value (Some r) = Inr (Some d)" "buxton_response_value_type (Some r) = Some (data_type d)" "d \<noteq> DZero"
  proof -
    have i: "value_item r = Some d" using a(3,4) by (simp add: value_item_def item_def)
    show "buxton_response_value (Some r) = Inr (Some d)"
    proof (cases d)
      case (DString v)
      then obtain w where "v = buxton_string_pack w" "NUL \<notin> set w" using assms(5) by auto
      then show ?thesis using i DString cstr_zstr'[of w] by (simp add: buxton_response_value_def buxton_string_pack_def)
    qed (use i assms(5) in \<open>simp_all add: buxton_response_value_def\<close>)
    show "buxton_response_value_type (Some r) = Some (data_type d)" using i by (simp add: buxton_response_value_type_def)
    show "d \<noteq> DZero" using assms(5) by auto
  qed
  have "get_value_callback r v = Inr (Some d)" for v
    using st val value_block_back(1)[OF assms(5)] by (simp add: get_value_callback_def)
  then have run: "run_each get_value_callback [r] v = Inr (Some d)" for v by simp
  let ?s = "s\<lparr>cl_lib := lib\<lparr>ls_client := c'\<rparr>\<rparr>"
  have cc: "cli_call e True (\<lambda>ce. buxton_get_value ce (Some ?k)) (s\<lparr>cl_lib := lib\<rparr>) = Inr (0, [r], ?s)"
    using call a(2) by (simp add: cli_call_def ce_def)
  have "cli_get_value e ask (Some ly) (Some g) (Some n) s =
      Inr (True, out (''['' @ ly @ ''] '' @ g @ '':'' @ n @ '' = '' @ tn @ '': '' @ t) ?s)"
    using k(1,3) cc run c(1) words_shown[OF assms(2)] assms(6) val(3)
    by (simp add: cli_get_value_def arg_def key_at_def print_value_def)
  then show ?thesis using a(5-7) k(4) by (simp add: out_def)
qed

text \<open>C40. A value that goes through two runs of the tool and the daemon. A set command with the word \<open>v\<close>, run in
  one process, succeeds, prints nothing, and sends a message that the daemon reads as a SET of a value \<open>d\<close> under the layer, the group
  and the name (it succeeds whatever status \<open>w\<close> the daemon answers). A get command of the same type, or without
  a type, run in another process, sends what the daemon reads as a GET of that key; and when the daemon answers
  it with the value \<open>d\<close>, it prints the layer, the group, the name, the type and the text of \<open>d\<close>: for a
  string the word itself, for a boolean \<open>true\<close> or \<open>false\<close> for the seven words for each, in upper or lower case, and for a number its
  value in the range of the type (\<open>prints_as\<close>): the low 32 bits of the number for \<open>int32\<close> and \<open>uint32\<close>, also when it did not fit.\<close>

theorem cli_value_through_daemon:
  assumes "prints_as ty v t" "words_ok g n" "layer_word ly" "ask = ty \<or> ask = BUXTON_TYPE_UNSET"
    "on_service s" "serialize_reply (cs_msgid (ls_client (cl_lib s))) [DInt32 w] = Inr reply" "daemon_answers (ci_call e) reply"
    "on_service s'"
  shows "\<exists>s1 msg ps d. cli_set_value e ty (Some ly) (Some g) (Some n) (Some v) s = Inr (True, s1) \<and> cl_out s1 = cl_out s \<and>
    written (ls_client (cl_lib s1)) = written (ls_client (cl_lib s)) @ [msg] \<and>
    buxton_deserialize_message msg (length msg) = Inr (Some (CONTROL_SET, cs_msgid (ls_client (cl_lib s)), ps)) \<and>
    parse_list CONTROL_SET ps = Some (layer_key ly g (Some n) ty, Some d) \<and> parse_value e ty v = Some (Inr d) \<and>
    (\<forall>answer. serialize_reply (cs_msgid (ls_client (cl_lib s'))) [DInt32 0, d] = Inr answer \<and> daemon_answers (ci_call e') answer \<longrightarrow>
      (\<exists>s2 msg' ps'. cli_get_value e' ask (Some ly) (Some g) (Some n) s' = Inr (True, s2) \<and>
        written (ls_client (cl_lib s2)) = written (ls_client (cl_lib s')) @ [msg'] \<and>
        buxton_deserialize_message msg' (length msg') = Inr (Some (CONTROL_GET, cs_msgid (ls_client (cl_lib s')), ps')) \<and>
        parse_list CONTROL_GET ps' = Some (layer_key ly g (Some n) ask, None) \<and>
        cl_out s2 = cl_out s' @ ''['' @ ly @ ''] '' @ g @ '':'' @ n @ '' = '' @ type_word ty @ '': '' @ t @ [CHR 0x0A]))"
proof -
  obtain d where d: "parse_value e ty v = Some (Inr d)" "data_type d = ty" "plain_value d" "shown e' d = Inr (type_word ty, t)"
    using printed_value[OF assms(1)] by metis
  have t: "\<not> type_out_of_range ty" "\<not> type_out_of_range ask"
    using d(2,3) assms(4) by (cases d; auto simp: type_out_of_range_def word_le_nat_alt)+
  obtain s1 msg ps where "cli_set_value e ty (Some ly) (Some g) (Some n) (Some v) s = Inr (True, s1)" "cl_out s1 = cl_out s"
    "written (ls_client (cl_lib s1)) = written (ls_client (cl_lib s)) @ [msg]"
    "buxton_deserialize_message msg (length msg) = Inr (Some (CONTROL_SET, cs_msgid (ls_client (cl_lib s)), ps))"
    "parse_list CONTROL_SET ps = Some (layer_key ly g (Some n) ty, Some d)"
    using set_believes_any_answer[OF assms(5,2,3,7) t(1) d(1,3,2) assms(6)] by blast
  then show ?thesis using get_answered[OF assms(8,2,3) t(2) d(3,4)] d(1) by blast
qed

section \<open>The command line\<close>

text \<open>Every command of the table is found by its name.\<close>

lemma commands_found: "c \<in> set commands \<Longrightarrow> find_command (cmd_name c) = Some c"
proof -
  have d: "distinct (map cmd_name commands)" by code_simp
  have "find (\<lambda>x. cmd_name x = cmd_name c) cs = Some c" if "c \<in> set cs" "distinct (map cmd_name cs)" for cs
    using that by (induction cs) auto
  then show "c \<in> set commands \<Longrightarrow> find_command (cmd_name c) = Some c" using d by (simp add: find_command_def)
qed

lemma out_keeps [simp]: "cl_control (out t s) = cl_control s" "cl_lib (out t s) = cl_lib s" "cl_direct (out t s) = cl_direct s"
  by (simp_all add: out_def)

lemma out_all_keeps: "cl_control (fold (\<lambda>c. out (f c)) cs s) = cl_control s \<and> cl_lib (fold (\<lambda>c. out (f c)) cs s) = cl_lib s"
  by (induction cs arbitrary: s) simp_all

lemma help_keeps [simp]: "cl_control (print_help s) = cl_control s" "cl_lib (print_help s) = cl_lib s"
  by (simp_all add: print_help_def out_all_keeps)

text \<open>A command line that is wrong, or that only asks for help or for the version, ends with a failure before anything is opened.\<close>

definition runs_command :: "cli_options \<Rightarrow> bytes list \<Rightarrow> bool" where
  "runs_command opt words \<longleftrightarrow> \<not> op_version opt \<and> \<not> op_help opt \<and> (case words of
       [] \<Rightarrow> False
     | name # args \<Rightarrow> (case find_command name of
           None \<Rightarrow> False
         | Some c \<Rightarrow> min_arguments c \<le> length args \<and> length args \<le> max_arguments c))"

lemma usage_error:
  assumes "\<not> runs_command (read_options opts) words"
  shows "\<exists>s. buxtonctl w opts words = Inr (EXIT_FAILURE, s) \<and> cl_control s = cl_control (fresh_cli w) \<and> cl_lib s = cl_lib (fresh_cli w)"
  using assms
  by (auto simp: buxtonctl_def runs_command_def Let_def print_version_def print_usage_def split: list.splits option.splits)

section \<open>Witnesses\<close>

definition sample_tool :: "(Resources \<times> Resources) cli_state" where
  "sample_tool = \<lparr>cl_control = sample_ctl, cl_direct = True, cl_lib = fresh_process, cl_out = []\<rparr>"

definition sample_tool_env :: "allocator \<Rightarrow> bytes \<Rightarrow> (Resources \<times> Resources) cli_env" where
  "sample_tool_env slack reply = \<lparr>ci_env = system_env slack None no_gdbm, ci_call = se_call (sample_surroundings 1 reply),
     ci_strtof = (\<lambda>_. (0, False)), ci_strtod = (\<lambda>_. (0, False)), ci_float_text = (\<lambda>_. []), ci_double_text = (\<lambda>_. [])\<rparr>"

lemma sample_tool_ok: "on_databases sample_tool"
  using sample_ctl_ok by (simp add: on_databases_def sample_tool_def fresh_process_def keys_ok_def)

lemma sample_words: "words_ok ''g'' ''k''" "layer_word ''sys''"
  by (simp_all add: words_ok_def layer_word_def)

lemma sample_tool_layer: "the_layer (cl_control sample_tool) ''sys'' = Some (sample_layer LAYER_SYSTEM 5 ''sys'')"
  using sample_the_layer by (simp add: sample_tool_def)

lemma sample_tool_write:
  "write_allowed (rules (cl_control sample_tool)) None (group_contents (cl_control sample_tool) (sample_layer LAYER_SYSTEM 5 ''sys'') ''g'') (Some ''k'')"
  by (simp add: write_allowed_def group_contents_def sample_tool_def sample_get sample_place client_may_def)

lemma sample_tool_env_sel: "ci_env (sample_tool_env slack reply) = system_env slack None no_gdbm"
  "ci_call (sample_tool_env slack reply) = se_call (sample_surroundings 1 reply)"
  by (simp_all add: sample_tool_env_def)

text \<open>A process that is connected to the daemon.\<close>

definition sample_service :: "(Resources \<times> Resources) cli_state" where
  "sample_service = sample_tool\<lparr>cl_direct := False,
     cl_lib := fresh_process\<lparr>ls_client := (ls_client fresh_process)\<lparr>callbacks := Some []\<rparr>\<rparr>\<rparr>"

text \<open>4294967303 as an \<open>int32\<close>, to a daemon that refuses the set with 13 and answers the get with what it was sent.\<close>

theorem cli_value_through_daemon_witness:
  "\<exists>reply answer s1 s2. serialize_reply 0 [DInt32 13] = Inr reply \<and> serialize_reply 0 [DInt32 0, DInt32 7] = Inr answer \<and>
    cli_set_value (sample_tool_env (\<lambda>_. []) reply) BUXTON_TYPE_INT32 (Some ''sys'') (Some ''g'') (Some ''k'') (Some ''4294967303'') sample_service =
      Inr (True, s1) \<and>
    cli_get_value (sample_tool_env (\<lambda>_. []) answer) BUXTON_TYPE_UNSET (Some ''sys'') (Some ''g'') (Some ''k'') sample_service = Inr (True, s2) \<and>
    cl_out s2 = ''[sys] g:k = int32: 7'' @ [CHR 0x0A]"
proof -
  have v: "dec_int 4294967303 = ''4294967303''" "dec_int 7 = ''7''"
    by (simp_all add: dec_int_def dec_nat.simps dec_digit_def char_of_def bit_iff_odd)
  have p: "prints_as BUXTON_TYPE_INT32 ''4294967303'' ''7''"
    unfolding prints_as_def by (intro disjI2 exI[of _ 4294967303]) (simp add: v)
  obtain reply where r: "serialize_reply 0 [DInt32 13] = Inr reply"
    unfolding serialize_reply_def by (rule message_roundtrip_lemma[of "[DInt32 13]" CONTROL_STATUS 0]) auto
  obtain answer where a: "serialize_reply 0 [DInt32 0, DInt32 7] = Inr answer"
    unfolding serialize_reply_def by (rule message_roundtrip_lemma[of "[DInt32 0, DInt32 7]" CONTROL_STATUS 0]) auto
  have la: "length answer = 36" using a by (auto simp: serialize_reply_def buxton_serialize_message_def)
  have s: "on_service sample_service" "cs_msgid (ls_client (cl_lib sample_service)) = 0" "cl_out sample_service = []"
    by (simp_all add: on_service_def sample_service_def sample_tool_def fresh_process_def keys_ok_def)
  have ans: "daemon_answers (ci_call (sample_tool_env (\<lambda>_. []) reply)) reply" "daemon_answers (ci_call (sample_tool_env (\<lambda>_. []) answer)) answer"
    using sample_answers[of reply] sample_answers[of answer] reply_length(1)[OF r] la by (simp_all add: answering_def sample_tool_env_sel)
  have r': "serialize_reply (cs_msgid (ls_client (cl_lib sample_service))) [DInt32 13] = Inr reply" using r s(2) by simp
  have ask: "BUXTON_TYPE_UNSET = BUXTON_TYPE_INT32 \<or> BUXTON_TYPE_UNSET = (BUXTON_TYPE_UNSET :: BuxtonDataType)" by simp
  obtain s1 msg ps d where c: "cli_set_value (sample_tool_env (\<lambda>_. []) reply) BUXTON_TYPE_INT32 (Some ''sys'') (Some ''g'') (Some ''k'') (Some ''4294967303'') sample_service =
      Inr (True, s1)" "parse_list CONTROL_SET ps = Some (layer_key ''sys'' ''g'' (Some ''k'') BUXTON_TYPE_INT32, Some d)"
    "parse_value (sample_tool_env (\<lambda>_. []) reply) BUXTON_TYPE_INT32 ''4294967303'' = Some (Inr d)"
    "\<forall>answer'. serialize_reply (cs_msgid (ls_client (cl_lib sample_service))) [DInt32 0, d] = Inr answer' \<and>
       daemon_answers (ci_call (sample_tool_env (\<lambda>_. []) answer)) answer' \<longrightarrow>
      (\<exists>s2 msg' ps'. cli_get_value (sample_tool_env (\<lambda>_. []) answer) BUXTON_TYPE_UNSET (Some ''sys'') (Some ''g'') (Some ''k'') sample_service = Inr (True, s2) \<and>
        written (ls_client (cl_lib s2)) = written (ls_client (cl_lib sample_service)) @ [msg'] \<and>
        buxton_deserialize_message msg' (length msg') = Inr (Some (CONTROL_GET, cs_msgid (ls_client (cl_lib sample_service)), ps')) \<and>
        parse_list CONTROL_GET ps' = Some (layer_key ''sys'' ''g'' (Some ''k'') BUXTON_TYPE_UNSET, None) \<and>
        cl_out s2 = cl_out sample_service @ ''['' @ ''sys'' @ ''] '' @ ''g'' @ '':'' @ ''k'' @ '' = '' @ type_word BUXTON_TYPE_INT32 @ '': '' @ ''7'' @ [CHR 0x0A])"
    using cli_value_through_daemon[where e' = "sample_tool_env (\<lambda>_. []) answer", OF p sample_words ask s(1) r' ans(1) s(1)]
    by (elim exE conjE that)
  have "strtol_dec ''4294967303'' = (4294967303, False)" using strtol_dec_int[of 4294967303] by (simp add: v)
  then have "d = DInt32 (word_of_int 4294967303)" using c(3) by (simp add: parse_value_def checked_def)
  moreover have "word_of_int 4294967303 = (7 :: 32 word)" by simp
  ultimately have d: "d = DInt32 7" by metis
  have "serialize_reply (cs_msgid (ls_client (cl_lib sample_service))) [DInt32 0, d] = Inr answer" using a s(2) d by simp
  then obtain s2 where "cli_get_value (sample_tool_env (\<lambda>_. []) answer) BUXTON_TYPE_UNSET (Some ''sys'') (Some ''g'') (Some ''k'') sample_service = Inr (True, s2)"
    "cl_out s2 = ''[sys] g:k = int32: 7'' @ [CHR 0x0A]"
    using c(4) ans(2) s(3) by (auto simp: type_word_def)
  then show ?thesis using r a c(1) by blast
qed

theorem set_int32_cuts_witness:
  "\<exists>s'. cli_set_value (sample_tool_env (\<lambda>_. []) []) BUXTON_TYPE_INT32 (Some ''sys'') (Some ''g'') (Some ''k'') (Some ''4294967303'') sample_tool = Inr (True, s') \<and>
    map_option fst (group_contents (cl_control s') (sample_layer LAYER_SYSTEM 5 ''sys'') ''g'' (Some ''k'')) = Some (DInt32 7)"
proof -
  have t: "dec_int 4294967303 = ''4294967303''"
    by (simp add: dec_int_def dec_nat.simps dec_digit_def char_of_def bit_iff_odd)
  have w: "word_of_int 4294967303 = (7 :: 32 word)" by simp
  have e: "ci_env (sample_tool_env (\<lambda>_. []) []) = system_env (\<lambda>_. []) None no_gdbm" by (rule sample_tool_env_sel)
  have ro: "layer_readonly (sample_layer LAYER_SYSTEM 5 ''sys'') = False" by (simp add: sample_layer_def)
  show ?thesis
    using set_int32_cuts[OF sample_tool_ok sample_words sample_tool_layer e sample_tool_write ro, of 4294967303]
    by (auto simp: Let_def t w)
qed

theorem layerless_get_never_shown_witness:
  "\<exists>s'. cli_get_value (sample_tool_env (\<lambda>_. [NUL]) []) BUXTON_TYPE_INT32 (Some ''g'') (Some ''k'') None sample_tool = Inr (False, s') \<and>
    cl_out s' = ''Requested key was not found: g:k'' @ [CHR 0x0A]"
proof -
  have t: "\<not> type_out_of_range BUXTON_TYPE_INT32" by (simp add: type_out_of_range_def word_le_nat_alt)
  have e: "ci_env (sample_tool_env (\<lambda>_. [NUL]) []) = system_env (\<lambda>_. [NUL]) None no_gdbm" by (rule sample_tool_env_sel)
  have o: "cl_out sample_tool = []" "\<forall>nm \<in> fst ` set (layers (config (cl_control sample_tool))). length nm < 2 ^ 32"
    by (simp_all add: sample_tool_def sample_ctl_def)
  show ?thesis
    using layerless_get_never_shown[OF sample_tool_ok sample_words(1) e t _ o(2)] o(1) by auto
qed

text \<open>A daemon that refuses with 13.\<close>

theorem set_believes_any_answer_witness:
  "\<exists>reply s'. serialize_reply 0 [DInt32 13] = Inr reply \<and>
    cli_set_value (sample_tool_env (\<lambda>_. []) reply) BUXTON_TYPE_BOOLEAN (Some ''sys'') (Some ''g'') (Some ''k'') (Some ''yes'')
      (sample_tool\<lparr>cl_direct := False, cl_lib := fresh_process\<lparr>ls_client := (ls_client fresh_process)\<lparr>callbacks := Some []\<rparr>\<rparr>\<rparr>) = Inr (True, s') \<and> cl_out s' = []"
proof -
  let ?s = "sample_tool\<lparr>cl_direct := False, cl_lib := fresh_process\<lparr>ls_client := (ls_client fresh_process)\<lparr>callbacks := Some []\<rparr>\<rparr>\<rparr>"
  obtain reply where r: "serialize_reply 0 [DInt32 13] = Inr reply"
    unfolding serialize_reply_def by (rule message_roundtrip_lemma[of "[DInt32 13]" CONTROL_STATUS 0]) auto
  have s: "on_service ?s" "cs_msgid (ls_client (cl_lib ?s)) = 0" "cl_out ?s = []"
    by (simp_all add: on_service_def sample_tool_def fresh_process_def keys_ok_def)
  have a: "daemon_answers (ci_call (sample_tool_env (\<lambda>_. []) reply)) reply"
    using sample_answers[of reply] reply_length(1)[OF r] by (simp add: answering_def sample_tool_env_sel)
  have t: "\<not> type_out_of_range BUXTON_TYPE_BOOLEAN" by (simp add: type_out_of_range_def word_le_nat_alt)
  have "bool_text ''yes'' = Some (CHR 0x01)" by code_simp
  then have p: "parse_value (sample_tool_env (\<lambda>_. []) reply) BUXTON_TYPE_BOOLEAN ''yes'' = Some (Inr (DBoolean (CHR 0x01)))"
    by (simp add: parse_value_def)
  have r': "serialize_reply (cs_msgid (ls_client (cl_lib ?s))) [DInt32 13] = Inr reply" using r s(2) by simp
  show ?thesis
    using set_believes_any_answer[OF s(1) sample_words a t p _ _ r'] r s(3) by auto
qed

end
